(* ===== verification/Jst_Lexer.thy ===== *)
theory Jst_Lexer
  imports Jst_Prelude
begin

text \<open>
  The lexer of the jst language: \<^verbatim>\<open>src/buildtool/jstlang/ast/native/lexer.{hpp,cpp}\<close>.
  The class's private fields are the record \<open>lexer\<close>; every member function is a
  function of that record, named as in the source. A thrown \<^verbatim>\<open>LexerException\<close> is the
  left side of a sum. The loops of the source are recursive functions whose termination
  is proved from the number of characters left.
\<close>

section \<open>Tokens\<close>

datatype TokenType =
    BRACE_L | BRACE_R | BRACKET_L | BRACKET_R | COMMA | DOLLAR | DOT | PAREN_L | PAREN_R
  | SEMICOLON
  | IDENTIFIER | NUMBER | OPERATOR | STRING_DOUBLE | STRING_SINGLE | TEXT_BLOCK
  | REF_STRING | VAR_STRING
  | FLOAT | INTEGER
  | ASSERT | ELSE | ERROR | FALSE | FOR | FUNCTION | IF | IMPORT | IMPORTSTR | IMPORTBIN
  | IN | LOCAL | NULL_LIT | THEN_KW | TRUE | AT_SIGN
  | END_OF_FILE

record Token =
  tok_file :: string
  tok_type :: TokenType
  tok_value :: string
  tok_line :: nat
  tok_column :: nat

definition Token_eq :: "Token \<Rightarrow> Token \<Rightarrow> bool" where
  "Token_eq t u \<longleftrightarrow> tok_type t = tok_type u \<and> tok_value t = tok_value u"

definition kSimpleTokens :: "(char \<times> TokenType) list" where
  "kSimpleTokens =
     [(CHR ''{'', BRACE_L), (CHR ''}'', BRACE_R),
      (CHR ''['', BRACKET_L), (CHR '']'', BRACKET_R),
      (CHR ''('', PAREN_L), (CHR '')'', PAREN_R),
      (CHR ''.'', DOT), (CHR '','', COMMA), (CHR '';'', SEMICOLON)]"

definition kKeywords :: "(string \<times> TokenType) list" where
  "kKeywords =
     [(''assert'', ASSERT), (''else'', ELSE), (''error'', ERROR), (''false'', FALSE),
      (''for'', FOR), (''function'', FUNCTION), (''if'', IF), (''import'', IMPORT),
      (''in'', IN), (''local'', LOCAL), (''null'', NULL_LIT), (''then'', THEN_KW),
      (''true'', TRUE)]"

definition kSymbols :: "char list" where
  "kSymbols = ''!:~+-&|^=<>*/%''"

definition kValidBinaryOperators :: "string list" where
  "kValidBinaryOperators = [''=='', ''!='', ''<='', ''>='', ''&&'', ''||'']"

definition IsSymbol :: "char \<Rightarrow> bool" where
  "IsSymbol opr \<longleftrightarrow> opr \<in> set kSymbols"

fun TokenTypeToString :: "TokenType \<Rightarrow> string option" where
  "TokenTypeToString BRACE_L = Some [CHR 0x22, CHR 0x7B, CHR 0x22]"
| "TokenTypeToString BRACE_R = Some [CHR 0x22, CHR 0x7D, CHR 0x22]"
| "TokenTypeToString BRACKET_L = Some [CHR 0x22, CHR 0x5B, CHR 0x22]"
| "TokenTypeToString BRACKET_R = Some [CHR 0x22, CHR 0x5D, CHR 0x22]"
| "TokenTypeToString COMMA = Some [CHR 0x22, CHR 0x2C, CHR 0x22]"
| "TokenTypeToString DOLLAR = Some [CHR 0x22, CHR 0x24, CHR 0x22]"
| "TokenTypeToString DOT = Some [CHR 0x22, CHR 0x2E, CHR 0x22]"
| "TokenTypeToString PAREN_L = Some [CHR 0x22, CHR 0x28, CHR 0x22]"
| "TokenTypeToString PAREN_R = Some [CHR 0x22, CHR 0x29, CHR 0x22]"
| "TokenTypeToString SEMICOLON = Some [CHR 0x22, CHR 0x3B, CHR 0x22]"
| "TokenTypeToString IDENTIFIER = Some ''IDENTIFIER''"
| "TokenTypeToString NUMBER = Some ''NUMBER''"
| "TokenTypeToString OPERATOR = Some ''OPERATOR''"
| "TokenTypeToString STRING_SINGLE = Some ''STRING_SINGLE''"
| "TokenTypeToString STRING_DOUBLE = Some ''STRING_DOUBLE''"
| "TokenTypeToString REF_STRING = Some ''REF_STRING''"
| "TokenTypeToString VAR_STRING = Some ''VAR_STRING''"
| "TokenTypeToString TEXT_BLOCK = Some ''TEXT_BLOCK''"
| "TokenTypeToString ASSERT = Some ''assert''"
| "TokenTypeToString ELSE = Some ''else''"
| "TokenTypeToString ERROR = Some ''error''"
| "TokenTypeToString FALSE = Some ''false''"
| "TokenTypeToString FOR = Some ''for''"
| "TokenTypeToString FUNCTION = Some ''function''"
| "TokenTypeToString IF = Some ''if''"
| "TokenTypeToString IMPORT = Some ''import''"
| "TokenTypeToString IMPORTSTR = Some ''importstr''"
| "TokenTypeToString IMPORTBIN = Some ''importbin''"
| "TokenTypeToString IN = Some ''in''"
| "TokenTypeToString LOCAL = Some ''local''"
| "TokenTypeToString NULL_LIT = Some ''null''"
| "TokenTypeToString THEN_KW = Some ''then''"
| "TokenTypeToString TRUE = Some ''true''"
| "TokenTypeToString END_OF_FILE = Some ''end of file''"
| "TokenTypeToString _ = None"  \<comment> \<open>\<^verbatim>\<open>std::terminate()\<close>: FLOAT, INTEGER, AT_SIGN\<close>

section \<open>Lexer state and primitives\<close>

record lexer =
  source :: string
  filename :: string
  current :: nat
  line :: nat
  column :: nat

definition Lexer :: "string \<Rightarrow> string \<Rightarrow> lexer" where
  "Lexer fname src =
     \<lparr>source = src, filename = fname, current = 0, line = 1, column = 1\<rparr>"

definition IsAtEnd :: "lexer \<Rightarrow> bool" where
  "IsAtEnd s \<longleftrightarrow> length (source s) \<le> current s"

definition Peek :: "lexer \<Rightarrow> char" where
  "Peek s = (if current s < length (source s) then source s ! current s else CHR 0x00)"

definition PeekNext :: "lexer \<Rightarrow> char" where
  "PeekNext s =
     (if current s + 1 < length (source s) then source s ! (current s + 1) else CHR 0x00)"

definition Advance :: "lexer \<Rightarrow> lexer" where
  "Advance s =
     (if Peek s = CHR 0x0A
      then s\<lparr>line := line s + 1, column := 1, current := current s + 1\<rparr>
      else s\<lparr>column := column s + 1, current := current s + 1\<rparr>)"

text \<open>
  The errors of the lexer. \<open>LexerException\<close> carries the message given to the
  constructor; \<open>LexerException_what\<close> is \<^verbatim>\<open>what()\<close> of
  \<^verbatim>\<open>static_error.hpp\<close>, which puts the phase in front (a lexer error has no location).
\<close>

datatype lex_error = LexerException string

fun LexerException_what :: "lex_error \<Rightarrow> string" where
  "LexerException_what (LexerException msg) = ''Lexer'' @ '' error: '' @ msg"

definition ReportError :: "lexer \<Rightarrow> string \<Rightarrow> lex_error" where
  "ReportError s message =
     LexerException (filename s @ '':'' @ to_string_nat (line s) @ '':'' @
       to_string_nat (column s) @ '' Error: '' @ message)"

definition mk_token :: "lexer \<Rightarrow> TokenType \<Rightarrow> string \<Rightarrow> Token" where
  "mk_token s ty v =
     \<lparr>tok_file = filename s, tok_type = ty, tok_value = v, tok_line = line s,
      tok_column = column s\<rparr>"

text \<open>
  The remaining input: the part of the source from the current position on. The
  primitives read and advance exactly it, which is what all proofs below use.
\<close>

definition rest :: "lexer \<Rightarrow> string" where
  "rest s = drop (current s) (source s)"

lemma IsAtEnd_rest [lex_view]: "IsAtEnd s \<longleftrightarrow> rest s = []"
  by (simp add: IsAtEnd_def rest_def)

lemma Peek_rest [lex_view]: "Peek s = (case rest s of [] \<Rightarrow> CHR 0x00 | c # _ \<Rightarrow> c)"
  by (auto simp: Peek_def rest_def Cons_nth_drop_Suc [symmetric] split: list.split)

lemma PeekNext_rest [lex_view]:
  "PeekNext s = (case rest s of _ # c # _ \<Rightarrow> c | _ \<Rightarrow> CHR 0x00)"
proof (cases "current s + 1 < length (source s)")
  case True
  then have "rest s = source s ! current s # source s ! (current s + 1) #
      drop (current s + 2) (source s)"
    by (simp add: rest_def Cons_nth_drop_Suc)
  with True show ?thesis by (simp add: PeekNext_def)
next
  case False
  then have "length (rest s) \<le> 1" by (simp add: rest_def)
  with False show ?thesis by (auto simp: PeekNext_def split: list.split)
qed

lemma rest_Advance [lex_view]: "rest (Advance s) = tl (rest s)"
  by (simp add: Advance_def rest_def drop_Suc tl_drop)

lemma source_Advance [simp]: "source (Advance s) = source s"
  and filename_Advance [simp]: "filename (Advance s) = filename s"
  and current_Advance [simp]: "current (Advance s) = Suc (current s)"
  by (simp_all add: Advance_def)


text \<open>
  Every routine of the lexer changes its state by advancing some number of characters,
  and never past the end of the source.
\<close>

definition ahead :: "lexer \<Rightarrow> lexer \<Rightarrow> bool" where
  "ahead s s' \<longleftrightarrow>
     (\<exists>k. s' = (Advance ^^ k) s \<and> (k = 0 \<or> current s + k \<le> length (source s)))"

lemma current_funpow_Advance: "current ((Advance ^^ k) s) = current s + k"
  by (induction k) simp_all

lemma source_funpow_Advance: "source ((Advance ^^ k) s) = source s"
  by (induction k) simp_all

lemma filename_funpow_Advance: "filename ((Advance ^^ k) s) = filename s"
  by (induction k) simp_all

lemma rest_funpow_Advance: "rest ((Advance ^^ k) s) = drop k (rest s)"
  by (induction k) (simp_all add: rest_Advance tl_drop drop_Suc)

lemma ahead_refl [simp, intro]: "ahead s s"
  by (auto simp: ahead_def intro: exI [of _ 0])

lemma ahead_trans [trans]:
  assumes "ahead s t" and "ahead t u"
  shows "ahead s u"
proof -
  from assms obtain k l where k: "t = (Advance ^^ k) s" "k = 0 \<or> current s + k \<le> length (source s)"
    and l: "u = (Advance ^^ l) t" "l = 0 \<or> current t + l \<le> length (source t)"
    by (auto simp: ahead_def)
  then have "u = (Advance ^^ (l + k)) s" by (simp add: funpow_add)
  moreover have "l + k = 0 \<or> current s + (l + k) \<le> length (source s)"
    using k l by (auto simp: current_funpow_Advance source_funpow_Advance)
  ultimately show ?thesis unfolding ahead_def by blast
qed

lemma ahead_Advance [simp, intro]: "\<not> IsAtEnd s \<Longrightarrow> ahead s (Advance s)"
  by (auto simp: ahead_def IsAtEnd_def intro: exI [of _ 1])

lemma ahead_step: "ahead (Advance s) s' \<Longrightarrow> \<not> IsAtEnd s \<Longrightarrow> ahead s s'"
  by (rule ahead_trans [OF ahead_Advance])

lemma ahead_source: "ahead s s' \<Longrightarrow> source s' = source s"
  and ahead_filename: "ahead s s' \<Longrightarrow> filename s' = filename s"
  and ahead_current: "ahead s s' \<Longrightarrow> current s \<le> current s'"
  by (auto simp: ahead_def current_funpow_Advance source_funpow_Advance
      filename_funpow_Advance)

lemma ahead_strict: "ahead (Advance s) s' \<Longrightarrow> current s < current s'"
  using ahead_current by fastforce

lemma ahead_bounded:
  "ahead s s' \<Longrightarrow> current s \<le> length (source s) \<Longrightarrow> current s' \<le> length (source s')"
  by (auto simp: ahead_def current_funpow_Advance source_funpow_Advance)

lemma not_at_end_if_Peek: "Peek s \<noteq> CHR 0x00 \<Longrightarrow> \<not> IsAtEnd s"
  and not_at_end_if_PeekNext: "PeekNext s \<noteq> CHR 0x00 \<Longrightarrow> \<not> IsAtEnd s \<and> \<not> IsAtEnd (Advance s)"
  by (auto simp: Peek_def PeekNext_def IsAtEnd_def split: if_splits)

lemma IsSymbol_not_at_end: "IsSymbol (Peek s) \<Longrightarrow> \<not> IsAtEnd s"
  by (rule not_at_end_if_Peek) (auto simp: IsSymbol_def kSymbols_def)

section \<open>Scanning routines\<close>

text \<open>The loops \<^verbatim>\<open>while (!IsAtEnd() && p(Peek())) Advance();\<close> of the source.\<close>

function advance_while :: "(char \<Rightarrow> bool) \<Rightarrow> lexer \<Rightarrow> lexer" where
  "advance_while p s = (if \<not> IsAtEnd s \<and> p (Peek s) then advance_while p (Advance s) else s)"
  by pat_completeness auto
termination
  by (relation "measure (\<lambda>(p, s). length (source s) - current s)") (auto simp: IsAtEnd_def)

declare advance_while.simps [simp del]

definition SkipWhitespace :: "lexer \<Rightarrow> lexer" where
  "SkipWhitespace s = advance_while isspace s"

definition MatchSimpleToken :: "char \<Rightarrow> TokenType option" where
  "MatchSimpleToken token_string = map_of kSimpleTokens token_string"

definition substr :: "string \<Rightarrow> nat \<Rightarrow> nat \<Rightarrow> string" where
  "substr s pos n = take n (drop pos s)"

definition ScanNumber :: "lexer \<Rightarrow> Token \<times> lexer" where
  "ScanNumber s =
     (let start = current s;
          s1 = advance_while isdigit s;
          is_float = (\<not> IsAtEnd s1 \<and> Peek s1 = CHR ''.'' \<and> isdigit (PeekNext s1));
          s2 = (if is_float then advance_while isdigit (Advance s1) else s1);
          number_str = substr (source s2) start (current s2 - start)
      in (mk_token s2 (if is_float then FLOAT else INTEGER) number_str, s2))"

definition escape_char :: "char \<Rightarrow> string" where
  "escape_char c =
     (if c = CHR ''n'' then [CHR 0x0A]
      else if c = CHR ''t'' then [CHR 0x09]
      else if c = CHR ''r'' then [CHR 0x0D]
      else if c = CHR 0x5C then [CHR 0x5C]
      else if c = CHR 0x27 then [CHR 0x27]
      else if c = CHR 0x22 then [CHR 0x22]
      else [CHR 0x5C, c])"

text \<open>The loop of \<open>ScanLiterals\<close>, on the flag \<^verbatim>\<open>escaped\<close> and the value read so far.\<close>

function literal_loop :: "char \<Rightarrow> bool \<Rightarrow> string \<Rightarrow> lexer \<Rightarrow> lex_error + (Token \<times> lexer)" where
  "literal_loop quote_char escaped value s =
     (if IsAtEnd s then Inl (LexerException ''Unterminated string literal'')
      else if escaped
        then literal_loop quote_char False (value @ escape_char (Peek s)) (Advance s)
      else if Peek s = CHR 0x5C
        then literal_loop quote_char True value (Advance s)
      else if Peek s = quote_char
        then let s' = Advance s
             in Inr (mk_token s'
                       (if quote_char = CHR 0x22 then STRING_DOUBLE else STRING_SINGLE) value,
                     s')
      else literal_loop quote_char False (value @ [Peek s]) (Advance s))"
  by pat_completeness auto
termination
  by (relation "measure (\<lambda>(q, e, v, s). length (source s) - current s)")
     (auto simp: IsAtEnd_def)

declare literal_loop.simps [simp del]

definition ScanLiterals :: "lexer \<Rightarrow> lex_error + (Token \<times> lexer) option" where
  "ScanLiterals s =
     (let quote_char = Peek s
      in if quote_char = CHR 0x22 \<or> quote_char = CHR 0x27
         then bindE (literal_loop quote_char False [] (Advance s)) (\<lambda>r. Inr (Some r))
         else Inr None)"

text \<open>The content loop of \<open>ScanSpecialString\<close>: content, whether terminated, next state.\<close>

function special_loop :: "char \<Rightarrow> string \<Rightarrow> lexer \<Rightarrow> string \<times> bool \<times> lexer" where
  "special_loop quote content s =
     (if IsAtEnd s then (content, False, s)
      else if Peek s = quote
        then if PeekNext s = quote
             then special_loop quote (content @ [quote]) (Advance (Advance s))
             else (content, True, Advance s)
      else special_loop quote (content @ [Peek s]) (Advance s))"
  by pat_completeness auto
termination
  by (relation "measure (\<lambda>(q, c, s). length (source s) - current s)") (auto simp: IsAtEnd_def)

declare special_loop.simps [simp del]

definition ScanSpecialString :: "lexer \<Rightarrow> lex_error + (Token \<times> lexer)" where
  "ScanSpecialString s =
     (let is_var_str = (Peek s = CHR ''$'');
          s1 = Advance s
      in if IsAtEnd s1 \<or> Peek s1 \<noteq> CHR 0x27
         then Inl (ReportError s1 ''Expected single-quote after special prefix'')
         else
           let quote = Peek s1;
               (content, terminated, s2) = special_loop quote [] (Advance s1)
           in if \<not> terminated then Inl (ReportError s2 ''Unterminated special string'')
              else Inr (mk_token s2 (if is_var_str then VAR_STRING else REF_STRING) content,
                        s2))"

function keyword_loop :: "string \<Rightarrow> lexer \<Rightarrow> string \<times> lexer" where
  "keyword_loop keyword s =
     (if \<not> IsAtEnd s \<and> (isalpha (Peek s) \<or> isdigit (Peek s) \<or> Peek s = CHR ''_'')
      then keyword_loop (keyword @ [Peek s]) (Advance s)
      else (keyword, s))"
  by pat_completeness auto
termination
  by (relation "measure (\<lambda>(k, s). length (source s) - current s)") (auto simp: IsAtEnd_def)

declare keyword_loop.simps [simp del]

definition ScanKeywords :: "lexer \<Rightarrow> Token \<times> lexer" where
  "ScanKeywords s =
     (let (keyword, s') = keyword_loop [] s
      in case map_of kKeywords keyword of
           Some ty \<Rightarrow> (mk_token s' ty keyword, s')
         | None \<Rightarrow> (mk_token s' IDENTIFIER keyword, s'))"


subsection \<open>Text blocks\<close>

text \<open>
  \<open>HandleTextBlock\<close> in its phases: the rest of the line of the opening operator, the
  whitespace prefix of the first line, then lines of content, each of them either empty,
  or prefixed, or the terminating operator. The flag \<open>read_content\<close> is the source's.
\<close>

function text_block_header :: "lexer \<Rightarrow> lex_error + lexer" where
  "text_block_header s =
     (if IsAtEnd s then Inr s
      else
        let tok_char = Peek s; s' = Advance s
        in if tok_char = CHR 0x0A then Inr s'
           else if \<not> isspace tok_char
             then Inl (ReportError s' ''Unexpected non-whitespace after |||'')
           else text_block_header s')"
  by pat_completeness auto
termination
  by (relation "measure (\<lambda>s. length (source s) - current s)") (auto simp: IsAtEnd_def)

function text_block_prefix :: "nat \<Rightarrow> lexer \<Rightarrow> lex_error + (nat \<times> lexer)" where
  "text_block_prefix prefix_length s =
     (if IsAtEnd s then Inr (prefix_length, s)
      else if Peek s = CHR 0x0A
        then Inl (ReportError s
          ''First line of text block (|||) may not contain only whitespace'')
      else if \<not> isspace (Peek s) then Inr (prefix_length, s)
      else text_block_prefix (prefix_length + 1) (Advance s))"
  by pat_completeness auto
termination
  by (relation "measure (\<lambda>(n, s). length (source s) - current s)") (auto simp: IsAtEnd_def)

text \<open>Reads up to and including the next newline; the flag says whether one was found.\<close>

function text_block_line :: "string \<Rightarrow> lexer \<Rightarrow> string \<times> bool \<times> lexer" where
  "text_block_line content s =
     (if IsAtEnd s then (content, False, s)
      else if Peek s = CHR 0x0A then (content @ [Peek s], True, Advance s)
      else text_block_line (content @ [Peek s]) (Advance s))"
  by pat_completeness auto
termination
  by (relation "measure (\<lambda>(c, s). length (source s) - current s)") (auto simp: IsAtEnd_def)

function text_block_indent :: "nat \<Rightarrow> nat \<Rightarrow> lexer \<Rightarrow> nat \<times> lexer" where
  "text_block_indent prefix_length len s =
     (if \<not> IsAtEnd s \<and> len < prefix_length \<and> isspace (Peek s) \<and> Peek s \<noteq> CHR 0x0A
      then text_block_indent prefix_length (len + 1) (Advance s)
      else (len, s))"
  by pat_completeness auto
termination
  by (relation "measure (\<lambda>(p, n, s). length (source s) - current s)") (auto simp: IsAtEnd_def)

text \<open>The next characters, at most \<open>n\<close> of them.\<close>

fun read_chars :: "nat \<Rightarrow> lexer \<Rightarrow> string \<times> lexer" where
  "read_chars 0 s = ([], s)"
| "read_chars (Suc n) s =
     (if IsAtEnd s then ([], s)
      else let (cs, s') = read_chars n (Advance s) in (Peek s # cs, s'))"

declare text_block_header.simps [simp del] text_block_prefix.simps [simp del]
  text_block_line.simps [simp del] text_block_indent.simps [simp del]

lemma text_block_line_ahead:
  "text_block_line c s = (c', b, s') \<Longrightarrow>
     ahead s s' \<and> (\<not> IsAtEnd s \<longrightarrow> current s < current s')"
proof (induction c s rule: text_block_line.induct)
  case (1 c s)
  show ?case
  proof (cases "IsAtEnd s \<or> Peek s = CHR 0x0A")
    case True
    with "1.prems" show ?thesis by (subst (asm) text_block_line.simps) (auto split: if_splits)
  next
    case False
    with "1.prems" have "text_block_line (c @ [Peek s]) (Advance s) = (c', b, s')"
      by (subst (asm) text_block_line.simps) simp
    with "1.IH" False have "ahead (Advance s) s'" by blast
    with False show ?thesis by (blast intro: ahead_step ahead_strict)
  qed
qed

lemma text_block_indent_ahead:
  "text_block_indent p n s = (n', s') \<Longrightarrow>
     ahead s s' \<and> n \<le> n' \<and> current s' = current s + (n' - n)"
proof (induction p n s rule: text_block_indent.induct)
  case (1 p n s)
  show ?case
  proof (cases "\<not> IsAtEnd s \<and> n < p \<and> isspace (Peek s) \<and> Peek s \<noteq> CHR 0x0A")
    case False
    with "1.prems" show ?thesis by (subst (asm) text_block_indent.simps) auto
  next
    case True
    with "1.prems" have "text_block_indent p (n + 1) (Advance s) = (n', s')"
      by (subst (asm) text_block_indent.simps) simp
    with "1.IH" True have "ahead (Advance s) s' \<and> n + 1 \<le> n' \<and>
        current s' = current (Advance s) + (n' - (n + 1))" by blast
    with True show ?thesis by (auto intro: ahead_step)
  qed
qed

function text_block_body ::
  "nat \<Rightarrow> bool \<Rightarrow> string \<Rightarrow> lexer \<Rightarrow> lex_error + (string \<times> bool \<times> lexer)" where
  "text_block_body prefix_length read_content content s =
     (if IsAtEnd s then Inr (content, False, s)
      else if read_content
        then case text_block_line content s of
               (content', newline, s') \<Rightarrow>
                 text_block_body prefix_length (\<not> newline) content' s'
      else if Peek s = CHR 0x0A
        then text_block_body prefix_length False (content @ [CHR 0x0A]) (Advance s)
      else case text_block_indent prefix_length 0 s of
             (len, s') \<Rightarrow>
               if len < prefix_length
               then case read_chars 3 s' of
                      (str, s'') \<Rightarrow>
                        if str = ''|||'' then Inr (content, True, s'')
                        else Inl (ReportError s'' ''Text block is not terminated with |||'')
               else text_block_body prefix_length True content s')"
  by pat_completeness auto
termination
proof (relation "measures [\<lambda>(p, r, c, s). length (source s) - current s,
                           \<lambda>(p, r, c, s). if r then 0 else 1]", goal_cases)
  case 1
  show ?case by simp
next
  case (2 p r c s c' y newline s')
  then have "ahead s s'" "current s < current s'"
    using text_block_line_ahead [of c s c' newline s'] by auto
  with 2 show ?case by (auto simp: IsAtEnd_def ahead_source)
next
  case (3 p r c s)
  then show ?case by (auto simp: IsAtEnd_def)
next
  case (4 p r c s len s')
  then have "ahead s s'" "current s' = current s + len"
    using text_block_indent_ahead [of p 0 s len s'] by auto
  with 4 show ?case by (auto simp: IsAtEnd_def ahead_source)
qed

declare text_block_body.simps [simp del]

definition HandleTextBlock :: "lexer \<Rightarrow> lex_error + (Token \<times> lexer)" where
  "HandleTextBlock s =
     bindE (text_block_header s) (\<lambda>s1.
     bindE (text_block_prefix 0 s1) (\<lambda>(prefix_length, s2).
       if prefix_length = 0
       then Inl (ReportError s2
         ''Text block (|||) lines must be prefixed with some non-zero length whitespace'')
       else
         bindE (text_block_body prefix_length True [] s2) (\<lambda>(content, terminated, s3).
           if \<not> terminated then Inl (ReportError s3 ''Unterminated text block'')
           else Inr (mk_token s3 TEXT_BLOCK content, s3))))"

subsection \<open>Comments and operators\<close>

text \<open>The loop of a multi-line comment, up to the closing characters.\<close>

function comment_loop :: "lexer \<Rightarrow> lexer" where
  "comment_loop s =
     (if \<not> IsAtEnd s \<and> (Peek s \<noteq> CHR ''*'' \<or> PeekNext s \<noteq> CHR ''/'')
      then comment_loop (Advance s) else s)"
  by pat_completeness auto
termination
  by (relation "measure (\<lambda>s. length (source s) - current s)") (auto simp: IsAtEnd_def)

declare comment_loop.simps [simp del]

definition HandleComments :: "lexer \<Rightarrow> lex_error + lexer" where
  "HandleComments s =
     (if PeekNext s = CHR ''/''
      then let s1 = advance_while (\<lambda>c. c \<noteq> CHR 0x0A) (Advance (Advance s))
           in Inr (if Peek s1 = CHR 0x0A then Advance s1 else s1)
      else if PeekNext s = CHR ''*''
      then let s1 = comment_loop (Advance (Advance s))
           in if Peek s1 = CHR ''*'' \<and> PeekNext s1 = CHR ''/''
              then Inr (Advance (Advance s1))
              else Inl (ReportError s1 ''Unterminated multi-line comment'')
      else Inr s)"

function operator_loop :: "string \<Rightarrow> lexer \<Rightarrow> string \<times> lexer" where
  "operator_loop op_str s =
     (if IsSymbol (Peek s)
      then if Peek s = CHR ''='' \<and> (PeekNext s = CHR ''-'' \<or> PeekNext s = CHR ''+'')
           then (op_str @ [Peek s], Advance s)
           else operator_loop (op_str @ [Peek s]) (Advance s)
      else (op_str, s))"
  by pat_completeness auto
termination
proof (relation "measure (\<lambda>(k, s). length (source s) - current s)", goal_cases)
  case 1
  show ?case by simp
next
  case (2 op_str s)
  then have "\<not> IsAtEnd s" by (simp add: IsSymbol_not_at_end)
  then show ?case by (simp add: IsAtEnd_def)
qed

declare operator_loop.simps [simp del]

definition HandleOperators :: "lexer \<Rightarrow> lex_error + (Token \<times> lexer)" where
  "HandleOperators s =
     (case operator_loop [] s of
        (op_str, s') \<Rightarrow>
          if length op_str = 3 \<and> op_str = ''|||'' then HandleTextBlock s'
          else if length op_str = 2 \<and> op_str \<in> set kValidBinaryOperators
            then Inr (mk_token s' OPERATOR op_str, s')
          else if length op_str = 1 then Inr (mk_token s' OPERATOR op_str, s')
          else Inl (LexerException (''Error operator:'' @ op_str)))"

definition ScanToken :: "lexer \<Rightarrow> lex_error + (Token option \<times> lexer)" where
  "ScanToken s =
     (let token_char = Peek s;
          some = (\<lambda>(t, s'). Inr (Some t, s'))
      in case MatchSimpleToken token_char of
           Some ty \<Rightarrow> let s' = Advance s in Inr (Some (mk_token s' ty [token_char]), s')
         | None \<Rightarrow>
             if token_char = CHR 0x22 \<or> token_char = CHR 0x27
             then bindE (ScanLiterals s)
                    (\<lambda>r. case r of None \<Rightarrow> Inr (None, s) | Some (t, s') \<Rightarrow> Inr (Some t, s'))
             else if IsSymbol token_char then bindE (HandleOperators s) some
             else if isdigit token_char then some (ScanNumber s)
             else if token_char = CHR 0x40 \<or> token_char = CHR ''$''
               then bindE (ScanSpecialString s) some
             else if isalpha token_char \<or> token_char = CHR ''_'' then some (ScanKeywords s)
             else Inl (ReportError (Advance s)
               (''Unexpected character: '' @ [CHR 0x27, token_char, CHR 0x27])))"


section \<open>Every routine moves ahead\<close>

lemma advance_while_ahead: "ahead s (advance_while p s)"
proof (induction p s rule: advance_while.induct)
  case (1 p s)
  then show ?case
    by (subst advance_while.simps) (auto intro: ahead_step)
qed

lemma literal_loop_ahead:
  "literal_loop q e v s = Inr (t, s') \<Longrightarrow> ahead s s' \<and> current s < current s'"
proof (induction q e v s rule: literal_loop.induct)
  case (1 q e v s)
  from "1.prems" have more: "\<not> IsAtEnd s"
    by (auto simp: literal_loop.simps [of q e v s] split: if_splits)
  show ?case
  proof (cases "\<not> e \<and> Peek s \<noteq> CHR 0x5C \<and> Peek s = q")
    case True
    with "1.prems" more show ?thesis
      by (auto simp: literal_loop.simps [of q False v s] Let_def)
  next
    case False
    with "1.prems" "1.IH" more have "ahead (Advance s) s'"
      by (auto simp: literal_loop.simps [of q e v s] split: if_splits)
    with more show ?thesis by (blast intro: ahead_step ahead_strict)
  qed
qed

lemma special_loop_ahead:
  "special_loop q c s = (c', b, s') \<Longrightarrow> q \<noteq> CHR 0x00 \<Longrightarrow> ahead s s'"
proof (induction q c s rule: special_loop.induct)
  case (1 q c s)
  consider "IsAtEnd s" | "\<not> IsAtEnd s" "Peek s = q" "PeekNext s = q" |
    "\<not> IsAtEnd s" "Peek s = q" "PeekNext s \<noteq> q" | "\<not> IsAtEnd s" "Peek s \<noteq> q"
    by blast
  then show ?case
  proof cases
    case 2
    with "1.prems" "1.IH"(1) have "ahead (Advance (Advance s)) s'"
      by (simp add: special_loop.simps [of q c s])
    moreover have "\<not> IsAtEnd (Advance s)" using 2 "1.prems"(2) not_at_end_if_PeekNext by simp
    ultimately show ?thesis using 2(1) by (blast intro: ahead_step)
  qed (use 1 in \<open>auto simp: special_loop.simps [of q c s] intro: ahead_step\<close>)
qed

lemma keyword_loop_ahead: "keyword_loop k s = (k', s') \<Longrightarrow> ahead s s'"
proof (induction k s rule: keyword_loop.induct)
  case (1 k s)
  then show ?case
    by (auto simp: keyword_loop.simps [of k s] split: if_splits intro: ahead_step)
qed

lemma text_block_header_ahead: "text_block_header s = Inr s' \<Longrightarrow> ahead s s'"
proof (induction s rule: text_block_header.induct)
  case (1 s)
  from "1.prems" "1.IH" have "s' = s \<or> \<not> IsAtEnd s \<and> (s' = Advance s \<or> ahead (Advance s) s')"
    by (auto simp: text_block_header.simps [of s] Let_def split: if_splits)
  then show ?case by (auto intro: ahead_step)
qed

lemma text_block_prefix_ahead: "text_block_prefix n s = Inr (n', s') \<Longrightarrow> ahead s s'"
proof (induction n s rule: text_block_prefix.induct)
  case (1 n s)
  from "1.prems" "1.IH" have "s' = s \<or> \<not> IsAtEnd s \<and> ahead (Advance s) s'"
    by (auto simp: text_block_prefix.simps [of n s] split: if_splits)
  then show ?case by (auto intro: ahead_step)
qed

lemma read_chars_ahead: "read_chars n s = (cs, s') \<Longrightarrow> ahead s s'"
  by (induction n s arbitrary: cs rule: read_chars.induct)
     (auto split: if_splits prod.splits intro: ahead_step)

lemma text_block_body_ahead:
  "text_block_body p r c s = Inr (c', b, s') \<Longrightarrow> ahead s s'"
proof (induction p r c s rule: text_block_body.induct)
  case (1 p r c s)
  show ?case
  proof (cases "IsAtEnd s")
    case True
    with "1.prems" show ?thesis by (subst (asm) text_block_body.simps) simp
  next
    case notend: False
    show ?thesis
    proof (cases r)
      case True
      obtain c1 nl s1 where line: "text_block_line c s = (c1, nl, s1)"
        by (cases "text_block_line c s")
      with "1.prems" notend True have "text_block_body p (\<not> nl) c1 s1 = Inr (c', b, s')"
        by (subst (asm) text_block_body.simps) simp
      with "1.IH"(1) [OF notend True line [symmetric]] have "ahead s1 s'" by simp
      then show ?thesis using text_block_line_ahead [OF line] ahead_trans by blast
    next
      case notr: False
      show ?thesis
      proof (cases "Peek s = CHR 0x0A")
        case True
        with "1.prems" notend notr "1.IH"(2) have "ahead (Advance s) s'"
          by (simp add: text_block_body.simps [of p False c s])
        then show ?thesis using notend by (rule ahead_step)
      next
        case False
        obtain len s1 where ind: "text_block_indent p 0 s = (len, s1)"
          by (cases "text_block_indent p 0 s")
        obtain str s2 where rd: "read_chars 3 s1 = (str, s2)" by (cases "read_chars 3 s1")
        from "1.prems" notend notr False ind rd
        have "s' = s2 \<or> (\<not> len < p \<and> text_block_body p True c s1 = Inr (c', b, s'))"
          by (subst (asm) text_block_body.simps) (simp split: if_splits)
        with "1.IH"(3) [OF notend notr False ind [symmetric]] have "s' = s2 \<or> ahead s1 s'"
          by blast
        with text_block_indent_ahead [OF ind] read_chars_ahead [OF rd] show ?thesis
          by (blast intro: ahead_trans)
      qed
    qed
  qed
qed

lemma HandleTextBlock_ahead: "HandleTextBlock s = Inr (t, s') \<Longrightarrow> ahead s s'"
  by (auto simp: HandleTextBlock_def bindE_Inr_iff split: if_splits
      dest!: text_block_header_ahead text_block_prefix_ahead text_block_body_ahead
      intro: ahead_trans)

lemma comment_loop_ahead: "ahead s (comment_loop s)"
proof (induction s rule: comment_loop.induct)
  case (1 s)
  then show ?case by (subst comment_loop.simps) (auto intro: ahead_step)
qed

lemma HandleComments_ahead:
  assumes ret: "HandleComments s = Inr s'"
    and two: "PeekNext s = CHR ''/'' \<or> PeekNext s = CHR ''*''"
  shows "\<not> IsAtEnd s \<and> ahead (Advance s) s'"
proof -
  have more: "\<not> IsAtEnd s" "\<not> IsAtEnd (Advance s)"
    using two not_at_end_if_PeekNext [of s] by auto
  have "ahead (Advance (Advance s)) s'"
  proof (cases "PeekNext s = CHR ''/''")
    case True
    let ?s1 = "advance_while (\<lambda>c. c \<noteq> CHR 0x0A) (Advance (Advance s))"
    have "ahead (Advance (Advance s)) ?s1" by (rule advance_while_ahead)
    also have "ahead ?s1 s'"
      using ret True not_at_end_if_Peek [of ?s1] by (auto simp: HandleComments_def Let_def)
    finally show ?thesis .
  next
    case False
    let ?s1 = "comment_loop (Advance (Advance s))"
    have "ahead (Advance (Advance s)) ?s1" by (rule comment_loop_ahead)
    also have "ahead ?s1 s'"
      using ret two False not_at_end_if_PeekNext [of ?s1]
      by (auto simp: HandleComments_def Let_def split: if_splits intro: ahead_step)
    finally show ?thesis .
  qed
  with more show ?thesis by (blast intro: ahead_step)
qed

lemma operator_loop_ahead:
  "operator_loop k s = (k', s') \<Longrightarrow> ahead s s' \<and> (IsSymbol (Peek s) \<longrightarrow> current s < current s')"
proof (induction k s rule: operator_loop.induct)
  case (1 k s)
  from "1.prems" "1.IH" have "\<not> IsSymbol (Peek s) \<and> s' = s \<or>
      IsSymbol (Peek s) \<and> (s' = Advance s \<or> ahead (Advance s) s')"
    by (auto simp: operator_loop.simps [of k s] split: if_splits)
  then show ?case by (auto intro: ahead_step ahead_strict dest: IsSymbol_not_at_end)
qed

lemma HandleOperators_ahead:
  assumes "HandleOperators s = Inr (t, s')" and "IsSymbol (Peek s)"
  shows "ahead s s' \<and> current s < current s'"
proof -
  obtain op s1 where op: "operator_loop [] s = (op, s1)" by (cases "operator_loop [] s")
  with assms(2) have s1: "ahead s s1" "current s < current s1"
    using operator_loop_ahead by blast+
  from assms(1) op have "s' = s1 \<or> HandleTextBlock s1 = Inr (t, s')"
    by (auto simp: HandleOperators_def split: if_splits)
  with s1 show ?thesis
    using HandleTextBlock_ahead ahead_trans ahead_current order_less_le_trans by blast
qed

lemma ScanNumber_ahead:
  assumes "ScanNumber s = (t, s')" and "isdigit (Peek s)" and "\<not> IsAtEnd s"
  shows "ahead (Advance s) s'"
proof -
  have "advance_while isdigit s = advance_while isdigit (Advance s)"
    using assms(2,3) by (subst advance_while.simps) simp
  then have 1: "ahead (Advance s) (advance_while isdigit s)"
    by (simp add: advance_while_ahead)
  have "ahead (advance_while isdigit s) s'"
    using assms(1) advance_while_ahead [THEN ahead_step]
    by (auto simp: ScanNumber_def Let_def split: if_splits)
  with 1 show ?thesis by (rule ahead_trans)
qed

lemma ScanSpecialString_ahead:
  "ScanSpecialString s = Inr (t, s') \<Longrightarrow> ahead (Advance s) s'"
  by (auto simp: ScanSpecialString_def Let_def split: if_splits prod.splits
      dest!: special_loop_ahead intro: ahead_step)

lemma ScanKeywords_ahead:
  assumes "ScanKeywords s = (t, s')" and "isalpha (Peek s) \<or> Peek s = CHR ''_''"
    and "\<not> IsAtEnd s"
  shows "ahead (Advance s) s'"
proof -
  obtain k s1 where k: "keyword_loop [] s = (k, s1)" by (cases "keyword_loop [] s")
  with assms(2,3) have "keyword_loop [Peek s] (Advance s) = (k, s1)"
    by (subst (asm) keyword_loop.simps) auto
  then have "ahead (Advance s) s1" by (rule keyword_loop_ahead)
  with assms(1) k show ?thesis by (auto simp: ScanKeywords_def split: option.splits)
qed

lemma ScanLiterals_ahead:
  "ScanLiterals s = Inr (Some (t, s')) \<Longrightarrow> ahead (Advance s) s'"
  by (auto simp: ScanLiterals_def Let_def bindE_Inr_iff split: if_splits
      dest: literal_loop_ahead)

lemma ScanLiterals_None:
  "ScanLiterals s = Inr None \<longleftrightarrow> Peek s \<noteq> CHR 0x22 \<and> Peek s \<noteq> CHR 0x27"
  by (auto simp: ScanLiterals_def Let_def bindE_Inr_iff)

text \<open>A token scan that returns gives a token and moves ahead by at least one character.\<close>

lemma ScanToken_ahead:
  assumes ret: "ScanToken s = Inr (t, s')" and more: "\<not> IsAtEnd s"
  shows "t \<noteq> None \<and> ahead s s' \<and> current s < current s'"
proof -
  have step: "ahead (Advance s) s' \<Longrightarrow> ahead s s' \<and> current s < current s'"
    using more by (blast intro: ahead_step ahead_strict)
  show ?thesis
  proof (cases "MatchSimpleToken (Peek s)")
    case (Some ty)
    with ret more show ?thesis by (auto simp: ScanToken_def Let_def)
  next
    case None
    consider "Peek s = CHR 0x22 \<or> Peek s = CHR 0x27" |
      "\<not> (Peek s = CHR 0x22 \<or> Peek s = CHR 0x27)" "IsSymbol (Peek s)" |
      "\<not> (Peek s = CHR 0x22 \<or> Peek s = CHR 0x27)" "\<not> IsSymbol (Peek s)"
      by blast
    then show ?thesis
    proof cases
      case 1
      with None ret obtain r where r: "ScanLiterals s = Inr r"
        and eq: "(case r of None \<Rightarrow> Inr (None, s) | Some (t, s') \<Rightarrow> Inr (Some t, s')) =
          (Inr (t, s') :: lex_error + Token option \<times> lexer)"
        by (auto simp: ScanToken_def Let_def bindE_Inr_iff)
      from r 1 have "r \<noteq> None" using ScanLiterals_None [of s] by (cases r) auto
      with r eq step show ?thesis by (auto dest!: ScanLiterals_ahead)
    next
      case 2
      with None ret show ?thesis
        by (auto simp: ScanToken_def Let_def bindE_Inr_iff dest!: HandleOperators_ahead)
    next
      case 3
      with None ret more step show ?thesis
        by (auto simp: ScanToken_def Let_def bindE_Inr_iff
            split: if_splits prod.splits
            dest!: ScanNumber_ahead ScanSpecialString_ahead ScanKeywords_ahead)
    qed
  qed
qed


section \<open>The token stream\<close>

lemma SkipWhitespace_ahead: "ahead s (SkipWhitespace s)"
  by (simp add: SkipWhitespace_def advance_while_ahead)

definition starts_comment :: "lexer \<Rightarrow> bool" where
  "starts_comment s \<longleftrightarrow>
     Peek s = CHR ''/'' \<and> (PeekNext s = CHR ''/'' \<or> PeekNext s = CHR ''*'')"

function tokenize_loop :: "Token list \<Rightarrow> lexer \<Rightarrow> lex_error + (Token list \<times> lexer)" where
  "tokenize_loop tokens s =
     (if IsAtEnd s then Inr (tokens, s)
      else
        let s1 = SkipWhitespace s
        in if IsAtEnd s1 then Inr (tokens, s1)
           else if starts_comment s1
             then case HandleComments s1 of
                    Inl e \<Rightarrow> Inl e
                  | Inr s2 \<Rightarrow> tokenize_loop tokens s2
           else case ScanToken s1 of
                  Inl e \<Rightarrow> Inl e
                | Inr (None, s2) \<Rightarrow> tokenize_loop tokens s2
                | Inr (Some token, s2) \<Rightarrow>
                    tokenize_loop
                      (tokens @ [token\<lparr>tok_line := line s2, tok_column := column s2\<rparr>]) s2)"
  by pat_completeness auto
termination
proof -
  have less: "length (source s2) - current s2 < length (source s) - current s"
    if "\<not> IsAtEnd (SkipWhitespace s)" "ahead (SkipWhitespace s) s2"
       "current (SkipWhitespace s) < current s2" for s s2
    using that SkipWhitespace_ahead [of s] ahead_source ahead_current
    by (fastforce simp: IsAtEnd_def)
  show ?thesis
    by (relation "measure (\<lambda>(ts, s). length (source s) - current s)")
       (auto simp: starts_comment_def
          dest!: HandleComments_ahead ScanToken_ahead
          intro!: less intro: ahead_step ahead_strict)
qed

declare tokenize_loop.simps [simp del]

definition Tokenize :: "lexer \<Rightarrow> lex_error + (Token list \<times> lexer)" where
  "Tokenize s = tokenize_loop [] s"

text \<open>\<^verbatim>\<open>Lexer{filename, source}.Tokenize()\<close>, the only use of the class.\<close>

definition lex :: "string \<Rightarrow> string \<Rightarrow> lex_error + Token list" where
  "lex fname src = bindE (Tokenize (Lexer fname src)) (\<lambda>(ts, s). Inr ts)"

definition UnTokenize1 :: "Token \<Rightarrow> string" where
  "UnTokenize1 tok =
     (if tok_type tok = STRING_DOUBLE then [CHR 0x22] @ tok_value tok @ [CHR 0x22, CHR 0x0A]
      else if tok_type tok = STRING_SINGLE
        then [CHR 0x27] @ tok_value tok @ [CHR 0x27, CHR 0x0A]
      else if tok_type tok = TEXT_BLOCK
        then ''|||'' @ [CHR 0x0A] @ tok_value tok @ ''|||'' @ [CHR 0x0A]
      else tok_value tok @ [CHR 0x0A])"

definition UnTokenize :: "Token list \<Rightarrow> string" where
  "UnTokenize tokens = concat (map UnTokenize1 tokens)"

end
