(* ===== verification/Jst_Lexer_Props.thy ===== *)
theory Jst_Lexer_Props
  imports Jst_Lexer
begin

text \<open>
  Correctness of the lexer: the positions it reports are those of the source text, the
  tokens it returns have the shape of their type, and \<^verbatim>\<open>Tokenize\<close> is a left inverse of
  \<^verbatim>\<open>UnTokenize\<close> on tokens that \<^verbatim>\<open>UnTokenize\<close> prints faithfully.
\<close>

section \<open>Positions\<close>

text \<open>The line and column a text ends at, counted from 1 as editors do.\<close>

definition line_of :: "string \<Rightarrow> nat" where
  "line_of xs = 1 + count_list xs (CHR 0x0A)"

definition column_of :: "string \<Rightarrow> nat" where
  "column_of xs = 1 + length (takeWhile (\<lambda>c. c \<noteq> CHR 0x0A) (rev xs))"

definition pos_ok :: "lexer \<Rightarrow> bool" where
  "pos_ok s \<longleftrightarrow> current s \<le> length (source s) \<and>
     line s = line_of (take (current s) (source s)) \<and>
     column s = column_of (take (current s) (source s))"

lemma pos_ok_Lexer: "pos_ok (Lexer f src)"
  by (simp add: pos_ok_def Lexer_def line_of_def column_of_def)

lemma pos_ok_Advance: "pos_ok s \<Longrightarrow> \<not> IsAtEnd s \<Longrightarrow> pos_ok (Advance s)"
  by (auto simp: pos_ok_def Advance_def IsAtEnd_def Peek_def line_of_def column_of_def
      take_Suc_conv_app_nth)

lemma pos_ok_funpow:
  "pos_ok s \<Longrightarrow> current s + k \<le> length (source s) \<Longrightarrow> pos_ok ((Advance ^^ k) s)"
proof (induction k)
  case 0
  then show ?case by simp
next
  case (Suc k)
  then have "pos_ok ((Advance ^^ k) s)" by simp
  moreover have "\<not> IsAtEnd ((Advance ^^ k) s)"
    using Suc.prems by (simp add: IsAtEnd_def current_funpow_Advance source_funpow_Advance)
  ultimately show ?case by (simp add: pos_ok_Advance)
qed

lemma pos_ok_ahead: "pos_ok s \<Longrightarrow> ahead s s' \<Longrightarrow> pos_ok s'"
  by (auto simp: ahead_def pos_ok_funpow)

text \<open>
  The end offsets of the tokens: increasing, inside the source, and each token's reported
  line and column are those of its end offset.
\<close>

definition located :: "string \<Rightarrow> nat \<Rightarrow> Token \<Rightarrow> bool" where
  "located src k t \<longleftrightarrow> k \<le> length src \<and>
     tok_line t = line_of (take k src) \<and> tok_column t = column_of (take k src)"

lemma tokenize_loop_located:
  "tokenize_loop ts s = Inr (ts', s') \<Longrightarrow> pos_ok s \<Longrightarrow>
     \<exists>new ks. ts' = ts @ new \<and> list_all2 (located (source s)) ks new \<and>
       sorted_wrt (<) (current s # ks)"
proof (induction ts s rule: tokenize_loop.induct)
  case (1 ts s)
  let ?s1 = "SkipWhitespace s"
  have s1: "ahead s ?s1" by (rule SkipWhitespace_ahead)
  show ?case
  proof (cases "IsAtEnd s \<or> IsAtEnd ?s1")
    case True
    with "1.prems"(1) have "ts' = ts"
      by (auto simp: tokenize_loop.simps [of ts s] Let_def split: if_splits)
    then show ?thesis by simp
  next
    case more: False
    show ?thesis
    proof (cases "starts_comment ?s1")
      case True
      with more "1.prems"(1) obtain s2 where s2: "HandleComments ?s1 = Inr s2"
        and loop: "tokenize_loop ts s2 = Inr (ts', s')"
        by (auto simp: tokenize_loop.simps [of ts s] Let_def split: sum.splits)
      from s2 True have "ahead ?s1 s2"
        using HandleComments_ahead ahead_step by (auto simp: starts_comment_def)
      with s1 have a: "ahead s s2" by (rule ahead_trans)
      with "1.IH"(1) [OF _ refl _ True s2 loop] more "1.prems"(2) show ?thesis
        using ahead_source [OF a] ahead_current [OF a] pos_ok_ahead by fastforce
    next
      case False
      with more "1.prems"(1) obtain t s2 where scan: "ScanToken ?s1 = Inr (t, s2)"
        by (auto simp: tokenize_loop.simps [of ts s] Let_def split: sum.splits prod.splits)
      with more have t: "t \<noteq> None" "ahead ?s1 s2" "current ?s1 < current s2"
        using ScanToken_ahead by blast+
      then obtain tok where tok: "t = Some tok" by blast
      let ?tok = "tok\<lparr>tok_line := line s2, tok_column := column s2\<rparr>"
      from s1 t(2) have a: "ahead s s2" by (rule ahead_trans)
      with "1.prems"(2) have p2: "pos_ok s2" by (rule pos_ok_ahead)
      from more False scan tok "1.prems"(1)
      have loop: "tokenize_loop (ts @ [?tok]) s2 = Inr (ts', s')"
        by (simp add: tokenize_loop.simps [of ts s] Let_def)
      have "located (source s) (current s2) ?tok"
        using p2 ahead_source [OF a] by (simp add: pos_ok_def located_def)
      moreover obtain new ks where "ts' = (ts @ [?tok]) @ new"
        "list_all2 (located (source s2)) ks new" "sorted_wrt (<) (current s2 # ks)"
        using "1.IH"(3) [OF _ refl _ False scan refl tok loop p2] more by (auto simp: tok)
      moreover have "current s < current s2" using t(3) ahead_current [OF s1] by simp
      ultimately show ?thesis using ahead_source [OF a]
        by (intro exI [of _ "?tok # new"] exI [of _ "current s2 # ks"]) auto
    qed
  qed
qed


section \<open>The routines on a known remaining input\<close>

lemma Lexer_sel [simp]:
  "source (Lexer f src) = src" "filename (Lexer f src) = f" "current (Lexer f src) = 0"
  by (simp_all add: Lexer_def)

lemma rest_Lexer [simp]: "rest (Lexer f src) = src"
  by (simp add: rest_def)

lemma advance_while_eval [lex_eval]:
  "rest (advance_while p s) = dropWhile p (rest s) \<and>
   current (advance_while p s) = current s + length (takeWhile p (rest s))"
proof (induction p s rule: advance_while.induct)
  case (1 p s)
  show ?case
  proof (cases "rest s")
    case Nil
    then show ?thesis by (simp add: advance_while.simps [of p s] lex_view)
  next
    case (Cons c cs)
    with "1.IH" show ?thesis
      by (auto simp: advance_while.simps [of p s] lex_view)
  qed
qed

lemma keyword_loop_eval [lex_eval]:
  "\<exists>s'. keyword_loop k s =
      (k @ takeWhile (\<lambda>c. isalpha c \<or> isdigit c \<or> c = CHR ''_'') (rest s), s') \<and>
    rest s' = dropWhile (\<lambda>c. isalpha c \<or> isdigit c \<or> c = CHR ''_'') (rest s)"
proof (induction k s rule: keyword_loop.induct)
  case (1 k s)
  show ?case
  proof (cases "rest s")
    case Nil
    then show ?thesis by (simp add: keyword_loop.simps [of k s] lex_view)
  next
    case (Cons c cs)
    with "1.IH" show ?thesis
      by (auto simp: keyword_loop.simps [of k s] lex_view)
  qed
qed

lemma substr_rest: "source s' = source s \<Longrightarrow> substr (source s') (current s) n = take n (rest s)"
  by (simp add: substr_def rest_def)

text \<open>The text and the type of a number token, from the remaining input.\<close>

lemma ScanNumber_eval [lex_eval]:
  fixes s
  defines "ds \<equiv> takeWhile isdigit (rest s)" and "r \<equiv> dropWhile isdigit (rest s)"
  shows "\<exists>t s'. ScanNumber s = (t, s') \<and>
    (if r \<noteq> [] \<and> hd r = CHR ''.'' \<and> tl r \<noteq> [] \<and> isdigit (hd (tl r))
     then tok_type t = FLOAT \<and> tok_value t = ds @ CHR ''.'' # takeWhile isdigit (tl r) \<and>
       rest s' = dropWhile isdigit (tl r)
     else tok_type t = INTEGER \<and> tok_value t = ds \<and> rest s' = r)"
proof -
  let ?s1 = "advance_while isdigit s"
  let ?s2 = "advance_while isdigit (Advance ?s1)"
  have s1: "rest ?s1 = r" "current ?s1 = current s + length ds"
    using advance_while_eval [of isdigit s] by (auto simp: ds_def r_def)
  have src: "source ?s1 = source s" "source ?s2 = source s"
    using ahead_source [OF advance_while_ahead] by simp_all
  have rest_split: "rest s = ds @ r" by (simp add: ds_def r_def)
  show ?thesis
  proof (cases "r \<noteq> [] \<and> hd r = CHR ''.'' \<and> tl r \<noteq> [] \<and> isdigit (hd (tl r))")
    case True
    then obtain c cs where r: "r = CHR ''.'' # c # cs" "isdigit c"
      by (cases r; cases "tl r") auto
    have s2: "rest ?s2 = dropWhile isdigit (tl r)"
      "current ?s2 - current s = Suc (length ds + length (takeWhile isdigit (tl r)))"
      using advance_while_eval [of isdigit "Advance ?s1"] s1 by (auto simp: rest_Advance)
    have "take (current ?s2 - current s) (rest s) = ds @ CHR ''.'' # takeWhile isdigit (tl r)"
      unfolding s2 rest_split using r by (simp add: takeWhile_eq_take [symmetric])
    with s1 s2(1) r src show ?thesis
      by (auto simp: ScanNumber_def Let_def lex_view mk_token_def substr_rest)
  next
    case False
    then have "\<not> (\<not> IsAtEnd ?s1 \<and> Peek ?s1 = CHR ''.'' \<and> isdigit (PeekNext ?s1))"
      using s1 by (auto simp: lex_view isdigit_def split: list.splits)
    with False s1 src rest_split show ?thesis
      by (auto simp: ScanNumber_def Let_def mk_token_def substr_rest)
  qed
qed

lemma literal_loop_eval [lex_eval]:
  assumes "\<forall>c \<in> set v. c \<noteq> q \<and> c \<noteq> CHR 0x5C" and "q \<noteq> CHR 0x5C"
    and "rest s = v @ q # r"
  shows "\<exists>t s'. literal_loop q False acc s = Inr (t, s') \<and> rest s' = r \<and>
    tok_type t = (if q = CHR 0x22 then STRING_DOUBLE else STRING_SINGLE) \<and>
    tok_value t = acc @ v"
  using assms
proof (induction v arbitrary: acc s)
  case Nil
  then show ?case
    by (auto simp: literal_loop.simps [of q False acc s] lex_view Let_def mk_token_def)
next
  case (Cons c v)
  then have "rest (Advance s) = v @ q # r" by (simp add: rest_Advance)
  with Cons.IH [of "Advance s" "acc @ [c]"] Cons.prems show ?case
    by (auto simp: literal_loop.simps [of q False acc s] lex_view)
qed


section \<open>Shapes of tokens\<close>

definition ident_char :: "char \<Rightarrow> bool" where
  "ident_char c \<longleftrightarrow> isalpha c \<or> isdigit c \<or> c = CHR ''_''"

definition ident_string :: "string \<Rightarrow> bool" where
  "ident_string v \<longleftrightarrow>
     v \<noteq> [] \<and> (isalpha (hd v) \<or> hd v = CHR ''_'') \<and> list_all ident_char v"

definition float_string :: "string \<Rightarrow> bool" where
  "float_string v \<longleftrightarrow>
     (let a = takeWhile isdigit v; r = dropWhile isdigit v
      in a \<noteq> [] \<and> r \<noteq> [] \<and> hd r = CHR ''.'' \<and> tl r \<noteq> [] \<and> list_all isdigit (tl r))"

text \<open>
  What the value of a token of each type looks like. The types that no branch of the lexer
  creates (\<open>DOLLAR\<close>, \<open>NUMBER\<close>, \<open>IMPORTSTR\<close>, \<open>IMPORTBIN\<close>, \<open>AT_SIGN\<close>, \<open>END_OF_FILE\<close>)
  have no value: both tables of the last case lack them.
\<close>

definition token_shape :: "TokenType \<Rightarrow> string \<Rightarrow> bool" where
  "token_shape ty v =
     (case ty of
        IDENTIFIER \<Rightarrow> ident_string v \<and> map_of kKeywords v = None
      | INTEGER \<Rightarrow> v \<noteq> [] \<and> list_all isdigit v
      | FLOAT \<Rightarrow> float_string v
      | OPERATOR \<Rightarrow> length v = 1 \<and> IsSymbol (hd v) \<or> v \<in> set kValidBinaryOperators
      | STRING_DOUBLE \<Rightarrow> True
      | STRING_SINGLE \<Rightarrow> True
      | TEXT_BLOCK \<Rightarrow> True
      | REF_STRING \<Rightarrow> True
      | VAR_STRING \<Rightarrow> True
      | _ \<Rightarrow> length v = 1 \<and> MatchSimpleToken (hd v) = Some ty \<or> map_of kKeywords v = Some ty)"

text \<open>
  The tokens that \<open>UnTokenize\<close> prints in a form that reads back as themselves: it writes
  string values without escapes, and the special strings and text blocks without their
  introducers, so those are left out.
\<close>

definition plain_token :: "Token \<Rightarrow> bool" where
  "plain_token t \<longleftrightarrow> token_shape (tok_type t) (tok_value t) \<and>
     tok_type t \<notin> {TEXT_BLOCK, REF_STRING, VAR_STRING} \<and>
     (tok_type t = STRING_DOUBLE \<longrightarrow>
        list_all (\<lambda>c. c \<noteq> CHR 0x22 \<and> c \<noteq> CHR 0x5C) (tok_value t)) \<and>
     (tok_type t = STRING_SINGLE \<longrightarrow>
        list_all (\<lambda>c. c \<noteq> CHR 0x27 \<and> c \<noteq> CHR 0x5C) (tok_value t))"

text \<open>
  How the character tests of \<open>ScanToken\<close> exclude each other, decided on character codes.
\<close>

definition code :: "char \<Rightarrow> nat" where
  "code c = of_char c"

lemma code_inj: "c = d \<longleftrightarrow> code c = code d"
  by (simp add: code_def)

lemma code_consts:
  "(c = CHR ''/'') = (code c = 47)" "(c = CHR 0x22) = (code c = 34)"
  "(c = CHR 0x27) = (code c = 39)" "(c = CHR ''_'') = (code c = 95)"
  "(c = CHR 0x40) = (code c = 64)" "(c = CHR ''$'') = (code c = 36)"
  "(c = CHR 0x0A) = (code c = 10)"
  unfolding code_inj [of c] by (simp_all add: code_def)

lemma code_classes:
  "isdigit c \<longleftrightarrow> 48 \<le> code c \<and> code c \<le> 57"
  "isalpha c \<longleftrightarrow> 65 \<le> code c \<and> code c \<le> 90 \<or> 97 \<le> code c \<and> code c \<le> 122"
  "isspace c \<longleftrightarrow> code c \<in> {9, 10, 11, 12, 13, 32}"
  by (simp_all add: isdigit_def isalpha_def isspace_def code_def)

lemma IsSymbol_code:
  "IsSymbol c \<longleftrightarrow> code c \<in> {33, 58, 126, 43, 45, 38, 124, 94, 61, 60, 62, 42, 47, 37}"
proof -
  have "IsSymbol c \<longleftrightarrow> code c \<in> set (map code kSymbols)"
    by (auto simp: IsSymbol_def code_inj [symmetric])
  also have "map code kSymbols = [33, 58, 126, 43, 45, 38, 124, 94, 61, 60, 62, 42, 47, 37]"
    by (simp add: kSymbols_def code_def)
  finally show ?thesis by simp
qed

lemma MatchSimpleToken_code:
  "MatchSimpleToken c \<noteq> None \<longleftrightarrow> code c \<in> {123, 125, 91, 93, 40, 41, 46, 44, 59}"
proof -
  have "MatchSimpleToken c \<noteq> None \<longleftrightarrow> code c \<in> set (map (code \<circ> fst) kSimpleTokens)"
    by (auto simp: MatchSimpleToken_def map_of_eq_None_iff code_inj [symmetric] image_iff)
  also have "map (code \<circ> fst) kSimpleTokens = [123, 125, 91, 93, 40, 41, 46, 44, 59]"
    by (simp add: kSimpleTokens_def code_def)
  finally show ?thesis by simp
qed

lemmas code_tests = code_classes IsSymbol_code MatchSimpleToken_code code_consts

lemma simple_char_classes:
  "MatchSimpleToken c \<noteq> None \<Longrightarrow>
     \<not> IsSymbol c \<and> \<not> isdigit c \<and> \<not> isalpha c \<and> \<not> isspace c \<and> c \<noteq> CHR ''_'' \<and> c \<noteq> CHR ''/''"
  unfolding code_tests by (elim insertE; simp)

lemma symbol_char_classes:
  "IsSymbol c \<Longrightarrow>
     \<not> isdigit c \<and> \<not> isalpha c \<and> \<not> isspace c \<and> c \<noteq> CHR 0x22 \<and> c \<noteq> CHR 0x27 \<and> c \<noteq> CHR ''_''"
  unfolding code_tests by (elim insertE; simp)

lemma digit_char_classes:
  "isdigit c \<Longrightarrow> \<not> isspace c \<and> c \<noteq> CHR 0x22 \<and> c \<noteq> CHR 0x27 \<and> c \<noteq> CHR ''/''"
  unfolding code_tests by auto

lemma ident_start_classes:
  "isalpha c \<or> c = CHR ''_'' \<Longrightarrow>
     \<not> isspace c \<and> \<not> isdigit c \<and> c \<noteq> CHR 0x22 \<and> c \<noteq> CHR 0x27 \<and> c \<noteq> CHR 0x40 \<and>
     c \<noteq> CHR ''$'' \<and> c \<noteq> CHR ''/''"
  unfolding code_tests by auto

lemma char_classes_None:
  "IsSymbol c \<or> isdigit c \<or> isalpha c \<or> c = CHR ''_'' \<Longrightarrow> MatchSimpleToken c = None"
  using simple_char_classes [of c] by blast

lemma quote_classes:
  "c = CHR 0x22 \<or> c = CHR 0x27 \<Longrightarrow>
     MatchSimpleToken c = None \<and> \<not> IsSymbol c \<and> \<not> isspace c \<and> c \<noteq> CHR ''/''"
  using MatchSimpleToken_code [of c] unfolding code_classes IsSymbol_code code_consts by auto

lemma keyword_ident:
  "map_of kKeywords v = Some ty \<Longrightarrow> ident_string v"
proof -
  have "list_all (ident_string \<circ> fst) kKeywords" by code_simp
  then show "map_of kKeywords v = Some ty \<Longrightarrow> ident_string v"
    by (auto simp: list_all_iff dest!: map_of_SomeD)
qed

lemma newline_classes [simp]:
  "\<not> ident_char (CHR 0x0A)" "\<not> isdigit (CHR 0x0A)" "\<not> isalpha (CHR 0x0A)" "\<not> IsSymbol (CHR 0x0A)"
  "isspace (CHR 0x0A)"
  by (simp_all add: ident_char_def isalpha_def isdigit_def isspace_def IsSymbol_def kSymbols_def)


section \<open>Reading back what UnTokenize prints\<close>

text \<open>One token, followed by the newline that \<open>UnTokenize\<close> puts after it.\<close>

definition scans_as :: "lexer \<Rightarrow> Token \<Rightarrow> string \<Rightarrow> bool" where
  "scans_as s t r \<longleftrightarrow> (\<exists>t' s'. ScanToken s = Inr (Some t', s') \<and> Token_eq t' t \<and> rest s' = r)"

lemma scan_simple:
  assumes "rest s = c # r" and "MatchSimpleToken c = Some ty" and "tok_type t = ty"
    and "tok_value t = [c]"
  shows "scans_as s t r"
  using assms by (simp add: scans_as_def ScanToken_def lex_view Let_def mk_token_def Token_eq_def)

lemma scan_ident:
  assumes rest: "rest s = v @ CHR 0x0A # r" and v: "ident_string v"
    and t: "tok_value t = v"
      "tok_type t = (case map_of kKeywords v of Some ty \<Rightarrow> ty | None \<Rightarrow> IDENTIFIER)"
  shows "scans_as s t (CHR 0x0A # r)"
proof -
  let ?p = "\<lambda>c. isalpha c \<or> isdigit c \<or> c = CHR ''_''"
  from v obtain c cs where c: "v = c # cs" "isalpha c \<or> c = CHR ''_''" "\<forall>x \<in> set v. ?p x"
    by (cases v) (auto simp: ident_string_def ident_char_def list_all_iff)
  obtain s' where s': "keyword_loop [] s = (v, s')" "rest s' = CHR 0x0A # r"
    using keyword_loop_eval [of "[]" s] rest c(3)
    by (auto simp: takeWhile_all_append dropWhile_all_append)
  from rest c have "Peek s = c" by (simp add: lex_view)
  with c(2) s' t show ?thesis
    using ident_start_classes [OF c(2)] char_classes_None [of c]
    by (auto simp: scans_as_def ScanToken_def ScanKeywords_def Let_def mk_token_def Token_eq_def
        IsSymbol_code code_tests split: option.splits)
qed


lemma scan_number:
  assumes rest: "rest s = tok_value t @ CHR 0x0A # r"
    and shape: "tok_type t = INTEGER \<and> tok_value t \<noteq> [] \<and> list_all isdigit (tok_value t) \<or>
      tok_type t = FLOAT \<and> float_string (tok_value t)"
  shows "scans_as s t (CHR 0x0A # r)"
proof -
  let ?v = "tok_value t"
  obtain t' s' where sc: "ScanNumber s = (t', s')" by (cases "ScanNumber s")
  have digit: "isdigit (Peek s)"
    using rest shape
    by (cases ?v) (auto simp: lex_view float_string_def Let_def split: if_splits)
  have "tok_type t' = tok_type t \<and> tok_value t' = ?v \<and> rest s' = CHR 0x0A # r"
    using shape
  proof (elim disjE conjE)
    assume int: "tok_type t = INTEGER" "list_all isdigit ?v"
    then have "takeWhile isdigit (rest s) = ?v" "dropWhile isdigit (rest s) = CHR 0x0A # r"
      using rest by (simp_all add: takeWhile_all_append dropWhile_all_append list_all_iff)
    with int sc show ?thesis using ScanNumber_eval [of s] by simp
  next
    assume flt: "tok_type t = FLOAT" "float_string ?v"
    let ?a = "takeWhile isdigit ?v" and ?b = "dropWhile isdigit ?v"
    from flt obtain c cs where b: "?b = CHR ''.'' # c # cs" "isdigit c" "list_all isdigit cs"
      by (cases ?b; cases "tl ?b") (auto simp: float_string_def Let_def)
    have v: "?v = ?a @ ?b" by simp
    have rest': "rest s = ?a @ CHR ''.'' # c # cs @ CHR 0x0A # r"
      using rest b(1) v by (metis append_Cons append_assoc)
    have "\<forall>x \<in> set ?a. isdigit x" by (auto dest: set_takeWhileD)
    moreover have "\<not> isdigit (CHR ''.'')" by (simp add: isdigit_def)
    ultimately have 1: "takeWhile isdigit (rest s) = ?a"
      "dropWhile isdigit (rest s) = CHR ''.'' # c # cs @ CHR 0x0A # r"
      unfolding rest' by (simp_all add: takeWhile_all_append dropWhile_all_append)
    have vb: "?v = ?a @ CHR ''.'' # c # cs" using v b(1) by metis
    have "takeWhile isdigit (c # cs @ CHR 0x0A # r) = c # cs"
      "dropWhile isdigit (c # cs @ CHR 0x0A # r) = CHR 0x0A # r"
      using b by (simp_all add: takeWhile_all_append dropWhile_all_append list_all_iff)
    with 1 b(2) flt(1) sc show ?thesis using ScanNumber_eval [of s] vb by simp
  qed
  with digit sc show ?thesis
    using digit_char_classes [OF digit] char_classes_None [of "Peek s"]
    by (auto simp: scans_as_def ScanToken_def Let_def Token_eq_def IsSymbol_code code_tests)
qed


lemma scan_string:
  assumes rest: "rest s = q # v @ q # r" and v: "\<forall>c \<in> set v. c \<noteq> q \<and> c \<noteq> CHR 0x5C"
    and q: "q = CHR 0x22 \<and> tok_type t = STRING_DOUBLE \<or> q = CHR 0x27 \<and> tok_type t = STRING_SINGLE"
    and val: "tok_value t = v"
  shows "scans_as s t r"
proof -
  have "q \<noteq> CHR 0x5C" using q by (elim disjE) simp_all
  then obtain t' s' where lit: "literal_loop q False [] (Advance s) = Inr (t', s')" "rest s' = r"
      "tok_type t' = (if q = CHR 0x22 then STRING_DOUBLE else STRING_SINGLE)" "tok_value t' = v"
    using literal_loop_eval [of v q "Advance s" r "[]"] v rest by (auto simp: rest_Advance)
  have ty: "tok_type t' = tok_type t" using lit(3) q by (elim disjE) simp_all
  have q': "Peek s = q" "MatchSimpleToken q = None" "q = CHR 0x22 \<or> q = CHR 0x27"
    using rest q quote_classes [of q] by (auto simp: lex_view)
  have "ScanToken s = Inr (Some t', s')"
    unfolding ScanToken_def ScanLiterals_def Let_def q'(1) q'(2) using q'(3) lit(1) by simp
  with lit(2,4) ty val show ?thesis by (simp add: scans_as_def Token_eq_def)
qed

lemma operator_loop_eval1:
  assumes "rest s = c # CHR 0x0A # r" and "IsSymbol c"
  shows "\<exists>s'. operator_loop k s = (k @ [c], s') \<and> rest s' = CHR 0x0A # r"
  using assms
  by (simp add: operator_loop.simps [of k s] operator_loop.simps [of "k @ [c]" "Advance s"] lex_view)

lemma operator_loop_eval2:
  assumes "rest s = c # d # CHR 0x0A # r" and "IsSymbol c" and "IsSymbol d"
    and "c = CHR ''='' \<longrightarrow> d \<noteq> CHR ''-'' \<and> d \<noteq> CHR ''+''"
  shows "\<exists>s'. operator_loop k s = (k @ [c, d], s') \<and> rest s' = CHR 0x0A # r"
proof -
  have "operator_loop k s = operator_loop (k @ [c]) (Advance s)"
    using assms by (auto simp: operator_loop.simps [of k s] lex_view)
  moreover have "rest (Advance s) = d # CHR 0x0A # r" using assms(1) by (simp add: rest_Advance)
  ultimately show ?thesis
    using operator_loop_eval1 [of "Advance s" d r "k @ [c]"] assms(3) by simp
qed

lemma scan_operator:
  assumes rest: "rest s = tok_value t @ CHR 0x0A # r" and ty: "tok_type t = OPERATOR"
    and v: "length (tok_value t) = 1 \<and> IsSymbol (hd (tok_value t)) \<or>
      tok_value t \<in> set kValidBinaryOperators"
  shows "scans_as s t (CHR 0x0A # r)"
proof -
  have "\<exists>s'. HandleOperators s = Inr (mk_token s' OPERATOR (tok_value t), s') \<and>
      rest s' = CHR 0x0A # r \<and> IsSymbol (Peek s)"
    using v
  proof
    assume "length (tok_value t) = 1 \<and> IsSymbol (hd (tok_value t))"
    then obtain c where "tok_value t = [c]" "IsSymbol c"
      by (cases "tok_value t") auto
    then show ?thesis using operator_loop_eval1 [of s c r "[]"] rest
      by (auto simp: HandleOperators_def lex_view)
  next
    assume op: "tok_value t \<in> set kValidBinaryOperators"
    then obtain c d where cd: "tok_value t = [c, d]" "IsSymbol c" "IsSymbol d"
        "c = CHR ''='' \<longrightarrow> d \<noteq> CHR ''-'' \<and> d \<noteq> CHR ''+''"
      by (auto simp: kValidBinaryOperators_def IsSymbol_def kSymbols_def)
    then show ?thesis using operator_loop_eval2 [of s c d r "[]"] rest op
      by (auto simp: HandleOperators_def lex_view)
  qed
  then show ?thesis
    using ty symbol_char_classes [of "Peek s"] char_classes_None [of "Peek s"]
    by (auto simp: scans_as_def ScanToken_def Let_def Token_eq_def mk_token_def)
qed

text \<open>The five ways a printed token can look, and how each of them is scanned.\<close>

lemma token_shape_cases:
  assumes "token_shape ty v"
  obtains (ident) "ident_string v"
      "ty = (case map_of kKeywords v of Some ty \<Rightarrow> ty | None \<Rightarrow> IDENTIFIER)"
    | (number) "ty = INTEGER \<and> v \<noteq> [] \<and> list_all isdigit v \<or> ty = FLOAT \<and> float_string v"
    | (operator) "ty = OPERATOR"
      "length v = 1 \<and> IsSymbol (hd v) \<or> v \<in> set kValidBinaryOperators"
    | (simple) c where "v = [c]" "MatchSimpleToken c = Some ty"
    | (string) "ty \<in> {STRING_DOUBLE, STRING_SINGLE, TEXT_BLOCK, REF_STRING, VAR_STRING}"
proof -
  have simple: thesis if "length v = 1" "MatchSimpleToken (hd v) = Some ty"
    using that \<open>\<And>c. v = [c] \<Longrightarrow> MatchSimpleToken c = Some ty \<Longrightarrow> thesis\<close> by (cases v) auto
  have keyword: thesis if "map_of kKeywords v = Some ty"
    using that keyword_ident [OF that] ident by simp
  show thesis
    using assms that simple keyword
    by (cases ty) (simp_all add: token_shape_def, blast+)
qed

lemma plain_scan:
  assumes plain: "plain_token t" and rest: "rest s = UnTokenize1 t @ r"
  shows "scans_as s t (CHR 0x0A # r)"
proof -
  have val: "tok_type t \<noteq> STRING_DOUBLE \<Longrightarrow> tok_type t \<noteq> STRING_SINGLE \<Longrightarrow>
      rest s = tok_value t @ CHR 0x0A # r"
    using assms by (simp add: UnTokenize1_def plain_token_def)
  from plain have "token_shape (tok_type t) (tok_value t)" by (simp add: plain_token_def)
  then show ?thesis
  proof (cases rule: token_shape_cases)
    case ident
    then have "tok_type t \<noteq> STRING_DOUBLE" "tok_type t \<noteq> STRING_SINGLE"
      by (auto split: option.splits dest!: map_of_SomeD simp: kKeywords_def)
    then show ?thesis using scan_ident [OF val ident(1) refl ident(2)] by blast
  next
    case number
    then show ?thesis using scan_number [OF val] by auto
  next
    case operator
    then show ?thesis using scan_operator [OF val] by simp
  next
    case (simple c)
    then have "tok_type t \<noteq> STRING_DOUBLE" "tok_type t \<noteq> STRING_SINGLE"
      by (auto simp: MatchSimpleToken_def kSimpleTokens_def split: if_splits)
    with val simple have "rest s = c # CHR 0x0A # r" by simp
    with simple show ?thesis by (auto intro: scan_simple)
  next
    case string
    with plain consider "tok_type t = STRING_DOUBLE" | "tok_type t = STRING_SINGLE"
      by (auto simp: plain_token_def)
    then show ?thesis
    proof cases
      case 1
      with plain rest show ?thesis
        by (intro scan_string [of s "CHR 0x22" "tok_value t"])
           (simp_all add: UnTokenize1_def plain_token_def list_all_iff)
    next
      case 2
      with plain rest show ?thesis
        by (intro scan_string [of s "CHR 0x27" "tok_value t"])
           (simp_all add: UnTokenize1_def plain_token_def list_all_iff)
    qed
  qed
qed

lemma operator_head:
  assumes "length v = 1 \<and> IsSymbol (hd v) \<or> v \<in> set kValidBinaryOperators"
  shows "\<exists>c d. v = [c] \<and> IsSymbol c \<or> v = [c, d] \<and> IsSymbol c \<and> c \<noteq> CHR ''/''"
proof -
  have "list_all (\<lambda>v. length v = 2 \<and> IsSymbol (hd v) \<and> hd v \<noteq> CHR ''/'') kValidBinaryOperators"
    by code_simp
  with assms have "length v = 1 \<and> IsSymbol (hd v) \<or>
      length v = 2 \<and> IsSymbol (hd v) \<and> hd v \<noteq> CHR ''/''"
    unfolding list_all_iff by blast
  then show ?thesis
    by (cases v; cases "tl v") simp_all
qed

lemma plain_start:
  assumes plain: "plain_token t" and rest: "rest s = UnTokenize1 t @ r"
  shows "\<not> IsAtEnd s \<and> \<not> isspace (Peek s) \<and> \<not> starts_comment s"
proof -
  have cls: ?thesis if "rest s = c # cs" "\<not> isspace c" "c \<noteq> CHR ''/''" for c cs
    using that by (simp add: lex_view starts_comment_def)
  have val: "tok_type t \<noteq> STRING_DOUBLE \<Longrightarrow> tok_type t \<noteq> STRING_SINGLE \<Longrightarrow>
      rest s = tok_value t @ CHR 0x0A # r"
    using assms by (simp add: UnTokenize1_def plain_token_def)
  show ?thesis
  proof (cases "tok_type t = STRING_DOUBLE \<or> tok_type t = STRING_SINGLE")
    case True
    then obtain q cs where "rest s = q # cs" "q = CHR 0x22 \<or> q = CHR 0x27"
      using rest by (auto simp: UnTokenize1_def)
    with quote_classes [of q] show ?thesis by (simp add: cls)
  next
    case False
    with val have val': "rest s = tok_value t @ CHR 0x0A # r" by simp
    from plain have "token_shape (tok_type t) (tok_value t)" by (simp add: plain_token_def)
    then show ?thesis
    proof (cases rule: token_shape_cases)
      case ident
      then obtain c cs where "tok_value t = c # cs" "isalpha c \<or> c = CHR ''_''"
        by (cases "tok_value t") (auto simp: ident_string_def)
      with val' ident_start_classes [of c] show ?thesis by (simp add: cls)
    next
      case number
      then obtain c cs where "tok_value t = c # cs" "isdigit c"
        by (cases "tok_value t") (auto simp: float_string_def Let_def split: if_splits)
      with val' digit_char_classes [of c] show ?thesis by (simp add: cls)
    next
      case operator
      then consider c where "tok_value t = [c]" "IsSymbol c" |
        c d where "tok_value t = [c, d]" "IsSymbol c" "c \<noteq> CHR ''/''"
        using operator_head by blast
      then show ?thesis
      proof cases
        case (1 c)
        with val' symbol_char_classes [of c] show ?thesis
          by (simp add: lex_view starts_comment_def)
      next
        case (2 c d)
        with val' symbol_char_classes [of c] show ?thesis
          by (simp add: cls)
      qed
    next
      case (simple c)
      then show ?thesis using val' simple_char_classes [of c] by (simp add: cls)
    next
      case string
      with plain False show ?thesis by (simp add: plain_token_def)
    qed
  qed
qed

lemma tokenize_loop_UnTokenize:
  assumes "list_all plain_token toks" and "rest s = ws @ UnTokenize toks"
    and "\<forall>c \<in> set ws. isspace c"
  shows "\<exists>ts' s'. tokenize_loop ts s = Inr (ts @ ts', s') \<and> list_all2 Token_eq ts' toks"
  using assms
proof (induction toks arbitrary: ts s ws)
  case Nil
  then have "IsAtEnd (SkipWhitespace s)"
    using advance_while_eval [of isspace s]
    by (simp add: UnTokenize_def SkipWhitespace_def IsAtEnd_rest dropWhile_eq_Nil_conv)
  then show ?case by (simp add: tokenize_loop.simps [of ts s] Let_def)
next
  case (Cons t toks)
  let ?s1 = "SkipWhitespace s"
  have rest: "rest s = ws @ UnTokenize1 t @ UnTokenize toks"
    using Cons.prems by (simp add: UnTokenize_def)
  have plain: "plain_token t" using Cons.prems by simp
  have "dropWhile isspace (UnTokenize1 t @ UnTokenize toks) = UnTokenize1 t @ UnTokenize toks"
    using plain_start [OF plain, of "Lexer [] (UnTokenize1 t @ UnTokenize toks)" "UnTokenize toks"]
    by (cases "UnTokenize1 t @ UnTokenize toks") (simp_all add: lex_view)
  then have rest1: "rest ?s1 = UnTokenize1 t @ UnTokenize toks"
    using advance_while_eval [of isspace s] rest Cons.prems(3)
    by (simp add: SkipWhitespace_def dropWhile_all_append)
  note start = plain_start [OF plain rest1]
  obtain t' s2 where scan: "ScanToken ?s1 = Inr (Some t', s2)" "Token_eq t' t"
      "rest s2 = [CHR 0x0A] @ UnTokenize toks"
    using plain_scan [OF plain rest1] by (auto simp: scans_as_def)
  let ?t = "t'\<lparr>tok_line := line s2, tok_column := column s2\<rparr>"
  have "\<not> IsAtEnd s"
    using start rest rest1 by (auto simp: IsAtEnd_rest)
  with start scan(1) have "tokenize_loop ts s = tokenize_loop (ts @ [?t]) s2"
    by (simp add: tokenize_loop.simps [of ts s] Let_def)
  moreover obtain ts' s' where "tokenize_loop (ts @ [?t]) s2 = Inr ((ts @ [?t]) @ ts', s')"
      "list_all2 Token_eq ts' toks"
    using Cons.IH [of s2 "[CHR 0x0A]" "ts @ [?t]"] Cons.prems scan(3) by auto
  moreover have "Token_eq ?t t" using scan(2) by (simp add: Token_eq_def)
  ultimately show ?case by (intro exI [of _ "?t # ts'"]) auto
qed

section \<open>Every token has the shape of its type\<close>

lemma mk_token_sel [simp]:
  "tok_type (mk_token s ty v) = ty" "tok_value (mk_token s ty v) = v"
  by (simp_all add: mk_token_def)

lemma map_of_Some_range: "map_of xs k = Some v \<Longrightarrow> v \<in> snd ` set xs"
  by (drule map_of_SomeD) force

text \<open>The token types of the two tables have the default shape.\<close>

lemma table_shape:
  assumes "ty \<in> snd ` set kKeywords \<union> snd ` set kSimpleTokens"
  shows "token_shape ty v \<longleftrightarrow>
    length v = 1 \<and> MatchSimpleToken (hd v) = Some ty \<or> map_of kKeywords v = Some ty"
proof -
  have "ty \<in> {BRACE_L, BRACE_R, BRACKET_L, BRACKET_R, COMMA, DOT, PAREN_L, PAREN_R, SEMICOLON,
      ASSERT, ELSE, ERROR, FALSE, FOR, FUNCTION, IF, IMPORT, IN, LOCAL, NULL_LIT, THEN_KW, TRUE}"
    using assms by (auto simp: kKeywords_def kSimpleTokens_def)
  then show ?thesis by (elim insertE; simp add: token_shape_def)
qed

lemma literal_loop_type:
  "literal_loop q e v s = Inr (t, s') \<Longrightarrow> tok_type t = STRING_DOUBLE \<or> tok_type t = STRING_SINGLE"
proof (induction q e v s rule: literal_loop.induct)
  case (1 q e v s)
  then show ?case
    by (simp add: literal_loop.simps [of q e v s] Let_def split: if_splits) auto
qed

lemma ScanNumber_shape:
  assumes scan: "ScanNumber s = (t, s')" and digit: "isdigit (Peek s)"
  shows "token_shape (tok_type t) (tok_value t)"
proof -
  let ?ds = "takeWhile isdigit (rest s)" and ?r = "dropWhile isdigit (rest s)"
  have digits: "\<forall>x \<in> set ?ds. isdigit x" "\<forall>x \<in> set (takeWhile isdigit (tl ?r)). isdigit x"
    by (auto dest: set_takeWhileD)
  have ne: "?ds \<noteq> []"
    using digit by (cases "rest s") (auto simp: Peek_rest isdigit_def)
  have dot: "\<not> isdigit (CHR ''.'')" by (simp add: isdigit_def)
  show ?thesis
  proof (cases "?r \<noteq> [] \<and> hd ?r = CHR ''.'' \<and> tl ?r \<noteq> [] \<and> isdigit (hd (tl ?r))")
    case True
    then have "takeWhile isdigit (tl ?r) \<noteq> []" by (cases "tl ?r") simp_all
    with True show ?thesis
      using scan digits ne dot ScanNumber_eval [of s]
      by (simp add: token_shape_def float_string_def Let_def list_all_iff takeWhile_all_append
          dropWhile_all_append)
  next
    case False
    with scan digits ne show ?thesis
      using ScanNumber_eval [of s] by (simp add: token_shape_def list_all_iff)
  qed
qed

lemma ScanKeywords_shape:
  assumes scan: "ScanKeywords s = (t, s')" and start: "isalpha (Peek s) \<or> Peek s = CHR ''_''"
  shows "token_shape (tok_type t) (tok_value t)"
proof -
  let ?p = "\<lambda>c. isalpha c \<or> isdigit c \<or> c = CHR ''_''"
  let ?v = "takeWhile ?p (rest s)"
  obtain s1 where loop: "keyword_loop [] s = (?v, s1)"
    using keyword_loop_eval [of "[]" s] by auto
  have "Peek s \<noteq> CHR 0x00"
  proof
    assume "Peek s = CHR 0x00"
    with start show False by (simp add: isalpha_def)
  qed
  with start obtain c cs where "rest s = c # cs" "isalpha c \<or> c = CHR ''_''"
    by (cases "rest s") (simp_all add: Peek_rest)
  then have "?v = c # takeWhile ?p cs" and c: "isalpha c \<or> c = CHR ''_''" by auto
  moreover have "list_all ident_char ?v"
    unfolding list_all_iff ident_char_def by (blast dest: set_takeWhileD)
  ultimately have v: "ident_string ?v" by (simp add: ident_string_def)
  show ?thesis
  proof (cases "map_of kKeywords ?v")
    case None
    with scan loop v show ?thesis
      by (auto simp: ScanKeywords_def mk_token_def token_shape_def)
  next
    case (Some ty)
    with scan loop have t: "tok_type t = ty" "tok_value t = ?v"
      by (auto simp: ScanKeywords_def mk_token_def)
    have "ty \<in> snd ` set kKeywords" using Some by (rule map_of_Some_range)
    with Some show ?thesis unfolding t by (simp add: table_shape)
  qed
qed

lemma operator_loop_symbols:
  "operator_loop k s = (k', s') \<Longrightarrow> list_all IsSymbol k \<Longrightarrow> list_all IsSymbol k'"
proof (induction k s rule: operator_loop.induct)
  case (1 k s)
  then show ?case
    by (auto simp: operator_loop.simps [of k s] split: if_splits)
qed

lemma HandleOperators_shape:
  assumes "HandleOperators s = Inr (t, s')"
  shows "token_shape (tok_type t) (tok_value t)"
proof -
  obtain op s1 where op: "operator_loop [] s = (op, s1)" by (cases "operator_loop [] s")
  with operator_loop_symbols have "list_all IsSymbol op" by fastforce
  with op assms show ?thesis
    by (cases op)
       (auto simp: HandleOperators_def HandleTextBlock_def bindE_Inr_iff mk_token_def
          token_shape_def split: if_splits)
qed

lemma ScanToken_shape:
  assumes scan: "ScanToken s = Inr (Some t, s')"
  shows "token_shape (tok_type t) (tok_value t)"
proof (cases "MatchSimpleToken (Peek s)")
  case (Some ty)
  with scan have t: "tok_type t = ty" "tok_value t = [Peek s]"
    by (auto simp: ScanToken_def Let_def mk_token_def)
  have "ty \<in> snd ` set kSimpleTokens"
    using Some by (simp add: MatchSimpleToken_def map_of_Some_range)
  with Some show ?thesis unfolding t by (simp add: table_shape)
next
  case None
  consider (lit) "Peek s = CHR 0x22 \<or> Peek s = CHR 0x27"
    | (sym) "\<not> (Peek s = CHR 0x22 \<or> Peek s = CHR 0x27)" "IsSymbol (Peek s)"
    | (other) "\<not> (Peek s = CHR 0x22 \<or> Peek s = CHR 0x27)" "\<not> IsSymbol (Peek s)"
    by blast
  then show ?thesis
  proof cases
    case lit
    with None scan obtain v where "literal_loop (Peek s) False [] (Advance s) = Inr (t, v)"
      unfolding ScanToken_def ScanLiterals_def Let_def by (auto simp: bindE_Inr_iff)
    then show ?thesis using literal_loop_type by (fastforce simp: token_shape_def)
  next
    case sym
    with None scan show ?thesis
      by (auto simp: ScanToken_def Let_def bindE_Inr_iff intro: HandleOperators_shape)
  next
    case other
    with None scan show ?thesis
      by (auto simp: ScanToken_def Let_def bindE_Inr_iff ScanSpecialString_def mk_token_def
          split: if_splits prod.splits intro: ScanNumber_shape ScanKeywords_shape)
        (auto simp: token_shape_def)
  qed
qed

lemma tokenize_loop_shape:
  "tokenize_loop ts s = Inr (ts', s') \<Longrightarrow>
     \<forall>t \<in> set ts. token_shape (tok_type t) (tok_value t) \<Longrightarrow>
     \<forall>t \<in> set ts'. token_shape (tok_type t) (tok_value t)"
proof (induction ts s rule: tokenize_loop.induct)
  case (1 ts s)
  let ?s1 = "SkipWhitespace s"
  show ?case
  proof (cases "IsAtEnd s \<or> IsAtEnd ?s1")
    case True
    with "1.prems" show ?thesis
      by (auto simp: tokenize_loop.simps [of ts s] Let_def split: if_splits)
  next
    case more: False
    show ?thesis
    proof (cases "starts_comment ?s1")
      case True
      with more "1.prems"(1) obtain s2 where s2: "HandleComments ?s1 = Inr s2"
        and loop: "tokenize_loop ts s2 = Inr (ts', s')"
        by (auto simp: tokenize_loop.simps [of ts s] Let_def split: sum.splits)
      with "1.IH"(1) [OF _ refl _ True s2 loop] more "1.prems"(2) show ?thesis by blast
    next
      case False
      with more "1.prems"(1) obtain t s2 where scan: "ScanToken ?s1 = Inr (t, s2)"
        by (auto simp: tokenize_loop.simps [of ts s] Let_def split: sum.splits prod.splits)
      with more have "t \<noteq> None" using ScanToken_ahead by blast
      then obtain tok where tok: "t = Some tok" by blast
      let ?tok = "tok\<lparr>tok_line := line s2, tok_column := column s2\<rparr>"
      from more False scan tok "1.prems"(1)
      have "tokenize_loop (ts @ [?tok]) s2 = Inr (ts', s')"
        by (simp add: tokenize_loop.simps [of ts s] Let_def)
      with "1.IH"(3) [OF _ refl _ False scan refl tok] more "1.prems"(2) ScanToken_shape
      show ?thesis using scan tok by auto
    qed
  qed
qed

section \<open>String literals\<close>

text \<open>
  The reference printer of a string literal: the quote, the value with quotes and
  backslashes escaped and newlines, tabs and carriage returns written as escapes, the quote.
\<close>

definition escape_literal :: "string \<Rightarrow> string" where
  "escape_literal v = concat (map (\<lambda>c.
     if c = CHR 0x0A then [CHR 0x5C, CHR ''n'']
     else if c = CHR 0x09 then [CHR 0x5C, CHR ''t'']
     else if c = CHR 0x0D then [CHR 0x5C, CHR ''r'']
     else if c = CHR 0x5C \<or> c = CHR 0x27 \<or> c = CHR 0x22 then [CHR 0x5C, c]
     else [c]) v)"

definition double_quotes :: "string \<Rightarrow> string" where
  "double_quotes v =
     concat (map (\<lambda>c. if c = CHR 0x27 then [CHR 0x27, CHR 0x27] else [c]) v)"

lemma escape_literal_char:
  "(\<exists>d. escape_literal [c] = [CHR 0x5C, d] \<and> escape_char d = [c]) \<or>
   escape_literal [c] = [c] \<and> c \<noteq> CHR 0x5C \<and> c \<noteq> CHR 0x22 \<and> c \<noteq> CHR 0x27"
proof -
  consider "c = CHR 0x0A" | "c = CHR 0x09" | "c = CHR 0x0D" | "c = CHR 0x5C" | "c = CHR 0x27"
    | "c = CHR 0x22" | "c \<notin> {CHR 0x0A, CHR 0x09, CHR 0x0D, CHR 0x5C, CHR 0x27, CHR 0x22}"
    by blast
  then show ?thesis by cases (simp_all add: escape_literal_def escape_char_def)
qed

lemma literal_loop_escape:
  assumes "q = CHR 0x22 \<or> q = CHR 0x27" and "rest s = escape_literal v @ q # r"
  shows "\<exists>t s'. literal_loop q False acc s = Inr (t, s') \<and> rest s' = r \<and>
    tok_type t = (if q = CHR 0x22 then STRING_DOUBLE else STRING_SINGLE) \<and>
    tok_value t = acc @ v"
  using assms(2)
proof (induction v arbitrary: acc s)
  case Nil
  then have "rest s = q # r" by (simp add: escape_literal_def)
  moreover have "q \<noteq> CHR 0x5C" using assms(1) by (elim disjE) simp_all
  ultimately show ?case
    by (simp add: literal_loop.simps [of q False acc s] lex_view Let_def mk_token_def)
next
  case (Cons c v)
  have tail: "escape_literal (c # v) = escape_literal [c] @ escape_literal v"
    by (simp add: escape_literal_def)
  have quote: "q \<noteq> CHR 0x5C" using assms(1) by (elim disjE) simp_all
  consider (esc) d where "escape_literal [c] = [CHR 0x5C, d]" "escape_char d = [c]"
    | (plain) "escape_literal [c] = [c]" "c \<noteq> CHR 0x5C" "c \<noteq> q"
    using assms(1) escape_literal_char [of c] by blast
  then show ?case
  proof cases
    case (esc d)
    then have r: "rest s = CHR 0x5C # d # escape_literal v @ q # r"
      using Cons.prems tail by simp
    then have "literal_loop q False acc s = literal_loop q False (acc @ [c]) (Advance (Advance s))"
      using esc(2) by (simp add: literal_loop.simps [of q False acc s]
        literal_loop.simps [of q True acc "Advance s"] lex_view)
    with Cons.IH [of "Advance (Advance s)" "acc @ [c]"] r show ?thesis
      by (simp add: rest_Advance)
  next
    case plain
    then have r: "rest s = c # escape_literal v @ q # r"
      using Cons.prems tail by simp
    then have "literal_loop q False acc s = literal_loop q False (acc @ [c]) (Advance s)"
      using plain(2,3) by (simp add: literal_loop.simps [of q False acc s] lex_view)
    with Cons.IH [of "Advance s" "acc @ [c]"] r show ?thesis
      by (simp add: rest_Advance)
  qed
qed

lemma special_loop_double:
  assumes "rest s = double_quotes v @ CHR 0x27 # r" and "r = [] \<or> hd r \<noteq> CHR 0x27"
  shows "\<exists>s'. special_loop (CHR 0x27) acc s = (acc @ v, True, s') \<and> rest s' = r"
  using assms(1)
proof (induction v arbitrary: acc s)
  case Nil
  then have "rest s = CHR 0x27 # r" by (simp add: double_quotes_def)
  with assms(2) show ?case
    by (cases r) (simp_all add: special_loop.simps [of "CHR 0x27" acc s] lex_view)
next
  case (Cons c v)
  have tail: "double_quotes (c # v) = double_quotes [c] @ double_quotes v"
    by (simp add: double_quotes_def)
  show ?case
  proof (cases "c = CHR 0x27")
    case True
    then have r: "rest s = CHR 0x27 # CHR 0x27 # double_quotes v @ CHR 0x27 # r"
      using Cons.prems tail by (simp add: double_quotes_def)
    with Cons.IH [of "Advance (Advance s)" "acc @ [c]"] True show ?thesis
      by (simp add: special_loop.simps [of "CHR 0x27" acc s] lex_view)
  next
    case False
    then have r: "rest s = c # double_quotes v @ CHR 0x27 # r"
      using Cons.prems tail by (simp add: double_quotes_def)
    with Cons.IH [of "Advance s" "acc @ [c]"] False show ?thesis
      by (simp add: special_loop.simps [of "CHR 0x27" acc s] lex_view)
  qed
qed

lemma lex_single_token:
  assumes start: "\<not> isspace c" "c \<noteq> CHR ''/''"
    and scan: "ScanToken (Lexer f (c # cs)) = Inr (Some t, s')" "rest s' = []"
  shows "\<exists>t'. lex f (c # cs) = Inr [t'] \<and> Token_eq t' t"
proof -
  let ?s = "Lexer f (c # cs)"
  have skip: "SkipWhitespace ?s = ?s"
    using start(1) by (simp add: SkipWhitespace_def advance_while.simps [of isspace ?s] lex_view)
  have "tokenize_loop [] ?s = tokenize_loop [t\<lparr>tok_line := line s', tok_column := column s'\<rparr>] s'"
    using start(2) scan(1) skip
    by (simp add: tokenize_loop.simps [of "[]" ?s] Let_def starts_comment_def IsAtEnd_rest Peek_rest)
  with scan(2) show ?thesis
    by (simp add: lex_def Tokenize_def Token_eq_def IsAtEnd_rest
        tokenize_loop.simps [of "[t\<lparr>tok_line := line s', tok_column := column s'\<rparr>]" s'])
qed

lemma lex_literal:
  assumes q: "q = CHR 0x22 \<or> q = CHR 0x27"
  shows "\<exists>t. lex f (q # escape_literal v @ [q]) = Inr [t] \<and>
    tok_type t = (if q = CHR 0x22 then STRING_DOUBLE else STRING_SINGLE) \<and> tok_value t = v"
proof -
  let ?s = "Lexer f (q # escape_literal v @ [q])"
  obtain t s' where lit: "literal_loop q False [] (Advance ?s) = Inr (t, s')" "rest s' = []"
    "tok_type t = (if q = CHR 0x22 then STRING_DOUBLE else STRING_SINGLE)" "tok_value t = v"
    using literal_loop_escape [OF q, of "Advance ?s" v "[]" "[]"] by (auto simp: rest_Advance)
  have peek: "Peek ?s = q" "MatchSimpleToken q = None"
    using quote_classes [OF q] by (simp_all add: Peek_rest)
  have "ScanToken ?s = Inr (Some t, s')"
    unfolding ScanToken_def ScanLiterals_def Let_def peek using q lit(1) by simp
  with quote_classes [OF q] lit show ?thesis
    using lex_single_token [of q f "escape_literal v @ [q]" t s'] by (auto simp: Token_eq_def)
qed

lemma lex_special:
  assumes p: "p = CHR ''$'' \<or> p = CHR 0x40"
  shows "\<exists>t. lex f (p # CHR 0x27 # double_quotes v @ [CHR 0x27]) = Inr [t] \<and>
    tok_type t = (if p = CHR ''$'' then VAR_STRING else REF_STRING) \<and> tok_value t = v"
proof -
  let ?s = "Lexer f (p # CHR 0x27 # double_quotes v @ [CHR 0x27])"
  have peek: "Peek ?s = p" "Peek (Advance ?s) = CHR 0x27" "\<not> IsAtEnd (Advance ?s)"
    by (simp_all add: lex_view)
  have cls: "MatchSimpleToken p = None \<and> p \<noteq> CHR 0x22 \<and> p \<noteq> CHR 0x27 \<and> \<not> IsSymbol p \<and>
      \<not> isdigit p \<and> \<not> isspace p \<and> p \<noteq> CHR ''/''"
    using p MatchSimpleToken_code [of p] unfolding code_classes IsSymbol_code code_consts by auto
  obtain s' where sp: "special_loop (CHR 0x27) [] (Advance (Advance ?s)) = (v, True, s')"
    "rest s' = []"
    using special_loop_double [of "Advance (Advance ?s)" v "[]" "[]"] by (auto simp: rest_Advance)
  let ?t = "mk_token s' (if p = CHR ''$'' then VAR_STRING else REF_STRING) v"
  have "ScanToken ?s = Inr (Some ?t, s')"
    unfolding ScanToken_def ScanSpecialString_def Let_def peek using p cls sp(1) peek(3) by auto
  with cls sp show ?thesis
    using lex_single_token [of p f "CHR 0x27 # double_quotes v @ [CHR 0x27]" ?t s']
    by (auto simp: Token_eq_def)
qed

section \<open>Properties\<close>


definition sample_tokens :: "Token list" where
  "sample_tokens = map (\<lambda>(ty, v). mk_token (Lexer ''f'' []) ty v)
     [(LOCAL, ''local''), (IDENTIFIER, ''a1''), (OPERATOR, ''=''), (FLOAT, ''1.5''),
      (OPERATOR, ''<=''), (STRING_SINGLE, ''s t''), (SEMICOLON, '';'')]"


text \<open>
  The positions of the tokens are those of the source text: each token ends at an offset
  inside the source, its line and column are the line and column of that offset counted from
  1, and the offsets of successive tokens strictly increase.
\<close>

theorem lex_positions:
  assumes "lex f src = Inr ts"
  shows "\<exists>ks. list_all2 (located src) ks ts \<and> sorted_wrt (<) (0 # ks)"
  using assms tokenize_loop_located [of "[]" "Lexer f src" ts] pos_ok_Lexer [of f src]
  by (auto simp: lex_def Tokenize_def bindE_Inr_iff)

theorem lex_positions_witness:
  "\<exists>ts. lex ''f'' ''a /* b */ 12'' = Inr ts \<and> length ts = 2 \<and>
     (\<exists>ks. list_all2 (located ''a /* b */ 12'') ks ts \<and> sorted_wrt (<) (0 # ks))"
proof -
  let ?src = "''a /* b */ 12''"
  have "case lex ''f'' ?src of Inr ts \<Rightarrow> length ts = 2 | Inl _ \<Rightarrow> False" by code_simp
  then obtain ts where ts: "lex ''f'' ?src = Inr ts" "length ts = 2"
    by (cases "lex ''f'' ?src") auto
  with lex_positions [OF ts(1)] show ?thesis by blast
qed

text \<open>
  Every token has the shape of its type: identifiers are identifiers and not keywords,
  keywords and punctuation are the entries of the tables, numbers are digits with at most one
  dot between digits, operators are one symbol or one of the six two-character operators. No
  token ever has one of the types that the enumeration names and no branch creates.
\<close>

theorem lex_shapes:
  assumes "lex f src = Inr ts" and "t \<in> set ts"
  shows "token_shape (tok_type t) (tok_value t)"
  using assms tokenize_loop_shape [of "[]" "Lexer f src" ts]
  by (auto simp: lex_def Tokenize_def bindE_Inr_iff)

theorem lex_shapes_witness:
  "\<exists>ts t. lex ''f'' ''if x'' = Inr ts \<and> t \<in> set ts \<and> token_shape (tok_type t) (tok_value t)"
proof -
  have "case lex ''f'' ''if x'' of Inr ts \<Rightarrow> length ts = 2 | Inl _ \<Rightarrow> False" by code_simp
  then obtain t ts where ts: "lex ''f'' ''if x'' = Inr (t # ts)"
    by (cases "lex ''f'' ''if x''"; cases "projr (lex ''f'' ''if x'')") auto
  with lex_shapes [OF ts, of t] show ?thesis by auto
qed

text \<open>
  C17: Every string can be written in the language: the literal with escapes, in double and in
  single quotes, and the special strings with doubled single quotes, are one token each
  whose value is the string.
\<close>

theorem lex_string_literals:
  "(\<exists>t. lex f (CHR 0x22 # escape_literal v @ [CHR 0x22]) = Inr [t] \<and>
      tok_type t = STRING_DOUBLE \<and> tok_value t = v) \<and>
   (\<exists>t. lex f (CHR 0x27 # escape_literal v @ [CHR 0x27]) = Inr [t] \<and>
      tok_type t = STRING_SINGLE \<and> tok_value t = v) \<and>
   (\<exists>t. lex f (CHR ''$'' # CHR 0x27 # double_quotes v @ [CHR 0x27]) = Inr [t] \<and>
      tok_type t = VAR_STRING \<and> tok_value t = v) \<and>
   (\<exists>t. lex f (CHR 0x40 # CHR 0x27 # double_quotes v @ [CHR 0x27]) = Inr [t] \<and>
      tok_type t = REF_STRING \<and> tok_value t = v)"
  using lex_literal [of "CHR 0x22" f v] lex_literal [of "CHR 0x27" f v]
    lex_special [of "CHR ''$''" f v] lex_special [of "CHR 0x40" f v] by simp

end
