(* ===== verification/Jst_Ref.thy ===== *)
theory Jst_Ref
  imports Jst_Prelude
begin

text \<open>
  Reference strings: \<^verbatim>\<open>src/buildtool/jstlang/ref.{hpp,cpp}\<close>, which decode and encode
  the references between targets, and \<^verbatim>\<open>file_data.hpp\<close>, which names the files that are
  parsed. The JSON library that quotes segments is a parameter, the record \<open>json_lib\<close>; of
  the standard library, \<^verbatim>\<open>std::string::find\<close> and the lexical normal form of a POSIX path
  are written out.
\<close>

section \<open>Data\<close>

datatype RefType = RefExt | RefAbs | RefRel | RefLocal

datatype RefSegment = SegRepo | SegModule | SegTarget

datatype RefContext = CtxTarget | CtxFile | CtxCLI

record RefData =
  ref_type :: RefType
  ref_repo :: "string option"
  ref_module :: string
  ref_target :: "string option"

text \<open>
  What the code uses of \<^verbatim>\<open>nlohmann::json\<close>: printing a string as JSON, which throws with a
  message, and \<^verbatim>\<open>UnescapeJsonString\<close>, which parses the inside of a JSON string.
\<close>

record json_lib =
  json_dump :: "string \<Rightarrow> string + string"
  json_unescape :: "string \<Rightarrow> string option"

datatype ref_error = RefDecodeError string string | RefEncodeError string string

fun ref_error_what :: "ref_error \<Rightarrow> string" where
  "ref_error_what (RefDecodeError ref_str err) =
     ''Decoding reference '' @ [CHR 0x27] @ ref_str @ [CHR 0x27] @ '' failed with:'' @
     [CHR 0x0A] @ ''  '' @ err"
| "ref_error_what (RefEncodeError segment err) =
     ''Encoding reference segment '' @ [CHR 0x27] @ segment @ [CHR 0x27] @ '' failed with:'' @
     [CHR 0x0A] @ ''  '' @ err"

definition kSepToken :: string where "kSepToken = '':''"
definition kAbsToken :: string where "kAbsToken = ''//''"
definition kRelToken :: string where "kRelToken = ''./''"

section \<open>Strings\<close>

definition StartsWith :: "nat \<Rightarrow> string \<Rightarrow> string \<Rightarrow> bool" where
  "StartsWith pos str cmp \<longleftrightarrow>
     \<not> pos + length cmp > length str \<and> take (length cmp) (drop pos str) = cmp"

text \<open>\<^verbatim>\<open>std::string::find\<close>: the first occurrence of \<open>cmp\<close> at or after an offset.\<close>

fun find_sub :: "string \<Rightarrow> string \<Rightarrow> nat \<Rightarrow> nat option" where
  "find_sub cmp [] i = (if cmp = [] then Some i else None)"
| "find_sub cmp (c # cs) i =
     (if take (length cmp) (c # cs) = cmp then Some i else find_sub cmp cs (i + 1))"

definition FindNext :: "nat \<Rightarrow> string \<Rightarrow> string \<Rightarrow> nat option" where
  "FindNext pos str cmp =
     (if pos \<le> length str then find_sub cmp (drop pos str) pos else None)"

text \<open>The character at an offset; the terminating null character at the end of the string.\<close>

definition char_at :: "string \<Rightarrow> nat \<Rightarrow> char" where
  "char_at str i = (if i < length str then str ! i else CHR 0x00)"

section \<open>Decoding\<close>

definition ParseSegment ::
  "json_lib \<Rightarrow> nat \<Rightarrow> string \<Rightarrow> string option \<Rightarrow> ref_error + (string \<times> nat)" where
  "ParseSegment J pos str end_tok =
     (if char_at str pos = CHR 0x22
      then
        let pos = pos + 1
        in case find (\<lambda>i. str ! i = CHR 0x22 \<and> (i = pos \<or> str ! (i - 1) \<noteq> CHR 0x5C))
                  [pos ..< length str] of
             Some i \<Rightarrow>
               (case json_unescape J (take (i - pos) (drop pos str)) of
                  Some name \<Rightarrow> Inr (name, i + 1)
                | None \<Rightarrow> Inl (RefDecodeError str ''Invalid JSON string.''))
           | None \<Rightarrow> Inl (RefDecodeError str ''Unterminated quote.'')
      else
        case (case end_tok of Some e \<Rightarrow> FindNext pos str e | None \<Rightarrow> None) of
          Some next \<Rightarrow> Inr (take (next - pos) (drop pos str), next)
        | None \<Rightarrow> Inr (drop pos str, length str))"

text \<open>
  \<^verbatim>\<open>std::filesystem::path\<close> on POSIX: a root directory, then the names between separators.
  The lexical normal form drops empty and dot names, and cancels a name against the
  dot-dot that follows it; a dot-dot right after the root is dropped.
\<close>

fun split_slash :: "string \<Rightarrow> string list" where
  "split_slash [] = [[]]"
| "split_slash (c # cs) =
     (if c = CHR ''/'' then [] # split_slash cs
      else case split_slash cs of
             x # xs \<Rightarrow> (c # x) # xs
           | [] \<Rightarrow> [[c]])"

definition is_absolute :: "string \<Rightarrow> bool" where
  "is_absolute p \<longleftrightarrow> (case p of c # _ \<Rightarrow> c = CHR ''/'' | [] \<Rightarrow> False)"

fun norm_elems :: "bool \<Rightarrow> string list \<Rightarrow> string list \<Rightarrow> string list" where
  "norm_elems absolute acc [] = rev acc"
| "norm_elems absolute acc (x # xs) =
     (if x = [] \<or> x = ''.'' then norm_elems absolute acc xs
      else if x = ''..''
        then (case acc of
                y # ys \<Rightarrow> if y = ''..'' then norm_elems absolute (x # acc) xs
                          else norm_elems absolute ys xs
              | [] \<Rightarrow> if absolute then norm_elems absolute [] xs
                      else norm_elems absolute [x] xs)
      else norm_elems absolute (x # acc) xs)"

fun join_slash :: "string list \<Rightarrow> string" where
  "join_slash [] = []"
| "join_slash [x] = x"
| "join_slash (x # y # ys) = x @ CHR ''/'' # join_slash (y # ys)"

text \<open>
  The normal form with its trailing separator removed (\<^verbatim>\<open>parent_path\<close> of a path without
  file name), and a dot for the empty path.
\<close>

definition NormPath :: "string \<Rightarrow> string" where
  "NormPath path =
     (let es = norm_elems (is_absolute path) [] (split_slash path)
      in if is_absolute path then CHR ''/'' # join_slash es
         else if es = [] then ''.'' else join_slash es)"

definition NormModule :: "string \<Rightarrow> string" where
  "NormModule module = (let norm = NormPath module in if norm = ''.'' then '''' else norm)"

text \<open>\<^verbatim>\<open>path::filename()\<close>: what follows the last separator.\<close>

definition path_filename :: "string \<Rightarrow> string" where
  "path_filename p = last (split_slash p)"

definition ParseTarget ::
  "json_lib \<Rightarrow> nat \<Rightarrow> string \<Rightarrow> bool \<Rightarrow> ref_error + string option" where
  "ParseTarget J pos str allow_missing =
     (if pos < length str then bindE (ParseSegment J pos str None) (\<lambda>(name, _). Inr (Some name))
      else if allow_missing then Inr None
      else Inl (RefDecodeError str
        (''Missing target name after '' @ [CHR 0x27] @ '':'' @ [CHR 0x27] @ ''.'')))"

definition ParseAbs ::
  "json_lib \<Rightarrow> nat \<Rightarrow> string \<Rightarrow> bool \<Rightarrow> ref_error + (string \<times> string option)" where
  "ParseAbs J pos str allow_missing_target =
     bindE (ParseSegment J pos str (Some kSepToken)) (\<lambda>(segment_name, next_pos).
       let module = NormModule segment_name;
           pos = next_pos
       in if StartsWith pos str kSepToken
          then bindE (ParseTarget J (pos + length kSepToken) str allow_missing_target)
                 (\<lambda>target. Inr (module, target))
          else if segment_name = []
            then Inl (RefDecodeError str
              (if allow_missing_target
               then ''Empty module without target is not allowed; use '' @ [CHR 0x27] @
                 ''//:'' @ [CHR 0x27] @ '' for the default target of the top-level module.''
               else ''Empty module without target is not allowed.''))
          else if pos < length str
            then Inl (RefDecodeError str
              (''Missing '' @ [CHR 0x27] @ '':'' @ [CHR 0x27] @ '' after module name.''))
          else Inr (module, Some (path_filename module)))"

definition ParseExt ::
  "json_lib \<Rightarrow> nat \<Rightarrow> string \<Rightarrow> RefContext \<Rightarrow>
     ref_error + (string \<times> string \<times> string option)" where
  "ParseExt J pos str ctx =
     bindE (ParseSegment J pos str (Some kAbsToken)) (\<lambda>(repo, next_pos).
       if next_pos < length str
       then
         let pos = next_pos + length kAbsToken
         in if pos < length str
            then if ctx = CtxFile then Inr (repo, drop pos str, Some [])
                 else bindE (ParseAbs J pos str (ctx = CtxCLI))
                        (\<lambda>(module, target). Inr (repo, module, target))
            else if ctx = CtxCLI
              then Inl (RefDecodeError str
                (''Missing module name after '' @ [CHR 0x27] @ ''//'' @ [CHR 0x27] @
                 ''; use '' @ [CHR 0x27] @ ''<repo>//:'' @ [CHR 0x27] @
                 '' for the default target of the top-level module.''))
            else Inl (RefDecodeError str
              (''Missing module name after '' @ [CHR 0x27] @ ''//'' @ [CHR 0x27] @ ''.''))
       else Inl (RefDecodeError str
         (''Missing '' @ [CHR 0x27] @ ''//'' @ [CHR 0x27] @ '' after repository name.'')))"

definition DecodeRefString :: "json_lib \<Rightarrow> string \<Rightarrow> RefContext \<Rightarrow> ref_error + RefData" where
  "DecodeRefString J ref_str ctx =
     (let allow_missing_target = (ctx = CtxCLI)
      in if StartsWith 0 ref_str kSepToken
         then bindE (ParseTarget J (length kSepToken) ref_str allow_missing_target)
                (\<lambda>target. Inr \<lparr>ref_type = RefLocal, ref_repo = None, ref_module = [],
                               ref_target = target\<rparr>)
         else if StartsWith 0 ref_str kAbsToken
         then bindE (ParseAbs J (length kAbsToken) ref_str allow_missing_target)
                (\<lambda>(module, target). Inr \<lparr>ref_type = RefAbs, ref_repo = None,
                   ref_module = module, ref_target = target\<rparr>)
         else if StartsWith 0 ref_str kRelToken
         then bindE (ParseAbs J (length kRelToken) ref_str allow_missing_target)
                (\<lambda>(module, target). Inr \<lparr>ref_type = RefRel, ref_repo = None,
                   ref_module = module, ref_target = target\<rparr>)
         else bindE (ParseExt J 0 ref_str ctx)
                (\<lambda>(repo, module, target). Inr \<lparr>ref_type = RefExt, ref_repo = Some repo,
                   ref_module = module, ref_target = target\<rparr>))"

section \<open>Encoding\<close>

definition needs_quoting :: "string \<Rightarrow> RefSegment \<Rightarrow> bool \<Rightarrow> bool" where
  "needs_quoting segment seg_type allow_empty \<longleftrightarrow>
     segment = [] \<and> \<not> allow_empty \<or>
     (case seg_type of
        SegRepo \<Rightarrow> StartsWith 0 segment kSepToken \<or> StartsWith 0 segment kRelToken \<or>
          FindNext 0 segment kAbsToken \<noteq> None
      | SegModule \<Rightarrow> FindNext 0 segment kSepToken \<noteq> None
      | SegTarget \<Rightarrow> False)"

definition QuoteRefSegment ::
  "json_lib \<Rightarrow> string \<Rightarrow> RefSegment \<Rightarrow> bool \<Rightarrow> ref_error + string" where
  "QuoteRefSegment J segment seg_type allow_empty =
     (case json_dump J segment of
        Inl what \<Rightarrow> Inl (RefEncodeError segment (''Encoding JSON failed with: '' @ what))
      | Inr json_str \<Rightarrow>
          if needs_quoting segment seg_type allow_empty \<or>
             json_str \<noteq> [CHR 0x22] @ segment @ [CHR 0x22]
          then Inr json_str else Inr segment)"

text \<open>The fall-through cases of the source, one after the other.\<close>

definition EncodeRefData :: "json_lib \<Rightarrow> RefData \<Rightarrow> ref_error + string" where
  "EncodeRefData J data =
     bindE (if ref_type data = RefExt
            then QuoteRefSegment J (case ref_repo data of Some r \<Rightarrow> r | None \<Rightarrow> []) SegRepo False
            else Inr []) (\<lambda>repo.
     bindE (if ref_type data \<in> {RefExt, RefAbs, RefRel}
            then bindE (QuoteRefSegment J (ref_module data) SegModule True)
                   (\<lambda>m. Inr ((if ref_type data = RefRel then kRelToken else kAbsToken) @ m))
            else Inr []) (\<lambda>module.
     bindE (case ref_target data of
              Some t \<Rightarrow> QuoteRefSegment J t SegTarget False
            | None \<Rightarrow> Inr []) (\<lambda>target.
     Inr (repo @ module @ kSepToken @ target))))"

section \<open>File locations\<close>

text \<open>
  Equality of locations compares repositories and paths; \<^verbatim>\<open>path::operator==\<close> compares the
  root directory and the names, so repeated separators do not matter and a trailing one,
  which is an empty last name, does.
\<close>

record FileLocation =
  fl_repo :: string
  fl_path :: string
  fl_content :: "string option"

record FileData =
  fd_location :: FileLocation
  fd_content :: string

definition path_names :: "string \<Rightarrow> string list" where
  "path_names p =
     (let xs = split_slash p
      in filter (\<lambda>x. x \<noteq> []) xs @
           (if last xs = [] \<and> filter (\<lambda>x. x \<noteq> []) xs \<noteq> [] then [[]] else []))"

definition path_eq :: "string \<Rightarrow> string \<Rightarrow> bool" where
  "path_eq p q \<longleftrightarrow> is_absolute p = is_absolute q \<and> path_names p = path_names q"

definition FileLocation_eq :: "FileLocation \<Rightarrow> FileLocation \<Rightarrow> bool" where
  "FileLocation_eq a b \<longleftrightarrow> fl_repo a = fl_repo b \<and> path_eq (fl_path a) (fl_path b)"

text \<open>
  \<open>None\<close> is the call of \<^verbatim>\<open>std::terminate\<close> by an exception of \<^verbatim>\<open>QuoteRefSegment\<close> in this
  \<^verbatim>\<open>noexcept\<close> function.
\<close>

definition FileLocation_ToString :: "json_lib \<Rightarrow> FileLocation \<Rightarrow> string option" where
  "FileLocation_ToString J loc =
     (if fl_repo loc = [] then Some (fl_path loc)
      else case QuoteRefSegment J (fl_repo loc) SegRepo False of
             Inl _ \<Rightarrow> None
           | Inr q \<Rightarrow> Some (''['' @ q @ ''] '' @ fl_path loc))"

end
