(* ===== verification/Jst_Ref_Props.thy ===== *)
theory Jst_Ref_Props
  imports Jst_Ref
begin

text \<open>
  Correctness of reference strings: the normal form of module paths, and decoding as the
  inverse of encoding.
\<close>

section \<open>The normal form of a path\<close>

lemma split_slash_nonempty [simp]: "split_slash p \<noteq> []"
  by (cases p) (auto split: list.split)

lemma split_slash_no_slash: "x \<in> set (split_slash p) \<Longrightarrow> CHR ''/'' \<notin> set x"
  by (induction p arbitrary: x) (auto split: if_splits list.splits)

lemma split_slash_plain: "CHR ''/'' \<notin> set x \<Longrightarrow> split_slash x = [x]"
  by (induction x) auto

lemma split_slash_append:
  "CHR ''/'' \<notin> set x \<Longrightarrow> split_slash (x @ CHR ''/'' # p) = x # split_slash p"
  by (induction x) auto

lemma split_slash_join:
  "es \<noteq> [] \<Longrightarrow> \<forall>x \<in> set es. CHR ''/'' \<notin> set x \<Longrightarrow> split_slash (join_slash es) = es"
  by (induction es rule: join_slash.induct) (auto simp: split_slash_plain split_slash_append)

definition plain_elem :: "string \<Rightarrow> bool" where
  "plain_elem x \<longleftrightarrow> x \<noteq> [] \<and> x \<noteq> ''.'' \<and> x \<noteq> ''..'' \<and> CHR ''/'' \<notin> set x"

text \<open>A normal list of names: dot-dots, none of them under a root, then plain names.\<close>

definition normal_elems :: "bool \<Rightarrow> string list \<Rightarrow> bool" where
  "normal_elems absolute es \<longleftrightarrow>
     (\<exists>k ys. es = replicate k ''..'' @ ys \<and> list_all plain_elem ys \<and> (absolute \<longrightarrow> k = 0))"

lemma normal_elemsI:
  "es = replicate k ''..'' @ ys \<Longrightarrow> list_all plain_elem ys \<Longrightarrow> a \<longrightarrow> k = 0 \<Longrightarrow> normal_elems a es"
  by (auto simp: normal_elems_def)

lemma normal_elems_Nil [simp]: "normal_elems a []"
  by (auto simp: normal_elems_def)

lemma normal_elems_snoc:
  assumes "normal_elems a es" and "plain_elem x"
  shows "normal_elems a (es @ [x])"
proof -
  from assms(1) obtain k ys where "es = replicate k ''..'' @ ys" "list_all plain_elem ys"
      "a \<longrightarrow> k = 0"
    by (auto simp: normal_elems_def)
  with assms(2) show ?thesis by (intro normal_elemsI [of _ k "ys @ [x]"]) simp_all
qed

lemma normal_elems_snoc_dotdot:
  "normal_elems a es \<Longrightarrow> es \<noteq> [] \<Longrightarrow> last es = ''..'' \<Longrightarrow> normal_elems a (es @ [''..''])"
proof -
  assume "normal_elems a es" "es \<noteq> []" "last es = ''..''"
  then obtain k ys where es: "es = replicate k ''..'' @ ys" "list_all plain_elem ys" "a \<longrightarrow> k = 0"
    by (auto simp: normal_elems_def)
  with \<open>es \<noteq> []\<close> \<open>last es = ''..''\<close> have "ys = []"
    by (cases ys rule: rev_cases) (auto simp: plain_elem_def)
  with es \<open>es \<noteq> []\<close> show ?thesis
    unfolding normal_elems_def
    by (intro exI [of _ "Suc k"] exI [of _ "[]"]) (auto simp: replicate_append_same)
qed

lemma normal_elems_butlast: "normal_elems a (es @ [x]) \<Longrightarrow> normal_elems a es"
proof -
  assume "normal_elems a (es @ [x])"
  then obtain k ys where es: "es @ [x] = replicate k ''..'' @ ys" "list_all plain_elem ys"
      "a \<longrightarrow> k = 0"
    by (auto simp: normal_elems_def)
  show ?thesis
  proof (cases ys rule: rev_cases)
    case Nil
    with es(1) obtain j where j: "k = Suc j" by (cases k) auto
    with es(1) Nil have "es @ [x] = replicate j ''..'' @ [''..'']"
      by (simp add: replicate_append_same)
    with es(3) j show ?thesis by (intro normal_elemsI [of _ j "[]"]) auto
  next
    case (snoc zs z)
    with es have "es = replicate k ''..'' @ zs" by (metis append_assoc append1_eq_conv)
    with es snoc show ?thesis by (intro normal_elemsI [of _ k zs]) auto
  qed
qed

lemma norm_elems_normal:
  "normal_elems a (rev acc) \<Longrightarrow> \<forall>x \<in> set xs. CHR ''/'' \<notin> set x \<Longrightarrow>
     normal_elems a (norm_elems a acc xs)"
proof (induction a acc xs rule: norm_elems.induct)
  case (2 a acc x xs)
  consider "x = [] \<or> x = ''.''" | "x = ''..''" | "plain_elem x"
    using "2.prems"(2) by (auto simp: plain_elem_def)
  then show ?case
  proof cases
    case 2
    show ?thesis
    proof (cases acc)
      case Nil
      moreover have "\<not> a \<Longrightarrow> normal_elems a [''..'']"
        unfolding normal_elems_def by (intro exI [of _ 1] exI [of _ "[]"]) simp
      ultimately show ?thesis using 2 "2.IH" "2.prems" by (cases a) auto
    next
      case (Cons y ys)
      with 2 "2.IH" "2.prems" normal_elems_snoc_dotdot [of a "rev ys @ [y]"]
        normal_elems_butlast [of a "rev ys" y]
      show ?thesis by auto
    qed
  qed (use "2.IH" "2.prems" normal_elems_snoc in \<open>auto simp: plain_elem_def\<close>)
qed simp

lemma norm_elems_plain:
  "list_all plain_elem ys \<Longrightarrow> norm_elems a acc ys = rev acc @ ys"
proof (induction ys arbitrary: acc)
  case (Cons y ys)
  then have "norm_elems a acc (y # ys) = norm_elems a (y # acc) ys"
    by (simp add: plain_elem_def)
  with Cons show ?case by simp
qed simp

lemma norm_elems_dotdots:
  "norm_elems False (replicate j ''..'') (replicate k ''..'' @ ys) =
     norm_elems False (replicate (j + k) ''..'') ys"
proof (induction k arbitrary: j)
  case (Suc k)
  have "norm_elems False (replicate j ''..'') (replicate (Suc k) ''..'' @ ys) =
      norm_elems False (replicate (Suc j) ''..'') (replicate k ''..'' @ ys)"
    by (cases j) simp_all
  with Suc [of "Suc j"] show ?case by simp
qed simp

lemma norm_elems_id:
  assumes "normal_elems a es"
  shows "norm_elems a [] es = es"
proof -
  from assms obtain k ys where es: "es = replicate k ''..'' @ ys" "list_all plain_elem ys"
      "a \<longrightarrow> k = 0"
    by (auto simp: normal_elems_def)
  show ?thesis
  proof (cases a)
    case True
    with es show ?thesis by (simp add: norm_elems_plain)
  next
    case False
    with es norm_elems_dotdots [of 0 k ys] show ?thesis by (simp add: norm_elems_plain)
  qed
qed

lemma normal_elems_no_slash:
  assumes "normal_elems a es" and "x \<in> set es"
  shows "CHR ''/'' \<notin> set x \<and> x \<noteq> []"
proof -
  from assms have "x = ''..'' \<or> plain_elem x"
    by (auto simp: normal_elems_def list_all_iff)
  then show ?thesis
  proof
    assume "x = ''..''"
    then show ?thesis by simp
  next
    assume "plain_elem x"
    then show ?thesis by (simp add: plain_elem_def)
  qed
qed

lemma is_absolute_join:
  assumes "normal_elems a es"
  shows "\<not> is_absolute (join_slash es)"
proof (cases es)
  case (Cons x xs)
  with normal_elems_no_slash [OF assms, of x] obtain c cs where "x = c # cs" "c \<noteq> CHR ''/''"
    by (cases x) auto
  with Cons show ?thesis by (cases xs) (simp_all add: is_absolute_def)
qed (simp add: is_absolute_def)

lemma NormPath_idem: "NormPath (NormPath p) = NormPath p"
proof -
  let ?a = "is_absolute p" and ?es = "norm_elems (is_absolute p) [] (split_slash p)"
  have n: "normal_elems ?a ?es"
    by (rule norm_elems_normal) (auto dest: split_slash_no_slash)
  then have split: "?es \<noteq> [] \<Longrightarrow> split_slash (join_slash ?es) = ?es"
    by (intro split_slash_join) (auto dest: normal_elems_no_slash)
  show ?thesis
  proof (cases ?a)
    case True
    then have "NormPath p = CHR ''/'' # join_slash ?es" by (simp add: NormPath_def)
    moreover have "norm_elems True [] (split_slash (CHR ''/'' # join_slash ?es)) = ?es"
      using split norm_elems_id [OF n] True by (cases "?es = []") auto
    ultimately show ?thesis by (simp add: NormPath_def Let_def is_absolute_def)
  next
    case False
    show ?thesis
    proof (cases "?es = []")
      case True
      with False have "NormPath p = ''.''" by (simp add: NormPath_def)
      then show ?thesis by (simp add: NormPath_def is_absolute_def)
    next
      case ne: False
      with False have "NormPath p = join_slash ?es" by (simp add: NormPath_def)
      with ne False split norm_elems_id [OF n] is_absolute_join [OF n] show ?thesis
        by (simp add: NormPath_def)
    qed
  qed
qed

lemma NormModule_idem: "NormModule (NormModule m) = NormModule m"
proof -
  have "NormPath [] = ''.''" by (simp add: NormPath_def is_absolute_def)
  then show ?thesis by (simp add: NormModule_def Let_def NormPath_idem)
qed

section \<open>Reading back an encoded segment\<close>

lemma StartsWith_iff [simp]:
  "k \<noteq> [] \<Longrightarrow> StartsWith pos str k \<longleftrightarrow> take (length k) (drop pos str) = k"
  by (auto simp: StartsWith_def dest: arg_cong [of _ _ length])

lemma find_sub_None:
  "find_sub cmp xs i = None \<Longrightarrow> take (length cmp) (drop j xs) \<noteq> cmp"
proof (induction cmp xs i arbitrary: j rule: find_sub.induct)
  case (1 cmp i)
  then show ?case by (auto split: if_splits)
next
  case (2 cmp c cs i)
  then show ?case by (cases j) (auto split: if_splits)
qed

lemma find_sub_first:
  assumes "\<And>j. j < length xs \<Longrightarrow> take (length cmp) (drop j (xs @ cmp @ r)) \<noteq> cmp"
    and "cmp \<noteq> []"
  shows "find_sub cmp (xs @ cmp @ r) i = Some (i + length xs)"
  using assms
proof (induction xs arbitrary: i)
  case Nil
  obtain c cs where "cmp @ r = c # cs" using Nil.prems(2) by (cases "cmp @ r") auto
  moreover from this have "take (length cmp) (c # cs) = cmp" by (metis append_eq_conv_conj)
  ultimately show ?case by simp
next
  case (Cons x xs)
  have "take (length cmp) (drop j (xs @ cmp @ r)) \<noteq> cmp" if "j < length xs" for j
    using Cons.prems(1) [of "Suc j"] that by simp
  then have "find_sub cmp (xs @ cmp @ r) (i + 1) = Some (i + 1 + length xs)"
    using Cons.IH Cons.prems(2) by blast
  moreover have "take (length cmp) (x # xs @ cmp @ r) \<noteq> cmp" using Cons.prems(1) [of 0] by simp
  ultimately show ?case by simp
qed

text \<open>
  What the encoding relies on of the JSON library, for one string: it is printed between
  quotes, a quote inside is preceded by a backslash, the text before the closing quote does
  not end in a backslash, and parsing that text gives the string.
\<close>

definition json_body :: "json_lib \<Rightarrow> string \<Rightarrow> string \<Rightarrow> bool" where
  "json_body J s b \<longleftrightarrow>
     json_dump J s = Inr (CHR 0x22 # b @ [CHR 0x22]) \<and> json_unescape J b = Some s \<and>
     (b = [] \<or> last b \<noteq> CHR 0x5C) \<and>
     list_all (\<lambda>i. b ! i = CHR 0x22 \<longrightarrow> 0 < i \<and> b ! (i - 1) = CHR 0x5C) [0 ..< length b]"

lemma json_body_law:
  "json_body J s b \<Longrightarrow> i < length b \<Longrightarrow> b ! i = CHR 0x22 \<Longrightarrow> 0 < i \<and> b ! (i - 1) = CHR 0x5C"
  by (simp add: json_body_def list_all_iff)

text \<open>A segment as it is written: quoted, or itself and then without a leading quote.\<close>

definition writes_segment :: "json_lib \<Rightarrow> string \<Rightarrow> string \<Rightarrow> bool" where
  "writes_segment J s q \<longleftrightarrow>
     (\<exists>b. json_body J s b \<and> q = CHR 0x22 # b @ [CHR 0x22]) \<or>
     q = s \<and> (s = [] \<or> hd s \<noteq> CHR 0x22)"

lemma QuoteRefSegment_cases:
  assumes "json_body J s b"
  obtains (quoted) "QuoteRefSegment J s ty ae = Inr (CHR 0x22 # b @ [CHR 0x22])"
    | (plain) "QuoteRefSegment J s ty ae = Inr s" "s = [] \<or> hd s \<noteq> CHR 0x22"
      "\<not> needs_quoting s ty ae"
proof (cases "needs_quoting s ty ae \<or> b \<noteq> s")
  case True
  with assms show ?thesis by (intro quoted) (auto simp: QuoteRefSegment_def json_body_def)
next
  case False
  with assms have "QuoteRefSegment J s ty ae = Inr s"
    by (auto simp: QuoteRefSegment_def json_body_def)
  moreover have "s = [] \<or> hd s \<noteq> CHR 0x22"
    using json_body_law [OF assms, of 0] False by (cases s) auto
  ultimately show ?thesis using False plain by blast
qed

lemma drop_more: "drop pos str = xs @ r \<Longrightarrow> drop (pos + length xs) str = r"
  by (metis add.commute append_eq_conv_conj drop_drop)

lemma drop_nth: "drop pos str = xs \<Longrightarrow> i < length xs \<Longrightarrow> str ! (pos + i) = xs ! i"
  by auto

lemma ParseSegment_quoted:
  assumes "json_body J s b" and str: "drop pos str = (CHR 0x22 # b @ [CHR 0x22]) @ r"
  shows "ParseSegment J pos str e = Inr (s, pos + length (CHR 0x22 # b @ [CHR 0x22]))"
proof -
  let ?p = "pos + 1" and ?P = "\<lambda>i. str ! i = CHR 0x22 \<and> (i = pos + 1 \<or> str ! (i - 1) \<noteq> CHR 0x5C)"
  have len: "pos + length b + 2 + length r = length str" using arg_cong [OF str, of length] by simp
  have at0: "char_at str pos = CHR 0x22"
    using drop_nth [OF str, of 0] len by (simp add: char_at_def)
  have body: "str ! (?p + i) = b ! i" if "i < length b" for i
    using drop_nth [OF str, of "Suc i"] that by (simp add: nth_append)
  have close: "str ! (?p + length b) = CHR 0x22"
    using drop_nth [OF str, of "Suc (length b)"] by (simp add: nth_append)
  have 0: "length b < length [?p ..< length str]" using len by simp
  have 1: "?P ([?p ..< length str] ! length b)"
  proof (cases "b = []")
    case True
    then show ?thesis using close len by simp
  next
    case False
    then have "str ! (pos + length b) = last b"
      using body [of "length b - 1"] by (cases "length b") (simp_all add: last_conv_nth)
    with False assms(1) close len show ?thesis by (auto simp: json_body_def)
  qed
  have 2: "?p + length b = [?p ..< length str] ! length b" using len by simp
  have 3: "\<forall>j < length b. \<not> ?P ([?p ..< length str] ! j)"
  proof (intro allI impI)
    fix j assume j: "j < length b"
    note law = json_body_law [OF assms(1) j]
    have at: "[?p ..< length str] ! j = ?p + j" using j len by simp
    show "\<not> ?P ([?p ..< length str] ! j)"
    proof (cases j)
      case 0
      then show ?thesis using law body [of 0] j at by auto
    next
      case (Suc k)
      then have "str ! (?p + j - 1) = b ! (j - 1)" using body [of k] j by simp
      with law body [OF j] at Suc show ?thesis by auto
    qed
  qed
  have "find ?P [?p ..< length str] = Some (?p + length b)"
    unfolding find_Some_iff
    by (rule exI [of _ "length b"]) (rule conjI [OF 0 conjI [OF 1 conjI [OF 2 3]]])
  moreover have "take (length b) (drop ?p str) = b"
    using drop_more [of pos str "[CHR 0x22]" "b @ CHR 0x22 # r"] str by simp
  ultimately show ?thesis
    using at0 assms(1) by (simp add: ParseSegment_def Let_def json_body_def)
qed

lemma char_at_hd: "char_at str pos = (if drop pos str = [] then CHR 0x00 else hd (drop pos str))"
  by (auto simp: char_at_def hd_drop_conv_nth)

lemma ParseSegment_rest:
  assumes "drop pos str = s" and "s = [] \<or> hd s \<noteq> CHR 0x22"
  shows "ParseSegment J pos str None = Inr (s, length str)"
  using assms by (auto simp: ParseSegment_def char_at_hd)

lemma ParseSegment_until:
  assumes str: "drop pos str = s @ e @ r" and "s = [] \<or> hd s \<noteq> CHR 0x22"
    and "e \<noteq> []" and "hd e \<noteq> CHR 0x22"
    and first: "\<And>j. j < length s \<Longrightarrow> take (length e) (drop j (s @ e @ r)) \<noteq> e"
  shows "ParseSegment J pos str (Some e) = Inr (s, pos + length s)"
proof -
  have "pos \<le> length str" using str assms(3) by (cases "pos \<le> length str") auto
  then have "FindNext pos str e = Some (pos + length s)"
    using find_sub_first [OF first assms(3)] str by (simp add: FindNext_def)
  moreover have "char_at str pos \<noteq> CHR 0x22"
    using str assms(2-4) by (cases s; cases e) (auto simp: char_at_hd)
  ultimately show ?thesis using str by (simp add: ParseSegment_def)
qed

section \<open>Decoding an encoded reference\<close>

definition writes_target :: "json_lib \<Rightarrow> string option \<Rightarrow> string \<Rightarrow> bool" where
  "writes_target J target q \<longleftrightarrow>
     (case target of
        None \<Rightarrow> q = []
      | Some t \<Rightarrow> (\<exists>b. json_body J t b) \<and> QuoteRefSegment J t SegTarget False = Inr q)"

lemma ParseTarget_written:
  assumes "writes_target J target q" and str: "drop pos str = q" and "target = None \<longrightarrow> missing"
  shows "ParseTarget J pos str missing = Inr target"
proof (cases target)
  case None
  with assms show ?thesis by (auto simp: writes_target_def ParseTarget_def)
next
  case (Some t)
  with assms(1) obtain b where b: "json_body J t b" "QuoteRefSegment J t SegTarget False = Inr q"
    by (auto simp: writes_target_def)
  have "\<exists>n. ParseSegment J pos str None = Inr (t, n) \<and> q \<noteq> []"
  proof (rule QuoteRefSegment_cases [OF b(1), of SegTarget False])
    assume "QuoteRefSegment J t SegTarget False = Inr (CHR 0x22 # b @ [CHR 0x22])"
    with b str ParseSegment_quoted [OF b(1), of pos str "[]" None] show ?thesis by auto
  next
    assume "QuoteRefSegment J t SegTarget False = Inr t" "t = [] \<or> hd t \<noteq> CHR 0x22"
      "\<not> needs_quoting t SegTarget False"
    with b str ParseSegment_rest [of pos str t J] show ?thesis by (simp add: needs_quoting_def)
  qed
  moreover from this str have "pos < length str" by auto
  ultimately show ?thesis using Some by (auto simp: ParseTarget_def)
qed

lemma ParseAbs_written:
  assumes b: "json_body J m b" and q: "QuoteRefSegment J m SegModule True = Inr q"
    and t: "writes_target J target qt" "target = None \<longrightarrow> missing"
    and str: "drop pos str = q @ kSepToken @ qt"
  shows "ParseAbs J pos str missing = Inr (NormModule m, target)"
proof -
  have seg: "ParseSegment J pos str (Some kSepToken) = Inr (m, pos + length q)"
  proof (rule QuoteRefSegment_cases [OF b, of SegModule True])
    assume "QuoteRefSegment J m SegModule True = Inr (CHR 0x22 # b @ [CHR 0x22])"
    with q have q: "q = CHR 0x22 # b @ [CHR 0x22]" by simp
    show ?thesis
      using ParseSegment_quoted [OF b, of pos str "kSepToken @ qt"] str unfolding q by simp
  next
    assume *: "QuoteRefSegment J m SegModule True = Inr m" "m = [] \<or> hd m \<noteq> CHR 0x22"
      "\<not> needs_quoting m SegModule True"
    with q have q: "q = m" by simp
    have none: "find_sub kSepToken m 0 = None" using *(3) by (simp add: needs_quoting_def FindNext_def)
    have "take (length kSepToken) (drop j (m @ kSepToken @ qt)) \<noteq> kSepToken" if "j < length m" for j
      using find_sub_None [OF none, of j] that by (simp add: kSepToken_def)
    with *(2) str show ?thesis unfolding q
      by (intro ParseSegment_until) (simp_all add: kSepToken_def)
  qed
  have "drop (pos + length q) str = kSepToken @ qt" using str by (rule drop_more)
  moreover from this have "drop (pos + length q + length kSepToken) str = qt" by (rule drop_more)
  ultimately show ?thesis
    using seg ParseTarget_written [OF t(1), of "pos + length q + length kSepToken" str missing] t(2)
    by (simp add: ParseAbs_def kSepToken_def)
qed

text \<open>
  The repository names that the encoding can express: a name that ends in a slash runs into
  the separator, and a lone dot makes it look relative.
\<close>

definition repo_expressible :: "string \<Rightarrow> bool" where
  "repo_expressible r \<longleftrightarrow> r \<noteq> ''.'' \<and> (r = [] \<or> last r \<noteq> CHR ''/'' \<or> FindNext 0 r kAbsToken \<noteq> None)"

lemma repo_segment:
  assumes b: "json_body J r b" and q: "QuoteRefSegment J r SegRepo False = Inr q"
    and r: "repo_expressible r" and str: "str = q @ kAbsToken @ rest"
  shows "ParseSegment J 0 str (Some kAbsToken) = Inr (r, length q) \<and>
    \<not> StartsWith 0 str kSepToken \<and> \<not> StartsWith 0 str kAbsToken \<and> \<not> StartsWith 0 str kRelToken"
proof (rule QuoteRefSegment_cases [OF b, of SegRepo False])
  assume "QuoteRefSegment J r SegRepo False = Inr (CHR 0x22 # b @ [CHR 0x22])"
  with q have q: "q = CHR 0x22 # b @ [CHR 0x22]" by simp
  show ?thesis
    using ParseSegment_quoted [OF b, of 0 str "kAbsToken @ rest"] str unfolding q
    by (simp add: kSepToken_def kAbsToken_def kRelToken_def)
next
  assume *: "QuoteRefSegment J r SegRepo False = Inr r" "r = [] \<or> hd r \<noteq> CHR 0x22"
    "\<not> needs_quoting r SegRepo False"
  with q have q: "q = r" by simp
  have none: "find_sub kAbsToken r 0 = None"
    using *(3) by (simp add: needs_quoting_def FindNext_def)
  have start: "r \<noteq> []" "\<not> StartsWith 0 r kSepToken" "\<not> StartsWith 0 r kRelToken"
      "\<not> StartsWith 0 r kAbsToken"
    using *(3) find_sub_None [OF none, of 0] by (auto simp: needs_quoting_def kAbsToken_def)
  have last: "last r \<noteq> CHR ''/''" "r \<noteq> ''.''"
    using r none start(1) by (auto simp: repo_expressible_def FindNext_def)
  have "take (length kAbsToken) (drop j (r @ kAbsToken @ rest)) \<noteq> kAbsToken" if j: "j < length r" for j
  proof (cases "Suc j < length r")
    case True
    then have "j - length r = 0" "Suc (Suc 0) - (length r - j) = 0" by auto
    with find_sub_None [OF none, of j] show ?thesis by (simp add: kAbsToken_def)
  next
    case False
    with j have "drop j r = [last r]" by (metis Cons_nth_drop_Suc One_nat_def Suc_lessI diff_Suc_1 drop_all last_conv_nth linorder_not_less list.size(3) nat_neq_iff not_less_zero)
    with last(1) show ?thesis using j by (simp add: kAbsToken_def)
  qed
  then have "ParseSegment J 0 str (Some kAbsToken) = Inr (r, 0 + length r)"
    using *(2) str unfolding q by (intro ParseSegment_until) (simp_all add: kAbsToken_def)
  moreover have "\<not> StartsWith 0 str kSepToken \<and> \<not> StartsWith 0 str kAbsToken \<and>
      \<not> StartsWith 0 str kRelToken"
    using start last str unfolding q
    by (cases r; cases "tl r") (auto simp: kSepToken_def kAbsToken_def kRelToken_def)
  ultimately show ?thesis by (simp add: q)
qed

lemma ParseExt_written:
  assumes r: "json_body J r br" "QuoteRefSegment J r SegRepo False = Inr qr" "repo_expressible r"
    and m: "json_body J m bm" "QuoteRefSegment J m SegModule True = Inr qm"
    and t: "writes_target J target qt" "target = None \<longrightarrow> ctx = CtxCLI" and ctx: "ctx \<noteq> CtxFile"
  shows "ParseExt J 0 (qr @ kAbsToken @ qm @ kSepToken @ qt) ctx = Inr (r, NormModule m, target)"
proof -
  let ?str = "qr @ kAbsToken @ qm @ kSepToken @ qt"
  have "drop (length qr + length kAbsToken) ?str = qm @ kSepToken @ qt" by simp
  with ParseAbs_written [OF m t] ctx repo_segment [OF r refl, of "qm @ kSepToken @ qt"]
  show ?thesis by (simp add: ParseExt_def Let_def kAbsToken_def kSepToken_def)
qed

text \<open>The references that have an encoding, in a context that can read them.\<close>

definition ref_expressible :: "RefContext \<Rightarrow> RefData \<Rightarrow> bool" where
  "ref_expressible ctx d \<longleftrightarrow>
     (case ref_repo d of None \<Rightarrow> ref_type d \<noteq> RefExt
                       | Some r \<Rightarrow> ref_type d = RefExt \<and> repo_expressible r) \<and>
     (ref_type d = RefLocal \<longrightarrow> ref_module d = []) \<and> NormModule (ref_module d) = ref_module d \<and>
     (ref_target d = None \<longrightarrow> ctx = CtxCLI) \<and> ctx \<noteq> CtxFile"

definition ref_segments :: "RefData \<Rightarrow> string list" where
  "ref_segments d = (case ref_repo d of Some r \<Rightarrow> [r] | None \<Rightarrow> []) @ [ref_module d] @
     (case ref_target d of Some t \<Rightarrow> [t] | None \<Rightarrow> [])"

lemma QuoteRefSegment_Inr: "json_body J s b \<Longrightarrow> \<exists>q. QuoteRefSegment J s ty ae = Inr q"
  by (auto simp: json_body_def QuoteRefSegment_def)

lemma decode_encode:
  assumes d: "ref_expressible ctx d" and J: "\<forall>s \<in> set (ref_segments d). \<exists>b. json_body J s b"
  shows "\<exists>s. EncodeRefData J d = Inr s \<and> DecodeRefString J s ctx = Inr d"
proof -
  let ?m = "ref_module d" and ?t = "ref_target d"
  obtain bm qm where m: "json_body J ?m bm" "QuoteRefSegment J ?m SegModule True = Inr qm"
    using J QuoteRefSegment_Inr unfolding ref_segments_def by fastforce
  obtain qt where t: "writes_target J ?t qt"
      "(case ?t of Some t \<Rightarrow> QuoteRefSegment J t SegTarget False | None \<Rightarrow> Inr []) = Inr qt"
    using J QuoteRefSegment_Inr unfolding ref_segments_def writes_target_def
    by (cases ?t) fastforce+
  have t': "?t = None \<longrightarrow> ctx = CtxCLI" "ctx \<noteq> CtxFile" "NormModule ?m = ?m"
    using d by (auto simp: ref_expressible_def)
  have abs: "ParseAbs J (length k) (k @ qm @ kSepToken @ qt) (ctx = CtxCLI) = Inr (?m, ?t)" for k
    using ParseAbs_written [OF m t(1), of "ctx = CtxCLI" "length k" "k @ qm @ kSepToken @ qt"] t'
    by simp
  show ?thesis
  proof (cases "ref_type d")
    case RefExt
    with d obtain r where r: "ref_repo d = Some r" "repo_expressible r"
      by (auto simp: ref_expressible_def split: option.splits)
    with J obtain br qr where br: "json_body J r br" "QuoteRefSegment J r SegRepo False = Inr qr"
      using QuoteRefSegment_Inr unfolding ref_segments_def by fastforce
    let ?str = "qr @ kAbsToken @ qm @ kSepToken @ qt"
    have "EncodeRefData J d = Inr ?str"
      using RefExt r m(2) t(2) br(2) by (simp add: EncodeRefData_def)
    moreover have "DecodeRefString J ?str ctx = Inr d"
      using repo_segment [OF br r(2) refl, of "qm @ kSepToken @ qt"]
        ParseExt_written [OF br r(2) m t(1) t'(1,2)] RefExt r(1) t'(3)
      unfolding DecodeRefString_def by simp
    ultimately show ?thesis by blast
  next
    case RefAbs
    then have "EncodeRefData J d = Inr (kAbsToken @ qm @ kSepToken @ qt)"
      using m(2) t(2) by (simp add: EncodeRefData_def)
    moreover have "DecodeRefString J (kAbsToken @ qm @ kSepToken @ qt) ctx = Inr d"
      using abs [of kAbsToken] RefAbs d
      by (simp add: DecodeRefString_def kAbsToken_def kSepToken_def ref_expressible_def
          split: option.splits)
    ultimately show ?thesis by blast
  next
    case RefRel
    then have "EncodeRefData J d = Inr (kRelToken @ qm @ kSepToken @ qt)"
      using m(2) t(2) by (simp add: EncodeRefData_def)
    moreover have "DecodeRefString J (kRelToken @ qm @ kSepToken @ qt) ctx = Inr d"
      using abs [of kRelToken] RefRel d
      by (simp add: DecodeRefString_def kAbsToken_def kSepToken_def kRelToken_def
          ref_expressible_def split: option.splits)
    ultimately show ?thesis by blast
  next
    case RefLocal
    then have "EncodeRefData J d = Inr (kSepToken @ qt)"
      using t(2) by (simp add: EncodeRefData_def)
    moreover have "DecodeRefString J (kSepToken @ qt) ctx = Inr d"
      using ParseTarget_written [OF t(1), of "length kSepToken" "kSepToken @ qt"] RefLocal d
      by (simp add: DecodeRefString_def kSepToken_def ref_expressible_def split: option.splits)
    ultimately show ?thesis by blast
  qed
qed

lemma ParseTarget_Some: "ParseTarget J pos str missing = Inr t \<Longrightarrow> missing \<or> t \<noteq> None"
  by (auto simp: ParseTarget_def bindE_Inr_iff split: if_splits)

lemma ParseAbs_normal:
  "ParseAbs J pos str missing = Inr (m, t) \<Longrightarrow> NormModule m = m \<and> (\<not> missing \<longrightarrow> t \<noteq> None)"
  by (auto simp: ParseAbs_def bindE_Inr_iff Let_def NormModule_idem split: if_splits
      dest: ParseTarget_Some)

section \<open>A JSON library for examples\<close>

definition escape_json :: "string \<Rightarrow> string" where
  "escape_json s =
     concat (map (\<lambda>c. if c = CHR 0x22 \<or> c = CHR 0x5C then [CHR 0x5C, c] else [c]) s)"

fun unescape_json :: "string \<Rightarrow> string option" where
  "unescape_json [] = Some []"
| "unescape_json (c # cs) =
     (if c = CHR 0x5C
      then (case cs of
              d # ds \<Rightarrow> map_option ((#) d) (unescape_json ds)
            | [] \<Rightarrow> None)
      else if c = CHR 0x22 then None
      else map_option ((#) c) (unescape_json cs))"

text \<open>Instances of the JSON parameter, for printable text without control characters.\<close>

definition sample_json :: json_lib where
  "sample_json = \<lparr>json_dump = (\<lambda>s. Inr (CHR 0x22 # escape_json s @ [CHR 0x22])),
     json_unescape = unescape_json\<rparr>"

definition sample_ref :: RefData where
  "sample_ref = \<lparr>ref_type = RefExt, ref_repo = Some ''a//b'', ref_module = ''x/y:z'',
     ref_target = Some ''t 1''\<rparr>"

section \<open>Properties\<close>





section \<open>Limits of the encoding\<close>

text \<open>
  Repository names that end in a slash or are a dot decode to another reference, and a
  segment that needs quotes and ends in a backslash does not decode at all, because the
  search for the closing quote takes any backslash before it for an escape.
\<close>

lemma repo_trailing_slash_misread:
  "bindE (EncodeRefData sample_json (sample_ref\<lparr>ref_repo := Some ''a/''\<rparr>))
     (\<lambda>s. DecodeRefString sample_json s CtxTarget) \<noteq>
   Inr (sample_ref\<lparr>ref_repo := Some ''a/''\<rparr>)"
  by code_simp

lemma repo_dot_misread:
  "bindE (EncodeRefData sample_json (sample_ref\<lparr>ref_repo := Some ''.''\<rparr>))
     (\<lambda>s. DecodeRefString sample_json s CtxTarget) \<noteq> Inr (sample_ref\<lparr>ref_repo := Some ''.''\<rparr>)"
  by code_simp

lemma target_trailing_backslash_rejected:
  "\<exists>e. bindE (EncodeRefData sample_json (sample_ref\<lparr>ref_target := Some [CHR ''a'', CHR 0x5C]\<rparr>))
     (\<lambda>s. DecodeRefString sample_json s CtxTarget) = Inl e"
proof -
  have "case bindE (EncodeRefData sample_json (sample_ref\<lparr>ref_target := Some [CHR ''a'', CHR 0x5C]\<rparr>))
     (\<lambda>s. DecodeRefString sample_json s CtxTarget) of Inl e \<Rightarrow> True | Inr _ \<Rightarrow> False"
    by code_simp
  then show ?thesis by (auto split: sum.splits)
qed

end
