(* ===== verification/Jst_Numbers.thy ===== *)
theory Jst_Numbers
  imports Jst_Ref "HOL-Library.Word"
begin

text \<open>
  What the expression language uses of the C++ standard library beyond strings: the arithmetic
  of \<^verbatim>\<open>double\<close> (IEEE 754 binary64, round to nearest, ties to even) on its 64 bits, conversions to
  integers, and the lexical operations of \<^verbatim>\<open>std::filesystem::path\<close> on POSIX that
  \<^verbatim>\<open>src/src/utils/cpp/path.hpp\<close> and the evaluator call.
\<close>

section \<open>Doubles\<close>

text \<open>A finite number is \<open>(- 1)\<^bsup>s\<^esup> \<cdot> m \<cdot> 2\<^bsup>e\<^esup>\<close>.\<close>

datatype float_value = NaN | Infinity bool | Finite bool nat int

definition decode_double :: "64 word \<Rightarrow> float_value" where
  "decode_double w =
     (let bits = unat w; s = (bits div 2 ^ 63 = 1);
          ex = bits div 2 ^ 52 mod 2 ^ 11; frac = bits mod 2 ^ 52
      in if ex = 2 ^ 11 - 1 then (if frac = 0 then Infinity s else NaN)
         else if ex = 0 then Finite s frac (- 1074)
         else Finite s (2 ^ 52 + frac) (int ex - 1075))"

definition sign_bit :: "bool \<Rightarrow> nat" where
  "sign_bit s = (if s then 2 ^ 63 else 0)"

fun bit_length :: "nat \<Rightarrow> nat" where
  "bit_length n = (if n = 0 then 0 else Suc (bit_length (n div 2)))"

declare bit_length.simps [simp del]

text \<open>\<open>m \<cdot> 2\<^bsup>-k\<^esup>\<close>, rounded to an integer.\<close>

definition round_shift :: "nat \<Rightarrow> nat \<Rightarrow> nat" where
  "round_shift m k =
     (let q = m div 2 ^ k; r = m mod 2 ^ k
      in if 2 * r < 2 ^ k \<or> 2 * r = 2 ^ k \<and> even q then q else q + 1)"

text \<open>The double nearest to \<open>(- 1)\<^bsup>s\<^esup> \<cdot> m \<cdot> 2\<^bsup>e\<^esup>\<close>.\<close>

definition encode_double :: "bool \<Rightarrow> nat \<Rightarrow> int \<Rightarrow> 64 word" where
  "encode_double s m e =
     (if m = 0 then word_of_nat (sign_bit s)
      else let e' = max (e + int (bit_length m) - 53) (- 1074);
               n = (if e' \<le> e then m * 2 ^ nat (e - e') else round_shift m (nat (e' - e)));
               (n, e') = (if n = 2 ^ 53 then (2 ^ 52, e' + 1) else (n, e'))
           in if 971 < e' then word_of_nat (sign_bit s + (2 ^ 11 - 1) * 2 ^ 52)
              else if n < 2 ^ 52 then word_of_nat (sign_bit s + n)
              else word_of_nat (sign_bit s + nat (e' + 1075) * 2 ^ 52 + (n - 2 ^ 52)))"

definition quiet_nan :: "64 word" where
  "quiet_nan = word_of_nat ((2 ^ 11 - 1) * 2 ^ 52 + 2 ^ 51)"

definition infinity :: "bool \<Rightarrow> 64 word" where
  "infinity s = word_of_nat (sign_bit s + (2 ^ 11 - 1) * 2 ^ 52)"

definition signed_int :: "bool \<Rightarrow> nat \<Rightarrow> int" where
  "signed_int s m = (if s then - int m else int m)"

definition double_add :: "64 word \<Rightarrow> 64 word \<Rightarrow> 64 word" where
  "double_add x y =
     (case (decode_double x, decode_double y) of
        (Finite s m e, Finite t n f) \<Rightarrow>
          let g = min e f;
              total = signed_int s m * 2 ^ nat (e - g) + signed_int t n * 2 ^ nat (f - g)
          in if total = 0 then word_of_nat (sign_bit (s \<and> t))
             else encode_double (total < 0) (nat (abs total)) g
      | (NaN, _) \<Rightarrow> quiet_nan
      | (_, NaN) \<Rightarrow> quiet_nan
      | (Infinity s, Infinity t) \<Rightarrow> if s = t then x else quiet_nan
      | (Infinity s, _) \<Rightarrow> x
      | (_, Infinity t) \<Rightarrow> y)"

definition double_mult :: "64 word \<Rightarrow> 64 word \<Rightarrow> 64 word" where
  "double_mult x y =
     (case (decode_double x, decode_double y) of
        (Finite s m e, Finite t n f) \<Rightarrow> encode_double (s \<noteq> t) (m * n) (e + f)
      | (NaN, _) \<Rightarrow> quiet_nan
      | (_, NaN) \<Rightarrow> quiet_nan
      | (Infinity s, Infinity t) \<Rightarrow> infinity (s \<noteq> t)
      | (Infinity s, Finite t n _) \<Rightarrow> if n = 0 then quiet_nan else infinity (s \<noteq> t)
      | (Finite s m _, Infinity t) \<Rightarrow> if m = 0 then quiet_nan else infinity (s \<noteq> t))"

definition double_of_nat :: "nat \<Rightarrow> 64 word" where
  "double_of_nat n = encode_double False n 0"

definition double_is_zero :: "64 word \<Rightarrow> bool" where
  "double_is_zero x \<longleftrightarrow> (case decode_double x of Finite _ m _ \<Rightarrow> m = 0 | _ \<Rightarrow> False)"

definition double_is_positive :: "64 word \<Rightarrow> bool" where
  "double_is_positive x \<longleftrightarrow>
     (case decode_double x of Finite s m _ \<Rightarrow> \<not> s \<and> m \<noteq> 0 | Infinity s \<Rightarrow> \<not> s | NaN \<Rightarrow> False)"

text \<open>\<^verbatim>\<open>std::lround\<close>: halves away from zero; \<open>None\<close> is a value outside of \<^verbatim>\<open>long\<close>.\<close>

definition lround :: "64 word \<Rightarrow> 64 word option" where
  "lround x =
     (case decode_double x of
        Finite s m e \<Rightarrow>
          let a = (if 0 \<le> e then m * 2 ^ nat e
                   else (2 * m + 2 ^ nat (- e)) div (2 * 2 ^ nat (- e)));
              i = signed_int s a
          in if - (2 ^ 63) \<le> i \<and> i < 2 ^ 63 then Some (word_of_int i) else None
      | _ \<Rightarrow> None)"

text \<open>\<^verbatim>\<open>std::atol\<close>, with the limits of \<^verbatim>\<open>long\<close> for numbers outside of it.\<close>

definition atol :: "string \<Rightarrow> 64 word" where
  "atol str =
     (let str = dropWhile isspace str;
          negative = (case str of c # _ \<Rightarrow> c = CHR ''-'' | [] \<Rightarrow> False);
          str = (case str of c # cs \<Rightarrow> if c = CHR ''-'' \<or> c = CHR ''+'' then cs else str | [] \<Rightarrow> []);
          digits = takeWhile isdigit str;
          n = foldl (\<lambda>n c. 10 * n + (int (of_char c) - 48)) 0 digits;
          i = (if negative then - n else n)
      in word_of_int (max (- (2 ^ 63)) (min (2 ^ 63 - 1) i)))"

section \<open>Paths\<close>

definition has_filename :: "string \<Rightarrow> bool" where
  "has_filename p \<longleftrightarrow> path_filename p \<noteq> []"

definition parent_path :: "string \<Rightarrow> string" where
  "parent_path p =
     (if \<forall>c \<in> set p. c = CHR ''/'' then p
      else let q = rev (dropWhile (\<lambda>c. c = CHR ''/'') (dropWhile (\<lambda>c. c \<noteq> CHR ''/'') (rev p)))
           in if q = [] \<and> is_absolute p then ''/'' else q)"

text \<open>The file name without its last extension; a dot in front does not start an extension.\<close>

definition path_stem :: "string \<Rightarrow> string" where
  "path_stem p =
     (let f = path_filename p; base = rev (tl (dropWhile (\<lambda>c. c \<noteq> CHR ''.'') (rev f)))
      in if f = ''.'' \<or> f = ''..'' \<or> CHR ''.'' \<notin> set f \<or> base = [] then f else base)"

text \<open>\<^verbatim>\<open>operator/\<close>\<close>

definition path_append :: "string \<Rightarrow> string \<Rightarrow> string" where
  "path_append p q =
     (if is_absolute q then q
      else if has_filename p then p @ ''/'' @ q
      else p @ q)"

text \<open>What an iterator over a path visits.\<close>

definition path_elements :: "string \<Rightarrow> string list" where
  "path_elements p =
     (let names = filter (\<lambda>x. x \<noteq> []) (split_slash p)
      in (if is_absolute p then [''/''] else []) @ names @
         (if names \<noteq> [] \<and> last p = CHR ''/'' then [[]] else []))"

fun mismatch :: "string list \<Rightarrow> string list \<Rightarrow> string list \<times> string list" where
  "mismatch (a # as) (b # bs) = (if a = b then mismatch as bs else (a # as, b # bs))"
| "mismatch as bs = (as, bs)"

definition lexically_relative :: "string \<Rightarrow> string \<Rightarrow> string" where
  "lexically_relative p base =
     (if is_absolute p \<noteq> is_absolute base then []
      else let (a, b) = mismatch (path_elements p) (path_elements base);
               ups = length (filter (\<lambda>x. x = ''..'') b);
               downs = length (filter (\<lambda>x. x \<noteq> [] \<and> x \<noteq> ''.'' \<and> x \<noteq> ''..'') b)
           in if a = [] \<and> b = [] then ''.''
              else if downs < ups then []
              else if downs = ups \<and> (a = [] \<or> hd a = []) then ''.''
              else foldl path_append [] (replicate (downs - ups) ''..'' @ a))"

definition PathIsNonUpwards :: "string \<Rightarrow> bool" where
  "PathIsNonUpwards p \<longleftrightarrow>
     \<not> is_absolute p \<and>
     (case norm_elems False [] (split_slash p) of [] \<Rightarrow> True | x # _ \<Rightarrow> x \<noteq> ''..'')"

end
