(* ===== verification/Jst_AST.thy ===== *)
theory Jst_AST
  imports Jst_Ref Jst_Numbers
begin

text \<open>
  The syntax tree of the jst language: \<^verbatim>\<open>src/buildtool/jstlang/ast/ast.hpp\<close>. The class
  hierarchy with its variant is the datatype \<open>ast\<close>, one constructor per class; the entries of
  the base class are the record \<open>ast_base\<close>, which every constructor function of the source
  computes from the children. A child that may be a null pointer is an option.
\<close>

section \<open>Types of nodes\<close>

datatype ValueType =
  TyNull | TyBool | TyNumber | TyString | TyList | TyMap | TyRef | TyFunc | TyAny

fun TypeToString :: "ValueType \<Rightarrow> string" where
  "TypeToString TyNull = ''Null''"
| "TypeToString TyBool = ''Bool''"
| "TypeToString TyNumber = ''Number''"
| "TypeToString TyString = ''String''"
| "TypeToString TyList = ''List''"
| "TypeToString TyMap = ''Map''"
| "TypeToString TyRef = ''Ref''"
| "TypeToString TyFunc = ''Func''"
| "TypeToString TyAny = ''Any''"

record Location =
  loc_file :: string
  loc_line :: nat
  loc_column :: nat
  loc_column_end :: nat
  loc_content :: "string option"

text \<open>\<^verbatim>\<open>Location{}\<close>\<close>

definition no_location :: Location where
  "no_location =
     \<lparr>loc_file = [], loc_line = 0, loc_column = 0, loc_column_end = 0, loc_content = None\<rparr>"

record ast_base =
  base_loc :: Location
  base_value_type :: ValueType
  base_truth_value :: "bool option"

datatype VerbatimType = VerbatimNone | VerbatimFlat | VerbatimFull

datatype UnaryOp = OpNot | OpMinus

datatype BinaryOp = OpAnd | OpOr | OpEqual | OpPlus | OpMultiplication

datatype ast =
    LetNode ast_base string ast ast
  | FuncNode ast_base "(string \<times> ast option) list" ast
  | BuiltinNode ast_base string
  | CallNode ast_base call_target "(string option \<times> ast) list option"
  | ForeignNode ast_base ast
  | VerbatimNode ast_base ast VerbatimType
  | ListNode ast_base "ast list"
  | MapNode ast_base "(ast \<times> ast) list"
  | BoolNode ast_base bool
  | StringNode ast_base string
  | NumberNode ast_base "64 word"
  | NullNode ast_base
  | VarNode ast_base string "ast option"
  | IfNode ast_base ast "ast option" "ast option"
  | ForEachNode ast_base string ast ast
  | ZipWithNode ast_base string string ast ast ast
  | FoldLeftNode ast_base string string ast ast ast
  | UnaryOperationNode ast_base UnaryOp ast
  | LookupNode ast_base ast ast "ast option"
  | BinaryOperationNode ast_base BinaryOp ast ast
  | RefNode ast_base RefData
and call_target = CallIdentifier string | CallExpr ast | CallBuiltin ast

fun ast_base_of :: "ast \<Rightarrow> ast_base" where
  "ast_base_of (LetNode b _ _ _) = b"
| "ast_base_of (FuncNode b _ _) = b"
| "ast_base_of (BuiltinNode b _) = b"
| "ast_base_of (CallNode b _ _) = b"
| "ast_base_of (ForeignNode b _) = b"
| "ast_base_of (VerbatimNode b _ _) = b"
| "ast_base_of (ListNode b _) = b"
| "ast_base_of (MapNode b _) = b"
| "ast_base_of (BoolNode b _) = b"
| "ast_base_of (StringNode b _) = b"
| "ast_base_of (NumberNode b _) = b"
| "ast_base_of (NullNode b) = b"
| "ast_base_of (VarNode b _ _) = b"
| "ast_base_of (IfNode b _ _ _) = b"
| "ast_base_of (ForEachNode b _ _ _) = b"
| "ast_base_of (ZipWithNode b _ _ _ _ _) = b"
| "ast_base_of (FoldLeftNode b _ _ _ _ _) = b"
| "ast_base_of (UnaryOperationNode b _ _) = b"
| "ast_base_of (LookupNode b _ _ _) = b"
| "ast_base_of (BinaryOperationNode b _ _ _) = b"
| "ast_base_of (RefNode b _) = b"

definition EvalType :: "ast \<Rightarrow> ValueType" where
  "EvalType n = base_value_type (ast_base_of n)"

definition GetLocation :: "ast \<Rightarrow> Location" where
  "GetLocation n = base_loc (ast_base_of n)"

definition TruthValue :: "ast \<Rightarrow> bool option" where
  "TruthValue n = base_truth_value (ast_base_of n)"

section \<open>Constructors\<close>

definition mk_base :: "Location \<Rightarrow> ValueType \<Rightarrow> bool option \<Rightarrow> ast_base" where
  "mk_base loc ty truth =
     \<lparr>base_loc = loc, base_value_type = ty, base_truth_value = truth\<rparr>"

definition mk_LetNode :: "Location \<Rightarrow> string \<Rightarrow> ast \<Rightarrow> ast \<Rightarrow> ast" where
  "mk_LetNode loc name value next = LetNode (mk_base loc (EvalType next) None) name value next"

definition mk_FuncNode :: "Location \<Rightarrow> (string \<times> ast option) list \<Rightarrow> ast \<Rightarrow> ast" where
  "mk_FuncNode loc params body = FuncNode (mk_base loc TyFunc None) params body"

definition mk_BuiltinNode :: "string \<Rightarrow> ast" where
  "mk_BuiltinNode name = BuiltinNode (mk_base no_location TyFunc None) name"

definition mk_CallNode ::
  "Location \<Rightarrow> call_target \<Rightarrow> (string option \<times> ast) list option \<Rightarrow> ast" where
  "mk_CallNode loc target params = CallNode (mk_base loc TyAny None) target params"

definition IsVarRead :: "(string option \<times> ast) list option \<Rightarrow> bool" where
  "IsVarRead params \<longleftrightarrow> params = None"

definition mk_ForeignNode :: "Location \<Rightarrow> ast \<Rightarrow> ast" where
  "mk_ForeignNode loc expr = ForeignNode (mk_base loc (EvalType expr) None) expr"

definition mk_VerbatimNode ::
  "Location \<Rightarrow> ast \<Rightarrow> VerbatimType \<Rightarrow> ValueType option \<Rightarrow> ast" where
  "mk_VerbatimNode loc expr type eval_type =
     VerbatimNode (mk_base loc (case eval_type of Some t \<Rightarrow> t | None \<Rightarrow> EvalType expr) None)
       expr type"

definition mk_ListNode :: "Location \<Rightarrow> ast list \<Rightarrow> ast" where
  "mk_ListNode loc items = ListNode (mk_base loc TyList (Some (items \<noteq> []))) items"

definition mk_MapNode :: "Location \<Rightarrow> (ast \<times> ast) list \<Rightarrow> ast" where
  "mk_MapNode loc entries = MapNode (mk_base loc TyMap (Some (entries \<noteq> []))) entries"

definition mk_BoolNode :: "Location \<Rightarrow> bool \<Rightarrow> ast" where
  "mk_BoolNode loc value = BoolNode (mk_base loc TyBool (Some value)) value"

definition mk_StringNode :: "Location \<Rightarrow> string \<Rightarrow> ast" where
  "mk_StringNode loc value = StringNode (mk_base loc TyString (Some (value \<noteq> []))) value"

definition mk_NumberNode :: "Location \<Rightarrow> 64 word \<Rightarrow> ast" where
  "mk_NumberNode loc value =
     NumberNode (mk_base loc TyNumber (Some (\<not> double_is_zero value))) value"

definition mk_NullNode :: "Location \<Rightarrow> ast" where
  "mk_NullNode loc = NullNode (mk_base loc TyNull (Some False))"

definition mk_VarNode :: "Location \<Rightarrow> string \<Rightarrow> ast option \<Rightarrow> ast" where
  "mk_VarNode loc name default_expr = VarNode (mk_base loc TyAny None) name default_expr"

definition IfNode_GetEvalType :: "ast option \<Rightarrow> ast option \<Rightarrow> ValueType" where
  "IfNode_GetEvalType then_expr else_expr =
     (let type1 = (case then_expr of None \<Rightarrow> TyList | Some n \<Rightarrow> EvalType n);
          type2 = (case else_expr of None \<Rightarrow> TyList | Some n \<Rightarrow> EvalType n)
      in if type1 = type2 then type1 else TyAny)"

definition IfNode_GetTruthValue :: "ast option \<Rightarrow> ast option \<Rightarrow> bool option" where
  "IfNode_GetTruthValue then_expr else_expr =
     (let truth1 = (case then_expr of None \<Rightarrow> None | Some n \<Rightarrow> TruthValue n);
          truth2 = (case else_expr of None \<Rightarrow> None | Some n \<Rightarrow> TruthValue n)
      in if truth1 \<noteq> None \<and> truth2 \<noteq> None \<and> the truth1 = the truth2 then truth1 else None)"

definition mk_IfNode :: "Location \<Rightarrow> ast \<Rightarrow> ast option \<Rightarrow> ast option \<Rightarrow> ast" where
  "mk_IfNode loc cond then_expr else_expr =
     IfNode (mk_base loc (IfNode_GetEvalType then_expr else_expr)
               (IfNode_GetTruthValue then_expr else_expr))
       cond then_expr else_expr"

definition mk_ForEachNode :: "Location \<Rightarrow> string \<Rightarrow> ast \<Rightarrow> ast \<Rightarrow> ast" where
  "mk_ForEachNode loc var rng body = ForEachNode (mk_base loc TyList None) var rng body"

definition mk_ZipWithNode ::
  "Location \<Rightarrow> string \<Rightarrow> string \<Rightarrow> ast \<Rightarrow> ast \<Rightarrow> ast \<Rightarrow> ast" where
  "mk_ZipWithNode loc var1 var2 range1 range2 body =
     ZipWithNode (mk_base loc TyList None) var1 var2 range1 range2 body"

definition mk_FoldLeftNode ::
  "Location \<Rightarrow> string \<Rightarrow> string \<Rightarrow> ast \<Rightarrow> ast \<Rightarrow> ast \<Rightarrow> ast" where
  "mk_FoldLeftNode loc iter_var accu_var init rng body =
     FoldLeftNode (mk_base loc (EvalType init) None) iter_var accu_var init rng body"

definition mk_UnaryOperationNode ::
  "Location \<Rightarrow> UnaryOp \<Rightarrow> ast \<Rightarrow> ValueType option \<Rightarrow> ast" where
  "mk_UnaryOperationNode loc type expr eval_type =
     UnaryOperationNode (mk_base loc (case eval_type of Some t \<Rightarrow> t | None \<Rightarrow> TyAny) None)
       type expr"

definition mk_LookupNode :: "Location \<Rightarrow> ast \<Rightarrow> ast \<Rightarrow> ast option \<Rightarrow> ast" where
  "mk_LookupNode loc index container default_expr =
     LookupNode (mk_base loc TyAny None) index container default_expr"

definition mk_BinaryOperationNode ::
  "Location \<Rightarrow> BinaryOp \<Rightarrow> ast \<Rightarrow> ast \<Rightarrow> ValueType option \<Rightarrow> ast" where
  "mk_BinaryOperationNode loc type lhs rhs eval_type =
     BinaryOperationNode (mk_base loc (case eval_type of Some t \<Rightarrow> t | None \<Rightarrow> TyAny) None)
       type lhs rhs"

definition GetTypeName :: "BinaryOp \<Rightarrow> ValueType \<Rightarrow> string option" where
  "GetTypeName type eval_type =
     (case type of
        OpAnd \<Rightarrow> Some ''and''
      | OpOr \<Rightarrow> Some ''or''
      | OpEqual \<Rightarrow> Some ''==''
      | OpPlus \<Rightarrow>
          if eval_type = TyNumber then Some ''+''
          else if eval_type = TyString then Some ''join''
          else if eval_type = TyList then Some ''++''
          else if eval_type = TyMap then Some ''map_union''
          else None
      | OpMultiplication \<Rightarrow> Some ''*'')"

definition mk_RefNode :: "Location \<Rightarrow> RefData \<Rightarrow> ast" where
  "mk_RefNode loc data = RefNode (mk_base loc TyRef None) data"

lemma mk_base_sel [simp]:
  "base_loc (mk_base loc ty truth) = loc" "base_value_type (mk_base loc ty truth) = ty"
  "base_truth_value (mk_base loc ty truth) = truth"
  by (simp_all add: mk_base_def)

lemmas mk_node_defs =
  mk_LetNode_def mk_FuncNode_def mk_BuiltinNode_def mk_CallNode_def mk_ForeignNode_def
  mk_VerbatimNode_def mk_ListNode_def mk_MapNode_def mk_BoolNode_def mk_StringNode_def
  mk_NumberNode_def mk_NullNode_def mk_VarNode_def mk_IfNode_def mk_ForEachNode_def
  mk_ZipWithNode_def mk_FoldLeftNode_def mk_UnaryOperationNode_def mk_LookupNode_def
  mk_BinaryOperationNode_def mk_RefNode_def

section \<open>What is left by inlining\<close>

text \<open>
  A tree for the evaluator: definitions, calls, operations and lookups may only be left in the
  bodies of functions with parameters.
\<close>

fun runtime :: "ast \<Rightarrow> bool" where
  "runtime (FuncNode b params body) \<longleftrightarrow> params \<noteq> [] \<or> runtime body"
| "runtime (VerbatimNode b e ty) \<longleftrightarrow> runtime e"
| "runtime (ListNode b nodes) \<longleftrightarrow> (\<forall>n \<in> set nodes. runtime n)"
| "runtime (MapNode b entries) \<longleftrightarrow> (\<forall>f \<in> set entries. runtime (fst f) \<and> runtime (snd f))"
| "runtime (VarNode b name d) \<longleftrightarrow> (case d of None \<Rightarrow> True | Some e \<Rightarrow> runtime e)"
| "runtime (IfNode b c t e) \<longleftrightarrow> runtime c \<and> (case t of None \<Rightarrow> True | Some n \<Rightarrow> runtime n) \<and>
     (case e of None \<Rightarrow> True | Some n \<Rightarrow> runtime n)"
| "runtime (ForEachNode b v r body) \<longleftrightarrow> runtime r \<and> runtime body"
| "runtime (ZipWithNode b v1 v2 r1 r2 body) \<longleftrightarrow> runtime r1 \<and> runtime r2 \<and> runtime body"
| "runtime (FoldLeftNode b v1 v2 i r body) \<longleftrightarrow> runtime i \<and> runtime r \<and> runtime body"
| "runtime (LetNode _ _ _ _) \<longleftrightarrow> False"
| "runtime (CallNode _ _ _) \<longleftrightarrow> False"
| "runtime (ForeignNode _ _) \<longleftrightarrow> False"
| "runtime (UnaryOperationNode _ _ _) \<longleftrightarrow> False"
| "runtime (LookupNode _ _ _ _) \<longleftrightarrow> False"
| "runtime (BinaryOperationNode _ _ _ _) \<longleftrightarrow> False"
| "runtime _ \<longleftrightarrow> True"

section \<open>Consistency of the cached types\<close>

text \<open>
  A node is consistent when its cached type and truth value are those that the constructor
  of its class derives from its children, a call gives no positional argument after a named
  one, the default of a variable of the configuration is one for the evaluator, and all its
  descendants are consistent.
\<close>

definition args_ordered :: "(string option \<times> ast) list \<Rightarrow> bool" where
  "args_ordered ps \<longleftrightarrow>
     list_all (\<lambda>p. fst p \<noteq> None) (dropWhile (\<lambda>p. fst p = None) ps)"

definition cached :: "ast_base \<Rightarrow> ValueType \<Rightarrow> bool option \<Rightarrow> bool" where
  "cached b ty truth \<longleftrightarrow> base_value_type b = ty \<and> base_truth_value b = truth"

fun wf_ast :: "ast \<Rightarrow> bool" and wf_target :: "call_target \<Rightarrow> bool" where
  "wf_ast (LetNode b name value next) \<longleftrightarrow>
     cached b (EvalType next) None \<and> wf_ast value \<and> wf_ast next"
| "wf_ast (FuncNode b params body) \<longleftrightarrow> cached b TyFunc None \<and>
     (\<forall>p \<in> set params. case snd p of None \<Rightarrow> True | Some e \<Rightarrow> wf_ast e) \<and> wf_ast body"
| "wf_ast (BuiltinNode b name) \<longleftrightarrow> cached b TyFunc None"
| "wf_ast (CallNode b target params) \<longleftrightarrow> cached b TyAny None \<and> wf_target target \<and>
     (case params of None \<Rightarrow> True
                   | Some ps \<Rightarrow> args_ordered ps \<and> (\<forall>p \<in> set ps. wf_ast (snd p)))"
| "wf_ast (ForeignNode b e) \<longleftrightarrow> cached b (EvalType e) None \<and> wf_ast e"
| "wf_ast (VerbatimNode b e ty) \<longleftrightarrow> base_truth_value b = None \<and> wf_ast e"
| "wf_ast (ListNode b items) \<longleftrightarrow> cached b TyList (Some (items \<noteq> [])) \<and> (\<forall>i \<in> set items. wf_ast i)"
| "wf_ast (MapNode b entries) \<longleftrightarrow> cached b TyMap (Some (entries \<noteq> [])) \<and>
     (\<forall>f \<in> set entries. wf_ast (fst f) \<and> wf_ast (snd f))"
| "wf_ast (BoolNode b v) \<longleftrightarrow> cached b TyBool (Some v)"
| "wf_ast (StringNode b v) \<longleftrightarrow> cached b TyString (Some (v \<noteq> []))"
| "wf_ast (NumberNode b v) \<longleftrightarrow> cached b TyNumber (Some (\<not> double_is_zero v))"
| "wf_ast (NullNode b) \<longleftrightarrow> cached b TyNull (Some False)"
| "wf_ast (VarNode b name d) \<longleftrightarrow> cached b TyAny None \<and>
     (case d of None \<Rightarrow> True | Some e \<Rightarrow> runtime e \<and> wf_ast e)"
| "wf_ast (IfNode b c t e) \<longleftrightarrow> cached b (IfNode_GetEvalType t e) (IfNode_GetTruthValue t e) \<and>
     wf_ast c \<and> (case t of None \<Rightarrow> True | Some n \<Rightarrow> wf_ast n) \<and>
     (case e of None \<Rightarrow> True | Some n \<Rightarrow> wf_ast n)"
| "wf_ast (ForEachNode b v r body) \<longleftrightarrow> cached b TyList None \<and> wf_ast r \<and> wf_ast body"
| "wf_ast (ZipWithNode b v1 v2 r1 r2 body) \<longleftrightarrow>
     cached b TyList None \<and> wf_ast r1 \<and> wf_ast r2 \<and> wf_ast body"
| "wf_ast (FoldLeftNode b v1 v2 i r body) \<longleftrightarrow>
     cached b (EvalType i) None \<and> wf_ast i \<and> wf_ast r \<and> wf_ast body"
| "wf_ast (UnaryOperationNode b ty e) \<longleftrightarrow> base_truth_value b = None \<and> wf_ast e"
| "wf_ast (LookupNode b i c d) \<longleftrightarrow> cached b TyAny None \<and> wf_ast i \<and> wf_ast c \<and>
     (case d of None \<Rightarrow> True | Some e \<Rightarrow> wf_ast e)"
| "wf_ast (BinaryOperationNode b ty l r) \<longleftrightarrow> base_truth_value b = None \<and> wf_ast l \<and> wf_ast r"
| "wf_ast (RefNode b d) \<longleftrightarrow> cached b TyRef None"
| "wf_target (CallIdentifier s) \<longleftrightarrow> True"
| "wf_target (CallExpr e) \<longleftrightarrow> wf_ast e"
| "wf_target (CallBuiltin e) \<longleftrightarrow> (\<exists>b name. e = BuiltinNode b name) \<and> wf_ast e"

lemma runtime_mk [simp]:
  "runtime (mk_ListNode loc nodes) \<longleftrightarrow> (\<forall>n \<in> set nodes. runtime n)"
  "runtime (mk_MapNode loc entries) \<longleftrightarrow> (\<forall>f \<in> set entries. runtime (fst f) \<and> runtime (snd f))"
  "runtime (mk_BoolNode loc b)" "runtime (mk_StringNode loc s)" "runtime (mk_NumberNode loc x)" "runtime (mk_NullNode loc)"
  "runtime (mk_VarNode loc name d) \<longleftrightarrow> (case d of None \<Rightarrow> True | Some e \<Rightarrow> runtime e)"
  "runtime (mk_IfNode loc c t e) \<longleftrightarrow> runtime c \<and> (case t of None \<Rightarrow> True | Some n \<Rightarrow> runtime n) \<and>
     (case e of None \<Rightarrow> True | Some n \<Rightarrow> runtime n)"
  "runtime (mk_VerbatimNode loc n vtype ty) \<longleftrightarrow> runtime n"
  "runtime (mk_FuncNode loc params body) \<longleftrightarrow> params \<noteq> [] \<or> runtime body"
  "runtime (mk_ForEachNode loc v r body) \<longleftrightarrow> runtime r \<and> runtime body"
  "runtime (mk_ZipWithNode loc v1 v2 r1 r2 body) \<longleftrightarrow> runtime r1 \<and> runtime r2 \<and> runtime body"
  "runtime (mk_FoldLeftNode loc v1 v2 i r body) \<longleftrightarrow> runtime i \<and> runtime r \<and> runtime body"
  "runtime (mk_BuiltinNode name)"
  by (simp_all add: mk_node_defs)

text \<open>Every constructor makes a consistent node of consistent children.\<close>

lemma EvalType_mk [simp]:
  "EvalType (mk_FuncNode loc ps e) = TyFunc" "EvalType (mk_UnaryOperationNode loc u e (Some ty)) = ty"
  "EvalType (mk_ListNode loc items) = TyList" "EvalType (mk_MapNode loc entries) = TyMap"
  by (simp_all add: mk_node_defs EvalType_def)

lemma wf_mk [simp]:
  "wf_ast (mk_LetNode loc name v e) \<longleftrightarrow> wf_ast v \<and> wf_ast e"
  "wf_ast (mk_FuncNode loc ps e) \<longleftrightarrow>
     (\<forall>p \<in> set ps. case snd p of None \<Rightarrow> True | Some e \<Rightarrow> wf_ast e) \<and> wf_ast e"
  "wf_ast (mk_CallNode loc tgt params) \<longleftrightarrow> wf_target tgt \<and>
     (case params of None \<Rightarrow> True
                   | Some ps \<Rightarrow> args_ordered ps \<and> (\<forall>p \<in> set ps. wf_ast (snd p)))"
  "wf_ast (mk_BuiltinNode name)"
  "wf_ast (mk_ForeignNode loc e) \<longleftrightarrow> wf_ast e"
  "wf_ast (mk_ListNode loc items) \<longleftrightarrow> (\<forall>i \<in> set items. wf_ast i)"
  "wf_ast (mk_MapNode loc entries) \<longleftrightarrow> (\<forall>f \<in> set entries. wf_ast (fst f) \<and> wf_ast (snd f))"
  "wf_ast (mk_BoolNode loc b)" "wf_ast (mk_StringNode loc str)" "wf_ast (mk_NumberNode loc x)"
  "wf_ast (mk_NullNode loc)" "wf_ast (mk_RefNode loc data)"
  "wf_ast (mk_VarNode loc name d) \<longleftrightarrow> (case d of None \<Rightarrow> True | Some e \<Rightarrow> runtime e \<and> wf_ast e)"
  "wf_ast (mk_IfNode loc c t f) \<longleftrightarrow> wf_ast c \<and> (case t of None \<Rightarrow> True | Some n \<Rightarrow> wf_ast n) \<and>
     (case f of None \<Rightarrow> True | Some n \<Rightarrow> wf_ast n)"
  "wf_ast (mk_ForEachNode loc var r body) \<longleftrightarrow> wf_ast r \<and> wf_ast body"
  "wf_ast (mk_UnaryOperationNode loc u e ty) \<longleftrightarrow> wf_ast e"
  "wf_ast (mk_LookupNode loc i c d) \<longleftrightarrow> wf_ast i \<and> wf_ast c \<and>
     (case d of None \<Rightarrow> True | Some e \<Rightarrow> wf_ast e)"
  "wf_ast (mk_BinaryOperationNode loc op l r ty) \<longleftrightarrow> wf_ast l \<and> wf_ast r"
  "wf_ast (mk_ZipWithNode loc v1 v2 r1 r2 body) \<longleftrightarrow> wf_ast r1 \<and> wf_ast r2 \<and> wf_ast body"
  "wf_ast (mk_FoldLeftNode loc v1 v2 i r body) \<longleftrightarrow> wf_ast i \<and> wf_ast r \<and> wf_ast body"
  "wf_ast (mk_VerbatimNode loc e vtype ty) \<longleftrightarrow> wf_ast e"
  by (auto simp: mk_node_defs cached_def)

end
