(* ===== verification/Jst_Parser.thy ===== *)
theory Jst_Parser
  imports Jst_Lexer Jst_AST
begin

text \<open>
  The parser of the jst language: \<^verbatim>\<open>src/buildtool/jstlang/ast/native/parser.{hpp,cpp}\<close>, with
  the exceptions of \<^verbatim>\<open>static_error.hpp\<close>. The member functions call each other only through
  \<open>Parse\<close>, so each of them takes \<open>Parse\<close> as the argument \<open>P\<close>; \<open>Parse\<close> itself recurses on a
  fuel that bounds the depth of the calls, and the loops have a fuel of their own. That the
  fuel given is always enough is a theorem. The parser of an imported file is a field of the
  environment, as are the reader callback and the import chain, which do not change during
  one \<open>Parse\<close>.
\<close>

section \<open>Numbers\<close>

text \<open>
  \<^verbatim>\<open>std::stod\<close> on digits with an optional fraction: the nearest double, ties to even. \<open>None\<close>
  is \<^verbatim>\<open>std::out_of_range\<close>, thrown when the result overflows, or is subnormal and inexact.
\<close>

datatype double = Double int int

text \<open>The double that is an integer times a power of two.\<close>

fun double_word :: "double \<Rightarrow> 64 word" where
  "double_word (Double m e) = encode_double False (nat m) e"

definition digits_value :: "string \<Rightarrow> int" where
  "digits_value ds = foldl (\<lambda>n c. 10 * n + (of_char c - 48)) 0 ds"

function bits :: "int \<Rightarrow> nat" where
  "bits n = (if n \<le> 0 then 0 else Suc (bits (n div 2)))"
  by pat_completeness auto
termination by (relation "measure nat") auto

declare bits.simps [simp del]

definition round_div :: "int \<Rightarrow> int \<Rightarrow> int" where
  "round_div a b =
     (let q = a div b; r = a mod b
      in if 2 * r < b \<or> 2 * r = b \<and> even q then q else q + 1)"

definition scaled :: "int \<Rightarrow> int \<Rightarrow> int \<Rightarrow> int \<times> int" where
  "scaled a b e = (if 0 \<le> e then (a, b * 2 ^ nat e) else (a * 2 ^ nat (- e), b))"

definition nearest_double :: "int \<Rightarrow> int \<Rightarrow> double option" where
  "nearest_double a b =
     (if a = 0 then Some (Double 0 0)
      else
        let e0 = int (bits a) - int (bits b) - 53;
            (n0, d0) = scaled a b e0;
            e1 = (if 2 ^ 53 * d0 \<le> n0 then e0 + 1 else e0);
            e = max e1 (- 1074);
            (n, d) = scaled a b e;
            m = round_div n d
        in if e1 < - 1074 \<and> \<not> d dvd n then None
           else if 971 < e \<or> e = 971 \<and> 2 ^ 53 \<le> m then None
           else Some (Double m e))"

definition stod :: "string \<Rightarrow> double option" where
  "stod str =
     (let a = takeWhile isdigit str; f = tl (dropWhile isdigit str)
      in nearest_double (digits_value (a @ f)) (10 ^ length f))"

section \<open>Errors\<close>

text \<open>
  The exceptions of the parser, and the ways it can fail that are not exceptions:
  \<open>Terminate\<close> is \<^verbatim>\<open>std::terminate\<close>, \<open>NullAst\<close> is a null pointer where the code goes on with a
  node, \<open>OutOfFuel\<close> is the model's bound.
\<close>

datatype parse_error =
    ParserException string Location
  | ASTParseError string
  | OutOfRange string
  | FromLexer lex_error
  | FromRef ref_error
  | Terminate
  | NullAst
  | OutOfFuel

fun ParserException_what :: "string \<Rightarrow> Location \<Rightarrow> string" where
  "ParserException_what msg loc =
     loc_file loc @ '':'' @ to_string_nat (loc_line loc) @ '':'' @ to_string_nat (loc_column loc) @
     (if loc_column_end loc \<noteq> loc_column loc then ''-'' @ to_string_nat (loc_column_end loc)
      else '''') @ '' '' @ ''Parser'' @ '' error: '' @ msg"

text \<open>\<^verbatim>\<open>what()\<close>, of the failures that are exceptions.\<close>

fun parse_what :: "parse_error \<Rightarrow> string option" where
  "parse_what (ParserException msg loc) = Some (ParserException_what msg loc)"
| "parse_what (ASTParseError msg) = Some msg"
| "parse_what (OutOfRange msg) = Some msg"
| "parse_what (FromLexer e) = Some (LexerException_what e)"
| "parse_what (FromRef e) = Some (ref_error_what e)"
| "parse_what _ = None"

definition Unexpected :: "Token \<Rightarrow> string \<Rightarrow> parse_error" where
  "Unexpected tok msg =
     (case TokenTypeToString (tok_type tok) of
        None \<Rightarrow> Terminate
      | Some ty \<Rightarrow>
          ParserException
            (tok_file tok @ ''('' @ to_string_nat (tok_line tok) @ '':'' @
             to_string_nat (tok_column tok) @ '')'' @ '' unexpected '' @ ''('' @ ty @ '':'' @
             tok_value tok @ '')'' @ '' while '' @ msg) no_location)"

section \<open>The token stream\<close>

record token_stream =
  ts_tokens :: "Token list"
  ts_pos :: nat

definition ts_Advance :: "token_stream \<Rightarrow> token_stream" where
  "ts_Advance s = s\<lparr>ts_pos := ts_pos s + 1\<rparr>"

definition ts_Size :: "token_stream \<Rightarrow> nat" where
  "ts_Size s = (if ts_pos s > length (ts_tokens s) then 0 else length (ts_tokens s) - ts_pos s)"

definition ts_Peek :: "token_stream \<Rightarrow> parse_error + Token" where
  "ts_Peek s =
     (if ts_Size s < 1 then Inl (OutOfRange ''No token available'')
      else Inr (ts_tokens s ! ts_pos s))"

definition ts_PeekNext :: "token_stream \<Rightarrow> parse_error + Token" where
  "ts_PeekNext s =
     (if ts_Size s < 2 then Inl (OutOfRange ''No next token available'')
      else Inr (ts_tokens s ! (ts_pos s + 1)))"

definition ts_Pop :: "token_stream \<Rightarrow> parse_error + (Token \<times> token_stream)" where
  "ts_Pop s = bindE (ts_Peek s) (\<lambda>tok. Inr (tok, ts_Advance s))"

definition ts_PopCheck ::
  "TokenType \<Rightarrow> string option \<Rightarrow> token_stream \<Rightarrow> parse_error + (Token \<times> token_stream)" where
  "ts_PopCheck token_type data s =
     bindE (ts_Pop s) (\<lambda>(token, s').
       let at = ''('' @ to_string_nat (tok_line token) @ '':'' @
                to_string_nat (tok_column token) @ '')''
       in if tok_type token \<noteq> token_type
          then case (TokenTypeToString token_type, TokenTypeToString (tok_type token)) of
                 (Some want, Some got) \<Rightarrow>
                   Inl (ASTParseError (at @ ''expecting token '' @ want @ '' but got '' @ got))
               | _ \<Rightarrow> Inl Terminate
          else case data of
                 Some d \<Rightarrow>
                   if tok_value token \<noteq> d
                   then Inl (ASTParseError
                     (at @ ''expecting value '' @ d @ '' but got '' @ tok_value token))
                   else Inr (token, s')
               | None \<Rightarrow> Inr (token, s'))"

section \<open>Environment, locations and operators\<close>

record parser_env =
  env_reader :: "FileLocation \<Rightarrow> string \<Rightarrow> string option \<Rightarrow> FileData option"
  env_chain :: "FileLocation list"
  env_json :: json_lib
  env_import :: "FileData \<Rightarrow> parse_error + ast"

text \<open>\<^verbatim>\<open>import_chain_.back()\<close>; the chain is never empty while parsing.\<close>

definition origin :: "parser_env \<Rightarrow> FileLocation" where
  "origin env = last (env_chain env)"

definition kApplyPriority :: nat where "kApplyPriority = 2"
definition kUnaryPriority :: nat where "kUnaryPriority = 4"
definition kMaxPriority :: nat where "kMaxPriority = 15"

definition OpIsBinary :: "string \<Rightarrow> BinaryOp option" where
  "OpIsBinary opr = map_of
     [(''-'', OpPlus), (''+'', OpPlus), (''=='', OpEqual), (''!='', OpEqual), (''&&'', OpAnd),
      (''||'', OpOr), (''*'', OpMultiplication)] opr"

definition OpIsUnary :: "string \<Rightarrow> UnaryOp option" where
  "OpIsUnary opr = map_of [(''!'', OpNot), (''-'', OpMinus)] opr"

fun kPrecedenceMap :: "BinaryOp \<Rightarrow> nat" where
  "kPrecedenceMap OpPlus = 6"
| "kPrecedenceMap OpEqual = 9"
| "kPrecedenceMap OpAnd = 10"
| "kPrecedenceMap OpOr = 14"
| "kPrecedenceMap OpMultiplication = 5"

text \<open>The three overloads of \<^verbatim>\<open>CreateLocation\<close>; the third throws on a null node.\<close>

definition location_at :: "Token \<Rightarrow> FileLocation \<Rightarrow> Location" where
  "location_at begin org =
     \<lparr>loc_file = tok_file begin, loc_line = tok_line begin, loc_column = tok_column begin,
      loc_column_end = tok_column begin, loc_content = fl_content org\<rparr>"

definition location_to :: "Token \<Rightarrow> Token \<Rightarrow> FileLocation \<Rightarrow> Location" where
  "location_to begin end_tok org =
     \<lparr>loc_file = tok_file begin, loc_line = tok_line begin, loc_column = tok_column begin,
      loc_column_end = (if tok_column begin \<le> tok_column end_tok then tok_column end_tok else 0),
      loc_content = fl_content org\<rparr>"

definition location_to_node :: "Token \<Rightarrow> ast \<Rightarrow> FileLocation \<Rightarrow> Location" where
  "location_to_node begin end_node org =
     \<lparr>loc_file = tok_file begin, loc_line = tok_line begin, loc_column = tok_column begin,
      loc_column_end = (if tok_column begin \<le> loc_column_end (GetLocation end_node)
                        then loc_column_end (GetLocation end_node) else 0),
      loc_content = fl_content org\<rparr>"

definition MakeOperationNode ::
  "Location \<Rightarrow> ast \<Rightarrow> ast \<Rightarrow> BinaryOp \<Rightarrow> bool \<Rightarrow> bool \<Rightarrow> ast" where
  "MakeOperationNode loc lhs rhs bop negate is_minus =
     (let (eval_type, rhs_node) =
            (case bop of
               OpEqual \<Rightarrow> (TyBool, rhs)
             | OpAnd \<Rightarrow> (TyBool, rhs)
             | OpOr \<Rightarrow> (TyBool, rhs)
             | OpMultiplication \<Rightarrow> (TyNumber, rhs)
             | OpPlus \<Rightarrow>
                 if is_minus then (TyNumber, mk_UnaryOperationNode loc OpMinus rhs None)
                 else (TyAny, rhs));
          node = mk_BinaryOperationNode loc bop lhs rhs_node (Some eval_type)
      in if negate then mk_UnaryOperationNode loc OpNot node None else node)"

section \<open>Arguments\<close>

type_synonym parse_fun = "nat \<Rightarrow> token_stream \<Rightarrow> parse_error + (ast \<times> token_stream)"

text \<open>
  One argument of \<open>ParseArgs\<close>: the name when it is followed by an equals sign, the value of
  the first token when that could have been a name, and the expression.
\<close>

record parsed_arg =
  arg_name :: "string option"
  arg_temp_name :: string
  arg_expr :: ast

fun args_loop ::
  "nat \<Rightarrow> parser_env \<Rightarrow> parse_fun \<Rightarrow> parsed_arg list \<Rightarrow> bool \<Rightarrow> bool \<Rightarrow> token_stream \<Rightarrow>
     parse_error + (parsed_arg list \<times> token_stream)" where
  "args_loop 0 env P params first got_comma s = Inl OutOfFuel"
| "args_loop (Suc n) env P params first got_comma s =
     bindE (ts_Peek s) (\<lambda>next.
       if tok_type next = PAREN_R then Inr (params, s)
       else if \<not> first \<and> \<not> got_comma
         then Inl (ParserException ''expect a comma before next field''
                (location_at next (origin env)))
       else
         bindE (if tok_type next \<in> {IDENTIFIER, STRING_SINGLE, STRING_DOUBLE}
                then bindE (ts_PeekNext s) (\<lambda>maybe_eq.
                  if tok_type maybe_eq = OPERATOR \<and> tok_value maybe_eq = ''=''
                  then Inr (Some (tok_value next), tok_value next, ts_Advance (ts_Advance s))
                  else Inr (None, tok_value next, s))
                else Inr (None, [], s)) (\<lambda>(name, temp_name, s1).
         bindE (P kMaxPriority s1) (\<lambda>(expr, s2).
         bindE (ts_Peek s2) (\<lambda>tok.
           let arg = \<lparr>arg_name = name, arg_temp_name = temp_name, arg_expr = expr\<rparr>
           in if tok_type tok = COMMA
              then args_loop n env P (params @ [arg]) False True (ts_Advance s2)
              else args_loop n env P (params @ [arg]) False False s2))))"

definition ParseArgs ::
  "parser_env \<Rightarrow> parse_fun \<Rightarrow> token_stream \<Rightarrow> parse_error + (parsed_arg list \<times> token_stream)" where
  "ParseArgs env P s = args_loop (Suc (ts_Size s)) env P [] True False s"

definition func_param :: "parsed_arg \<Rightarrow> string \<times> ast option" where
  "func_param a =
     (case arg_name a of Some name \<Rightarrow> (name, Some (arg_expr a)) | None \<Rightarrow> (arg_temp_name a, None))"

definition call_param :: "parsed_arg \<Rightarrow> string option \<times> ast" where
  "call_param a = (arg_name a, arg_expr a)"

definition ParseFuncArgs ::
  "parser_env \<Rightarrow> parse_fun \<Rightarrow> token_stream \<Rightarrow>
     parse_error + ((string \<times> ast option) list \<times> token_stream)" where
  "ParseFuncArgs env P s = bindE (ParseArgs env P s) (\<lambda>(as, s'). Inr (map func_param as, s'))"

definition ParseCallArgs ::
  "parser_env \<Rightarrow> parse_fun \<Rightarrow> token_stream \<Rightarrow>
     parse_error + ((string option \<times> ast) list \<times> token_stream)" where
  "ParseCallArgs env P s = bindE (ParseArgs env P s) (\<lambda>(as, s'). Inr (map call_param as, s'))"

section \<open>Contents of braces\<close>

datatype FieldState = FirstField | ExpectingFieldOrClose | ExpectingCommaOrClose

text \<open>
  The lambda \<^verbatim>\<open>parse_fields\<close>: one field whose first token is \<open>tok\<close>. It returns the entry, the
  identifiers seen and the token after the field. The left-hand side comes first.
\<close>

definition parse_field_lhs ::
  "parser_env \<Rightarrow> parse_fun \<Rightarrow> Location \<Rightarrow> string list \<Rightarrow> Token \<Rightarrow> token_stream \<Rightarrow>
     parse_error + ((ast \<times> string list) \<times> token_stream)" where
  "parse_field_lhs env P loc seen tok s =
     (if tok_type tok \<in> {IDENTIFIER, STRING_SINGLE, STRING_DOUBLE, TEXT_BLOCK}
      then if tok_value tok \<in> set seen
           then Inl (ParserException ''Duplicate identifier found'' loc)
           else Inr ((mk_StringNode loc (tok_value tok), tok_value tok # seen), ts_Advance s)
      else if tok_type tok = REF_STRING
        then case DecodeRefString (env_json env) (tok_value tok) CtxTarget of
               Inl e \<Rightarrow> Inl (FromRef e)
             | Inr data \<Rightarrow> Inr ((mk_RefNode loc data, seen), ts_Advance s)
      else if tok_type tok = VAR_STRING
        then Inr ((mk_VarNode loc (tok_value tok) None, seen), ts_Advance s)
      else
        bindE (P kMaxPriority (ts_Advance s)) (\<lambda>(lhs, s1).
        bindE (ts_PopCheck BRACKET_R None s1) (\<lambda>(_, s2).
        Inr ((lhs, seen), s2))))"

definition parse_field ::
  "parser_env \<Rightarrow> parse_fun \<Rightarrow> Token \<Rightarrow> string list \<Rightarrow> Token \<Rightarrow> token_stream \<Rightarrow>
     parse_error + (((ast \<times> ast) \<times> string list \<times> Token) \<times> token_stream)" where
  "parse_field env P begin seen tok s =
     (if tok_type tok \<in> {BRACKET_L, IDENTIFIER, STRING_SINGLE, STRING_DOUBLE, REF_STRING,
                         VAR_STRING, TEXT_BLOCK}
      then
        let loc = location_to begin tok (origin env)
        in bindE (parse_field_lhs env P loc seen tok s) (\<lambda>((lhs, seen'), s1).
           bindE (ts_Peek s1) (\<lambda>paren.
           bindE (if tok_type paren = PAREN_L
                  then bindE (ParseFuncArgs env P (ts_Advance s1)) (\<lambda>(params, s2).
                       bindE (ts_PopCheck PAREN_R None s2) (\<lambda>(_, s3).
                       Inr (Some params, s3)))
                  else Inr (None, s1)) (\<lambda>(func, s3).
           bindE (ts_PopCheck OPERATOR None s3) (\<lambda>(colon, s4).
             if tok_value colon \<noteq> '':''
             then Inl (ParserException ''Expecting a colon after lhs.''
                    (location_at colon (origin env)))
             else
               bindE (P kMaxPriority s4) (\<lambda>(value, s5).
               bindE (ts_Peek s5) (\<lambda>tok'.
                 let rhs = (case func of Some params \<Rightarrow> mk_FuncNode loc params value
                                       | None \<Rightarrow> value)
                 in Inr (((lhs, rhs), seen', tok'), s5)))))))
      else Inl (Unexpected tok ''parsing field definition''))"

text \<open>The call that a map comprehension becomes: the builtin union of the singleton maps.\<close>

definition make_union :: "Location \<Rightarrow> ast \<Rightarrow> ast" where
  "make_union loc foreach =
     mk_CallNode loc (CallBuiltin (mk_BuiltinNode ''union'')) (Some [(Some ''maps'', foreach)])"

fun content_loop ::
  "nat \<Rightarrow> parser_env \<Rightarrow> parse_fun \<Rightarrow> Token \<Rightarrow> (ast \<times> ast) list \<Rightarrow> string list \<Rightarrow> FieldState \<Rightarrow>
     token_stream \<Rightarrow> parse_error + (ast \<times> token_stream)" where
  "content_loop 0 env P begin entries seen field_state s = Inl OutOfFuel"
| "content_loop (Suc n) env P begin entries seen field_state s =
     bindE (ts_Peek s) (\<lambda>tok.
       if tok_type tok = BRACE_R
       then Inr (mk_MapNode (location_at tok (origin env)) entries,
                 if ts_Size s > 1 then ts_Advance s else s)
       else if tok_type tok = FOR
         then
           bindE (ts_PopCheck IDENTIFIER None (ts_Advance s)) (\<lambda>(id_tok, s1).
           bindE (ts_PopCheck IN None s1) (\<lambda>(_, s2).
           bindE (P kMaxPriority s2) (\<lambda>(rng, s3).
           bindE (ts_PopCheck BRACE_R None s3) (\<lambda>(_, s4).
             let loc = location_to_node tok rng (origin env)
             in Inr (make_union loc
                       (mk_ForEachNode loc (tok_value id_tok) rng (mk_MapNode loc entries)),
                     s4)))))
       else if field_state = ExpectingCommaOrClose
         then Inl (ParserException ''expected a comma before next field.''
                (location_at tok (origin env)))
       else
         bindE (parse_field env P begin seen tok s) (\<lambda>((entry, seen', tok'), s1).
           if tok_type tok' = COMMA
           then content_loop n env P begin (entries @ [entry]) seen' ExpectingFieldOrClose
                  (ts_Advance s1)
           else content_loop n env P begin (entries @ [entry]) seen' ExpectingCommaOrClose s1))"

definition ParseContent ::
  "parser_env \<Rightarrow> parse_fun \<Rightarrow> Token \<Rightarrow> token_stream \<Rightarrow> parse_error + (ast \<times> token_stream)" where
  "ParseContent env P begin s = content_loop (Suc (ts_Size s)) env P begin [] [] FirstField s"

section \<open>Terminals, brackets and parentheses\<close>

fun list_loop ::
  "nat \<Rightarrow> parser_env \<Rightarrow> parse_fun \<Rightarrow> ast list \<Rightarrow> bool \<Rightarrow> token_stream \<Rightarrow>
     parse_error + (ast \<times> token_stream)" where
  "list_loop 0 env P items got_comma s = Inl OutOfFuel"
| "list_loop (Suc n) env P items got_comma s =
     bindE (ts_Peek s) (\<lambda>tok.
       if tok_type tok = BRACKET_R
       then bindE (ts_Peek (ts_Advance s)) (\<lambda>after.
              Inr (mk_ListNode (location_to tok after (origin env)) items, ts_Advance s))
       else if \<not> got_comma
         then Inl (ParserException ''expected a comma before next array element.''
                (location_at tok (origin env)))
       else
         bindE (P kMaxPriority s) (\<lambda>(expr, s1).
         bindE (ts_Peek s1) (\<lambda>tok'.
           if tok_type tok' = COMMA
           then list_loop n env P (items @ [expr]) True (ts_Advance s1)
           else list_loop n env P (items @ [expr]) got_comma s1)))"

text \<open>
  After an opening bracket: the empty list, or a first expression followed by a comprehension
  or by the rest of a list.
\<close>

definition ParseBracketRest ::
  "parser_env \<Rightarrow> parse_fun \<Rightarrow> ast \<Rightarrow> token_stream \<Rightarrow> parse_error + (ast \<times> token_stream)" where
  "ParseBracketRest env P first s =
     bindE (ts_Peek s) (\<lambda>tok.
       if tok_type tok = COMMA
         then list_loop (Suc (ts_Size (ts_Advance s))) env P [first] True (ts_Advance s)
       else if tok_type tok = FOR
         then
           bindE (ts_PopCheck IDENTIFIER None (ts_Advance s)) (\<lambda>(id_tok, s1).
           bindE (ts_PopCheck IN None s1) (\<lambda>(_, s2).
           bindE (P kMaxPriority s2) (\<lambda>(rng, s3).
           bindE (ts_PopCheck BRACKET_R None s3) (\<lambda>(_, s4).
           bindE (ts_Peek s4) (\<lambda>after.
           Inr (mk_ForEachNode (location_to tok after (origin env)) (tok_value id_tok) rng first,
                s4))))))
       else list_loop (Suc (ts_Size s)) env P [first] False s)"

definition ParseBracket ::
  "parser_env \<Rightarrow> parse_fun \<Rightarrow> token_stream \<Rightarrow> parse_error + (ast \<times> token_stream)" where
  "ParseBracket env P s =
     bindE (ts_Peek s) (\<lambda>tok.
       if tok_type tok = BRACKET_R
       then Inr (mk_ListNode (location_at tok (origin env)) [], ts_Advance s)
       else bindE (P kMaxPriority s) (\<lambda>(first, s1). ParseBracketRest env P first s1))"

definition ParseUnary ::
  "parser_env \<Rightarrow> parse_fun \<Rightarrow> Token \<Rightarrow> token_stream \<Rightarrow> parse_error + (ast \<times> token_stream)" where
  "ParseUnary env P tok s =
     (case OpIsUnary (tok_value tok) of
        None \<Rightarrow>
          Inl (ParserException
            (''only support unary operator '' @ [CHR 0x22] @ ''!'' @ [CHR 0x22] @ '' and '' @
             [CHR 0x22] @ ''-'' @ [CHR 0x22] @ '', but got:'' @ tok_value tok)
            (location_at tok (origin env)))
      | Some uop \<Rightarrow>
          bindE (P kUnaryPriority s) (\<lambda>(expr, s1).
          Inr (mk_UnaryOperationNode (location_to_node tok expr (origin env)) uop expr
                 (Some (case uop of OpNot \<Rightarrow> TyBool | OpMinus \<Rightarrow> TyNumber)), s1)))"

definition ParseLiteral ::
  "parser_env \<Rightarrow> Token \<Rightarrow> token_stream \<Rightarrow> parse_error + (ast \<times> token_stream)" where
  "ParseLiteral env tok s =
     (let loc = location_at tok (origin env)
      in case tok_type tok of
           FLOAT \<Rightarrow> (case stod (tok_value tok) of Some d \<Rightarrow> Inr (mk_NumberNode loc (double_word d), s)
                                              | None \<Rightarrow> Inl (OutOfRange ''stod''))
         | INTEGER \<Rightarrow> (case stod (tok_value tok) of Some d \<Rightarrow> Inr (mk_NumberNode loc (double_word d), s)
                                                | None \<Rightarrow> Inl (OutOfRange ''stod''))
         | NUMBER \<Rightarrow> (case stod (tok_value tok) of Some d \<Rightarrow> Inr (mk_NumberNode loc (double_word d), s)
                                               | None \<Rightarrow> Inl (OutOfRange ''stod''))
         | STRING_SINGLE \<Rightarrow> Inr (mk_StringNode loc (tok_value tok), s)
         | STRING_DOUBLE \<Rightarrow> Inr (mk_StringNode loc (tok_value tok), s)
         | TEXT_BLOCK \<Rightarrow> Inr (mk_StringNode loc (tok_value tok), s)
         | REF_STRING \<Rightarrow>
             (case DecodeRefString (env_json env) (tok_value tok) CtxTarget of
                Inl e \<Rightarrow> Inl (FromRef e)
              | Inr data \<Rightarrow> Inr (mk_RefNode loc data, s))
         | VAR_STRING \<Rightarrow> Inr (mk_VarNode loc (tok_value tok) None, s)
         | FALSE \<Rightarrow> Inr (mk_BoolNode loc False, s)
         | TRUE \<Rightarrow> Inr (mk_BoolNode loc True, s)
         | NULL_LIT \<Rightarrow> Inr (mk_NullNode loc, s)
         | IDENTIFIER \<Rightarrow> Inr (mk_CallNode loc (CallIdentifier (tok_value tok)) None, s)
         | _ \<Rightarrow> Inl NullAst)"

definition ParseSimple ::
  "parser_env \<Rightarrow> parse_fun \<Rightarrow> token_stream \<Rightarrow> parse_error + (ast \<times> token_stream)" where
  "ParseSimple env P s =
     bindE (ts_Pop s) (\<lambda>(tok, s1).
       if tok_type tok \<in> {ASSERT, BRACE_R, BRACKET_R, COMMA, DOT, ELSE, ERROR, FOR, FUNCTION,
            IF, IN, IMPORT, PAREN_R, SEMICOLON, THEN_KW}
       then Inl (Unexpected tok ''parsing terminal'')
       else if tok_type tok = OPERATOR then ParseUnary env P tok s1
       else if tok_type tok = BRACE_L
         then bindE (ts_Peek s1) (\<lambda>begin. ParseContent env P begin s1)
       else if tok_type tok = BRACKET_L then ParseBracket env P s1
       else if tok_type tok = PAREN_L
         then bindE (P kMaxPriority s1) (\<lambda>(body, s2).
              bindE (ts_PopCheck PAREN_R None s2) (\<lambda>(_, s3). Inr (body, s3)))
       else ParseLiteral env tok s1)"

declare args_loop.simps [simp del] content_loop.simps [simp del] list_loop.simps [simp del]

section \<open>Infix operators, lookups and calls\<close>

text \<open>\<open>True\<close> when a positional argument follows a named one.\<close>

fun positional_after_named :: "bool \<Rightarrow> (string option \<times> ast) list \<Rightarrow> bool" where
  "positional_after_named got_named [] = False"
| "positional_after_named got_named ((name, e) # args) =
     (if name \<noteq> None then positional_after_named True args
      else got_named \<or> positional_after_named got_named args)"

text \<open>
  The first switch of \<open>ParseInfix\<close>: \<open>None\<close> ends the expression, otherwise the operator (of a
  lookup or call, the initial \<open>OpPlus\<close>) and its priority.
\<close>

definition infix_class :: "Token \<Rightarrow> parse_error + (BinaryOp \<times> nat) option" where
  "infix_class tok =
     (if tok_type tok \<in> {IN, OPERATOR}
      then if tok_value tok = '':'' \<or> tok_value tok = ''::'' then Inr None
           else (case OpIsBinary (tok_value tok) of
                   None \<Rightarrow> Inl (ParserException (''not a binary operator: '' @ tok_value tok)
                            no_location)
                 | Some bop \<Rightarrow> Inr (Some (bop, kPrecedenceMap bop)))
      else if tok_type tok \<in> {DOT, BRACKET_L, PAREN_L, BRACE_L}
        then Inr (Some (OpPlus, kApplyPriority))
      else Inr None)"

definition infix_index ::
  "parser_env \<Rightarrow> parse_fun \<Rightarrow> ast \<Rightarrow> Token \<Rightarrow> token_stream \<Rightarrow>
     parse_error + (ast \<times> token_stream)" where
  "infix_index env P lhs begin s =
     bindE (ts_Peek s) (\<lambda>tok.
       if tok_type tok = BRACE_R
       then Inl (ParserException ''unexpected bracket_r when parsing index'' no_location)
       else
         bindE (if tok_value tok \<noteq> '':'' \<and> tok_value tok \<noteq> ''::''
                then bindE (P kMaxPriority s) (\<lambda>(e, s1). Inr (Some e, s1))
                else Inr (None, s)) (\<lambda>(target, s1).
         bindE (ts_Peek s1) (\<lambda>tok1.
           if tok_type tok1 = OPERATOR \<and> tok_value tok1 = ''::'' \<or> tok_type tok1 \<noteq> BRACKET_R
           then Inl (ParserException ''does not support slice'' no_location)
           else
             bindE (ts_PopCheck BRACKET_R None s1) (\<lambda>(_, s2).
             bindE (ts_Peek s2) (\<lambda>after.
               case target of
                 None \<Rightarrow> Inl NullAst
               | Some index \<Rightarrow>
                   Inr (mk_LookupNode (location_to begin after (origin env)) index lhs None,
                        s2))))))"

definition infix_dot ::
  "parser_env \<Rightarrow> ast \<Rightarrow> Token \<Rightarrow> token_stream \<Rightarrow> parse_error + (ast \<times> token_stream)" where
  "infix_dot env lhs begin s =
     bindE (ts_PopCheck IDENTIFIER None s) (\<lambda>(field_id, s1).
       let target = mk_StringNode (location_at field_id (origin env)) (tok_value field_id)
       in Inr (mk_LookupNode (location_to begin field_id (origin env)) target lhs None, s1))"

text \<open>A call whose callee is itself a call node takes over the callee's target.\<close>

definition infix_call ::
  "parser_env \<Rightarrow> parse_fun \<Rightarrow> ast \<Rightarrow> Token \<Rightarrow> token_stream \<Rightarrow>
     parse_error + (ast \<times> token_stream)" where
  "infix_call env P lhs begin s =
     bindE (ParseCallArgs env P s) (\<lambda>(params, s1).
     bindE (if ts_Size s1 \<ge> 2
            then bindE (ts_PopCheck PAREN_R None s1) (\<lambda>(_, s2). Inr s2)
            else Inr s1) (\<lambda>s2.
     bindE (ts_Peek s2) (\<lambda>tok.
       if positional_after_named False params
       then Inl (ParserException ''Positional argument after a named argument is not allowed''
              (location_at tok (origin env)))
       else
         let target = (case lhs of CallNode _ target _ \<Rightarrow> target | _ \<Rightarrow> CallExpr lhs)
         in Inr (mk_CallNode (location_to begin tok (origin env)) target (Some params), s2))))"

definition infix_operator ::
  "parser_env \<Rightarrow> parse_fun \<Rightarrow> ast \<Rightarrow> Token \<Rightarrow> Token \<Rightarrow> BinaryOp \<Rightarrow> nat \<Rightarrow> token_stream \<Rightarrow>
     parse_error + (ast \<times> token_stream)" where
  "infix_operator env P lhs begin next bop op_priority s =
     (let negate = (bop = OpEqual \<and> tok_value next = ''!='');
          is_minus = (bop = OpPlus \<and> tok_value next = ''-'')
      in bindE (P op_priority s) (\<lambda>(rhs, s1).
           Inr (MakeOperationNode (location_to_node begin rhs (origin env)) lhs rhs bop negate
                  is_minus, s1)))"

fun infix_loop ::
  "nat \<Rightarrow> parser_env \<Rightarrow> parse_fun \<Rightarrow> ast \<Rightarrow> Token \<Rightarrow> nat \<Rightarrow> token_stream \<Rightarrow>
     parse_error + (ast \<times> token_stream)" where
  "infix_loop 0 env P lhs begin max_priority s = Inl OutOfFuel"
| "infix_loop (Suc n) env P lhs begin max_priority s =
     (if ts_Size s < 2 then Inr (lhs, s)
      else
        bindE (ts_Peek s) (\<lambda>next.
        bindE (infix_class next) (\<lambda>cls.
          case cls of
            None \<Rightarrow> Inr (lhs, s)
          | Some (bop, op_priority) \<Rightarrow>
              if op_priority \<ge> max_priority then Inr (lhs, s)
              else
                bindE (if tok_type next = BRACKET_L then infix_index env P lhs begin (ts_Advance s)
                       else if tok_type next = DOT then infix_dot env lhs begin (ts_Advance s)
                       else if tok_type next = PAREN_L
                         then infix_call env P lhs begin (ts_Advance s)
                       else if tok_type next \<in> {IN, OPERATOR}
                         then infix_operator env P lhs begin next bop op_priority (ts_Advance s)
                       else Inl (ParserException ''should not be here''
                              (location_at next (origin env))))
                  (\<lambda>(lhs', s'). infix_loop n env P lhs' next max_priority s'))))"

declare infix_loop.simps [simp del]

definition ParseInfix ::
  "parser_env \<Rightarrow> parse_fun \<Rightarrow> ast \<Rightarrow> Token \<Rightarrow> nat \<Rightarrow> token_stream \<Rightarrow>
     parse_error + (ast \<times> token_stream)" where
  "ParseInfix env P prev_node curr_token max_priority s =
     infix_loop (Suc (ts_Size s)) env P prev_node curr_token max_priority s"

section \<open>Local definitions, imports, functions and conditionals\<close>

text \<open>
  The check for a duplicate identifier in the source looks into a set that is empty at that
  point, so it never fails and is left out.
\<close>

definition ParseLocal ::
  "parser_env \<Rightarrow> parse_fun \<Rightarrow> Token \<Rightarrow> token_stream \<Rightarrow> parse_error + (ast \<times> token_stream)" where
  "ParseLocal env P begin s =
     bindE (ts_PopCheck IDENTIFIER None s) (\<lambda>(idf, s1).
     bindE (ts_Peek s1) (\<lambda>tok.
     bindE (if tok_type tok = PAREN_L
            then
              bindE (ParseFuncArgs env P (ts_Advance s1)) (\<lambda>(params, s2).
              bindE (ts_PopCheck OPERATOR (Some ''='') (ts_Advance s2)) (\<lambda>(_, s3).
              bindE (P kMaxPriority s3) (\<lambda>(body, s4).
              bindE (ts_PopCheck SEMICOLON None s4) (\<lambda>(_, s5).
              Inr ((Some params, body), s5)))))
            else if tok_type tok = OPERATOR \<and> tok_value tok = ''=''
            then
              bindE (P kMaxPriority (ts_Advance s1)) (\<lambda>(body, s2).
              bindE (ts_PopCheck SEMICOLON None s2) (\<lambda>(_, s3).
              Inr ((None, body), s3)))
            else Inl (ParserException ''Expecting PAREN_L or = but got''
                   (location_at tok (origin env)))) (\<lambda>((func, body), s2).
       let loc = location_to_node begin body (origin env)
       in bindE (P kMaxPriority s2) (\<lambda>(next, s3).
            let val = (case func of Some params \<Rightarrow> mk_FuncNode loc params body | None \<Rightarrow> body)
            in Inr (mk_LetNode loc (tok_value idf) val next, s3)))))"

text \<open>
  The build does not define \<^verbatim>\<open>SUPPORT_IMPORT_VIA_EXT_REF\<close>, so a reference string throws. Of
  the two arguments of the node, the location is taken to be evaluated first.
\<close>

definition ParseImport ::
  "parser_env \<Rightarrow> Token \<Rightarrow> token_stream \<Rightarrow> parse_error + (ast \<times> token_stream)" where
  "ParseImport env begin s =
     bindE (ts_Pop s) (\<lambda>(tok, s1).
     bindE (if tok_type tok = STRING_SINGLE \<or> tok_type tok = STRING_DOUBLE
            then Inr (tok_value tok)
            else if tok_type tok = REF_STRING
              then Inl (ParserException ''Imports from ref-strings are not supported.''
                     no_location)
            else Inl (ParserException ''Only imports from plain path are supported.''
                   no_location)) (\<lambda>file.
       case env_reader env (origin env) file None of
         None \<Rightarrow> Inl (ParserException ''Failed to import file'' no_location)
       | Some data \<Rightarrow>
           bindE (ts_Peek s1) (\<lambda>after.
           bindE (env_import env data) (\<lambda>expr.
           Inr (mk_ForeignNode (location_to begin after (origin env)) expr, s1)))))"

definition ParseFunction ::
  "parser_env \<Rightarrow> parse_fun \<Rightarrow> Token \<Rightarrow> token_stream \<Rightarrow> parse_error + (ast \<times> token_stream)" where
  "ParseFunction env P begin s =
     bindE (ts_Pop s) (\<lambda>(next, s1).
       if tok_type next = PAREN_L
       then
         bindE (ParseFuncArgs env P s1) (\<lambda>(params, s2).
         bindE (P kMaxPriority (ts_Advance s2)) (\<lambda>(body, s3).
         Inr (mk_FuncNode (location_to_node begin body (origin env)) params body, s3)))
       else Inl (ParserException ''Expecting a PAREN_L instead.'' (location_at next (origin env))))"

definition ParseIf ::
  "parser_env \<Rightarrow> parse_fun \<Rightarrow> Token \<Rightarrow> token_stream \<Rightarrow> parse_error + (ast \<times> token_stream)" where
  "ParseIf env P begin s =
     bindE (P kMaxPriority s) (\<lambda>(cond, s1).
     bindE (ts_PopCheck THEN_KW None s1) (\<lambda>(_, s2).
     bindE (P kMaxPriority s2) (\<lambda>(branch_true, s3).
     bindE (ts_Peek s3) (\<lambda>tok.
       if tok_type tok = ELSE
       then
         bindE (P kMaxPriority (ts_Advance s3)) (\<lambda>(branch_false, s4).
         Inr (mk_IfNode (location_to_node begin branch_false (origin env)) cond
                (Some branch_true) (Some branch_false), s4))
       else Inr (mk_IfNode (location_to_node begin branch_true (origin env)) cond
                   (Some branch_true) None, s3)))))"

text \<open>\<open>None\<close> is the null pointer that tells \<open>Parse\<close> to go on with an expression.\<close>

definition ParseLocalImport ::
  "parser_env \<Rightarrow> parse_fun \<Rightarrow> token_stream \<Rightarrow> parse_error + (ast \<times> token_stream) option" where
  "ParseLocalImport env P s =
     bindE (ts_Peek s) (\<lambda>begin.
       if tok_type begin = LOCAL
         then bindE (ParseLocal env P begin (ts_Advance s)) (\<lambda>r. Inr (Some r))
       else if tok_type begin = IMPORT
         then bindE (ParseImport env begin (ts_Advance s)) (\<lambda>r. Inr (Some r))
       else if tok_type begin = FUNCTION
         then bindE (ParseFunction env P begin (ts_Advance s)) (\<lambda>r. Inr (Some r))
       else if tok_type begin = IF
         then bindE (ParseIf env P begin (ts_Advance s)) (\<lambda>r. Inr (Some r))
       else Inr None)"

section \<open>Expressions and files\<close>

definition parse_step :: "parser_env \<Rightarrow> parse_fun \<Rightarrow> parse_fun" where
  "parse_step env P priority s =
     bindE (ParseLocalImport env P s) (\<lambda>found.
       case found of
         Some r \<Rightarrow> Inr r
       | None \<Rightarrow>
           bindE (ts_Peek s) (\<lambda>begin.
           bindE (ParseSimple env P s) (\<lambda>(lhs, s').
           ParseInfix env P lhs begin priority s')))"

fun Parse :: "nat \<Rightarrow> parser_env \<Rightarrow> parse_fun" where
  "Parse 0 env priority s = Inl OutOfFuel"
| "Parse (Suc n) env priority s = parse_step env (Parse n env) priority s"

text \<open>Position of a file in the import chain, as \<^verbatim>\<open>std::find\<close> gives it.\<close>

fun chain_find :: "FileLocation list \<Rightarrow> FileLocation \<Rightarrow> nat option" where
  "chain_find [] loc = None"
| "chain_find (x # xs) loc =
     (if FileLocation_eq x loc then Some 0 else map_option Suc (chain_find xs loc))"

text \<open>The drawing of the cycle in the error message; \<open>i\<close> is the position of the iterator.\<close>

definition cycle_message :: "json_lib \<Rightarrow> FileLocation list \<Rightarrow> nat \<Rightarrow> string option" where
  "cycle_message J chain i =
     (let line = (\<lambda>prefix loc. map_option (\<lambda>t. prefix @ t @ [CHR 0x0A]) (FileLocation_ToString J loc));
          tail = drop (i + 1) chain;
          parts = [line '',-> '' (chain ! i)] @
                  map (line ''|   '') (butlast tail) @
                  (if tail = [] then [Some (''`---'' @ [CHR 0x27, CHR 0x0A])]
                   else [line ''`-- '' (last tail)])
      in if None \<in> set parts then None else Some (concat (map the parts)))"

text \<open>
  \<open>ParseData\<close> without the handler, for the chain of the files being parsed: tokenize, look
  for a cycle, then parse the expression with the file pushed on the chain.
\<close>

definition parse_tokens ::
  "(FileLocation \<Rightarrow> string \<Rightarrow> string option \<Rightarrow> FileData option) \<Rightarrow> json_lib \<Rightarrow>
   (FileLocation list \<Rightarrow> FileData \<Rightarrow> parse_error + ast) \<Rightarrow> FileLocation list \<Rightarrow> FileData \<Rightarrow>
   parse_error + ast" where
  "parse_tokens rd J imp chain file_data =
     (case FileLocation_ToString J (fd_location file_data) of
        None \<Rightarrow> Inl Terminate
      | Some fname \<Rightarrow>
          (case lex fname (fd_content file_data) of
             Inl e \<Rightarrow> Inl (FromLexer e)
           | Inr toks \<Rightarrow>
               (case chain_find chain (fd_location file_data) of
                  Some i \<Rightarrow>
                    (case cycle_message J chain i of
                       None \<Rightarrow> Inl Terminate
                     | Some msg \<Rightarrow>
                         Inl (ParserException
                           (''Detected cycle in import chain.'' @ [CHR 0x0A] @ msg) no_location))
                | None \<Rightarrow>
                    let chain' = chain @ [fd_location file_data];
                        env = \<lparr>env_reader = rd, env_chain = chain', env_json = J,
                               env_import = imp chain'\<rparr>
                    in bindE (Parse (Suc (length toks)) env kMaxPriority
                                \<lparr>ts_tokens = toks, ts_pos = 0\<rparr>)
                         (\<lambda>(expr, _). Inr expr))))"

text \<open>The handler of \<open>ParseData\<close> turns every exception into an \<open>ASTParseError\<close>.\<close>

definition rethrow :: "parse_error + ast \<Rightarrow> parse_error + ast" where
  "rethrow r =
     (case r of
        Inr expr \<Rightarrow> Inr expr
      | Inl e \<Rightarrow> (case parse_what e of Some w \<Rightarrow> Inl (ASTParseError w) | None \<Rightarrow> Inl e))"

fun ParseData ::
  "nat \<Rightarrow> (FileLocation \<Rightarrow> string \<Rightarrow> string option \<Rightarrow> FileData option) \<Rightarrow> json_lib \<Rightarrow>
   FileLocation list \<Rightarrow> FileData \<Rightarrow> parse_error + ast" where
  "ParseData 0 rd J chain file_data = Inl OutOfFuel"
| "ParseData (Suc n) rd J chain file_data =
     rethrow (parse_tokens rd J (ParseData n rd J) chain file_data)"

end
