(* ===== verification/Jst_Parser_Props.thy ===== *)
theory Jst_Parser_Props
  imports Jst_Parser Jst_Lexer_Props Jst_Ref_Props
begin

text \<open>
  Correctness of the parser. The functions of the parser are verified against a contract of
  the \<open>Parse\<close> they call, the locale \<open>expression_parser\<close>: on a lexed stream that is short
  enough for its fuel it consumes a token and returns a consistent tree, or fails with an
  exception. \<open>Parse\<close> itself meets the contract, by induction on the fuel.
\<close>

named_theorems parse_rules \<open>rules that step through a parser function\<close>

section \<open>Streams and results\<close>

definition lexed :: "token_stream \<Rightarrow> bool" where
  "lexed s \<longleftrightarrow> (\<forall>t \<in> set (ts_tokens s). token_shape (tok_type t) (tok_value t))"

definition moves :: "token_stream \<Rightarrow> token_stream \<Rightarrow> bool" where
  "moves s s' \<longleftrightarrow> ts_tokens s' = ts_tokens s \<and> ts_pos s \<le> ts_pos s'"

text \<open>The failures that are exceptions or the abort that the code calls for.\<close>

definition genuine :: "parse_error \<Rightarrow> bool" where
  "genuine e \<longleftrightarrow> e \<noteq> OutOfFuel \<and> e \<noteq> NullAst"

definition parsed :: "('a \<Rightarrow> bool) \<Rightarrow> token_stream \<Rightarrow> parse_error + ('a \<times> token_stream) \<Rightarrow> bool" where
  "parsed Q s r \<longleftrightarrow> (case r of Inr (x, s') \<Rightarrow> Q x \<and> moves s s' | Inl e \<Rightarrow> genuine e)"

lemma ts_Advance_sel [simp]:
  "ts_tokens (ts_Advance s) = ts_tokens s" "ts_pos (ts_Advance s) = Suc (ts_pos s)"
  by (simp_all add: ts_Advance_def)

lemma moves_refl [simp, intro]: "moves s s"
  by (simp add: moves_def)

lemma moves_trans: "moves a b \<Longrightarrow> moves b c \<Longrightarrow> moves a c"
  by (simp add: moves_def)

lemma moves_Advance: "moves s (ts_Advance s)"
  by (simp add: moves_def)

lemma parsed_Inr [simp]: "parsed Q s (Inr (x, s')) \<longleftrightarrow> Q x \<and> moves s s'"
  by (simp add: parsed_def)

lemma parsed_Inl [simp]: "parsed Q s (Inl e) \<longleftrightarrow> genuine e"
  by (simp add: parsed_def)

lemma parsed_from: "moves s s1 \<Longrightarrow> parsed Q s1 r \<Longrightarrow> parsed Q s r"
  by (auto simp: parsed_def split: sum.splits intro: moves_trans)

lemma parsed_bind:
  assumes "parsed R s1 m" and "\<And>x s'. R x \<Longrightarrow> moves s1 s' \<Longrightarrow> parsed Q s (f (x, s'))"
  shows "parsed Q s (bindE m f)"
  using assms by (cases m) (auto simp: parsed_def)

lemma genuine_simps [simp]:
  "genuine (ParserException m l)" "genuine (ASTParseError m)" "genuine (OutOfRange m)"
  "genuine (FromLexer le)" "genuine (FromRef re)" "genuine Terminate"
  by (simp_all add: genuine_def)

lemma genuine_Unexpected [simp]: "genuine (Unexpected tok msg)"
  by (simp add: Unexpected_def split: option.split)

lemma Peek_cases:
  obtains "ts_Peek s = Inl (OutOfRange ''No token available'')"
    | tok where "ts_Peek s = Inr tok" "1 \<le> ts_Size s" "tok \<in> set (ts_tokens s)"
proof (cases "ts_Size s < 1")
  case True
  then show ?thesis using that(1) by (simp add: ts_Peek_def)
next
  case False
  then have "ts_pos s < length (ts_tokens s)" by (auto simp: ts_Size_def split: if_splits)
  with False show ?thesis using that(2) by (simp add: ts_Peek_def)
qed

lemma bind_Peek [parse_rules]:
  "(\<And>tok. 1 \<le> ts_Size s \<Longrightarrow> tok \<in> set (ts_tokens s) \<Longrightarrow> parsed Q s0 (f tok)) \<Longrightarrow>
     parsed Q s0 (bindE (ts_Peek s) f)"
  by (cases s rule: Peek_cases) auto

lemma bind_PeekNext [parse_rules]:
  "(\<And>tok. parsed Q s0 (f tok)) \<Longrightarrow> parsed Q s0 (bindE (ts_PeekNext s) f)"
  by (simp add: ts_PeekNext_def)

lemma bind_Pop [parse_rules]:
  "(\<And>tok. 1 \<le> ts_Size s \<Longrightarrow> tok \<in> set (ts_tokens s) \<Longrightarrow> parsed Q s0 (f (tok, ts_Advance s))) \<Longrightarrow>
     parsed Q s0 (bindE (ts_Pop s) f)"
  by (cases s rule: Peek_cases) (auto simp: ts_Pop_def)

lemma bind_PopCheck [parse_rules]:
  "(\<And>tok. 1 \<le> ts_Size s \<Longrightarrow> tok_type tok = ty \<Longrightarrow> parsed Q s0 (f (tok, ts_Advance s))) \<Longrightarrow>
     parsed Q s0 (bindE (ts_PopCheck ty d s) f)"
  by (cases s rule: Peek_cases)
     (auto simp: ts_PopCheck_def ts_Pop_def Let_def split: option.split)

lemma ts_Size_moves: "moves s s' \<Longrightarrow> ts_Size s' \<le> ts_Size s"
  by (auto simp: moves_def ts_Size_def)

lemma ts_Size_less: "moves (ts_Advance s) s' \<Longrightarrow> 1 \<le> ts_Size s \<Longrightarrow> ts_Size s' < ts_Size s"
  by (auto simp: moves_def ts_Size_def split: if_splits)

lemma parsed_if [parse_rules]:
  "(c \<Longrightarrow> parsed Q s x) \<Longrightarrow> (\<not> c \<Longrightarrow> parsed Q s y) \<Longrightarrow> parsed Q s (if c then x else y)"
  by simp

lemma bind_if [parse_rules]:
  "(c \<Longrightarrow> parsed Q s (bindE x f)) \<Longrightarrow> (\<not> c \<Longrightarrow> parsed Q s (bindE y f)) \<Longrightarrow>
     parsed Q s (bindE (if c then x else y) f)"
  by simp

lemma bindE_assoc: "bindE (bindE m g) f = bindE m (\<lambda>x. bindE (g x) f)"
  by (cases m) simp_all

lemma moves_skip: "moves s (if c then ts_Advance s else s)"
  by (simp add: moves_def)

text \<open>What \<open>Parse\<close> relies on of the imports: a consistent tree or a genuine failure.\<close>

definition imports_ok :: "parser_env \<Rightarrow> bool" where
  "imports_ok env \<longleftrightarrow>
     (\<forall>file data. env_reader env (origin env) file None = Some data \<longrightarrow>
        (case env_import env data of Inr e \<Rightarrow> wf_ast e | Inl e \<Rightarrow> genuine e))"

lemma bind_import:
  "imports_ok env \<Longrightarrow> env_reader env (origin env) file None = Some data \<Longrightarrow>
     (\<And>e. wf_ast e \<Longrightarrow> parsed Q s (f e)) \<Longrightarrow> parsed Q s (bindE (env_import env data) f)"
  by (cases "env_import env data") (auto simp: imports_ok_def split: sum.splits)

text \<open>The types that tokens never have.\<close>

lemma lexed_types:
  assumes "token_shape ty v"
  shows "ty \<notin> {DOLLAR, NUMBER, IMPORTSTR, IMPORTBIN, AT_SIGN, END_OF_FILE}"
proof
  assume *: "ty \<in> {DOLLAR, NUMBER, IMPORTSTR, IMPORTBIN, AT_SIGN, END_OF_FILE}"
  then have "map_of kSimpleTokens (hd v) = Some ty \<or> map_of kKeywords v = Some ty"
    using assms by (elim insertE) (simp_all add: token_shape_def MatchSimpleToken_def, blast+)
  then have "ty \<in> set (map snd kSimpleTokens @ map snd kKeywords)"
    using map_of_Some_range by (metis Un_iff set_append set_map)
  moreover have "list_all (\<lambda>ty. ty \<notin> {DOLLAR, NUMBER, IMPORTSTR, IMPORTBIN, AT_SIGN, END_OF_FILE})
      (map snd kSimpleTokens @ map snd kKeywords)"
    by code_simp
  ultimately show False using * unfolding list_all_iff by blast
qed

section \<open>The contract of Parse\<close>

locale expression_parser =
  fixes env :: parser_env and P :: parse_fun and n :: nat
  assumes parses: "imports_ok env \<Longrightarrow> lexed s \<Longrightarrow> ts_Size s < n \<Longrightarrow>
    parsed wf_ast (ts_Advance s) (P priority s)"
begin

definition avail :: "token_stream \<Rightarrow> bool" where
  "avail s \<longleftrightarrow> imports_ok env \<and> lexed s \<and> ts_Size s < n"

lemma avail_moves: "avail s \<Longrightarrow> moves s s' \<Longrightarrow> avail s'"
  using ts_Size_moves [of s s'] by (auto simp: avail_def lexed_def moves_def)

lemma avail_Advance: "avail s \<Longrightarrow> avail (ts_Advance s)"
  by (rule avail_moves [OF _ moves_Advance])

lemma avail_first:
  "imports_ok env \<Longrightarrow> lexed s \<Longrightarrow> ts_Size s \<le> n \<Longrightarrow> 1 \<le> ts_Size s \<Longrightarrow> avail (ts_Advance s)"
  using ts_Size_less [of s "ts_Advance s"] by (auto simp: avail_def lexed_def)

lemma bind_P [parse_rules]:
  assumes "avail s"
    and "\<And>e s'. wf_ast e \<Longrightarrow> moves (ts_Advance s) s' \<Longrightarrow> avail s' \<Longrightarrow> parsed Q s0 (f (e, s'))"
  shows "parsed Q s0 (bindE (P priority s) f)"
proof (rule parsed_bind)
  show "parsed wf_ast (ts_Advance s) (P priority s)"
    using assms(1) parses by (simp add: avail_def)
next
  fix e s' assume "wf_ast e" "moves (ts_Advance s) s'"
  with assms show "parsed Q s0 (f (e, s'))"
    by (blast intro: avail_moves avail_Advance)
qed

definition wf_arg :: "parsed_arg \<Rightarrow> bool" where
  "wf_arg a \<longleftrightarrow> wf_ast (arg_expr a)"

lemma args_loop_parsed:
  "avail s \<Longrightarrow> ts_Size s < k \<Longrightarrow> list_all wf_arg params \<Longrightarrow>
     parsed (list_all wf_arg) s (args_loop k env P params first got_comma s)"
proof (induction k arbitrary: params first got_comma s)
  case (Suc k)
  have step: "parsed (list_all wf_arg) s (args_loop k env P (params @ [a]) f g s2)"
    if "moves (ts_Advance s) s2" "wf_arg a" "1 \<le> ts_Size s" for s2 a f g
  proof -
    have "moves s s2" using that(1) by (simp add: moves_def)
    moreover have "ts_Size s2 < k" using ts_Size_less [OF that(1,3)] Suc.prems(2) by simp
    ultimately have "parsed (list_all wf_arg) s2 (args_loop k env P (params @ [a]) f g s2)"
      using Suc.IH [of s2 "params @ [a]"] Suc.prems that(2) avail_moves by simp
    with \<open>moves s s2\<close> show ?thesis by (rule parsed_from)
  qed
  have expr: "parsed (list_all wf_arg) s
      (bindE (P kMaxPriority s1) (\<lambda>(expr, s2). bindE (ts_Peek s2) (\<lambda>tok.
         let arg = \<lparr>arg_name = name, arg_temp_name = temp, arg_expr = expr\<rparr>
         in if tok_type tok = COMMA
            then args_loop k env P (params @ [arg]) False True (ts_Advance s2)
            else args_loop k env P (params @ [arg]) False False s2)))"
    if "moves s s1" "1 \<le> ts_Size s" for s1 name temp
    using avail_moves [OF Suc.prems(1) that(1)] that
    by (auto intro!: parse_rules step simp: Let_def wf_arg_def moves_def)
  show ?case
    using Suc.prems(1,3)
    by (auto intro!: bind_Peek expr simp: args_loop.simps ts_PeekNext_def moves_def)
qed simp

lemma ParseArgs_parsed: "avail s \<Longrightarrow> parsed (list_all wf_arg) s (ParseArgs env P s)"
  unfolding ParseArgs_def by (rule args_loop_parsed) simp_all

lemma bind_ParseFuncArgs [parse_rules]:
  assumes "avail s"
    and "\<And>ps s'. \<forall>p \<in> set ps. (case snd p of None \<Rightarrow> True | Some e \<Rightarrow> wf_ast e) \<Longrightarrow> moves s s' \<Longrightarrow>
      avail s' \<Longrightarrow> parsed Q s0 (f (ps, s'))"
  shows "parsed Q s0 (bindE (ParseFuncArgs env P s) f)"
proof -
  have "parsed (\<lambda>ps. \<forall>p \<in> set ps. case snd p of None \<Rightarrow> True | Some e \<Rightarrow> wf_ast e) s
      (ParseFuncArgs env P s)"
    unfolding ParseFuncArgs_def
    by (rule parsed_bind [OF ParseArgs_parsed [OF assms(1)]])
       (auto simp: list_all_iff wf_arg_def func_param_def split: option.splits)
  then show ?thesis by (rule parsed_bind) (use assms avail_moves in blast)
qed

lemma bind_ParseCallArgs [parse_rules]:
  assumes "avail s"
    and "\<And>ps s'. \<forall>p \<in> set ps. wf_ast (snd p) \<Longrightarrow> moves s s' \<Longrightarrow> avail s' \<Longrightarrow>
      parsed Q s0 (f (ps, s'))"
  shows "parsed Q s0 (bindE (ParseCallArgs env P s) f)"
proof -
  have "parsed (\<lambda>ps. \<forall>p \<in> set ps. wf_ast (snd p)) s (ParseCallArgs env P s)"
    unfolding ParseCallArgs_def
    by (rule parsed_bind [OF ParseArgs_parsed [OF assms(1)]])
       (auto simp: list_all_iff wf_arg_def call_param_def)
  then show ?thesis by (rule parsed_bind) (use assms avail_moves in blast)
qed


lemma list_loop_parsed:
  "avail s \<Longrightarrow> ts_Size s < k \<Longrightarrow> list_all wf_ast items \<Longrightarrow>
     parsed wf_ast s (list_loop k env P items got_comma s)"
proof (induction k arbitrary: items got_comma s)
  case (Suc k)
  have step: "parsed wf_ast s (list_loop k env P (items @ [e]) g s2)"
    if "moves (ts_Advance s) s2" "wf_ast e" "1 \<le> ts_Size s" for s2 e g
  proof -
    have "moves s s2" using that(1) by (simp add: moves_def)
    moreover have "ts_Size s2 < k" using ts_Size_less [OF that(1,3)] Suc.prems(2) by simp
    ultimately have "parsed wf_ast s2 (list_loop k env P (items @ [e]) g s2)"
      using Suc.IH [of s2 "items @ [e]"] Suc.prems that(2) avail_moves by simp
    with \<open>moves s s2\<close> show ?thesis by (rule parsed_from)
  qed
  show ?case
    using Suc.prems(1,3)
    by (auto intro!: parse_rules step simp: list_loop.simps list_all_iff) (auto simp: moves_def)
qed simp

lemma ParseBracketRest_parsed:
  "avail s \<Longrightarrow> wf_ast first \<Longrightarrow> parsed wf_ast s (ParseBracketRest env P first s)"
  unfolding ParseBracketRest_def
  by (auto intro!: parse_rules avail_Advance list_loop_parsed
        parsed_from [OF moves_Advance list_loop_parsed])
     (auto simp: moves_def)

lemma ParseBracket_parsed: "avail s \<Longrightarrow> parsed wf_ast s (ParseBracket env P s)"
  unfolding ParseBracket_def
  by (auto intro!: parse_rules parsed_from [OF _ ParseBracketRest_parsed] simp: moves_def)

lemma ParseUnary_parsed: "avail s \<Longrightarrow> parsed wf_ast s (ParseUnary env P tok s)"
  unfolding ParseUnary_def
  by (auto intro!: parse_rules simp: moves_def split: option.split)

lemma bind_parse_field_lhs [parse_rules]:
  assumes "avail s" and "1 \<le> ts_Size s"
    and "\<And>r s'. wf_ast (fst r) \<Longrightarrow> moves (ts_Advance s) s' \<Longrightarrow> avail s' \<Longrightarrow> parsed Q s0 (f (r, s'))"
  shows "parsed Q s0 (bindE (parse_field_lhs env P loc seen tok s) f)"
proof -
  have "parsed (\<lambda>r. wf_ast (fst r)) (ts_Advance s) (parse_field_lhs env P loc seen tok s)"
    using avail_Advance [OF assms(1)] unfolding parse_field_lhs_def
    by (auto intro!: parse_rules split: sum.split) (auto simp: moves_def)
  then show ?thesis
    by (rule parsed_bind) (use assms avail_moves avail_Advance in blast)
qed

lemma bind_parse_field [parse_rules]:
  assumes "avail s" and "1 \<le> ts_Size s"
    and "\<And>r s'. wf_ast (fst (fst r)) \<Longrightarrow> wf_ast (snd (fst r)) \<Longrightarrow> moves (ts_Advance s) s' \<Longrightarrow>
      avail s' \<Longrightarrow> parsed Q s0 (f (r, s'))"
  shows "parsed Q s0 (bindE (parse_field env P begin seen tok s) f)"
proof -
  have "parsed (\<lambda>r. wf_ast (fst (fst r)) \<and> wf_ast (snd (fst r))) (ts_Advance s)
      (parse_field env P begin seen tok s)"
    unfolding parse_field_def Let_def bindE_assoc
    using assms(1,2)
    by (auto intro!: parse_rules simp: bindE_assoc split_beta avail_Advance)
       (auto simp: moves_def avail_Advance)
  then show ?thesis
    by (rule parsed_bind) (use assms avail_moves avail_Advance in blast)
qed

lemma content_loop_parsed:
  "avail s \<Longrightarrow> ts_Size s < k \<Longrightarrow> \<forall>e \<in> set entries. wf_ast (fst e) \<and> wf_ast (snd e) \<Longrightarrow>
     parsed wf_ast s (content_loop k env P begin entries seen state s)"
proof (induction k arbitrary: entries seen state s)
  case (Suc k)
  have step: "parsed wf_ast s (content_loop k env P begin (entries @ [e]) seen' state' s2)"
    if "moves (ts_Advance s) s2" "wf_ast (fst e)" "wf_ast (snd e)" "1 \<le> ts_Size s"
    for s2 e seen' state'
  proof -
    have "moves s s2" using that(1) by (simp add: moves_def)
    moreover have "ts_Size s2 < k" using ts_Size_less [OF that(1,4)] Suc.prems(2) by simp
    ultimately have "parsed wf_ast s2 (content_loop k env P begin (entries @ [e]) seen' state' s2)"
      using Suc.IH [of s2 "entries @ [e]"] Suc.prems that(2,3) avail_moves by auto
    with \<open>moves s s2\<close> show ?thesis by (rule parsed_from)
  qed
  show ?case
    using Suc.prems(1,3)
    by (auto intro!: parse_rules step avail_Advance
          simp: content_loop.simps make_union_def Let_def mk_BuiltinNode_def cached_def
            args_ordered_def)
       (auto simp: moves_def)
qed simp

lemma ParseContent_parsed: "avail s \<Longrightarrow> parsed wf_ast s (ParseContent env P begin s)"
  unfolding ParseContent_def by (rule content_loop_parsed) simp_all

text \<open>The token types that \<open>ParseSimple\<close> has no case for are those that no token has.\<close>

lemma ParseLiteral_parsed:
  assumes "token_shape (tok_type tok) (tok_value tok)"
    and "tok_type tok \<notin> {ASSERT, BRACE_R, BRACKET_R, COMMA, DOT, ELSE, ERROR, FOR, FUNCTION,
      IF, IN, IMPORT, PAREN_R, SEMICOLON, THEN_KW, OPERATOR, BRACE_L, BRACKET_L, PAREN_L, LOCAL}"
  shows "parsed wf_ast s (ParseLiteral env tok s)"
  using assms lexed_types [OF assms(1)]
  by (cases "tok_type tok") (simp_all add: ParseLiteral_def Let_def split: option.split sum.split)

lemma ParseSimple_parsed:
  assumes "imports_ok env" "lexed s" "ts_Size s \<le> n"
    and "\<And>tok. ts_Peek s = Inr tok \<Longrightarrow> tok_type tok \<noteq> LOCAL"
  shows "parsed wf_ast (ts_Advance s) (ParseSimple env P s)"
proof (cases s rule: Peek_cases)
  case 1
  then show ?thesis by (simp add: ParseSimple_def ts_Pop_def)
next
  case (2 tok)
  have a: "avail (ts_Advance s)" using assms(1-3) 2(2) by (rule avail_first)
  have shape: "token_shape (tok_type tok) (tok_value tok)" "tok_type tok \<noteq> LOCAL"
    using assms(2,4) 2 by (auto simp: lexed_def)
  have paren: "parsed wf_ast (ts_Advance s) (bindE (P kMaxPriority (ts_Advance s))
      (\<lambda>(body, s2). bindE (ts_PopCheck PAREN_R None s2) (\<lambda>(_, s3). Inr (body, s3))))"
    using a by (auto intro!: parse_rules simp: moves_def)
  show ?thesis
    using 2 a shape paren
    by (auto intro!: parsed_if bind_Peek ParseUnary_parsed ParseContent_parsed
        ParseBracket_parsed ParseLiteral_parsed simp: ParseSimple_def ts_Pop_def)
qed

lemma bracket_not_colon:
  assumes "token_shape BRACKET_R v"
  shows "v \<noteq> '':'' \<and> v \<noteq> ''::''"
proof -
  have "\<not> token_shape BRACKET_R '':''" "\<not> token_shape BRACKET_R ''::''" by code_simp+
  with assms show ?thesis by auto
qed

lemma infix_index_parsed:
  assumes a: "avail s" and lhs: "wf_ast lhs"
  shows "parsed wf_ast s (infix_index env P lhs begin s)"
proof (cases s rule: Peek_cases)
  case 1
  then show ?thesis by (simp add: infix_index_def)
next
  case (2 tok)
  then have shape: "token_shape (tok_type tok) (tok_value tok)"
    using a by (auto simp: avail_def lexed_def)
  show ?thesis
  proof (cases "tok_value tok = '':'' \<or> tok_value tok = ''::''")
    case True
    then have "tok_type tok \<noteq> BRACKET_R" using shape bracket_not_colon by metis
    with 2 True show ?thesis by (auto simp: infix_index_def)
  next
    case False
    with 2 a lhs show ?thesis
      by (auto simp: infix_index_def bindE_assoc intro!: parse_rules) (auto simp: moves_def)
  qed
qed

lemma infix_dot_parsed: "wf_ast lhs \<Longrightarrow> parsed wf_ast s (infix_dot env lhs begin s)"
  unfolding infix_dot_def Let_def by (auto intro!: parse_rules simp: moves_def)

lemma wf_call_target: "wf_ast lhs \<Longrightarrow> wf_target (case lhs of CallNode _ t _ \<Rightarrow> t | _ \<Rightarrow> CallExpr lhs)"
  by (cases lhs) simp_all

lemma positional_after_named_ordered:
  "positional_after_named False ps \<longleftrightarrow> \<not> args_ordered ps"
proof -
  have named: "positional_after_named True ps \<longleftrightarrow> \<not> list_all (\<lambda>p. fst p \<noteq> None) ps" for ps
    by (induction ps) auto
  show ?thesis
    by (induction ps) (auto simp: args_ordered_def named)
qed

lemma infix_call_parsed:
  "avail s \<Longrightarrow> wf_ast lhs \<Longrightarrow> parsed wf_ast s (infix_call env P lhs begin s)"
  unfolding infix_call_def Let_def
  by (auto simp: bindE_assoc intro!: parse_rules)
     (auto simp: moves_def wf_call_target positional_after_named_ordered)

lemma MakeOperationNode_wf [simp]:
  "wf_ast lhs \<Longrightarrow> wf_ast rhs \<Longrightarrow> wf_ast (MakeOperationNode loc lhs rhs bop neg sub)"
  by (cases bop) (simp_all add: MakeOperationNode_def Let_def)

lemma infix_operator_parsed:
  "avail s \<Longrightarrow> wf_ast lhs \<Longrightarrow> parsed wf_ast s (infix_operator env P lhs begin next bop prio s)"
  unfolding infix_operator_def Let_def
  by (auto intro!: parse_rules) (auto simp: moves_def)

lemma infix_loop_parsed:
  "avail s \<Longrightarrow> ts_Size s < k \<Longrightarrow> wf_ast lhs \<Longrightarrow>
     parsed wf_ast s (infix_loop k env P lhs tok0 prio s)"
proof (induction k arbitrary: lhs tok0 s)
  case (Suc k)
  let ?s1 = "ts_Advance s"
  have a: "avail ?s1" using Suc.prems(1) by (rule avail_Advance)
  have step: "parsed wf_ast s (bindE m (\<lambda>(lhs', s'). infix_loop k env P lhs' tok prio s'))"
    if "parsed wf_ast ?s1 m" "1 \<le> ts_Size s" for m tok
  proof (rule parsed_bind [OF that(1)])
    fix x s' assume x: "wf_ast x" "moves ?s1 s'"
    then have "moves s s'" by (simp add: moves_def)
    moreover have "parsed wf_ast s' (infix_loop k env P x tok prio s')"
      using Suc.IH [of s' x] x avail_moves [OF a] ts_Size_less [OF x(2) that(2)] Suc.prems(2)
      by simp
    ultimately show "parsed wf_ast s (case (x, s') of (lhs', s') \<Rightarrow> infix_loop k env P lhs' tok prio s')"
      using parsed_from by simp
  qed
  have cls: "parsed wf_ast s (bindE (infix_class tok) f)"
    if "\<And>c. parsed wf_ast s (f c)" for tok f
    using that by (auto simp: infix_class_def split: option.split)
  show ?case
    unfolding infix_loop.simps
    using Suc.prems(3) a
    by (auto intro!: bind_Peek cls step infix_index_parsed infix_dot_parsed infix_call_parsed
        infix_operator_parsed split: option.split)
qed simp

lemma ParseInfix_parsed:
  "avail s \<Longrightarrow> wf_ast lhs \<Longrightarrow> parsed wf_ast s (ParseInfix env P lhs begin prio s)"
  unfolding ParseInfix_def by (rule infix_loop_parsed) simp_all

lemma ParseLocal_parsed: "avail s \<Longrightarrow> parsed wf_ast s (ParseLocal env P begin s)"
  unfolding ParseLocal_def Let_def bindE_assoc
  by (auto simp: bindE_assoc intro!: parse_rules avail_Advance)
     (auto simp: moves_def)

lemma ParseImport_parsed: "imports_ok env \<Longrightarrow> parsed wf_ast s (ParseImport env begin s)"
  unfolding ParseImport_def
  by (auto simp: bindE_assoc split: option.split intro!: parse_rules bind_import)
     (auto simp: moves_def)

lemma ParseFunction_parsed: "avail s \<Longrightarrow> parsed wf_ast s (ParseFunction env P begin s)"
  unfolding ParseFunction_def
  by (auto intro!: parse_rules avail_Advance) (auto simp: moves_def)

lemma ParseIf_parsed: "avail s \<Longrightarrow> parsed wf_ast s (ParseIf env P begin s)"
  unfolding ParseIf_def
  by (auto intro!: parse_rules avail_Advance) (auto simp: moves_def)

text \<open>One unfolding of \<open>Parse\<close>, on a stream one token longer than \<open>P\<close> can take.\<close>

lemma parse_step_parsed:
  assumes ok: "imports_ok env" "lexed s" "ts_Size s \<le> n"
  shows "parsed wf_ast (ts_Advance s) (parse_step env P prio s)"
proof (cases s rule: Peek_cases)
  case 1
  then show ?thesis by (simp add: parse_step_def ParseLocalImport_def)
next
  case (2 tok)
  have a: "avail (ts_Advance s)" using ok 2(2) by (rule avail_first)
  have expr: "parsed wf_ast (ts_Advance s)
      (bindE (ParseSimple env P s) (\<lambda>(lhs, s'). ParseInfix env P lhs tok prio s'))"
    if "tok_type tok \<noteq> LOCAL"
  proof (rule parsed_bind)
    show "parsed wf_ast (ts_Advance s) (ParseSimple env P s)"
      using ok that 2 by (intro ParseSimple_parsed) auto
  next
    fix x s' assume "wf_ast x" "moves (ts_Advance s) s'"
    then show "parsed wf_ast (ts_Advance s) (case (x, s') of (lhs, s') \<Rightarrow> ParseInfix env P lhs tok prio s')"
      using ParseInfix_parsed avail_moves [OF a] parsed_from by fastforce
  qed
  have some: "parsed wf_ast (ts_Advance s) (bindE (bindE m (\<lambda>r. Inr (Some r)))
      (\<lambda>found. case found of Some r \<Rightarrow> Inr r | None \<Rightarrow> e))"
    if "parsed wf_ast (ts_Advance s) m" for m e
    using that by (cases m) (auto simp: parsed_def)
  show ?thesis
    using 2 a ok(1)
    by (auto simp: parse_step_def ParseLocalImport_def intro!: expr some ParseLocal_parsed
        ParseImport_parsed ParseFunction_parsed ParseIf_parsed)
qed

end

text \<open>\<open>Parse\<close> meets its own contract, for every fuel.\<close>

lemma Parse_parsed:
  "imports_ok env \<Longrightarrow> lexed s \<Longrightarrow> ts_Size s < n \<Longrightarrow>
     parsed wf_ast (ts_Advance s) (Parse n env priority s)"
proof (induction n arbitrary: priority s)
  case (Suc n)
  have "expression_parser env (Parse n env) n"
    using Suc.IH by unfold_locales
  then show ?case
    using Suc.prems expression_parser.parse_step_parsed by simp
qed simp

interpretation parse: expression_parser env "Parse n env" n for env n
  by unfold_locales (rule Parse_parsed)

section \<open>Parsing a file\<close>

text \<open>What equality of file locations compares.\<close>

definition location_key :: "FileLocation \<Rightarrow> string \<times> bool \<times> string list" where
  "location_key l = (fl_repo l, is_absolute (fl_path l), path_names (fl_path l))"

lemma FileLocation_eq_key: "FileLocation_eq a b \<longleftrightarrow> location_key a = location_key b"
  by (auto simp: FileLocation_eq_def path_eq_def location_key_def)

lemma chain_find_None: "chain_find chain l = None \<longleftrightarrow> location_key l \<notin> location_key ` set chain"
  by (induction chain) (auto simp: FileLocation_eq_key)

type_synonym reader = "FileLocation \<Rightarrow> string \<Rightarrow> string option \<Rightarrow> FileData option"

text \<open>The files that the reader can give, by their keys.\<close>

definition reads_from :: "reader \<Rightarrow> (string \<times> bool \<times> string list) set \<Rightarrow> bool" where
  "reads_from rd K \<longleftrightarrow>
     (\<forall>l file repo data. rd l file repo = Some data \<longrightarrow> location_key (fd_location data) \<in> K)"

definition good_result :: "parse_error + ast \<Rightarrow> bool" where
  "good_result r \<longleftrightarrow>
     (case r of Inr e \<Rightarrow> wf_ast e | Inl e \<Rightarrow> e = Terminate \<or> (\<exists>msg. e = ASTParseError msg))"

lemma rethrow_good: "(case r of Inr e \<Rightarrow> wf_ast e | Inl e \<Rightarrow> genuine e) \<Longrightarrow> good_result (rethrow r)"
  by (auto simp: rethrow_def good_result_def genuine_def split: sum.splits option.splits
      elim: parse_what.elims)

lemma good_result_genuine: "good_result r \<Longrightarrow> (case r of Inr e \<Rightarrow> wf_ast e | Inl e \<Rightarrow> genuine e)"
  by (auto simp: good_result_def genuine_def split: sum.splits)

lemma lexed_lex: "lex f src = Inr toks \<Longrightarrow> lexed \<lparr>ts_tokens = toks, ts_pos = 0\<rparr>"
  using tokenize_loop_shape [of "[]" "Lexer f src" toks]
  by (auto simp: lexed_def lex_def Tokenize_def bindE_Inr_iff)

lemma parse_tokens_good:
  assumes imp: "\<And>data file. chain_find chain (fd_location fd) = None \<Longrightarrow>
      rd (fd_location fd) file None = Some data \<Longrightarrow>
      good_result (imp (chain @ [fd_location fd]) data)"
  shows "case parse_tokens rd J imp chain fd of Inr e \<Rightarrow> wf_ast e | Inl e \<Rightarrow> genuine e"
proof (cases "FileLocation_ToString J (fd_location fd)")
  case None
  then show ?thesis by (simp add: parse_tokens_def)
next
  case (Some name)
  show ?thesis
  proof (cases "lex name (fd_content fd)")
    case (Inl e)
    with Some show ?thesis by (simp add: parse_tokens_def)
  next
    case (Inr toks)
    show ?thesis
    proof (cases "chain_find chain (fd_location fd)")
      case (Some i)
      then show ?thesis using \<open>FileLocation_ToString J _ = Some name\<close> Inr
        by (simp add: parse_tokens_def split: option.split)
    next
      case None
      let ?chain = "chain @ [fd_location fd]"
      let ?env = "\<lparr>env_reader = rd, env_chain = ?chain, env_json = J, env_import = imp ?chain\<rparr>"
      have "imports_ok ?env"
        using imp [OF None] good_result_genuine by (simp add: imports_ok_def origin_def)
      then have "parsed wf_ast (ts_Advance \<lparr>ts_tokens = toks, ts_pos = 0\<rparr>)
          (Parse (Suc (length toks)) ?env kMaxPriority \<lparr>ts_tokens = toks, ts_pos = 0\<rparr>)"
        using lexed_lex [OF Inr] by (intro parse.parses) (simp_all add: ts_Size_def)
      then show ?thesis
        using Some Inr None
        by (auto simp: parse_tokens_def Let_def parsed_def bindE_def split: sum.splits)
    qed
  qed
qed

lemma ParseData_good:
  assumes K: "finite K" "reads_from rd K"
  shows "location_key (fd_location fd) \<in> K \<Longrightarrow> card (K - location_key ` set chain) < n \<Longrightarrow>
    good_result (ParseData n rd J chain fd)"
proof (induction n arbitrary: chain fd)
  case (Suc n)
  let ?k = "location_key (fd_location fd)" and ?S = "K - location_key ` set chain"
  have "good_result (ParseData n rd J (chain @ [fd_location fd]) data)"
    if new: "chain_find chain (fd_location fd) = None"
      and rd: "rd (fd_location fd) path None = Some data" for data path
  proof (rule Suc.IH)
    show "location_key (fd_location data) \<in> K" using rd K(2) by (auto simp: reads_from_def)
    have "?k \<in> ?S" using new Suc.prems(1) by (simp add: chain_find_None)
    moreover have "K - location_key ` set (chain @ [fd_location fd]) = ?S - {?k}" by auto
    moreover from calculation(1) K(1) have "card (?S - {?k}) < card ?S"
      by (intro card_Diff1_less) auto
    ultimately show "card (K - location_key ` set (chain @ [fd_location fd])) < n"
      using Suc.prems(2) by simp
  qed
  then show ?case
    by (simp add: rethrow_good parse_tokens_good)
qed simp

section \<open>More fuel changes nothing\<close>

text \<open>A result is below another when it is the same, or is the bound of the model.\<close>

definition below :: "parse_error + 'a \<Rightarrow> parse_error + 'a \<Rightarrow> bool" where
  "below r r' \<longleftrightarrow> r = Inl OutOfFuel \<or> r = r'"

named_theorems below_rules \<open>monotonicity of the parser functions\<close>

lemma below_refl [simp, below_rules]: "below r r"
  by (simp add: below_def)

lemma below_bind [below_rules]:
  "below m m' \<Longrightarrow> (\<And>x. below (f x) (f' x)) \<Longrightarrow> below (bindE m f) (bindE m' f')"
  by (auto simp: below_def bindE_def split: sum.splits)

lemma below_if [below_rules]:
  "below x x' \<Longrightarrow> below y y' \<Longrightarrow> below (if c then x else y) (if c then x' else y')"
  by simp

lemma below_case_prod [below_rules]:
  "(\<And>a b. below (f a b) (f' a b)) \<Longrightarrow> below (case p of (a, b) \<Rightarrow> f a b) (case p of (a, b) \<Rightarrow> f' a b)"
  by (cases p) simp

lemma below_case_prod_app [below_rules]:
  "(\<And>a b. below (f a b y) (f' a b y)) \<Longrightarrow>
     below ((case p of (a, b) \<Rightarrow> f a b) y) ((case p of (a, b) \<Rightarrow> f' a b) y)"
  by (cases p) simp

lemma below_case_option [below_rules]:
  "below x x' \<Longrightarrow> (\<And>a. below (f a) (f' a)) \<Longrightarrow>
     below (case p of None \<Rightarrow> x | Some a \<Rightarrow> f a) (case p of None \<Rightarrow> x' | Some a \<Rightarrow> f' a)"
  by (cases p) simp_all

lemma below_case_sum [below_rules]:
  "(\<And>a. below (f a) (f' a)) \<Longrightarrow> (\<And>a. below (g a) (g' a)) \<Longrightarrow>
     below (case p of Inl a \<Rightarrow> f a | Inr a \<Rightarrow> g a) (case p of Inl a \<Rightarrow> f' a | Inr a \<Rightarrow> g' a)"
  by (cases p) simp_all

text \<open>Two parsers for two environments that differ in what they import.\<close>

locale better_parser =
  fixes env env' :: parser_env and P P' :: parse_fun
  assumes better: "below (P prio s) (P' prio s)"
    and import_better: "below (env_import env data) (env_import env' data)"
    and same: "origin env' = origin env" "env_json env' = env_json env" "env_reader env' = env_reader env"
begin

lemma args_loop_below: "below (args_loop k env P ps b c s) (args_loop k env' P' ps b c s)"
proof (induction k arbitrary: ps b c s)
  case (Suc k)
  show ?case
    unfolding args_loop.simps Let_def same by (intro below_rules better Suc.IH)
qed (simp add: args_loop.simps)

lemma args_below [below_rules]:
  "below (ParseFuncArgs env P s) (ParseFuncArgs env' P' s)"
  "below (ParseCallArgs env P s) (ParseCallArgs env' P' s)"
  unfolding ParseFuncArgs_def ParseCallArgs_def ParseArgs_def
  by (intro below_rules args_loop_below)+

lemma parse_field_below [below_rules]:
  "below (parse_field env P b seen tok s) (parse_field env' P' b seen tok s)"
  unfolding parse_field_def parse_field_lhs_def Let_def same by (intro below_rules better)

lemma content_loop_below:
  "below (content_loop k env P b es seen st s) (content_loop k env' P' b es seen st s)"
proof (induction k arbitrary: es seen st s)
  case (Suc k)
  show ?case
    unfolding content_loop.simps Let_def same by (intro below_rules better Suc.IH)
qed (simp add: content_loop.simps)

lemma list_loop_below [below_rules]:
  "below (list_loop k env P items c s) (list_loop k env' P' items c s)"
proof (induction k arbitrary: items c s)
  case (Suc k)
  show ?case
    unfolding list_loop.simps Let_def same by (intro below_rules better Suc.IH)
qed (simp add: list_loop.simps)

lemma ParseLiteral_same: "ParseLiteral env' tok s = ParseLiteral env tok s"
  unfolding ParseLiteral_def same by (rule refl)

lemma ParseSimple_below [below_rules]: "below (ParseSimple env P s) (ParseSimple env' P' s)"
  unfolding ParseSimple_def ParseUnary_def ParseContent_def ParseBracket_def ParseBracketRest_def
    ParseLiteral_same Let_def same
  by (intro below_rules better content_loop_below)

lemma infix_loop_below: "below (infix_loop k env P lhs b prio s) (infix_loop k env' P' lhs b prio s)"
proof (induction k arbitrary: lhs b s)
  case (Suc k)
  show ?case
    unfolding infix_loop.simps infix_index_def infix_dot_def infix_call_def infix_operator_def
      Let_def same
    by (intro below_rules better Suc.IH)
qed (simp add: infix_loop.simps)

lemma ParseLocalImport_below [below_rules]:
  "below (ParseLocalImport env P s) (ParseLocalImport env' P' s)"
  unfolding ParseLocalImport_def ParseLocal_def ParseImport_def ParseFunction_def ParseIf_def
    Let_def same
  by (intro below_rules better import_better)

lemma parse_step_below: "below (parse_step env P prio s) (parse_step env' P' prio s)"
  unfolding parse_step_def ParseInfix_def by (intro below_rules infix_loop_below)

end

lemma Parse_below:
  assumes "\<And>data. below (env_import env data) (env_import env' data)"
    and "origin env' = origin env" "env_json env' = env_json env" "env_reader env' = env_reader env"
  shows "below (Parse n env prio s) (Parse (n + k) env' prio s)"
proof (induction n arbitrary: prio s)
  case 0
  show ?case by (simp add: below_def)
next
  case (Suc n)
  have "better_parser env env' (Parse n env) (Parse (n + k) env')"
    using Suc.IH assms by unfold_locales
  then show ?case by (simp add: better_parser.parse_step_below)
qed

interpretation deeper: better_parser env env "Parse n env" "Parse (n + k) env" for env n k
  by unfold_locales (auto intro: Parse_below)

lemma rethrow_below: "below r r' \<Longrightarrow> below (rethrow r) (rethrow r')"
  by (auto simp: below_def rethrow_def)

lemma parse_tokens_below:
  assumes "\<And>chain data. below (imp chain data) (imp' chain data)"
  shows "below (parse_tokens rd J imp chain fd) (parse_tokens rd J imp' chain fd)"
proof -
  have "below (Parse n \<lparr>env_reader = rd, env_chain = c, env_json = J, env_import = imp c\<rparr> prio s)
      (Parse n \<lparr>env_reader = rd, env_chain = c, env_json = J, env_import = imp' c\<rparr> prio s)"
    for n c prio s
    using Parse_below [of "\<lparr>env_reader = rd, env_chain = c, env_json = J, env_import = imp c\<rparr>"
      "\<lparr>env_reader = rd, env_chain = c, env_json = J, env_import = imp' c\<rparr>" n prio s 0] assms
    by (simp add: origin_def)
  then show ?thesis
    unfolding parse_tokens_def Let_def by (intro below_rules)
qed

lemma ParseData_below: "below (ParseData n rd J chain fd) (ParseData (n + k) rd J chain fd)"
proof (induction n arbitrary: chain fd)
  case 0
  show ?case by (simp add: below_def)
next
  case (Suc n)
  have "below (parse_tokens rd J (ParseData n rd J) chain fd)
      (parse_tokens rd J (ParseData (n + k) rd J) chain fd)"
    using Suc.IH by (rule parse_tokens_below)
  then show ?case by (simp add: rethrow_below)
qed

lemma ParseData_fuel:
  assumes "ParseData n rd J chain fd \<noteq> Inl OutOfFuel" and "n \<le> m"
  shows "ParseData m rd J chain fd = ParseData n rd J chain fd"
  using ParseData_below [of n rd J chain fd "m - n"] assms by (simp add: below_def)

lemma chain_find_less: "chain_find chain l = Some i \<Longrightarrow> i < length chain"
  by (induction chain arbitrary: i) (auto split: if_splits)

lemma cycle_message_Some:
  assumes "\<forall>l \<in> set chain. FileLocation_ToString J l \<noteq> None" and "i < length chain"
  shows "cycle_message J chain i \<noteq> None"
proof -
  let ?tail = "drop (i + 1) chain"
  have "chain \<noteq> []" using assms(2) by auto
  have "chain ! i \<in> set chain" using assms(2) by simp
  moreover have "set (butlast ?tail) \<subseteq> set chain" "?tail \<noteq> [] \<Longrightarrow> last ?tail \<in> set chain"
    using last_in_set [of chain] \<open>chain \<noteq> []\<close> by (auto dest!: in_set_butlastD in_set_dropD)
  ultimately show ?thesis
    using assms(1) unfolding cycle_message_def Let_def
    by (auto split: if_splits dest!: subsetD)
qed

section \<open>Properties\<close>

text \<open>A file system of two files that import each other, for examples.\<close>

definition sample_file :: "string \<Rightarrow> string \<Rightarrow> FileData" where
  "sample_file path src =
     \<lparr>fd_location = \<lparr>fl_repo = [], fl_path = path, fl_content = None\<rparr>, fd_content = src\<rparr>"

definition sample_a :: FileData where
  "sample_a = sample_file ''a'' (''local b = import '' @ [CHR 0x27] @ ''b'' @ [CHR 0x27] @ ''; b'')"

definition sample_b :: FileData where
  "sample_b = sample_file ''b'' (''local a = import '' @ [CHR 0x27] @ ''./a'' @ [CHR 0x27] @ ''; a'')"

definition sample_reader :: reader where
  "sample_reader from path repo =
     (if path = ''b'' then Some sample_b else if path = ''./a'' then Some sample_a else None)"

definition parse_source :: "string \<Rightarrow> parse_error + ast" where
  "parse_source src = ParseData 1 (\<lambda>_ _ _. None) sample_json [] (sample_file ''f'' src)"

text \<open>
  C1: Parsing a file terminates and its outcome is well-formed. When the reader can give only
  finitely many files, a fuel above their number is enough, whatever they import from each
  other, and a larger one gives the same result. The result is a tree in which every cached
  type and truth value is the one its children imply and no call gives a positional argument
  after a named one, or it is an \<open>ASTParseError\<close>, or the abort of the lexer's token printer;
  no null node is ever used.
\<close>

theorem ParseData_total:
  assumes "finite K" and "reads_from rd K" and "location_key (fd_location fd) \<in> K"
    and "card K < n"
  shows "good_result (ParseData n rd J [] fd) \<and>
    (\<forall>m \<ge> n. ParseData m rd J [] fd = ParseData n rd J [] fd)"
proof -
  have good: "good_result (ParseData n rd J [] fd)"
    using ParseData_good [OF assms(1-3), of "[]"] assms(4) by simp
  then have "ParseData n rd J [] fd \<noteq> Inl OutOfFuel" by (auto simp: good_result_def)
  with good ParseData_fuel show ?thesis by blast
qed

theorem ParseData_total_witness:
  "good_result (ParseData 3 sample_reader sample_json [] sample_a) \<and>
   ParseData 5 sample_reader sample_json [] sample_a =
     ParseData 3 sample_reader sample_json [] sample_a"
proof -
  let ?K = "set (map (location_key \<circ> fd_location) [sample_a, sample_b])"
  have "reads_from sample_reader ?K"
    by (auto simp: reads_from_def sample_reader_def split: if_splits)
  moreover have "card ?K < 3"
    using card_length [of "map (location_key \<circ> fd_location) [sample_a, sample_b]"] by simp
  moreover have "location_key (fd_location sample_a) \<in> ?K" by simp
  ultimately have total: "good_result (ParseData 3 sample_reader sample_json [] sample_a) \<and>
    (\<forall>m \<ge> 3. ParseData m sample_reader sample_json [] sample_a =
      ParseData 3 sample_reader sample_json [] sample_a)"
    by (intro ParseData_total [of ?K]) (rule finite_set)
  have "(3::nat) \<le> 5" by simp
  then show ?thesis using total by blast
qed

text \<open>
  C19: A cycle of imports is detected: parsing a file whose location is already on the chain of
  files being parsed (the same repository and an equal path) fails, once the file has been
  tokenized, with the error that draws the cycle from the first import of that file on.
\<close>

theorem import_cycle_rejected:
  assumes "location_key (fd_location fd) \<in> location_key ` set chain"
    and names: "\<forall>l \<in> set (fd_location fd # chain). FileLocation_ToString J l \<noteq> None"
    and "lex (the (FileLocation_ToString J (fd_location fd))) (fd_content fd) = Inr toks"
  shows "\<exists>i drawing. chain_find chain (fd_location fd) = Some i \<and>
    cycle_message J chain i = Some drawing \<and>
    ParseData (Suc n) rd J chain fd = Inl (ASTParseError (ParserException_what
      (''Detected cycle in import chain.'' @ [CHR 0x0A] @ drawing) no_location))"
proof -
  obtain i where i: "chain_find chain (fd_location fd) = Some i"
    using assms(1) chain_find_None [of chain "fd_location fd"] by fastforce
  then have "cycle_message J chain i \<noteq> None"
    using names cycle_message_Some [OF _ chain_find_less [OF i], of J] by simp
  with i names assms(3) show ?thesis by (auto simp: parse_tokens_def rethrow_def)
qed

theorem import_cycle_rejected_witness:
  "\<exists>i drawing. chain_find [fd_location sample_a, fd_location sample_b] (fd_location sample_a) = Some i \<and>
    cycle_message sample_json [fd_location sample_a, fd_location sample_b] i = Some drawing \<and>
    ParseData (Suc 0) sample_reader sample_json [fd_location sample_a, fd_location sample_b] sample_a =
      Inl (ASTParseError (ParserException_what
        (''Detected cycle in import chain.'' @ [CHR 0x0A] @ drawing) no_location))"
proof -
  have "case lex (the (FileLocation_ToString sample_json (fd_location sample_a)))
      (fd_content sample_a) of Inr _ \<Rightarrow> True | Inl _ \<Rightarrow> False"
    by code_simp
  then obtain toks where toks: "lex (the (FileLocation_ToString sample_json (fd_location sample_a)))
      (fd_content sample_a) = Inr toks"
    by (auto split: sum.splits)
  have names: "\<forall>l \<in> set (fd_location sample_a # [fd_location sample_a, fd_location sample_b]).
      FileLocation_ToString sample_json l \<noteq> None"
    by (simp add: FileLocation_ToString_def sample_a_def sample_b_def sample_file_def)
  show ?thesis by (rule import_cycle_rejected [OF _ names toks]) simp
qed

section \<open>Deviations\<close>

text \<open>
  Inputs on which the parser does not do what it means to: the comma between list elements is
  checked only once, calling the result of a call drops the first call's arguments, unclosed
  parentheses are accepted at the end of the file, an operator without right operand is
  ignored, indexing with the string of a colon is taken for a slice, a number where another
  token is expected aborts the process, and a file that is one list fails.
\<close>

lemma list_missing_comma_accepted:
  "case parse_source ''[a, b c];'' of Inr (ListNode _ items) \<Rightarrow> length items = 3 | _ \<Rightarrow> False"
  by code_simp

lemma call_of_call_drops_arguments:
  "case parse_source ''f(a)(b);'' of
     Inr (CallNode _ (CallIdentifier f) (Some ps)) \<Rightarrow> f = ''f'' \<and> length ps = 1
   | _ \<Rightarrow> False"
  by code_simp

lemma unclosed_parenthesis_accepted:
  "case parse_source ''f(g(x)'' of Inr (CallNode _ _ _) \<Rightarrow> True | _ \<Rightarrow> False"
  by code_simp

lemma missing_operand_accepted:
  "case parse_source ''a +'' of Inr (CallNode _ _ _) \<Rightarrow> True | _ \<Rightarrow> False"
  by code_simp

lemma colon_index_rejected:
  "parse_source (''a['' @ [CHR 0x27] @ '':'' @ [CHR 0x27] @ '']; '') =
     Inl (ASTParseError '':0:0 Parser error: does not support slice'')"
  by code_simp

lemma number_key_terminates:
  "parse_source ''{1: 2}'' = Inl Terminate"
  by code_simp

lemma whole_file_list_rejected:
  "parse_source ''[a, b]'' = Inl (ASTParseError ''No token available'')"
  by code_simp

end
