(* ===== verification/Jst_Json.thy ===== *)
theory Jst_Json
  imports Jst_Prelude "HOL-Library.Word" "HOL-Library.Char_ord" "HOL-Library.List_Lexorder"
begin

text \<open>
  JSON values and the helpers of \<^verbatim>\<open>src/utils/cpp/json.hpp\<close> on them: extraction of typed
  fields, printing with bounded indentation, abbreviation and pruning. A value of
  \<^verbatim>\<open>nlohmann::json\<close> is a datatype with the library's value kinds, an object being a list
  of fields that its operations keep in key order. What the library computes with values
  (printing, conversion of numbers) is the parameter \<open>nlohmann\<close>. A double is its 64 bits.
  The checks of audit builds (\<^verbatim>\<open>EnsuresAudit\<close>) are not part of the model.
\<close>

section \<open>Values\<close>

type_synonym double_bits = "64 word"

datatype json =
    JNull
  | JBool bool
  | JUnsigned "64 word"
  | JInteger "64 word"
  | JFloat double_bits
  | JString string
  | JArray "json list"
  | JObject "(string \<times> json) list"

record nlohmann =
  nl_dump :: "json \<Rightarrow> string + string"
  nl_get_size :: "json \<Rightarrow> 64 word option"
  nl_get_double :: "json \<Rightarrow> double_bits option"

fun is_null :: "json \<Rightarrow> bool" where
  "is_null JNull = True"
| "is_null _ = False"

fun is_object :: "json \<Rightarrow> bool" where
  "is_object (JObject _) = True"
| "is_object _ = False"

text \<open>\<^verbatim>\<open>items()\<close> of an object and \<^verbatim>\<open>find\<close>, which finds nothing in a value of another kind.\<close>

fun items :: "json \<Rightarrow> (string \<times> json) list" where
  "items (JObject kvs) = kvs"
| "items _ = []"

fun jfind :: "json \<Rightarrow> string \<Rightarrow> json option" where
  "jfind (JObject kvs) key = map_of kvs key"
| "jfind _ key = None"

text \<open>Assignment to a key of a \<^verbatim>\<open>std::map\<close>: the entries stay in key order.\<close>

fun map_put :: "string \<Rightarrow> 'a \<Rightarrow> (string \<times> 'a) list \<Rightarrow> (string \<times> 'a) list" where
  "map_put k v [] = [(k, v)]"
| "map_put k v ((k', v') # kvs) =
     (if k = k' then (k, v) # kvs
      else if k < k' then (k, v) # (k', v') # kvs
      else (k', v') # map_put k v kvs)"

fun jput :: "string \<Rightarrow> json \<Rightarrow> json \<Rightarrow> json" where
  "jput k v (JObject kvs) = JObject (map_put k v kvs)"
| "jput k v j = j"

text \<open>An initializer list of pairs: the object with these fields, the first of a key.\<close>

fun json_fields :: "(string \<times> json) list \<Rightarrow> (string \<times> json) list" where
  "json_fields [] = []"
| "json_fields ((k, v) # kvs) = map_put k v (json_fields kvs)"

definition json_object :: "(string \<times> json) list \<Rightarrow> json" where
  "json_object kvs = JObject (json_fields kvs)"

text \<open>Conversions \<^verbatim>\<open>get<T>()\<close> to the types the code asks for; \<open>None\<close> is the type error.\<close>

fun get_string :: "json \<Rightarrow> string option" where
  "get_string (JString s) = Some s"
| "get_string _ = None"

fun get_bool :: "json \<Rightarrow> bool option" where
  "get_bool (JBool b) = Some b"
| "get_bool _ = None"

fun get_all :: "('a \<Rightarrow> 'b option) \<Rightarrow> 'a list \<Rightarrow> 'b list option" where
  "get_all f [] = Some []"
| "get_all f (x # xs) =
     (case f x of None \<Rightarrow> None
      | Some y \<Rightarrow> (case get_all f xs of None \<Rightarrow> None | Some ys \<Rightarrow> Some (y # ys)))"

fun get_string_list :: "json \<Rightarrow> string list option" where
  "get_string_list (JArray vs) = get_all get_string vs"
| "get_string_list _ = None"

definition get_entry :: "string \<times> json \<Rightarrow> (string \<times> string) option" where
  "get_entry kv = (case get_string (snd kv) of None \<Rightarrow> None | Some s \<Rightarrow> Some (fst kv, s))"

fun get_string_map :: "json \<Rightarrow> (string \<times> string) list option" where
  "get_string_map (JObject kvs) = get_all get_entry kvs"
| "get_string_map _ = None"

definition json_of_strings :: "string list \<Rightarrow> json" where
  "json_of_strings ss = JArray (map JString ss)"

definition json_of_map :: "(string \<times> string) list \<Rightarrow> json" where
  "json_of_map kvs = JObject (map (\<lambda>(k, v). (k, JString v)) kvs)"

section \<open>ExtractValueAs\<close>

text \<open>The logger of the code only writes messages; both failures give \<^verbatim>\<open>std::nullopt\<close>.\<close>

definition ExtractValueAs :: "(json \<Rightarrow> 'a option) \<Rightarrow> json \<Rightarrow> string \<Rightarrow> 'a option" where
  "ExtractValueAs get_as j key =
     (case jfind j key of None \<Rightarrow> None | Some v \<Rightarrow> get_as v)"

section \<open>Printing\<close>

definition std_endl :: string where "std_endl = [CHR 0x0A]"

definition fill_n :: "nat \<Rightarrow> string \<Rightarrow> string" where
  "fill_n n indent = concat (replicate n indent)"

definition comma_unless_last :: "'a list \<Rightarrow> string" where
  "comma_unless_last rest = (if rest = [] then [] else '','')"

function (sequential) detail_IndentListsOnlyUntilDepth ::
    "nlohmann \<Rightarrow> json \<Rightarrow> string \<Rightarrow> nat \<Rightarrow> nat \<Rightarrow> string + string"
and indent_lists_fields ::
    "nlohmann \<Rightarrow> (string \<times> json) list \<Rightarrow> string \<Rightarrow> nat \<Rightarrow> nat \<Rightarrow> string + string"
and indent_lists_elements ::
    "nlohmann \<Rightarrow> json list \<Rightarrow> string \<Rightarrow> nat \<Rightarrow> nat \<Rightarrow> string + string" where
  "detail_IndentListsOnlyUntilDepth N (JObject kvs) indent until depth =
     bindE (indent_lists_fields N kvs indent until depth) (\<lambda>s.
     Inr (''{'' @ std_endl @ s @ fill_n depth indent @ ''}''))"
| "detail_IndentListsOnlyUntilDepth N (JArray vs) indent until depth =
     (if depth < until
      then bindE (indent_lists_elements N vs indent until depth) (\<lambda>s.
           Inr (''['' @ std_endl @ s @ fill_n depth indent @ '']''))
      else nl_dump N (JArray vs))"
| "detail_IndentListsOnlyUntilDepth N j indent until depth = nl_dump N j"
| "indent_lists_fields N [] indent until depth = Inr []"
| "indent_lists_fields N ((k, v) # kvs) indent until depth =
     bindE (nl_dump N (JString k)) (\<lambda>ks.
     bindE (detail_IndentListsOnlyUntilDepth N v indent until (depth + 1)) (\<lambda>s.
     bindE (indent_lists_fields N kvs indent until depth) (\<lambda>rest.
     Inr (fill_n (depth + 1) indent @ ks @ '': '' @ s @ comma_unless_last kvs @ std_endl @ rest))))"
| "indent_lists_elements N [] indent until depth = Inr []"
| "indent_lists_elements N (v # vs) indent until depth =
     bindE (detail_IndentListsOnlyUntilDepth N v indent until (depth + 1)) (\<lambda>s.
     bindE (indent_lists_elements N vs indent until depth) (\<lambda>rest.
     Inr (fill_n (depth + 1) indent @ s @ comma_unless_last vs @ std_endl @ rest)))"
  by pat_completeness auto
termination
  by (relation "measure (case_sum (\<lambda>(N, j, r). size j) (case_sum
        (\<lambda>(N, kvs, r). size_list (size_prod (\<lambda>_. 0) size) kvs)
        (\<lambda>(N, vs, r). size_list size vs)))") simp_all

definition IndentListsOnlyUntilDepth ::
  "nlohmann \<Rightarrow> json \<Rightarrow> nat \<Rightarrow> nat \<Rightarrow> string + string" where
  "IndentListsOnlyUntilDepth N j indent until_depth =
     detail_IndentListsOnlyUntilDepth N j (replicate indent (CHR 0x20)) until_depth 0"

definition until_at :: "string option \<Rightarrow> (string \<Rightarrow> nat option) \<Rightarrow> nat \<Rightarrow> nat" where
  "until_at path depths until =
     (case path of None \<Rightarrow> until
      | Some p \<Rightarrow> (case depths p of None \<Rightarrow> until | Some d \<Rightarrow> d))"

function (sequential) detail_IndentOnlyUntilDepth ::
    "nlohmann \<Rightarrow> json \<Rightarrow> string \<Rightarrow> nat \<Rightarrow> nat \<Rightarrow> string option \<Rightarrow> (string \<Rightarrow> nat option)
     \<Rightarrow> string + string"
and indent_fields ::
    "nlohmann \<Rightarrow> (string \<times> json) list \<Rightarrow> string \<Rightarrow> nat \<Rightarrow> nat \<Rightarrow> string option
     \<Rightarrow> (string \<Rightarrow> nat option) \<Rightarrow> string + string"
and indent_elements ::
    "nlohmann \<Rightarrow> json list \<Rightarrow> string \<Rightarrow> nat \<Rightarrow> nat \<Rightarrow> (string \<Rightarrow> nat option)
     \<Rightarrow> string + string" where
  "detail_IndentOnlyUntilDepth N (JObject kvs) indent until depth path depths =
     (if depth < until_at path depths until
      then bindE (indent_fields N kvs indent (until_at path depths until) depth path depths) (\<lambda>s.
           Inr (''{'' @ std_endl @ s @ fill_n depth indent @ ''}''))
      else nl_dump N (JObject kvs))"
| "detail_IndentOnlyUntilDepth N (JArray vs) indent until depth path depths =
     (if depth < until_at path depths until
      then bindE (indent_elements N vs indent (until_at path depths until) depth depths) (\<lambda>s.
           Inr (''['' @ std_endl @ s @ fill_n depth indent @ '']''))
      else nl_dump N (JArray vs))"
| "detail_IndentOnlyUntilDepth N j indent until depth path depths = nl_dump N j"
| "indent_fields N [] indent until depth path depths = Inr []"
| "indent_fields N ((k, v) # kvs) indent until depth path depths =
     bindE (nl_dump N (JString k)) (\<lambda>ks.
     bindE (detail_IndentOnlyUntilDepth N v indent until (depth + 1)
              (case path of None \<Rightarrow> None | Some p \<Rightarrow> Some (p @ ''/'' @ k)) depths) (\<lambda>s.
     bindE (indent_fields N kvs indent until depth path depths) (\<lambda>rest.
     Inr (fill_n (depth + 1) indent @ ks @ '': '' @ s @ comma_unless_last kvs @ std_endl @ rest))))"
| "indent_elements N [] indent until depth depths = Inr []"
| "indent_elements N (v # vs) indent until depth depths =
     bindE (detail_IndentOnlyUntilDepth N v indent until (depth + 1) None depths) (\<lambda>s.
     bindE (indent_elements N vs indent until depth depths) (\<lambda>rest.
     Inr (fill_n (depth + 1) indent @ s @ comma_unless_last vs @ std_endl @ rest)))"
  by pat_completeness auto
termination
  by (relation "measure (case_sum (\<lambda>(N, j, r). size j) (case_sum
        (\<lambda>(N, kvs, r). size_list (size_prod (\<lambda>_. 0) size) kvs)
        (\<lambda>(N, vs, r). size_list size vs)))") simp_all

definition IndentOnlyUntilDepth ::
  "nlohmann \<Rightarrow> json \<Rightarrow> nat \<Rightarrow> nat \<Rightarrow> (string \<Rightarrow> nat option) \<Rightarrow> string + string" where
  "IndentOnlyUntilDepth N j indent until_depth depths =
     detail_IndentOnlyUntilDepth N j (replicate indent (CHR 0x20)) until_depth 0 (Some []) depths"

section \<open>Abbreviation\<close>

function (sequential) TruncateJson :: "nlohmann \<Rightarrow> json \<Rightarrow> nat \<Rightarrow> string + string"
and truncate_fields :: "nlohmann \<Rightarrow> (string \<times> json) list \<Rightarrow> nat \<Rightarrow> string + string"
and truncate_elements :: "nlohmann \<Rightarrow> json list \<Rightarrow> nat \<Rightarrow> string + string" where
  "TruncateJson N j 0 = Inr ''*''"
| "TruncateJson N (JObject kvs) (Suc depth) =
     bindE (truncate_fields N kvs depth) (\<lambda>s. Inr (''{'' @ s @ ''}''))"
| "TruncateJson N (JArray vs) (Suc depth) =
     bindE (truncate_elements N vs depth) (\<lambda>s. Inr (''['' @ s @ '']''))"
| "TruncateJson N j (Suc depth) = nl_dump N j"
| "truncate_fields N [] depth = Inr []"
| "truncate_fields N ((k, v) # kvs) depth =
     bindE (nl_dump N (JString k)) (\<lambda>ks.
     bindE (TruncateJson N v depth) (\<lambda>s.
     bindE (truncate_fields N kvs depth) (\<lambda>rest.
     Inr (ks @ '':'' @ s @ comma_unless_last kvs @ rest))))"
| "truncate_elements N [] depth = Inr []"
| "truncate_elements N (v # vs) depth =
     bindE (TruncateJson N v depth) (\<lambda>s.
     bindE (truncate_elements N vs depth) (\<lambda>rest.
     Inr (s @ comma_unless_last vs @ rest)))"
  by pat_completeness auto
termination
  by (relation "measure (case_sum (\<lambda>(N, j, r). size j) (case_sum
        (\<lambda>(N, kvs, r). size_list (size_prod (\<lambda>_. 0) size) kvs)
        (\<lambda>(N, vs, r). size_list size vs)))") simp_all

text \<open>
  The loop of \<^verbatim>\<open>AbbreviateJson\<close> raises the depth while the result fits. Whether it ends
  depends on the library's printing, so that a run without an end is the value \<open>None\<close>.
\<close>

partial_function (option) abbreviate_loop ::
  "nlohmann \<Rightarrow> json \<Rightarrow> nat \<Rightarrow> nat \<Rightarrow> string \<Rightarrow> string \<Rightarrow> (string + string) option" where
  "abbreviate_loop N j len i old_abbrev new_abbrev =
     (if length new_abbrev \<le> len
      then (case TruncateJson N j (i + 1) of
              Inl e \<Rightarrow> Some (Inl e)
            | Inr abbrev \<Rightarrow> abbreviate_loop N j len (i + 1) new_abbrev abbrev)
      else Some (Inr old_abbrev))"

definition AbbreviateJson :: "nlohmann \<Rightarrow> json \<Rightarrow> nat \<Rightarrow> (string + string) option" where
  "AbbreviateJson N j len =
     (case nl_dump N j of
        Inl e \<Rightarrow> Some (Inl e)
      | Inr json_string \<Rightarrow>
          if length json_string \<le> len then Some (Inr json_string)
          else (case TruncateJson N j 1 of
                  Inl e \<Rightarrow> Some (Inl e)
                | Inr abbrev \<Rightarrow> abbreviate_loop N j len 1 abbrev abbrev))"

definition PruneJson :: "json \<Rightarrow> json" where
  "PruneJson j =
     (if \<not> is_object j then j
      else foldl (\<lambda>result el. if \<not> is_null (snd el) then jput (fst el) (snd el) result else result)
             (JObject []) (items j))"

end
