(* ===== verification/Jst_Json_Props.thy ===== *)
theory Jst_Json_Props
  imports Jst_Json
begin

text \<open>
  Objects stay in key order and behave as maps; pruning keeps exactly the fields with a
  value; the abbreviation of a value ends and is the longest truncation before the first
  one that is too long, given that the library prints objects and arrays compactly.
\<close>

named_theorems json_simps \<open>lookup and conversion of constructed JSON values\<close>

section \<open>Objects as maps\<close>

definition ordered_keys :: "(string \<times> 'a) list \<Rightarrow> bool" where
  "ordered_keys kvs \<longleftrightarrow> sorted (map fst kvs) \<and> distinct (map fst kvs)"

lemma map_of_map_put [json_simps]: "map_of (map_put k v kvs) = (map_of kvs)(k \<mapsto> v)"
  by (induction k v kvs rule: map_put.induct) (auto simp: fun_eq_iff)

lemma set_map_put: "fst ` set (map_put k v kvs) = insert k (fst ` set kvs)"
  by (induction k v kvs rule: map_put.induct) auto

lemma ordered_keys_map_put: "ordered_keys kvs \<Longrightarrow> ordered_keys (map_put k v kvs)"
proof (induction k v kvs rule: map_put.induct)
  case (2 k v k' v' kvs)
  then show ?case
    using set_map_put [of k v kvs] by (force simp: ordered_keys_def)
qed (simp add: ordered_keys_def)

lemma ordered_keys_json_fields: "ordered_keys (json_fields kvs)"
  by (induction kvs rule: json_fields.induct)
    (simp_all add: ordered_keys_map_put ordered_keys_def [of "[]"])

lemma map_of_json_fields [json_simps]: "map_of (json_fields kvs) = map_of kvs"
  by (induction kvs rule: json_fields.induct) (simp_all add: json_simps)

lemma jfind_json_object [json_simps]: "jfind (json_object kvs) key = map_of kvs key"
  by (simp add: json_object_def json_simps)

lemma jfind_jput [json_simps]:
  "jfind (jput k v (JObject kvs)) key = (if key = k then Some v else jfind (JObject kvs) key)"
  by (simp add: json_simps)

lemma map_put_last:
  assumes "\<forall>k' \<in> fst ` set kvs. k' < k"
  shows "map_put k v kvs = kvs @ [(k, v)]"
  using assms by (induction k v kvs rule: map_put.induct) auto

section \<open>Conversions\<close>

lemma get_all_map: "(\<And>x. x \<in> set xs \<Longrightarrow> f (g x) = Some (h x)) \<Longrightarrow> get_all f (map g xs) = Some (map h xs)"
  by (induction xs) auto

lemma get_string_list_of_strings [json_simps]: "get_string_list (json_of_strings ss) = Some ss"
  using get_all_map [of ss get_string JString id] by (simp add: json_of_strings_def)

lemma get_string_map_of_map [json_simps]: "get_string_map (json_of_map kvs) = Some kvs"
  using get_all_map [of kvs get_entry "\<lambda>(k, v). (k, JString v)" id]
  by (simp add: json_of_map_def get_entry_def case_prod_unfold)

section \<open>PruneJson\<close>

lemma sorted_distinct_before:
  fixes y :: "'a::linorder"
  shows "sorted (xs @ y # ys) \<Longrightarrow> distinct (xs @ y # ys) \<Longrightarrow> x \<in> set xs \<Longrightarrow> x < y"
  by (auto simp: sorted_append order.strict_iff_order)

lemma prune_loop:
  "ordered_keys (acc @ kvs) \<Longrightarrow>
   foldl (\<lambda>result el. if \<not> is_null (snd el) then jput (fst el) (snd el) result else result)
     (JObject acc) kvs
   = JObject (acc @ filter (\<lambda>el. \<not> is_null (snd el)) kvs)"
proof (induction kvs arbitrary: acc)
  case (Cons el kvs)
  have "\<forall>k' \<in> fst ` set acc. k' < fst el"
    using Cons.prems sorted_distinct_before [of "map fst acc" "fst el" "map fst kvs"]
    by (simp add: ordered_keys_def)
  then have put: "jput (fst el) (snd el) (JObject acc) = JObject (acc @ [el])"
    by (simp add: map_put_last)
  have "ordered_keys ((acc @ [el]) @ kvs)" "ordered_keys (acc @ kvs)"
    using Cons.prems by (simp_all add: ordered_keys_def sorted_append)
  then show ?case
    using Cons.IH [of "acc @ [el]"] Cons.IH [of acc] put by simp
qed simp

text \<open>
  Pruning an object whose fields are in key order (as every \<^verbatim>\<open>std::map\<close> is) removes
  exactly the fields whose value is null and keeps the others in order; other values are
  returned as they are.
\<close>

lemma PruneJson_fields:
  assumes "ordered_keys kvs"
  shows "PruneJson (JObject kvs) = JObject (filter (\<lambda>kv. \<not> is_null (snd kv)) kvs)
         \<and> ordered_keys (items (PruneJson (JObject kvs)))
         \<and> (\<not> is_object j \<longrightarrow> PruneJson j = j)"
proof -
  have "PruneJson (JObject kvs) = JObject (filter (\<lambda>kv. \<not> is_null (snd kv)) kvs)"
    using prune_loop [of "[]" kvs] assms by (simp add: PruneJson_def)
  moreover have "ordered_keys (filter (\<lambda>kv. \<not> is_null (snd kv)) kvs)"
    using assms by (simp add: ordered_keys_def sorted_filter distinct_map_filter)
  ultimately show ?thesis by (simp add: PruneJson_def)
qed

section \<open>AbbreviateJson\<close>

text \<open>What the library documents of \<^verbatim>\<open>dump()\<close> without an indentation: the compact form.\<close>

fun join_fields :: "(json \<Rightarrow> string + string) \<Rightarrow> (string \<times> json) list \<Rightarrow> string + string" where
  "join_fields dump [] = Inr []"
| "join_fields dump ((k, v) # kvs) =
     bindE (dump (JString k)) (\<lambda>ks. bindE (dump v) (\<lambda>s. bindE (join_fields dump kvs) (\<lambda>rest.
     Inr (ks @ '':'' @ s @ comma_unless_last kvs @ rest))))"

fun join_elements :: "(json \<Rightarrow> string + string) \<Rightarrow> json list \<Rightarrow> string + string" where
  "join_elements dump [] = Inr []"
| "join_elements dump (v # vs) =
     bindE (dump v) (\<lambda>s. bindE (join_elements dump vs) (\<lambda>rest.
     Inr (s @ comma_unless_last vs @ rest)))"

definition compact_dump :: "nlohmann \<Rightarrow> bool" where
  "compact_dump N \<longleftrightarrow>
     (\<forall>kvs. nl_dump N (JObject kvs) =
        bindE (join_fields (nl_dump N) kvs) (\<lambda>s. Inr (''{'' @ s @ ''}''))) \<and>
     (\<forall>vs. nl_dump N (JArray vs) =
        bindE (join_elements (nl_dump N) vs) (\<lambda>s. Inr (''['' @ s @ '']'')))"

function (sequential) json_depth :: "json \<Rightarrow> nat"
and fields_depth :: "(string \<times> json) list \<Rightarrow> nat"
and elements_depth :: "json list \<Rightarrow> nat" where
  "json_depth (JObject kvs) = fields_depth kvs"
| "json_depth (JArray vs) = elements_depth vs"
| "json_depth j = 0"
| "fields_depth [] = 0"
| "fields_depth ((k, v) # kvs) = max (Suc (json_depth v)) (fields_depth kvs)"
| "elements_depth [] = 0"
| "elements_depth (v # vs) = max (Suc (json_depth v)) (elements_depth vs)"
  by pat_completeness auto
termination
  by (relation "measure (case_sum size (case_sum
        (size_list (size_prod (\<lambda>_. 0) size)) (size_list size)))") simp_all

lemma truncate_full:
  assumes "compact_dump N"
  shows "json_depth j < d \<Longrightarrow> TruncateJson N j d = nl_dump N j"
    and "fields_depth kvs \<le> d' \<Longrightarrow> truncate_fields N kvs d' = join_fields (nl_dump N) kvs"
    and "elements_depth vs \<le> d'' \<Longrightarrow> truncate_elements N vs d'' = join_elements (nl_dump N) vs"
  using assms
  by (induction N j d and N kvs d' and N vs d''
        rule: TruncateJson_truncate_fields_truncate_elements.induct)
    (simp_all add: compact_dump_def)

lemma truncate_defined:
  assumes "compact_dump N"
  shows "nl_dump N j = Inr s \<Longrightarrow> \<exists>t. TruncateJson N j d = Inr t"
    and "join_fields (nl_dump N) kvs = Inr s' \<Longrightarrow> \<exists>t. truncate_fields N kvs d' = Inr t"
    and "join_elements (nl_dump N) vs = Inr s'' \<Longrightarrow> \<exists>t. truncate_elements N vs d'' = Inr t"
  using assms
  by (induction N j d and N kvs d' and N vs d'' arbitrary: s and s' and s''
        rule: TruncateJson_truncate_fields_truncate_elements.induct)
    (fastforce simp: compact_dump_def bindE_Inr_iff)+

lemma abbreviate_loop_ends:
  assumes "compact_dump N" "nl_dump N j = Inr full" "len < length full"
    and "TruncateJson N j i = Inr new" "length new \<le> len"
  shows "\<exists>k s s'. i \<le> k \<and> abbreviate_loop N j len i old new = Some (Inr s)
           \<and> TruncateJson N j k = Inr s \<and> length s \<le> len
           \<and> TruncateJson N j (k + 1) = Inr s' \<and> len < length s'"
  using assms(4,5)
proof (induction "json_depth j + 1 - i" arbitrary: i old new rule: less_induct)
  case less
  have i: "i \<le> json_depth j"
    using truncate_full(1) [OF assms(1), of j i] less.prems assms(2,3) by (cases "json_depth j < i") auto
  obtain next_abbrev where n: "TruncateJson N j (i + 1) = Inr next_abbrev"
    using truncate_defined(1) [OF assms(1,2)] by blast
  have step: "abbreviate_loop N j len i old new = abbreviate_loop N j len (i + 1) new next_abbrev"
    using less.prems n by (subst abbreviate_loop.simps) simp
  have dec: "json_depth j + 1 - (i + 1) < json_depth j + 1 - i" using i by linarith
  show ?case
  proof (cases "length next_abbrev \<le> len")
    case True
    from less.hyps [OF dec n this, of new] obtain k s s' where "i + 1 \<le> k" "TruncateJson N j k = Inr s" "length s \<le> len"
      "TruncateJson N j (k + 1) = Inr s'" "len < length s'"
      "abbreviate_loop N j len (i + 1) new next_abbrev = Some (Inr s)"
      by blast
    then show ?thesis using step by (intro exI [of _ k]) auto
  next
    case False
    then have "abbreviate_loop N j len (i + 1) new next_abbrev = Some (Inr new)"
      by (subst abbreviate_loop.simps) simp
    then show ?thesis using step less.prems n False by (intro exI [of _ i]) auto
  qed
qed

text \<open>
  \<^verbatim>\<open>AbbreviateJson\<close> always ends. A value that prints within the length is printed
  whole; of a longer one the result is a truncation that fits while the next deeper one
  does not, or the truncation to depth 1 where that is too long already.
\<close>

theorem AbbreviateJson_ends:
  assumes "compact_dump N" "nl_dump N j = Inr full"
  shows "if length full \<le> len then AbbreviateJson N j len = Some (Inr full)
         else \<exists>i s. 1 \<le> i \<and> AbbreviateJson N j len = Some (Inr s) \<and> TruncateJson N j i = Inr s
                \<and> (length s \<le> len \<and> (\<exists>s'. TruncateJson N j (i + 1) = Inr s' \<and> len < length s')
                   \<or> i = 1 \<and> len < length s)"
proof (cases "length full \<le> len")
  case False
  obtain new where new: "TruncateJson N j 1 = Inr new"
    using truncate_defined(1) [OF assms] by blast
  have run: "AbbreviateJson N j len = abbreviate_loop N j len 1 new new"
    using False assms(2) new by (simp add: AbbreviateJson_def)
  show ?thesis
  proof (cases "length new \<le> len")
    case True
    then show ?thesis
      using abbreviate_loop_ends [OF assms _ new, of len new] False run by auto
  next
    case long: False
    then have "abbreviate_loop N j len 1 new new = Some (Inr new)"
      by (subst abbreviate_loop.simps) simp
    then show ?thesis using False run new long by auto
  qed
qed (use assms(2) in \<open>simp add: AbbreviateJson_def\<close>)

text \<open>A printer of objects and arrays for concrete runs.\<close>

function (sequential) sample_dump :: "json \<Rightarrow> string + string"
and sample_fields :: "(string \<times> json) list \<Rightarrow> string + string"
and sample_elements :: "json list \<Rightarrow> string + string" where
  "sample_dump (JObject kvs) = bindE (sample_fields kvs) (\<lambda>s. Inr (''{'' @ s @ ''}''))"
| "sample_dump (JArray vs) = bindE (sample_elements vs) (\<lambda>s. Inr (''['' @ s @ '']''))"
| "sample_dump (JString s) = Inr ([CHR 0x22] @ s @ [CHR 0x22])"
| "sample_dump (JBool b) = Inr (if b then ''true'' else ''false'')"
| "sample_dump (JUnsigned n) = Inr (to_string_nat (unat n))"
| "sample_dump _ = Inr ''null''"
| "sample_fields [] = Inr []"
| "sample_fields ((k, v) # kvs) =
     bindE (Inr ([CHR 0x22] @ k @ [CHR 0x22])) (\<lambda>ks. bindE (sample_dump v) (\<lambda>s.
     bindE (sample_fields kvs) (\<lambda>rest. Inr (ks @ '':'' @ s @ comma_unless_last kvs @ rest))))"
| "sample_elements [] = Inr []"
| "sample_elements (v # vs) =
     bindE (sample_dump v) (\<lambda>s. bindE (sample_elements vs) (\<lambda>rest.
     Inr (s @ comma_unless_last vs @ rest)))"
  by pat_completeness auto
termination
  by (relation "measure (case_sum size (case_sum
        (size_list (size_prod (\<lambda>_. 0) size)) (size_list size)))") simp_all

fun sample_get_size :: "json \<Rightarrow> 64 word option" where
  "sample_get_size (JUnsigned n) = Some n"
| "sample_get_size _ = None"

fun sample_get_double :: "json \<Rightarrow> double_bits option" where
  "sample_get_double (JFloat d) = Some d"
| "sample_get_double _ = None"

definition sample_nlohmann :: nlohmann where
  "sample_nlohmann = \<lparr>nl_dump = sample_dump, nl_get_size = sample_get_size,
                      nl_get_double = sample_get_double\<rparr>"

lemma sample_compact: "compact_dump sample_nlohmann"
proof -
  have "sample_fields kvs = join_fields sample_dump kvs" for kvs
    by (induction kvs) auto
  moreover have "sample_elements vs = join_elements sample_dump vs" for vs
    by (induction vs) auto
  ultimately show ?thesis by (simp add: compact_dump_def sample_nlohmann_def)
qed

theorem AbbreviateJson_ends_witness:
  "\<exists>i s. 1 \<le> i \<and>
     AbbreviateJson sample_nlohmann (JArray [JArray [JBool True], JBool False]) 10 = Some (Inr s) \<and>
     TruncateJson sample_nlohmann (JArray [JArray [JBool True], JBool False]) i = Inr s"
  using AbbreviateJson_ends [OF sample_compact, of "JArray [JArray [JBool True], JBool False]" _ 10]
  by (simp add: sample_nlohmann_def comma_unless_last_def) blast

end
