(* ===== verification/Jst_Reader.thy ===== *)
theory Jst_Reader
  imports Jst_Prelude
begin

text \<open>
  \<^verbatim>\<open>src/utils/cpp/incremental_reader.{hpp,cpp}\<close>: reading a file or a string chunk by chunk.
  A file system is a parameter: what \<^verbatim>\<open>std::filesystem\<close> and \<^verbatim>\<open>std::FILE\<close> say about a
  path. An open file is its content with the offsets at which reading fails; \<^verbatim>\<open>fread\<close> gives
  fewer bytes than asked for only at the end or on an error, so that the loop around it is
  one read. Offsets are natural numbers, sizes of files being far below the range of
  \<^verbatim>\<open>std::size_t\<close>.
\<close>

section \<open>The reader and its sources\<close>

datatype ContentSource = FileSource string "nat \<Rightarrow> bool" | MemorySource string

record IncrementalReader =
  chunk_size :: nat
  content_size :: nat
  content :: ContentSource

record file_system =
  is_regular_file :: "string \<Rightarrow> string + bool"
  fopen :: "string \<Rightarrow> (string \<times> (nat \<Rightarrow> bool)) option"
  file_size :: "string \<Rightarrow> string + nat"

definition zero_chunk_size :: string where
  "zero_chunk_size = ''IncrementalReader: the chunk size cannot be 0''"

definition reader_exception :: "string \<Rightarrow> string \<Rightarrow> string" where
  "reader_exception path what =
     ''IncrementalReader: While processing '' @ path @ [CHR 0x0A] @ ''got an exception: '' @ what"

definition FromFile :: "file_system \<Rightarrow> nat \<Rightarrow> string \<Rightarrow> string + IncrementalReader" where
  "FromFile fs chunk path =
     (if chunk = 0 then Inl zero_chunk_size
      else case is_regular_file fs path of
        Inl what \<Rightarrow> Inl (reader_exception path what)
      | Inr False \<Rightarrow> Inl (''IncrementalReader: not a file :'' @ [CHR 0x0A, CHR 0x20] @ path @ '' '')
      | Inr True \<Rightarrow>
          (case fopen fs path of
             None \<Rightarrow> Inl (''IncrementalReader: failed to open the file:'' @ [CHR 0x0A] @ path)
           | Some (bytes, fails) \<Rightarrow>
               (case file_size fs path of
                  Inl what \<Rightarrow> Inl (reader_exception path what)
                | Inr bytes_size \<Rightarrow> Inr \<lparr>chunk_size = chunk, content_size = bytes_size,
                                 content = FileSource bytes fails\<rparr>)))"

definition FromMemory :: "nat \<Rightarrow> string \<Rightarrow> string + IncrementalReader" where
  "FromMemory chunk data =
     (if chunk = 0 then Inl zero_chunk_size
      else Inr \<lparr>chunk_size = chunk, content_size = length data, content = MemorySource data\<rparr>)"

section \<open>Chunks\<close>

definition ReadFromFile ::
  "IncrementalReader \<Rightarrow> string \<Rightarrow> (nat \<Rightarrow> bool) \<Rightarrow> nat \<Rightarrow> string + string" where
  "ReadFromFile r bytes fails offset =
     (if fails offset then Inl ''IncrementalReader: ReadFromFile: ferror 1''
      else Inr (take (chunk_size r) (drop offset bytes)))"

definition ReadFromMemory :: "IncrementalReader \<Rightarrow> string \<Rightarrow> nat \<Rightarrow> string + string" where
  "ReadFromMemory r data offset =
     (if data = [] then Inr []
      else if length data \<le> offset
      then Inl (''IncrementalReader: ReadChunk got an exception:'' @ [CHR 0x0A] @ ''basic_string::at'')
      else Inr (take (min (chunk_size r) (length data - offset)) (drop offset data)))"

definition ReadChunk :: "IncrementalReader \<Rightarrow> nat \<Rightarrow> string + string" where
  "ReadChunk r offset =
     (case content r of
        FileSource bytes fails \<Rightarrow> ReadFromFile r bytes fails offset
      | MemorySource data \<Rightarrow> ReadFromMemory r data offset)"

text \<open>An iterator of a reader is its offset.\<close>

definition GetEndOffset :: "IncrementalReader \<Rightarrow> nat" where
  "GetEndOffset r = content_size r + 1"

definition make_iterator :: "IncrementalReader \<Rightarrow> nat \<Rightarrow> nat" where
  "make_iterator r offset = min offset (GetEndOffset r)"

definition reader_begin :: "IncrementalReader \<Rightarrow> nat" where
  "reader_begin r = make_iterator r 0"

definition reader_end :: "IncrementalReader \<Rightarrow> nat" where
  "reader_end r = make_iterator r (GetEndOffset r)"

definition iterator_next :: "IncrementalReader \<Rightarrow> nat \<Rightarrow> nat" where
  "iterator_next r offset =
     (let offset = offset + chunk_size r
      in if content_size r \<le> offset then GetEndOffset r else offset)"

text \<open>
  A loop over the chunks of a reader, as the list of the values that the iterator is
  dereferenced to; a loop without an end is \<open>None\<close>.
\<close>

partial_function (option) iterate :: "IncrementalReader \<Rightarrow> nat \<Rightarrow> (string + string) list option" where
  "iterate r offset =
     (if offset = reader_end r then Some []
      else Option.bind (iterate r (iterator_next r offset))
             (\<lambda>rest. Some (ReadChunk r offset # rest)))"

section \<open>Reading everything\<close>

lemma iterate_end: "iterate r (GetEndOffset r) = Some []"
  by (subst iterate.simps) (simp add: reader_end_def make_iterator_def)

text \<open>What a reader of a source without errors gives for each offset.\<close>

definition reads :: "IncrementalReader \<Rightarrow> string \<Rightarrow> bool" where
  "reads r bytes \<longleftrightarrow>
     0 < chunk_size r \<and> content_size r = length bytes \<and>
     (\<forall>offset. offset < length bytes \<or> offset = 0 \<longrightarrow>
        ReadChunk r offset = Inr (take (chunk_size r) (drop offset bytes)))"

lemma FromMemory_reads: "FromMemory chunk data = Inr r \<Longrightarrow> reads r data \<and> chunk_size r = chunk"
  by (auto simp: FromMemory_def reads_def ReadChunk_def ReadFromMemory_def min_def split: if_splits)

lemma FromFile_reads:
  assumes "FromFile fs chunk path = Inr r" "fopen fs path = Some (bytes, \<lambda>_. False)"
    and "file_size fs path = Inr (length bytes)"
  shows "reads r bytes \<and> chunk_size r = chunk"
  using assms
  by (auto simp: FromFile_def reads_def ReadChunk_def ReadFromFile_def
      split: if_splits sum.splits bool.splits)

lemma iterate_step:
  assumes "reads r bytes" "offset < length bytes \<or> offset = 0"
  shows "iterate r offset = map_option (Cons (Inr (take (chunk_size r) (drop offset bytes))))
           (iterate r (iterator_next r offset))"
  using assms
  by (subst iterate.simps)
    (auto simp: reads_def reader_end_def make_iterator_def GetEndOffset_def split: Option.bind_split)

lemma iterate_chunks:
  assumes r: "reads r bytes" and "offset < length bytes \<or> offset = 0"
  shows "\<exists>cks. iterate r offset = Some (map Inr cks) \<and> cks \<noteq> []
           \<and> concat cks = drop offset bytes
           \<and> (\<forall>ck \<in> set (butlast cks). length ck = chunk_size r)
           \<and> length (last cks) \<le> chunk_size r"
  using assms(2)
proof (induction "length bytes - offset" arbitrary: offset rule: less_induct)
  case less
  let ?n = "chunk_size r"
  have pos: "0 < ?n" "content_size r = length bytes" using r by (simp_all add: reads_def)
  show ?case
  proof (cases "length bytes \<le> offset + ?n")
    case True
    then have "iterate r offset = Some (map Inr [take ?n (drop offset bytes)])"
      using iterate_step [OF r less.prems] pos
      by (simp add: iterator_next_def iterate_end)
    then show ?thesis using True
      by (intro exI [of _ "[take ?n (drop offset bytes)]"]) simp
  next
    case False
    have dec: "length bytes - (offset + ?n) < length bytes - offset"
      using False pos by linarith
    from False have "offset + ?n < length bytes \<or> offset + ?n = 0" by simp
    from less.hyps [OF dec this] obtain cks where *: "iterate r (offset + ?n) = Some (map Inr cks)" "cks \<noteq> []"
      "concat cks = drop (offset + ?n) bytes"
      "\<forall>ck \<in> set (butlast cks). length ck = ?n" "length (last cks) \<le> ?n"
      by blast
    have "iterate r offset = Some (map Inr (take ?n (drop offset bytes) # cks))"
      using iterate_step [OF r less.prems] False pos * by (simp add: iterator_next_def)
    moreover have "take ?n (drop offset bytes) @ drop (offset + ?n) bytes = drop offset bytes"
      using append_take_drop_id [of ?n "drop offset bytes"] by (simp add: add.commute)
    ultimately show ?thesis using * False
      by (intro exI [of _ "take ?n (drop offset bytes) # cks"]) auto
  qed
qed

text \<open>
  C21: the loop over a reader ends after at least one chunk, the chunks together are the
  content, and every chunk before the last is full, for strings and for files that are
  read without errors.
\<close>

theorem reader_chunks:
  assumes "FromMemory chunk bytes = Inr r
           \<or> FromFile fs chunk path = Inr r \<and> fopen fs path = Some (bytes, \<lambda>_. False)
             \<and> file_size fs path = Inr (length bytes)"
  shows "\<exists>cks. iterate r (reader_begin r) = Some (map Inr cks) \<and> cks \<noteq> [] \<and> concat cks = bytes
           \<and> (\<forall>ck \<in> set (butlast cks). length ck = chunk) \<and> length (last cks) \<le> chunk"
proof -
  have "reads r bytes \<and> chunk_size r = chunk"
    using assms FromMemory_reads FromFile_reads by blast
  then show ?thesis
    using iterate_chunks [of r bytes 0] by (auto simp: reader_begin_def make_iterator_def)
qed

theorem reader_chunks_witness:
  "\<exists>cks. iterate \<lparr>chunk_size = 2, content_size = 5, content = MemorySource ''hello''\<rparr> 0
           = Some (map Inr cks) \<and> concat cks = ''hello'' \<and> length (last cks) \<le> 2"
  using reader_chunks [of 2 "''hello''"
      "\<lparr>chunk_size = 2, content_size = 5, content = MemorySource ''hello''\<rparr>"]
  by (auto simp: FromMemory_def reader_begin_def make_iterator_def)

end
