(* ===== verification/Jst_Hash.thy ===== *)
theory Jst_Hash
  imports Jst_Reader "HOL-Library.Word"
begin

text \<open>
  Hashes and digests: \<^verbatim>\<open>src/utils/cpp/hex_string.hpp\<close>, \<^verbatim>\<open>src/buildtool/crypto/hasher\<close>,
  \<^verbatim>\<open>hash_function\<close> and \<^verbatim>\<open>hash_info\<close>, \<^verbatim>\<open>src/buildtool/file_system/object_type.hpp\<close>,
  \<^verbatim>\<open>src/buildtool/common/protocol_traits.hpp\<close>, \<^verbatim>\<open>artifact_digest.hpp\<close> and
  \<^verbatim>\<open>artifact_digest_factory.cpp\<close>. The message digests of OpenSSL are the parameter
  \<open>openssl\<close>; its failures to allocate or to update, on which the code aborts, are left out.
\<close>

section \<open>Numbers in strings\<close>

datatype stoul_error = InvalidArgument | OutOfRange

definition digit_value :: "char \<Rightarrow> nat option" where
  "digit_value c =
     (let n = of_char c :: nat
      in if 48 \<le> n \<and> n \<le> 57 then Some (n - 48)
         else if 97 \<le> n \<and> n \<le> 122 then Some (n - 87)
         else if 65 \<le> n \<and> n \<le> 90 then Some (n - 55)
         else None)"

definition is_digit_of :: "nat \<Rightarrow> char \<Rightarrow> bool" where
  "is_digit_of base c \<longleftrightarrow> (case digit_value c of None \<Rightarrow> False | Some v \<Rightarrow> v < base)"

fun read_digits :: "nat \<Rightarrow> string \<Rightarrow> nat \<Rightarrow> nat" where
  "read_digits base [] acc = acc"
| "read_digits base (c # cs) acc =
     (if is_digit_of base c then read_digits base cs (acc * base + the (digit_value c)) else acc)"

definition skip_hex_prefix :: "nat \<Rightarrow> string \<Rightarrow> string" where
  "skip_hex_prefix base s =
     (if base = 16 \<and> 3 \<le> length s \<and> s ! 0 = CHR 0x30 \<and>
         (s ! 1 = CHR 0x78 \<or> s ! 1 = CHR 0x58) \<and> is_digit_of 16 (s ! 2)
      then drop 2 s else s)"

text \<open>\<^verbatim>\<open>std::stoul\<close> with 64 bits: spaces, a sign, for base 16 a prefix, and digits.\<close>

definition stoul :: "nat \<Rightarrow> string \<Rightarrow> stoul_error + 64 word" where
  "stoul base str =
     (let s = dropWhile isspace str;
          negative = (s \<noteq> [] \<and> hd s = CHR 0x2D);
          s = (if s \<noteq> [] \<and> (hd s = CHR 0x2D \<or> hd s = CHR 0x2B) then tl s else s);
          s = skip_hex_prefix base s
      in if s = [] \<or> \<not> is_digit_of base (hd s) then Inl InvalidArgument
         else let n = read_digits base s 0
              in if 2 ^ 64 \<le> n then Inl OutOfRange
                 else Inr (if negative then - word_of_nat n else word_of_nat n))"

section \<open>Hexadecimal strings\<close>

definition isxdigit :: "char \<Rightarrow> bool" where
  "isxdigit c \<longleftrightarrow> is_digit_of 16 c"

definition IsHexString :: "string \<Rightarrow> bool" where
  "IsHexString s \<longleftrightarrow> list_all isxdigit s"

definition hex_digit :: "nat \<Rightarrow> char" where
  "hex_digit n = (if n < 10 then char_of (48 + n) else char_of (87 + n))"

definition ToHexString :: "string \<Rightarrow> string" where
  "ToHexString bytes =
     concat (map (\<lambda>b. [hex_digit (of_char b div 16), hex_digit (of_char b mod 16)]) bytes)"

function FromHexString :: "string \<Rightarrow> string option" where
  "FromHexString s =
     (if s = [] then Some []
      else case stoul 16 (take 2 s) of
        Inl _ \<Rightarrow> None
      | Inr v \<Rightarrow> map_option (Cons (char_of (unat v mod 256))) (FromHexString (drop 2 s)))"
  by pat_completeness auto
termination by (relation "measure length") auto

declare FromHexString.simps [simp del]

section \<open>Hash functions\<close>

datatype Hasher_HashType = SHA1 | SHA256 | SHA512

record openssl =
  evp_digest :: "Hasher_HashType \<Rightarrow> string \<Rightarrow> string"
  evp_md_size :: "Hasher_HashType \<Rightarrow> nat"

text \<open>A hasher and the bytes it has been fed.\<close>

record Hasher =
  hasher_type :: Hasher_HashType
  hasher_data :: string

definition Hasher_Create :: "Hasher_HashType \<Rightarrow> Hasher" where
  "Hasher_Create ty = \<lparr>hasher_type = ty, hasher_data = []\<rparr>"

definition Update :: "Hasher \<Rightarrow> string \<Rightarrow> Hasher" where
  "Update h data = h\<lparr>hasher_data := hasher_data h @ data\<rparr>"

definition Finalize :: "openssl \<Rightarrow> Hasher \<Rightarrow> string" where
  "Finalize ossl h = evp_digest ossl (hasher_type h) (hasher_data h)"

definition GetHashLength :: "openssl \<Rightarrow> Hasher \<Rightarrow> nat" where
  "GetHashLength ossl h = 2 * evp_md_size ossl (hasher_type h)"

datatype HashType = GitSHA1 | PlainSHA256

fun HashType_ToString :: "HashType \<Rightarrow> string" where
  "HashType_ToString GitSHA1 = ''git-SHA1''"
| "HashType_ToString PlainSHA256 = ''plain-SHA256''"

fun MakeHasher :: "HashType \<Rightarrow> Hasher" where
  "MakeHasher GitSHA1 = Hasher_Create SHA1"
| "MakeHasher PlainSHA256 = Hasher_Create SHA256"

definition CreateGitTreeTag :: "nat \<Rightarrow> string" where
  "CreateGitTreeTag n = ''tree '' @ to_string_nat n @ [CHR 0x00]"

definition CreateGitBlobTag :: "nat \<Rightarrow> string" where
  "CreateGitBlobTag n = ''blob '' @ to_string_nat n @ [CHR 0x00]"

definition HashTaggedLine ::
  "openssl \<Rightarrow> HashType \<Rightarrow> string \<Rightarrow> (nat \<Rightarrow> string) option \<Rightarrow> string" where
  "HashTaggedLine ossl ty data tag_creator =
     (let hasher = MakeHasher ty;
          hasher = (case tag_creator of
                      Some tag \<Rightarrow> if ty = GitSHA1 then Update hasher (tag (length data)) else hasher
                    | None \<Rightarrow> hasher);
          hasher = Update hasher data
      in Finalize ossl hasher)"

definition HashBlobData :: "openssl \<Rightarrow> HashType \<Rightarrow> string \<Rightarrow> string" where
  "HashBlobData ossl ty data = HashTaggedLine ossl ty data (Some CreateGitBlobTag)"

definition HashTreeData :: "openssl \<Rightarrow> HashType \<Rightarrow> string \<Rightarrow> string" where
  "HashTreeData ossl ty data = HashTaggedLine ossl ty data (Some CreateGitTreeTag)"

definition PlainHashData :: "openssl \<Rightarrow> HashType \<Rightarrow> string \<Rightarrow> string" where
  "PlainHashData ossl ty data = HashTaggedLine ossl ty data None"

fun update_chunks :: "Hasher \<Rightarrow> (string + string) list \<Rightarrow> Hasher option" where
  "update_chunks hasher [] = Some hasher"
| "update_chunks hasher (Inl _ # cks) = None"
| "update_chunks hasher (Inr chunk # cks) = update_chunks (Update hasher chunk) cks"

datatype file_hash = FileHash string nat | NoFileHash | SizeThrows

text \<open>
  \<^verbatim>\<open>file_size\<close> stands outside the handler of a \<^verbatim>\<open>noexcept\<close> function: where it throws, the
  program is terminated (\<open>SizeThrows\<close>). A loop over the chunks without an end is \<open>None\<close>.
\<close>

definition HashTaggedFile ::
  "openssl \<Rightarrow> file_system \<Rightarrow> HashType \<Rightarrow> string \<Rightarrow> (nat \<Rightarrow> string) \<Rightarrow> file_hash option" where
  "HashTaggedFile ossl fs ty path tag_creator =
     (case file_size fs path of
        Inl _ \<Rightarrow> Some SizeThrows
      | Inr bytes_size \<Rightarrow>
          let hasher = MakeHasher ty;
              hasher = (if ty = GitSHA1 then Update hasher (tag_creator bytes_size) else hasher)
          in case FromFile fs 4048 path of
               Inl _ \<Rightarrow> Some NoFileHash
             | Inr to_read \<Rightarrow>
                 map_option
                   (\<lambda>cks. case update_chunks hasher cks of
                            None \<Rightarrow> NoFileHash
                          | Some hasher \<Rightarrow> FileHash (Finalize ossl hasher) bytes_size)
                   (iterate to_read (reader_begin to_read)))"

definition HashBlobFile :: "openssl \<Rightarrow> file_system \<Rightarrow> HashType \<Rightarrow> string \<Rightarrow> file_hash option" where
  "HashBlobFile ossl fs ty path = HashTaggedFile ossl fs ty path CreateGitBlobTag"

definition HashTreeFile :: "openssl \<Rightarrow> file_system \<Rightarrow> HashType \<Rightarrow> string \<Rightarrow> file_hash option" where
  "HashTreeFile ossl fs ty path = HashTaggedFile ossl fs ty path CreateGitTreeTag"

section \<open>Hash information\<close>

definition IsNative :: "HashType \<Rightarrow> bool" where
  "IsNative ty \<longleftrightarrow> ty = GitSHA1"

definition IsTreeAllowed :: "HashType \<Rightarrow> bool" where
  "IsTreeAllowed ty \<longleftrightarrow> IsNative ty"

record HashInfo =
  hi_hash :: string
  hi_hash_type :: HashType
  hi_is_tree :: bool

definition kSHA1EmptyGitBlobHash :: string where
  "kSHA1EmptyGitBlobHash = ''e69de29bb2d1d6434b8b29ae775ad8c2e48c5391''"

definition HashInfo_default :: HashInfo where
  "HashInfo_default =
     \<lparr>hi_hash = kSHA1EmptyGitBlobHash, hi_hash_type = GitSHA1, hi_is_tree = False\<rparr>"

definition ValidateInput :: "openssl \<Rightarrow> HashType \<Rightarrow> string \<Rightarrow> bool \<Rightarrow> string option" where
  "ValidateInput ossl ty hash is_tree =
     (let exp_size = GetHashLength ossl (MakeHasher ty)
      in if is_tree \<and> \<not> IsTreeAllowed ty
         then Some (''HashInfo: hash '' @ hash @ '' is expected to be '' @ HashType_ToString ty @
                    ''.'' @ [CHR 0x0A] @ ''Trees are not allowed in this mode.'')
         else if length hash \<noteq> exp_size
         then Some (''HashInfo: hash '' @ hash @ '' is expected to be '' @ HashType_ToString ty @
                    ''.'' @ [CHR 0x0A] @ '' It must have a length of '' @ to_string_nat exp_size @
                    '', but its length is '' @ to_string_nat (length hash) @ ''.'')
         else if \<not> IsHexString hash then Some (''HashInfo: Invalid hash '' @ hash)
         else None)"

definition HashInfo_Create ::
  "openssl \<Rightarrow> HashType \<Rightarrow> string \<Rightarrow> bool \<Rightarrow> string + HashInfo" where
  "HashInfo_Create ossl ty hash is_tree =
     (case ValidateInput ossl ty hash is_tree of
        Some err \<Rightarrow> Inl err
      | None \<Rightarrow> Inr \<lparr>hi_hash = hash, hi_hash_type = ty, hi_is_tree = is_tree\<rparr>)"

definition HashInfo_HashData :: "openssl \<Rightarrow> HashType \<Rightarrow> string \<Rightarrow> bool \<Rightarrow> HashInfo" where
  "HashInfo_HashData ossl ty data is_tree =
     (let hash_digest = (if is_tree then HashTreeData ossl ty data else HashBlobData ossl ty data)
      in \<lparr>hi_hash = ToHexString hash_digest, hi_hash_type = ty,
          hi_is_tree = (is_tree \<and> IsTreeAllowed ty)\<rparr>)"

datatype file_info = FileInfo HashInfo nat | NoFileInfo | InfoThrows

definition HashInfo_HashFile ::
  "openssl \<Rightarrow> file_system \<Rightarrow> HashType \<Rightarrow> string \<Rightarrow> bool \<Rightarrow> file_info option" where
  "HashInfo_HashFile ossl fs ty path is_tree =
     map_option
       (\<lambda>hash_digest. case hash_digest of
            FileHash bytes bytes_size \<Rightarrow>
              FileInfo \<lparr>hi_hash = ToHexString bytes, hi_hash_type = ty,
                        hi_is_tree = (is_tree \<and> ty = GitSHA1)\<rparr> bytes_size
          | NoFileHash \<Rightarrow> NoFileInfo
          | SizeThrows \<Rightarrow> InfoThrows)
       (if is_tree then HashTreeFile ossl fs ty path else HashBlobFile ossl fs ty path)"

definition HashInfo_eq :: "HashInfo \<Rightarrow> HashInfo \<Rightarrow> bool" where
  "HashInfo_eq a b \<longleftrightarrow> hi_hash a = hi_hash b \<and> hi_is_tree a = hi_is_tree b"

section \<open>Object types and digests\<close>

datatype ObjectType = FileObject | ExecutableObject | TreeObject | SymlinkObject

definition FromChar :: "char \<Rightarrow> ObjectType" where
  "FromChar c =
     (if c = CHR ''x'' then ExecutableObject
      else if c = CHR ''t'' then TreeObject
      else if c = CHR ''l'' then SymlinkObject
      else FileObject)"

fun ToChar :: "ObjectType \<Rightarrow> char" where
  "ToChar FileObject = CHR ''f''"
| "ToChar ExecutableObject = CHR ''x''"
| "ToChar TreeObject = CHR ''t''"
| "ToChar SymlinkObject = CHR ''l''"

definition IsFileObject :: "ObjectType \<Rightarrow> bool" where
  "IsFileObject ty \<longleftrightarrow> ty = ExecutableObject \<or> ty = FileObject"

definition IsTreeObject :: "ObjectType \<Rightarrow> bool" where
  "IsTreeObject ty \<longleftrightarrow> ty = TreeObject"

definition IsSymlinkObject :: "ObjectType \<Rightarrow> bool" where
  "IsSymlinkObject ty \<longleftrightarrow> ty = SymlinkObject"

definition IsBlobObject :: "ObjectType \<Rightarrow> bool" where
  "IsBlobObject ty \<longleftrightarrow> ty = ExecutableObject \<or> ty = FileObject \<or> ty = SymlinkObject"

definition IsNonSpecialObject :: "ObjectType \<Rightarrow> bool" where
  "IsNonSpecialObject ty \<longleftrightarrow> ty = FileObject \<or> ty = ExecutableObject \<or> ty = TreeObject"

record ArtifactDigest =
  digest_info :: HashInfo
  digest_size :: "64 word"

definition ArtifactDigest_eq :: "ArtifactDigest \<Rightarrow> ArtifactDigest \<Rightarrow> bool" where
  "ArtifactDigest_eq a b \<longleftrightarrow> HashInfo_eq (digest_info a) (digest_info b)"

definition ArtifactDigest_Create ::
  "openssl \<Rightarrow> HashType \<Rightarrow> string \<Rightarrow> 64 word \<Rightarrow> bool \<Rightarrow> string + ArtifactDigest" where
  "ArtifactDigest_Create ossl ty hash sz is_tree =
     (case HashInfo_Create ossl ty hash (IsTreeAllowed ty \<and> is_tree) of
        Inl err \<Rightarrow> Inl err
      | Inr hash_info \<Rightarrow> Inr \<lparr>digest_info = hash_info, digest_size = sz\<rparr>)"

definition HashDataAs :: "openssl \<Rightarrow> ObjectType \<Rightarrow> HashType \<Rightarrow> string \<Rightarrow> ArtifactDigest" where
  "HashDataAs ossl kType ty data =
     \<lparr>digest_info = HashInfo_HashData ossl ty data (IsTreeObject kType),
      digest_size = word_of_nat (length data)\<rparr>"

datatype file_digest = FileDigest ArtifactDigest | NoFileDigest | DigestThrows

definition HashFileAs ::
  "openssl \<Rightarrow> file_system \<Rightarrow> ObjectType \<Rightarrow> HashType \<Rightarrow> string \<Rightarrow> file_digest option" where
  "HashFileAs ossl fs kType ty path =
     map_option
       (\<lambda>hash_info. case hash_info of
            FileInfo info sz \<Rightarrow>
              FileDigest \<lparr>digest_info = info, digest_size = word_of_nat sz\<rparr>
          | NoFileInfo \<Rightarrow> NoFileDigest
          | InfoThrows \<Rightarrow> DigestThrows)
       (HashInfo_HashFile ossl fs ty path (IsTreeObject kType))"

end
