(* ===== verification/Jst_Hash_Props.thy ===== *)
theory Jst_Hash_Props
  imports Jst_Hash
begin

text \<open>
  Hexadecimal strings are read back, locally computed hashes pass the validation of
  untrusted ones, and hashing a file chunk by chunk is hashing its content.
\<close>

section \<open>Hexadecimal strings\<close>

lemma of_char_hex_digit:
  "n < 16 \<Longrightarrow> of_char (hex_digit n) = (if n < 10 then 48 + n else 87 + n)"
  by (simp add: hex_digit_def)

lemma hex_digit:
  assumes "n < 16"
  shows "digit_value (hex_digit n) = Some n" "\<not> isspace (hex_digit n)"
    "hex_digit n \<noteq> CHR 0x2D" "hex_digit n \<noteq> CHR 0x2B"
proof -
  note [simp] = of_char_hex_digit [OF assms]
  show "digit_value (hex_digit n) = Some n" "\<not> isspace (hex_digit n)"
    using assms by (auto simp: digit_value_def isspace_def Let_def)
  have "(of_char (hex_digit n) :: nat) \<noteq> of_char (CHR 0x2D)"
    "(of_char (hex_digit n) :: nat) \<noteq> of_char (CHR 0x2B)"
    by simp_all
  then show "hex_digit n \<noteq> CHR 0x2D" "hex_digit n \<noteq> CHR 0x2B" by metis+
qed

lemma hex_digit_is_digit: "n < 16 \<Longrightarrow> is_digit_of 16 (hex_digit n)"
  by (simp add: is_digit_of_def hex_digit)

lemma byte_digits: "n < 256 \<Longrightarrow> n div 16 < 16 \<and> n mod 16 < (16 :: nat)"
  by auto

lemma stoul_hex_byte:
  assumes "n < 256"
  shows "stoul 16 [hex_digit (n div 16), hex_digit (n mod 16)] = Inr (word_of_nat n)"
proof -
  have d: "n div 16 < 16" "n mod 16 < 16" using assms by auto
  have "dropWhile isspace [hex_digit (n div 16), hex_digit (n mod 16)]
        = [hex_digit (n div 16), hex_digit (n mod 16)]"
    using hex_digit [OF d(1)] by simp
  then show ?thesis
    using hex_digit [OF d(1)] hex_digit [OF d(2)] hex_digit_is_digit [OF d(1)]
      hex_digit_is_digit [OF d(2)] assms
    by (simp add: stoul_def skip_hex_prefix_def)
qed

lemma ToHexString_Cons:
  "ToHexString (b # bytes) =
     hex_digit (of_char b div 16) # hex_digit (of_char b mod 16) # ToHexString bytes"
  by (simp add: ToHexString_def)

lemma of_char_less: "(of_char (b :: char) :: nat) < 256"
  by simp

lemma hex_round_trip_facts:
  "FromHexString (ToHexString bytes) = Some bytes \<and> IsHexString (ToHexString bytes)
   \<and> length (ToHexString bytes) = 2 * length bytes"
proof (induction bytes)
  case Nil
  then show ?case by (simp add: ToHexString_def FromHexString.simps IsHexString_def)
next
  case (Cons b bytes)
  have b: "(of_char b :: nat) < 256" by (rule of_char_less)
  have "(of_char b :: nat) mod 2 ^ 64 = of_char b"
    by (rule mod_less, rule less_trans [OF b]) simp
  then have "unat (word_of_nat (of_char b) :: 64 word) = of_char b"
    by (simp add: unat_of_nat)
  then have "FromHexString (ToHexString (b # bytes)) = Some (b # bytes)"
    using Cons stoul_hex_byte [OF b]
    by (subst FromHexString.simps) (simp add: ToHexString_Cons)
  moreover have "(of_char b :: nat) div 16 < 16" "(of_char b :: nat) mod 16 < 16"
    using byte_digits [OF b] by simp_all
  ultimately show ?case
    using Cons hex_digit_is_digit
    by (simp add: ToHexString_Cons IsHexString_def isxdigit_def)
qed

text \<open>
  The hexadecimal form of any bytes is a valid hexadecimal string of twice the length,
  and reading it back gives the bytes.
\<close>

theorem hex_round_trip:
  "FromHexString (ToHexString bytes) = Some bytes \<and> IsHexString (ToHexString bytes)
   \<and> length (ToHexString bytes) = 2 * length bytes"
  by (rule hex_round_trip_facts)

section \<open>Validation\<close>

text \<open>What OpenSSL documents: every digest has the size of its kind.\<close>

definition digest_sizes :: "openssl \<Rightarrow> bool" where
  "digest_sizes ossl \<longleftrightarrow>
     (\<forall>ty data. length (evp_digest ossl ty data) = evp_md_size ossl ty)"

lemma hasher_type_simps [simp]:
  "hasher_type (Update h data) = hasher_type h" "hasher_data (Update h data) = hasher_data h @ data"
  by (simp_all add: Update_def)

lemma HashTaggedLine_length:
  "digest_sizes ossl \<Longrightarrow>
   length (HashTaggedLine ossl ty data tag) = evp_md_size ossl (hasher_type (MakeHasher ty))"
  by (simp add: HashTaggedLine_def Finalize_def digest_sizes_def Let_def split: option.split)

definition sample_openssl :: openssl where
  "sample_openssl =
     \<lparr>evp_digest = (\<lambda>ty data. replicate (if ty = SHA1 then 20 else if ty = SHA256 then 32 else 64)
                              (char_of (length data mod 256))),
      evp_md_size = (\<lambda>ty. if ty = SHA1 then 20 else if ty = SHA256 then 32 else 64)\<rparr>"

lemma sample_digest_sizes: "digest_sizes sample_openssl"
  by (simp add: digest_sizes_def sample_openssl_def)

lemma HashData_valid_info:
  assumes "digest_sizes ossl"
  shows "HashInfo_Create ossl ty (hi_hash (HashInfo_HashData ossl ty data is_tree))
           (IsTreeAllowed ty \<and> is_tree)
         = Inr (HashInfo_HashData ossl ty data is_tree)"
  using assms hex_round_trip_facts
  by (simp add: HashInfo_Create_def ValidateInput_def HashInfo_HashData_def HashTreeData_def
      HashBlobData_def HashTaggedLine_length GetHashLength_def IsTreeAllowed_def IsNative_def Let_def)

text \<open>
  C9: hashes computed from content pass the validation of untrusted hashes unchanged, and
  validated hash information has the hash's length and digits and is a tree only in the
  native protocol.
\<close>

theorem HashData_validated:
  assumes "digest_sizes ossl"
  shows "HashInfo_Create ossl ty (hi_hash (HashInfo_HashData ossl ty data is_tree))
           (hi_is_tree (HashInfo_HashData ossl ty data is_tree))
         = Inr (HashInfo_HashData ossl ty data is_tree)
       \<and> (HashInfo_Create ossl ty' hash is_tree' = Inr info \<longrightarrow>
            IsHexString (hi_hash info)
            \<and> length (hi_hash info) = 2 * evp_md_size ossl (hasher_type (MakeHasher ty'))
            \<and> (hi_is_tree info \<longrightarrow> hi_hash_type info = GitSHA1))"
proof -
  have "(hi_is_tree (HashInfo_HashData ossl ty data is_tree)) = (IsTreeAllowed ty \<and> is_tree)"
    by (auto simp: HashInfo_HashData_def)
  then show ?thesis
    using HashData_valid_info [OF assms]
    by (auto simp: HashInfo_Create_def [of _ ty'] ValidateInput_def GetHashLength_def
        IsTreeAllowed_def IsNative_def Let_def split: if_splits)
qed

theorem HashData_validated_witness:
  "HashInfo_Create sample_openssl GitSHA1
     (hi_hash (HashInfo_HashData sample_openssl GitSHA1 ''abc'' True)) True
   = Inr (HashInfo_HashData sample_openssl GitSHA1 ''abc'' True)"
  using HashData_validated [OF sample_digest_sizes, of GitSHA1 "''abc''" True]
  by (simp add: HashInfo_HashData_def IsTreeAllowed_def IsNative_def)

section \<open>Files\<close>

lemma update_chunks_all:
  "update_chunks h (map Inr cks) = Some (h\<lparr>hasher_data := hasher_data h @ concat cks\<rparr>)"
  by (induction cks arbitrary: h) (simp_all add: Update_def)

lemma FromFile_opens:
  assumes "0 < chunk" "is_regular_file fs path = Inr True" "fopen fs path = Some (bytes, fails)"
    and "file_size fs path = Inr n"
  shows "FromFile fs chunk path =
    Inr \<lparr>chunk_size = chunk, content_size = n, content = FileSource bytes fails\<rparr>"
  using assms by (simp add: FromFile_def)

lemma HashTaggedFile_content:
  assumes "is_regular_file fs path = Inr True" "fopen fs path = Some (bytes, \<lambda>_. False)"
    and "file_size fs path = Inr (length bytes)"
  shows "HashTaggedFile ossl fs ty path tag =
    Some (FileHash (HashTaggedLine ossl ty bytes (Some tag)) (length bytes))"
proof -
  let ?r = "\<lparr>chunk_size = 4048, content_size = length bytes,
             content = FileSource bytes (\<lambda>_. False)\<rparr>"
  have open_r: "FromFile fs 4048 path = Inr ?r"
    using FromFile_opens [OF _ assms, of 4048] by simp
  then have "reads ?r bytes"
    using FromFile_reads assms by blast
  then obtain cks where "iterate ?r (reader_begin ?r) = Some (map Inr cks)" "concat cks = bytes"
    using iterate_chunks [of ?r bytes 0] by (auto simp: reader_begin_def make_iterator_def)
  then show ?thesis
    using open_r assms(3)
    by (simp add: HashTaggedFile_def HashTaggedLine_def update_chunks_all Update_def Let_def)
qed

text \<open>
  C20: hashing a file that is read without errors gives the hash information of its
  content and its size.
\<close>

theorem HashFile_is_HashData:
  assumes "is_regular_file fs path = Inr True" "fopen fs path = Some (bytes, \<lambda>_. False)"
    and "file_size fs path = Inr (length bytes)"
  shows "HashInfo_HashFile ossl fs ty path is_tree =
           Some (FileInfo (HashInfo_HashData ossl ty bytes is_tree) (length bytes))
       \<and> HashFileAs ossl fs kType ty path = Some (FileDigest (HashDataAs ossl kType ty bytes))"
  using HashTaggedFile_content [OF assms]
  by (simp add: HashInfo_HashFile_def HashInfo_HashData_def HashTreeFile_def HashBlobFile_def
      HashTreeData_def HashBlobData_def IsTreeAllowed_def IsNative_def HashFileAs_def HashDataAs_def)

definition sample_files :: file_system where
  "sample_files = \<lparr>is_regular_file = (\<lambda>_. Inr True), fopen = (\<lambda>path. Some (path, \<lambda>_. False)),
                   file_size = (\<lambda>path. Inr (length path))\<rparr>"

theorem HashFile_is_HashData_witness:
  "HashInfo_HashFile sample_openssl sample_files PlainSHA256 ''hello'' True =
     Some (FileInfo (HashInfo_HashData sample_openssl PlainSHA256 ''hello'' True) 5)"
  using HashFile_is_HashData [of sample_files "''hello''" "''hello''" sample_openssl PlainSHA256 True]
  by (simp add: sample_files_def)

end
