(* ===== verification/Jst_Artifact.thy ===== *)
theory Jst_Artifact
  imports Jst_Json Jst_Hash
begin

text \<open>
  The data that the build graph is made of: \<^verbatim>\<open>src/buildtool/common/artifact.hpp\<close>,
  \<^verbatim>\<open>artifact_description.{hpp,cpp}\<close>, \<^verbatim>\<open>action.hpp\<close>, \<^verbatim>\<open>action_description.hpp\<close> and
  \<^verbatim>\<open>identifier.hpp\<close>. A \<^verbatim>\<open>std::map\<close> is the list of its entries in key order, an
  \<^verbatim>\<open>std::unordered_map\<close> the list of its entries in the order in which it is iterated; a
  \<^verbatim>\<open>std::filesystem::path\<close> is its native string. Messages that are only logged are left
  out; every caught exception is a branch.
\<close>

section \<open>Object information\<close>

record ObjectInfo =
  info_digest :: ArtifactDigest
  info_type :: ObjectType
  info_failed :: bool

definition ObjectInfo_eq :: "ObjectInfo \<Rightarrow> ObjectInfo \<Rightarrow> bool" where
  "ObjectInfo_eq a b \<longleftrightarrow>
     ArtifactDigest_eq (info_digest a) (info_digest b) \<and> info_type a = info_type b \<and>
     info_failed a = info_failed b"

definition digest_hash :: "ArtifactDigest \<Rightarrow> string" where
  "digest_hash d = hi_hash (digest_info d)"

definition ObjectInfo_ToString :: "ObjectInfo \<Rightarrow> bool \<Rightarrow> string" where
  "ObjectInfo_ToString oi size_unknown =
     (let size_str = (if size_unknown then [] else to_string_nat (unat (digest_size (info_digest oi))))
      in ''['' @ digest_hash (info_digest oi) @ '':'' @ size_str @ '':'' @ [ToChar (info_type oi)] @
         '']'' @ (if info_failed oi then '' FAILED'' else []))"

definition ObjectInfo_ToJson :: "ObjectInfo \<Rightarrow> json" where
  "ObjectInfo_ToJson oi =
     json_object [(''id'', JString (digest_hash (info_digest oi))),
                  (''size'', JUnsigned (digest_size (info_digest oi))),
                  (''file_type'', JString [ToChar (info_type oi)])]"

text \<open>
  \<^verbatim>\<open>std::getline\<close> on what a stream has left: it fails where nothing is left, and reads up
  to the delimiter, which it removes, or to the end.
\<close>

definition getline :: "char \<Rightarrow> string \<Rightarrow> (string \<times> string) option" where
  "getline delim rest =
     (if rest = [] then None
      else Some (takeWhile (\<lambda>c. c \<noteq> delim) rest, tl (dropWhile (\<lambda>c. c \<noteq> delim) rest)))"

definition first_char :: "string \<Rightarrow> char" where
  "first_char s = (if s = [] then CHR 0x00 else hd s)"

definition ObjectInfo_FromString :: "openssl \<Rightarrow> HashType \<Rightarrow> string \<Rightarrow> ObjectInfo option" where
  "ObjectInfo_FromString ossl hash_type s =
     (if s = [] \<or> hd s \<noteq> CHR ''['' then None
      else Option.bind (getline (CHR '':'') (tl s)) (\<lambda>(ident, rest).
           Option.bind (getline (CHR '':'') rest) (\<lambda>(size_str, rest).
           Option.bind (getline (CHR '']'') rest) (\<lambda>(type, rest).
             case stoul 10 size_str of
               Inl _ \<Rightarrow> None
             | Inr sz \<Rightarrow>
                 let object_type = FromChar (first_char type)
                 in case ArtifactDigest_Create ossl hash_type ident sz (IsTreeObject object_type) of
                      Inl _ \<Rightarrow> None
                    | Inr digest \<Rightarrow> Some \<lparr>info_digest = digest, info_type = object_type,
                                       info_failed = False\<rparr>))))"

section \<open>Artifacts\<close>

type_synonym ArtifactIdentifier = string
type_synonym ActionIdentifier = string

definition IdentifierToString :: "string \<Rightarrow> string" where
  "IdentifierToString ident =
     concat (map (\<lambda>b. [hex_digit (of_char b div 16), hex_digit (of_char b mod 16)]) ident)"

record Artifact =
  art_id :: ArtifactIdentifier
  art_file_path :: "string option"
  art_repo :: string
  art_object_info :: "ObjectInfo option"

definition mk_Artifact :: "ArtifactIdentifier \<Rightarrow> Artifact" where
  "mk_Artifact ident = \<lparr>art_id = ident, art_file_path = None, art_repo = [], art_object_info = None\<rparr>"

definition Artifact_Digest :: "Artifact \<Rightarrow> ArtifactDigest option" where
  "Artifact_Digest a = map_option info_digest (art_object_info a)"

definition Artifact_Type :: "Artifact \<Rightarrow> ObjectType option" where
  "Artifact_Type a = map_option info_type (art_object_info a)"

definition SetObjectInfo :: "Artifact \<Rightarrow> ObjectInfo \<Rightarrow> bool \<Rightarrow> Artifact" where
  "SetObjectInfo a object_info fail_info =
     (if fail_info
      then a\<lparr>art_object_info := Some \<lparr>info_digest = info_digest object_info,
                                      info_type = info_type object_info, info_failed = True\<rparr>\<rparr>
      else a\<lparr>art_object_info := Some object_info\<rparr>)"

definition SetObjectInfo_digest ::
  "Artifact \<Rightarrow> ArtifactDigest \<Rightarrow> ObjectType \<Rightarrow> bool \<Rightarrow> Artifact" where
  "SetObjectInfo_digest a digest type failed =
     a\<lparr>art_object_info := Some \<lparr>info_digest = digest, info_type = type, info_failed = failed\<rparr>\<rparr>"

definition CreateLocalArtifact :: "string \<Rightarrow> string \<Rightarrow> string \<Rightarrow> Artifact" where
  "CreateLocalArtifact ident file_path repo =
     \<lparr>art_id = ident, art_file_path = Some file_path, art_repo = repo, art_object_info = None\<rparr>"

definition CreateKnownArtifact ::
  "string \<Rightarrow> ArtifactDigest \<Rightarrow> ObjectType \<Rightarrow> string option \<Rightarrow> Artifact" where
  "CreateKnownArtifact ident digest type repo =
     (let a = SetObjectInfo_digest (mk_Artifact ident) digest type False
      in case repo of Some r \<Rightarrow> a\<lparr>art_repo := r\<rparr> | None \<Rightarrow> a)"

definition CreateActionArtifact :: "string \<Rightarrow> Artifact" where
  "CreateActionArtifact ident = mk_Artifact ident"

section \<open>Artifact descriptions\<close>

datatype ArtifactData =
    LocalData string string
  | KnownData ArtifactDigest ObjectType "string option"
  | ActionData string string
  | TreeData string
  | TreeOverlayData string

record ArtifactDescription =
  desc_data :: ArtifactData
  desc_id :: ArtifactIdentifier

definition DescribeLocalArtifact :: "string \<Rightarrow> string \<Rightarrow> json" where
  "DescribeLocalArtifact src_path repository =
     json_object [(''type'', JString ''LOCAL''),
       (''data'', json_object [(''path'', JString src_path), (''repository'', JString repository)])]"

definition DescribeKnownArtifact :: "string \<Rightarrow> 64 word \<Rightarrow> ObjectType \<Rightarrow> json" where
  "DescribeKnownArtifact blob_id sz type =
     json_object [(''type'', JString ''KNOWN''),
       (''data'', json_object [(''id'', JString blob_id), (''size'', JUnsigned sz),
                               (''file_type'', JString [ToChar type])])]"

definition DescribeActionArtifact :: "string \<Rightarrow> string \<Rightarrow> json" where
  "DescribeActionArtifact action_id out_path =
     json_object [(''type'', JString ''ACTION''),
       (''data'', json_object [(''id'', JString action_id), (''path'', JString out_path)])]"

definition DescribeTreeArtifact :: "string \<Rightarrow> json" where
  "DescribeTreeArtifact tree_id =
     json_object [(''type'', JString ''TREE''), (''data'', json_object [(''id'', JString tree_id)])]"

definition DescribeTreeOverlayArtifact :: "string \<Rightarrow> json" where
  "DescribeTreeOverlayArtifact tree_overlay_id =
     json_object [(''type'', JString ''TREE_OVERLAY''),
       (''data'', json_object [(''id'', JString tree_overlay_id)])]"

fun ArtifactData_ToJson :: "ArtifactData \<Rightarrow> json" where
  "ArtifactData_ToJson (LocalData path repo) = DescribeLocalArtifact path repo"
| "ArtifactData_ToJson (KnownData digest file_type _) =
     DescribeKnownArtifact (digest_hash digest) (digest_size digest) file_type"
| "ArtifactData_ToJson (ActionData action_id path) = DescribeActionArtifact action_id path"
| "ArtifactData_ToJson (TreeData tree) = DescribeTreeArtifact tree"
| "ArtifactData_ToJson (TreeOverlayData tree_overlay) = DescribeTreeOverlayArtifact tree_overlay"

definition ArtifactDescription_ToJson :: "ArtifactDescription \<Rightarrow> json" where
  "ArtifactDescription_ToJson d = ArtifactData_ToJson (desc_data d)"

definition ComputeId :: "openssl \<Rightarrow> nlohmann \<Rightarrow> json \<Rightarrow> ArtifactIdentifier" where
  "ComputeId ossl N desc =
     (case nl_dump N desc of
        Inl _ \<Rightarrow> []
      | Inr text \<Rightarrow> PlainHashData ossl PlainSHA256 text)"

text \<open>The constructor of descriptions, which the five creation functions call.\<close>

definition mk_description :: "openssl \<Rightarrow> nlohmann \<Rightarrow> ArtifactData \<Rightarrow> ArtifactDescription" where
  "mk_description ossl N data =
     \<lparr>desc_data = data, desc_id = ComputeId ossl N (ArtifactData_ToJson data)\<rparr>"

definition CreateLocal :: "openssl \<Rightarrow> nlohmann \<Rightarrow> string \<Rightarrow> string \<Rightarrow> ArtifactDescription" where
  "CreateLocal ossl N path repository = mk_description ossl N (LocalData path repository)"

definition CreateAction :: "openssl \<Rightarrow> nlohmann \<Rightarrow> string \<Rightarrow> string \<Rightarrow> ArtifactDescription" where
  "CreateAction ossl N action_id path = mk_description ossl N (ActionData action_id path)"

definition CreateKnown ::
  "openssl \<Rightarrow> nlohmann \<Rightarrow> ArtifactDigest \<Rightarrow> ObjectType \<Rightarrow> string option \<Rightarrow> ArtifactDescription" where
  "CreateKnown ossl N digest file_type repo =
     mk_description ossl N (KnownData digest file_type repo)"

definition CreateTree :: "openssl \<Rightarrow> nlohmann \<Rightarrow> string \<Rightarrow> ArtifactDescription" where
  "CreateTree ossl N tree_id = mk_description ossl N (TreeData tree_id)"

definition CreateTreeOverlay :: "openssl \<Rightarrow> nlohmann \<Rightarrow> string \<Rightarrow> ArtifactDescription" where
  "CreateTreeOverlay ossl N tree_overlay_id =
     mk_description ossl N (TreeOverlayData tree_overlay_id)"

fun IsKnown :: "ArtifactData \<Rightarrow> bool" where
  "IsKnown (KnownData _ _ _) = True"
| "IsKnown _ = False"

definition ArtifactDescription_eq :: "ArtifactDescription \<Rightarrow> ArtifactDescription \<Rightarrow> bool" where
  "ArtifactDescription_eq a b \<longleftrightarrow> desc_id a = desc_id b"

definition ToArtifact :: "ArtifactDescription \<Rightarrow> Artifact" where
  "ToArtifact d =
     (case desc_data d of
        LocalData path repo \<Rightarrow> CreateLocalArtifact (desc_id d) path repo
      | KnownData digest file_type repo \<Rightarrow> CreateKnownArtifact (desc_id d) digest file_type repo
      | ActionData _ _ \<Rightarrow> CreateActionArtifact (desc_id d)
      | TreeData _ \<Rightarrow> CreateActionArtifact (desc_id d)
      | TreeOverlayData _ \<Rightarrow> CreateActionArtifact (desc_id d))"

definition CreateLocalArtifactDescription ::
  "openssl \<Rightarrow> nlohmann \<Rightarrow> json \<Rightarrow> ArtifactDescription option" where
  "CreateLocalArtifactDescription ossl N data =
     (case (ExtractValueAs get_string data ''path'', ExtractValueAs get_string data ''repository'') of
        (Some path, Some repository) \<Rightarrow> Some (CreateLocal ossl N path repository)
      | _ \<Rightarrow> None)"

definition CreateKnownArtifactDescription ::
  "openssl \<Rightarrow> nlohmann \<Rightarrow> HashType \<Rightarrow> json \<Rightarrow> ArtifactDescription option" where
  "CreateKnownArtifactDescription ossl N hash_type data =
     (case (ExtractValueAs get_string data ''id'', ExtractValueAs (nl_get_size N) data ''size'',
            ExtractValueAs get_string data ''file_type'') of
        (Some blob_id, Some sz, Some file_type) \<Rightarrow>
          if length file_type = 1
          then let object_type = FromChar (file_type ! 0)
               in case ArtifactDigest_Create ossl hash_type blob_id sz (IsTreeObject object_type) of
                    Inl _ \<Rightarrow> None
                  | Inr digest \<Rightarrow> Some (CreateKnown ossl N digest object_type None)
          else None
      | _ \<Rightarrow> None)"

definition CreateActionArtifactDescription ::
  "openssl \<Rightarrow> nlohmann \<Rightarrow> json \<Rightarrow> ArtifactDescription option" where
  "CreateActionArtifactDescription ossl N data =
     (case (ExtractValueAs get_string data ''id'', ExtractValueAs get_string data ''path'') of
        (Some action_id, Some path) \<Rightarrow> Some (CreateAction ossl N action_id path)
      | _ \<Rightarrow> None)"

definition CreateTreeArtifactDescription ::
  "openssl \<Rightarrow> nlohmann \<Rightarrow> json \<Rightarrow> ArtifactDescription option" where
  "CreateTreeArtifactDescription ossl N data =
     (case ExtractValueAs get_string data ''id'' of
        Some tree_id \<Rightarrow> Some (CreateTree ossl N tree_id)
      | None \<Rightarrow> None)"

definition CreateTreeOverlayArtifactDescription ::
  "openssl \<Rightarrow> nlohmann \<Rightarrow> json \<Rightarrow> ArtifactDescription option" where
  "CreateTreeOverlayArtifactDescription ossl N data =
     (case ExtractValueAs get_string data ''id'' of
        Some tree_overlay_id \<Rightarrow> Some (CreateTreeOverlay ossl N tree_overlay_id)
      | None \<Rightarrow> None)"

definition ArtifactDescription_FromJson ::
  "openssl \<Rightarrow> nlohmann \<Rightarrow> HashType \<Rightarrow> json \<Rightarrow> ArtifactDescription option" where
  "ArtifactDescription_FromJson ossl N hash_type j =
     (case (ExtractValueAs get_string j ''type'', ExtractValueAs Some j ''data'') of
        (Some type, Some data) \<Rightarrow>
          if type = ''LOCAL'' then CreateLocalArtifactDescription ossl N data
          else if type = ''KNOWN'' then CreateKnownArtifactDescription ossl N hash_type data
          else if type = ''ACTION'' then CreateActionArtifactDescription ossl N data
          else if type = ''TREE'' then CreateTreeArtifactDescription ossl N data
          else if type = ''TREE_OVERLAY'' then CreateTreeOverlayArtifactDescription ossl N data
          else None
      | _ \<Rightarrow> None)"

section \<open>Actions\<close>

record Action =
  act_id :: ActionIdentifier
  act_command :: "string list"
  act_label :: string
  act_cwd :: string
  act_env :: "(string \<times> string) list"
  act_is_tree :: bool
  act_is_tree_overlay :: bool
  act_overlay_disjoint :: bool
  act_may_fail :: "string option"
  act_no_cache :: bool
  act_timeout_scale :: double_bits
  act_execution_properties :: "(string \<times> string) list"

definition double_one :: double_bits where "double_one = 0x3FF0000000000000"

definition mk_Action ::
  "string \<Rightarrow> string list \<Rightarrow> string \<Rightarrow> string \<Rightarrow> (string \<times> string) list \<Rightarrow> string option \<Rightarrow> bool
   \<Rightarrow> double_bits \<Rightarrow> (string \<times> string) list \<Rightarrow> Action" where
  "mk_Action action_id command label cwd env_vars may_fail no_cache timeout_scale
             execution_properties =
     \<lparr>act_id = action_id, act_command = command, act_label = label, act_cwd = cwd,
      act_env = env_vars, act_is_tree = False, act_is_tree_overlay = False,
      act_overlay_disjoint = False, act_may_fail = may_fail, act_no_cache = no_cache,
      act_timeout_scale = timeout_scale, act_execution_properties = execution_properties\<rparr>"

definition mk_Action_short ::
  "string \<Rightarrow> string list \<Rightarrow> string \<Rightarrow> (string \<times> string) list \<Rightarrow> Action" where
  "mk_Action_short action_id command label env_vars =
     mk_Action action_id command label [] env_vars None False double_one []"

definition mk_Action_tree :: "ActionIdentifier \<Rightarrow> bool \<Rightarrow> bool \<Rightarrow> Action" where
  "mk_Action_tree ident is_tree_overlay overlay_disjoint =
     \<lparr>act_id = ident, act_command = [], act_label = [], act_cwd = [], act_env = [],
      act_is_tree = (\<not> is_tree_overlay), act_is_tree_overlay = is_tree_overlay,
      act_overlay_disjoint = overlay_disjoint, act_may_fail = None, act_no_cache = False,
      act_timeout_scale = 0, act_execution_properties = []\<rparr>"

definition CreateTreeAction :: "ActionIdentifier \<Rightarrow> Action" where
  "CreateTreeAction ident = mk_Action_tree ident False False"

definition CreateTreeOverlayAction :: "ActionIdentifier \<Rightarrow> bool \<Rightarrow> Action" where
  "CreateTreeOverlayAction ident disjoint = mk_Action_tree ident True disjoint"

section \<open>Action descriptions\<close>

record ActionDescription =
  ad_output_files :: "string list"
  ad_output_dirs :: "string list"
  ad_action :: Action
  ad_inputs :: "(string \<times> ArtifactDescription) list"

definition ad_id :: "ActionDescription \<Rightarrow> ActionIdentifier" where
  "ad_id ad = act_id (ad_action ad)"

definition put_unless :: "bool \<Rightarrow> string \<Rightarrow> json \<Rightarrow> json \<Rightarrow> json" where
  "put_unless skip key v j = (if skip then j else jput key v j)"

definition inputs_to_json :: "(string \<times> ArtifactDescription) list \<Rightarrow> json" where
  "inputs_to_json inputs =
     foldl (\<lambda>j (path, artifact). jput path (ArtifactDescription_ToJson artifact) j)
       (JObject []) inputs"

definition ActionDescription_ToJson :: "ActionDescription \<Rightarrow> json" where
  "ActionDescription_ToJson ad =
     (let action = ad_action ad;
          j = json_object [(''command'', json_of_strings (act_command action))];
          j = put_unless (ad_output_files ad = []) ''output'' (json_of_strings (ad_output_files ad)) j;
          j = put_unless (ad_output_dirs ad = []) ''output_dirs'' (json_of_strings (ad_output_dirs ad)) j;
          j = put_unless (ad_inputs ad = []) ''input'' (inputs_to_json (ad_inputs ad)) j;
          j = put_unless (act_env action = []) ''env'' (json_of_map (act_env action)) j;
          j = (case act_may_fail action of
                 Some text \<Rightarrow> jput ''may_fail'' (JString text) j | None \<Rightarrow> j);
          j = put_unless (\<not> act_no_cache action) ''no_cache'' (JBool True) j;
          j = put_unless (act_timeout_scale action = double_one) ''timeout scaling''
                (JFloat (act_timeout_scale action)) j;
          j = put_unless (act_cwd action = []) ''cwd'' (JString (act_cwd action)) j;
          j = put_unless (act_execution_properties action = []) ''execution properties''
                (json_of_map (act_execution_properties action)) j
      in j)"

definition read_outputs :: "json \<Rightarrow> string \<Rightarrow> string list option" where
  "read_outputs desc key = ExtractValueAs get_string_list desc key"

definition read_optional_string :: "json \<Rightarrow> string \<Rightarrow> string option" where
  "read_optional_string desc key =
     (case jfind desc key of None \<Rightarrow> Some [] | Some v \<Rightarrow> get_string v)"

definition optional_key_value_reader :: "json \<Rightarrow> string \<Rightarrow> json" where
  "optional_key_value_reader desc key =
     (case jfind desc key of None \<Rightarrow> JObject [] | Some v \<Rightarrow> v)"

text \<open>\<^verbatim>\<open>emplace\<close> of an \<^verbatim>\<open>std::unordered_map\<close> keeps the entry that a key has already.\<close>

definition emplace :: "string \<Rightarrow> 'a \<Rightarrow> (string \<times> 'a) list \<Rightarrow> (string \<times> 'a) list" where
  "emplace k v kvs = (if map_of kvs k = None then kvs @ [(k, v)] else kvs)"

fun inputs_from_json ::
  "openssl \<Rightarrow> nlohmann \<Rightarrow> HashType \<Rightarrow> (string \<times> json) list
   \<Rightarrow> (string \<times> ArtifactDescription) list \<Rightarrow> (string \<times> ArtifactDescription) list option" where
  "inputs_from_json ossl N hash_type [] inputs = Some inputs"
| "inputs_from_json ossl N hash_type ((path, input_desc) # kvs) inputs =
     (case ArtifactDescription_FromJson ossl N hash_type input_desc of
        None \<Rightarrow> None
      | Some artifact \<Rightarrow>
          inputs_from_json ossl N hash_type kvs (emplace path artifact inputs))"

definition read_may_fail :: "json \<Rightarrow> string option option" where
  "read_may_fail desc =
     (case jfind desc ''may_fail'' of
        None \<Rightarrow> Some None
      | Some JNull \<Rightarrow> Some None
      | Some (JString text) \<Rightarrow> Some (Some text)
      | Some _ \<Rightarrow> None)"

definition read_no_cache :: "json \<Rightarrow> bool option" where
  "read_no_cache desc =
     (case jfind desc ''no_cache'' of None \<Rightarrow> Some False | Some v \<Rightarrow> get_bool v)"

text \<open>
  A value that is not a number is reported, and the conversion that follows throws, which
  the handler turns into no description.
\<close>

definition read_timeout_scale :: "nlohmann \<Rightarrow> json \<Rightarrow> double_bits option" where
  "read_timeout_scale N desc =
     (case jfind desc ''timeout scaling'' of
        None \<Rightarrow> Some double_one
      | Some v \<Rightarrow> nl_get_double N v)"

definition ActionDescription_FromJson ::
  "openssl \<Rightarrow> nlohmann \<Rightarrow> HashType \<Rightarrow> string \<Rightarrow> json \<Rightarrow> ActionDescription option" where
  "ActionDescription_FromJson ossl N hash_type ident desc =
     (let outputs = read_outputs desc ''output'';
          output_dirs = read_outputs desc ''output_dirs'';
          command = read_outputs desc ''command'';
          outs = (case outputs of None \<Rightarrow> [] | Some os \<Rightarrow> os);
          dirs = (case output_dirs of None \<Rightarrow> [] | Some ds \<Rightarrow> ds)
      in if outs = [] \<and> dirs = [] then None
         else if command = None \<or> command = Some [] then None
         else
           Option.bind (read_optional_string desc ''label'') (\<lambda>label.
           Option.bind (read_optional_string desc ''cwd'') (\<lambda>cwd.
           let input = optional_key_value_reader desc ''input'';
               env = optional_key_value_reader desc ''env''
           in if \<not> (is_object input \<and> is_object env) then None
              else
                Option.bind (inputs_from_json ossl N hash_type (items input) []) (\<lambda>inputs.
                Option.bind (read_may_fail desc) (\<lambda>may_fail.
                Option.bind (read_no_cache desc) (\<lambda>no_cache.
                Option.bind (read_timeout_scale N desc) (\<lambda>timeout_scale.
                let execution_properties = optional_key_value_reader desc ''execution properties''
                in if \<not> is_object execution_properties then None
                   else
                     Option.bind (get_string_map env) (\<lambda>env_vars.
                     Option.bind (get_string_map execution_properties) (\<lambda>properties.
                     Some \<lparr>ad_output_files = outs, ad_output_dirs = dirs,
                           ad_action = mk_Action ident (the command) label cwd env_vars may_fail
                                         no_cache timeout_scale properties,
                           ad_inputs = inputs\<rparr>))))))))
     )"

end
