(* ===== verification/Jst_Artifact_Props.thy ===== *)
theory Jst_Artifact_Props
  imports Jst_Artifact Jst_Json_Props Jst_Hash_Props
begin

text \<open>
  Round trips of the graph's data: object information through its string, artifact
  descriptions and action descriptions through their JSON form.
\<close>

section \<open>Object information\<close>

lemma digit_char: "n < 10 \<Longrightarrow> is_digit_of 10 (char_of (48 + n)) \<and>
    digit_value (char_of (48 + n)) = Some n"
  by (simp add: is_digit_of_def digit_value_def)

lemma read_digits_append:
  "(\<forall>c \<in> set s. is_digit_of base c) \<Longrightarrow>
   read_digits base (s @ t) acc = read_digits base t (read_digits base s acc)"
  by (induction s arbitrary: acc) auto

lemma read_digits_to_string:
  "(\<forall>c \<in> set (to_string_nat n). is_digit_of 10 c) \<and> read_digits 10 (to_string_nat n) 0 = n"
proof (induction n rule: to_string_nat.induct)
  case (1 n)
  show ?case
  proof (cases "n < 10")
    case True
    then show ?thesis using digit_char [of n] by (subst (1 2) to_string_nat.simps) simp
  next
    case False
    then have IH: "\<forall>c \<in> set (to_string_nat (n div 10)). is_digit_of 10 c"
      "read_digits 10 (to_string_nat (n div 10)) 0 = n div 10" using 1 by auto
    have "n mod 10 < 10" by simp
    then show ?thesis
      using digit_char [of "n mod 10"] read_digits_append [OF IH(1)] IH False
      by (subst (1 2) to_string_nat.simps) auto
  qed
qed

lemma digit_not_special:
  assumes "isdigit c"
  shows "\<not> isspace c" "c \<noteq> CHR 0x2D" "c \<noteq> CHR 0x2B" "c \<noteq> CHR '':''"
  using assms by (auto simp: isdigit_not_isspace isdigit_def)

lemma stoul_to_string:
  assumes "n < 2 ^ 64"
  shows "stoul 10 (to_string_nat n) = Inr (word_of_nat n)"
proof -
  obtain c cs where s: "to_string_nat n = c # cs"
    using to_string_nat_nonempty [of n] by (cases "to_string_nat n") auto
  then have c: "isdigit c" using to_string_nat_digits [of c n] by simp
  have "is_digit_of 10 c" "read_digits 10 (c # cs) 0 = n"
    using read_digits_to_string [of n] s by auto
  then show ?thesis
    using digit_not_special [OF c] assms s by (simp add: stoul_def skip_hex_prefix_def)
qed

lemma hex_char_not_colon: "isxdigit c \<Longrightarrow> c \<noteq> CHR '':''"
  by (auto simp: isxdigit_def is_digit_of_def digit_value_def)

definition valid_digest :: "openssl \<Rightarrow> HashType \<Rightarrow> ObjectType \<Rightarrow> ArtifactDigest \<Rightarrow> bool" where
  "valid_digest ossl hash_type ty d \<longleftrightarrow>
     HashInfo_Create ossl hash_type (digest_hash d) (IsTreeAllowed hash_type \<and> IsTreeObject ty)
     = Inr (digest_info d)"

lemma valid_digest_create:
  "valid_digest ossl ht ty d \<Longrightarrow>
   ArtifactDigest_Create ossl ht (digest_hash d) (digest_size d) (IsTreeObject ty) = Inr d"
  by (simp add: valid_digest_def ArtifactDigest_Create_def)

lemma valid_digest_hex: "valid_digest ossl ht ty d \<Longrightarrow> list_all isxdigit (digest_hash d)"
  by (auto simp: valid_digest_def HashInfo_Create_def ValidateInput_def IsHexString_def Let_def
      digest_hash_def split: if_splits)

lemma getline_delim:
  "(\<forall>c \<in> set s. c \<noteq> delim) \<Longrightarrow> getline delim (s @ delim # rest) = Some (s, rest)"
  by (simp add: getline_def takeWhile_all_append dropWhile_all_append)

lemma FromChar_ToChar [simp]: "FromChar (ToChar ty) = ty"
  by (cases ty) (simp_all add: FromChar_def)

lemma ToChar_not_bracket: "ToChar ty \<noteq> CHR '']''"
  by (cases ty) simp_all

text \<open>
  The string form of valid object information is read back, with the failure mark,
  which is internal to a run, removed; without a size it is rejected.
\<close>

theorem object_info_round_trip:
  assumes "valid_digest ossl hash_type (info_type oi) (info_digest oi)"
  shows "ObjectInfo_FromString ossl hash_type (ObjectInfo_ToString oi False)
           = Some (oi\<lparr>info_failed := False\<rparr>)
       \<and> ObjectInfo_FromString ossl hash_type (ObjectInfo_ToString oi True) = None"
proof -
  let ?h = "digest_hash (info_digest oi)" and ?c = "ToChar (info_type oi)"
  have h: "\<forall>c \<in> set ?h. c \<noteq> CHR '':''"
    using valid_digest_hex [OF assms] hex_char_not_colon by (auto simp: list_all_iff)
  define sz where "sz = to_string_nat (unat (digest_size (info_digest oi)))"
  have sz: "\<forall>c \<in> set sz. c \<noteq> CHR '':''" "stoul 10 sz = Inr (digest_size (info_digest oi))"
    using to_string_nat_digits digit_not_special(4) stoul_to_string [of "unat (digest_size (info_digest oi))"]
      unsigned_less [of "digest_size (info_digest oi)"] by (auto simp: sz_def)
  define rest where "rest = (if info_failed oi then '' FAILED'' else [])"
  have type: "getline (CHR '']'') (?c # CHR '']'' # rest) = Some ([?c], rest)"
    using getline_delim [of "[?c]" "CHR '']''" rest] ToChar_not_bracket by simp
  have known: "ObjectInfo_ToString oi False = CHR ''['' # ?h @ CHR '':'' # sz @ CHR '':'' # ?c # CHR '']'' # rest"
    by (simp add: ObjectInfo_ToString_def sz_def rest_def)
  have unknown: "ObjectInfo_ToString oi True = CHR ''['' # ?h @ CHR '':'' # [] @ CHR '':'' # ?c # CHR '']'' # rest"
    by (simp add: ObjectInfo_ToString_def rest_def)
  have none: "stoul 10 [] = Inl InvalidArgument" by (simp add: stoul_def skip_hex_prefix_def)
  have "ObjectInfo_FromString ossl hash_type (ObjectInfo_ToString oi False)
        = Some (oi\<lparr>info_failed := False\<rparr>)"
    unfolding known using getline_delim [OF h] getline_delim [OF sz(1)] type sz(2)
      valid_digest_create [OF assms]
    by (simp add: ObjectInfo_FromString_def first_char_def)
  moreover have "ObjectInfo_FromString ossl hash_type (ObjectInfo_ToString oi True) = None"
    unfolding unknown using getline_delim [OF h] getline_delim [of "[]" "CHR '':''"] type none
    by (simp add: ObjectInfo_FromString_def)
  ultimately show ?thesis ..
qed

definition sample_digest :: ArtifactDigest where
  "sample_digest = HashDataAs sample_openssl FileObject GitSHA1 ''hello''"

lemma sample_valid: "valid_digest sample_openssl GitSHA1 FileObject sample_digest"
  using HashData_valid_info [OF sample_digest_sizes, of GitSHA1 "''hello''" False]
  by (simp add: valid_digest_def sample_digest_def HashDataAs_def digest_hash_def IsTreeObject_def)

theorem object_info_round_trip_witness:
  "ObjectInfo_FromString sample_openssl GitSHA1
     (ObjectInfo_ToString \<lparr>info_digest = sample_digest, info_type = FileObject, info_failed = True\<rparr> False)
   = Some \<lparr>info_digest = sample_digest, info_type = FileObject, info_failed = False\<rparr>"
  using object_info_round_trip [of sample_openssl GitSHA1
      "\<lparr>info_digest = sample_digest, info_type = FileObject, info_failed = True\<rparr>"] sample_valid
  by simp

section \<open>Artifact descriptions\<close>

definition desc_ok :: "openssl \<Rightarrow> nlohmann \<Rightarrow> HashType \<Rightarrow> ArtifactDescription \<Rightarrow> bool" where
  "desc_ok ossl N hash_type d \<longleftrightarrow>
     d = mk_description ossl N (desc_data d) \<and>
     (case desc_data d of KnownData digest ty repo \<Rightarrow> valid_digest ossl hash_type ty digest
      | _ \<Rightarrow> True)"

fun drop_repo :: "ArtifactData \<Rightarrow> ArtifactData" where
  "drop_repo (KnownData digest ty repo) = KnownData digest ty None"
| "drop_repo data = data"

definition forget_repo :: "ArtifactDescription \<Rightarrow> ArtifactDescription" where
  "forget_repo d = d\<lparr>desc_data := drop_repo (desc_data d)\<rparr>"

definition reads_sizes :: "nlohmann \<Rightarrow> bool" where
  "reads_sizes N \<longleftrightarrow> (\<forall>n. nl_get_size N (JUnsigned n) = Some n)"

lemmas describe_defs =
  DescribeLocalArtifact_def DescribeKnownArtifact_def DescribeActionArtifact_def
  DescribeTreeArtifact_def DescribeTreeOverlayArtifact_def

lemmas create_defs =
  CreateLocalArtifactDescription_def CreateKnownArtifactDescription_def
  CreateActionArtifactDescription_def CreateTreeArtifactDescription_def
  CreateTreeOverlayArtifactDescription_def
  CreateLocal_def CreateKnown_def CreateAction_def CreateTree_def CreateTreeOverlay_def

lemma drop_repo_same_json: "ArtifactData_ToJson (drop_repo data) = ArtifactData_ToJson data"
  by (cases data) simp_all

lemma forget_repo_mk:
  "forget_repo (mk_description ossl N data) = mk_description ossl N (drop_repo data)"
  by (simp add: forget_repo_def mk_description_def drop_repo_same_json)

lemma description_from_to_json:
  assumes "desc_ok ossl N hash_type d" "reads_sizes N"
  shows "ArtifactDescription_FromJson ossl N hash_type (ArtifactDescription_ToJson d)
         = Some (forget_repo d)"
proof -
  have d: "d = mk_description ossl N (desc_data d)" using assms(1) by (simp add: desc_ok_def)
  have "ArtifactDescription_FromJson ossl N hash_type (ArtifactData_ToJson (desc_data d))
        = Some (mk_description ossl N (drop_repo (desc_data d)))"
  proof (cases "desc_data d")
    case (KnownData digest ty repo)
    then have "valid_digest ossl hash_type ty digest" using assms(1) by (simp add: desc_ok_def)
    then show ?thesis
      using valid_digest_create assms(2) KnownData
      by (simp add: ArtifactDescription_FromJson_def ExtractValueAs_def describe_defs create_defs
          json_simps reads_sizes_def)
  qed (simp_all add: ArtifactDescription_FromJson_def ExtractValueAs_def describe_defs
        create_defs json_simps)
  then show ?thesis
    using d forget_repo_mk by (metis ArtifactDescription_ToJson_def)
qed

text \<open>
  Reading the JSON form of an artifact description gives a description with the same
  identifier and data, apart from the repository of a known artifact, which is not part of
  the form; the artifacts they describe have the same identifier.
\<close>

theorem description_round_trip:
  assumes "desc_ok ossl N hash_type d" "reads_sizes N"
  shows "\<exists>d'. ArtifactDescription_FromJson ossl N hash_type (ArtifactDescription_ToJson d) = Some d'
           \<and> desc_id d' = desc_id d \<and> desc_data d' = drop_repo (desc_data d)
           \<and> ArtifactDescription_eq d' d \<and> art_id (ToArtifact d') = art_id (ToArtifact d)"
proof -
  have "art_id (ToArtifact e) = desc_id e" for e
    by (simp add: ToArtifact_def CreateLocalArtifact_def CreateKnownArtifact_def
        CreateActionArtifact_def mk_Artifact_def SetObjectInfo_digest_def Let_def
        split: ArtifactData.split option.split)
  then show ?thesis
    using description_from_to_json [OF assms]
    by (simp add: forget_repo_def ArtifactDescription_eq_def)
qed

lemma sample_reads_sizes: "reads_sizes sample_nlohmann"
  by (simp add: reads_sizes_def sample_nlohmann_def)

definition sample_known :: ArtifactDescription where
  "sample_known = CreateKnown sample_openssl sample_nlohmann sample_digest FileObject (Some ''repo'')"

lemma sample_known_ok: "desc_ok sample_openssl sample_nlohmann GitSHA1 sample_known"
  by (simp add: desc_ok_def sample_known_def CreateKnown_def mk_description_def sample_valid)

theorem description_round_trip_witness:
  "\<exists>d'. ArtifactDescription_FromJson sample_openssl sample_nlohmann GitSHA1
          (ArtifactDescription_ToJson sample_known) = Some d' \<and> desc_id d' = desc_id sample_known"
  using description_round_trip [OF sample_known_ok sample_reads_sizes] by blast

section \<open>Action descriptions\<close>

lemma is_object_jput [simp]: "is_object (jput k v j) = is_object j"
  by (cases j) simp_all

lemma jfind_jput_object:
  "is_object j \<Longrightarrow> jfind (jput k v j) key = (if key = k then Some v else jfind j key)"
  by (cases j) (simp_all add: json_simps)

lemma is_object_put_unless [simp]: "is_object (put_unless skip k v j) = is_object j"
  by (simp add: put_unless_def)

lemma jfind_put_unless:
  "is_object j \<Longrightarrow>
   jfind (put_unless skip k v j) key = (if key = k \<and> \<not> skip then Some v else jfind j key)"
  by (simp add: put_unless_def jfind_jput_object)

lemma is_object_json_object [simp]: "is_object (json_object kvs)"
  by (simp add: json_object_def)

lemma inputs_to_json_fields:
  "\<exists>kvs. inputs_to_json inputs = JObject kvs \<and>
     (distinct (map fst inputs) \<longrightarrow>
        map_of kvs = map_of (map (\<lambda>(p, d). (p, ArtifactDescription_ToJson d)) inputs))"
proof (induction inputs rule: rev_induct)
  case (snoc pd inputs)
  obtain p d where pd: "pd = (p, d)" by fastforce
  let ?m = "map (\<lambda>(p, d). (p, ArtifactDescription_ToJson d)) inputs"
  obtain kvs where kvs: "inputs_to_json inputs = JObject kvs"
    "distinct (map fst inputs) \<longrightarrow> map_of kvs = map_of ?m"
    using snoc.IH by blast
  then have step: "inputs_to_json (inputs @ [pd]) =
      JObject (map_put p (ArtifactDescription_ToJson d) kvs)"
    by (simp add: inputs_to_json_def pd)
  have "p \<notin> fst ` set inputs \<Longrightarrow> map_of ?m p = None"
    by (force simp: map_of_eq_None_iff)
  then have "distinct (map fst (inputs @ [pd])) \<longrightarrow>
      map_of (map_put p (ArtifactDescription_ToJson d) kvs) =
      map_of (map (\<lambda>(p, d). (p, ArtifactDescription_ToJson d)) (inputs @ [pd]))"
    using kvs(2) by (auto simp: json_simps pd map_add_def fun_eq_iff split: option.split)
  then show ?case using step by blast
qed (simp add: inputs_to_json_def)

lemma inputs_from_json_all:
  assumes "\<And>p j. (p, j) \<in> set kvs \<Longrightarrow> ArtifactDescription_FromJson ossl N ht j = Some (f j)"
  shows "\<exists>res. inputs_from_json ossl N ht kvs acc = Some res \<and>
           (\<forall>p. map_of res p =
              (case map_of acc p of Some d \<Rightarrow> Some d | None \<Rightarrow> map_option f (map_of kvs p)))"
  using assms
proof (induction kvs arbitrary: acc)
  case Nil
  then show ?case by (auto split: option.split)
next
  case (Cons pj kvs)
  obtain p j where pj: "pj = (p, j)" by fastforce
  have "ArtifactDescription_FromJson ossl N ht j = Some (f j)"
    by (rule Cons.prems [of p j]) (simp add: pj)
  then have step: "inputs_from_json ossl N ht (pj # kvs) acc =
      inputs_from_json ossl N ht kvs (emplace p (f j) acc)"
    by (simp add: pj)
  have ins: "map_of (emplace p (f j) acc) q =
      (case map_of acc q of Some d \<Rightarrow> Some d | None \<Rightarrow> if q = p then Some (f j) else None)" for q
    by (auto simp: emplace_def map_add_def split: option.split)
  obtain res where "inputs_from_json ossl N ht kvs (emplace p (f j) acc) = Some res"
    "\<forall>q. map_of res q = (case map_of (emplace p (f j) acc) q of Some d \<Rightarrow> Some d
            | None \<Rightarrow> map_option f (map_of kvs q))"
    using Cons.IH [of "emplace p (f j) acc"] Cons.prems by fastforce
  then show ?case
    unfolding step ins by (auto simp: pj split: option.split)
qed

lemma map_of_in_set_values:
  assumes "map_of kvs = map_of kvs'" "ordered_keys kvs" "(p, j) \<in> set kvs"
  shows "(p, j) \<in> set kvs'"
proof -
  have "map_of kvs p = Some j"
    using assms(2,3) by (simp add: ordered_keys_def)
  then show ?thesis using assms(1) map_of_SomeD by metis
qed

lemma inputs_to_json_ordered: "\<exists>kvs. inputs_to_json inputs = JObject kvs \<and> ordered_keys kvs"
proof (induction inputs rule: rev_induct)
  case (snoc pd inputs)
  then show ?case
    by (cases pd) (auto simp: inputs_to_json_def ordered_keys_map_put)
qed (simp add: inputs_to_json_def ordered_keys_def)

lemma inputs_round_trip:
  assumes "distinct (map fst inputs)" "\<forall>(p, d) \<in> set inputs. desc_ok ossl N ht d"
    and "reads_sizes N"
  shows "\<exists>res. inputs_from_json ossl N ht (items (inputs_to_json inputs)) [] = Some res \<and>
           (\<forall>p. map_of res p = map_option forget_repo (map_of inputs p))"
proof -
  let ?m = "map (\<lambda>(p, d). (p, ArtifactDescription_ToJson d)) inputs"
  let ?f = "\<lambda>j. the (ArtifactDescription_FromJson ossl N ht j)"
  obtain kvs where kvs: "inputs_to_json inputs = JObject kvs" "map_of kvs = map_of ?m"
    using inputs_to_json_fields assms(1) by blast
  have ord: "ordered_keys kvs" using inputs_to_json_ordered [of inputs] kvs(1) by auto
  have rt: "ArtifactDescription_FromJson ossl N ht (ArtifactDescription_ToJson d) = Some (forget_repo d)"
    if "(p, d) \<in> set inputs" for p d
    using description_from_to_json assms(2,3) that by blast
  have "ArtifactDescription_FromJson ossl N ht j = Some (?f j)" if "(p, j) \<in> set kvs" for p j
    using map_of_in_set_values [OF kvs(2) ord that] rt by auto
  then obtain res where res: "inputs_from_json ossl N ht kvs [] = Some res"
    "\<forall>p. map_of res p = map_option ?f (map_of kvs p)"
    using inputs_from_json_all [of kvs ossl N ht ?f "[]"] by auto
  have "map_option ?f (map_of kvs p) = map_option forget_repo (map_of inputs p)" for p
    using rt map_of_SomeD [of inputs p]
    by (auto simp: kvs(2) map_of_map map_option_case split: option.split)
  then show ?thesis using res kvs(1) by auto
qed

definition ad_ok :: "openssl \<Rightarrow> nlohmann \<Rightarrow> HashType \<Rightarrow> ActionDescription \<Rightarrow> bool" where
  "ad_ok ossl N ht ad \<longleftrightarrow>
     \<not> act_is_tree (ad_action ad) \<and> \<not> act_is_tree_overlay (ad_action ad) \<and>
     \<not> act_overlay_disjoint (ad_action ad) \<and> act_command (ad_action ad) \<noteq> [] \<and>
     (ad_output_files ad \<noteq> [] \<or> ad_output_dirs ad \<noteq> []) \<and>
     distinct (map fst (ad_inputs ad)) \<and> (\<forall>(p, d) \<in> set (ad_inputs ad). desc_ok ossl N ht d)"

definition reads_doubles :: "nlohmann \<Rightarrow> bool" where
  "reads_doubles N \<longleftrightarrow> (\<forall>d. nl_get_double N (JFloat d) = Some d)"

lemma jfind_action_json:
  "jfind (ActionDescription_ToJson ad) ''command'' = Some (json_of_strings (act_command (ad_action ad)))"
  "jfind (ActionDescription_ToJson ad) ''output'' =
     (if ad_output_files ad = [] then None else Some (json_of_strings (ad_output_files ad)))"
  "jfind (ActionDescription_ToJson ad) ''output_dirs'' =
     (if ad_output_dirs ad = [] then None else Some (json_of_strings (ad_output_dirs ad)))"
  "jfind (ActionDescription_ToJson ad) ''input'' =
     (if ad_inputs ad = [] then None else Some (inputs_to_json (ad_inputs ad)))"
  "jfind (ActionDescription_ToJson ad) ''env'' =
     (if act_env (ad_action ad) = [] then None else Some (json_of_map (act_env (ad_action ad))))"
  "jfind (ActionDescription_ToJson ad) ''may_fail'' =
     map_option JString (act_may_fail (ad_action ad))"
  "jfind (ActionDescription_ToJson ad) ''no_cache'' =
     (if act_no_cache (ad_action ad) then Some (JBool True) else None)"
  "jfind (ActionDescription_ToJson ad) ''timeout scaling'' =
     (if act_timeout_scale (ad_action ad) = double_one then None
      else Some (JFloat (act_timeout_scale (ad_action ad))))"
  "jfind (ActionDescription_ToJson ad) ''cwd'' =
     (if act_cwd (ad_action ad) = [] then None else Some (JString (act_cwd (ad_action ad))))"
  "jfind (ActionDescription_ToJson ad) ''execution properties'' =
     (if act_execution_properties (ad_action ad) = [] then None
      else Some (json_of_map (act_execution_properties (ad_action ad))))"
  "jfind (ActionDescription_ToJson ad) ''label'' = None"
  by (cases "act_may_fail (ad_action ad)";
      simp add: ActionDescription_ToJson_def Let_def jfind_put_unless jfind_jput_object
        jfind_json_object)+

lemma get_string_map_empty: "get_string_map (JObject []) = Some []"
  by simp

lemma read_action_json:
  "read_outputs (ActionDescription_ToJson ad) ''command'' = Some (act_command (ad_action ad))"
  "read_outputs (ActionDescription_ToJson ad) ''output'' =
     (if ad_output_files ad = [] then None else Some (ad_output_files ad))"
  "read_outputs (ActionDescription_ToJson ad) ''output_dirs'' =
     (if ad_output_dirs ad = [] then None else Some (ad_output_dirs ad))"
  "read_optional_string (ActionDescription_ToJson ad) ''label'' = Some []"
  "read_optional_string (ActionDescription_ToJson ad) ''cwd'' = Some (act_cwd (ad_action ad))"
  "read_may_fail (ActionDescription_ToJson ad) = Some (act_may_fail (ad_action ad))"
  "read_no_cache (ActionDescription_ToJson ad) = Some (act_no_cache (ad_action ad))"
  "optional_key_value_reader (ActionDescription_ToJson ad) ''env'' =
     json_of_map (act_env (ad_action ad))"
  "optional_key_value_reader (ActionDescription_ToJson ad) ''execution properties'' =
     json_of_map (act_execution_properties (ad_action ad))"
  "optional_key_value_reader (ActionDescription_ToJson ad) ''input'' = inputs_to_json (ad_inputs ad)"
  by (simp_all add: read_outputs_def ExtractValueAs_def read_optional_string_def read_may_fail_def
      read_no_cache_def optional_key_value_reader_def jfind_action_json json_simps json_of_map_def
      inputs_to_json_def split: option.split)

lemma read_action_timeout:
  "reads_doubles N \<Longrightarrow>
   read_timeout_scale N (ActionDescription_ToJson ad) = Some (act_timeout_scale (ad_action ad))"
  by (simp add: read_timeout_scale_def jfind_action_json reads_doubles_def)

lemma is_object_inputs [simp]: "is_object (inputs_to_json inputs)"
  using inputs_to_json_fields [of inputs] by auto

lemma is_object_json_of_map [simp]: "is_object (json_of_map kvs)"
  by (simp add: json_of_map_def)

text \<open>
  C8: reading the JSON form of an ordinary action description under its identifier gives
  the description back, apart from the label, which is not part of the form, and from the
  repositories of known inputs: the inputs have the same paths and identifiers.
\<close>

theorem action_round_trip:
  assumes "ad_ok ossl N hash_type ad" "reads_sizes N" "reads_doubles N"
  shows "\<exists>ad'. ActionDescription_FromJson ossl N hash_type (ad_id ad) (ActionDescription_ToJson ad)
                  = Some ad'
           \<and> ad_output_files ad' = ad_output_files ad \<and> ad_output_dirs ad' = ad_output_dirs ad
           \<and> ad_action ad' = (ad_action ad)\<lparr>act_label := []\<rparr>
           \<and> (\<forall>p. map_of (ad_inputs ad') p = map_option forget_repo (map_of (ad_inputs ad) p))"
proof -
  obtain inputs where
    "inputs_from_json ossl N hash_type (items (inputs_to_json (ad_inputs ad))) [] = Some inputs"
    "\<forall>p. map_of inputs p = map_option forget_repo (map_of (ad_inputs ad) p)"
    using inputs_round_trip assms(1,2) unfolding ad_ok_def by blast
  moreover have "mk_Action (ad_id ad) (act_command (ad_action ad)) [] (act_cwd (ad_action ad))
      (act_env (ad_action ad)) (act_may_fail (ad_action ad)) (act_no_cache (ad_action ad))
      (act_timeout_scale (ad_action ad)) (act_execution_properties (ad_action ad))
    = (ad_action ad)\<lparr>act_label := []\<rparr>"
    using assms(1) by (simp add: ad_ok_def mk_Action_def ad_id_def)
  ultimately show ?thesis
    using assms(1) read_action_timeout [OF assms(3), of ad]
    by (auto simp: ad_ok_def ActionDescription_FromJson_def read_action_json json_simps Let_def)
qed

definition sample_action :: ActionDescription where
  "sample_action =
     \<lparr>ad_output_files = [''out''], ad_output_dirs = [],
      ad_action = mk_Action ''id'' [''cp'', ''in'', ''out''] ''label'' [] [(''PATH'', ''/bin'')]
                    (Some ''failed'') True 0 [],
      ad_inputs = [(''in'', sample_known)]\<rparr>"

theorem action_round_trip_witness:
  "\<exists>ad'. ActionDescription_FromJson sample_openssl sample_nlohmann GitSHA1 ''id''
           (ActionDescription_ToJson sample_action) = Some ad'
     \<and> ad_output_files ad' = [''out''] \<and> map_of (ad_inputs ad') ''in'' = Some (forget_repo sample_known)"
proof -
  have "ad_ok sample_openssl sample_nlohmann GitSHA1 sample_action"
    using sample_known_ok by (simp add: ad_ok_def sample_action_def mk_Action_def)
  moreover have "reads_doubles sample_nlohmann"
    by (simp add: reads_doubles_def sample_nlohmann_def)
  ultimately show ?thesis
    using action_round_trip [of sample_openssl sample_nlohmann GitSHA1 sample_action]
      sample_reads_sizes
    by (auto simp: sample_action_def ad_id_def mk_Action_def)
qed

section \<open>Identifiers of descriptions that cannot be printed\<close>

text \<open>
  Where the library throws on printing (a path that is not UTF-8), the identifier is the
  empty string: two such descriptions are equal, whatever they describe.
\<close>

lemma unprintable_descriptions_collide:
  assumes "nl_dump N (ArtifactData_ToJson a) = Inl e" "nl_dump N (ArtifactData_ToJson b) = Inl e'"
  shows "ArtifactDescription_eq (mk_description ossl N a) (mk_description ossl N b)
         \<and> desc_id (mk_description ossl N a) = []"
  using assms by (simp add: ArtifactDescription_eq_def mk_description_def ComputeId_def)

end
