(* ===== verification/Jst_Dag.thy ===== *)
theory Jst_Dag
  imports Jst_Artifact
begin

text \<open>
  The dependency graph: \<^verbatim>\<open>src/buildtool/execution_engine/dag/dag.{hpp,cpp}\<close>. Nodes never
  move (they are held by \<^verbatim>\<open>std::unique_ptr\<close>), so that a pointer to a node is the index of
  the node in the vector of the graph that owns it: an \<open>action_ref\<close> or an \<open>artifact_ref\<close>.
  A graph passes through every operation that changes it. Fields that C++ shares between the
  two kinds of nodes and of traversal states are the fields of a parent record.
\<close>

section \<open>Traversal states\<close>

record NodeTraversalState =
  has_been_discovered :: bool
  is_queued_to_be_processed :: bool
  is_required :: bool

record ActionNodeTraversalState = NodeTraversalState +
  unavailable_deps :: "32 word"

record ArtifactNodeTraversalState = NodeTraversalState +
  is_available :: bool

definition GetAndMarkDiscovered ::
  "'a NodeTraversalState_scheme \<Rightarrow> bool \<times> 'a NodeTraversalState_scheme" where
  "GetAndMarkDiscovered s = (has_been_discovered s, s\<lparr>has_been_discovered := True\<rparr>)"

definition GetAndMarkQueuedToBeProcessed ::
  "'a NodeTraversalState_scheme \<Rightarrow> bool \<times> 'a NodeTraversalState_scheme" where
  "GetAndMarkQueuedToBeProcessed s =
     (is_queued_to_be_processed s, s\<lparr>is_queued_to_be_processed := True\<rparr>)"

definition MarkRequired :: "'a NodeTraversalState_scheme \<Rightarrow> 'a NodeTraversalState_scheme" where
  "MarkRequired s = s\<lparr>is_required := True\<rparr>"

definition NotifyAvailableDepAndCheckReady ::
  "ActionNodeTraversalState \<Rightarrow> bool \<times> ActionNodeTraversalState" where
  "NotifyAvailableDepAndCheckReady s =
     (unavailable_deps s = 1, s\<lparr>unavailable_deps := unavailable_deps s - 1\<rparr>)"

definition IsReady :: "ActionNodeTraversalState \<Rightarrow> bool" where
  "IsReady s \<longleftrightarrow> unavailable_deps s = 0"

definition InitUnavailableDeps ::
  "nat \<Rightarrow> ActionNodeTraversalState \<Rightarrow> ActionNodeTraversalState" where
  "InitUnavailableDeps count s = s\<lparr>unavailable_deps := word_of_nat count\<rparr>"

definition MakeAvailable :: "ArtifactNodeTraversalState \<Rightarrow> ArtifactNodeTraversalState" where
  "MakeAvailable s = s\<lparr>is_available := True\<rparr>"

definition new_action_state :: ActionNodeTraversalState where
  "new_action_state = \<lparr>has_been_discovered = False, is_queued_to_be_processed = False,
                       is_required = False, unavailable_deps = - 1\<rparr>"

definition new_artifact_state :: ArtifactNodeTraversalState where
  "new_artifact_state = \<lparr>has_been_discovered = False, is_queued_to_be_processed = False,
                         is_required = False, is_available = False\<rparr>"

section \<open>Nodes\<close>

type_synonym action_ref = nat
type_synonym artifact_ref = nat

record 'c Node =
  node_content :: 'c
  node_parents :: "nat list"
  node_children :: "nat list"

record NamedOtherNodePtr =
  nn_path :: string
  nn_node :: artifact_ref

record ActionNode = "Action Node" +
  output_files :: "NamedOtherNodePtr list"
  output_dirs :: "NamedOtherNodePtr list"
  dependencies :: "NamedOtherNodePtr list"
  action_state :: ActionNodeTraversalState

record ArtifactNode = "Artifact Node" +
  artifact_state :: ArtifactNodeTraversalState

definition ActionNode_Create :: "Action \<Rightarrow> ActionNode" where
  "ActionNode_Create a =
     \<lparr>node_content = a, node_parents = [], node_children = [], output_files = [],
      output_dirs = [], dependencies = [], action_state = new_action_state\<rparr>"

definition ArtifactNode_Create :: "Artifact \<Rightarrow> ArtifactNode" where
  "ArtifactNode_Create a =
     \<lparr>node_content = a, node_parents = [], node_children = [],
      artifact_state = new_artifact_state\<rparr>"

definition AddParent :: "nat \<Rightarrow> ('c, 'a) Node_scheme \<Rightarrow> ('c, 'a) Node_scheme" where
  "AddParent p n = n\<lparr>node_parents := node_parents n @ [p]\<rparr>"

definition AddChild :: "nat \<Rightarrow> ('c, 'a) Node_scheme \<Rightarrow> ('c, 'a) Node_scheme" where
  "AddChild c n = n\<lparr>node_children := node_children n @ [c]\<rparr>"

definition AddOutputFile :: "NamedOtherNodePtr \<Rightarrow> ActionNode \<Rightarrow> ActionNode" where
  "AddOutputFile output n =
     (let n = AddParent (nn_node output) n in n\<lparr>output_files := output_files n @ [output]\<rparr>)"

definition AddOutputDir :: "NamedOtherNodePtr \<Rightarrow> ActionNode \<Rightarrow> ActionNode" where
  "AddOutputDir output n =
     (let n = AddParent (nn_node output) n in n\<lparr>output_dirs := output_dirs n @ [output]\<rparr>)"

definition AddDependency :: "NamedOtherNodePtr \<Rightarrow> ActionNode \<Rightarrow> ActionNode" where
  "AddDependency dependency n =
     (let n = AddChild (nn_node dependency) n
      in n\<lparr>dependencies := dependencies n @ [dependency]\<rparr>)"

definition NodePaths :: "NamedOtherNodePtr list \<Rightarrow> string list" where
  "NodePaths nodes = map nn_path nodes"

definition NotifyDoneLinking :: "ActionNode \<Rightarrow> ActionNode" where
  "NotifyDoneLinking n =
     n\<lparr>action_state := InitUnavailableDeps (length (node_children n)) (action_state n)\<rparr>"

text \<open>A second builder is refused, whichever action it is.\<close>

definition AddBuilderActionNode :: "action_ref \<Rightarrow> ArtifactNode \<Rightarrow> ArtifactNode \<times> bool" where
  "AddBuilderActionNode action n =
     (if node_children n = [] then (AddChild action n, True) else (n, False))"

definition AddConsumerActionNode :: "action_ref \<Rightarrow> ArtifactNode \<Rightarrow> ArtifactNode" where
  "AddConsumerActionNode action n = AddParent action n"

definition HasBuilderAction :: "ArtifactNode \<Rightarrow> bool" where
  "HasBuilderAction n \<longleftrightarrow> node_children n \<noteq> []"

definition BuilderActionNode :: "ArtifactNode \<Rightarrow> action_ref option" where
  "BuilderActionNode n = (if HasBuilderAction n then Some (node_children n ! 0) else None)"

section \<open>The graph\<close>

record DependencyGraph =
  action_nodes :: "ActionNode list"
  artifact_nodes :: "ArtifactNode list"
  action_ids :: "ActionIdentifier \<Rightarrow> action_ref option"
  artifact_ids :: "ArtifactIdentifier \<Rightarrow> artifact_ref option"

definition DependencyGraph_empty :: DependencyGraph where
  "DependencyGraph_empty =
     \<lparr>action_nodes = [], artifact_nodes = [], action_ids = Map.empty, artifact_ids = Map.empty\<rparr>"

definition update_action :: "action_ref \<Rightarrow> (ActionNode \<Rightarrow> ActionNode) \<Rightarrow> DependencyGraph \<Rightarrow> DependencyGraph" where
  "update_action i f g = g\<lparr>action_nodes := (action_nodes g)[i := f (action_nodes g ! i)]\<rparr>"

definition update_artifact ::
  "artifact_ref \<Rightarrow> (ArtifactNode \<Rightarrow> ArtifactNode) \<Rightarrow> DependencyGraph \<Rightarrow> DependencyGraph" where
  "update_artifact i f g = g\<lparr>artifact_nodes := (artifact_nodes g)[i := f (artifact_nodes g ! i)]\<rparr>"

definition AddAction_node :: "DependencyGraph \<Rightarrow> Action \<Rightarrow> DependencyGraph \<times> action_ref" where
  "AddAction_node g a =
     (case action_ids g (act_id a) of
        Some node_id \<Rightarrow> (g, node_id)
      | None \<Rightarrow>
          let g = g\<lparr>action_nodes := action_nodes g @ [ActionNode_Create a]\<rparr>;
              node_id = length (action_nodes g) - 1
          in (g\<lparr>action_ids := (action_ids g)(act_id a \<mapsto> node_id)\<rparr>, node_id))"

definition AddArtifact_node :: "DependencyGraph \<Rightarrow> Artifact \<Rightarrow> DependencyGraph \<times> artifact_ref" where
  "AddArtifact_node g a =
     (case artifact_ids g (art_id a) of
        Some node_id \<Rightarrow> (g, node_id)
      | None \<Rightarrow>
          let g = g\<lparr>artifact_nodes := artifact_nodes g @ [ArtifactNode_Create a]\<rparr>;
              node_id = length (artifact_nodes g) - 1
          in (g\<lparr>artifact_ids := (artifact_ids g)(art_id a \<mapsto> node_id)\<rparr>, node_id))"

definition AddArtifact ::
  "DependencyGraph \<Rightarrow> ArtifactDescription \<Rightarrow> DependencyGraph \<times> ArtifactIdentifier" where
  "AddArtifact g description =
     (let artifact = ToArtifact description
      in (fst (AddArtifact_node g artifact), art_id artifact))"

definition ArtifactIdentifiers :: "DependencyGraph \<Rightarrow> ArtifactIdentifier set" where
  "ArtifactIdentifiers g = dom (artifact_ids g)"

definition ArtifactNodeWithId :: "DependencyGraph \<Rightarrow> ArtifactIdentifier \<Rightarrow> ArtifactNode option" where
  "ArtifactNodeWithId g ident =
     (case artifact_ids g ident of
        None \<Rightarrow> None | Some i \<Rightarrow> Some (artifact_nodes g ! i))"

definition ActionNodeWithId :: "DependencyGraph \<Rightarrow> ActionIdentifier \<Rightarrow> ActionNode option" where
  "ActionNodeWithId g ident =
     (case action_ids g ident of None \<Rightarrow> None | Some i \<Rightarrow> Some (action_nodes g ! i))"

section \<open>Adding an action\<close>

text \<open>The loop over named artifacts that creates a node for each.\<close>

fun create_nodes ::
  "DependencyGraph \<Rightarrow> (string \<times> Artifact) list \<Rightarrow> DependencyGraph \<times> NamedOtherNodePtr list" where
  "create_nodes g [] = (g, [])"
| "create_nodes g ((path, artifact) # rest) =
     (let (g, node_id) = AddArtifact_node g artifact;
          (g, nodes) = create_nodes g rest
      in (g, \<lparr>nn_path = path, nn_node = node_id\<rparr> # nodes))"

definition node_creator ::
  "openssl \<Rightarrow> nlohmann \<Rightarrow> DependencyGraph \<Rightarrow> string \<Rightarrow> string list
   \<Rightarrow> DependencyGraph \<times> NamedOtherNodePtr list" where
  "node_creator ossl N g action_id paths =
     create_nodes g (map (\<lambda>path. (path, ToArtifact (CreateAction ossl N action_id path))) paths)"

definition CreateOutputArtifactNodes ::
  "openssl \<Rightarrow> nlohmann \<Rightarrow> DependencyGraph \<Rightarrow> string \<Rightarrow> string list \<Rightarrow> string list \<Rightarrow> bool \<Rightarrow> bool
   \<Rightarrow> DependencyGraph \<times> NamedOtherNodePtr list \<times> NamedOtherNodePtr list" where
  "CreateOutputArtifactNodes ossl N g action_id file_paths dir_paths is_tree_action
       is_tree_overlay_action =
     (if is_tree_overlay_action
      then let artifact = ToArtifact (CreateTreeOverlay ossl N action_id);
               (g, node_id) = AddArtifact_node g artifact
           in (g, [], [\<lparr>nn_path = [], nn_node = node_id\<rparr>])
      else if is_tree_action
      then let artifact = ToArtifact (CreateTree ossl N action_id);
               (g, node_id) = AddArtifact_node g artifact
           in (g, [], [\<lparr>nn_path = [], nn_node = node_id\<rparr>])
      else let (g, file_nodes) = node_creator ossl N g action_id file_paths;
               (g, dir_nodes) = node_creator ossl N g action_id dir_paths
           in (g, file_nodes, dir_nodes))"

definition CreateInputArtifactNodes ::
  "DependencyGraph \<Rightarrow> (string \<times> ArtifactDescription) list
   \<Rightarrow> DependencyGraph \<times> NamedOtherNodePtr list option" where
  "CreateInputArtifactNodes g inputs =
     (let (g, nodes) = create_nodes g (map (\<lambda>(local_path, desc). (local_path, ToArtifact desc)) inputs)
      in (g, Some nodes))"

definition CreateActionNode :: "DependencyGraph \<Rightarrow> Action \<Rightarrow> DependencyGraph \<times> action_ref option" where
  "CreateActionNode g action =
     (if act_is_tree action \<or> act_is_tree_overlay action \<or> act_command action \<noteq> []
      then let (g, node_id) = AddAction_node g action in (g, Some node_id)
      else (g, None))"

text \<open>The first two loops of \<^verbatim>\<open>LinkNodePointers\<close> differ in the member function they call.\<close>

fun link_outputs ::
  "(NamedOtherNodePtr \<Rightarrow> ActionNode \<Rightarrow> ActionNode) \<Rightarrow> action_ref \<Rightarrow> NamedOtherNodePtr list
   \<Rightarrow> DependencyGraph \<Rightarrow> DependencyGraph \<times> bool" where
  "link_outputs add_output action [] g = (g, True)"
| "link_outputs add_output action (named # rest) g =
     (let (n, added) = AddBuilderActionNode action (artifact_nodes g ! nn_node named);
          g = update_artifact (nn_node named) (\<lambda>_. n) g
      in if \<not> added then (g, False)
         else link_outputs add_output action rest (update_action action (add_output named) g))"

fun link_inputs :: "action_ref \<Rightarrow> NamedOtherNodePtr list \<Rightarrow> DependencyGraph \<Rightarrow> DependencyGraph" where
  "link_inputs action [] g = g"
| "link_inputs action (named # rest) g =
     link_inputs action rest
       (update_action action (AddDependency named)
          (update_artifact (nn_node named) (AddConsumerActionNode action) g))"

definition LinkNodePointers ::
  "NamedOtherNodePtr list \<Rightarrow> NamedOtherNodePtr list \<Rightarrow> action_ref \<Rightarrow> NamedOtherNodePtr list
   \<Rightarrow> DependencyGraph \<Rightarrow> DependencyGraph \<times> bool" where
  "LinkNodePointers files dirs action inputs g =
     (let (g, linked) = link_outputs AddOutputFile action files g
      in if \<not> linked then (g, False)
         else let (g, linked) = link_outputs AddOutputDir action dirs g
              in if \<not> linked then (g, False)
                 else (update_action action NotifyDoneLinking (link_inputs action inputs g), True))"

definition AddAction ::
  "openssl \<Rightarrow> nlohmann \<Rightarrow> DependencyGraph \<Rightarrow> ActionDescription \<Rightarrow> DependencyGraph \<times> bool" where
  "AddAction ossl N g description =
     (let (g, file_nodes, dir_nodes) =
            CreateOutputArtifactNodes ossl N g (ad_id description) (ad_output_files description)
              (ad_output_dirs description) (act_is_tree (ad_action description))
              (act_is_tree_overlay (ad_action description));
          (g, action_node) = CreateActionNode g (ad_action description);
          (g, input_nodes) = CreateInputArtifactNodes g (ad_inputs description)
      in case (action_node, input_nodes) of
           (Some action, Some inputs) \<Rightarrow>
             if file_nodes = [] \<and> dir_nodes = [] then (g, False)
             else LinkNodePointers file_nodes dir_nodes action inputs g
         | _ \<Rightarrow> (g, False))"

text \<open>\<^verbatim>\<open>std::all_of\<close>: the actions up to the first that cannot be added.\<close>

fun Add ::
  "openssl \<Rightarrow> nlohmann \<Rightarrow> DependencyGraph \<Rightarrow> ActionDescription list \<Rightarrow> DependencyGraph \<times> bool" where
  "Add ossl N g [] = (g, True)"
| "Add ossl N g (action # actions) =
     (let (g, added) = AddAction ossl N g action
      in if added then Add ossl N g actions else (g, False))"

end
