(* ===== verification/Jst_Dag_Props.thy ===== *)
theory Jst_Dag_Props
  imports Jst_Dag Jst_Artifact_Props "HOL-Library.Multiset"
begin

text \<open>
  The dependency graph keeps its invariant (identifiers and nodes in one-to-one
  correspondence, links recorded on both sides, at most one builder per artifact, counters
  of unavailable dependencies initialised); adding an action succeeds exactly where every
  output is fresh, and then records the action with its outputs and inputs.
\<close>

named_theorems dag_simps \<open>the parts of a graph after an update\<close>

section \<open>Tables of identifiers\<close>

definition id_table :: "(string \<Rightarrow> nat option) \<Rightarrow> string list \<Rightarrow> bool" where
  "id_table ids names \<longleftrightarrow> (\<forall>k i. ids k = Some i \<longleftrightarrow> i < length names \<and> names ! i = k)"

text \<open>
  The contract that \<^verbatim>\<open>AddArtifact\<close> and \<^verbatim>\<open>AddAction\<close> on contents share: a node is looked up
  by the identifier of its content, and appended under it where there is none.
\<close>

locale find_or_append =
  fixes ids :: "'g \<Rightarrow> string \<Rightarrow> nat option"
    and names :: "'g \<Rightarrow> string list"
    and key :: "'c \<Rightarrow> string"
    and add :: "'g \<Rightarrow> 'c \<Rightarrow> 'g \<times> nat"
  assumes add_found: "ids g (key c) = Some i \<Longrightarrow> add g c = (g, i)"
    and add_new: "ids g (key c) = None \<Longrightarrow>
      names (fst (add g c)) = names g @ [key c] \<and>
      ids (fst (add g c)) = (ids g)(key c \<mapsto> length (names g)) \<and>
      snd (add g c) = length (names g)"
begin

lemma add_table:
  assumes "id_table (ids g) (names g)"
  shows "id_table (ids (fst (add g c))) (names (fst (add g c)))"
proof (cases "ids g (key c)")
  case None
  then have "key c \<notin> set (names g)"
    using assms unfolding id_table_def by (metis in_set_conv_nth option.distinct(1))
  then show ?thesis
    using add_new [OF None] assms
    by (auto simp: id_table_def nth_append less_Suc_eq) (metis nth_mem)
qed (use add_found assms in auto)

lemma add_lookup: "ids (fst (add g c)) (key c) = Some (snd (add g c))"
  by (cases "ids g (key c)") (use add_found add_new in auto)

lemma add_keeps: "ids g k = Some i \<Longrightarrow> ids (fst (add g c)) k = Some i"
  by (cases "ids g (key c)") (use add_found add_new in auto)

lemma add_dom: "dom (ids (fst (add g c))) = insert (key c) (dom (ids g))"
  by (cases "ids g (key c)") (use add_found add_new in \<open>auto simp: dom_def\<close>)

lemma add_twice: "add (fst (add g c)) c = add g c"
  using add_found [OF add_lookup] by simp

lemma add_in_range:
  "id_table (ids g) (names g) \<Longrightarrow> snd (add g c) < length (names (fst (add g c)))"
  using add_table [of g c] add_lookup [of g c] by (auto simp: id_table_def)

end

definition artifact_names :: "DependencyGraph \<Rightarrow> string list" where
  "artifact_names g = map (\<lambda>n. art_id (node_content n)) (artifact_nodes g)"

definition action_names :: "DependencyGraph \<Rightarrow> string list" where
  "action_names g = map (\<lambda>n. act_id (node_content n)) (action_nodes g)"

lemma names_length [simp]:
  "length (artifact_names g) = length (artifact_nodes g)"
  "length (action_names g) = length (action_nodes g)"
  by (simp_all add: artifact_names_def action_names_def)

interpretation artifacts: find_or_append artifact_ids artifact_names art_id AddArtifact_node
  by unfold_locales
    (auto simp: AddArtifact_node_def artifact_names_def ArtifactNode_Create_def Let_def)

interpretation actions: find_or_append action_ids action_names act_id AddAction_node
  by unfold_locales
    (auto simp: AddAction_node_def action_names_def ActionNode_Create_def Let_def)

section \<open>The invariant\<close>

definition action_ok :: "nat \<Rightarrow> ActionNode \<Rightarrow> bool" where
  "action_ok arts n \<longleftrightarrow>
     mset (node_parents n) = mset (map nn_node (output_files n @ output_dirs n)) \<and>
     node_children n = map nn_node (dependencies n) \<and>
     (\<forall>r \<in> set (node_parents n) \<union> set (node_children n). r < arts)"

definition artifact_ok :: "nat \<Rightarrow> ArtifactNode \<Rightarrow> bool" where
  "artifact_ok acts n \<longleftrightarrow>
     length (node_children n) \<le> 1 \<and>
     (\<forall>a \<in> set (node_parents n) \<union> set (node_children n). a < acts)"

definition links_match :: "DependencyGraph \<Rightarrow> bool" where
  "links_match g \<longleftrightarrow>
     (\<forall>a < length (action_nodes g). \<forall>r < length (artifact_nodes g).
        count_list (node_parents (artifact_nodes g ! r)) a
          = count_list (node_children (action_nodes g ! a)) r \<and>
        count_list (node_children (artifact_nodes g ! r)) a
          = count_list (node_parents (action_nodes g ! a)) r)"

definition dag_links :: "DependencyGraph \<Rightarrow> bool" where
  "dag_links g \<longleftrightarrow>
     id_table (artifact_ids g) (artifact_names g) \<and> id_table (action_ids g) (action_names g) \<and>
     (\<forall>n \<in> set (action_nodes g). action_ok (length (artifact_nodes g)) n) \<and>
     (\<forall>n \<in> set (artifact_nodes g). artifact_ok (length (action_nodes g)) n) \<and>
     links_match g"

definition counter_ok :: "ActionNode \<Rightarrow> bool" where
  "counter_ok n \<longleftrightarrow>
     unavailable_deps (action_state n) = word_of_nat (length (node_children n)) \<or>
     unavailable_deps (action_state n) = - 1 \<and> node_children n = []"

definition dag_inv :: "DependencyGraph \<Rightarrow> bool" where
  "dag_inv g \<longleftrightarrow> dag_links g \<and> (\<forall>n \<in> set (action_nodes g). counter_ok n)"

lemma update_simps [dag_simps]:
  "artifact_nodes (update_action i f g) = artifact_nodes g"
  "action_nodes (update_action i f g) = (action_nodes g)[i := f (action_nodes g ! i)]"
  "artifact_nodes (update_artifact i h g) = (artifact_nodes g)[i := h (artifact_nodes g ! i)]"
  "action_nodes (update_artifact i h g) = action_nodes g"
  "artifact_ids (update_action i f g) = artifact_ids g"
  "action_ids (update_action i f g) = action_ids g"
  "artifact_ids (update_artifact i h g) = artifact_ids g"
  "action_ids (update_artifact i h g) = action_ids g"
  by (simp_all add: update_action_def update_artifact_def)

lemma map_list_update_same:
  "(i < length xs \<Longrightarrow> f y = f (xs ! i)) \<Longrightarrow> map f (xs[i := y]) = map f xs"
  by (cases "i < length xs") (auto intro!: nth_equalityI simp: nth_list_update)

lemma names_update:
  "(i < length (action_nodes g) \<Longrightarrow>
      node_content (f (action_nodes g ! i)) = node_content (action_nodes g ! i)) \<Longrightarrow>
   action_names (update_action i f g) = action_names g"
  "(i < length (artifact_nodes g) \<Longrightarrow>
      node_content (h (artifact_nodes g ! i)) = node_content (artifact_nodes g ! i)) \<Longrightarrow>
   artifact_names (update_artifact i h g) = artifact_names g"
  "artifact_names (update_action i f g) = artifact_names g"
  "action_names (update_artifact i h g) = action_names g"
  by (simp_all add: action_names_def artifact_names_def dag_simps map_list_update_same)

lemma node_update_simps [dag_simps]:
  "node_content (AddParent p n) = node_content n" "node_content (AddChild p n) = node_content n"
  "node_parents (AddParent p n) = node_parents n @ [p]" "node_children (AddParent p n) = node_children n"
  "node_parents (AddChild p n) = node_parents n" "node_children (AddChild p n) = node_children n @ [p]"
  by (simp_all add: AddParent_def AddChild_def)

lemma action_update_simps [dag_simps]:
  "node_content (AddOutputFile o' n) = node_content n"
  "node_content (AddOutputDir o' n) = node_content n"
  "node_content (AddDependency o' n) = node_content n"
  "node_content (NotifyDoneLinking n) = node_content n"
  "node_parents (AddOutputFile o' n) = node_parents n @ [nn_node o']"
  "node_parents (AddOutputDir o' n) = node_parents n @ [nn_node o']"
  "node_parents (AddDependency o' n) = node_parents n"
  "node_parents (NotifyDoneLinking n) = node_parents n"
  "node_children (AddOutputFile o' n) = node_children n"
  "node_children (AddOutputDir o' n) = node_children n"
  "node_children (AddDependency o' n) = node_children n @ [nn_node o']"
  "node_children (NotifyDoneLinking n) = node_children n"
  "output_files (AddOutputFile o' n) = output_files n @ [o']"
  "output_files (AddOutputDir o' n) = output_files n"
  "output_files (AddDependency o' n) = output_files n"
  "output_files (NotifyDoneLinking n) = output_files n"
  "output_dirs (AddOutputFile o' n) = output_dirs n"
  "output_dirs (AddOutputDir o' n) = output_dirs n @ [o']"
  "output_dirs (AddDependency o' n) = output_dirs n"
  "output_dirs (NotifyDoneLinking n) = output_dirs n"
  "dependencies (AddOutputFile o' n) = dependencies n"
  "dependencies (AddOutputDir o' n) = dependencies n"
  "dependencies (AddDependency o' n) = dependencies n @ [o']"
  "dependencies (NotifyDoneLinking n) = dependencies n"
  "action_state (AddOutputFile o' n) = action_state n"
  "action_state (AddOutputDir o' n) = action_state n"
  "action_state (AddDependency o' n) = action_state n"
  by (simp_all add: AddOutputFile_def AddOutputDir_def AddDependency_def NotifyDoneLinking_def
      AddParent_def AddChild_def Let_def)

section \<open>Adding nodes\<close>

lemma AddArtifact_node_cases:
  obtains (found) i where "artifact_ids g (art_id a) = Some i" "AddArtifact_node g a = (g, i)"
  | (fresh) "artifact_ids g (art_id a) = None"
      "AddArtifact_node g a =
        (g\<lparr>artifact_nodes := artifact_nodes g @ [ArtifactNode_Create a],
           artifact_ids := (artifact_ids g)(art_id a \<mapsto> length (artifact_nodes g))\<rparr>,
         length (artifact_nodes g))"
  by (cases "artifact_ids g (art_id a)") (auto simp: AddArtifact_node_def Let_def)

lemma AddAction_node_cases:
  obtains (found) i where "action_ids g (act_id a) = Some i" "AddAction_node g a = (g, i)"
  | (fresh) "action_ids g (act_id a) = None"
      "AddAction_node g a =
        (g\<lparr>action_nodes := action_nodes g @ [ActionNode_Create a],
           action_ids := (action_ids g)(act_id a \<mapsto> length (action_nodes g))\<rparr>,
         length (action_nodes g))"
  by (cases "action_ids g (act_id a)") (auto simp: AddAction_node_def Let_def)

lemma dag_links_tables:
  "dag_links g \<Longrightarrow> id_table (artifact_ids g) (artifact_names g)"
  "dag_links g \<Longrightarrow> id_table (action_ids g) (action_names g)"
  by (simp_all add: dag_links_def)

lemma action_ok_nth:
  "dag_links g \<Longrightarrow> i < length (action_nodes g) \<Longrightarrow>
   action_ok (length (artifact_nodes g)) (action_nodes g ! i)"
  by (simp add: dag_links_def)

lemma artifact_ok_nth:
  "dag_links g \<Longrightarrow> i < length (artifact_nodes g) \<Longrightarrow>
   artifact_ok (length (action_nodes g)) (artifact_nodes g ! i)"
  by (simp add: dag_links_def)

lemma action_ok_mono: "action_ok k n \<Longrightarrow> k \<le> l \<Longrightarrow> action_ok l n"
  by (auto simp: action_ok_def ball_Un intro: less_le_trans)

lemma artifact_ok_mono: "artifact_ok k n \<Longrightarrow> k \<le> l \<Longrightarrow> artifact_ok l n"
  by (auto simp: artifact_ok_def ball_Un intro: less_le_trans)

lemma create_ok:
  "action_ok k (ActionNode_Create a)" "artifact_ok k (ArtifactNode_Create b)"
  "counter_ok (ActionNode_Create a)"
  by (simp_all add: action_ok_def artifact_ok_def counter_ok_def ActionNode_Create_def
      ArtifactNode_Create_def new_action_state_def)

lemma count_list_fresh:
  "\<forall>x \<in> set xs. x < (n :: nat) \<Longrightarrow> count_list xs n = 0"
  by (auto simp: count_list_0_iff)

lemma AddArtifact_node_inv:
  assumes "dag_links g"
  shows "dag_links (fst (AddArtifact_node g a))
    \<and> action_nodes (fst (AddArtifact_node g a)) = action_nodes g
    \<and> snd (AddArtifact_node g a) < length (artifact_nodes (fst (AddArtifact_node g a)))"
proof (cases rule: AddArtifact_node_cases [of g a])
  case (found i)
  then show ?thesis
    using assms artifacts.add_in_range [of g a] dag_links_tables(1) [OF assms] by simp
next
  case fresh
  define G where "G = fst (AddArtifact_node g a)"
  have G: "artifact_nodes G = artifact_nodes g @ [ArtifactNode_Create a]"
    "action_nodes G = action_nodes g" "action_ids G = action_ids g" "action_names G = action_names g"
    "snd (AddArtifact_node g a) = length (artifact_nodes g)"
    using fresh by (simp_all add: action_names_def G_def)
  have "links_match G"
    using assms action_ok_nth [OF assms]
    by (auto simp: links_match_def G nth_append dag_links_def ArtifactNode_Create_def action_ok_def
        less_Suc_eq count_list_fresh)
  moreover have "id_table (artifact_ids G) (artifact_names G)"
    using artifacts.add_table [OF dag_links_tables(1) [OF assms]] unfolding G_def .
  moreover have "\<forall>n \<in> set (action_nodes g). action_ok (Suc (length (artifact_nodes g))) n"
    using assms action_ok_mono by (auto simp: dag_links_def)
  ultimately show ?thesis
    using assms create_ok unfolding G_def [symmetric] by (auto simp: dag_links_def G)
qed

lemma AddAction_node_inv:
  assumes "dag_links g"
  shows "dag_links (fst (AddAction_node g a))
    \<and> artifact_nodes (fst (AddAction_node g a)) = artifact_nodes g
    \<and> artifact_ids (fst (AddAction_node g a)) = artifact_ids g
    \<and> snd (AddAction_node g a) < length (action_nodes (fst (AddAction_node g a)))
    \<and> set (action_nodes (fst (AddAction_node g a))) \<subseteq> insert (ActionNode_Create a) (set (action_nodes g))"
proof (cases rule: AddAction_node_cases [of g a])
  case (found i)
  then show ?thesis
    using assms actions.add_in_range [of g a] dag_links_tables(2) [OF assms] by auto
next
  case fresh
  define G where "G = fst (AddAction_node g a)"
  have G: "action_nodes G = action_nodes g @ [ActionNode_Create a]"
    "artifact_nodes G = artifact_nodes g" "artifact_ids G = artifact_ids g"
    "artifact_names G = artifact_names g" "snd (AddAction_node g a) = length (action_nodes g)"
    using fresh by (simp_all add: artifact_names_def G_def)
  have "links_match G"
    using assms artifact_ok_nth [OF assms]
    by (auto simp: links_match_def G nth_append dag_links_def ActionNode_Create_def artifact_ok_def
        less_Suc_eq count_list_fresh)
  moreover have "id_table (action_ids G) (action_names G)"
    using actions.add_table [OF dag_links_tables(2) [OF assms]] unfolding G_def .
  moreover have "\<forall>n \<in> set (artifact_nodes g). artifact_ok (Suc (length (action_nodes g))) n"
    using assms artifact_ok_mono by (auto simp: dag_links_def)
  ultimately show ?thesis
    using assms create_ok unfolding G_def [symmetric] by (auto simp: dag_links_def G)
qed

section \<open>Linking\<close>

lemma update_artifact_update_action_links:
  assumes inv: "dag_links g"
    and r: "r < length (artifact_nodes g)" and a: "a < length (action_nodes g)"
    and h: "node_content h = node_content (artifact_nodes g ! r)" "artifact_ok (length (action_nodes g)) h"
    and f: "node_content f = node_content (action_nodes g ! a)" "action_ok (length (artifact_nodes g)) f"
    and match: "\<And>a' r'. a' < length (action_nodes g) \<Longrightarrow> r' < length (artifact_nodes g) \<Longrightarrow>
      count_list (node_parents ((artifact_nodes g)[r := h] ! r')) a'
        = count_list (node_children ((action_nodes g)[a := f] ! a')) r' \<and>
      count_list (node_children ((artifact_nodes g)[r := h] ! r')) a'
        = count_list (node_parents ((action_nodes g)[a := f] ! a')) r'"
  shows "dag_links (update_action a (\<lambda>_. f) (update_artifact r (\<lambda>_. h) g))"
proof -
  have "action_names (update_action a (\<lambda>_. f) (update_artifact r (\<lambda>_. h) g)) = action_names g"
    "artifact_names (update_action a (\<lambda>_. f) (update_artifact r (\<lambda>_. h) g)) = artifact_names g"
    using f(1) h(1) by (simp_all add: names_update dag_simps)
  then show ?thesis
    using inv h(2) f(2) match set_update_subset_insert
    by (auto simp: dag_links_def dag_simps links_match_def dest!: subsetD [OF set_update_subset_insert])
qed

text \<open>
  One round of the output loops on a fresh artifact, for either member function: both add the
  node to the parents of the action and append the named pointer to one of its two lists.
\<close>

definition adds_output :: "(NamedOtherNodePtr \<Rightarrow> ActionNode \<Rightarrow> ActionNode) \<Rightarrow> bool" where
  "adds_output add_output \<longleftrightarrow> add_output = AddOutputFile \<or> add_output = AddOutputDir"

lemma adds_output_simps:
  assumes "adds_output add_output"
  shows "node_content (add_output o' n) = node_content n"
    "node_parents (add_output o' n) = node_parents n @ [nn_node o']"
    "node_children (add_output o' n) = node_children n"
    "dependencies (add_output o' n) = dependencies n"
    "action_state (add_output o' n) = action_state n"
    "mset (output_files (add_output o' n)) + mset (output_dirs (add_output o' n))
       = add_mset o' (mset (output_files n) + mset (output_dirs n))"
  using assms by (auto simp: adds_output_def dag_simps)

lemma mset_output_nodes:
  "mset (map nn_node (output_files n @ output_dirs n)) =
   image_mset nn_node (mset (output_files n) + mset (output_dirs n))"
  by simp

lemma link_output_inv:
  assumes "dag_links g" "a < length (action_nodes g)" "nn_node named < length (artifact_nodes g)"
    and fresh: "node_children (artifact_nodes g ! nn_node named) = []"
    and add: "adds_output add_output"
  shows "dag_links (update_action a (add_output named)
           (update_artifact (nn_node named) (AddChild a) g))"
proof -
  let ?r = "nn_node named"
  let ?n = "action_nodes g ! a" and ?h = "AddChild a (artifact_nodes g ! ?r)"
  let ?f = "add_output named ?n"
  have eq: "update_action a (add_output named) (update_artifact ?r (AddChild a) g)
      = update_action a (\<lambda>_. ?f) (update_artifact ?r (\<lambda>_. ?h) g)"
    by (simp add: update_action_def update_artifact_def)
  have n: "action_ok (length (artifact_nodes g)) ?n" by (rule action_ok_nth [OF assms(1,2)])
  have h: "artifact_ok (length (action_nodes g)) ?h"
    using artifact_ok_nth [OF assms(1,3)] assms(2) fresh by (auto simp: artifact_ok_def dag_simps)
  have f: "action_ok (length (artifact_nodes g)) ?f"
    using n assms(3) unfolding action_ok_def mset_output_nodes
    by (auto simp: adds_output_simps [OF add])
  have match: "links_match g" using assms(1) by (simp add: dag_links_def)
  show ?thesis
    unfolding eq
    by (rule update_artifact_update_action_links [OF assms(1,3,2) _ h _ f])
      (use match fresh assms(2,3) in
        \<open>auto simp: dag_simps adds_output_simps [OF add] links_match_def nth_list_update\<close>)
qed

lemma link_input_inv:
  assumes "dag_links g" "a < length (action_nodes g)" "nn_node named < length (artifact_nodes g)"
  shows "dag_links (update_action a (AddDependency named)
           (update_artifact (nn_node named) (AddConsumerActionNode a) g))"
proof -
  let ?r = "nn_node named"
  let ?n = "action_nodes g ! a" and ?h = "AddParent a (artifact_nodes g ! ?r)"
  let ?f = "AddDependency named ?n"
  have eq: "update_action a (AddDependency named) (update_artifact ?r (AddConsumerActionNode a) g)
      = update_action a (\<lambda>_. ?f) (update_artifact ?r (\<lambda>_. ?h) g)"
    by (simp add: update_action_def update_artifact_def AddConsumerActionNode_def)
  have n: "action_ok (length (artifact_nodes g)) ?n" by (rule action_ok_nth [OF assms(1,2)])
  have h: "artifact_ok (length (action_nodes g)) ?h"
    using artifact_ok_nth [OF assms(1,3)] assms(2) by (auto simp: artifact_ok_def dag_simps)
  have f: "action_ok (length (artifact_nodes g)) ?f"
    using n assms(3) by (auto simp: action_ok_def dag_simps)
  have match: "links_match g" using assms(1) by (simp add: dag_links_def)
  show ?thesis
    unfolding eq
    by (rule update_artifact_update_action_links [OF assms(1,3,2) _ h _ f])
      (use match assms(2,3) in \<open>auto simp: dag_simps links_match_def nth_list_update\<close>)
qed

section \<open>The loops\<close>

definition same_names :: "DependencyGraph \<Rightarrow> DependencyGraph \<Rightarrow> bool" where
  "same_names g g' \<longleftrightarrow>
     artifact_ids g' = artifact_ids g \<and> action_ids g' = action_ids g \<and>
     artifact_names g' = artifact_names g \<and> action_names g' = action_names g"

lemma same_names_lengths:
  assumes "same_names g g'"
  shows "length (artifact_nodes g') = length (artifact_nodes g)"
    "length (action_nodes g') = length (action_nodes g)"
  using assms names_length unfolding same_names_def by metis+

lemma same_names_trans: "same_names g g' \<Longrightarrow> same_names g' g'' \<Longrightarrow> same_names g g''"
  by (simp add: same_names_def)

lemma same_names_link:
  "(\<And>n. node_content (f n) = node_content n) \<Longrightarrow> (\<And>n. node_content (h n) = node_content n) \<Longrightarrow>
   same_names g (update_action a f (update_artifact r h g))"
  by (simp add: same_names_def names_update dag_simps)

lemma link_outputs_effect:
  assumes "dag_links g" "a < length (action_nodes g)" "adds_output add_output"
    and "\<forall>named \<in> set os. nn_node named < length (artifact_nodes g)"
  shows "dag_links (fst (link_outputs add_output a os g))
    \<and> same_names g (fst (link_outputs add_output a os g))
    \<and> (\<forall>i. node_children (action_nodes (fst (link_outputs add_output a os g)) ! i)
               = node_children (action_nodes g ! i)
           \<and> action_state (action_nodes (fst (link_outputs add_output a os g)) ! i)
               = action_state (action_nodes g ! i))
    \<and> (snd (link_outputs add_output a os g) \<longleftrightarrow>
         distinct (map nn_node os) \<and>
         (\<forall>named \<in> set os. node_children (artifact_nodes g ! nn_node named) = []))
    \<and> (snd (link_outputs add_output a os g) \<longrightarrow>
         action_nodes (fst (link_outputs add_output a os g))
           = (action_nodes g)[a := fold add_output os (action_nodes g ! a)] \<and>
         (\<forall>r < length (artifact_nodes g).
            artifact_nodes (fst (link_outputs add_output a os g)) ! r =
              (if r \<in> nn_node ` set os then AddChild a (artifact_nodes g ! r)
               else artifact_nodes g ! r)))"
  using assms(1,2,4)
proof (induction os arbitrary: g)
  case Nil
  then show ?case by (simp add: same_names_def)
next
  case (Cons named os)
  let ?r = "nn_node named"
  show ?case
  proof (cases "node_children (artifact_nodes g ! ?r) = []")
    case False
    then have "link_outputs add_output a (named # os) g = (g, False)"
      by (simp add: AddBuilderActionNode_def update_artifact_def)
    then show ?thesis using Cons.prems False by (auto simp: same_names_def)
  next
    case True
    define G where "G = update_action a (add_output named) (update_artifact ?r (AddChild a) g)"
    have step: "link_outputs add_output a (named # os) g = link_outputs add_output a os G"
      using True by (simp add: AddBuilderActionNode_def G_def update_artifact_def)
    have inv: "dag_links G"
      unfolding G_def using link_output_inv [OF Cons.prems(1,2) _ True assms(3)] Cons.prems(3) by simp
    have names: "same_names g G"
      unfolding G_def by (rule same_names_link) (simp_all add: adds_output_simps [OF assms(3)] dag_simps)
    note len = same_names_lengths [OF names]
    have acts: "action_nodes G = (action_nodes g)[a := add_output named (action_nodes g ! a)]"
      and arts: "artifact_nodes G = (artifact_nodes g)[?r := AddChild a (artifact_nodes g ! ?r)]"
      by (simp_all add: G_def dag_simps)
    have r: "?r < length (artifact_nodes g)" using Cons.prems(3) by simp
    have kids: "node_children (artifact_nodes G ! r') = [] \<longleftrightarrow>
        node_children (artifact_nodes g ! r') = [] \<and> r' \<noteq> ?r" for r'
      using r by (cases "r' = ?r") (simp_all add: arts dag_simps)
    have same: "node_children (action_nodes G ! i) = node_children (action_nodes g ! i)"
      "action_state (action_nodes G ! i) = action_state (action_nodes g ! i)" for i
      using Cons.prems(2)
      by (cases "i = a"; simp add: acts adds_output_simps [OF assms(3)])+
    have IH: "a < length (action_nodes G)" "\<forall>named \<in> set os. nn_node named < length (artifact_nodes G)"
      using Cons.prems len by auto
    note ih = Cons.IH [OF inv IH, folded step]
    show ?thesis
    proof (intro conjI)
      show "dag_links (fst (link_outputs add_output a (named # os) g))" using ih by simp
      show "same_names g (fst (link_outputs add_output a (named # os) g))"
        using ih names same_names_trans by blast
      show "\<forall>i. node_children (action_nodes (fst (link_outputs add_output a (named # os) g)) ! i)
                 = node_children (action_nodes g ! i)
             \<and> action_state (action_nodes (fst (link_outputs add_output a (named # os) g)) ! i)
                 = action_state (action_nodes g ! i)"
        using ih same by simp
      show ok: "snd (link_outputs add_output a (named # os) g) \<longleftrightarrow>
          distinct (map nn_node (named # os)) \<and>
          (\<forall>named \<in> set (named # os). node_children (artifact_nodes g ! nn_node named) = [])"
      proof -
        have "snd (link_outputs add_output a (named # os) g) \<longleftrightarrow> distinct (map nn_node os) \<and>
            (\<forall>n \<in> set os. node_children (artifact_nodes g ! nn_node n) = [] \<and> nn_node n \<noteq> ?r)"
          using ih unfolding kids by blast
        moreover have "?r \<notin> nn_node ` set os \<longleftrightarrow> (\<forall>n \<in> set os. nn_node n \<noteq> ?r)" by (metis imageE image_eqI)
        ultimately show ?thesis using True by (simp del: link_outputs.simps) blast
      qed
      show "snd (link_outputs add_output a (named # os) g) \<longrightarrow>
         action_nodes (fst (link_outputs add_output a (named # os) g))
           = (action_nodes g)[a := fold add_output (named # os) (action_nodes g ! a)] \<and>
         (\<forall>r < length (artifact_nodes g).
            artifact_nodes (fst (link_outputs add_output a (named # os) g)) ! r =
              (if r \<in> nn_node ` set (named # os) then AddChild a (artifact_nodes g ! r)
               else artifact_nodes g ! r))"
      proof
        assume s: "snd (link_outputs add_output a (named # os) g)"
        then have fresh: "?r \<notin> nn_node ` set os" using ok by (simp del: link_outputs.simps)
        have eff: "action_nodes (fst (link_outputs add_output a (named # os) g))
            = (action_nodes G)[a := fold add_output os (action_nodes G ! a)]"
          "\<And>r'. r' < length (artifact_nodes G) \<Longrightarrow>
             artifact_nodes (fst (link_outputs add_output a (named # os) g)) ! r' =
              (if r' \<in> nn_node ` set os then AddChild a (artifact_nodes G ! r')
               else artifact_nodes G ! r')"
          using ih s by blast+
        show "action_nodes (fst (link_outputs add_output a (named # os) g))
            = (action_nodes g)[a := fold add_output (named # os) (action_nodes g ! a)] \<and>
          (\<forall>r < length (artifact_nodes g).
            artifact_nodes (fst (link_outputs add_output a (named # os) g)) ! r =
              (if r \<in> nn_node ` set (named # os) then AddChild a (artifact_nodes g ! r)
               else artifact_nodes g ! r))"
          using eff fresh len r Cons.prems(2)
          by (auto simp: acts arts nth_list_update simp del: link_outputs.simps)
      qed
    qed
  qed
qed

lemma link_inputs_effect:
  assumes "dag_links g" "a < length (action_nodes g)"
    and "\<forall>named \<in> set ins. nn_node named < length (artifact_nodes g)"
  shows "dag_links (link_inputs a ins g) \<and> same_names g (link_inputs a ins g)
    \<and> action_nodes (link_inputs a ins g)
        = (action_nodes g)[a := fold AddDependency ins (action_nodes g ! a)]
    \<and> (\<forall>r. node_children (artifact_nodes (link_inputs a ins g) ! r)
             = node_children (artifact_nodes g ! r))"
  using assms
proof (induction ins arbitrary: g)
  case Nil
  then show ?case by (simp add: same_names_def)
next
  case (Cons named ins)
  define G where "G = update_action a (AddDependency named)
      (update_artifact (nn_node named) (AddConsumerActionNode a) g)"
  have inv: "dag_links G"
    unfolding G_def using link_input_inv [OF Cons.prems(1,2)] Cons.prems(3) by simp
  have names: "same_names g G"
    unfolding G_def by (rule same_names_link) (simp_all add: dag_simps AddConsumerActionNode_def)
  note len = same_names_lengths [OF names]
  have kids: "node_children (artifact_nodes G ! r) = node_children (artifact_nodes g ! r)" for r
    using Cons.prems(3)
    by (cases "r = nn_node named") (simp_all add: G_def dag_simps AddConsumerActionNode_def)
  have acts: "action_nodes G = (action_nodes g)[a := AddDependency named (action_nodes g ! a)]"
    by (simp add: G_def dag_simps)
  have "a < length (action_nodes G)" "\<forall>n \<in> set ins. nn_node n < length (artifact_nodes G)"
    using Cons.prems len by auto
  from Cons.IH [OF inv this] show ?case
    using names same_names_trans kids Cons.prems(2) by (auto simp: G_def [symmetric] acts)
qed

text \<open>A graph after artifacts have been added to it.\<close>

definition grown :: "DependencyGraph \<Rightarrow> DependencyGraph \<Rightarrow> bool" where
  "grown g g' \<longleftrightarrow>
     (\<forall>k i. artifact_ids g k = Some i \<longrightarrow> artifact_ids g' k = Some i) \<and>
     length (artifact_nodes g) \<le> length (artifact_nodes g') \<and>
     (\<forall>i < length (artifact_nodes g). artifact_nodes g' ! i = artifact_nodes g ! i) \<and>
     (\<forall>i < length (artifact_nodes g').
        length (artifact_nodes g) \<le> i \<longrightarrow> node_children (artifact_nodes g' ! i) = [])"

lemma grown_refl: "grown g g"
  by (simp add: grown_def)

lemma grown_trans:
  assumes "grown g g'" "grown g' g''"
  shows "grown g g''"
  unfolding grown_def
proof (intro conjI allI impI)
  fix i
  assume i: "i < length (artifact_nodes g'')" "length (artifact_nodes g) \<le> i"
  show "node_children (artifact_nodes g'' ! i) = []"
    using assms i by (cases "i < length (artifact_nodes g')") (simp_all add: grown_def)
qed (use assms in \<open>auto simp: grown_def\<close>)

lemma AddArtifact_node_grown: "grown g (fst (AddArtifact_node g a))"
proof (cases rule: AddArtifact_node_cases [of g a])
  case fresh
  then show ?thesis
    by (auto simp: grown_def nth_append ArtifactNode_Create_def)
qed (simp add: grown_refl)

lemma AddArtifact_node_actions:
  "action_nodes (fst (AddArtifact_node g a)) = action_nodes g"
  "action_ids (fst (AddArtifact_node g a)) = action_ids g"
  by (cases rule: AddArtifact_node_cases [of g a]; simp)+

definition named_in :: "DependencyGraph \<Rightarrow> (string \<times> Artifact) list \<Rightarrow> NamedOtherNodePtr list \<Rightarrow> bool" where
  "named_in g pas nns \<longleftrightarrow>
     map nn_path nns = map fst pas \<and>
     map (artifact_ids g \<circ> art_id \<circ> snd) pas = map (Some \<circ> nn_node) nns"

lemma named_in_grown:
  assumes "named_in g pas nns" "grown g g'"
  shows "named_in g' pas nns"
proof -
  have "map (artifact_ids g' \<circ> art_id \<circ> snd) pas = map (artifact_ids g \<circ> art_id \<circ> snd) pas"
  proof (rule map_cong [OF refl])
    fix pa assume "pa \<in> set pas"
    then have "(artifact_ids g \<circ> art_id \<circ> snd) pa \<in> set (map (Some \<circ> nn_node) nns)"
      using assms(1) unfolding named_in_def by (metis imageI list.set_map)
    then obtain i where "artifact_ids g (art_id (snd pa)) = Some i" by auto
    then show "(artifact_ids g' \<circ> art_id \<circ> snd) pa = (artifact_ids g \<circ> art_id \<circ> snd) pa"
      using assms(2) by (simp add: grown_def)
  qed
  then show ?thesis using assms(1) unfolding named_in_def by metis
qed

lemma named_in_append:
  "named_in g pas nns \<Longrightarrow> named_in g pas' nns' \<Longrightarrow> named_in g (pas @ pas') (nns @ nns')"
  by (simp add: named_in_def)

lemma create_nodes_effect:
  assumes "dag_links g" "create_nodes g pas = (g', nns)"
  shows "dag_links g' \<and> grown g g' \<and> action_nodes g' = action_nodes g \<and> action_ids g' = action_ids g
    \<and> named_in g' pas nns"
  using assms
proof (induction pas arbitrary: g nns)
  case Nil
  then show ?case by (simp add: grown_refl named_in_def)
next
  case (Cons pa pas)
  obtain p art where pa: "pa = (p, art)" by fastforce
  define G where "G = fst (AddArtifact_node g art)"
  obtain ns where ns: "create_nodes G pas = (g', ns)"
    "nns = \<lparr>nn_path = p, nn_node = snd (AddArtifact_node g art)\<rparr> # ns"
    using Cons.prems(2) by (auto simp: pa G_def split: prod.splits)
  have G: "dag_links G" "grown g G" "action_nodes G = action_nodes g" "action_ids G = action_ids g"
    using AddArtifact_node_inv [OF Cons.prems(1)] AddArtifact_node_grown AddArtifact_node_actions
    by (simp_all add: G_def)
  have ih: "dag_links g'" "grown G g'" "action_nodes g' = action_nodes G"
    "action_ids g' = action_ids G" "named_in g' pas ns"
    using Cons.IH [OF G(1) ns(1)] by simp_all
  have "artifact_ids g' (art_id art) = Some (snd (AddArtifact_node g art))"
    using artifacts.add_lookup [of g art] ih(2) by (simp add: grown_def G_def)
  then show ?case
    using ih G grown_trans ns(2) by (auto simp: pa named_in_def)
qed

lemma named_in_range:
  assumes "dag_links g" "named_in g pas nns" "named \<in> set nns"
  shows "nn_node named < length (artifact_nodes g)"
proof -
  have "Some (nn_node named) \<in> set (map (artifact_ids g \<circ> art_id \<circ> snd) pas)"
    using assms(2,3) unfolding named_in_def by (metis comp_apply imageI list.set_map)
  then obtain k where "artifact_ids g k = Some (nn_node named)"
    unfolding set_map comp_def by force
  then show ?thesis
    using dag_links_tables(1) [OF assms(1)] unfolding id_table_def names_length by blast
qed

section \<open>Linking an action\<close>

lemma adds_output_members [simp]: "adds_output AddOutputFile" "adds_output AddOutputDir"
  by (simp_all add: adds_output_def)

lemma counters_same:
  assumes "length (action_nodes g') = length (action_nodes g)"
    and "\<forall>i. node_children (action_nodes g' ! i) = node_children (action_nodes g ! i)
             \<and> action_state (action_nodes g' ! i) = action_state (action_nodes g ! i)"
  shows "(\<forall>n \<in> set (action_nodes g'). counter_ok n) \<longleftrightarrow> (\<forall>n \<in> set (action_nodes g). counter_ok n)"
  using assms by (simp add: all_set_conv_all_nth counter_ok_def)

lemma counter_ok_done: "counter_ok (NotifyDoneLinking n)"
  by (simp add: counter_ok_def NotifyDoneLinking_def InitUnavailableDeps_def)

lemma ball_set_update:
  "P y \<Longrightarrow> \<forall>x \<in> set xs. P x \<Longrightarrow> \<forall>x \<in> set (xs[i := y]). P x"
  by (auto dest: set_update_subset_insert [THEN subsetD])

lemma done_links:
  assumes "dag_links g" and True: "a < length (action_nodes g)"
  shows "dag_links (update_action a NotifyDoneLinking g)
    \<and> same_names g (update_action a NotifyDoneLinking g)"
proof -
  have ok: "action_ok k (NotifyDoneLinking n) \<longleftrightarrow> action_ok k n" for k n
    by (simp add: action_ok_def dag_simps)
  have "\<forall>i. node_parents (((action_nodes g)[a := NotifyDoneLinking (action_nodes g ! a)]) ! i)
            = node_parents (action_nodes g ! i)
          \<and> node_children (((action_nodes g)[a := NotifyDoneLinking (action_nodes g ! a)]) ! i)
            = node_children (action_nodes g ! i)"
    using assms(2) by (auto simp: nth_list_update dag_simps)
  then have "links_match (update_action a NotifyDoneLinking g)"
    using assms by (simp add: dag_links_def links_match_def dag_simps)
  moreover have "\<forall>n \<in> set ((action_nodes g)[a := NotifyDoneLinking (action_nodes g ! a)]).
      action_ok (length (artifact_nodes g)) n"
    using assms ok action_ok_nth [OF assms] by (intro ball_set_update) (simp_all add: dag_links_def)
  ultimately show ?thesis
    using assms by (simp add: dag_links_def same_names_def names_update dag_simps)
qed

definition linked_action ::
  "NamedOtherNodePtr list \<Rightarrow> NamedOtherNodePtr list \<Rightarrow> NamedOtherNodePtr list \<Rightarrow> ActionNode \<Rightarrow> ActionNode" where
  "linked_action fs ds ins n =
     NotifyDoneLinking (fold AddDependency ins (fold AddOutputDir ds (fold AddOutputFile fs n)))"

lemma LinkNodePointers_effect:
  assumes "dag_inv g" "a < length (action_nodes g)"
    and "\<forall>named \<in> set (fs @ ds @ ins). nn_node named < length (artifact_nodes g)"
  shows "dag_inv (fst (LinkNodePointers fs ds a ins g))
    \<and> same_names g (fst (LinkNodePointers fs ds a ins g))
    \<and> (snd (LinkNodePointers fs ds a ins g) \<longleftrightarrow>
         distinct (map nn_node (fs @ ds)) \<and>
         (\<forall>named \<in> set (fs @ ds). node_children (artifact_nodes g ! nn_node named) = []))
    \<and> (snd (LinkNodePointers fs ds a ins g) \<longrightarrow>
         action_nodes (fst (LinkNodePointers fs ds a ins g))
           = (action_nodes g)[a := linked_action fs ds ins (action_nodes g ! a)] \<and>
         (\<forall>r < length (artifact_nodes g).
            node_children (artifact_nodes (fst (LinkNodePointers fs ds a ins g)) ! r) =
              (if r \<in> nn_node ` set (fs @ ds) then [a] else node_children (artifact_nodes g ! r))))"
proof -
  let ?L = "LinkNodePointers fs ds a ins g"
  have links: "dag_links g" and counters: "\<forall>n \<in> set (action_nodes g). counter_ok n"
    using assms(1) by (simp_all add: dag_inv_def)
  define G1 ok1 where "G1 = fst (link_outputs AddOutputFile a fs g)"
    and "ok1 = snd (link_outputs AddOutputFile a fs g)"
  define G2 ok2 where "G2 = fst (link_outputs AddOutputDir a ds G1)"
    and "ok2 = snd (link_outputs AddOutputDir a ds G1)"
  note e1 = link_outputs_effect [OF links assms(2) adds_output_members(1), of fs,
      folded G1_def ok1_def]
  have r1: "\<forall>named \<in> set fs. nn_node named < length (artifact_nodes g)" using assms(3) by simp
  note len1 = same_names_lengths [of g G1]
  have in1: "dag_links G1" "a < length (action_nodes G1)"
    "\<forall>named \<in> set ds. nn_node named < length (artifact_nodes G1)"
    using e1 [OF r1] assms(2,3) len1 by auto
  note e2 = link_outputs_effect [OF in1(1,2) adds_output_members(2) in1(3), folded G2_def ok2_def]
  note len2 = same_names_lengths [of G1 G2]
  have in2: "dag_links G2" "a < length (action_nodes G2)"
    "\<forall>named \<in> set ins. nn_node named < length (artifact_nodes G2)"
    using e1 [OF r1] e2 assms(2,3) len1 len2 by auto
  note e3 = link_inputs_effect [OF in2]
  have unfold_L: "?L = (if \<not> ok1 then (G1, False) else if \<not> ok2 then (G2, False)
      else (update_action a NotifyDoneLinking (link_inputs a ins G2), True))"
    by (simp add: LinkNodePointers_def G1_def ok1_def G2_def ok2_def case_prod_unfold)
  let ?fresh = "\<lambda>os. \<forall>named \<in> set os. node_children (artifact_nodes g ! nn_node named) = []"
  have inv1: "dag_inv G1" "same_names g G1"
    using e1 [OF r1] counters counters_same [of G1 g] len1 by (simp_all add: dag_inv_def)
  have inv2: "dag_inv G2" "same_names g G2"
    using e2 inv1 counters_same [of G2 G1] len2 same_names_trans [of g G1 G2]
    by (simp_all add: dag_inv_def)
  have ok1: "ok1 \<longleftrightarrow> distinct (map nn_node fs) \<and> ?fresh fs" using e1 [OF r1] by blast
  show ?thesis
  proof (cases ok1)
    case False
    then show ?thesis using unfold_L inv1 ok1 by auto
  next
    case True
    then have arts1: "node_children (artifact_nodes G1 ! r) =
        (if r \<in> nn_node ` set fs then [a] else node_children (artifact_nodes g ! r))"
      if "r < length (artifact_nodes g)" for r
      using e1 [OF r1] ok1 that by (auto simp: dag_simps)
    have "node_children (artifact_nodes G1 ! nn_node named) = [] \<longleftrightarrow>
        node_children (artifact_nodes g ! nn_node named) = [] \<and> nn_node named \<notin> nn_node ` set fs"
      if "named \<in> set ds" for named
      using arts1 [of "nn_node named"] assms(3) that by (simp split: if_splits)
    then have "(\<forall>named \<in> set ds. node_children (artifact_nodes G1 ! nn_node named) = []) \<longleftrightarrow>
        ?fresh ds \<and> (\<forall>named \<in> set ds. nn_node named \<notin> nn_node ` set fs)"
      by blast
    then have ok2: "ok2 \<longleftrightarrow> distinct (map nn_node ds) \<and> ?fresh ds \<and>
        (\<forall>named \<in> set ds. nn_node named \<notin> nn_node ` set fs)"
      using e2 by blast
    have disj: "set (map nn_node fs) \<inter> set (map nn_node ds) = {} \<longleftrightarrow>
        (\<forall>named \<in> set ds. nn_node named \<notin> nn_node ` set fs)"
      unfolding set_map disjoint_iff by blast
    have all_ok: "distinct (map nn_node (fs @ ds)) \<and> ?fresh (fs @ ds) \<longleftrightarrow> ok2"
      using True unfolding ok1 ok2 map_append distinct_append disj set_append ball_Un by blast
    show ?thesis
    proof (cases ok2)
      case False
      then show ?thesis using unfold_L inv2 \<open>ok1\<close> all_ok by simp
    next
      case ok2: True
      define G3 where "G3 = update_action a NotifyDoneLinking (link_inputs a ins G2)"
      have L: "?L = (G3, True)" using unfold_L \<open>ok1\<close> ok2 by (simp add: G3_def)
      have acts: "action_nodes G3
          = (action_nodes g)[a := linked_action fs ds ins (action_nodes g ! a)]"
        using e1 [OF r1] e2 e3 \<open>ok1\<close> ok2 assms(2) in2(2)
        by (simp add: G3_def dag_simps linked_action_def)
      have arts: "node_children (artifact_nodes G3 ! r) =
          (if r \<in> nn_node ` set (fs @ ds) then [a] else node_children (artifact_nodes g ! r))"
        if "r < length (artifact_nodes g)" for r
        using e2 e3 ok2 that arts1 len1 inv1(2) all_ok by (auto simp: G3_def dag_simps)
      have "dag_links G3" "same_names g G3"
      proof -
        have l: "dag_links (link_inputs a ins G2)" "same_names G2 (link_inputs a ins G2)"
          using e3 by blast+
        have "a < length (action_nodes (link_inputs a ins G2))"
          using same_names_lengths(2) [OF l(2)] in2(2) by simp
        note d = done_links [OF l(1) this, folded G3_def]
        show "dag_links G3" using d by blast
        show "same_names g G3" using d same_names_trans [OF same_names_trans [OF inv2(2) l(2)]] by blast
      qed
      moreover have "\<forall>n \<in> set (action_nodes G3). counter_ok n"
        using counters counter_ok_done unfolding acts linked_action_def by (intro ball_set_update)
      ultimately show ?thesis
        using L acts arts all_ok ok2 by (simp add: dag_inv_def)
    qed
  qed
qed

section \<open>Adding an action\<close>

definition can_run :: "Action \<Rightarrow> bool" where
  "can_run a \<longleftrightarrow> act_is_tree a \<or> act_is_tree_overlay a \<or> act_command a \<noteq> []"

definition action_artifacts ::
  "openssl \<Rightarrow> nlohmann \<Rightarrow> string \<Rightarrow> string list \<Rightarrow> (string \<times> Artifact) list" where
  "action_artifacts ossl N action_id paths =
     map (\<lambda>path. (path, ToArtifact (CreateAction ossl N action_id path))) paths"

text \<open>The artifacts that an action builds, with the paths under which it lists them.\<close>

definition file_outputs :: "openssl \<Rightarrow> nlohmann \<Rightarrow> ActionDescription \<Rightarrow> (string \<times> Artifact) list" where
  "file_outputs ossl N ad =
     (if act_is_tree (ad_action ad) \<or> act_is_tree_overlay (ad_action ad) then []
      else action_artifacts ossl N (ad_id ad) (ad_output_files ad))"

definition dir_outputs :: "openssl \<Rightarrow> nlohmann \<Rightarrow> ActionDescription \<Rightarrow> (string \<times> Artifact) list" where
  "dir_outputs ossl N ad =
     (if act_is_tree_overlay (ad_action ad) then [([], ToArtifact (CreateTreeOverlay ossl N (ad_id ad)))]
      else if act_is_tree (ad_action ad) then [([], ToArtifact (CreateTree ossl N (ad_id ad)))]
      else action_artifacts ossl N (ad_id ad) (ad_output_dirs ad))"

definition input_artifacts :: "ActionDescription \<Rightarrow> (string \<times> Artifact) list" where
  "input_artifacts ad = map (\<lambda>(path, d). (path, ToArtifact d)) (ad_inputs ad)"

definition output_ids :: "openssl \<Rightarrow> nlohmann \<Rightarrow> ActionDescription \<Rightarrow> string list" where
  "output_ids ossl N ad = map (art_id \<circ> snd) (file_outputs ossl N ad @ dir_outputs ossl N ad)"

definition create_outputs ::
  "openssl \<Rightarrow> nlohmann \<Rightarrow> DependencyGraph \<Rightarrow> ActionDescription
   \<Rightarrow> DependencyGraph \<times> NamedOtherNodePtr list \<times> NamedOtherNodePtr list" where
  "create_outputs ossl N g ad =
     CreateOutputArtifactNodes ossl N g (ad_id ad) (ad_output_files ad) (ad_output_dirs ad)
       (act_is_tree (ad_action ad)) (act_is_tree_overlay (ad_action ad))"

lemma single_create_nodes:
  "create_nodes g [(p, art)] =
     (fst (AddArtifact_node g art), [\<lparr>nn_path = p, nn_node = snd (AddArtifact_node g art)\<rparr>])"
  by (simp add: case_prod_unfold Let_def)

lemma create_outputs_effect:
  assumes "dag_links g" "create_outputs ossl N g ad = (g', fs, ds)"
  shows "dag_links g' \<and> grown g g' \<and> action_nodes g' = action_nodes g \<and> action_ids g' = action_ids g
    \<and> named_in g' (file_outputs ossl N ad) fs \<and> named_in g' (dir_outputs ossl N ad) ds"
proof -
  obtain G where files: "create_nodes g (file_outputs ossl N ad) = (G, fs)"
    and dirs: "create_nodes G (dir_outputs ossl N ad) = (g', ds)"
    using assms(2)
    by (auto simp: create_outputs_def CreateOutputArtifactNodes_def node_creator_def
        file_outputs_def dir_outputs_def action_artifacts_def case_prod_unfold Let_def prod_eq_iff
        simp del: create_nodes.simps(2) simp add: single_create_nodes
        split: if_splits prod.splits)
  note e1 = create_nodes_effect [OF assms(1) files]
  then have "dag_links G" by blast
  note e2 = create_nodes_effect [OF this dirs]
  show ?thesis
    using e1 e2 named_in_grown grown_trans by (metis (no_types, lifting))
qed

lemma AddAction_node_grown: "grown g (fst (AddAction_node g a))"
proof (cases rule: AddAction_node_cases [of g a])
  case fresh
  then show ?thesis
    using grown_refl [of g] by (simp add: grown_def)
qed (simp add: grown_refl)

definition old_or_new :: "DependencyGraph \<Rightarrow> Action \<Rightarrow> ActionNode" where
  "old_or_new g a =
     (case ActionNodeWithId g (act_id a) of None \<Rightarrow> ActionNode_Create a | Some n \<Rightarrow> n)"

lemma AddAction_node_old_or_new:
  "action_nodes (fst (AddAction_node g a)) ! snd (AddAction_node g a) = old_or_new g a"
  by (cases rule: AddAction_node_cases [of g a])
    (simp_all add: old_or_new_def ActionNodeWithId_def)

text \<open>The graph that \<^verbatim>\<open>AddAction\<close> links the action in, and what it links.\<close>

lemma AddAction_prepared:
  assumes "dag_inv g"
  obtains G fs ds ins a where
    "dag_inv G" "grown g G" "named_in G (file_outputs ossl N ad) fs"
    "named_in G (dir_outputs ossl N ad) ds" "named_in G (input_artifacts ad) ins"
    "\<And>k i. action_ids g k = Some i \<Longrightarrow> action_ids G k = Some i \<and> action_nodes G ! i = action_nodes g ! i"
    "can_run (ad_action ad) \<Longrightarrow> AddAction ossl N g ad =
       (if fs = [] \<and> ds = [] then (G, False) else LinkNodePointers fs ds a ins G)
       \<and> action_ids G (ad_id ad) = Some a \<and> action_nodes G ! a = old_or_new g (ad_action ad)"
    "\<not> can_run (ad_action ad) \<Longrightarrow> AddAction ossl N g ad = (G, False)"
proof -
  obtain g1 fs ds where g1: "create_outputs ossl N g ad = (g1, fs, ds)"
    by (cases "create_outputs ossl N g ad") auto
  obtain g2 act where g2: "CreateActionNode g1 (ad_action ad) = (g2, act)" by fastforce
  obtain G ins where G: "create_nodes g2 (input_artifacts ad) = (G, ins)" by fastforce
  have links: "dag_links g" using assms by (simp add: dag_inv_def)
  note e1 = create_outputs_effect [OF links g1]
  let ?run = "can_run (ad_action ad)" and ?add = "AddAction_node g1 (ad_action ad)"
  have act: "(g2, act) = (if ?run then (fst ?add, Some (snd ?add)) else (g1, None))"
    using g2 by (auto simp: CreateActionNode_def can_run_def case_prod_unfold Let_def split: if_splits)
  have links1: "dag_links g1" using e1 by blast
  note add = AddAction_node_inv [OF links1, of "ad_action ad"]
  have "dag_links g2" using act add links1 by (auto split: if_splits)
  note e3 = create_nodes_effect [OF this G]
  have g12: "grown g1 g2"
    using act AddAction_node_grown grown_refl by (metis fst_conv)
  have counters: "\<forall>n \<in> set (action_nodes G). counter_ok n"
    using e1 e3 act add assms create_ok(3) unfolding dag_inv_def by (auto split: if_splits)
  have unfold: "AddAction ossl N g ad = (case act of
      Some a \<Rightarrow> if fs = [] \<and> ds = [] then (G, False) else LinkNodePointers fs ds a ins G
    | None \<Rightarrow> (G, False))"
    using g1 g2 G by (auto simp: AddAction_def create_outputs_def CreateInputArtifactNodes_def
        input_artifacts_def case_prod_unfold Let_def split: option.split)
  have grow: "grown g G" "grown g1 G"
    using e1 g12 e3 grown_trans by blast+
  have named: "named_in G (file_outputs ossl N ad) fs" "named_in G (dir_outputs ossl N ad) ds"
    "named_in G (input_artifacts ad) ins"
    using e1 e3 grow(2) named_in_grown by blast+
  have keep: "action_ids G k = Some i \<and> action_nodes G ! i = action_nodes g ! i"
    if "action_ids g k = Some i" for k i
  proof -
    have "i < length (action_nodes g)"
      using dag_links_tables(2) [OF links] that by (simp add: id_table_def)
    then show ?thesis
      using that e1 e3 act
      by (cases rule: AddAction_node_cases [of g1 "ad_action ad"])
        (auto simp: nth_append split: if_splits)
  qed
  have run: "AddAction ossl N g ad =
       (if fs = [] \<and> ds = [] then (G, False) else LinkNodePointers fs ds (snd ?add) ins G)
       \<and> action_ids G (ad_id ad) = Some (snd ?add)
       \<and> action_nodes G ! snd ?add = old_or_new g (ad_action ad)" if ?run
  proof -
    have "old_or_new g1 (ad_action ad) = old_or_new g (ad_action ad)"
      using e1 by (simp add: old_or_new_def ActionNodeWithId_def split: option.split)
    moreover have "g2 = fst ?add" "act = Some (snd ?add)" using act that by simp_all
    ultimately show ?thesis
      using unfold e3 actions.add_lookup [of g1 "ad_action ad"]
        AddAction_node_old_or_new [of g1 "ad_action ad"]
      by (simp add: ad_id_def)
  qed
  have "AddAction ossl N g ad = (G, False)" if "\<not> ?run"
    using unfold act that by simp
  then show ?thesis
    using that [of G fs ds ins "snd ?add"] grow(1) named keep run counters e3
    by (simp add: dag_inv_def)
qed

section \<open>What adding does\<close>

text \<open>The identifier of the action that builds an artifact, and what an action node lists.\<close>

definition builder_of :: "DependencyGraph \<Rightarrow> string \<Rightarrow> string option" where
  "builder_of g k =
     (case ArtifactNodeWithId g k of
        None \<Rightarrow> None
      | Some n \<Rightarrow> map_option (\<lambda>a. act_id (node_content (action_nodes g ! a))) (BuilderActionNode n))"

definition named_ids :: "DependencyGraph \<Rightarrow> NamedOtherNodePtr list \<Rightarrow> (string \<times> string) list" where
  "named_ids g nns = map (\<lambda>nn. (nn_path nn, artifact_names g ! nn_node nn)) nns"

definition path_ids :: "(string \<times> Artifact) list \<Rightarrow> (string \<times> string) list" where
  "path_ids pas = map (\<lambda>(path, a). (path, art_id a)) pas"

definition listed ::
  "(ActionNode \<Rightarrow> NamedOtherNodePtr list) \<Rightarrow> DependencyGraph \<Rightarrow> string \<Rightarrow> (string \<times> string) list" where
  "listed sel g k = (case ActionNodeWithId g k of None \<Rightarrow> [] | Some n \<Rightarrow> named_ids g (sel n))"

lemma named_in_ids:
  assumes "id_table (artifact_ids g) (artifact_names g)" "named_in g pas nns"
  shows "named_ids g nns = path_ids pas"
proof -
  have "length nns = length pas"
    using assms(2) unfolding named_in_def by (metis length_map)
  moreover have "nn_path (nns ! i) = fst (pas ! i) \<and> artifact_names g ! nn_node (nns ! i) = art_id (snd (pas ! i))"
    if "i < length pas" for i
  proof -
    have "map nn_path nns ! i = map fst pas ! i"
      "map (artifact_ids g \<circ> art_id \<circ> snd) pas ! i = map (Some \<circ> nn_node) nns ! i"
      using assms(2) by (simp_all add: named_in_def)
    then show ?thesis
      using that \<open>length nns = length pas\<close> assms(1) by (simp add: id_table_def)
  qed
  ultimately show ?thesis
    unfolding named_ids_def path_ids_def case_prod_unfold by (intro nth_equalityI) simp_all
qed

lemma named_in_distinct:
  assumes "id_table (artifact_ids g) (artifact_names g)" "named_in g pas nns"
  shows "distinct (map nn_node nns) \<longleftrightarrow> distinct (map (art_id \<circ> snd) pas)"
proof -
  have m: "map (artifact_ids g) (map (art_id \<circ> snd) pas) = map Some (map nn_node nns)"
    using assms(2) by (simp add: named_in_def comp_assoc)
  have "inj_on (artifact_ids g) (set (map (art_id \<circ> snd) pas))"
  proof (rule inj_onI)
    fix k k' assume k: "k \<in> set (map (art_id \<circ> snd) pas)" "artifact_ids g k = artifact_ids g k'"
    from k(1) have "artifact_ids g k \<in> set (map Some (map nn_node nns))"
      unfolding m [symmetric] by (simp only: set_map imageI)
    then obtain i where "artifact_ids g k = Some i" by auto
    then show "k = k'" using k(2) assms(1) unfolding id_table_def by metis
  qed
  then show ?thesis
    using distinct_map [of "artifact_ids g" "map (art_id \<circ> snd) pas"]
      distinct_map [of Some "map nn_node nns"] unfolding m by simp
qed

lemma named_in_members:
  assumes "named_in g pas nns"
  shows "(\<exists>named \<in> set nns. nn_node named = i) \<longleftrightarrow>
    (\<exists>k \<in> set (map (art_id \<circ> snd) pas). artifact_ids g k = Some i)"
proof -
  have "Some i \<in> set (map (Some \<circ> nn_node) nns) \<longleftrightarrow>
      Some i \<in> set (map (artifact_ids g \<circ> art_id \<circ> snd) pas)"
    using assms unfolding named_in_def by metis
  then show ?thesis by (force simp: image_iff)
qed

lemma grown_builders:
  assumes "dag_links g" "dag_links G" "grown g G"
    and "\<And>a. a < length (action_nodes g) \<Longrightarrow> action_nodes G ! a = action_nodes g ! a"
  shows "builder_of G k = builder_of g k"
proof (cases "artifact_ids g k")
  case (Some i)
  then have i: "i < length (artifact_nodes g)"
    using dag_links_tables(1) [OF assms(1)] by (simp add: id_table_def)
  then have "artifact_nodes G ! i = artifact_nodes g ! i" "artifact_ids G k = Some i"
    using assms(3) Some by (simp_all add: grown_def)
  moreover have "\<forall>a \<in> set (node_children (artifact_nodes g ! i)). a < length (action_nodes g)"
    using artifact_ok_nth [OF assms(1) i] by (simp add: artifact_ok_def)
  ultimately show ?thesis
    using Some assms(4)
    by (simp add: builder_of_def ArtifactNodeWithId_def BuilderActionNode_def HasBuilderAction_def)
next
  case None
  show ?thesis
  proof (cases "artifact_ids G k")
    case (Some i)
    then have i: "i < length (artifact_nodes G)" "artifact_names G ! i = k"
      using dag_links_tables(1) [OF assms(2)] by (simp_all add: id_table_def)
    have "\<not> i < length (artifact_nodes g)"
    proof
      assume *: "i < length (artifact_nodes g)"
      then have "artifact_names g ! i = k"
        using i assms(3) by (simp add: artifact_names_def grown_def)
      then show False
        using None * dag_links_tables(1) [OF assms(1)] unfolding id_table_def names_length
        by (metis option.distinct(1))
    qed
    then show ?thesis
      using None Some i assms(3)
      by (simp add: builder_of_def ArtifactNodeWithId_def BuilderActionNode_def
          HasBuilderAction_def grown_def)
  qed (use None in \<open>simp add: builder_of_def ArtifactNodeWithId_def\<close>)
qed

lemma no_builder_iff:
  assumes "artifact_ids g k = Some i"
  shows "builder_of g k = None \<longleftrightarrow> node_children (artifact_nodes g ! i) = []"
  using assms by (simp add: builder_of_def ArtifactNodeWithId_def BuilderActionNode_def HasBuilderAction_def)

lemma builder_of_names:
  assumes "dag_links g"
  shows "builder_of g k =
    (case artifact_ids g k of
       None \<Rightarrow> None
     | Some i \<Rightarrow> (case node_children (artifact_nodes g ! i) of
                    [] \<Rightarrow> None | a # _ \<Rightarrow> Some (action_names g ! a)))"
proof (cases "artifact_ids g k")
  case (Some i)
  then have "i < length (artifact_nodes g)"
    using dag_links_tables(1) [OF assms] by (simp add: id_table_def)
  then have "\<forall>a \<in> set (node_children (artifact_nodes g ! i)). a < length (action_nodes g)"
    using artifact_ok_nth [OF assms] by (simp add: artifact_ok_def)
  then show ?thesis
    using Some
    by (auto simp: builder_of_def ArtifactNodeWithId_def BuilderActionNode_def HasBuilderAction_def
        action_names_def split: list.split)
qed (simp add: builder_of_def ArtifactNodeWithId_def)

text \<open>The facts about a prepared graph that both theorems about \<^verbatim>\<open>AddAction\<close> need.\<close>

lemma prepared_links:
  assumes "dag_inv g" "dag_inv G" "grown g G"
    and "named_in G pas nns"
    and "\<And>k i. action_ids g k = Some i \<Longrightarrow> action_ids G k = Some i \<and> action_nodes G ! i = action_nodes g ! i"
  shows "\<forall>named \<in> set nns. nn_node named < length (artifact_nodes G)"
    and "distinct (map nn_node nns) \<longleftrightarrow> distinct (map (art_id \<circ> snd) pas)"
    and "(\<forall>named \<in> set nns. node_children (artifact_nodes G ! nn_node named) = []) \<longleftrightarrow>
      (\<forall>k \<in> set (map (art_id \<circ> snd) pas). builder_of g k = None)"
    and "builder_of G k = builder_of g k"
proof -
  have links: "dag_links g" "dag_links G" using assms(1,2) by (simp_all add: dag_inv_def)
  note table = dag_links_tables(1) [OF links(2)]
  show "\<forall>named \<in> set nns. nn_node named < length (artifact_nodes G)"
    using named_in_range [OF links(2) assms(4)] by blast
  show "distinct (map nn_node nns) \<longleftrightarrow> distinct (map (art_id \<circ> snd) pas)"
    by (rule named_in_distinct [OF table assms(4)])
  have keep: "action_nodes G ! a = action_nodes g ! a" if "a < length (action_nodes g)" for a
    using dag_links_tables(2) [OF links(1)] that assms(5) unfolding id_table_def names_length by blast
  have builders: "builder_of G k = builder_of g k" for k
    by (rule grown_builders [OF links assms(3) keep])
  show "builder_of G k = builder_of g k" by (rule builders)
  have "(\<forall>named \<in> set nns. node_children (artifact_nodes G ! nn_node named) = []) \<longleftrightarrow>
      (\<forall>i. (\<exists>named \<in> set nns. nn_node named = i) \<longrightarrow> node_children (artifact_nodes G ! i) = [])"
    by blast
  also have "\<dots> \<longleftrightarrow> (\<forall>k \<in> set (map (art_id \<circ> snd) pas). \<forall>i. artifact_ids G k = Some i \<longrightarrow>
      node_children (artifact_nodes G ! i) = [])"
    unfolding named_in_members [OF assms(4)] by blast
  also have "\<dots> \<longleftrightarrow> (\<forall>k \<in> set (map (art_id \<circ> snd) pas). builder_of G k = None)"
  proof (rule ball_cong [OF refl])
    fix k
    assume "k \<in> set (map (art_id \<circ> snd) pas)"
    then have "artifact_ids G k \<in> set (map (Some \<circ> nn_node) nns)"
      using assms(4) unfolding named_in_def by (metis (no_types, lifting) comp_assoc imageI list.set_map map_map)
    then show "(\<forall>i. artifact_ids G k = Some i \<longrightarrow> node_children (artifact_nodes G ! i) = []) \<longleftrightarrow>
        builder_of G k = None"
      using no_builder_iff by fastforce
  qed
  finally show "(\<forall>named \<in> set nns. node_children (artifact_nodes G ! nn_node named) = []) \<longleftrightarrow>
      (\<forall>k \<in> set (map (art_id \<circ> snd) pas). builder_of g k = None)"
    unfolding builders .
qed

lemma AddAction_outcome:
  assumes "dag_inv g"
  shows "dag_inv (fst (AddAction ossl N g ad))
    \<and> (snd (AddAction ossl N g ad) \<longleftrightarrow>
         can_run (ad_action ad) \<and> output_ids ossl N ad \<noteq> [] \<and> distinct (output_ids ossl N ad) \<and>
         (\<forall>k \<in> set (output_ids ossl N ad). builder_of g k = None))"
proof (rule AddAction_prepared [OF assms, of ossl N ad])
  fix G fs ds ins a
  assume G: "dag_inv G" "grown g G" "named_in G (file_outputs ossl N ad) fs"
    "named_in G (dir_outputs ossl N ad) ds" "named_in G (input_artifacts ad) ins"
    and keep: "\<And>k i. action_ids g k = Some i \<Longrightarrow>
      action_ids G k = Some i \<and> action_nodes G ! i = action_nodes g ! i"
    and run: "can_run (ad_action ad) \<Longrightarrow> AddAction ossl N g ad =
       (if fs = [] \<and> ds = [] then (G, False) else LinkNodePointers fs ds a ins G)
       \<and> action_ids G (ad_id ad) = Some a \<and> action_nodes G ! a = old_or_new g (ad_action ad)"
    and no_run: "\<not> can_run (ad_action ad) \<Longrightarrow> AddAction ossl N g ad = (G, False)"
  have outs: "named_in G (file_outputs ossl N ad @ dir_outputs ossl N ad) (fs @ ds)"
    by (rule named_in_append [OF G(3,4)])
  note out1 = prepared_links(1) [OF assms G(1,2) outs keep]
  have out2: "distinct (map nn_node (fs @ ds)) \<longleftrightarrow> distinct (output_ids ossl N ad)"
    unfolding output_ids_def by (rule prepared_links(2) [OF assms G(1,2) outs keep])
  have out3: "(\<forall>named \<in> set (fs @ ds). node_children (artifact_nodes G ! nn_node named) = []) \<longleftrightarrow>
      (\<forall>k \<in> set (output_ids ossl N ad). builder_of g k = None)"
    unfolding output_ids_def by (rule prepared_links(3) [OF assms G(1,2) outs keep])
  note ins_ok = prepared_links(1) [OF assms G(1,2,5) keep]
  have "length (fs @ ds) = length (output_ids ossl N ad)"
    using outs unfolding named_in_def output_ids_def by (metis length_map)
  then have empty: "fs = [] \<and> ds = [] \<longleftrightarrow> output_ids ossl N ad = []" by auto
  show ?thesis
  proof (cases "can_run (ad_action ad) \<and> output_ids ossl N ad \<noteq> []")
    case True
    then have L: "AddAction ossl N g ad = LinkNodePointers fs ds a ins G"
      and a: "action_ids G (ad_id ad) = Some a"
      using run empty by auto
    have "a < length (action_nodes G)"
      using a dag_links_tables(2) [of G] G(1) unfolding dag_inv_def id_table_def names_length by blast
    moreover have "\<forall>named \<in> set (fs @ ds @ ins). nn_node named < length (artifact_nodes G)"
      using out1 ins_ok by auto
    ultimately have link: "dag_inv (fst (LinkNodePointers fs ds a ins G))"
      "snd (LinkNodePointers fs ds a ins G) \<longleftrightarrow> distinct (map nn_node (fs @ ds)) \<and>
        (\<forall>named \<in> set (fs @ ds). node_children (artifact_nodes G ! nn_node named) = [])"
      by (simp_all only: LinkNodePointers_effect [OF G(1)])
    have eff: "dag_inv (fst (AddAction ossl N g ad))"
      "snd (AddAction ossl N g ad) \<longleftrightarrow> distinct (output_ids ossl N ad) \<and>
        (\<forall>k \<in> set (output_ids ossl N ad). builder_of g k = None)"
      using link unfolding L out2 out3 .
    show ?thesis using eff True by simp
  next
    case False
    then have "AddAction ossl N g ad = (G, False)"
      using run no_run empty by (cases "can_run (ad_action ad)") simp_all
    then show ?thesis using False G(1) by auto
  qed
qed

text \<open>
  C5: every operation that adds to a graph keeps its invariant: identifiers and nodes are in
  one-to-one correspondence, links are recorded at both ends, an artifact has at most one
  builder, the counters of linked actions are their numbers of dependencies.
\<close>

theorem dag_invariant:
  assumes "dag_inv g"
  shows "dag_inv (fst (Add ossl N g actions)) \<and> dag_inv (fst (AddAction ossl N g ad))
         \<and> dag_inv (fst (AddArtifact g d)) \<and> dag_inv DependencyGraph_empty"
proof -
  have "dag_inv (fst (Add ossl N g actions))"
    using assms by (induction actions arbitrary: g) (auto simp: AddAction_outcome case_prod_unfold Let_def)
  moreover have "dag_inv (fst (AddArtifact g d))"
    using assms AddArtifact_node_inv [of g "ToArtifact d"]
    by (simp add: dag_inv_def AddArtifact_def Let_def)
  ultimately show ?thesis
    using AddAction_outcome [OF assms]
    by (simp add: dag_inv_def dag_links_def DependencyGraph_empty_def id_table_def links_match_def
        artifact_names_def action_names_def)
qed

text \<open>
  C6: an action is added exactly where it can run (it is a tree action or has a command),
  has outputs, its outputs are different artifacts and none of them has a builder yet, not
  even the action itself.
\<close>

theorem AddAction_succeeds_iff:
  assumes "dag_inv g"
  shows "snd (AddAction ossl N g ad) \<longleftrightarrow>
    can_run (ad_action ad) \<and> output_ids ossl N ad \<noteq> [] \<and> distinct (output_ids ossl N ad) \<and>
    (\<forall>k \<in> set (output_ids ossl N ad). builder_of g k = None)"
  using AddAction_outcome [OF assms] by blast

lemma fold_outputs:
  "output_files (fold AddOutputFile os n) = output_files n @ os"
  "output_dirs (fold AddOutputFile os n) = output_dirs n"
  "dependencies (fold AddOutputFile os n) = dependencies n"
  "output_files (fold AddOutputDir os n) = output_files n"
  "output_dirs (fold AddOutputDir os n) = output_dirs n @ os"
  "dependencies (fold AddOutputDir os n) = dependencies n"
  "output_files (fold AddDependency os n) = output_files n"
  "output_dirs (fold AddDependency os n) = output_dirs n"
  "dependencies (fold AddDependency os n) = dependencies n @ os"
  by (induction os arbitrary: n) (simp_all add: dag_simps)

lemma linked_action_lists:
  "output_files (linked_action fs ds ins n) = output_files n @ fs"
  "output_dirs (linked_action fs ds ins n) = output_dirs n @ ds"
  "dependencies (linked_action fs ds ins n) = dependencies n @ ins"
  by (simp_all add: linked_action_def dag_simps fold_outputs)

lemma named_ids_same_names: "same_names g g' \<Longrightarrow> named_ids g' nns = named_ids g nns"
  by (simp add: named_ids_def same_names_def)

lemma named_ids_append: "named_ids g (nns @ nns') = named_ids g nns @ named_ids g nns'"
  by (simp add: named_ids_def)

lemma named_ids_grown:
  assumes "grown g G" "\<forall>nn \<in> set nns. nn_node nn < length (artifact_nodes g)"
  shows "named_ids G nns = named_ids g nns"
  using assms by (auto simp: named_ids_def grown_def artifact_names_def)

text \<open>The nodes that an action lists are nodes of its graph.\<close>

lemma listed_in_range:
  assumes "dag_links g" "a < length (action_nodes g)"
    and "nn \<in> set (output_files (action_nodes g ! a)) \<union> set (output_dirs (action_nodes g ! a))
      \<union> set (dependencies (action_nodes g ! a))"
  shows "nn_node nn < length (artifact_nodes g)"
proof -
  let ?n = "action_nodes g ! a"
  have ok: "action_ok (length (artifact_nodes g)) ?n" by (rule action_ok_nth [OF assms(1,2)])
  then have "set (node_parents ?n) = nn_node ` (set (output_files ?n) \<union> set (output_dirs ?n))"
    unfolding action_ok_def by (metis list.set_map mset_eq_setD set_append)
  then have "nn_node nn \<in> set (node_parents ?n) \<union> set (node_children ?n)"
    using ok assms(3) by (auto simp: action_ok_def)
  then show ?thesis using ok unfolding action_ok_def by blast
qed

lemma linked_builders:
  assumes "dag_inv G" "dag_inv g'" "same_names G g'" "named_in G pas nns"
    and "action_ids G k' = Some a"
    and kids: "\<And>r. r < length (artifact_nodes G) \<Longrightarrow>
      node_children (artifact_nodes g' ! r) =
        (if r \<in> nn_node ` set nns then [a] else node_children (artifact_nodes G ! r))"
  shows "builder_of g' k =
    (if k \<in> set (map (art_id \<circ> snd) pas) then Some k' else builder_of G k)"
proof -
  have links: "dag_links G" "dag_links g'" using assms(1,2) by (simp_all add: dag_inv_def)
  have names: "artifact_ids g' = artifact_ids G" "action_names g' = action_names G"
    using assms(3) by (simp_all add: same_names_def)
  have a: "action_names G ! a = k'"
    using dag_links_tables(2) [OF links(1)] assms(5) by (simp add: id_table_def)
  have member: "i \<in> nn_node ` set nns \<longleftrightarrow> k \<in> set (map (art_id \<circ> snd) pas)"
    if "artifact_ids G k = Some i" for i
  proof -
    have "i \<in> nn_node ` set nns \<longleftrightarrow> (\<exists>k \<in> set (map (art_id \<circ> snd) pas). artifact_ids G k = Some i)"
      unfolding named_in_members [OF assms(4), symmetric] by blast
    also have "\<dots> \<longleftrightarrow> k \<in> set (map (art_id \<circ> snd) pas)"
      using that dag_links_tables(1) [OF links(1)] unfolding id_table_def by metis
    finally show ?thesis .
  qed
  show ?thesis
  proof (cases "artifact_ids G k")
    case None
    have "artifact_ids G k \<in> set (map (Some \<circ> nn_node) nns)"
      if "k \<in> set (map (art_id \<circ> snd) pas)"
      using assms(4) that unfolding named_in_def
      by (metis (no_types, lifting) comp_assoc imageI list.set_map map_map)
    then have "k \<notin> set (map (art_id \<circ> snd) pas)" using None by auto
    then show ?thesis
      using None names by (simp add: builder_of_names [OF links(1)] builder_of_names [OF links(2)])
  next
    case (Some i)
    then have "i < length (artifact_nodes G)"
      using dag_links_tables(1) [OF links(1)] by (simp add: id_table_def)
    then show ?thesis
      using Some names a kids [of i] member [OF Some]
      by (simp add: builder_of_names [OF links(1)] builder_of_names [OF links(2)]
          cong: list.case_cong)
  qed
qed

lemma listed_old_or_new:
  assumes "dag_inv g" "grown g G" "sel = output_files \<or> sel = output_dirs \<or> sel = dependencies"
  shows "named_ids G (sel (old_or_new g a)) = listed sel g (act_id a)"
proof (cases "action_ids g (act_id a)")
  case None
  then show ?thesis
    using assms(3)
    by (auto simp: listed_def old_or_new_def ActionNodeWithId_def named_ids_def ActionNode_Create_def)
next
  case (Some i)
  have links: "dag_links g" using assms(1) by (simp add: dag_inv_def)
  have "i < length (action_nodes g)"
    using Some dag_links_tables(2) [OF links] by (simp add: id_table_def)
  then have "\<forall>nn \<in> set (sel (action_nodes g ! i)). nn_node nn < length (artifact_nodes g)"
    using listed_in_range [OF links] assms(3) by blast
  then show ?thesis
    using Some named_ids_grown [OF assms(2)]
    by (simp add: listed_def old_or_new_def ActionNodeWithId_def)
qed

text \<open>
  An action that is added becomes the builder of exactly its outputs, and no other
  artifact changes its builder; its node lists, after what it listed before, its output
  files, output directories and inputs with the identifiers of their artifacts, in order; and
  its counter is the number of its dependencies.
\<close>

theorem AddAction_records:
  assumes "dag_inv g" "AddAction ossl N g ad = (g', True)"
  shows "builder_of g' k =
           (if k \<in> set (output_ids ossl N ad) then Some (ad_id ad) else builder_of g k)
    \<and> listed output_files g' (ad_id ad) =
        listed output_files g (ad_id ad) @ path_ids (file_outputs ossl N ad)
    \<and> listed output_dirs g' (ad_id ad) =
        listed output_dirs g (ad_id ad) @ path_ids (dir_outputs ossl N ad)
    \<and> listed dependencies g' (ad_id ad) =
        listed dependencies g (ad_id ad) @ path_ids (input_artifacts ad)
    \<and> (\<exists>n. ActionNodeWithId g' (ad_id ad) = Some n \<and>
          unavailable_deps (action_state n) = word_of_nat (length (dependencies n)))"
proof (rule AddAction_prepared [OF assms(1), of ossl N ad])
  fix G fs ds ins a
  assume G: "dag_inv G" "grown g G" "named_in G (file_outputs ossl N ad) fs"
    "named_in G (dir_outputs ossl N ad) ds" "named_in G (input_artifacts ad) ins"
    and keep: "\<And>k i. action_ids g k = Some i \<Longrightarrow>
      action_ids G k = Some i \<and> action_nodes G ! i = action_nodes g ! i"
    and run: "can_run (ad_action ad) \<Longrightarrow> AddAction ossl N g ad =
       (if fs = [] \<and> ds = [] then (G, False) else LinkNodePointers fs ds a ins G)
       \<and> action_ids G (ad_id ad) = Some a \<and> action_nodes G ! a = old_or_new g (ad_action ad)"
    and no_run: "\<not> can_run (ad_action ad) \<Longrightarrow> AddAction ossl N g ad = (G, False)"
  have "can_run (ad_action ad)" using no_run assms(2) by fastforce
  note run = run [OF this]
  have L: "LinkNodePointers fs ds a ins G = (g', True)"
    using conjunct1 [OF run] assms(2) by (auto split: if_splits)
  have a: "action_ids G (ad_id ad) = Some a" "action_nodes G ! a = old_or_new g (ad_action ad)"
    using run by blast+
  have outs: "named_in G (file_outputs ossl N ad @ dir_outputs ossl N ad) (fs @ ds)"
    by (rule named_in_append [OF G(3,4)])
  have links: "dag_links G" using G(1) by (simp add: dag_inv_def)
  note table = dag_links_tables(1) [OF links]
  have a_less: "a < length (action_nodes G)"
    using a(1) dag_links_tables(2) [OF links] unfolding id_table_def names_length by blast
  have range_ok: "\<forall>named \<in> set (fs @ ds @ ins). nn_node named < length (artifact_nodes G)"
    using prepared_links(1) [OF assms(1) G(1,2) outs keep]
      prepared_links(1) [OF assms(1) G(1,2,5) keep] by auto
  note eff = LinkNodePointers_effect [OF G(1) a_less range_ok, unfolded L fst_conv snd_conv]
  have inv: "dag_inv g'" and names: "same_names G g'"
    and acts: "action_nodes g' = (action_nodes G)[a := linked_action fs ds ins (action_nodes G ! a)]"
    and kids: "\<And>r. r < length (artifact_nodes G) \<Longrightarrow> node_children (artifact_nodes g' ! r) =
      (if r \<in> nn_node ` set (fs @ ds) then [a] else node_children (artifact_nodes G ! r))"
    using eff by blast+
  have build: "builder_of g' k =
      (if k \<in> set (output_ids ossl N ad) then Some (ad_id ad) else builder_of g k)"
    using linked_builders [OF G(1) inv names outs a(1) kids, of k]
      prepared_links(4) [OF assms(1) G(1,2) outs keep, of k] by (simp add: output_ids_def)
  let ?n = "linked_action fs ds ins (old_or_new g (ad_action ad))"
  have node: "ActionNodeWithId g' (ad_id ad) = Some ?n"
    using a names acts a_less by (simp add: ActionNodeWithId_def same_names_def)
  have lists: "listed sel g' (ad_id ad) = named_ids G (sel ?n)" for sel
    using node named_ids_same_names [OF names] by (simp add: listed_def)
  have old: "named_ids G (sel (old_or_new g (ad_action ad))) = listed sel g (ad_id ad)"
    if "sel = output_files \<or> sel = output_dirs \<or> sel = dependencies" for sel
    using listed_old_or_new [OF assms(1) G(2) that] by (simp add: ad_id_def)
  have "action_ok (length (artifact_nodes g')) ?n"
  proof -
    have "?n \<in> set (action_nodes g')"
      using acts a_less a(2) set_update_memI [OF a_less] by simp
    then show ?thesis using inv by (simp add: dag_inv_def dag_links_def)
  qed
  then have "length (node_children ?n) = length (dependencies ?n)" by (simp add: action_ok_def)
  then have "unavailable_deps (action_state ?n) = word_of_nat (length (dependencies ?n))"
    by (simp add: linked_action_def NotifyDoneLinking_def InitUnavailableDeps_def dag_simps)
  then show ?thesis
    using build node lists old named_in_ids [OF table G(3)] named_in_ids [OF table G(4)]
      named_in_ids [OF table G(5)]
    by (simp add: linked_action_lists named_ids_append)
qed

section \<open>A small graph\<close>

lemma empty_inv: "dag_inv DependencyGraph_empty"
  by (simp add: dag_inv_def dag_links_def DependencyGraph_empty_def id_table_def links_match_def
      artifact_names_def action_names_def)

lemma empty_builder: "builder_of DependencyGraph_empty k = None"
  by (simp add: builder_of_def ArtifactNodeWithId_def DependencyGraph_empty_def)

theorem dag_invariant_witness:
  "dag_inv (fst (Add sample_openssl sample_nlohmann DependencyGraph_empty [sample_action, sample_action]))"
  using dag_invariant [OF empty_inv, of sample_openssl sample_nlohmann
      "[sample_action, sample_action]"] by blast

lemma sample_output_ids:
  "output_ids sample_openssl sample_nlohmann sample_action =
     [desc_id (CreateAction sample_openssl sample_nlohmann ''id'' ''out'')]"
  by (simp add: output_ids_def file_outputs_def dir_outputs_def action_artifacts_def ad_id_def
      sample_action_def mk_Action_def ToArtifact_def CreateActionArtifact_def mk_Artifact_def
      CreateAction_def mk_description_def)

lemma sample_can_run: "can_run (ad_action sample_action)"
  by (simp add: can_run_def sample_action_def mk_Action_def)

theorem AddAction_succeeds_iff_witness:
  "snd (AddAction sample_openssl sample_nlohmann DependencyGraph_empty sample_action)"
  using AddAction_succeeds_iff [OF empty_inv, of sample_openssl sample_nlohmann sample_action]
  by (simp add: sample_output_ids sample_can_run empty_builder)

theorem AddAction_records_witness:
  "\<exists>g'. AddAction sample_openssl sample_nlohmann DependencyGraph_empty sample_action = (g', True) \<and>
     builder_of g' (desc_id (CreateAction sample_openssl sample_nlohmann ''id'' ''out'')) = Some ''id''"
proof -
  let ?r = "AddAction sample_openssl sample_nlohmann DependencyGraph_empty sample_action"
  have "snd ?r"
    using AddAction_outcome [OF empty_inv, of sample_openssl sample_nlohmann sample_action]
    by (simp add: sample_output_ids sample_can_run empty_builder)
  then have run: "?r = (fst ?r, True)" by (metis prod.collapse)
  have "ad_id sample_action = ''id''"
    by (simp add: ad_id_def sample_action_def mk_Action_def)
  then have "builder_of (fst ?r) (desc_id (CreateAction sample_openssl sample_nlohmann ''id'' ''out''))
      = Some ''id''"
    using AddAction_records [OF empty_inv run,
        of "desc_id (CreateAction sample_openssl sample_nlohmann ''id'' ''out'')"]
    by (simp add: sample_output_ids)
  then show ?thesis using run by blast
qed

end
