(* ===== verification/Jst_Traverser.thy ===== *)
theory Jst_Traverser
  imports Jst_Dag "HOL-Library.Multiset"
begin

text \<open>
  The concurrent traversal of the graph:
  \<^verbatim>\<open>src/buildtool/execution_engine/traverser/traverser.hpp\<close>. Its member functions run as tasks
  on the threads of a task system. They are cut into instructions, one for every atomic
  access to shared data (a load, store or exchange of a traversal state or of the failure
  flag, a push to the task queue, the call of the runner); an instruction that has run leaves
  the instructions that follow it in its function. A state of the system is a program per
  thread, the queued tasks, the traversal states and the flags; a step runs the next
  instruction of some thread, or lets an idle worker take some queued task. The order in
  which the task system hands out tasks is left open, which covers every order it has. The
  runner is the environment: every call may succeed or fail.
\<close>

section \<open>Nodes, tasks and instructions\<close>

datatype node_ref = ArtN artifact_ref | ActN action_ref

datatype task = TVisit node_ref | TProcess node_ref

datatype instr =
    ITargets "ArtifactIdentifier list"
  | IQueueVisit node_ref
  | IDiscover node_ref
  | IQueueTask task
  | IVisit node_ref
  | ICheckAvailable artifact_ref
  | IVisitDep artifact_ref
  | ICheckReady action_ref
  | IQueueProcessing node_ref
  | ICheckRequired node_ref
  | IMarkQueued node_ref
  | IProcess node_ref
  | IMakeAvailable artifact_ref
  | INotify action_ref
  | IFail
  | IShutdown

text \<open>
  The graph itself is constant during a traversal; the traversal states of its nodes are
  kept beside it. The lists of the calls to the runner and of those that succeeded are a
  record of what happened, which no instruction reads.
\<close>

record shared =
  st_artifact :: "artifact_ref \<Rightarrow> ArtifactNodeTraversalState"
  st_action :: "action_ref \<Rightarrow> ActionNodeTraversalState"
  failed :: bool
  is_shutdown :: bool
  tasks :: "task multiset"
  processed :: "node_ref list"
  succeeded :: "node_ref list"

fun get_discovered :: "shared \<Rightarrow> node_ref \<Rightarrow> bool" where
  "get_discovered s (ArtN r) = has_been_discovered (st_artifact s r)"
| "get_discovered s (ActN a) = has_been_discovered (st_action s a)"

fun get_queued :: "shared \<Rightarrow> node_ref \<Rightarrow> bool" where
  "get_queued s (ArtN r) = is_queued_to_be_processed (st_artifact s r)"
| "get_queued s (ActN a) = is_queued_to_be_processed (st_action s a)"

fun get_required :: "shared \<Rightarrow> node_ref \<Rightarrow> bool" where
  "get_required s (ArtN r) = is_required (st_artifact s r)"
| "get_required s (ActN a) = is_required (st_action s a)"

fun mark_discovered :: "node_ref \<Rightarrow> shared \<Rightarrow> shared" where
  "mark_discovered (ArtN r) s =
     s\<lparr>st_artifact := (st_artifact s)(r := snd (GetAndMarkDiscovered (st_artifact s r)))\<rparr>"
| "mark_discovered (ActN a) s =
     s\<lparr>st_action := (st_action s)(a := snd (GetAndMarkDiscovered (st_action s a)))\<rparr>"

fun mark_queued :: "node_ref \<Rightarrow> shared \<Rightarrow> shared" where
  "mark_queued (ArtN r) s =
     s\<lparr>st_artifact := (st_artifact s)(r := snd (GetAndMarkQueuedToBeProcessed (st_artifact s r)))\<rparr>"
| "mark_queued (ActN a) s =
     s\<lparr>st_action := (st_action s)(a := snd (GetAndMarkQueuedToBeProcessed (st_action s a)))\<rparr>"

fun mark_required :: "node_ref \<Rightarrow> shared \<Rightarrow> shared" where
  "mark_required (ArtN r) s = s\<lparr>st_artifact := (st_artifact s)(r := MarkRequired (st_artifact s r))\<rparr>"
| "mark_required (ActN a) s = s\<lparr>st_action := (st_action s)(a := MarkRequired (st_action s a))\<rparr>"

section \<open>The member functions\<close>

text \<open>The rest of \<^verbatim>\<open>Visit\<close> after the node has been marked as required.\<close>

fun Visit_rest :: "DependencyGraph \<Rightarrow> node_ref \<Rightarrow> instr list" where
  "Visit_rest g (ArtN r) = [ICheckAvailable r]"
| "Visit_rest g (ActN a) =
     map IVisitDep (node_children (action_nodes g ! a)) @ [ICheckReady a]"

text \<open>\<^verbatim>\<open>NotifyAvailable\<close> of an action notifies for each of its outputs.\<close>

fun NotifyAvailable :: "DependencyGraph \<Rightarrow> node_ref \<Rightarrow> instr list" where
  "NotifyAvailable g (ArtN r) = [IMakeAvailable r]"
| "NotifyAvailable g (ActN a) = map IMakeAvailable (node_parents (action_nodes g ! a))"

definition Abort :: "instr list" where
  "Abort = [IFail, IShutdown]"

text \<open>What a task runs when a thread takes it.\<close>

fun task_body :: "task \<Rightarrow> instr" where
  "task_body (TVisit n) = IVisit n"
| "task_body (TProcess n) = IProcess n"

text \<open>
  One instruction: the state after it and the instructions that follow it. The truth value
  is what the runner answers, if the instruction calls it.
\<close>

fun exec :: "DependencyGraph \<Rightarrow> bool \<Rightarrow> instr \<Rightarrow> shared \<Rightarrow> shared \<times> instr list" where
  "exec g ok (ITargets []) s = (s, [])"
| "exec g ok (ITargets (ident # ids)) s =
     (case artifact_ids g ident of
        Some r \<Rightarrow> (s, [IQueueVisit (ArtN r), ITargets ids])
      | None \<Rightarrow> (s, Abort))"
| "exec g ok (IQueueVisit n) s = (s, if failed s then [] else [IDiscover n])"
| "exec g ok (IDiscover n) s =
     (mark_discovered n s, if get_discovered s n then [] else [IQueueTask (TVisit n)])"
| "exec g ok (IQueueTask t) s = (s\<lparr>tasks := add_mset t (tasks s)\<rparr>, [])"
| "exec g ok (IVisit n) s = (mark_required n s, Visit_rest g n)"
| "exec g ok (ICheckAvailable r) s =
     (s, if is_available (st_artifact s r) then []
         else case BuilderActionNode (artifact_nodes g ! r) of
                Some a \<Rightarrow> [IQueueVisit (ActN a)]
              | None \<Rightarrow> [IQueueProcessing (ArtN r)])"
| "exec g ok (IVisitDep r) s =
     (s, if \<not> is_available (st_artifact s r) then [IQueueVisit (ArtN r)] else [])"
| "exec g ok (ICheckReady a) s =
     (s, if IsReady (st_action s a) then [IQueueProcessing (ActN a)] else [])"
| "exec g ok (IQueueProcessing n) s = (s, if failed s then [] else [ICheckRequired n])"
| "exec g ok (ICheckRequired n) s = (s, if \<not> get_required s n then [] else [IMarkQueued n])"
| "exec g ok (IMarkQueued n) s =
     (mark_queued n s, if get_queued s n then [] else [IQueueTask (TProcess n)])"
| "exec g ok (IProcess n) s =
     (if ok
      then (s\<lparr>processed := processed s @ [n], succeeded := succeeded s @ [n]\<rparr>, NotifyAvailable g n)
      else (s\<lparr>processed := processed s @ [n]\<rparr>, Abort))"
| "exec g ok (IMakeAvailable r) s =
     (s\<lparr>st_artifact := (st_artifact s)(r := MakeAvailable (st_artifact s r))\<rparr>,
      map INotify (node_parents (artifact_nodes g ! r)))"
| "exec g ok (INotify a) s =
     (let (ready, st) = NotifyAvailableDepAndCheckReady (st_action s a)
      in (s\<lparr>st_action := (st_action s)(a := st)\<rparr>, if ready then [IQueueProcessing (ActN a)] else []))"
| "exec g ok IFail s = (s\<lparr>failed := True\<rparr>, [])"
| "exec g ok IShutdown s = (s\<lparr>is_shutdown := True\<rparr>, [])"

text \<open>The value of \<^verbatim>\<open>Traverse\<close>: false where an artifact is not in the graph.\<close>

definition Traverse_result :: "DependencyGraph \<Rightarrow> ArtifactIdentifier list \<Rightarrow> bool" where
  "Traverse_result g target_ids \<longleftrightarrow> list_all (\<lambda>ident. ArtifactNodeWithId g ident \<noteq> None) target_ids"

section \<open>The threads\<close>

text \<open>The program of the calling thread, which is not a worker, and those of the workers.\<close>

record system =
  shared_state :: shared
  caller :: "instr list"
  workers :: "instr list list"

definition initial_shared :: "DependencyGraph \<Rightarrow> shared" where
  "initial_shared g =
     \<lparr>st_artifact = (\<lambda>r. artifact_state (artifact_nodes g ! r)),
      st_action = (\<lambda>a. action_state (action_nodes g ! a)),
      failed = False, is_shutdown = False, tasks = {#}, processed = [], succeeded = []\<rparr>"

definition Traverser :: "DependencyGraph \<Rightarrow> nat \<Rightarrow> ArtifactIdentifier list \<Rightarrow> system" where
  "Traverser g jobs target_ids =
     \<lparr>shared_state = initial_shared g, caller = [ITargets target_ids],
      workers = replicate (max 1 jobs) []\<rparr>"

inductive tstep :: "DependencyGraph \<Rightarrow> system \<Rightarrow> system \<Rightarrow> bool" for g where
  run_caller:
    "caller s = i # is \<Longrightarrow> exec g ok i (shared_state s) = (sh, new) \<Longrightarrow>
     tstep g s (s\<lparr>shared_state := sh, caller := new @ is\<rparr>)"
| run_worker:
    "w < length (workers s) \<Longrightarrow> workers s ! w = i # is \<Longrightarrow>
     exec g ok i (shared_state s) = (sh, new) \<Longrightarrow>
     tstep g s (s\<lparr>shared_state := sh, workers := (workers s)[w := new @ is]\<rparr>)"
| take_task:
    "w < length (workers s) \<Longrightarrow> workers s ! w = [] \<Longrightarrow> \<not> is_shutdown (shared_state s) \<Longrightarrow>
     t \<in># tasks (shared_state s) \<Longrightarrow>
     tstep g s (s\<lparr>shared_state := (shared_state s)\<lparr>tasks := tasks (shared_state s) - {#t#}\<rparr>,
                  workers := (workers s)[w := [task_body t]]\<rparr>)"

inductive reachable :: "DependencyGraph \<Rightarrow> system \<Rightarrow> system \<Rightarrow> bool" for g s0 where
  start: "reachable g s0 s0"
| steps: "reachable g s0 s \<Longrightarrow> tstep g s s' \<Longrightarrow> reachable g s0 s'"

end
