(* ===== verification/Jst_Traverser_View.thy ===== *)
theory Jst_Traverser_View
  imports Jst_Traverser Jst_Dag_Props
begin

text \<open>
  What the proofs about the traverser share: views of a step relation (a locale), the view of
  a system as its shared state with the multiset of all instructions that are left, the view
  that forgets whether a task is queued or taken, how to read the shared state after an
  instruction, and that instructions mention nodes of the graph only.
\<close>

named_theorems trav_simps \<open>reading the shared state after an instruction\<close>

section \<open>Views of step relations\<close>

text \<open>
  A view of a system by a simpler step relation: what every step of the view keeps holds in
  the view of every reachable state.
\<close>

locale step_view =
  fixes step :: "'s \<Rightarrow> 's \<Rightarrow> bool" and reach :: "'s \<Rightarrow> 's \<Rightarrow> bool"
    and view :: "'s \<Rightarrow> 'v" and vstep :: "'v \<Rightarrow> 'v \<Rightarrow> bool"
  assumes reach_induct: "reach s0 s \<Longrightarrow> Q s0 \<Longrightarrow>
      (\<And>s s'. reach s0 s \<Longrightarrow> step s s' \<Longrightarrow> Q s \<Longrightarrow> Q s') \<Longrightarrow> Q s"
    and simulation: "step s s' \<Longrightarrow> vstep (view s) (view s') \<or> view s' = view s"
begin

lemma invariant:
  assumes "reach s0 s" "I (view s0)" "\<And>v v'. I v \<Longrightarrow> vstep v v' \<Longrightarrow> I v'"
  shows "I (view s)"
  using assms(1)
proof (rule reach_induct [where Q = "\<lambda>s. I (view s)"])
  show "I (view s0)" by (rule assms(2))
next
  fix s s'
  assume "step s s'" "I (view s)"
  then show "I (view s')" using simulation assms(3) by metis
qed

end

type_synonym pool_view = "shared \<times> instr multiset"

inductive pstep :: "DependencyGraph \<Rightarrow> pool_view \<Rightarrow> pool_view \<Rightarrow> bool" for g where
  run_instr: "exec g ok i sh = (sh', new) \<Longrightarrow> pstep g (sh, add_mset i P) (sh', mset new + P)"
| take: "tasks sh = add_mset t ts \<Longrightarrow> \<not> is_shutdown sh \<Longrightarrow>
    pstep g (sh, P) (sh\<lparr>tasks := ts\<rparr>, add_mset (task_body t) P)"

definition pool :: "system \<Rightarrow> pool_view" where
  "pool s = (shared_state s, mset (caller s) + mset (concat (workers s)))"

lemma mset_concat_update:
  assumes "w < length ps"
  shows "mset (concat (ps[w := p])) + mset (ps ! w) = mset (concat ps) + mset p"
proof -
  have "ps = take w ps @ ps ! w # drop (Suc w) ps" by (rule id_take_nth_drop [OF assms])
  moreover have "ps[w := p] = take w ps @ p # drop (Suc w) ps"
    by (rule upd_conv_take_nth_drop [OF assms])
  ultimately have "mset (concat ps) = mset (concat (take w ps @ ps ! w # drop (Suc w) ps))"
    "mset (concat (ps[w := p])) = mset (concat (take w ps @ p # drop (Suc w) ps))"
    by simp_all
  then show ?thesis by simp
qed

lemma tstep_pstep:
  assumes "tstep g s s'"
  shows "pstep g (pool s) (pool s')"
  using assms
proof cases
  case (run_caller i "is" ok sh new)
  then show ?thesis
    using pstep.run_instr [OF run_caller(3), of "mset is + mset (concat (workers s))"]
    by (simp add: pool_def ac_simps)
next
  case (run_worker w i "is" ok sh new)
  let ?rest = "mset (caller s) + (mset (concat (workers s)) - {#i#})"
  have "i \<in> set (concat (workers s))"
    using run_worker(2,3) by (metis UN_I list.set_intros(1) nth_mem set_concat)
  then have whole: "add_mset i ?rest = mset (caller s) + mset (concat (workers s))"
    by (simp add: insert_DiffM)
  have "mset (concat ((workers s)[w := new @ is])) + mset (i # is)
      = mset (concat (workers s)) + mset (new @ is)"
    using mset_concat_update [OF run_worker(2), of "new @ is"] run_worker(3) by simp
  then have "add_mset i (mset (concat ((workers s)[w := new @ is])))
      = mset (concat (workers s)) + mset new"
    by (simp add: ac_simps)
  then have "mset (caller s) + mset (concat ((workers s)[w := new @ is])) = mset new + ?rest"
    using \<open>i \<in> set (concat (workers s))\<close>
    by (metis (no_types, lifting) add.assoc add.commute add_mset_remove_trivial
        diff_union_single_conv set_mset_mset)
  then show ?thesis
    using pstep.run_instr [OF run_worker(4), of ?rest] run_worker(1) whole by (simp add: pool_def ac_simps)
next
  case (take_task w t)
  have "mset (concat ((workers s)[w := [task_body t]]))
      = add_mset (task_body t) (mset (concat (workers s)))"
    using mset_concat_update [OF take_task(2), of "[task_body t]"] take_task(3) by simp
  then show ?thesis
    using pstep.take [of "shared_state s" t] take_task by (simp add: pool_def)
qed

text \<open>The induction rule that both views of a system take from its reachable states.\<close>

lemma reachable_rule:
  "reachable g s0 s \<Longrightarrow> Q s0 \<Longrightarrow>
   (\<And>s s'. reachable g s0 s \<Longrightarrow> tstep g s s' \<Longrightarrow> Q s \<Longrightarrow> Q s') \<Longrightarrow> Q s"
  by (induction rule: reachable.induct) blast+

interpretation pool_view: step_view "tstep g" "reachable g" pool "pstep g" for g
  by unfold_locales (fact reachable_rule, blast dest: tstep_pstep)

section \<open>Reading the shared state\<close>

lemma marks [trav_simps]:
  "get_discovered (mark_discovered n sh) m = (get_discovered sh m \<or> m = n)"
  "get_queued (mark_discovered n sh) m = get_queued sh m"
  "get_required (mark_discovered n sh) m = get_required sh m"
  "get_discovered (mark_queued n sh) m = get_discovered sh m"
  "get_queued (mark_queued n sh) m = (get_queued sh m \<or> m = n)"
  "get_required (mark_queued n sh) m = get_required sh m"
  "get_discovered (mark_required n sh) m = get_discovered sh m"
  "get_queued (mark_required n sh) m = get_queued sh m"
  "get_required (mark_required n sh) m = (get_required sh m \<or> m = n)"
  by (cases n; cases m; auto simp: GetAndMarkDiscovered_def GetAndMarkQueuedToBeProcessed_def
      MarkRequired_def)+

lemma mark_fields [trav_simps]:
  "tasks (mark_discovered n sh) = tasks sh" "tasks (mark_queued n sh) = tasks sh"
  "tasks (mark_required n sh) = tasks sh"
  "failed (mark_discovered n sh) = failed sh" "failed (mark_queued n sh) = failed sh"
  "failed (mark_required n sh) = failed sh"
  "is_shutdown (mark_discovered n sh) = is_shutdown sh" "is_shutdown (mark_queued n sh) = is_shutdown sh"
  "is_shutdown (mark_required n sh) = is_shutdown sh"
  "processed (mark_discovered n sh) = processed sh" "processed (mark_queued n sh) = processed sh"
  "processed (mark_required n sh) = processed sh"
  "succeeded (mark_discovered n sh) = succeeded sh" "succeeded (mark_queued n sh) = succeeded sh"
  "succeeded (mark_required n sh) = succeeded sh"
  "is_available (st_artifact (mark_discovered n sh) r) = is_available (st_artifact sh r)"
  "is_available (st_artifact (mark_queued n sh) r) = is_available (st_artifact sh r)"
  "is_available (st_artifact (mark_required n sh) r) = is_available (st_artifact sh r)"
  "unavailable_deps (st_action (mark_discovered n sh) a) = unavailable_deps (st_action sh a)"
  "unavailable_deps (st_action (mark_queued n sh) a) = unavailable_deps (st_action sh a)"
  "unavailable_deps (st_action (mark_required n sh) a) = unavailable_deps (st_action sh a)"
  by (cases n; simp add: GetAndMarkDiscovered_def GetAndMarkQueuedToBeProcessed_def MarkRequired_def)+

text \<open>The states of the nodes after an artifact became available or a dependency was notified.\<close>

definition make_available :: "artifact_ref \<Rightarrow> shared \<Rightarrow> shared" where
  "make_available r sh = sh\<lparr>st_artifact := (st_artifact sh)(r := MakeAvailable (st_artifact sh r))\<rparr>"

definition notify :: "action_ref \<Rightarrow> shared \<Rightarrow> shared" where
  "notify a sh =
     sh\<lparr>st_action := (st_action sh)(a := snd (NotifyAvailableDepAndCheckReady (st_action sh a)))\<rparr>"

lemma exec_available: "exec g ok (IMakeAvailable r) sh =
    (make_available r sh, map INotify (node_parents (artifact_nodes g ! r)))"
  by (simp add: make_available_def)

lemma exec_notify: "exec g ok (INotify a) sh =
    (notify a sh, if unavailable_deps (st_action sh a) = 1 then [IQueueProcessing (ActN a)] else [])"
  by (simp add: notify_def NotifyAvailableDepAndCheckReady_def)

lemma available_notify_gets [trav_simps]:
  "get_discovered (make_available r sh) m = get_discovered sh m"
  "get_queued (make_available r sh) m = get_queued sh m"
  "get_required (make_available r sh) m = get_required sh m"
  "get_discovered (notify a sh) m = get_discovered sh m"
  "get_queued (notify a sh) m = get_queued sh m"
  "get_required (notify a sh) m = get_required sh m"
  by (cases m; simp add: make_available_def notify_def MakeAvailable_def
      NotifyAvailableDepAndCheckReady_def)+

lemma available_notify_reads [trav_simps]:
  "is_available (st_artifact (make_available r sh) r') = (is_available (st_artifact sh r') \<or> r' = r)"
  "is_available (st_artifact (notify a sh) r') = is_available (st_artifact sh r')"
  "unavailable_deps (st_action (make_available r sh) a') = unavailable_deps (st_action sh a')"
  "unavailable_deps (st_action (notify a sh) a') =
     (if a' = a then unavailable_deps (st_action sh a) - 1 else unavailable_deps (st_action sh a'))"
  "tasks (make_available r sh) = tasks sh" "tasks (notify a sh) = tasks sh"
  "failed (make_available r sh) = failed sh" "failed (notify a sh) = failed sh"
  "is_shutdown (make_available r sh) = is_shutdown sh" "is_shutdown (notify a sh) = is_shutdown sh"
  "processed (make_available r sh) = processed sh" "processed (notify a sh) = processed sh"
  "succeeded (make_available r sh) = succeeded sh" "succeeded (notify a sh) = succeeded sh"
  by (simp_all add: make_available_def notify_def MakeAvailable_def
      NotifyAvailableDepAndCheckReady_def)

text \<open>A change of the lists or flags leaves the states of the nodes as they are.\<close>

lemma list_fields [trav_simps]:
  "get_discovered (sh\<lparr>tasks := ts\<rparr>) = get_discovered sh" "get_queued (sh\<lparr>tasks := ts\<rparr>) = get_queued sh"
  "get_required (sh\<lparr>tasks := ts\<rparr>) = get_required sh"
  "get_discovered (sh\<lparr>failed := b\<rparr>) = get_discovered sh" "get_queued (sh\<lparr>failed := b\<rparr>) = get_queued sh"
  "get_required (sh\<lparr>failed := b\<rparr>) = get_required sh"
  "get_discovered (sh\<lparr>is_shutdown := b\<rparr>) = get_discovered sh"
  "get_queued (sh\<lparr>is_shutdown := b\<rparr>) = get_queued sh"
  "get_required (sh\<lparr>is_shutdown := b\<rparr>) = get_required sh"
  "get_discovered (sh\<lparr>processed := ns\<rparr>) = get_discovered sh"
  "get_queued (sh\<lparr>processed := ns\<rparr>) = get_queued sh"
  "get_required (sh\<lparr>processed := ns\<rparr>) = get_required sh"
  "get_discovered (sh\<lparr>processed := ns, succeeded := ms\<rparr>) = get_discovered sh"
  "get_queued (sh\<lparr>processed := ns, succeeded := ms\<rparr>) = get_queued sh"
  "get_required (sh\<lparr>processed := ns, succeeded := ms\<rparr>) = get_required sh"
  by (rule ext, case_tac x, simp, simp)+

declare exec.simps(14,15) [simp del]
declare exec_available [simp] exec_notify [simp]
declare get_discovered.simps [simp del] get_queued.simps [simp del] get_required.simps [simp del]
declare mark_discovered.simps [simp del] mark_queued.simps [simp del] mark_required.simps [simp del]
declare trav_simps [simp]

section \<open>The outstanding work\<close>

text \<open>
  A second view: a queued task counts as the instruction that a thread runs when it takes the
  task, so that taking a task changes nothing.
\<close>

definition work :: "pool_view \<Rightarrow> pool_view" where
  "work v = ((fst v)\<lparr>tasks := {#}\<rparr>, snd v + image_mset task_body (tasks (fst v)))"

fun follow :: "instr \<Rightarrow> instr list \<Rightarrow> instr list" where
  "follow (IQueueTask t) new = [task_body t]"
| "follow i new = new"

inductive wstep :: "DependencyGraph \<Rightarrow> pool_view \<Rightarrow> pool_view \<Rightarrow> bool" for g where
  "exec g ok i sh = (sh', new) \<Longrightarrow>
   wstep g (sh, add_mset i P) (sh'\<lparr>tasks := {#}\<rparr>, mset (follow i new) + P)"

lemma marks_commute:
  "mark_discovered n (sh\<lparr>tasks := ts\<rparr>) = (mark_discovered n sh)\<lparr>tasks := ts\<rparr>"
  "mark_queued n (sh\<lparr>tasks := ts\<rparr>) = (mark_queued n sh)\<lparr>tasks := ts\<rparr>"
  "mark_required n (sh\<lparr>tasks := ts\<rparr>) = (mark_required n sh)\<lparr>tasks := ts\<rparr>"
  "make_available r (sh\<lparr>tasks := ts\<rparr>) = (make_available r sh)\<lparr>tasks := ts\<rparr>"
  "notify a (sh\<lparr>tasks := ts\<rparr>) = (notify a sh)\<lparr>tasks := ts\<rparr>"
  by (cases n; simp add: mark_discovered.simps mark_queued.simps mark_required.simps
      make_available_def notify_def)+

lemma exec_commute:
  assumes "exec g ok i sh = (sh', new)"
  shows "\<exists>sh''. exec g ok i (sh\<lparr>tasks := {#}\<rparr>) = (sh'', new) \<and> sh''\<lparr>tasks := {#}\<rparr> = sh'\<lparr>tasks := {#}\<rparr>
    \<and> mset (follow i new) + image_mset task_body (tasks sh) = mset new + image_mset task_body (tasks sh')"
  using assms by (cases "(g, ok, i, sh)" rule: exec.cases)
    (auto simp: marks_commute split: option.splits if_splits)

lemma pstep_wstep:
  assumes "pstep g v v'"
  shows "wstep g (work v) (work v') \<or> work v' = work v"
  using assms
proof cases
  case (run_instr ok i sh sh' new P)
  then obtain sh'' where "exec g ok i (sh\<lparr>tasks := {#}\<rparr>) = (sh'', new)"
    "sh''\<lparr>tasks := {#}\<rparr> = sh'\<lparr>tasks := {#}\<rparr>"
    "mset (follow i new) + image_mset task_body (tasks sh) = mset new + image_mset task_body (tasks sh')"
    using exec_commute by blast
  then show ?thesis
    using wstep.intros [of g ok i "sh\<lparr>tasks := {#}\<rparr>" sh'' new "P + image_mset task_body (tasks sh)"]
      run_instr(1,2) by (simp add: work_def ac_simps)
next
  case (take sh t ts P)
  then show ?thesis by (simp add: work_def)
qed

abbreviation work_of :: "system \<Rightarrow> pool_view" where
  "work_of s \<equiv> work (pool s)"

interpretation work_view: step_view "tstep g" "reachable g" "\<lambda>s. work (pool s)" "wstep g" for g
  by unfold_locales (fact reachable_rule, blast dest: tstep_pstep pstep_wstep)

text \<open>How often an instruction of some kind is outstanding.\<close>

definition tally :: "(instr \<Rightarrow> bool) \<Rightarrow> instr multiset \<Rightarrow> nat" where
  "tally f P = size (filter_mset f P)"

lemma tally_simps [simp]:
  "tally f {#} = 0" "tally f (P + Q) = tally f P + tally f Q"
  "tally f (add_mset i P) = of_bool (f i) + tally f P"
  by (simp_all add: tally_def)

lemma tally_image [simp]: "tally f (image_mset h M) = size (filter_mset (\<lambda>x. f (h x)) M)"
  by (simp add: tally_def filter_mset_image_mset)

lemma tally_pos: "tally f P > 0 \<longleftrightarrow> (\<exists>i \<in># P. f i)"
  unfolding tally_def nonempty_has_size [symmetric] set_mset_eq_empty_iff [symmetric] by auto

section \<open>Instructions mention nodes of the graph\<close>

fun valid :: "DependencyGraph \<Rightarrow> node_ref \<Rightarrow> bool" where
  "valid g (ArtN r) \<longleftrightarrow> r < length (artifact_nodes g)"
| "valid g (ActN a) \<longleftrightarrow> a < length (action_nodes g)"

fun task_node :: "task \<Rightarrow> node_ref" where
  "task_node (TVisit n) = n"
| "task_node (TProcess n) = n"

fun instr_node :: "instr \<Rightarrow> node_ref option" where
  "instr_node (IQueueVisit n) = Some n"
| "instr_node (IDiscover n) = Some n"
| "instr_node (IQueueTask t) = Some (task_node t)"
| "instr_node (IVisit n) = Some n"
| "instr_node (ICheckAvailable r) = Some (ArtN r)"
| "instr_node (IVisitDep r) = Some (ArtN r)"
| "instr_node (ICheckReady a) = Some (ActN a)"
| "instr_node (IQueueProcessing n) = Some n"
| "instr_node (ICheckRequired n) = Some n"
| "instr_node (IMarkQueued n) = Some n"
| "instr_node (IProcess n) = Some n"
| "instr_node (IMakeAvailable r) = Some (ArtN r)"
| "instr_node (INotify a) = Some (ActN a)"
| "instr_node _ = None"

definition instr_valid :: "DependencyGraph \<Rightarrow> instr \<Rightarrow> bool" where
  "instr_valid g i \<longleftrightarrow> (case instr_node i of None \<Rightarrow> True | Some n \<Rightarrow> valid g n)"

text \<open>A graph to which actions have been added, none of them in vain.\<close>

definition traversable :: "DependencyGraph \<Rightarrow> bool" where
  "traversable g \<longleftrightarrow>
     dag_inv g \<and>
     (\<forall>n \<in> set (action_nodes g).
        unavailable_deps (action_state n) = word_of_nat (length (node_children n)) \<and>
        length (node_children n) < 2 ^ 32 \<and>
        \<not> has_been_discovered (action_state n) \<and> \<not> is_queued_to_be_processed (action_state n) \<and>
        \<not> is_required (action_state n)) \<and>
     (\<forall>n \<in> set (artifact_nodes g).
        \<not> has_been_discovered (artifact_state n) \<and> \<not> is_queued_to_be_processed (artifact_state n) \<and>
        \<not> is_required (artifact_state n) \<and> \<not> is_available (artifact_state n))"

lemma traversable_links: "traversable g \<Longrightarrow> dag_links g"
  by (simp add: traversable_def dag_inv_def)

lemma action_refs_valid:
  "dag_links g \<Longrightarrow> a < length (action_nodes g) \<Longrightarrow>
   \<forall>r \<in> set (node_parents (action_nodes g ! a)) \<union> set (node_children (action_nodes g ! a)).
     r < length (artifact_nodes g)"
  using action_ok_nth unfolding action_ok_def by blast

lemma artifact_refs_valid:
  "dag_links g \<Longrightarrow> r < length (artifact_nodes g) \<Longrightarrow>
   \<forall>a \<in> set (node_parents (artifact_nodes g ! r)) \<union> set (node_children (artifact_nodes g ! r)).
     a < length (action_nodes g)"
  using artifact_ok_nth unfolding artifact_ok_def by blast

lemma builder_in_children:
  "BuilderActionNode n = Some a \<Longrightarrow> a \<in> set (node_children n)"
  by (auto simp: BuilderActionNode_def HasBuilderAction_def split: if_splits)

lemma instr_valid_simps [simp]:
  "instr_valid g (ITargets ids)" "instr_valid g (IQueueVisit n) = valid g n"
  "instr_valid g (IDiscover n) = valid g n" "instr_valid g (IQueueTask t) = valid g (task_node t)"
  "instr_valid g (IVisit n) = valid g n" "instr_valid g (ICheckAvailable r) = valid g (ArtN r)"
  "instr_valid g (IVisitDep r) = valid g (ArtN r)" "instr_valid g (ICheckReady a) = valid g (ActN a)"
  "instr_valid g (IQueueProcessing n) = valid g n" "instr_valid g (ICheckRequired n) = valid g n"
  "instr_valid g (IMarkQueued n) = valid g n" "instr_valid g (IProcess n) = valid g n"
  "instr_valid g (IMakeAvailable r) = valid g (ArtN r)" "instr_valid g (INotify a) = valid g (ActN a)"
  "instr_valid g IFail" "instr_valid g IShutdown"
  by (simp_all add: instr_valid_def)

lemma Visit_rest_valid:
  assumes "dag_links g" "valid g n" "i \<in> set (Visit_rest g n)"
  shows "instr_valid g i"
proof (cases n)
  case (ActN a)
  then show ?thesis using assms action_refs_valid [OF assms(1), of a] by auto
qed (use assms in auto)

lemma NotifyAvailable_valid:
  assumes "dag_links g" "valid g n" "i \<in> set (NotifyAvailable g n)"
  shows "instr_valid g i"
proof (cases n)
  case (ActN a)
  then show ?thesis using assms action_refs_valid [OF assms(1), of a] by auto
qed (use assms in auto)

lemma lookup_valid: "dag_links g \<Longrightarrow> artifact_ids g k = Some r \<Longrightarrow> r < length (artifact_nodes g)"
  using dag_links_tables(1) by (simp add: id_table_def)

lemma builder_valid:
  "dag_links g \<Longrightarrow> r < length (artifact_nodes g) \<Longrightarrow>
   BuilderActionNode (artifact_nodes g ! r) = Some a \<Longrightarrow> a < length (action_nodes g)"
  using artifact_refs_valid builder_in_children by blast

lemma exec_valid:
  assumes "dag_links g" "instr_valid g i" "exec g ok i sh = (sh', new)"
  shows "\<forall>j \<in> set new. instr_valid g j"
  using assms(2,3) Visit_rest_valid [OF assms(1)] NotifyAvailable_valid [OF assms(1)]
    artifact_refs_valid [OF assms(1)] lookup_valid [OF assms(1)] builder_valid [OF assms(1)]
  by (cases "(g, ok, i, sh)" rule: exec.cases)
    (auto simp: Abort_def split: option.splits if_splits)

definition all_valid :: "DependencyGraph \<Rightarrow> pool_view \<Rightarrow> bool" where
  "all_valid g v \<longleftrightarrow>
     (\<forall>i \<in># snd v. instr_valid g i) \<and> (\<forall>n \<in> set (processed (fst v)). valid g n)"

lemma exec_processed:
  assumes "exec g ok i sh = (sh', new)"
  shows "processed sh' = processed sh \<or> (\<exists>n. i = IProcess n \<and> processed sh' = processed sh @ [n])"
  using assms by (cases "(g, ok, i, sh)" rule: exec.cases) (auto split: option.splits if_splits)

lemma task_body_valid [simp]: "instr_valid g (task_body t) = valid g (task_node t)"
  by (cases t) simp_all

lemma follow_valid:
  "instr_valid g i \<Longrightarrow> \<forall>j \<in> set new. instr_valid g j \<Longrightarrow> \<forall>j \<in> set (follow i new). instr_valid g j"
  by (cases "(i, new)" rule: follow.cases) auto

lemma all_valid_step:
  assumes "dag_links g" "all_valid g v" "wstep g v v'"
  shows "all_valid g v'"
  using assms(3)
proof cases
  case (1 ok i sh sh' new P)
  then have i: "instr_valid g i" using assms(2) by (simp add: all_valid_def)
  then have "\<forall>j \<in> set (follow i new). instr_valid g j"
    using follow_valid exec_valid [OF assms(1) i 1(3)] by blast
  then show ?thesis
    using exec_processed [OF 1(3)] assms(2) i 1(1,2) by (auto simp: all_valid_def)
qed

end
