(* ===== verification/Jst_Traverser_Props.thy ===== *)
theory Jst_Traverser_Props
  imports Jst_Traverser_View
begin

text \<open>
  Safety and liveness of the concurrent traversal: a node is processed at most once, an action
  only after all its dependencies are available, an artifact only where nothing builds it, and
  both only where a target needs them; every run ends, and if nothing fails it ends with all
  targets available.
\<close>

section \<open>What an instruction leaves behind\<close>

lemma in_Visit_rest:
  "j \<in> set (Visit_rest g n) \<longleftrightarrow>
     (\<exists>r. n = ArtN r \<and> j = ICheckAvailable r) \<or>
     (\<exists>a. n = ActN a \<and>
        (j = ICheckReady a \<or> (\<exists>r \<in> set (node_children (action_nodes g ! a)). j = IVisitDep r)))"
  by (cases n) auto

lemma in_NotifyAvailable:
  "j \<in> set (NotifyAvailable g n) \<longleftrightarrow>
     (\<exists>r. j = IMakeAvailable r \<and>
        (n = ArtN r \<or> (\<exists>a. n = ActN a \<and> r \<in> set (node_parents (action_nodes g ! a)))))"
  by (cases n) auto

lemma eq_task_body:
  "j = task_body t \<longleftrightarrow> (\<exists>n. t = TVisit n \<and> j = IVisit n) \<or> (\<exists>n. t = TProcess n \<and> j = IProcess n)"
  by (cases t) auto

lemma no_task_body [simp]: "task_body t \<noteq> INotify a" "task_body t \<noteq> IMakeAvailable r"
  by (cases t; simp)+

lemmas spawned = in_Visit_rest in_NotifyAvailable eq_task_body Abort_def

section \<open>A node is processed once\<close>

fun proc_token :: "node_ref \<Rightarrow> instr \<Rightarrow> bool" where
  "proc_token n (IQueueTask (TProcess m)) \<longleftrightarrow> m = n"
| "proc_token n (IProcess m) \<longleftrightarrow> m = n"
| "proc_token n _ \<longleftrightarrow> False"

definition once :: "DependencyGraph \<Rightarrow> pool_view \<Rightarrow> bool" where
  "once g v \<longleftrightarrow>
     (\<forall>n. valid g n \<longrightarrow>
        tally (proc_token n) (snd v) + count_list (processed (fst v)) n = of_bool (get_queued (fst v) n))"

lemma proc_token_body [simp]: "proc_token n (task_body t) = proc_token n (IQueueTask t)"
  by (cases t) simp_all

lemma onceI:
  "(\<And>n. valid g n \<Longrightarrow> tally (proc_token n) P + count_list (processed sh) n = of_bool (get_queued sh n))
   \<Longrightarrow> once g (sh, P)"
  by (simp add: once_def)

lemma onceD:
  "once g (sh, P) \<Longrightarrow> valid g n \<Longrightarrow>
   tally (proc_token n) P + count_list (processed sh) n = of_bool (get_queued sh n)"
  by (simp add: once_def)

lemma count_list_snoc [simp]: "count_list (xs @ [y]) x = count_list xs x + of_bool (y = x)"
  by simp

lemma once_step:
  assumes "once g v" "wstep g v v'"
  shows "once g v'"
  using assms(2)
proof cases
  case (1 ok i sh sh' new P)
  show ?thesis unfolding 1(2)
  proof (rule onceI)
    fix n
    assume n: "valid g n"
    have "of_bool (proc_token n i) + tally (proc_token n) P + count_list (processed sh) n
        = of_bool (get_queued sh n)"
      using onceD [of g sh "add_mset i P" n] assms(1) n 1(1) by simp
    with 1(3) show "tally (proc_token n) (mset (follow i new) + P)
        + count_list (processed (sh'\<lparr>tasks := {#}\<rparr>)) n = of_bool (get_queued (sh'\<lparr>tasks := {#}\<rparr>) n)"
    proof (cases "(g, ok, i, sh)" rule: exec.cases)
      case (6 g' ok' n' s')
      then show ?thesis
        using 1(3) \<open>of_bool _ + _ + _ = _\<close> by (cases n') auto
    next
      case (13 g' ok' n' s')
      then show ?thesis
        using 1(3) \<open>of_bool _ + _ + _ = _\<close> by (cases n') (auto simp: Abort_def split: if_splits)
    qed (auto simp: Abort_def of_bool_def split: option.splits if_splits)
  qed
qed

lemma exec_succeeded:
  assumes "exec g ok i sh = (sh', new)"
  shows "processed sh' = processed sh \<and> succeeded sh' = succeeded sh
    \<or> (\<exists>n. i = IProcess n \<and> processed sh' = processed sh @ [n]
         \<and> succeeded sh' = succeeded sh @ (if ok then [n] else []))"
  using assms by (cases "(g, ok, i, sh)" rule: exec.cases) (auto split: option.splits if_splits)

definition succeeded_processed :: "pool_view \<Rightarrow> bool" where
  "succeeded_processed v \<longleftrightarrow>
     (\<forall>n. count_list (succeeded (fst v)) n \<le> count_list (processed (fst v)) n)"

lemma succeeded_processed_step:
  assumes "succeeded_processed v" "wstep g v v'"
  shows "succeeded_processed v'"
  using assms(2)
proof cases
  case (1 ok i sh sh' new P)
  then show ?thesis
    using assms(1) exec_succeeded [OF 1(3)] by (auto simp: succeeded_processed_def le_SucI)
qed

section \<open>What is available\<close>

definition producer :: "DependencyGraph \<Rightarrow> artifact_ref \<Rightarrow> node_ref" where
  "producer g r =
     (case BuilderActionNode (artifact_nodes g ! r) of None \<Rightarrow> ArtN r | Some a \<Rightarrow> ActN a)"

definition avail_inv :: "DependencyGraph \<Rightarrow> pool_view \<Rightarrow> bool" where
  "avail_inv g v \<longleftrightarrow>
     (\<forall>r < length (artifact_nodes g).
        tally (\<lambda>i. i = IMakeAvailable r) (snd v) + of_bool (is_available (st_artifact (fst v) r))
          = count_list (succeeded (fst v)) (producer g r))"

definition missing :: "DependencyGraph \<Rightarrow> pool_view \<Rightarrow> action_ref \<Rightarrow> nat" where
  "missing g v a =
     tally (\<lambda>i. i = INotify a) (snd v) +
     length (filter (\<lambda>r. \<not> is_available (st_artifact (fst v) r)) (node_children (action_nodes g ! a)))"

definition counter_inv :: "DependencyGraph \<Rightarrow> pool_view \<Rightarrow> bool" where
  "counter_inv g v \<longleftrightarrow>
     (\<forall>a < length (action_nodes g).
        unavailable_deps (st_action (fst v) a) = word_of_nat (missing g v a) \<and>
        missing g v a < 2 ^ 32)"

text \<open>The instructions that lead to the processing of a node, before it has been marked as queued.\<close>

fun claims :: "node_ref \<Rightarrow> instr \<Rightarrow> bool" where
  "claims n (IQueueProcessing m) \<longleftrightarrow> m = n"
| "claims n (ICheckRequired m) \<longleftrightarrow> m = n"
| "claims n (IMarkQueued m) \<longleftrightarrow> m = n"
| "claims n _ \<longleftrightarrow> False"

fun justified :: "DependencyGraph \<Rightarrow> shared \<Rightarrow> node_ref \<Rightarrow> bool" where
  "justified g sh (ArtN r) \<longleftrightarrow> BuilderActionNode (artifact_nodes g ! r) = None"
| "justified g sh (ActN a) \<longleftrightarrow>
     (\<forall>r \<in> set (node_children (action_nodes g ! a)). is_available (st_artifact sh r))"

lemma justified_tasks [simp]: "justified g (sh\<lparr>tasks := ts\<rparr>) n = justified g sh n"
  by (cases n) simp_all

definition just_inv :: "DependencyGraph \<Rightarrow> pool_view \<Rightarrow> bool" where
  "just_inv g v \<longleftrightarrow>
     (\<forall>n. valid g n \<longrightarrow> (\<exists>i \<in># snd v. claims n i) \<or> get_queued (fst v) n \<longrightarrow> justified g (fst v) n)"

definition req_inv :: "DependencyGraph \<Rightarrow> pool_view \<Rightarrow> bool" where
  "req_inv g v \<longleftrightarrow>
     (\<forall>n. valid g n \<longrightarrow> IMarkQueued n \<in># snd v \<or> get_queued (fst v) n \<longrightarrow> get_required (fst v) n)"

lemma exec_required:
  assumes "exec g ok i sh = (sh', new)"
  shows "get_required sh n \<longrightarrow> get_required sh' n"
    and "is_available (st_artifact sh r) \<longrightarrow> is_available (st_artifact sh' r)"
  using assms by (cases "(g, ok, i, sh)" rule: exec.cases; auto split: option.splits if_splits)+

lemma req_step:
  assumes "req_inv g v" "wstep g v v'"
  shows "req_inv g v'"
  using assms(2)
proof cases
  case (1 ok i sh sh' new P)
  have "\<And>n. valid g n \<Longrightarrow> IMarkQueued n = i \<or> IMarkQueued n \<in># P \<or> get_queued sh n \<Longrightarrow> get_required sh n"
    using assms(1) 1(1) by (auto simp: req_inv_def)
  then show ?thesis
    using 1(3) unfolding 1(2) req_inv_def
    by (cases "(g, ok, i, sh)" rule: exec.cases)
      (auto simp: spawned split: option.splits if_splits)
qed

lemma claims_body [simp]: "\<not> claims n (task_body t)"
  by (cases t) simp_all

lemma counter_value:
  assumes "counter_inv g v" "a < length (action_nodes g)"
    "unavailable_deps (st_action (fst v) a) = word_of_nat k" "k < 2 ^ 32"
  shows "missing g v a = k"
proof -
  have "word_of_nat (missing g v a) = (word_of_nat k :: 32 word)" "missing g v a < 2 ^ LENGTH(32)"
    using assms(1-3) by (auto simp: counter_inv_def)
  moreover have "unat (word_of_nat k :: 32 word) = k"
    by (rule of_nat_inverse [OF refl]) (use assms(4) in simp)
  ultimately show ?thesis by (metis of_nat_inverse)
qed

lemma just_step:
  assumes "just_inv g v" "counter_inv g v" "dag_links g" "wstep g v v'" "all_valid g v"
  shows "just_inv g v'"
  using assms(4)
proof cases
  case (1 ok i sh sh' new P)
  have old: "justified g sh n" if "valid g n" "claims n i \<or> (\<exists>j \<in># P. claims n j) \<or> get_queued sh n" for n
    using assms(1) that 1(1) by (auto simp: just_inv_def)
  have keep: "justified g sh' n" if "justified g sh n" for n
    using that exec_required(2) [OF 1(3)] by (cases n) auto
  have valid: "instr_valid g i" using assms(5) 1(1) by (simp add: all_valid_def)
  have ready: "justified g sh (ActN a)"
    if "a < length (action_nodes g)" "unavailable_deps (st_action sh a) = 0" for a
    using counter_value [OF assms(2) that(1), of 0] that(2) 1(1)
    by (simp add: missing_def filter_empty_conv)
  have last: "justified g sh (ActN a)" if "i = INotify a" "unavailable_deps (st_action sh a) = 1" for a
    using counter_value [OF assms(2), of a 1] valid that 1(1)
    by (simp add: missing_def filter_empty_conv)
  have "justified g sh' n"
    if "valid g n" "(\<exists>j \<in> set (follow i new). claims n j) \<or> get_queued sh' n" for n
    using 1(3) that valid old [OF that(1)] ready last keep [of n]
    by (cases "(g, ok, i, sh)" rule: exec.cases)
      (auto simp: spawned IsReady_def split: option.splits if_splits)
  then show ?thesis using old keep unfolding 1(2) just_inv_def by auto
qed

lemma count_filter [simp]: "size {#x \<in># mset xs. x = y#} = count_list xs y"
  by (induction xs) auto

lemma producer_count:
  assumes "dag_links g" "r < length (artifact_nodes g)" "a < length (action_nodes g)"
  shows "count_list (node_parents (action_nodes g ! a)) r = of_bool (producer g r = ActN a)"
proof -
  have "count_list (node_parents (action_nodes g ! a)) r
      = count_list (node_children (artifact_nodes g ! r)) a"
    using assms unfolding dag_links_def links_match_def by metis
  moreover have "length (node_children (artifact_nodes g ! r)) \<le> 1"
    using artifact_ok_nth [OF assms(1,2)] by (simp add: artifact_ok_def)
  then have "count_list (node_children (artifact_nodes g ! r)) a = of_bool (producer g r = ActN a)"
    by (cases "node_children (artifact_nodes g ! r)")
      (auto simp: producer_def BuilderActionNode_def HasBuilderAction_def)
  ultimately show ?thesis by simp
qed

text \<open>The success of a node is recorded at most once.\<close>

lemma succeeded_le_1:
  assumes "once g v" "succeeded_processed v" "valid g n"
  shows "count_list (succeeded (fst v)) n \<le> 1"
proof -
  have "count_list (succeeded (fst v)) n \<le> count_list (processed (fst v)) n"
    using assms(2) by (simp add: succeeded_processed_def)
  also have "\<dots> \<le> 1" using assms(1,3) by (cases v) (auto simp: of_bool_def dest!: onceD [of _ _ _ n] split: if_splits)
  finally show ?thesis .
qed

lemma producer_valid: "dag_links g \<Longrightarrow> r < length (artifact_nodes g) \<Longrightarrow> valid g (producer g r)"
  using builder_valid by (auto simp: producer_def split: option.split)

lemma made_available_once:
  assumes "dag_links g" "once g v" "succeeded_processed v" "avail_inv g v"
    "IMakeAvailable r \<in># snd v" "r < length (artifact_nodes g)"
  shows "\<not> is_available (st_artifact (fst v) r)"
proof -
  have "tally (\<lambda>i. i = IMakeAvailable r) (snd v) > 0"
    using assms(5) by (auto simp: tally_pos)
  moreover have "tally (\<lambda>i. i = IMakeAvailable r) (snd v) + of_bool (is_available (st_artifact (fst v) r)) \<le> 1"
    using assms(4,6) succeeded_le_1 [OF assms(2,3) producer_valid [OF assms(1,6)]]
    by (auto simp: avail_inv_def)
  ultimately show ?thesis by (simp add: of_bool_def split: if_splits)
qed

lemma running_justified:
  assumes "once g v" "just_inv g v" "IProcess n \<in># snd v" "valid g n"
  shows "justified g (fst v) n"
proof -
  have "tally (proc_token n) (snd v) > 0"
    unfolding tally_pos by (rule bexI [OF _ assms(3)]) simp
  then have "get_queued (fst v) n" using assms(1,4) by (cases "get_queued (fst v) n") (auto simp: once_def)
  then show ?thesis using assms(2,4) by (simp add: just_inv_def)
qed

lemma avail_step:
  assumes "avail_inv g v" "wstep g v v'" "dag_links g" "once g v" "succeeded_processed v"
    "just_inv g v" "all_valid g v"
  shows "avail_inv g v'"
  using assms(2)
proof cases
  case (1 ok i sh sh' new P)
  show ?thesis unfolding avail_inv_def 1(2)
  proof (intro allI impI)
    fix r
    assume r: "r < length (artifact_nodes g)"
    have old: "of_bool (i = IMakeAvailable r) + tally (\<lambda>i. i = IMakeAvailable r) P
        + of_bool (is_available (st_artifact sh r)) = count_list (succeeded sh) (producer g r)"
      using assms(1) r 1(1) by (simp add: avail_inv_def)
    have fresh: "\<not> is_available (st_artifact sh r)" if "i = IMakeAvailable r"
      using made_available_once [OF assms(3,4,5,1), of r] r 1(1) that by simp
    have leaf: "producer g q = ArtN q" if "i = IProcess (ArtN q)" for q
    proof -
      have q: "valid g (ArtN q)" using assms(7) 1(1) that by (simp add: all_valid_def)
      then have "justified g sh (ArtN q)"
        using running_justified [OF assms(4,6) _ q] 1(1) that by simp
      then show ?thesis by (simp add: producer_def)
    qed
    have other: "producer g r \<noteq> ArtN q" if "q \<noteq> r" for q
      using that by (simp add: producer_def split: option.split)
    have act: "a < length (action_nodes g)" if "i = IProcess (ActN a)" for a
      using assms(7) 1(1) that by (simp add: all_valid_def)
    show "tally (\<lambda>i. i = IMakeAvailable r) (snd (sh'\<lparr>tasks := {#}\<rparr>, mset (follow i new) + P)) +
        of_bool (is_available (st_artifact (fst (sh'\<lparr>tasks := {#}\<rparr>, mset (follow i new) + P)) r))
      = count_list (succeeded (fst (sh'\<lparr>tasks := {#}\<rparr>, mset (follow i new) + P))) (producer g r)"
      using 1(3) old
    proof (cases "(g, ok, i, sh)" rule: exec.cases)
      case (13 g' ok' n s')
      show ?thesis
      proof (cases n)
        case (ArtN q)
        then show ?thesis using 13 1(3) old leaf [of q] other [of q]
          by (cases "q = r") (auto simp: Abort_def split: if_splits)
      next
        case (ActN a)
        then show ?thesis using 13 1(3) old producer_count [OF assms(3) r act, of a]
          by (auto simp: Abort_def split: if_splits)
      qed
    next
      case (6 g' ok' n s')
      then show ?thesis using 1(3) old by (cases n) auto
    next
      case (14 g' ok' q s')
      then show ?thesis using 1(3) old fresh by (cases "q = r") auto
    qed (auto simp: Abort_def eq_task_body split: option.splits if_splits)
  qed
qed

lemma filter_count:
  "Q y \<Longrightarrow> length (filter Q xs) = length (filter (\<lambda>x. Q x \<and> x \<noteq> y) xs) + count_list xs y"
  by (induction xs) auto

lemma parents_count:
  assumes "dag_links g" "r < length (artifact_nodes g)" "a < length (action_nodes g)"
  shows "count_list (node_parents (artifact_nodes g ! r)) a
       = count_list (node_children (action_nodes g ! a)) r"
  using assms unfolding dag_links_def links_match_def by metis

lemma missing_step:
  assumes "dag_links g" "once g v" "succeeded_processed v" "avail_inv g v" "all_valid g v"
    "wstep g v v'" "a < length (action_nodes g)"
  shows "missing g v' a = missing g v a \<and>
           unavailable_deps (st_action (fst v') a) = unavailable_deps (st_action (fst v) a) \<or>
         missing g v a = Suc (missing g v' a) \<and>
           unavailable_deps (st_action (fst v') a) = unavailable_deps (st_action (fst v) a) - 1 \<and>
           (unavailable_deps (st_action (fst v) a) = 1 \<longrightarrow> IQueueProcessing (ActN a) \<in># snd v')"
  using assms(6)
proof cases
  case (1 ok i sh sh' new P)
  from 1(3) show ?thesis
  proof (cases "(g, ok, i, sh)" rule: exec.cases)
    case (14 g' ok' q s')
    then have q: "q < length (artifact_nodes g)" using assms(5) 1(1) by (simp add: all_valid_def)
    then have "\<not> is_available (st_artifact sh q)"
      using made_available_once [OF assms(1-4), of q] 1(1) 14 by simp
    then show ?thesis
      using 14 1 parents_count [OF assms(1) q assms(7)]
        filter_count [of "\<lambda>r. \<not> is_available (st_artifact sh r)" q]
      by (auto simp: missing_def)
  next
    case (6 g' ok' n s')
    then show ?thesis using 1 by (cases n) (auto simp: missing_def)
  next
    case (13 g' ok' n s')
    then show ?thesis using 1 by (cases n) (auto simp: missing_def Abort_def split: if_splits)
  qed (use 1 in \<open>auto simp: missing_def Abort_def eq_task_body split: option.splits if_splits\<close>)
qed

lemma counter_step:
  assumes "counter_inv g v" "dag_links g" "once g v" "succeeded_processed v" "avail_inv g v"
    "all_valid g v" "wstep g v v'"
  shows "counter_inv g v'"
  unfolding counter_inv_def
proof (intro allI impI)
  fix a
  assume a: "a < length (action_nodes g)"
  then have "unavailable_deps (st_action (fst v) a) = word_of_nat (missing g v a)"
    "missing g v a < 2 ^ 32"
    using assms(1) by (auto simp: counter_inv_def)
  then show "unavailable_deps (st_action (fst v') a) = word_of_nat (missing g v' a) \<and>
      missing g v' a < 2 ^ 32"
    using missing_step [OF assms(2-7) a] by auto
qed

section \<open>Only what is needed\<close>

inductive needed :: "DependencyGraph \<Rightarrow> ArtifactIdentifier list \<Rightarrow> node_ref \<Rightarrow> bool" for g ids where
  target: "ident \<in> set ids \<Longrightarrow> artifact_ids g ident = Some r \<Longrightarrow> needed g ids (ArtN r)"
| builder: "needed g ids (ArtN r) \<Longrightarrow> BuilderActionNode (artifact_nodes g ! r) = Some a \<Longrightarrow>
    needed g ids (ActN a)"
| input: "needed g ids (ActN a) \<Longrightarrow> r \<in> set (node_children (action_nodes g ! a)) \<Longrightarrow>
    needed g ids (ArtN r)"

fun visits :: "node_ref \<Rightarrow> instr \<Rightarrow> bool" where
  "visits n (IQueueVisit m) \<longleftrightarrow> m = n"
| "visits n (IDiscover m) \<longleftrightarrow> m = n"
| "visits n (IQueueTask (TVisit m)) \<longleftrightarrow> m = n"
| "visits n (IVisit m) \<longleftrightarrow> m = n"
| "visits n (ICheckAvailable r) \<longleftrightarrow> n = ArtN r"
| "visits n (IVisitDep r) \<longleftrightarrow> n = ArtN r"
| "visits n (ICheckReady a) \<longleftrightarrow> n = ActN a"
| "visits n _ \<longleftrightarrow> False"

fun wanted :: "instr \<Rightarrow> ArtifactIdentifier list" where
  "wanted (ITargets ids) = ids"
| "wanted _ = []"

definition need_inv :: "DependencyGraph \<Rightarrow> ArtifactIdentifier list \<Rightarrow> pool_view \<Rightarrow> bool" where
  "need_inv g ids v \<longleftrightarrow>
     (\<forall>i \<in># snd v. set (wanted i) \<subseteq> set ids \<and> (\<forall>n. visits n i \<longrightarrow> needed g ids n)) \<and>
     (\<forall>n. valid g n \<and> get_required (fst v) n \<longrightarrow> needed g ids n)"

lemma visits_body [simp]: "visits n (task_body t) = visits n (IQueueTask t)" "wanted (task_body t) = []"
  by (cases t; simp)+

lemma need_step:
  assumes "need_inv g ids v" "wstep g v v'"
  shows "need_inv g ids v'"
  using assms(2)
proof cases
  case (1 ok i sh sh' new P)
  have i: "set (wanted i) \<subseteq> set ids" "\<And>n. visits n i \<Longrightarrow> needed g ids n"
    and sh: "\<And>n. valid g n \<Longrightarrow> get_required sh n \<Longrightarrow> needed g ids n"
    using assms(1) 1(1) by (auto simp: need_inv_def)
  have "set (wanted j) \<subseteq> set ids \<and> (\<forall>n. visits n j \<longrightarrow> needed g ids n)"
    if "j \<in> set (follow i new)" for j
    using 1(3)
  proof (cases "(g, ok, i, sh)" rule: exec.cases)
    case (2 g' ok' ident idents s')
    then show ?thesis using 1(3) i(1) that needed.target [of ident ids g]
      by (auto simp: Abort_def subset_iff split: option.splits)
  next
    case (6 g' ok' n s')
    then have "needed g ids n" using i(2) by simp
    then show ?thesis using 6 1(3) that needed.input [of g ids] by (auto simp: in_Visit_rest)
  next
    case (7 g' ok' r s')
    then have "needed g ids (ArtN r)" using i(2) by simp
    then show ?thesis using 7 1(3) that needed.builder [of g ids r]
      by (auto split: if_splits option.splits)
  qed (use i that in \<open>auto simp: in_NotifyAvailable Abort_def split: if_splits\<close>)
  moreover have "needed g ids n" if "valid g n" "get_required sh' n" for n
    using 1(3) i(2) that sh
    by (cases "(g, ok, i, sh)" rule: exec.cases) (auto split: option.splits if_splits)
  ultimately show ?thesis
    using assms(1) unfolding 1(1,2) need_inv_def by auto
qed

section \<open>The order of processing\<close>

text \<open>The inputs of an action come before it, and what makes them has succeeded.\<close>

definition inputs_first :: "DependencyGraph \<Rightarrow> node_ref list \<Rightarrow> bool" where
  "inputs_first g ns \<longleftrightarrow>
     (\<forall>k < length ns. \<forall>a. ns ! k = ActN a \<longrightarrow>
        (\<forall>r \<in> set (node_children (action_nodes g ! a)). producer g r \<in> set (take k ns)))"

lemma inputs_first_snoc:
  "inputs_first g (ns @ [n]) \<longleftrightarrow>
     inputs_first g ns \<and>
     (\<forall>a. n = ActN a \<longrightarrow> (\<forall>r \<in> set (node_children (action_nodes g ! a)). producer g r \<in> set ns))"
  by (auto simp: inputs_first_def nth_append less_Suc_eq)

lemma justified_producers:
  assumes "dag_links g" "succeeded_processed v" "avail_inv g v" "justified g (fst v) (ActN a)"
    "a < length (action_nodes g)" "r \<in> set (node_children (action_nodes g ! a))"
  shows "producer g r \<in> set (succeeded (fst v))" "producer g r \<in> set (processed (fst v))"
proof -
  have "r < length (artifact_nodes g)" using action_refs_valid [OF assms(1,5)] assms(6) by blast
  moreover have "is_available (st_artifact (fst v) r)" using assms(4,6) by simp
  ultimately have "count_list (succeeded (fst v)) (producer g r) \<noteq> 0"
    using assms(3) by (fastforce simp: avail_inv_def)
  then show "producer g r \<in> set (succeeded (fst v))" by (simp add: count_list_0_iff)
  have "count_list (processed (fst v)) (producer g r) \<noteq> 0"
    using assms(2) \<open>count_list (succeeded (fst v)) (producer g r) \<noteq> 0\<close>
    unfolding succeeded_processed_def by (metis le_zero_eq)
  then show "producer g r \<in> set (processed (fst v))" by (simp add: count_list_0_iff)
qed

section \<open>All invariants of safety\<close>

definition safe :: "DependencyGraph \<Rightarrow> ArtifactIdentifier list \<Rightarrow> pool_view \<Rightarrow> bool" where
  "safe g ids v \<longleftrightarrow>
     all_valid g v \<and> once g v \<and> succeeded_processed v \<and> avail_inv g v \<and> counter_inv g v \<and>
     just_inv g v \<and> req_inv g v \<and> need_inv g ids v \<and> inputs_first g (processed (fst v))"

lemma inputs_first_step:
  assumes "dag_links g" "safe g ids v" "wstep g v v'"
  shows "inputs_first g (processed (fst v'))"
  using assms(3)
proof cases
  case (1 ok i sh sh' new P)
  have old: "inputs_first g (processed sh)" using assms(2) 1(1) by (simp add: safe_def)
  have "\<forall>r \<in> set (node_children (action_nodes g ! a)). producer g r \<in> set (processed sh)"
    if "i = IProcess (ActN a)" for a
  proof
    fix r
    assume r: "r \<in> set (node_children (action_nodes g ! a))"
    have a: "valid g (ActN a)" using assms(2) 1(1) that by (simp add: safe_def all_valid_def)
    then have "justified g (fst v) (ActN a)"
      using running_justified [of g v "ActN a"] assms(2) 1(1) that by (simp add: safe_def)
    then show "producer g r \<in> set (processed sh)"
      using justified_producers(2) [OF assms(1), of v a r] r a assms(2) 1(1) by (simp add: safe_def)
  qed
  then show ?thesis
    using exec_processed [OF 1(3)] old 1(2) by (auto simp: inputs_first_snoc)
qed

lemma safe_step:
  assumes "dag_links g" "safe g ids v" "wstep g v v'"
  shows "safe g ids v'"
proof -
  have v: "all_valid g v" "once g v" "succeeded_processed v" "avail_inv g v" "counter_inv g v"
    "just_inv g v" "req_inv g v" "need_inv g ids v"
    using assms(2) unfolding safe_def by blast+
  show ?thesis
    unfolding safe_def
    using all_valid_step [OF assms(1) v(1) assms(3)] once_step [OF v(2) assms(3)]
      succeeded_processed_step [OF v(3) assms(3)] avail_step [OF v(4) assms(3,1) v(2,3,6,1)]
      counter_step [OF v(5) assms(1) v(2-4,1) assms(3)] just_step [OF v(6,5) assms(1,3) v(1)]
      req_step [OF v(7) assms(3)] need_step [OF v(8) assms(3)] inputs_first_step [OF assms]
    by blast
qed

lemma work_of_Traverser: "work_of (Traverser g jobs ids) = (initial_shared g, {#ITargets ids#})"
  by (simp add: work_def pool_def Traverser_def initial_shared_def concat_replicate_trivial)

lemma initial_reads:
  assumes "traversable g" "valid g n"
  shows "\<not> get_discovered (initial_shared g) n" "\<not> get_queued (initial_shared g) n"
    "\<not> get_required (initial_shared g) n"
  using assms by (cases n; simp add: traversable_def initial_shared_def get_discovered.simps
      get_queued.simps get_required.simps)+

lemma initial_states:
  assumes "traversable g"
  shows "r < length (artifact_nodes g) \<Longrightarrow> \<not> is_available (st_artifact (initial_shared g) r)"
    and "a < length (action_nodes g) \<Longrightarrow>
      unavailable_deps (st_action (initial_shared g) a)
        = word_of_nat (length (node_children (action_nodes g ! a))) \<and>
      length (node_children (action_nodes g ! a)) < 2 ^ 32"
  using assms by (simp_all add: traversable_def initial_shared_def)

lemma initial_missing:
  assumes "traversable g" "a < length (action_nodes g)"
  shows "missing g (initial_shared g, {#ITargets ids#}) a = length (node_children (action_nodes g ! a))"
proof -
  have "filter (\<lambda>r. \<not> is_available (st_artifact (initial_shared g) r)) (node_children (action_nodes g ! a))
      = node_children (action_nodes g ! a)"
    using initial_states(1) [OF assms(1)] action_refs_valid [OF traversable_links [OF assms(1)] assms(2)]
    by (auto intro!: filter_True)
  then show ?thesis by (simp add: missing_def)
qed

lemma safe_initial:
  assumes "traversable g"
  shows "safe g ids (initial_shared g, {#ITargets ids#})"
proof -
  have "succeeded (initial_shared g) = []" "processed (initial_shared g) = []"
    by (simp_all add: initial_shared_def)
  then show ?thesis
    using initial_reads [OF assms] initial_states [OF assms] initial_missing [OF assms]
    by (auto simp: safe_def all_valid_def once_def succeeded_processed_def avail_inv_def
        counter_inv_def just_inv_def req_inv_def need_inv_def inputs_first_def)
qed

lemma reachable_safe:
  assumes "traversable g" "reachable g (Traverser g jobs ids) s"
  shows "safe g ids (work_of s)"
  by (rule work_view.invariant [where I = "safe g ids", OF assms(2)])
    (simp_all add: work_of_Traverser safe_initial [OF assms(1)]
      safe_step [OF traversable_links [OF assms(1)]])

end
