(* ===== verification/Jst_Traverser_Live.thy ===== *)
theory Jst_Traverser_Live
  imports Jst_Traverser_Props
begin

text \<open>
  Liveness of the concurrent traversal: the cost of the outstanding work and of the nodes that
  are still to be discovered and queued decreases with every step, so that every run ends; and
  where nothing has failed, no obligation is ever dropped, so that a run ends with all targets
  available.
\<close>

section \<open>Every run ends\<close>

fun visit_cost :: "DependencyGraph \<Rightarrow> node_ref \<Rightarrow> nat" where
  "visit_cost g (ArtN r) = 4"
| "visit_cost g (ActN a) = 3 * length (node_children (action_nodes g ! a)) + 4"

definition notify_cost :: "DependencyGraph \<Rightarrow> artifact_ref \<Rightarrow> nat" where
  "notify_cost g r = 1 + 4 * length (node_parents (artifact_nodes g ! r))"

fun process_cost :: "DependencyGraph \<Rightarrow> node_ref \<Rightarrow> nat" where
  "process_cost g (ArtN r) = notify_cost g r"
| "process_cost g (ActN a) = sum_list (map (notify_cost g) (node_parents (action_nodes g ! a)))"

fun cost :: "DependencyGraph \<Rightarrow> instr \<Rightarrow> nat" where
  "cost g (ITargets ids) = 3 + 3 * length ids"
| "cost g (IQueueVisit n) = 2"
| "cost g (IDiscover n) = 1"
| "cost g (IQueueTask (TVisit n)) = 3 + visit_cost g n"
| "cost g (IQueueTask (TProcess n)) = 5 + process_cost g n"
| "cost g (IVisit n) = 1 + visit_cost g n"
| "cost g (ICheckAvailable r) = 4"
| "cost g (IVisitDep r) = 3"
| "cost g (ICheckReady a) = 4"
| "cost g (IQueueProcessing n) = 3"
| "cost g (ICheckRequired n) = 2"
| "cost g (IMarkQueued n) = 1"
| "cost g (IProcess n) = 3 + process_cost g n"
| "cost g (IMakeAvailable r) = notify_cost g r"
| "cost g (INotify a) = 4"
| "cost g IFail = 1"
| "cost g IShutdown = 1"

definition budget :: "DependencyGraph \<Rightarrow> shared \<Rightarrow> nat" where
  "budget g sh =
     (\<Sum>n | valid g n \<and> \<not> get_discovered sh n. cost g (IQueueTask (TVisit n))) +
     (\<Sum>n | valid g n \<and> \<not> get_queued sh n. cost g (IQueueTask (TProcess n)))"

definition task_costs :: "DependencyGraph \<Rightarrow> shared \<Rightarrow> nat" where
  "task_costs g sh = (\<Sum>t \<in># tasks sh. 1 + cost g (task_body t))"

definition total_cost :: "DependencyGraph \<Rightarrow> pool_view \<Rightarrow> nat" where
  "total_cost g v = (\<Sum>i \<in># snd v. cost g i) + task_costs g (fst v) + budget g (fst v)"

lemma finite_nodes: "finite {n. valid g n}"
proof -
  have "{n. valid g n} = ArtN ` {..<length (artifact_nodes g)} \<union> ActN ` {..<length (action_nodes g)}"
    by (auto elim: valid.elims(2))
  then show ?thesis by simp
qed

lemma sum_unmarked:
  fixes f :: "node_ref \<Rightarrow> nat"
  assumes "valid g n" "\<not> marked n"
  shows "(\<Sum>m | valid g m \<and> \<not> marked m. f m) = f n + (\<Sum>m | valid g m \<and> \<not> (marked m \<or> m = n). f m)"
proof -
  have "finite {m. valid g m \<and> \<not> marked m}" by (rule finite_subset [OF _ finite_nodes]) auto
  moreover have "{m. valid g m \<and> \<not> marked m} - {n} = {m. valid g m \<and> \<not> (marked m \<or> m = n)}" by auto
  ultimately show ?thesis using assms by (simp add: sum.remove)
qed

lemma sum_marked:
  "marked n \<Longrightarrow> {m. valid g m \<and> \<not> marked m \<and> m \<noteq> n} = {m. valid g m \<and> \<not> marked m}"
  by auto

lemma budget_discovered:
  assumes "valid g n"
  shows "budget g sh = budget g (mark_discovered n sh) +
    (if get_discovered sh n then 0 else cost g (IQueueTask (TVisit n)))"
  using sum_unmarked [OF assms, of "get_discovered sh"]
  by (simp add: budget_def sum_marked [of "get_discovered sh"])

lemma budget_queued:
  assumes "valid g n"
  shows "budget g sh = budget g (mark_queued n sh) +
    (if get_queued sh n then 0 else cost g (IQueueTask (TProcess n)))"
  using sum_unmarked [OF assms, of "get_queued sh"]
  by (simp add: budget_def sum_marked [of "get_queued sh"])

lemma budget_same [simp]:
  "budget g (mark_required n sh) = budget g sh" "budget g (make_available r sh) = budget g sh"
  "budget g (notify a sh) = budget g sh" "budget g (sh\<lparr>tasks := ts\<rparr>) = budget g sh"
  "budget g (sh\<lparr>failed := b\<rparr>) = budget g sh" "budget g (sh\<lparr>is_shutdown := b\<rparr>) = budget g sh"
  "budget g (sh\<lparr>processed := ns\<rparr>) = budget g sh"
  "budget g (sh\<lparr>processed := ns, succeeded := ms\<rparr>) = budget g sh"
  by (simp_all add: budget_def)

lemma Visit_rest_cost: "sum_list (map (cost g) (Visit_rest g n)) = visit_cost g n"
  by (cases n) (simp_all add: comp_def sum_list_triv)

lemma NotifyAvailable_cost: "sum_list (map (cost g) (NotifyAvailable g n)) = process_cost g n"
  by (cases n) (simp_all add: comp_def)

lemma exec_cost:
  assumes "exec g ok i sh = (sh', new)" "instr_valid g i"
  shows "sum_list (map (cost g) new) + task_costs g sh' + budget g sh'
       < cost g i + task_costs g sh + budget g sh"
  using assms(1)
proof (cases "(g, ok, i, sh)" rule: exec.cases)
  case (4 g' ok' n s')
  then show ?thesis using assms budget_discovered [of g n sh] by (auto simp: task_costs_def)
next
  case (5 g' ok' t s')
  then show ?thesis using assms by (cases t) (auto simp: task_costs_def)
next
  case (12 g' ok' n s')
  then show ?thesis using assms budget_queued [of g n sh] by (auto simp: task_costs_def)
qed (use assms(1) in \<open>auto simp: task_costs_def Visit_rest_cost NotifyAvailable_cost Abort_def
      notify_cost_def comp_def sum_list_triv split: option.splits if_splits\<close>)

lemma pstep_cost:
  assumes "pstep g v v'" "all_valid g (work v)"
  shows "total_cost g v' < total_cost g v"
  using assms(1)
proof cases
  case (run_instr ok i sh sh' new P)
  then have "instr_valid g i" using assms(2) by (simp add: all_valid_def work_def)
  then show ?thesis
    using exec_cost [OF run_instr(3)] run_instr(1,2)
    by (simp add: total_cost_def sum_mset_sum_list flip: mset_map)
next
  case (take sh t ts P)
  then show ?thesis by (simp add: total_cost_def task_costs_def)
qed

lemma tstep_cost:
  assumes "traversable g" "reachable g (Traverser g jobs ids) s" "tstep g s s'"
  shows "total_cost g (pool s') < total_cost g (pool s)"
  using pstep_cost [OF tstep_pstep [OF assms(3)]] reachable_safe [OF assms(1,2)]
  by (simp add: safe_def)

section \<open>No obligation is dropped\<close>

text \<open>A failure has a cause: a call of the runner that failed, or a target that is not in the graph.\<close>

definition fail_inv :: "DependencyGraph \<Rightarrow> ArtifactIdentifier list \<Rightarrow> pool_view \<Rightarrow> bool" where
  "fail_inv g ids v \<longleftrightarrow>
     length (succeeded (fst v)) \<le> length (processed (fst v)) \<and>
     (failed (fst v) \<or> is_shutdown (fst v) \<or> IFail \<in># snd v \<or> IShutdown \<in># snd v \<longrightarrow>
        length (succeeded (fst v)) < length (processed (fst v)) \<or> \<not> Traverse_result g ids)"

lemma Traverse_result_iff: "Traverse_result g ids \<longleftrightarrow> (\<forall>ident \<in> set ids. artifact_ids g ident \<noteq> None)"
  by (auto simp: Traverse_result_def list_all_iff ArtifactNodeWithId_def split: option.splits)

lemma fail_inv_step:
  assumes "fail_inv g ids v" "need_inv g ids v" "wstep g v v'"
  shows "fail_inv g ids v'"
  using assms(3)
proof cases
  case (1 ok i sh sh' new P)
  let ?cause = "\<lambda>sh. length (succeeded sh) < length (processed sh) \<or> \<not> Traverse_result g ids"
  have order: "length (succeeded sh) \<le> length (processed sh)"
    and flags: "failed sh \<Longrightarrow> ?cause sh" "is_shutdown sh \<Longrightarrow> ?cause sh"
    and pool: "i = IFail \<or> i = IShutdown \<or> IFail \<in># P \<or> IShutdown \<in># P \<Longrightarrow> ?cause sh"
    using assms(1) 1(1) by (auto simp: fail_inv_def)
  have keep: "?cause sh' \<and> length (succeeded sh') \<le> length (processed sh')" if "?cause sh"
    using exec_succeeded [OF 1(3)] that order by (cases ok) auto
  have order': "length (succeeded sh') \<le> length (processed sh')"
    using exec_succeeded [OF 1(3)] order by auto
  have unknown: "\<not> Traverse_result g ids" if "i = ITargets (ident # idents)" "artifact_ids g ident = None"
    for ident idents
    using assms(2) 1(1) that by (auto simp: need_inv_def Traverse_result_iff)
  have "?cause sh'" if "IFail \<in> set (follow i new) \<or> IShutdown \<in> set (follow i new)"
    using 1(3)
  proof (cases "(g, ok, i, sh)" rule: exec.cases)
    case (2 g' ok' ident idents s')
    then show ?thesis using 1(3) that unknown [of ident idents] by (auto split: option.splits)
  next
    case (13 g' ok' n s')
    then show ?thesis using 1(3) that order by (auto simp: in_NotifyAvailable split: if_splits)
  qed (use 1(3) that in \<open>auto simp: in_Visit_rest eq_task_body split: if_splits option.splits\<close>)
  moreover have "?cause sh'" if "failed sh' \<or> is_shutdown sh'"
  proof -
    have "failed sh \<or> is_shutdown sh \<or> i = IFail \<or> i = IShutdown"
      using that 1(3) by (cases "(g, ok, i, sh)" rule: exec.cases) (auto split: if_splits option.splits)
    then show ?thesis using keep flags pool by blast
  qed
  ultimately show ?thesis
    using order' keep pool unfolding fail_inv_def 1(2) by auto
qed

definition visit_pending :: "pool_view \<Rightarrow> node_ref \<Rightarrow> bool" where
  "visit_pending v n \<longleftrightarrow>
     IQueueVisit n \<in># snd v \<or> IDiscover n \<in># snd v \<or> get_discovered (fst v) n"

definition proc_pending :: "pool_view \<Rightarrow> node_ref \<Rightarrow> bool" where
  "proc_pending v n \<longleftrightarrow> (\<exists>i \<in># snd v. claims n i) \<or> get_queued (fst v) n"

fun visited :: "DependencyGraph \<Rightarrow> pool_view \<Rightarrow> node_ref \<Rightarrow> bool" where
  "visited g v (ArtN r) \<longleftrightarrow>
     ICheckAvailable r \<in># snd v \<or> is_available (st_artifact (fst v) r) \<or>
     (case BuilderActionNode (artifact_nodes g ! r) of
        Some a \<Rightarrow> visit_pending v (ActN a) | None \<Rightarrow> proc_pending v (ArtN r))"
| "visited g v (ActN a) \<longleftrightarrow>
     (\<forall>r \<in> set (node_children (action_nodes g ! a)).
        IVisitDep r \<in># snd v \<or> is_available (st_artifact (fst v) r) \<or> visit_pending v (ArtN r)) \<and>
     (ICheckReady a \<in># snd v \<or> missing g v a > 0 \<or> proc_pending v (ActN a))"

definition live :: "DependencyGraph \<Rightarrow> ArtifactIdentifier list \<Rightarrow> pool_view \<Rightarrow> bool" where
  "live g ids v \<longleftrightarrow>
     \<not> is_shutdown (fst v) \<and> IShutdown \<notin># snd v \<and>
     (\<forall>ident \<in> set ids. (\<exists>i \<in># snd v. ident \<in> set (wanted i)) \<or>
        (\<exists>r. artifact_ids g ident = Some r \<and> visit_pending v (ArtN r))) \<and>
     (\<forall>n. valid g n \<and> get_discovered (fst v) n \<longrightarrow>
        IQueueTask (TVisit n) \<in># snd v \<or> IVisit n \<in># snd v \<or>
        get_required (fst v) n \<and> visited g v n)"

lemma exec_discovered: "exec g ok i sh = (sh', new) \<Longrightarrow> get_discovered sh n \<Longrightarrow> get_discovered sh' n"
  by (cases "(g, ok, i, sh)" rule: exec.cases) (auto split: option.splits if_splits)

lemma exec_queued: "exec g ok i sh = (sh', new) \<Longrightarrow> get_queued sh n \<Longrightarrow> get_queued sh' n"
  by (cases "(g, ok, i, sh)" rule: exec.cases) (auto split: option.splits if_splits)

lemma visit_pending_step:
  assumes "wstep g v v'" "\<not> failed (fst v)" "visit_pending v n"
  shows "visit_pending v' n"
  using assms(1)
proof cases
  case (1 ok i sh sh' new P)
  consider "i = IQueueVisit n" | "i = IDiscover n" | "IQueueVisit n \<in># P" | "IDiscover n \<in># P"
    | "get_discovered sh n"
    using assms(3) 1(1) by (auto simp: visit_pending_def)
  then show ?thesis
    by cases (use 1 assms(2) exec_discovered [OF 1(3)] in \<open>auto simp: visit_pending_def\<close>)
qed

lemma proc_pending_step:
  assumes "wstep g v v'" "\<not> failed (fst v)" "get_required (fst v) n" "proc_pending v n"
  shows "proc_pending v' n"
  using assms(1)
proof cases
  case (1 ok i sh sh' new P)
  consider "claims n i" | "\<exists>j \<in># P. claims n j" | "get_queued sh n"
    using assms(4) 1(1) by (auto simp: proc_pending_def)
  then show ?thesis
  proof cases
    case 1
    then show ?thesis
      using \<open>exec g ok i sh = (sh', new)\<close> assms(2,3) \<open>v = _\<close> \<open>v' = _\<close>
      by (cases "(n, i)" rule: claims.cases) (auto simp: proc_pending_def)
  qed (use 1 exec_queued [OF 1(3)] in \<open>auto simp: proc_pending_def\<close>)
qed

lemma visited_art_step:
  assumes "wstep g v v'" "\<not> failed (fst v)" "get_required (fst v) (ArtN r)" "visited g v (ArtN r)"
  shows "visited g v' (ArtN r)"
  using assms(1)
proof cases
  case (1 ok i sh sh' new P)
  consider "i = ICheckAvailable r" | "ICheckAvailable r \<in># P" | "is_available (st_artifact sh r)"
    | a where "BuilderActionNode (artifact_nodes g ! r) = Some a" "visit_pending v (ActN a)"
    | "BuilderActionNode (artifact_nodes g ! r) = None" "proc_pending v (ArtN r)"
    using assms(4) 1(1) by (auto split: option.splits)
  then show ?thesis
  proof cases
    assume "i = ICheckAvailable r"
    then show ?thesis using 1
      by (auto simp: visit_pending_def proc_pending_def split: if_splits option.splits)
  next
    assume "is_available (st_artifact sh r)"
    then show ?thesis using 1(2) exec_required(2) [OF 1(3)] by simp
  next
    fix a
    assume "BuilderActionNode (artifact_nodes g ! r) = Some a" "visit_pending v (ActN a)"
    then show ?thesis using visit_pending_step [OF assms(1,2)] by simp
  next
    assume "BuilderActionNode (artifact_nodes g ! r) = None" "proc_pending v (ArtN r)"
    then show ?thesis using proc_pending_step [OF assms(1-3)] by simp
  qed (use 1(2) in simp)
qed

lemma visited_input_step:
  assumes "wstep g v v'" "\<not> failed (fst v)"
    "IVisitDep r \<in># snd v \<or> is_available (st_artifact (fst v) r) \<or> visit_pending v (ArtN r)"
  shows "IVisitDep r \<in># snd v' \<or> is_available (st_artifact (fst v') r) \<or> visit_pending v' (ArtN r)"
  using assms(1)
proof cases
  case (1 ok i sh sh' new P)
  consider "i = IVisitDep r" | "IVisitDep r \<in># P" | "is_available (st_artifact sh r)"
    | "visit_pending v (ArtN r)"
    using assms(3) 1(1) by auto
  then show ?thesis
  proof cases
    assume "i = IVisitDep r"
    then show ?thesis using 1 by (auto simp: visit_pending_def split: if_splits)
  next
    assume "is_available (st_artifact sh r)"
    then show ?thesis using 1(2) exec_required(2) [OF 1(3)] by simp
  next
    assume "visit_pending v (ArtN r)"
    then show ?thesis using visit_pending_step [OF assms(1,2)] by simp
  qed (use 1(2) in simp)
qed

lemma ready_step:
  assumes "wstep g v v'" "\<not> failed (fst v)" "dag_links g" "safe g ids v" "a < length (action_nodes g)"
    "get_required (fst v) (ActN a)"
    "ICheckReady a \<in># snd v \<or> missing g v a > 0 \<or> proc_pending v (ActN a)"
  shows "ICheckReady a \<in># snd v' \<or> missing g v' a > 0 \<or> proc_pending v' (ActN a)"
proof -
  have inv: "all_valid g v" "once g v" "succeeded_processed v" "avail_inv g v" "counter_inv g v"
    using assms(4) unfolding safe_def by blast+
  have new: "proc_pending v' (ActN a)" if "IQueueProcessing (ActN a) \<in># snd v'"
    using that unfolding proc_pending_def by force
  have counted: "unavailable_deps (st_action (fst v) a) = word_of_nat (missing g v a)"
    using inv(5) assms(5) by (simp add: counter_inv_def)
  have positive: ?thesis if "missing g v a > 0"
  proof (cases "missing g v' a")
    case 0
    then have "missing g v a = 1"
      "unavailable_deps (st_action (fst v) a) = 1 \<longrightarrow> IQueueProcessing (ActN a) \<in># snd v'"
      using missing_step [OF assms(3) inv(2-4,1) assms(1,5)] that by auto
    then show ?thesis using counted new by simp
  qed simp
  consider "missing g v a > 0" | "proc_pending v (ActN a)" | "ICheckReady a \<in># snd v" "missing g v a = 0"
    using assms(7) by auto
  then show ?thesis
  proof cases
    assume pending: "ICheckReady a \<in># snd v" "missing g v a = 0"
    from assms(1) show ?thesis
    proof cases
      case (1 ok i sh sh' n P)
      then consider "i = ICheckReady a" | "ICheckReady a \<in># P" using pending(1) by auto
      then show ?thesis
      proof cases
        assume "i = ICheckReady a"
        then have "IQueueProcessing (ActN a) \<in># snd v'"
          using 1 counted pending(2) by (auto simp: IsReady_def)
        then show ?thesis using new by simp
      qed (simp add: 1(2))
    qed
  qed (use positive proc_pending_step [OF assms(1,2,6)] in blast)+
qed

lemma visited_step:
  assumes "wstep g v v'" "\<not> failed (fst v)" "dag_links g" "safe g ids v" "valid g n"
    "get_required (fst v) n" "visited g v n"
  shows "visited g v' n"
proof (cases n)
  case (ArtN r)
  then show ?thesis using visited_art_step [OF assms(1,2)] assms(6,7) by simp
next
  case (ActN a)
  then show ?thesis
    using visited_input_step [OF assms(1,2)] ready_step [OF assms(1-4), of a] assms(5-7) by simp
qed

lemma live_step:
  assumes "wstep g v v'" "\<not> failed (fst v)" "IFail \<notin># snd v'" "dag_links g" "safe g ids v"
    "live g ids v"
  shows "live g ids v'"
  using assms(1)
proof cases
  case (1 ok i sh sh' new P)
  have targets: "(\<exists>i \<in># snd v'. ident \<in> set (wanted i)) \<or>
      (\<exists>r. artifact_ids g ident = Some r \<and> visit_pending v' (ArtN r))"
    if "ident \<in> set ids" for ident
  proof -
    have "(\<exists>i \<in># snd v. ident \<in> set (wanted i)) \<or>
        (\<exists>r. artifact_ids g ident = Some r \<and> visit_pending v (ArtN r))"
      using assms(6) that unfolding live_def by blast
    then consider "ident \<in> set (wanted i)" | j where "j \<in># P" "ident \<in> set (wanted j)"
      | r where "artifact_ids g ident = Some r" "visit_pending v (ArtN r)"
      unfolding 1(1) by auto
    then show ?thesis
    proof cases
      assume "ident \<in> set (wanted i)"
      then obtain k ks where "i = ITargets (k # ks)" "ident = k \<or> ident \<in> set ks"
        by (cases i; cases "wanted i") auto
      then show ?thesis
        using 1 assms(3) by (auto simp: visit_pending_def Abort_def split: option.splits)
    next
      fix r
      assume "artifact_ids g ident = Some r" "visit_pending v (ArtN r)"
      then show ?thesis using visit_pending_step [OF assms(1,2)] by blast
    qed (use 1(2) in auto)
  qed
  have "IQueueTask (TVisit n) \<in># snd v' \<or> IVisit n \<in># snd v' \<or> get_required (fst v') n \<and> visited g v' n"
    if n: "valid g n" "get_discovered (fst v') n" for n
  proof -
    consider "IQueueTask (TVisit n) = i" | "IVisit n = i" | "IQueueTask (TVisit n) \<in># P"
      | "IVisit n \<in># P" | "get_required sh n" "visited g v n" | "\<not> get_discovered sh n"
      using assms(6) n(1) 1(1) unfolding live_def by auto
    then show ?thesis
    proof cases
      assume "IVisit n = i"
      then show ?thesis using 1 by (cases n) auto
    next
      assume "get_required sh n" "visited g v n"
      then show ?thesis
        using visited_step [OF assms(1,2,4,5) n(1)] exec_required(1) [OF 1(3)] 1(1,2) by auto
    next
      assume "\<not> get_discovered sh n"
      then show ?thesis
        using 1 n(2) by (cases "(g, ok, i, sh)" rule: exec.cases) (auto split: option.splits if_splits)
    qed (use 1 in auto)
  qed
  moreover have "\<not> is_shutdown (fst v') \<and> IShutdown \<notin># snd v'"
  proof -
    have "\<not> is_shutdown sh" "IShutdown \<noteq> i" "IShutdown \<notin># P"
      using assms(6) 1(1) unfolding live_def by auto
    then show ?thesis using 1 assms(3)
      by (cases "(g, ok, i, sh)" rule: exec.cases) (auto simp: spawned split: option.splits if_splits)
  qed
  ultimately show ?thesis using targets unfolding live_def by blast
qed

section \<open>The end of a run\<close>

definition healthy :: "DependencyGraph \<Rightarrow> ArtifactIdentifier list \<Rightarrow> pool_view \<Rightarrow> bool" where
  "healthy g ids v \<longleftrightarrow>
     safe g ids v \<and> fail_inv g ids v \<and>
     (failed (fst v) \<or> IFail \<in># snd v \<or>
        live g ids v \<and> succeeded (fst v) = processed (fst v))"

lemma sound_step:
  assumes "wstep g v v'" "\<not> failed (fst v')" "IFail \<notin># snd v'"
  shows "\<not> failed (fst v) \<and> IFail \<notin># snd v"
    and "succeeded (fst v) = processed (fst v) \<Longrightarrow>
      succeeded (fst v') = processed (fst v')"
proof -
  from assms(1) show "\<not> failed (fst v) \<and> IFail \<notin># snd v"
  proof cases
    case (1 ok i sh sh' new P)
    then show ?thesis using assms(2,3)
      by (cases "(g, ok, i, sh)" rule: exec.cases) (auto split: if_splits option.splits)
  qed
  from assms(1) show "succeeded (fst v') = processed (fst v')"
    if "succeeded (fst v) = processed (fst v)"
  proof cases
    case (1 ok i sh sh' new P)
    then show ?thesis using assms(2,3) that
      by (cases "(g, ok, i, sh)" rule: exec.cases) (auto simp: Abort_def split: if_splits option.splits)
  qed
qed

lemma healthy_step:
  assumes "dag_links g" "healthy g ids v" "wstep g v v'"
  shows "healthy g ids v'"
proof -
  have v: "safe g ids v" "fail_inv g ids v"
    "failed (fst v) \<or> IFail \<in># snd v \<or>
       live g ids v \<and> succeeded (fst v) = processed (fst v)"
    using assms(2) unfolding healthy_def by blast+
  have "need_inv g ids v" using v(1) unfolding safe_def by blast
  then have "fail_inv g ids v'" by (rule fail_inv_step [OF v(2) _ assms(3)])
  moreover have "live g ids v' \<and> succeeded (fst v') = processed (fst v')"
    if "\<not> failed (fst v')" "IFail \<notin># snd v'"
    using sound_step [OF assms(3) that] live_step [OF assms(3) _ that(2) assms(1) v(1)] v(3) by blast
  ultimately show ?thesis
    using safe_step [OF assms(1) v(1) assms(3)] unfolding healthy_def by blast
qed

lemma healthy_initial:
  assumes "traversable g"
  shows "healthy g ids (initial_shared g, {#ITargets ids#})"
proof -
  have "live g ids (initial_shared g, {#ITargets ids#})"
    using initial_reads [OF assms] by (auto simp: live_def) (simp add: initial_shared_def)
  moreover have "fail_inv g ids (initial_shared g, {#ITargets ids#})"
    by (simp add: fail_inv_def initial_shared_def)
  ultimately show ?thesis
    using safe_initial [OF assms] by (simp add: healthy_def) (simp add: initial_shared_def)
qed

lemma reachable_healthy:
  assumes "traversable g" "reachable g (Traverser g jobs ids) s"
  shows "healthy g ids (work_of s)"
  by (rule work_view.invariant [where I = "healthy g ids", OF assms(2)])
    (simp_all add: work_of_Traverser healthy_initial [OF assms(1)]
      healthy_step [OF traversable_links [OF assms(1)]])

lemma tstep_workers: "tstep g s s' \<Longrightarrow> length (workers s') = length (workers s)"
  by (induction rule: tstep.induct) simp_all

lemma reachable_workers:
  "reachable g (Traverser g jobs ids) s \<Longrightarrow> length (workers s) = max 1 jobs"
  by (induction rule: reachable.induct) (auto simp: Traverser_def dest: tstep_workers)

text \<open>A system in which no step is possible: all threads are idle and no task may be taken.\<close>

definition finished :: "DependencyGraph \<Rightarrow> system \<Rightarrow> bool" where
  "finished g s \<longleftrightarrow> (\<nexists>s'. tstep g s s')"

lemma finished_idle:
  assumes "finished g s" "reachable g (Traverser g jobs ids) s"
  shows "snd (pool s) = {#}" "tasks (shared_state s) = {#} \<or> is_shutdown (shared_state s)"
proof -
  have caller: "caller s = []"
  proof (cases "caller s")
    case (Cons i "is")
    obtain sh new where "exec g True i (shared_state s) = (sh, new)" by fastforce
    then show ?thesis using tstep.run_caller [OF Cons] assms(1) unfolding finished_def by blast
  qed simp
  have idle: "workers s ! w = []" if "w < length (workers s)" for w
  proof (cases "workers s ! w")
    case (Cons i "is")
    obtain sh new where "exec g True i (shared_state s) = (sh, new)" by fastforce
    then show ?thesis using tstep.run_worker [OF that Cons] assms(1) unfolding finished_def by blast
  qed simp
  then have "concat (workers s) = []" by (auto simp: in_set_conv_nth)
  then show "snd (pool s) = {#}" by (simp add: pool_def caller)
  have "0 < length (workers s)" using reachable_workers [OF assms(2)] by simp
  then show "tasks (shared_state s) = {#} \<or> is_shutdown (shared_state s)"
    using tstep.take_task [of 0 s] idle assms(1) unfolding finished_def
    by (meson multiset_nonemptyE)
qed

lemma work_reads:
  "is_available (st_artifact (fst (work_of s)) r) = is_available (st_artifact (shared_state s) r)"
  "failed (fst (work_of s)) = failed (shared_state s)"
  "is_shutdown (fst (work_of s)) = is_shutdown (shared_state s)"
  "processed (fst (work_of s)) = processed (shared_state s)"
  "succeeded (fst (work_of s)) = succeeded (shared_state s)"
  by (simp_all add: work_def pool_def)

text \<open>Which artifact an artifact is made from.\<close>

definition artifact_deps :: "DependencyGraph \<Rightarrow> (artifact_ref \<times> artifact_ref) set" where
  "artifact_deps g =
     {(c, r). r < length (artifact_nodes g) \<and>
        (\<exists>a. BuilderActionNode (artifact_nodes g ! r) = Some a \<and>
             c \<in> set (node_children (action_nodes g ! a)))}"

lemma artifact_deps_wf:
  assumes "dag_links g" "acyclic (artifact_deps g)"
  shows "wf (artifact_deps g)"
proof (rule finite_acyclic_wf [OF _ assms(2)])
  have "artifact_deps g \<subseteq> {..<length (artifact_nodes g)} \<times> {..<length (artifact_nodes g)}"
    using builder_valid [OF assms(1)] action_refs_valid [OF assms(1)]
    by (fastforce simp: artifact_deps_def)
  then show "finite (artifact_deps g)" by (rule finite_subset) simp
qed

lemma quiet_available:
  assumes "dag_links g" "acyclic (artifact_deps g)" "safe g ids (sh, {#})" "live g ids (sh, {#})"
    "succeeded sh = processed sh" "r < length (artifact_nodes g)"
    "get_discovered sh (ArtN r)"
  shows "is_available (st_artifact sh r)"
  using artifact_deps_wf [OF assms(1,2)] assms(6,7)
proof (induction r rule: wf_induct_rule)
  case (less r)
  have once: "once g (sh, {#})" and avail: "avail_inv g (sh, {#})"
    using assms(3) unfolding safe_def by blast+
  have seen: "visited g (sh, {#}) n" if "valid g n" "get_discovered sh n" for n
    using assms(4) that by (simp add: live_def)
  have made: "is_available (st_artifact sh r)" if "get_queued sh (producer g r)"
  proof -
    have "count_list (processed sh) (producer g r) = 1"
      using onceD [OF once producer_valid [OF assms(1) less.prems(1)]] that by simp
    then have "of_bool (is_available (st_artifact sh r)) = (1 :: nat)"
      using avail less.prems(1) assms(5) by (auto simp: avail_inv_def)
    then show ?thesis by (simp only: of_bool_eq_1_iff)
  qed
  show ?case
  proof (cases "BuilderActionNode (artifact_nodes g ! r)")
    case None
    then show ?thesis
      using seen [of "ArtN r"] less.prems made by (auto simp: producer_def proc_pending_def)
  next
    case (Some a)
    then have a: "a < length (action_nodes g)" using builder_valid [OF assms(1) less.prems(1)] by blast
    show ?thesis
    proof (rule ccontr)
      assume missing: "\<not> is_available (st_artifact sh r)"
      then have "get_discovered sh (ActN a)"
        using seen [of "ArtN r"] less.prems Some by (simp add: visit_pending_def)
      then have act: "visited g (sh, {#}) (ActN a)" using seen [of "ActN a"] a by simp
      have "is_available (st_artifact sh c)" if c: "c \<in> set (node_children (action_nodes g ! a))" for c
      proof (rule ccontr)
        assume no: "\<not> is_available (st_artifact sh c)"
        have "(c, r) \<in> artifact_deps g" using less.prems(1) Some c by (auto simp: artifact_deps_def)
        moreover have "c < length (artifact_nodes g)" using action_refs_valid [OF assms(1) a] c by blast
        moreover have "get_discovered sh (ArtN c)"
          using act c no by (auto simp: visit_pending_def)
        ultimately show False using less.IH no by blast
      qed
      then have "missing g (sh, {#}) a = 0" by (simp add: missing_def filter_empty_conv)
      then have "get_queued sh (ActN a)" using act by (simp add: proc_pending_def)
      then show False using made missing Some by (simp add: producer_def)
    qed
  qed
qed

text \<open>What the end of a run without a failure looks like.\<close>

lemma finished_quiet:
  assumes "traversable g" "reachable g (Traverser g jobs ids) s" "finished g s" "\<not> failed (shared_state s)"
  shows "work_of s = (fst (work_of s), {#})" "live g ids (fst (work_of s), {#})"
    "safe g ids (fst (work_of s), {#})" "succeeded (shared_state s) = processed (shared_state s)"
proof -
  have "healthy g ids (work_of s)" by (rule reachable_healthy [OF assms(1,2)])
  moreover have idle: "snd (pool s) = {#}" by (rule finished_idle(1) [OF assms(3,2)])
  then have "IFail \<notin># snd (work_of s)" by (auto simp: work_def eq_task_body)
  ultimately have h: "safe g ids (work_of s)" "live g ids (work_of s)"
    "succeeded (shared_state s) = processed (shared_state s)"
    using assms(4) unfolding healthy_def work_reads by blast+
  then have "\<not> is_shutdown (shared_state s)" by (simp add: live_def work_reads)
  then have "snd (work_of s) = {#}"
    using finished_idle(2) [OF assms(3,2)] idle by (simp add: work_def pool_def)
  then show quiet: "work_of s = (fst (work_of s), {#})" by (metis prod.collapse)
  show "live g ids (fst (work_of s), {#})" "safe g ids (fst (work_of s), {#})"
    "succeeded (shared_state s) = processed (shared_state s)"
    using h quiet by simp_all
qed

end
