(* ===== verification/Jst_Traverser_Graph.thy ===== *)
theory Jst_Traverser_Graph
  imports Jst_Traverser_View
begin

text \<open>
  The graphs that are traversed: where every action of a list has been added to an empty graph,
  the graph meets what the traversal needs, in particular the counter of every action is the
  number of its inputs and no state has been touched.
\<close>

definition untouched :: "'a NodeTraversalState_scheme \<Rightarrow> bool" where
  "untouched st \<longleftrightarrow>
     \<not> has_been_discovered st \<and> \<not> is_queued_to_be_processed st \<and> \<not> is_required st"

definition counted :: "ActionNode \<Rightarrow> bool" where
  "counted n \<longleftrightarrow> unavailable_deps (action_state n) = word_of_nat (length (node_children n))"

text \<open>All actions but \<open>a\<close> have been linked, and no action has more than \<open>b\<close> inputs.\<close>

definition prepared :: "action_ref option \<Rightarrow> nat \<Rightarrow> DependencyGraph \<Rightarrow> bool" where
  "prepared a b g \<longleftrightarrow>
     (\<forall>i < length (action_nodes g).
        untouched (action_state (action_nodes g ! i)) \<and>
        length (node_children (action_nodes g ! i)) \<le> b \<and>
        (a \<noteq> Some i \<longrightarrow> counted (action_nodes g ! i))) \<and>
     (\<forall>n \<in> set (artifact_nodes g). artifact_state n = new_artifact_state)"

lemma prepared_weaken: "prepared None b g \<Longrightarrow> prepared a b g"
  by (simp add: prepared_def)

lemma prepared_mono: "prepared a b g \<Longrightarrow> b \<le> c \<Longrightarrow> prepared a c g"
  by (auto simp: prepared_def)

lemma nth_update: "i < length xs \<Longrightarrow> xs[a := y] ! i = (if a = i then y else xs ! i)"
  by (cases "a = i") simp_all

lemma artifact_states_update:
  assumes "\<forall>n \<in> set ns. artifact_state n = new_artifact_state"
    and "\<And>n. artifact_state (h n) = artifact_state n"
  shows "\<forall>n \<in> set (ns[i := h (ns ! i)]). artifact_state n = new_artifact_state"
proof (cases "i < length ns")
  case True
  then have "artifact_state (h (ns ! i)) = new_artifact_state" using assms by simp
  then show ?thesis using assms(1) set_update_subset_insert [of ns i "h (ns ! i)"] by blast
qed (use assms(1) in \<open>simp add: list_update_beyond\<close>)

lemma prepared_update_artifact:
  assumes "prepared a b g" "\<And>n. artifact_state (h n) = artifact_state n"
  shows "prepared a b (update_artifact i h g)"
proof -
  have "\<forall>n \<in> set (artifact_nodes g). artifact_state n = new_artifact_state"
    using assms(1) unfolding prepared_def by blast
  from artifact_states_update [OF this assms(2)] show ?thesis
    using assms(1) unfolding prepared_def dag_simps by blast
qed

lemma prepared_update_action:
  assumes "prepared (Some a) b g"
    and "\<And>n. action_state (f n) = action_state n"
    and "\<And>n. length (node_children (f n)) \<le> length (node_children n) + k"
  shows "prepared (Some a) (b + k) (update_action a f g)"
  unfolding prepared_def dag_simps length_list_update
proof (intro conjI allI impI)
  fix i
  assume i: "i < length (action_nodes g)"
  then have old: "untouched (action_state (action_nodes g ! i))"
    "length (node_children (action_nodes g ! i)) \<le> b" "Some a \<noteq> Some i \<Longrightarrow> counted (action_nodes g ! i)"
    using assms(1) by (simp_all add: prepared_def)
  show "untouched (action_state ((action_nodes g)[a := f (action_nodes g ! a)] ! i))"
    using old(1) i by (simp add: nth_update assms(2))
  show "length (node_children ((action_nodes g)[a := f (action_nodes g ! a)] ! i)) \<le> b + k"
    using old(2) i assms(3) [of "action_nodes g ! i"] by (simp add: nth_update)
  show "counted ((action_nodes g)[a := f (action_nodes g ! a)] ! i)" if "Some a \<noteq> Some i"
    using old(3) that by simp
qed (use assms(1) in \<open>simp add: prepared_def\<close>)

lemma prepared_AddArtifact_node: "prepared a b g \<Longrightarrow> prepared a b (fst (AddArtifact_node g d))"
  by (cases rule: AddArtifact_node_cases [of g d])
    (auto simp: prepared_def ArtifactNode_Create_def)

lemma prepared_AddAction_node:
  "prepared None b g \<Longrightarrow> prepared (Some (snd (AddAction_node g d))) b (fst (AddAction_node g d))"
  by (cases rule: AddAction_node_cases [of g d])
    (auto simp: prepared_def nth_append ActionNode_Create_def new_action_state_def untouched_def)

lemma prepared_create_nodes:
  "prepared a b g \<Longrightarrow> create_nodes g pas = (g', nns) \<Longrightarrow> prepared a b g' \<and> length nns = length pas"
proof (induction pas arbitrary: g g' nns)
  case (Cons pa pas)
  obtain path d where pa: "pa = (path, d)" by fastforce
  obtain g1 rest where rest: "create_nodes (fst (AddArtifact_node g d)) pas = (g1, rest)" by fastforce
  have "prepared a b g1 \<and> length rest = length pas"
    by (rule Cons.IH [OF prepared_AddArtifact_node [OF Cons.prems(1)] rest])
  then show ?case using Cons.prems(2) rest by (auto simp: pa case_prod_unfold Let_def)
qed simp

lemma prepared_node_creator:
  "prepared a b g \<Longrightarrow> prepared a b (fst (node_creator ossl N g k ps))"
  unfolding node_creator_def using prepared_create_nodes [OF _ prod.collapse [symmetric]] by blast

lemma prepared_create_outputs:
  assumes "prepared a b g"
  shows "prepared a b (fst (CreateOutputArtifactNodes ossl N g k ps qs t ov))"
  using prepared_AddArtifact_node [OF assms]
    prepared_node_creator [OF prepared_node_creator [OF assms]]
  by (simp add: CreateOutputArtifactNodes_def case_prod_unfold Let_def)

lemma prepared_link_outputs:
  assumes "prepared (Some a) b g" "adds_output f"
  shows "prepared (Some a) b (fst (link_outputs f a nns g))"
  using assms(1)
proof (induction nns arbitrary: g)
  case (Cons named nns)
  let ?h = "\<lambda>_. fst (AddBuilderActionNode a (artifact_nodes g ! nn_node named))"
  have "\<forall>n \<in> set ((artifact_nodes g)[nn_node named := ?h ()]). artifact_state n = new_artifact_state"
  proof -
    have "artifact_state (fst (AddBuilderActionNode a n)) = artifact_state n" for n
      by (simp add: AddBuilderActionNode_def AddChild_def)
    then show ?thesis
      using artifact_states_update [of "artifact_nodes g" "\<lambda>n. fst (AddBuilderActionNode a n)"]
        Cons.prems unfolding prepared_def by blast
  qed
  then have g1: "prepared (Some a) b (update_artifact (nn_node named) ?h g)"
    using Cons.prems by (simp add: prepared_def dag_simps)
  have "action_state (f named n) = action_state n" "node_children (f named n) = node_children n" for n
    using assms(2) by (auto simp: adds_output_def dag_simps)
  then have "prepared (Some a) (b + 0) (update_action a (f named) (update_artifact (nn_node named) ?h g))"
    by (intro prepared_update_action [OF g1]) simp_all
  then show ?case using g1 Cons.IH by (simp add: case_prod_unfold Let_def)
qed simp

lemma prepared_link_inputs:
  "prepared (Some a) b g \<Longrightarrow> prepared (Some a) (b + length nns) (link_inputs a nns g)"
proof (induction nns arbitrary: b g)
  case (Cons named nns)
  have "prepared (Some a) b (update_artifact (nn_node named) (AddConsumerActionNode a) g)"
    by (rule prepared_update_artifact [OF Cons.prems]) (simp add: AddConsumerActionNode_def AddParent_def)
  then have "prepared (Some a) (b + 1) (update_action a (AddDependency named)
      (update_artifact (nn_node named) (AddConsumerActionNode a) g))"
    by (rule prepared_update_action) (simp_all add: dag_simps)
  then show ?case using Cons.IH by fastforce
qed simp

lemma prepared_done:
  assumes "prepared (Some a) b g"
  shows "prepared None b (update_action a NotifyDoneLinking g)"
  using assms
  by (auto simp: prepared_def dag_simps nth_update counted_def NotifyDoneLinking_def
      InitUnavailableDeps_def untouched_def)

lemma prepared_LinkNodePointers:
  assumes "prepared (Some a) b g" "snd (LinkNodePointers fs ds a ins g)"
  shows "prepared None (b + length ins) (fst (LinkNodePointers fs ds a ins g))"
  using prepared_done [OF prepared_link_inputs [OF prepared_link_outputs [OF prepared_link_outputs
        [OF assms(1) adds_output_members(1)] adds_output_members(2)]]] assms(2)
  by (auto simp: LinkNodePointers_def case_prod_unfold Let_def split: if_splits)

lemma prepared_AddAction:
  assumes "prepared None b g" "snd (AddAction ossl N g ad)"
  shows "prepared None (b + length (ad_inputs ad)) (fst (AddAction ossl N g ad))"
proof -
  let ?O = "CreateOutputArtifactNodes ossl N g (ad_id ad) (ad_output_files ad) (ad_output_dirs ad)
      (act_is_tree (ad_action ad)) (act_is_tree_overlay (ad_action ad))"
  obtain g1 fs ds where o': "?O = (g1, fs, ds)" by (metis prod.collapse)
  obtain g2 act where c: "CreateActionNode g1 (ad_action ad) = (g2, act)" by fastforce
  obtain G ins where i: "create_nodes g2 (map (\<lambda>(local_path, desc). (local_path, ToArtifact desc))
      (ad_inputs ad)) = (G, ins)" by fastforce
  have run: "AddAction ossl N g ad = (case act of
      Some a \<Rightarrow> if fs = [] \<and> ds = [] then (G, False) else LinkNodePointers fs ds a ins G
    | None \<Rightarrow> (G, False))"
    using o' c i by (auto simp: AddAction_def CreateInputArtifactNodes_def split: option.split)
  obtain a where a: "act = Some a" "AddAction ossl N g ad = LinkNodePointers fs ds a ins G"
    using run assms(2) by (auto split: option.splits if_splits)
  have "prepared None b g1" using prepared_create_outputs [OF assms(1)] o' by (metis fst_conv)
  then have "prepared (Some a) b g2"
    using prepared_AddAction_node [of b g1 "ad_action ad"] c a(1)
    by (auto simp: CreateActionNode_def case_prod_unfold Let_def split: if_splits)
  then have "prepared (Some a) b G" "length ins = length (ad_inputs ad)"
    using prepared_create_nodes [OF _ i] by auto
  then show ?thesis using prepared_LinkNodePointers [of a b G fs ds ins] assms(2) a(2) by simp
qed

lemma prepared_Add:
  "prepared None b g \<Longrightarrow> snd (Add ossl N g ads) \<Longrightarrow>
   prepared None (b + sum_list (map (\<lambda>ad. length (ad_inputs ad)) ads)) (fst (Add ossl N g ads))"
proof (induction ads arbitrary: b g)
  case (Cons ad ads)
  have "snd (AddAction ossl N g ad)" using Cons.prems(2) by (auto simp: case_prod_unfold Let_def split: if_splits)
  from prepared_AddAction [OF Cons.prems(1) this] show ?case
    using Cons.IH Cons.prems(2) by (fastforce simp: case_prod_unfold Let_def ac_simps split: if_splits)
qed simp

lemma prepared_traversable:
  assumes "dag_inv g" "prepared None b g" "b < 2 ^ 32"
  shows "traversable g"
proof -
  have "length (node_children (action_nodes g ! i)) < 2 ^ 32" if "i < length (action_nodes g)" for i
    using le_less_trans [OF _ assms(3)] assms(2) that by (simp add: prepared_def)
  then show ?thesis
    using assms(1,2)
    by (auto simp: traversable_def prepared_def counted_def untouched_def new_artifact_state_def
        in_set_conv_nth)
qed

end
