(* ===== verification/Jst_Traverser_Thms.thy ===== *)
theory Jst_Traverser_Thms
  imports Jst_Traverser_Live Jst_Traverser_Graph
begin

text \<open>
  The properties of the concurrent traversal, each with a complete run on a graph of one action
  as its witness.
\<close>

section \<open>A graph with one action\<close>

definition small_graph :: DependencyGraph where
  "small_graph =
     \<lparr>action_nodes =
        [\<lparr>node_content = mk_Action_short ''act'' [''cc''] [] [],
          node_parents = [1], node_children = [0],
          output_files = [\<lparr>nn_path = ''out'', nn_node = 1\<rparr>], output_dirs = [],
          dependencies = [\<lparr>nn_path = ''in'', nn_node = 0\<rparr>],
          action_state = InitUnavailableDeps 1 new_action_state\<rparr>],
      artifact_nodes =
        [\<lparr>node_content = mk_Artifact ''in'', node_parents = [0], node_children = [],
          artifact_state = new_artifact_state\<rparr>,
         \<lparr>node_content = mk_Artifact ''out'', node_parents = [], node_children = [0],
          artifact_state = new_artifact_state\<rparr>],
      action_ids = [''act'' \<mapsto> 0], artifact_ids = [''in'' \<mapsto> 0, ''out'' \<mapsto> 1]\<rparr>"

lemma small_graph_nodes:
  "length (action_nodes small_graph) = 1" "length (artifact_nodes small_graph) = 2"
  "node_parents (action_nodes small_graph ! 0) = [Suc 0]" "node_children (action_nodes small_graph ! 0) = [0]"
  "node_parents (artifact_nodes small_graph ! 0) = [0]" "node_children (artifact_nodes small_graph ! 0) = []"
  "node_parents (artifact_nodes small_graph ! Suc 0) = []" "node_children (artifact_nodes small_graph ! Suc 0) = [0]"
  "artifact_ids small_graph ''out'' = Some (Suc 0)"
  "BuilderActionNode (artifact_nodes small_graph ! 0) = None"
  "BuilderActionNode (artifact_nodes small_graph ! Suc 0) = Some 0"
  "action_state (action_nodes small_graph ! 0) = InitUnavailableDeps 1 new_action_state"
  "artifact_state (artifact_nodes small_graph ! 0) = new_artifact_state"
  "artifact_state (artifact_nodes small_graph ! Suc 0) = new_artifact_state"
  by (simp_all add: small_graph_def BuilderActionNode_def HasBuilderAction_def)

lemma small_graph_traversable: "traversable small_graph"
proof -
  have "id_table (artifact_ids small_graph) (artifact_names small_graph)"
    by (auto simp: id_table_def artifact_names_def small_graph_def mk_Artifact_def less_Suc_eq
        nth_Cons')
  moreover have "id_table (action_ids small_graph) (action_names small_graph)"
    by (auto simp: id_table_def action_names_def small_graph_def mk_Action_short_def mk_Action_def
        less_Suc_eq)
  moreover have "links_match small_graph"
    by (auto simp: links_match_def small_graph_nodes less_Suc_eq numeral_2_eq_2 all_conj_distrib)
  ultimately show ?thesis
    by (simp add: traversable_def dag_inv_def dag_links_def)
      (simp add: small_graph_def action_ok_def artifact_ok_def counter_ok_def InitUnavailableDeps_def
        new_action_state_def new_artifact_state_def)
qed

lemma small_graph_acyclic: "acyclic (artifact_deps small_graph)"
proof -
  have "artifact_deps small_graph = {(0, 1)}"
    by (auto simp: artifact_deps_def small_graph_nodes less_Suc_eq numeral_2_eq_2)
  then show ?thesis by (simp add: acyclic_insert) (simp add: acyclic_def)
qed

text \<open>A schedule, and the run that follows it.\<close>

datatype move = Caller bool | Worker nat bool | Take nat task

fun make_move :: "DependencyGraph \<Rightarrow> move \<Rightarrow> system \<Rightarrow> system option" where
  "make_move g (Caller ok) s =
     (case caller s of [] \<Rightarrow> None
      | i # is \<Rightarrow>
          (case exec g ok i (shared_state s) of
             (sh, new) \<Rightarrow> Some (s\<lparr>shared_state := sh, caller := new @ is\<rparr>)))"
| "make_move g (Worker w ok) s =
     (if w < length (workers s)
      then case workers s ! w of [] \<Rightarrow> None
           | i # is \<Rightarrow>
               (case exec g ok i (shared_state s) of
                  (sh, new) \<Rightarrow> Some (s\<lparr>shared_state := sh, workers := (workers s)[w := new @ is]\<rparr>))
      else None)"
| "make_move g (Take w t) s =
     (if w < length (workers s) \<and> workers s ! w = [] \<and> \<not> is_shutdown (shared_state s) \<and>
         t \<in># tasks (shared_state s)
      then Some (s\<lparr>shared_state := (shared_state s)\<lparr>tasks := tasks (shared_state s) - {#t#}\<rparr>,
                   workers := (workers s)[w := [task_body t]]\<rparr>)
      else None)"

fun moves :: "DependencyGraph \<Rightarrow> move list \<Rightarrow> system \<Rightarrow> system option" where
  "moves g [] s = Some s"
| "moves g (m # ms) s = (case make_move g m s of None \<Rightarrow> None | Some s' \<Rightarrow> moves g ms s')"

lemma move_tstep: "make_move g m s = Some s' \<Longrightarrow> tstep g s s'"
  by (cases m) (auto intro: tstep.intros split: list.splits if_splits prod.splits)

lemma moves_reachable:
  "moves g ms s = Some s' \<Longrightarrow> reachable g s0 s \<Longrightarrow> reachable g s0 s'"
  by (induction ms arbitrary: s) (auto split: option.splits dest: move_tstep reachable.steps)

definition small_schedule :: "move list" where
  "small_schedule =
     replicate 5 (Caller True) @
     Take 0 (TVisit (ArtN 1)) # replicate 5 (Worker 0 True) @
     Take 0 (TVisit (ActN 0)) # replicate 6 (Worker 0 True) @
     Take 0 (TVisit (ArtN 0)) # replicate 6 (Worker 0 True) @
     Take 0 (TProcess (ArtN 0)) # replicate 7 (Worker 0 True) @
     Take 0 (TProcess (ActN 0)) # replicate 2 (Worker 0 True)"

lemma small_initial:
  "\<not> get_discovered (initial_shared small_graph) (ArtN 0)"
  "\<not> get_discovered (initial_shared small_graph) (ArtN (Suc 0))"
  "\<not> get_discovered (initial_shared small_graph) (ActN 0)"
  "\<not> get_queued (initial_shared small_graph) (ArtN 0)"
  "\<not> get_queued (initial_shared small_graph) (ActN 0)"
  "\<not> is_available (st_artifact (initial_shared small_graph) 0)"
  "\<not> is_available (st_artifact (initial_shared small_graph) (Suc 0))"
  "unavailable_deps (st_action (initial_shared small_graph) 0) = 1"
  "tasks (initial_shared small_graph) = {#}" "\<not> failed (initial_shared small_graph)"
  "\<not> is_shutdown (initial_shared small_graph)" "processed (initial_shared small_graph) = []"
  "succeeded (initial_shared small_graph) = []"
  by (simp_all add: initial_shared_def get_discovered.simps get_queued.simps small_graph_nodes
      InitUnavailableDeps_def new_action_state_def new_artifact_state_def)

lemma small_run:
  "\<exists>s. moves small_graph small_schedule (Traverser small_graph 1 [''out'']) = Some s \<and>
     caller s = [] \<and> workers s = [[]] \<and> tasks (shared_state s) = {#} \<and> \<not> failed (shared_state s) \<and>
     processed (shared_state s) = [ArtN 0, ActN 0]"
  by (simp add: small_schedule_def numeral_eq_Suc Traverser_def small_graph_nodes small_initial IsReady_def)

lemma small_end:
  "\<exists>s. reachable small_graph (Traverser small_graph 1 [''out'']) s \<and> finished small_graph s \<and>
     \<not> failed (shared_state s) \<and> processed (shared_state s) = [ArtN 0, ActN 0]"
proof -
  obtain s where s: "moves small_graph small_schedule (Traverser small_graph 1 [''out'']) = Some s"
    "caller s = []" "workers s = [[]]" "tasks (shared_state s) = {#}" "\<not> failed (shared_state s)"
    "processed (shared_state s) = [ArtN 0, ActN 0]"
    using small_run by blast
  then have "finished small_graph s" by (auto simp: finished_def elim!: tstep.cases)
  then show ?thesis using s moves_reachable [OF s(1) reachable.start] by blast
qed

section \<open>The properties\<close>

text \<open>
  C4: Whatever the order in which threads run and tasks are taken, the runner is called at
  most once for a node, an action only after what makes each of its inputs, and an artifact only
  where no action builds it.
\<close>

theorem processed_once_in_order:
  assumes "traversable g" "reachable g (Traverser g jobs ids) s"
  shows "distinct (processed (shared_state s)) \<and> inputs_first g (processed (shared_state s)) \<and>
    (\<forall>r. ArtN r \<in> set (processed (shared_state s)) \<longrightarrow> BuilderActionNode (artifact_nodes g ! r) = None)"
proof -
  have "safe g ids (work_of s)" by (rule reachable_safe [OF assms])
  then have inv: "all_valid g (work_of s)" "once g (work_of s)" "just_inv g (work_of s)"
    "inputs_first g (processed (shared_state s))"
    unfolding safe_def work_reads by blast+
  have valid: "valid g n" if "n \<in> set (processed (shared_state s))" for n
    using inv(1) that by (simp add: all_valid_def work_reads)
  have counts: "count_list (processed (shared_state s)) n \<le> of_bool (get_queued (fst (work_of s)) n)"
    if "valid g n" for n
    using inv(2) that unfolding once_def work_reads by (metis le_add2)
  have "distinct (processed (shared_state s))"
    unfolding distinct_count_atmost_1
  proof (intro allI)
    fix n
    show "count (mset (processed (shared_state s))) n =
        (if n \<in> set (processed (shared_state s)) then 1 else 0)"
      using counts [OF valid, of n] by (auto simp: count_mset_0_iff of_bool_def Suc_le_eq
          simp flip: count_mset split: if_splits intro!: antisym)
  qed
  moreover have "BuilderActionNode (artifact_nodes g ! r) = None"
    if r: "ArtN r \<in> set (processed (shared_state s))" for r
  proof -
    have "0 < count_list (processed (shared_state s)) (ArtN r)"
      using r by (metis count_list_0_iff gr0I)
    then have "get_queued (fst (work_of s)) (ArtN r)"
      using counts [OF valid [OF r]] by (auto simp: of_bool_def split: if_splits)
    then have "justified g (fst (work_of s)) (ArtN r)"
      using inv(3) valid [OF r] unfolding just_inv_def by blast
    then show ?thesis by simp
  qed
  ultimately show ?thesis using inv(4) by blast
qed

theorem processed_once_in_order_witness:
  "\<exists>s. reachable small_graph (Traverser small_graph 1 [''out'']) s \<and>
     processed (shared_state s) = [ArtN 0, ActN 0] \<and> distinct (processed (shared_state s))"
  using small_end processed_once_in_order [OF small_graph_traversable] by blast

text \<open>
  C22: When a thread is about to run an action, all inputs of the action are available, and the
  runner has succeeded on what makes them.
\<close>

theorem inputs_available_when_run:
  assumes "traversable g" "reachable g (Traverser g jobs ids) s"
    and "program \<in> set (caller s # workers s)" "IProcess (ActN a) \<in> set program"
    and "r \<in> set (node_children (action_nodes g ! a))"
  shows "is_available (st_artifact (shared_state s) r) \<and> producer g r \<in> set (succeeded (shared_state s))"
proof -
  have "safe g ids (work_of s)" by (rule reachable_safe [OF assms(1,2)])
  then have inv: "all_valid g (work_of s)" "once g (work_of s)" "just_inv g (work_of s)"
    "succeeded_processed (work_of s)" "avail_inv g (work_of s)"
    unfolding safe_def by blast+
  have run: "IProcess (ActN a) \<in># snd (work_of s)"
    using assms(3,4) by (auto simp: work_def pool_def)
  then have a: "valid g (ActN a)" using inv(1) by (fastforce simp: all_valid_def)
  have ready: "justified g (fst (work_of s)) (ActN a)"
    by (rule running_justified [OF inv(2,3) run a])
  then have "is_available (st_artifact (fst (work_of s)) r)" using assms(5) by simp
  moreover have "producer g r \<in> set (succeeded (fst (work_of s)))"
    using justified_producers(1) [OF traversable_links [OF assms(1)] inv(4,5) ready _ assms(5)] a by simp
  ultimately show ?thesis by (simp add: work_reads)
qed

lemma small_ready:
  "\<exists>s. moves small_graph (take 34 small_schedule) (Traverser small_graph 1 [''out'']) = Some s \<and>
     workers s = [[IProcess (ActN 0)]]"
  by (simp add: small_schedule_def numeral_eq_Suc Traverser_def small_graph_nodes small_initial IsReady_def)

theorem inputs_available_when_run_witness:
  "\<exists>s. reachable small_graph (Traverser small_graph 1 [''out'']) s \<and>
     workers s = [[IProcess (ActN 0)]] \<and> is_available (st_artifact (shared_state s) 0)"
proof -
  obtain s where s: "moves small_graph (take 34 small_schedule) (Traverser small_graph 1 [''out'']) = Some s"
    "workers s = [[IProcess (ActN 0)]]"
    using small_ready by blast
  have reach: "reachable small_graph (Traverser small_graph 1 [''out'']) s"
    by (rule moves_reachable [OF s(1) reachable.start])
  have "is_available (st_artifact (shared_state s) 0)"
    using inputs_available_when_run [OF small_graph_traversable reach, of "[IProcess (ActN 0)]" 0 0] s(2)
    by (simp add: small_graph_nodes)
  then show ?thesis using reach s(2) by blast
qed

text \<open>C23: Nothing is run that no target needs.\<close>

theorem only_needed_is_run:
  assumes "traversable g" "reachable g (Traverser g jobs ids) s" "n \<in> set (processed (shared_state s))"
  shows "needed g ids n"
proof -
  have "safe g ids (work_of s)" by (rule reachable_safe [OF assms(1,2)])
  then have inv: "all_valid g (work_of s)" "once g (work_of s)" "req_inv g (work_of s)"
    "need_inv g ids (work_of s)"
    unfolding safe_def by blast+
  have n: "valid g n" using inv(1) assms(3) by (simp add: all_valid_def work_reads)
  have "0 < count_list (processed (fst (work_of s))) n"
    using assms(3) by (metis count_list_0_iff gr0I work_reads(4))
  then have "get_queued (fst (work_of s)) n"
    using inv(2) n by (cases "get_queued (fst (work_of s)) n") (auto simp: once_def)
  then have "get_required (fst (work_of s)) n" using inv(3) n by (simp add: req_inv_def)
  then show ?thesis using inv(4) n by (simp add: need_inv_def)
qed

theorem only_needed_is_run_witness: "needed small_graph [''out''] (ActN 0)"
  using small_end only_needed_is_run [OF small_graph_traversable, of 1 "[''out'']" _ "ActN 0"] by auto

text \<open>C24: Every run of a traversal ends, whatever the schedule and the answers of the runner.\<close>

theorem traversal_ends:
  assumes "traversable g"
  shows "wf {(s', s). reachable g (Traverser g jobs ids) s \<and> tstep g s s'}"
  by (rule wf_subset [OF wf_measure [of "\<lambda>s. total_cost g (pool s)"]])
    (auto intro: tstep_cost [OF assms])

theorem traversal_ends_witness:
  "wf {(s', s). reachable small_graph (Traverser small_graph 4 [''out'']) s \<and> tstep small_graph s s'}"
  by (rule traversal_ends [OF small_graph_traversable])



text \<open>
  C25: At the end of a traversal the failure flag tells whether a call of the runner failed or
  a target was not in the graph.
\<close>

theorem failure_flag:
  assumes "traversable g" "reachable g (Traverser g jobs ids) s" "finished g s"
  shows "failed (shared_state s) \<longleftrightarrow>
    length (succeeded (shared_state s)) < length (processed (shared_state s)) \<or>
    \<not> Traverse_result g ids"
proof (cases "failed (shared_state s)")
  case True
  have "fail_inv g ids (work_of s)"
    using reachable_healthy [OF assms(1,2)] unfolding healthy_def by blast
  then show ?thesis using True by (simp add: fail_inv_def work_reads)
next
  case False
  note quiet = finished_quiet [OF assms False]
  have "Traverse_result g ids" using quiet(2) by (auto simp: Traverse_result_iff live_def)
  then show ?thesis using False quiet(4) by simp
qed

theorem failure_flag_witness:
  "\<exists>s. reachable small_graph (Traverser small_graph 1 [''out'']) s \<and> finished small_graph s \<and>
     \<not> length (succeeded (shared_state s)) < length (processed (shared_state s))"
  using small_end failure_flag [OF small_graph_traversable] by blast

section \<open>The graphs of a build\<close>

lemma Add_inv: "dag_inv g \<Longrightarrow> dag_inv (fst (Add ossl N g ads))"
  by (induction ads arbitrary: g) (auto simp: AddAction_outcome case_prod_unfold Let_def)



end
