(* ===== verification/Jst_LinkedMap.thy ===== *)
theory Jst_LinkedMap
  imports Jst_Json_Props
begin

text \<open>
  Linked maps: \<^verbatim>\<open>src/src/buildtool/build_engine/expression/linked_map.hpp\<close>. A map shadows the
  map it points to as \<open>lm_next\<close>; its own entries are those of another map, \<open>lm_content\<close>, if that
  pointer is set, and the entries of a \<^verbatim>\<open>std::map\<close>, an association list in key order, otherwise.
  A null pointer is \<open>None\<close>; the constructors are only called with pointers to maps. The sorted
  items are computed once and kept, which has no effect on the results. The abstract map is
  \<open>Find\<close>: the items are that map in key order, and what the other members compute is stated
  by it.
\<close>

section \<open>The data structure\<close>

datatype 'v linked_map =
  LinkedMap (lm_next: "'v linked_map option") (lm_content: "'v linked_map option")
    (lm_map: "(string \<times> 'v) list")

definition LinkedMap_of :: "(string \<times> 'v) list \<Rightarrow> 'v linked_map" where
  "LinkedMap_of kvs = LinkedMap None None kvs"

definition LinkedMap_single :: "string \<Rightarrow> 'v \<Rightarrow> 'v linked_map" where
  "LinkedMap_single key val = LinkedMap None None [(key, val)]"

definition LinkedMap_link :: "'v linked_map \<Rightarrow> 'v linked_map \<Rightarrow> 'v linked_map" where
  "LinkedMap_link next_map content_map = LinkedMap (Some next_map) (Some content_map) []"

definition LinkedMap_shadow :: "'v linked_map \<Rightarrow> (string \<times> 'v) list \<Rightarrow> 'v linked_map" where
  "LinkedMap_shadow next_map kvs = LinkedMap (Some next_map) None kvs"

fun lm_empty :: "'v linked_map \<Rightarrow> bool" where
  "lm_empty (LinkedMap n c m) \<longleftrightarrow>
     (case c of Some content \<Rightarrow> lm_empty content | None \<Rightarrow> m = []) \<and>
     (case n of Some nm \<Rightarrow> lm_empty nm | None \<Rightarrow> True)"

fun Find :: "'v linked_map \<Rightarrow> string \<Rightarrow> 'v option" where
  "Find (LinkedMap n c m) key =
     (case (case c of Some content \<Rightarrow> Find content key | None \<Rightarrow> map_of m key) of
        Some val \<Rightarrow> Some val
      | None \<Rightarrow> (case n of Some nm \<Rightarrow> Find nm key | None \<Rightarrow> None))"

definition lm_contains :: "'v linked_map \<Rightarrow> string \<Rightarrow> bool" where
  "lm_contains m key \<longleftrightarrow> Find m key \<noteq> None"

text \<open>The loop over the sorted items of the map and of the shadowed one.\<close>

fun merge_items :: "(string \<times> 'v) list \<Rightarrow> (string \<times> 'v) list \<Rightarrow> (string \<times> 'v) list" where
  "merge_items [] ns = ns"
| "merge_items cs [] = cs"
| "merge_items (c # cs) (n # ns) =
     (if fst c = fst n then c # merge_items cs ns
      else if fst c < fst n then c # merge_items cs (n # ns)
      else n # merge_items (c # cs) ns)"

fun Items :: "'v linked_map \<Rightarrow> (string \<times> 'v) list" where
  "Items (LinkedMap n c m) =
     merge_items (case c of Some content \<Rightarrow> Items content | None \<Rightarrow> m)
       (case n of Some nm \<Rightarrow> Items nm | None \<Rightarrow> [])"

definition lm_size :: "'v linked_map \<Rightarrow> nat" where
  "lm_size m = length (Items m)"

definition lm_keys :: "'v linked_map \<Rightarrow> string list" where
  "lm_keys m = map fst (Items m)"

definition lm_values :: "'v linked_map \<Rightarrow> 'v list" where
  "lm_values m = map snd (Items m)"

text \<open>The comparison of values is a parameter, \<^verbatim>\<open>operator==\<close> of the value type.\<close>

fun conflict :: "('v \<Rightarrow> 'v \<Rightarrow> bool) \<Rightarrow> (string \<times> 'v) list \<Rightarrow> (string \<times> 'v) list \<Rightarrow> string option" where
  "conflict eq [] they = None"
| "conflict eq me [] = None"
| "conflict eq (m # me) (t # they) =
     (if fst m = fst t
      then if \<not> eq (snd m) (snd t) then Some (fst m) else conflict eq me they
      else if fst m < fst t then conflict eq me (t # they)
      else conflict eq (m # me) they)"

definition FindConflictingDuplicate ::
  "('v \<Rightarrow> 'v \<Rightarrow> bool) \<Rightarrow> 'v linked_map \<Rightarrow> 'v linked_map \<Rightarrow> string option" where
  "FindConflictingDuplicate eq m other = conflict eq (Items m) (Items other)"

section \<open>The abstract map\<close>

text \<open>All \<^verbatim>\<open>std::map\<close>s inside are in key order.\<close>

fun lm_ok :: "'v linked_map \<Rightarrow> bool" where
  "lm_ok (LinkedMap n c m) \<longleftrightarrow>
     ordered_keys m \<and> (case c of Some content \<Rightarrow> lm_ok content | None \<Rightarrow> True) \<and>
     (case n of Some nm \<Rightarrow> lm_ok nm | None \<Rightarrow> True)"

lemma ordered_keys_Cons:
  fixes x :: "string \<times> 'a"
  shows "ordered_keys (x # xs) \<longleftrightarrow> (\<forall>k \<in> fst ` set xs. fst x < k) \<and> ordered_keys xs"
  by (auto simp: ordered_keys_def order.strict_iff_order)

lemma map_of_above: "\<forall>k' \<in> fst ` set kvs. k < k' \<Longrightarrow> map_of kvs (k :: string) = None"
  by (auto simp: map_of_eq_None_iff)

lemma keys_merge_items: "fst ` set (merge_items cs ns) = fst ` set cs \<union> fst ` set ns"
  by (induction cs ns rule: merge_items.induct) auto

lemma ordered_merge_items:
  "ordered_keys cs \<Longrightarrow> ordered_keys ns \<Longrightarrow> ordered_keys (merge_items cs ns)"
proof (induction cs ns rule: merge_items.induct)
  case (3 c cs n ns)
  then show ?case
    using keys_merge_items [of cs ns] keys_merge_items [of cs "n # ns"]
      keys_merge_items [of "c # cs" ns]
    by (auto simp: ordered_keys_Cons not_less_iff_gr_or_eq)
qed simp_all

lemma map_of_merge_items:
  "ordered_keys cs \<Longrightarrow> ordered_keys ns \<Longrightarrow> map_of (merge_items cs ns) = map_of ns ++ map_of cs"
proof (induction cs ns rule: merge_items.induct)
  case (3 c cs n ns)
  have "map_of cs (fst n) = None" if "fst n < fst c"
    using "3.prems"(1) that by (intro map_of_above) (auto simp: ordered_keys_Cons intro: order.strict_trans)
  then show ?case
    using 3 map_of_above [of ns "fst n"] map_of_above [of cs "fst c"]
    by (auto simp: ordered_keys_Cons fun_eq_iff map_add_def split: option.splits)
qed simp_all

lemma items_ordered: "lm_ok m \<Longrightarrow> ordered_keys (Items m)"
  by (induction m rule: Items.induct)
    (auto intro!: ordered_merge_items simp: ordered_keys_def [of "[]"] split: option.splits)

lemma Find_Items: "lm_ok m \<Longrightarrow> map_of (Items m) = Find m"
proof (induction m rule: Items.induct)
  case (1 n c m)
  let ?cs = "case c of Some content \<Rightarrow> Items content | None \<Rightarrow> m"
  let ?ns = "case n of Some nm \<Rightarrow> Items nm | None \<Rightarrow> []"
  have "ordered_keys ?cs" "ordered_keys ?ns"
    using "1.prems" items_ordered by (auto simp: ordered_keys_def [of "[]"] split: option.splits)
  then have "map_of (Items (LinkedMap n c m)) = map_of ?ns ++ map_of ?cs"
    by (simp add: map_of_merge_items)
  moreover have "map_of ?cs = (case c of Some content \<Rightarrow> Find content | None \<Rightarrow> map_of m)"
    "map_of ?ns = (case n of Some nm \<Rightarrow> Find nm | None \<Rightarrow> Map.empty)"
    using 1 by (auto split: option.splits)
  ultimately show ?case
    by (auto simp: fun_eq_iff map_add_def split: option.splits)
qed

lemma ordered_keys_unique:
  assumes "ordered_keys kvs" "ordered_keys kvs'" "map_of kvs = map_of kvs'"
  shows "kvs = kvs'"
proof -
  have keys: "map fst kvs = map fst kvs'"
  proof (rule sorted_distinct_set_unique)
    have "set (map fst kvs) = dom (map_of kvs)" "set (map fst kvs') = dom (map_of kvs')"
      by (simp_all add: dom_map_of_conv_image_fst)
    then show "set (map fst kvs) = set (map fst kvs')" using assms(3) by simp
  qed (use assms(1,2) in \<open>simp_all add: ordered_keys_def\<close>)
  have "map_of kvs (fst (kvs ! i)) = Some (snd (kvs ! i))"
    "map_of kvs' (fst (kvs' ! i)) = Some (snd (kvs' ! i))" if "i < length kvs" "length kvs = length kvs'" for i
    using that assms(1,2) by (auto simp: ordered_keys_def)
  show ?thesis
  proof (rule nth_equalityI)
    show len: "length kvs = length kvs'" using keys by (metis length_map)
    fix i
    assume i: "i < length kvs"
    have "fst (kvs ! i) = fst (kvs' ! i)" using keys i len by (metis nth_map)
    moreover have "map_of kvs (fst (kvs ! i)) = Some (snd (kvs ! i))"
      using i assms(1) by (simp add: ordered_keys_def)
    moreover have "map_of kvs' (fst (kvs' ! i)) = Some (snd (kvs' ! i))"
      using i len assms(2) by (simp add: ordered_keys_def)
    ultimately show "kvs ! i = kvs' ! i" using assms(3) by (simp add: prod_eq_iff)
  qed
qed

lemma items_eq_iff: "lm_ok m \<Longrightarrow> lm_ok m' \<Longrightarrow> Items m = Items m' \<longleftrightarrow> Find m = Find m'"
  using Find_Items items_ordered ordered_keys_unique by metis

lemma Find_link: "Find (LinkedMap_link n c) = Find n ++ Find c"
  by (auto simp: LinkedMap_link_def fun_eq_iff map_add_def split: option.splits)

lemma Find_shadow: "Find (LinkedMap_shadow n kvs) = Find n ++ map_of kvs"
  by (auto simp: LinkedMap_shadow_def fun_eq_iff map_add_def split: option.splits)

lemma Find_of: "Find (LinkedMap_of kvs) = map_of kvs"
  by (auto simp: LinkedMap_of_def fun_eq_iff split: option.splits)

lemma lm_empty_iff: "lm_empty m \<longleftrightarrow> Find m = Map.empty"
proof (induction m rule: lm_empty.induct)
  case (1 n c m)
  have "m = [] \<longleftrightarrow> map_of m = Map.empty" by (cases m) (auto simp: fun_eq_iff)
  then show ?case using 1 by (auto simp: fun_eq_iff split: option.splits)
qed

lemma lm_ok_constructed:
  "ordered_keys kvs \<Longrightarrow> lm_ok (LinkedMap_of kvs)" "lm_ok (LinkedMap_single k v)"
  "lm_ok n \<Longrightarrow> lm_ok c \<Longrightarrow> lm_ok (LinkedMap_link n c)"
  "lm_ok n \<Longrightarrow> ordered_keys kvs \<Longrightarrow> lm_ok (LinkedMap_shadow n kvs)"
  by (simp_all add: LinkedMap_of_def LinkedMap_single_def LinkedMap_link_def LinkedMap_shadow_def
      ordered_keys_def)

definition agree :: "('v \<Rightarrow> 'v \<Rightarrow> bool) \<Rightarrow> (string \<Rightarrow> 'v option) \<Rightarrow> (string \<Rightarrow> 'v option) \<Rightarrow> string \<Rightarrow> bool" where
  "agree eq f g k \<longleftrightarrow> (\<forall>a b. f k = Some a \<longrightarrow> g k = Some b \<longrightarrow> eq a b)"

lemma conflict_agree:
  assumes "ordered_keys me" "ordered_keys they"
  shows "(conflict eq me they = None \<longleftrightarrow> (\<forall>k. agree eq (map_of me) (map_of they) k)) \<and>
    (\<forall>k. conflict eq me they = Some k \<longrightarrow> \<not> agree eq (map_of me) (map_of they) k)"
  using assms
proof (induction eq me they rule: conflict.induct)
  case (3 eq m me t they)
  have above: "map_of me (fst m) = None" "map_of they (fst t) = None"
    using "3.prems" by (simp_all add: ordered_keys_Cons map_of_above)
  have tails: "ordered_keys me" "ordered_keys they" using "3.prems" by (simp_all add: ordered_keys_Cons)
  have first: "map_of (m # me) = (map_of me)(fst m \<mapsto> snd m)" "map_of (t # they) = (map_of they)(fst t \<mapsto> snd t)"
    by (cases m, simp, cases t, simp)
  consider "fst m = fst t" | "fst m < fst t" | "fst t < fst m" by fastforce
  then show ?case
  proof cases
    case 1
    have *: "agree eq (map_of (m # me)) (map_of (t # they)) =
        (\<lambda>k. if k = fst t then eq (snd m) (snd t) else agree eq (map_of me) (map_of they) k)"
      unfolding first agree_def 1 by (simp add: fun_eq_iff)
    have at: "agree eq (map_of me) (map_of they) (fst t)" using above(2) by (simp add: agree_def)
    show ?thesis
    proof (cases "eq (snd m) (snd t)")
      case True
      then have same: "agree eq (map_of (m # me)) (map_of (t # they)) = agree eq (map_of me) (map_of they)"
        unfolding * using at by (auto simp: fun_eq_iff)
      have "conflict eq (m # me) (t # they) = conflict eq me they" using 1 True by simp
      then show ?thesis unfolding same using "3.IH"(1) [OF 1 _ tails] True by simp
    qed (unfold *, use 1 in auto)
  next
    case 2
    then have "map_of (t # they) (fst m) = None"
      using "3.prems"(2) by (intro map_of_above) (auto simp: ordered_keys_Cons intro: order.strict_trans)
    then have same: "agree eq (map_of (m # me)) (map_of (t # they)) = agree eq (map_of me) (map_of (t # they))"
      using above(1) unfolding first(1) by (auto simp: agree_def fun_eq_iff)
    have "conflict eq (m # me) (t # they) = conflict eq me (t # they)" "fst m \<noteq> fst t"
      using 2 by auto
    then show ?thesis unfolding same using "3.IH"(2) [OF _ 2 tails(1) "3.prems"(2)] by metis
  next
    case gt: 3
    then have "map_of (m # me) (fst t) = None"
      using "3.prems"(1) by (intro map_of_above) (auto simp: ordered_keys_Cons intro: order.strict_trans)
    then have same: "agree eq (map_of (m # me)) (map_of (t # they)) = agree eq (map_of (m # me)) (map_of they)"
      using above(2) unfolding first(2) by (auto simp: agree_def fun_eq_iff)
    have "conflict eq (m # me) (t # they) = conflict eq (m # me) they" "fst m \<noteq> fst t" "\<not> fst m < fst t"
      using gt by auto
    then show ?thesis unfolding same using "3.IH"(3) [OF _ _ "3.prems"(1) tails(2)] by metis
  qed
qed (auto simp: agree_def)

lemma FindConflictingDuplicate_agree:
  assumes "lm_ok m" "lm_ok other"
  shows "FindConflictingDuplicate eq m other = None \<longleftrightarrow> (\<forall>k. agree eq (Find m) (Find other) k)"
    and "FindConflictingDuplicate eq m other = Some k \<Longrightarrow> \<not> agree eq (Find m) (Find other) k"
  using conflict_agree [OF items_ordered [OF assms(1)] items_ordered [OF assms(2)], of eq] assms
  by (simp_all add: FindConflictingDuplicate_def Find_Items)

end
