(* ===== verification/Jst_Expression.thy ===== *)
theory Jst_Expression
  imports Jst_LinkedMap Jst_Artifact
begin

text \<open>
  Values and terms of the expression language:
  \<^verbatim>\<open>src/src/buildtool/build_engine/expression/{expression,expression_ptr,configuration,target_node,target_result}\<close>
  and the names of \<^verbatim>\<open>base_maps/entity_name_data.hpp\<close>. A pointer to an expression is the
  expression; the null pointer, which only stands for a failed evaluation, does not occur inside.
  Two expressions are equal if their hashes are, which are computed by OpenSSL over what the JSON
  library prints; where that library throws inside a function that is declared not to throw, the
  program is terminated. The caches for hashes and cacheability have no effect on results. The
  shortcut for the comparison of a pointer with itself is left out: it differs only where the hash
  of the value would terminate the program.
\<close>

section \<open>Expressions\<close>

datatype ReferenceType = kTarget | kFile | kTree | kGlob | kSymlink

datatype expr =
    ENone
  | EBool bool
  | ENumber double_bits
  | EString string
  | EName entity_name
  | EArtifact ArtifactDescription
  | EResult (artifact_stage: expr) (provides: expr) (runfiles: expr) (result_is_cacheable: bool)
  | ENode target_node
  | EList "expr list"
  | EMap "expr linked_map"
and entity_name =
    NamedTarget string string string ReferenceType
  | AnonymousTarget expr expr
and target_node =
    ValueNode expr
  | AbstractNode string expr expr

text \<open>
  The ways to fail: the evaluator's own exception with its message, flags and objects, any
  other exception with its message, the termination of the program, and the bound of the model.
\<close>

datatype exn =
    EvaluationError string bool bool "expr list"
  | StdException string
  | Terminate
  | OutOfFuel

type_synonym 'a result = "exn + 'a"

text \<open>A handler for each of the two kinds of exceptions; the others are not caught.\<close>

fun try_catch ::
  "'a result \<Rightarrow> (string \<Rightarrow> bool \<Rightarrow> bool \<Rightarrow> expr list \<Rightarrow> 'a result) \<Rightarrow> (string \<Rightarrow> 'a result) \<Rightarrow> 'a result" where
  "try_catch (Inl (EvaluationError msg while_eval user objs)) on_eval on_std = on_eval msg while_eval user objs"
| "try_catch (Inl (StdException what)) on_eval on_std = on_std what"
| "try_catch r on_eval on_std = r"

fun mapE :: "('a \<Rightarrow> 'e + 'b) \<Rightarrow> 'a list \<Rightarrow> 'e + 'b list" where
  "mapE f [] = Inr []"
| "mapE f (x # xs) = bindE (f x) (\<lambda>y. bindE (mapE f xs) (\<lambda>ys. Inr (y # ys)))"

lemma bindE_cong [fundef_cong]:
  "m = m' \<Longrightarrow> (\<And>x. m' = Inr x \<Longrightarrow> f x = f' x) \<Longrightarrow> bindE m f = bindE m' f'"
  by (cases m') (auto simp: bindE_def)

lemma mapE_cong [fundef_cong]:
  "xs = ys \<Longrightarrow> (\<And>x. x \<in> set ys \<Longrightarrow> f x = g x) \<Longrightarrow> mapE f xs = mapE g ys"
  by (induction ys arbitrary: xs) auto

text \<open>The parts of the environment that the source does not contain.\<close>

record eval_lib =
  lib_json :: nlohmann
  lib_openssl :: openssl
  expression_log_limit :: nat
  lround_outside :: "double_bits \<Rightarrow> 64 word"

section \<open>Access\<close>

fun TypeString :: "expr \<Rightarrow> string" where
  "TypeString ENone = ''none''"
| "TypeString (EBool _) = ''bool''"
| "TypeString (ENumber _) = ''number''"
| "TypeString (EString _) = ''string''"
| "TypeString (EName _) = ''name''"
| "TypeString (EArtifact _) = ''artifact''"
| "TypeString (EResult _ _ _ _) = ''result''"
| "TypeString (ENode _) = ''node''"
| "TypeString (EList _) = ''list''"
| "TypeString (EMap _) = ''map''"

definition quoted :: "string \<Rightarrow> string" where
  "quoted s = [CHR 0x27] @ s @ [CHR 0x27]"

definition ExpressionTypeError :: "string \<Rightarrow> exn" where
  "ExpressionTypeError msg = StdException (''ExpressionTypeError: '' @ msg)"

definition cast_error :: "string \<Rightarrow> expr \<Rightarrow> 'a result" where
  "cast_error expected e =
     Inl (ExpressionTypeError
       (''Expression is not of type '' @ quoted expected @ '' but '' @ quoted (TypeString e) @ ''.''))"

definition as_string :: "expr \<Rightarrow> string result" where
  "as_string e = (case e of EString s \<Rightarrow> Inr s | _ \<Rightarrow> cast_error ''string'' e)"

definition as_list :: "expr \<Rightarrow> expr list result" where
  "as_list e = (case e of EList es \<Rightarrow> Inr es | _ \<Rightarrow> cast_error ''list'' e)"

definition as_map :: "expr \<Rightarrow> expr linked_map result" where
  "as_map e = (case e of EMap m \<Rightarrow> Inr m | _ \<Rightarrow> cast_error ''map'' e)"

definition is_list :: "expr \<Rightarrow> bool" where
  "is_list e = (case e of EList _ \<Rightarrow> True | _ \<Rightarrow> False)"

definition is_map :: "expr \<Rightarrow> bool" where
  "is_map e = (case e of EMap _ \<Rightarrow> True | _ \<Rightarrow> False)"

definition is_string :: "expr \<Rightarrow> bool" where
  "is_string e = (case e of EString _ \<Rightarrow> True | _ \<Rightarrow> False)"

definition At :: "expr \<Rightarrow> string \<Rightarrow> expr option result" where
  "At e key = bindE (as_map e) (\<lambda>m. Inr (Find m key))"

definition Get :: "expr \<Rightarrow> string \<Rightarrow> expr \<Rightarrow> expr result" where
  "Get e key default_value =
     bindE (At e key) (\<lambda>val. Inr (case val of Some v \<Rightarrow> v | None \<Rightarrow> default_value))"

text \<open>The index operator for keys.\<close>

definition at_key :: "expr \<Rightarrow> string \<Rightarrow> expr result" where
  "at_key e key =
     bindE (as_map e) (\<lambda>m.
       case Find m key of
         Some v \<Rightarrow> Inr v
       | None \<Rightarrow> Inl (ExpressionTypeError (''Map does not contain key '' @ quoted key @ ''.'')))"

text \<open>The index operator for positions.\<close>

definition at_pos :: "expr \<Rightarrow> nat \<Rightarrow> expr result" where
  "at_pos e pos =
     bindE (as_list e) (\<lambda>es.
       if pos < length es then Inr (es ! pos)
       else Inl (ExpressionTypeError (''List pos '' @ quoted (to_string_nat pos) @ '' is out of bounds.'')))"

definition kEmptyMap :: expr where "kEmptyMap = EMap (LinkedMap_of [])"
definition kEmptyList :: expr where "kEmptyList = EList []"
definition kEmptyMapExpr :: expr where
  "kEmptyMapExpr = EMap (LinkedMap_of [(''type'', EString ''empty_map'')])"

section \<open>Sizes of subexpressions\<close>

lemma size_list_member: "x \<in> set xs \<Longrightarrow> f x < size_list f xs"
  by (induction xs) auto

lemma snds_eq [simp]: "Basic_BNFs.snds p = {snd p}"
  by (auto elim: snds.cases intro: snds.intros)

lemma set_linked_map_simp:
  "set_linked_map (LinkedMap n c kvs) =
     (case n of None \<Rightarrow> {} | Some m \<Rightarrow> set_linked_map m) \<union>
     (case c of None \<Rightarrow> {} | Some m \<Rightarrow> set_linked_map m) \<union> snd ` set kvs"
  by (auto split: option.splits)

lemma size_linked_map_member: "v \<in> set_linked_map m \<Longrightarrow> f v < size_linked_map f m"
proof (induction m)
  case (LinkedMap n c kvs)
  consider n' where "n = Some n'" "v \<in> set_linked_map n'" | c' where "c = Some c'" "v \<in> set_linked_map c'"
    | k where "(k, v) \<in> set kvs"
    using LinkedMap.prems by (auto simp: set_linked_map_simp split: option.splits)
  then show ?case
  proof cases
    case 1
    then have "f v < size_linked_map f n'" using LinkedMap.IH(1) by simp
    then show ?thesis using 1 by simp
  next
    case 2
    then have "f v < size_linked_map f c'" using LinkedMap.IH(2) by simp
    then show ?thesis using 2 by simp
  next
    case 3
    then have "size_prod (\<lambda>_. 0) f (k, v) < size_list (size_prod (\<lambda>_. 0) f) kvs"
      by (rule size_list_member)
    then show ?thesis by simp
  qed
qed

lemma set_merge_items: "set (merge_items cs ns) \<subseteq> set cs \<union> set ns"
  by (induction cs ns rule: merge_items.induct) auto

lemma Items_members: "(k, v) \<in> set (Items m) \<Longrightarrow> v \<in> set_linked_map m"
proof (induction m rule: Items.induct)
  case (1 n c m)
  have "(k, v) \<in> set (case c of Some cm \<Rightarrow> Items cm | None \<Rightarrow> m) \<union>
      set (case n of Some nm \<Rightarrow> Items nm | None \<Rightarrow> [])"
    using "1.prems" set_merge_items unfolding Items.simps by blast
  then consider cm where "c = Some cm" "(k, v) \<in> set (Items cm)" | "c = None" "(k, v) \<in> set m"
    | nm where "n = Some nm" "(k, v) \<in> set (Items nm)"
    by (cases c; cases n) auto
  then show ?case
  proof cases
    case 2
    then show ?thesis by (metis UnCI image_eqI set_linked_map_simp snd_conv)
  qed (use "1.IH" in \<open>simp_all add: set_linked_map_simp\<close>)
qed

lemma Find_member: "Find m key = Some v \<Longrightarrow> v \<in> set_linked_map m"
proof (induction m key rule: Find.induct)
  case (1 n c m key)
  then consider cm where "c = Some cm" "Find cm key = Some v" | "c = None" "map_of m key = Some v"
    | nm where "n = Some nm" "Find nm key = Some v"
        "(case c of None \<Rightarrow> map_of m key | Some cm \<Rightarrow> Find cm key) = None"
    by (cases c; cases n) (auto split: option.splits)
  then show ?case
  proof cases
    case 2
    then have "(key, v) \<in> set m" by (simp add: map_of_SomeD)
    then show ?thesis by (metis UnCI image_eqI set_linked_map_simp snd_conv)
  qed (use "1.IH" in \<open>simp_all add: set_linked_map_simp\<close>)
qed

lemma size_member [termination_simp]:
  "(k, v) \<in> set (Items m) \<Longrightarrow> size v < size (EMap m)" "e \<in> set es \<Longrightarrow> size e < size (EList es)"
  using size_linked_map_member [OF Items_members, of k v m size] size_list_member [of e es size] by simp_all

section \<open>JSON and hashes\<close>

declare abbreviate_loop.simps [code]

datatype JsonMode = SerializeAll | SerializeAllButNodes | NullForNonJson

fun json_emplace :: "(string \<times> json) list \<Rightarrow> (string \<times> json) list \<Rightarrow> (string \<times> json) list" where
  "json_emplace acc [] = acc"
| "json_emplace acc ((k, v) # kvs) =
     json_emplace (if map_of acc k = None then map_put k v acc else acc) kvs"

definition dump :: "eval_lib \<Rightarrow> json \<Rightarrow> string result" where
  "dump L j = (case nl_dump (lib_json L) j of Inl what \<Rightarrow> Inl (StdException what) | Inr s \<Rightarrow> Inr s)"

text \<open>A function that is declared not to throw.\<close>

definition noexcept :: "'a result \<Rightarrow> 'a result" where
  "noexcept r = (case r of Inl OutOfFuel \<Rightarrow> Inl OutOfFuel | Inl _ \<Rightarrow> Inl Terminate | Inr x \<Rightarrow> Inr x)"

definition sha256 :: "eval_lib \<Rightarrow> string \<Rightarrow> string" where
  "sha256 L data = PlainHashData (lib_openssl L) PlainSHA256 data"

fun reference_marker :: "ReferenceType \<Rightarrow> json list" where
  "reference_marker kTarget = []"
| "reference_marker kFile = [JString ''FILE'']"
| "reference_marker kTree = [JString ''TREE'']"
| "reference_marker kGlob = [JString ''GLOB'']"
| "reference_marker kSymlink = [JString ''SYMLINK'']"

fun hash_prefix :: "expr \<Rightarrow> string" where
  "hash_prefix (EArtifact _) = ''@''"
| "hash_prefix (EResult _ _ _ _) = ''=''"
| "hash_prefix (ENode _) = ''#''"
| "hash_prefix (EName _) = ''$''"
| "hash_prefix _ = []"

function (sequential) ToJson :: "eval_lib \<Rightarrow> JsonMode \<Rightarrow> expr \<Rightarrow> json result"
and ToHash :: "eval_lib \<Rightarrow> expr \<Rightarrow> string result" where
  "ToJson L mode (EBool b) = Inr (JBool b)"
| "ToJson L mode (ENumber d) = Inr (JFloat d)"
| "ToJson L mode (EString s) = Inr (JString s)"
| "ToJson L mode (EArtifact a) =
     Inr (if mode \<noteq> NullForNonJson then ArtifactDescription_ToJson a else JNull)"
| "ToJson L mode (EResult stage prov runf cacheable) =
     (if mode \<noteq> NullForNonJson
      then bindE (ToJson L SerializeAllButNodes stage) (\<lambda>s.
           bindE (ToJson L SerializeAllButNodes prov) (\<lambda>p.
           bindE (ToJson L SerializeAllButNodes runf) (\<lambda>r.
             Inr (JObject [(''artifact_stage'', s), (''provides'', p), (''runfiles'', r)]))))
      else Inr JNull)"
| "ToJson L mode (ENode node) =
     (case mode of
        SerializeAll \<Rightarrow>
          (case node of
             ValueNode val \<Rightarrow>
               bindE (ToJson L SerializeAll val) (\<lambda>j.
                 Inr (json_object [(''type'', JString ''VALUE_NODE''), (''result'', j)]))
           | AbstractNode node_type string_fields target_fields \<Rightarrow>
               bindE (ToJson L SerializeAll string_fields) (\<lambda>s.
               bindE (ToJson L SerializeAllButNodes target_fields) (\<lambda>t.
                 Inr (json_object [(''type'', JString ''ABSTRACT_NODE''), (''node_type'', JString node_type),
                                   (''string_fields'', s), (''target_fields'', t)]))))
      | SerializeAllButNodes \<Rightarrow>
          bindE (ToHash L (ENode node)) (\<lambda>h.
            Inr (json_object [(''type'', JString ''NODE''), (''id'', JString (ToHexString h))]))
      | NullForNonJson \<Rightarrow> Inr JNull)"
| "ToJson L mode (EList es) = bindE (mapE (ToJson L mode) es) (\<lambda>js. Inr (JArray js))"
| "ToJson L mode (EMap m) =
     bindE (mapE (\<lambda>(k, v). bindE (ToJson L mode v) (\<lambda>j. Inr (k, j))) (Items m)) (\<lambda>kjs.
       Inr (JObject (json_emplace [] kjs)))"
| "ToJson L mode (EName name) =
     (if mode \<noteq> NullForNonJson
      then (case name of
              AnonymousTarget rule_map target_node \<Rightarrow>
                bindE (ToHash L rule_map) (\<lambda>r.
                bindE (ToHash L target_node) (\<lambda>t.
                  Inr (JArray [JString ''#'', JString (ToHexString r), JString (ToHexString t)])))
            | NamedTarget repository module target_name reference_type \<Rightarrow>
                Inr (JArray ([JString ''@'', JString repository] @ reference_marker reference_type @
                             [JString module, JString target_name])))
      else Inr JNull)"
| "ToJson L mode ENone = Inr JNull"
| "ToHash L (EList es) =
     bindE (mapE (ToHash L) es) (\<lambda>hs. Inr (sha256 L (''['' @ concat hs)))"
| "ToHash L (EMap m) =
     bindE (mapE (\<lambda>(k, v). bindE (ToHash L v) (\<lambda>h. Inr (sha256 L k @ h))) (Items m)) (\<lambda>hs.
       Inr (sha256 L (''{'' @ concat hs)))"
| "ToHash L e =
     noexcept (bindE (ToJson L SerializeAll e) (\<lambda>j. bindE (dump L j) (\<lambda>s.
       Inr (sha256 L (hash_prefix e @ s)))))"
  by pat_completeness auto
termination
  by (relation "measure (case_sum (\<lambda>(L, mode, e). 3 * size e + (if mode = SerializeAllButNodes then 2 else 0))
       (\<lambda>(L, e). 3 * size e + 1))")
    (auto dest: size_member)

definition ToString :: "eval_lib \<Rightarrow> expr \<Rightarrow> string result" where
  "ToString L e = bindE (ToJson L SerializeAll e) (dump L)"

text \<open>An abbreviation that never ends is beyond every bound.\<close>

definition ToAbbrevString :: "eval_lib \<Rightarrow> expr \<Rightarrow> nat \<Rightarrow> string result" where
  "ToAbbrevString L e len =
     bindE (ToJson L SerializeAll e) (\<lambda>j.
       case AbbreviateJson (lib_json L) j len of
         None \<Rightarrow> Inl OutOfFuel
       | Some (Inl what) \<Rightarrow> Inl (StdException what)
       | Some (Inr s) \<Rightarrow> Inr s)"

definition ToIdentifier :: "eval_lib \<Rightarrow> expr \<Rightarrow> string result" where
  "ToIdentifier L e = bindE (ToHash L e) (\<lambda>h. Inr (ToHexString h))"

definition expr_eq :: "eval_lib \<Rightarrow> expr \<Rightarrow> expr \<Rightarrow> bool result" where
  "expr_eq L a b = bindE (ToHash L a) (\<lambda>ha. bindE (ToHash L b) (\<lambda>hb. Inr (ha = hb)))"

text \<open>
  A value without names. A target result records whether it is cacheable; a node is if the
  fields it may differ in are.
\<close>

function (sequential) IsCacheable :: "expr \<Rightarrow> bool" where
  "IsCacheable (EName _) = False"
| "IsCacheable (EResult _ _ _ cacheable) = cacheable"
| "IsCacheable (ENode (ValueNode val)) = IsCacheable val"
| "IsCacheable (ENode (AbstractNode _ _ target_fields)) = IsCacheable target_fields"
| "IsCacheable (EList es) = list_all IsCacheable es"
| "IsCacheable (EMap m) = list_all (\<lambda>(k, v). IsCacheable v) (Items m)"
| "IsCacheable e = True"
  by pat_completeness auto
termination
  by (relation "measure size") (auto dest: size_member)

lemma get_all_cong [fundef_cong]:
  "xs = ys \<Longrightarrow> (\<And>x. x \<in> set ys \<Longrightarrow> f x = g x) \<Longrightarrow> get_all f xs = get_all g ys"
  by (induction ys arbitrary: xs) (auto split: option.splits)

text \<open>
  Reading a JSON value. The library converts every number; a conversion that failed inside a
  container is the failure of the whole here.
\<close>

fun FromJson :: "nlohmann \<Rightarrow> json \<Rightarrow> expr option" where
  "FromJson N JNull = Some ENone"
| "FromJson N (JBool b) = Some (EBool b)"
| "FromJson N (JString s) = Some (EString s)"
| "FromJson N (JArray js) = map_option EList (get_all (FromJson N) js)"
| "FromJson N (JObject kvs) =
     map_option (\<lambda>es. EMap (LinkedMap_of (foldl (\<lambda>m (k, e). if map_of m k = None then map_put k e m else m)
                                              [] es)))
       (get_all (\<lambda>(k, j). map_option (Pair k) (FromJson N j)) kvs)"
| "FromJson N j = map_option ENumber (nl_get_double N j)"

section \<open>Configurations\<close>

text \<open>A configuration wraps an expression that is a map.\<close>

type_synonym configuration = "expr linked_map"

definition config_at :: "configuration \<Rightarrow> string \<Rightarrow> expr" where
  "config_at env key = (case Find env key of Some v \<Rightarrow> v | None \<Rightarrow> ENone)"

definition config_update :: "configuration \<Rightarrow> string \<Rightarrow> expr \<Rightarrow> configuration" where
  "config_update env var_name val = LinkedMap_shadow env [(var_name, val)]"

fun initializer_map :: "(string \<times> 'a) list \<Rightarrow> (string \<times> 'a) list" where
  "initializer_map [] = []"
| "initializer_map ((k, v) # kvs) = map_put k v (initializer_map kvs)"

definition config_update_map :: "configuration \<Rightarrow> (string \<times> expr) list \<Rightarrow> configuration" where
  "config_update_map env kvs = (if kvs = [] then env else LinkedMap_shadow env kvs)"

fun prune_subset :: "configuration \<Rightarrow> expr list \<Rightarrow> (string \<times> expr) list \<Rightarrow> (string \<times> expr) list result" where
  "prune_subset env [] pruned = Inr pruned"
| "prune_subset env (k # ks) pruned =
     bindE (as_string k) (\<lambda>key.
       prune_subset env ks
         (if map_of pruned key = None then map_put key (config_at env key) pruned else pruned))"

definition Prune :: "configuration \<Rightarrow> expr \<Rightarrow> configuration result" where
  "Prune env vars =
     bindE (as_list vars) (\<lambda>ks. bindE (prune_subset env ks []) (\<lambda>pruned. Inr (LinkedMap_of pruned)))"

definition enumerate_entry :: "eval_lib \<Rightarrow> string \<Rightarrow> nat \<Rightarrow> string \<times> expr \<Rightarrow> string result" where
  "enumerate_entry L prefix actual_width kv =
     bindE (ToString L (EString (fst kv))) (\<lambda>key_str.
       if actual_width > length key_str + 3
       then let remain = actual_width - length key_str - 3
            in bindE (ToAbbrevString L (snd kv) remain) (\<lambda>val_str.
                 Inr (prefix @ key_str @ '' : '' @
                   (if length val_str \<ge> remain
                    then take (if 3 \<le> remain then remain - 3 else 2 ^ 64 + remain - 3) val_str @ ''...''
                    else val_str) @ std_endl))
       else Inr (prefix @ take actual_width key_str @ std_endl))"

definition config_Enumerate :: "eval_lib \<Rightarrow> configuration \<Rightarrow> string \<Rightarrow> nat \<Rightarrow> string result" where
  "config_Enumerate L env prefix width =
     (if width > length prefix
      then bindE (mapE (enumerate_entry L prefix (width - length prefix)) (Items env)) (\<lambda>ls. Inr (concat ls))
      else Inr [])"

end
