(* ===== verification/Jst_Builtins.thy ===== *)
theory Jst_Builtins
  imports Jst_Expression Jst_Numbers
begin

text \<open>
  The builtin functions of the expression language:
  \<^verbatim>\<open>src/src/buildtool/build_engine/expression/evaluator.cpp\<close>, the part before the evaluator itself.
  A function of the language takes the evaluator of subexpressions, the expression and the
  environment. Error messages are built as in the code, including the exceptions that the JSON
  library may throw while a message is built; a message that passes through \<^verbatim>\<open>what()\<close> ends at a
  null character. Allocations succeed, but for lengths that a vector cannot have.
\<close>

type_synonym evaluator = "expr \<Rightarrow> configuration \<Rightarrow> expr result"
type_synonym language_function = "evaluator \<Rightarrow> expr \<Rightarrow> configuration \<Rightarrow> expr result"

section \<open>Errors\<close>

definition mk_error :: "string \<Rightarrow> bool \<Rightarrow> bool \<Rightarrow> expr list \<Rightarrow> exn" where
  "mk_error msg while_eval user_context objs =
     EvaluationError
       (if while_eval then msg
        else (if user_context then ''UserError: '' else ''EvaluationError: '') @ msg)
       while_eval user_context objs"

definition eval_error :: "string \<Rightarrow> 'a result" where
  "eval_error msg = Inl (mk_error msg False False [])"

text \<open>\<^verbatim>\<open>what()\<close>, a C string.\<close>

definition c_str :: "string \<Rightarrow> string" where
  "c_str s = takeWhile (\<lambda>c. c \<noteq> CHR 0x00) s"

definition WhileEval :: "string \<Rightarrow> string \<Rightarrow> bool \<Rightarrow> bool \<Rightarrow> expr list \<Rightarrow> 'a result" where
  "WhileEval where_text msg while_eval user objs =
     (if user then Inl (EvaluationError msg while_eval user objs)
      else Inl (mk_error (where_text @ std_endl @ c_str msg) True False objs))"

definition WhileEvaluating :: "string \<Rightarrow> string \<Rightarrow> 'a result" where
  "WhileEvaluating where_text what = Inl (mk_error (where_text @ std_endl @ c_str what) True False [])"

text \<open>Both handlers, which add the same text; the text may itself fail to be built.\<close>

definition while_text :: "string result \<Rightarrow> 'a result \<Rightarrow> 'a result" where
  "while_text where_text r =
     try_catch r
       (\<lambda>msg while_eval user objs. bindE where_text (\<lambda>w. WhileEval w msg while_eval user objs))
       (\<lambda>what. bindE where_text (\<lambda>w. WhileEvaluating w what))"

section \<open>Functions on values\<close>

definition ValueIsTrue :: "expr \<Rightarrow> bool" where
  "ValueIsTrue val =
     (case val of
        ENone \<Rightarrow> False
      | EBool b \<Rightarrow> b
      | ENumber d \<Rightarrow> \<not> double_is_zero d
      | EString s \<Rightarrow> s \<noteq> []
      | EList es \<Rightarrow> es \<noteq> []
      | EMap m \<Rightarrow> \<not> lm_empty m
      | _ \<Rightarrow> True)"

definition flatten_entry :: "eval_lib \<Rightarrow> expr \<Rightarrow> expr list result" where
  "flatten_entry L l =
     (case l of EList es \<Rightarrow> Inr es
      | _ \<Rightarrow> bindE (ToString L l) (\<lambda>s.
               eval_error (''Non-list entry found for argument in flatten: '' @ s @ ''.'')))"

definition Flatten :: "eval_lib \<Rightarrow> expr \<Rightarrow> expr result" where
  "Flatten L e =
     (case e of
        EList es \<Rightarrow>
          if es = [] then Inr e
          else bindE (mapE (flatten_entry L) es) (\<lambda>ess. Inr (EList (concat ess)))
      | _ \<Rightarrow> bindE (ToString L e) (\<lambda>s.
               eval_error (''Flatten expects list but instead got: '' @ s @ ''.'')))"

definition number_entry :: "eval_lib \<Rightarrow> string \<Rightarrow> expr \<Rightarrow> double_bits result" where
  "number_entry L operation f =
     (case f of ENumber d \<Rightarrow> Inr d
      | _ \<Rightarrow> bindE (ToString L f) (\<lambda>s.
               eval_error (''Non-number entry found for argument to '' @ operation @ '': '' @ s)))"

definition Addition :: "eval_lib \<Rightarrow> expr \<Rightarrow> expr result" where
  "Addition L e =
     (case e of
        EList es \<Rightarrow>
          bindE (mapE (number_entry L ''addition'') es) (\<lambda>ds.
            Inr (ENumber (foldl double_add (double_of_nat 0) ds)))
      | _ \<Rightarrow> bindE (ToString L e) (\<lambda>s. eval_error (''Addition expects a list, but found: '' @ s)))"

definition Multiplication :: "eval_lib \<Rightarrow> expr \<Rightarrow> expr result" where
  "Multiplication L e =
     (case e of
        EList es \<Rightarrow>
          bindE (mapE (number_entry L ''multiplication'') es) (\<lambda>ds.
            Inr (ENumber (foldl double_mult (double_of_nat 1) ds)))
      | _ \<Rightarrow> bindE (ToString L e) (\<lambda>s. eval_error (''Multiplication expects a list, but found: '' @ s)))"

definition All_true :: "expr \<Rightarrow> expr result" where
  "All_true e = bindE (as_list e) (\<lambda>es. Inr (EBool (list_all ValueIsTrue es)))"

definition Any_true :: "expr \<Rightarrow> expr result" where
  "Any_true e = bindE (as_list e) (\<lambda>es. Inr (EBool (list_ex ValueIsTrue es)))"

definition Not_true :: "expr \<Rightarrow> expr result" where
  "Not_true e = Inr (EBool (\<not> ValueIsTrue e))"

definition Keys :: "expr \<Rightarrow> expr result" where
  "Keys d = bindE (as_map d) (\<lambda>m. Inr (EList (map EString (lm_keys m))))"

definition Values :: "expr \<Rightarrow> expr result" where
  "Values d = bindE (as_map d) (\<lambda>m. Inr (EList (lm_values m)))"

text \<open>The format \<^verbatim>\<open>{:010d}\<close>.\<close>

definition format_010d :: "nat \<Rightarrow> string" where
  "format_010d n = replicate (10 - length (to_string_nat n)) (CHR ''0'') @ to_string_nat n"

fun enumerate_loop :: "nat \<Rightarrow> expr list \<Rightarrow> (string \<times> expr) list \<Rightarrow> (string \<times> expr) list" where
  "enumerate_loop count [] acc = acc"
| "enumerate_loop count (e # es) acc = enumerate_loop (count + 1) es (map_put (format_010d count) e acc)"

definition Enumerate :: "eval_lib \<Rightarrow> expr \<Rightarrow> expr result" where
  "Enumerate L e =
     (case e of
        EList es \<Rightarrow> Inr (EMap (LinkedMap_of (enumerate_loop 0 es [])))
      | _ \<Rightarrow> bindE (ToString L e) (\<lambda>s.
               eval_error (''enumerate expects list but instead got: '' @ s @ ''.'')))"

fun set_loop :: "eval_lib \<Rightarrow> expr list \<Rightarrow> (string \<times> expr) list \<Rightarrow> (string \<times> expr) list result" where
  "set_loop L [] acc = Inr acc"
| "set_loop L (EString s # es) acc = set_loop L es (map_put s (EBool True) acc)"
| "set_loop L (e # es) acc =
     bindE (ToString L e) (\<lambda>s. eval_error (''set expects list of strings found entry: '' @ s @ ''.''))"

definition Set :: "eval_lib \<Rightarrow> expr \<Rightarrow> expr result" where
  "Set L e =
     (case e of
        EList es \<Rightarrow> bindE (set_loop L es []) (\<lambda>kvs. Inr (EMap (LinkedMap_of kvs)))
      | _ \<Rightarrow> bindE (ToString L e) (\<lambda>s.
               eval_error (''set expects list of strings but instead got: '' @ s @ ''.'')))"

definition Reverse :: "eval_lib \<Rightarrow> expr \<Rightarrow> expr result" where
  "Reverse L e =
     (case e of
        EList es \<Rightarrow> Inr (EList (rev es))
      | _ \<Rightarrow> bindE (ToString L e) (\<lambda>s.
               eval_error (''reverse expects list but instead got: '' @ s @ ''.'')))"

definition Length :: "eval_lib \<Rightarrow> expr \<Rightarrow> expr result" where
  "Length L e =
     (case e of
        EList es \<Rightarrow> Inr (ENumber (double_of_nat (length es)))
      | _ \<Rightarrow> bindE (ToString L e) (\<lambda>s.
               eval_error (''length expects list but instead got: '' @ s @ ''.'')))"

text \<open>The set of values seen so far compares by hash, which stands for the value.\<close>

fun nub_loop :: "eval_lib \<Rightarrow> expr list \<Rightarrow> string list \<Rightarrow> expr list result" where
  "nub_loop L [] seen = Inr []"
| "nub_loop L (l # ls) seen =
     bindE (ToHash L l) (\<lambda>h.
       if h \<in> set seen then nub_loop L ls seen
       else bindE (nub_loop L ls (h # seen)) (\<lambda>rs. Inr (l # rs)))"

definition Nub :: "eval_lib \<Rightarrow> string \<Rightarrow> (expr list \<Rightarrow> expr list result) \<Rightarrow> expr \<Rightarrow> expr result" where
  "Nub L fname loop e =
     (case e of
        EList es \<Rightarrow>
          if \<not> IsCacheable e
          then bindE (ToString L e) (\<lambda>s.
                 eval_error (''Implicit comparison by passing name-containing value to '' @ fname @
                             '': '' @ s))
          else if es = [] then Inr e
          else bindE (loop es) (\<lambda>rs. Inr (EList rs))
      | _ \<Rightarrow> bindE (ToString L e) (\<lambda>s.
               eval_error (fname @ '' expects list but instead got: '' @ s @ ''.'')))"

definition NubRight :: "eval_lib \<Rightarrow> expr \<Rightarrow> expr result" where
  "NubRight L = Nub L ''nub_right'' (\<lambda>es. bindE (nub_loop L (rev es) []) (\<lambda>rs. Inr (rev rs)))"

definition NubLeft :: "eval_lib \<Rightarrow> expr \<Rightarrow> expr result" where
  "NubLeft L = Nub L ''nub_left'' (\<lambda>es. nub_loop L es [])"

definition vector_max_size :: int where
  "vector_max_size = (2 ^ 63 - 1) div 16"

definition long_lround :: "eval_lib \<Rightarrow> double_bits \<Rightarrow> 64 word" where
  "long_lround L d = (case lround d of Some i \<Rightarrow> i | None \<Rightarrow> lround_outside L d)"

definition Range :: "eval_lib \<Rightarrow> expr \<Rightarrow> expr result" where
  "Range L e =
     (let len = (case e of
                   ENumber d \<Rightarrow> if double_is_positive d then unat (long_lround L d) else 0
                 | EString s \<Rightarrow> unat (atol s)
                 | _ \<Rightarrow> 0)
      in if int len > vector_max_size then Inl (StdException ''vector::reserve'')
         else Inr (EList (map (\<lambda>i. EString (to_string_nat i)) [0..<len])))"

definition ChangeEndingTo :: "expr \<Rightarrow> expr \<Rightarrow> expr result" where
  "ChangeEndingTo name_e ending =
     bindE (as_string name_e) (\<lambda>path.
     bindE (as_string ending) (\<lambda>suffix.
       Inr (EString (path_append (parent_path path) (path_stem path) @ suffix))))"

definition BaseName :: "expr \<Rightarrow> expr result" where
  "BaseName name_e = bindE (as_string name_e) (\<lambda>path. Inr (EString (path_filename path)))"

definition ShellQuote :: "string \<Rightarrow> string" where
  "ShellQuote arg =
     [CHR 0x27] @
     concat (map (\<lambda>c. if c = CHR 0x27 then [CHR 0x27, CHR 0x5C, CHR 0x27, CHR 0x27] else [c]) arg) @
     [CHR 0x27]"

fun separated :: "string \<Rightarrow> string list \<Rightarrow> string" where
  "separated sep [] = []"
| "separated sep [s] = s"
| "separated sep (s # t # ts) = s @ sep @ separated sep (t # ts)"

definition Join :: "eval_lib \<Rightarrow> bool \<Rightarrow> bool \<Rightarrow> expr \<Rightarrow> string \<Rightarrow> expr result" where
  "Join L do_quote allow_string e sep =
     (let quote = (\<lambda>s. if do_quote then ShellQuote s else s)
      in case e of
           EString s \<Rightarrow>
             if allow_string then Inr (EString (quote s))
             else bindE (ToString L e) (\<lambda>s.
                    eval_error (''Join expects a list of strings, but got: '' @ s @ ''.''))
         | EList es \<Rightarrow>
             bindE (mapE as_string es) (\<lambda>ss. Inr (EString (separated sep (map quote ss))))
         | _ \<Rightarrow> bindE (ToString L e) (\<lambda>s.
                  eval_error (''Join expects a list of strings'' @
                    (if allow_string then '' or a single string'' else []) @
                    '', but got: '' @ s @ ''.'')))"

text \<open>The loop of \<open>FindConflictingDuplicate\<close> with the comparison by hashes.\<close>

fun find_conflict :: "eval_lib \<Rightarrow> (string \<times> expr) list \<Rightarrow> (string \<times> expr) list \<Rightarrow> string option result" where
  "find_conflict L [] they = Inr None"
| "find_conflict L me [] = Inr None"
| "find_conflict L (m # me) (t # they) =
     (if fst m = fst t
      then bindE (expr_eq L (snd m) (snd t)) (\<lambda>same.
             if \<not> same then Inr (Some (fst m)) else find_conflict L me they)
      else if fst m < fst t then find_conflict L me (t # they)
      else find_conflict L (m # me) they)"

definition check_disjoint :: "eval_lib \<Rightarrow> expr linked_map \<Rightarrow> expr linked_map \<Rightarrow> unit result" where
  "check_disjoint L left right =
     bindE (noexcept (find_conflict L (Items left) (Items right))) (\<lambda>dup.
       case dup of
         None \<Rightarrow> Inr ()
       | Some key \<Rightarrow>
           let left_val = config_at left key; right_val = config_at right key
           in bindE (dump L (JString key)) (\<lambda>k.
              bindE (ToAbbrevString L left_val (expression_log_limit L)) (\<lambda>l.
              bindE (ToAbbrevString L right_val (expression_log_limit L)) (\<lambda>r.
                Inl (mk_error
                  (''Map union not essentially disjoint as claimed, duplicate key '' @ k @
                   ''; conflicting values:'' @ [CHR 0x0A] @ ''- '' @ l @ [CHR 0x0A] @ ''- '' @ r)
                  False False [left_val, right_val])))))"

function union_range :: "eval_lib \<Rightarrow> bool \<Rightarrow> expr list \<Rightarrow> nat \<Rightarrow> nat \<Rightarrow> expr linked_map result" where
  "union_range L disjoint dicts from_pos to_pos =
     (if to_pos \<le> from_pos then Inr (LinkedMap_of [])
      else if to_pos = from_pos + 1
        then (case dicts ! from_pos of
                EMap m \<Rightarrow> Inr m
              | e \<Rightarrow> bindE (ToString L e) (\<lambda>s.
                       eval_error (''Map union list element is not a map: '' @ s)))
      else let mid = from_pos + (to_pos - from_pos) div 2
           in bindE (union_range L disjoint dicts from_pos mid) (\<lambda>left.
              bindE (union_range L disjoint dicts mid to_pos) (\<lambda>right.
                if lm_empty left then Inr right
                else if lm_empty right then Inr left
                else bindE (if disjoint then check_disjoint L left right else Inr ()) (\<lambda>_.
                       Inr (LinkedMap_link left right)))))"
  by pat_completeness auto
termination
  by (relation "measure (\<lambda>(L, disjoint, dicts, from_pos, to_pos). to_pos - from_pos)") auto

definition Union :: "eval_lib \<Rightarrow> bool \<Rightarrow> expr \<Rightarrow> expr result" where
  "Union L disjoint e =
     (case e of
        EList es \<Rightarrow>
          if es = [] then Inr kEmptyMap
          else bindE (union_range L disjoint es 0 (length es)) (\<lambda>m. Inr (EMap m))
      | _ \<Rightarrow> bindE (ToString L e) (\<lambda>s.
               eval_error (''Union expects list of maps but got: '' @ s @ ''.'')))"

fun append_last :: "string list \<Rightarrow> string \<Rightarrow> string list" where
  "append_last [] suffix = []"
| "append_last [s] suffix = [s @ suffix]"
| "append_last (s # t # ts) suffix = s # append_last (t # ts) suffix"

definition ConcatTargetName :: "eval_lib \<Rightarrow> expr \<Rightarrow> expr \<Rightarrow> expr result" where
  "ConcatTargetName L e suffix =
     (let failure = bindE (ToString L e) (\<lambda>s.
                      eval_error (''Unsupported expression for concat: '' @ s @ ''.''))
      in case e of
           EString s \<Rightarrow> bindE (as_string suffix) (\<lambda>t. Inr (EString (s @ t)))
         | EList es \<Rightarrow>
             if list_all is_string es
             then bindE (mapE as_string es) (\<lambda>ss.
                    if ss = [] then Inr (EList [])
                    else bindE (as_string suffix) (\<lambda>t. Inr (EList (map EString (append_last ss t)))))
             else failure
         | _ \<Rightarrow> failure)"

end
