(* ===== verification/Jst_Evaluator.thy ===== *)
theory Jst_Evaluator
  imports Jst_Builtins
begin

text \<open>
  The syntactic constructs of the expression language and the evaluator:
  \<^verbatim>\<open>src/src/buildtool/build_engine/expression/evaluator.{hpp,cpp}\<close>,
  \<^verbatim>\<open>function_map.hpp\<close>. A construct gets the evaluator of subexpressions as an argument; the
  evaluator itself, which hands itself to the constructs it finds in the table of functions, has
  a bound on its depth. The functions of the caller are a parameter. The arguments of a call are
  evaluated from left to right where C++ leaves the order open, which affects only which of two
  errors is reported.
\<close>

section \<open>Arguments\<close>

definition EvalArgument :: "string \<Rightarrow> language_function" where
  "EvalArgument argument eval expr env =
     while_text (Inr (''Evaluating argument '' @ argument @ '':''))
       (bindE (at_key expr argument) (\<lambda>e. eval e env))"

definition having_evaluated :: "eval_lib \<Rightarrow> expr \<Rightarrow> string result" where
  "having_evaluated L argument =
     bindE (ToAbbrevString L argument (expression_log_limit L)) (\<lambda>s.
       Inr (''Having evaluated the argument to '' @ s @ '':''))"

definition UnaryExpr :: "eval_lib \<Rightarrow> (expr \<Rightarrow> expr result) \<Rightarrow> language_function" where
  "UnaryExpr L f eval expr env =
     bindE (EvalArgument ''$1'' eval expr env) (\<lambda>argument.
       while_text (having_evaluated L argument) (f argument))"

definition eval_default :: "string \<Rightarrow> expr \<Rightarrow> language_function" where
  "eval_default key default_value eval expr env =
     bindE (Get expr key default_value) (\<lambda>e. eval e env)"

definition eval_key :: "string \<Rightarrow> language_function" where
  "eval_key key eval expr env = bindE (at_key expr key) (\<lambda>e. eval e env)"

section \<open>Logic\<close>

fun and_loop :: "(expr \<Rightarrow> expr result) \<Rightarrow> expr list \<Rightarrow> expr result" where
  "and_loop eval [] = Inr (EBool True)"
| "and_loop eval (c # cs) =
     bindE (eval c) (\<lambda>v. if \<not> ValueIsTrue v then Inr (EBool False) else and_loop eval cs)"

definition LogicalAnd :: "eval_lib \<Rightarrow> language_function" where
  "LogicalAnd L eval expr env =
     bindE (At expr ''$1'') (\<lambda>l.
       case l of
         None \<Rightarrow> Inr (EBool True)
       | Some (EList es) \<Rightarrow> and_loop (\<lambda>c. eval c env) es
       | Some e \<Rightarrow> bindE (ToString L e) (\<lambda>s.
                     eval_error (''Non-list entry found for argument in and: '' @ s @ ''.'')))"

fun or_loop :: "(expr \<Rightarrow> expr result) \<Rightarrow> expr list \<Rightarrow> expr result" where
  "or_loop eval [] = Inr (EBool False)"
| "or_loop eval (c # cs) =
     bindE (eval c) (\<lambda>v. if ValueIsTrue v then Inr (EBool True) else or_loop eval cs)"

definition LogicalOr :: "eval_lib \<Rightarrow> language_function" where
  "LogicalOr L eval expr env =
     bindE (At expr ''$1'') (\<lambda>l.
       case l of
         None \<Rightarrow> Inr (EBool False)
       | Some (EList es) \<Rightarrow> or_loop (\<lambda>c. eval c env) es
       | Some e \<Rightarrow> bindE (ToString L e) (\<lambda>s.
                     eval_error (''Non-list entry found for argument in or: '' @ s @ ''.'')))"

definition AndExpr :: "eval_lib \<Rightarrow> language_function" where
  "AndExpr L eval expr env =
     bindE (At expr ''$1'') (\<lambda>conds.
       case conds of
         None \<Rightarrow> Inr (EBool True)
       | Some c \<Rightarrow> if is_list c then LogicalAnd L eval expr env
                    else UnaryExpr L All_true eval expr env)"

definition OrExpr :: "eval_lib \<Rightarrow> language_function" where
  "OrExpr L eval expr env =
     bindE (At expr ''$1'') (\<lambda>conds.
       case conds of
         None \<Rightarrow> Inr (EBool False)
       | Some c \<Rightarrow> if is_list c then LogicalOr L eval expr env
                    else UnaryExpr L Any_true eval expr env)"

section \<open>Variables and quotes\<close>

definition VarExpr :: language_function where
  "VarExpr eval expr env =
     bindE (at_key expr ''name'') (\<lambda>name.
     bindE (as_string name) (\<lambda>key.
       case config_at env key of
         ENone \<Rightarrow> eval_default ''default'' ENone eval expr env
       | result \<Rightarrow> Inr result))"

definition OnlyInQuasiQuote :: language_function where
  "OnlyInQuasiQuote eval expr env =
     eval_error ([CHR 0x22] @ '','' @ [CHR 0x22] @ '' and '' @ [CHR 0x22] @ '',@'' @ [CHR 0x22] @
       '' are only evaluated within quasi-quote ('' @ [CHR 0x22] @ [CHR 0x60] @ [CHR 0x22] @
       '') environments.'')"

text \<open>The type of a map, if it is a string.\<close>

definition type_token :: "expr linked_map \<Rightarrow> string option" where
  "type_token m = (case Find m ''type'' of Some (EString s) \<Rightarrow> Some s | _ \<Rightarrow> None)"

definition splice :: "eval_lib \<Rightarrow> expr \<Rightarrow> expr \<Rightarrow> expr result" where
  "splice L expr result =
     (if is_list result then Inr result
      else bindE (ToString L expr) (\<lambda>e. bindE (ToString L result) (\<lambda>r.
             eval_error (''Argument of '' @ [CHR 0x22] @ '',@'' @ [CHR 0x22] @ ''-expresion '' @ e @
               '' should evaluate to a list, but obtained '' @ r))))"

text \<open>
  An entry of a list gives the list of the entries that replace it; that of a map without a
  comma is the map itself, whose use as a list is a type error.
\<close>

function (sequential) ExpandQuasiQuoteListEntry :: "eval_lib \<Rightarrow> (expr \<Rightarrow> expr result) \<Rightarrow> expr \<Rightarrow> expr result"
and ExpandQuasiQuote :: "eval_lib \<Rightarrow> (expr \<Rightarrow> expr result) \<Rightarrow> expr \<Rightarrow> expr result" where
  "ExpandQuasiQuoteListEntry L eval (EList es) =
     bindE (mapE (\<lambda>entry. bindE (ExpandQuasiQuoteListEntry L eval entry) as_list) es) (\<lambda>ess.
       Inr (EList [EList (concat ess)]))"
| "ExpandQuasiQuoteListEntry L eval (EMap m) =
     (if type_token m = Some '',''
      then (case Find m ''$1'' of
              None \<Rightarrow> Inr ENone
            | Some arg \<Rightarrow> bindE (eval arg) (\<lambda>r. Inr (EList [r])))
      else if type_token m = Some '',@''
      then (case Find m ''$1'' of
              None \<Rightarrow> Inr kEmptyList
            | Some arg \<Rightarrow> bindE (eval arg) (splice L (EMap m)))
      else bindE (mapE (\<lambda>(k, v). bindE (ExpandQuasiQuote L eval v) (\<lambda>e. Inr (k, e))) (Items m)) (\<lambda>kvs.
             Inr (EMap (LinkedMap_of kvs))))"
| "ExpandQuasiQuoteListEntry L eval e = Inr (EList [e])"
| "ExpandQuasiQuote L eval (EList es) =
     bindE (mapE (\<lambda>entry. bindE (ExpandQuasiQuoteListEntry L eval entry) as_list) es) (\<lambda>ess.
       Inr (EList (concat ess)))"
| "ExpandQuasiQuote L eval (EMap m) =
     (if type_token m = Some '',''
      then (case Find m ''$1'' of None \<Rightarrow> Inr ENone | Some arg \<Rightarrow> eval arg)
      else if type_token m = Some '',@''
      then bindE (ToString L (EMap m)) (\<lambda>s.
             eval_error ([CHR 0x22] @ '',@'' @ [CHR 0x22] @ ''-expression found in non-list context: '' @ s))
      else bindE (mapE (\<lambda>(k, v). bindE (ExpandQuasiQuote L eval v) (\<lambda>e. Inr (k, e))) (Items m)) (\<lambda>kvs.
             Inr (EMap (LinkedMap_of kvs))))"
| "ExpandQuasiQuote L eval e = Inr e"
  by pat_completeness auto
termination
  by (relation "measure (case_sum (\<lambda>(L, eval, e). size e) (\<lambda>(L, eval, e). size e))")
    (auto dest: size_member)

definition QuasiQuoteExpr :: "eval_lib \<Rightarrow> language_function" where
  "QuasiQuoteExpr L eval expr env =
     bindE (At expr ''$1'') (\<lambda>to_expand.
       case to_expand of
         None \<Rightarrow> Inr ENone
       | Some e \<Rightarrow> ExpandQuasiQuote L (\<lambda>arg. eval arg env) e)"

definition QuoteExpr :: language_function where
  "QuoteExpr eval expr env =
     bindE (At expr ''$1'') (\<lambda>literal. Inr (case literal of None \<Rightarrow> ENone | Some e \<Rightarrow> e))"

section \<open>Conditionals\<close>

definition IfExpr :: language_function where
  "IfExpr eval expr env =
     bindE (EvalArgument ''cond'' eval expr env) (\<lambda>c.
       if ValueIsTrue c then eval_default ''then'' kEmptyList eval expr env
       else eval_default ''else'' kEmptyList eval expr env)"

text \<open>The loops return the value of the entry that is chosen, or none.\<close>

fun cond_loop :: "eval_lib \<Rightarrow> (expr \<Rightarrow> expr result) \<Rightarrow> expr list \<Rightarrow> expr option result" where
  "cond_loop L eval [] = Inr None"
| "cond_loop L eval (pair # pairs) =
     (case pair of
        EList [c, e] \<Rightarrow>
          bindE (eval c) (\<lambda>v.
            if ValueIsTrue v then bindE (eval e) (\<lambda>r. Inr (Some r)) else cond_loop L eval pairs)
      | _ \<Rightarrow> bindE (ToString L pair) (\<lambda>s.
               eval_error (''cond in cond has to be a list of pairs, but found entry '' @ s)))"

definition CondExpr :: "eval_lib \<Rightarrow> language_function" where
  "CondExpr L eval expr env =
     bindE (At expr ''cond'') (\<lambda>cond.
     bindE (case cond of
              None \<Rightarrow> Inr None
            | Some (EList pairs) \<Rightarrow> cond_loop L (\<lambda>e. eval e env) pairs
            | Some c \<Rightarrow> bindE (ToString L c) (\<lambda>s.
                eval_error (''cond in cond has to be a list of pairs, but found '' @ s)))
       (\<lambda>chosen. case chosen of
          Some v \<Rightarrow> Inr v
        | None \<Rightarrow> eval_default ''default'' kEmptyList eval expr env))"

definition CaseExpr :: "eval_lib \<Rightarrow> language_function" where
  "CaseExpr L eval expr env =
     bindE (At expr ''case'') (\<lambda>cases.
     bindE (case cases of
              None \<Rightarrow> Inr None
            | Some (EMap m) \<Rightarrow>
                bindE (At expr ''expr'') (\<lambda>e.
                  case e of
                    None \<Rightarrow> eval_error ''missing expr in case''
                  | Some e \<Rightarrow>
                      bindE (eval e env) (\<lambda>key.
                        case key of
                          EString k \<Rightarrow>
                            (case Find m k of
                               None \<Rightarrow> Inr None
                             | Some val \<Rightarrow> bindE (eval val env) (\<lambda>r. Inr (Some r)))
                        | _ \<Rightarrow> bindE (ToString L key) (\<lambda>s.
                                 eval_error (''expr in case must evaluate to string, but found '' @ s))))
            | Some c \<Rightarrow> bindE (ToString L c) (\<lambda>s.
                eval_error (''case in case has to be a map of expressions, but found '' @ s)))
       (\<lambda>chosen. case chosen of
          Some v \<Rightarrow> Inr v
        | None \<Rightarrow> eval_default ''default'' kEmptyList eval expr env))"

fun seq_case_loop :: "eval_lib \<Rightarrow> (expr \<Rightarrow> expr result) \<Rightarrow> expr \<Rightarrow> expr list \<Rightarrow> expr option result" where
  "seq_case_loop L eval cmp [] = Inr None"
| "seq_case_loop L eval cmp (pair # pairs) =
     (case pair of
        EList [c, e] \<Rightarrow>
          bindE (eval c) (\<lambda>v.
          bindE (expr_eq L cmp v) (\<lambda>same.
            if same then bindE (eval e) (\<lambda>r. Inr (Some r)) else seq_case_loop L eval cmp pairs))
      | _ \<Rightarrow> bindE (ToString L pair) (\<lambda>s.
               eval_error (''case in case* has to be a list of pairs, but found entry '' @ s)))"

definition SeqCaseExpr :: "eval_lib \<Rightarrow> language_function" where
  "SeqCaseExpr L eval expr env =
     bindE (At expr ''case'') (\<lambda>cases.
     bindE (case cases of
              None \<Rightarrow> Inr None
            | Some (EList pairs) \<Rightarrow>
                bindE (At expr ''expr'') (\<lambda>e.
                  case e of
                    None \<Rightarrow> eval_error ''missing expr in case''
                  | Some e \<Rightarrow>
                      bindE (eval e env) (\<lambda>cmp.
                        if \<not> IsCacheable cmp
                        then bindE (ToString L cmp) (\<lambda>s.
                               eval_error (''Comparison of name-containing values: '' @ s))
                        else seq_case_loop L (\<lambda>e. eval e env) cmp pairs))
            | Some c \<Rightarrow> bindE (ToString L c) (\<lambda>s.
                eval_error (''case in case* has to be a list of pairs, but found '' @ s)))
       (\<lambda>chosen. case chosen of
          Some v \<Rightarrow> Inr v
        | None \<Rightarrow> eval_default ''default'' kEmptyList eval expr env))"

definition EqualExpr :: "eval_lib \<Rightarrow> language_function" where
  "EqualExpr L eval expr env =
     bindE (EvalArgument ''$1'' eval expr env) (\<lambda>a.
       if \<not> IsCacheable a
       then bindE (ToString L a) (\<lambda>s.
              eval_error (''Comparison of name-containing values; first argument is '' @ s))
       else bindE (EvalArgument ''$2'' eval expr env) (\<lambda>b.
         if \<not> IsCacheable b
         then bindE (ToString L b) (\<lambda>s.
                eval_error (''Comparison of name-containing values; second argument is '' @ s))
         else bindE (expr_eq L a b) (\<lambda>same. Inr (EBool same))))"

section \<open>Strings\<close>

definition ChangeEndingExpr :: language_function where
  "ChangeEndingExpr eval expr env =
     bindE (eval_default ''$1'' (EString []) eval expr env) (\<lambda>name.
     bindE (eval_default ''ending'' (EString []) eval expr env) (\<lambda>ending.
       ChangeEndingTo name ending))"

definition JoinExpr :: "eval_lib \<Rightarrow> language_function" where
  "JoinExpr L eval expr env =
     bindE (eval_default ''$1'' kEmptyList eval expr env) (\<lambda>es.
     bindE (eval_default ''separator'' (EString []) eval expr env) (\<lambda>separator.
     bindE (as_string separator) (Join L False False es)))"

definition JoinCmdExpr :: "eval_lib \<Rightarrow> language_function" where
  "JoinCmdExpr L eval expr env =
     bindE (eval_default ''$1'' kEmptyList eval expr env) (\<lambda>es. Join L True False es '' '')"

definition JsonEncodeExpr :: "eval_lib \<Rightarrow> language_function" where
  "JsonEncodeExpr L eval expr env =
     bindE (eval_default ''$1'' kEmptyList eval expr env) (\<lambda>val.
     bindE (ToJson L NullForNonJson val) (\<lambda>j.
     bindE (dump L j) (\<lambda>s. Inr (EString s))))"

text \<open>The characters and the prefix are only used as strings when they are needed.\<close>

definition escape_one :: "expr \<Rightarrow> expr \<Rightarrow> char \<Rightarrow> string result" where
  "escape_one chars escape_prefix c =
     bindE (as_string chars) (\<lambda>cs.
       if c \<in> set cs then bindE (as_string escape_prefix) (\<lambda>p. Inr (p @ [c])) else Inr [c])"

definition EscapeCharsExpr :: language_function where
  "EscapeCharsExpr eval expr env =
     bindE (eval_default ''$1'' (EString []) eval expr env) (\<lambda>str.
     bindE (eval_default ''chars'' (EString []) eval expr env) (\<lambda>chars.
     bindE (eval_default ''escape_prefix'' (EString [CHR 0x5C]) eval expr env) (\<lambda>escape_prefix.
     bindE (as_string str) (\<lambda>s.
     bindE (mapE (escape_one chars escape_prefix) s) (\<lambda>ss. Inr (EString (concat ss)))))))"

definition ConcatTargetNameExpr :: "eval_lib \<Rightarrow> language_function" where
  "ConcatTargetNameExpr L eval expr env =
     bindE (eval_default ''$1'' (EString []) eval expr env) (\<lambda>p1.
     bindE (eval_default ''$2'' (EString []) eval expr env) (\<lambda>p2.
     bindE (Join L False True p2 []) (ConcatTargetName L p1)))"

section \<open>Containers\<close>

definition LookupExpr :: "eval_lib \<Rightarrow> language_function" where
  "LookupExpr L eval expr env =
     bindE (eval_key ''key'' eval expr env) (\<lambda>k.
     bindE (eval_key ''map'' eval expr env) (\<lambda>d.
       case k of
         EString key \<Rightarrow>
           (case d of
              EMap m \<Rightarrow>
                (case Find m key of
                   Some v \<Rightarrow> if v = ENone then eval_default ''default'' ENone eval expr env else Inr v
                 | None \<Rightarrow> eval_default ''default'' ENone eval expr env)
            | _ \<Rightarrow> bindE (ToString L d) (\<lambda>s.
                     eval_error (''Map expected to be mapping but found '' @ s @ ''.'')))
       | _ \<Rightarrow> bindE (ToString L k) (\<lambda>s.
                eval_error (''Key expected to be string but found '' @ s @ ''.''))))"

definition ArrayAccessExpr :: "eval_lib \<Rightarrow> language_function" where
  "ArrayAccessExpr L eval expr env =
     bindE (eval_key ''index'' eval expr env) (\<lambda>k.
     bindE (eval_key ''list'' eval expr env) (\<lambda>d.
       case d of
         EList es \<Rightarrow>
           let len = int (length es);
               index = (case k of
                          ENumber n \<Rightarrow> sint (long_lround L n)
                        | EString s \<Rightarrow> sint (atol s)
                        | _ \<Rightarrow> 0)
           in if 0 \<le> index \<and> index < len then Inr (es ! nat index)
              else if index < 0 \<and> 0 \<le> len + index then Inr (es ! nat (len + index))
              else eval_default ''default'' ENone eval expr env
       | _ \<Rightarrow> bindE (ToString L d) (\<lambda>s.
                eval_error (''List expected to be list, but found '' @ s @ ''.''))))"

definition EmptyMapExpr :: language_function where
  "EmptyMapExpr eval expr env = Inr kEmptyMap"

definition SingletonMapExpr :: language_function where
  "SingletonMapExpr eval expr env =
     bindE (EvalArgument ''key'' eval expr env) (\<lambda>key.
     bindE (EvalArgument ''value'' eval expr env) (\<lambda>val.
     bindE (as_string key) (\<lambda>k. Inr (EMap (LinkedMap_single k val)))))"

section \<open>Messages of the user\<close>

definition non_evaluating :: "eval_lib \<Rightarrow> expr \<Rightarrow> string result" where
  "non_evaluating L msg_expr =
     bindE (ToString L msg_expr) (\<lambda>s. Inr (''[non evaluating term] '' @ s))"

definition user_message :: "eval_lib \<Rightarrow> evaluator \<Rightarrow> expr \<Rightarrow> configuration \<Rightarrow> string result" where
  "user_message L eval msg_expr env =
     try_catch (bindE (eval msg_expr env) (ToString L))
       (\<lambda>_ _ _ _. non_evaluating L msg_expr) (\<lambda>_. non_evaluating L msg_expr)"

definition user_error :: "string \<Rightarrow> expr list \<Rightarrow> 'a result" where
  "user_error msg objs = Inl (mk_error msg False True objs)"

section \<open>Staging\<close>

definition flat_conflict ::
  "eval_lib \<Rightarrow> evaluator \<Rightarrow> expr \<Rightarrow> configuration \<Rightarrow> expr \<Rightarrow> string \<Rightarrow> string \<Rightarrow> 'a result" where
  "flat_conflict L eval expr env d subdir new_key =
     bindE (At expr ''msg'') (\<lambda>msg_expr.
       case msg_expr of
         None \<Rightarrow>
           bindE (ToString L d) (\<lambda>s.
             eval_error (''Flat staging of '' @ s @ '' to subdir '' @ subdir @
                         '' conflicts on path '' @ new_key))
       | Some m \<Rightarrow>
           bindE (user_message L eval m env) (\<lambda>msg.
           bindE (ToString L d) (\<lambda>s.
             user_error (msg @ std_endl @ ''Reason: flat staging to subdir '' @ subdir @
               '' conflicts on path '' @ new_key @ std_endl @
               ''Map to flatly stage was '' @ s @ std_endl) [])))"

definition staging_conflict ::
  "eval_lib \<Rightarrow> evaluator \<Rightarrow> expr \<Rightarrow> configuration \<Rightarrow> expr \<Rightarrow> string \<Rightarrow> string \<Rightarrow> 'a result" where
  "staging_conflict L eval expr env d subdir new_key =
     bindE (At expr ''msg'') (\<lambda>msg_expr.
       case msg_expr of
         None \<Rightarrow>
           bindE (ToString L d) (\<lambda>s.
             eval_error (''Staging of '' @ s @ '' to subdir '' @ subdir @
                         '' conflicts on path '' @ new_key))
       | Some m \<Rightarrow>
           bindE (user_message L eval m env) (\<lambda>msg.
           bindE (ToString L d) (\<lambda>s.
             user_error (msg @ std_endl @ ''Reason: staging to subdir '' @ subdir @
               '' conflicts on new path '' @ new_key @ std_endl @
               ''Map to stage was '' @ s @ std_endl) [])))"

text \<open>
  An entry that is in the way does no harm if it is the same value and has no names; the
  conflict is handled by the caller otherwise.
\<close>

definition same_entry :: "eval_lib \<Rightarrow> expr \<Rightarrow> expr \<Rightarrow> bool result" where
  "same_entry L old new = bindE (expr_eq L old new) (\<lambda>same. Inr (same \<and> IsCacheable new))"

fun flat_loop ::
  "eval_lib \<Rightarrow> string \<Rightarrow> (string \<Rightarrow> unit result) \<Rightarrow> (string \<times> expr) list \<Rightarrow> (string \<times> expr) list \<Rightarrow>
     (string \<times> expr) list result" where
  "flat_loop L subdir on_conflict [] acc = Inr acc"
| "flat_loop L subdir on_conflict ((key, val) # kvs) acc =
     (let new_key = NormPath (path_append subdir (path_filename key))
      in bindE (case map_of acc new_key of
                  None \<Rightarrow> Inr ()
                | Some old \<Rightarrow>
                    bindE (same_entry L old val) (\<lambda>same.
                      if same then Inr () else on_conflict new_key))
           (\<lambda>_. flat_loop L subdir on_conflict kvs (map_put new_key val acc)))"

fun stage_loop ::
  "eval_lib \<Rightarrow> (string \<Rightarrow> string option) \<Rightarrow> (string \<Rightarrow> unit result) \<Rightarrow> (string \<times> expr) list \<Rightarrow>
     (string \<times> expr) list \<Rightarrow> (string \<times> expr) list result" where
  "stage_loop L new_path on_conflict [] acc = Inr acc"
| "stage_loop L new_path on_conflict ((key, val) # kvs) acc =
     (case new_path key of
        None \<Rightarrow> stage_loop L new_path on_conflict kvs acc
      | Some new_key \<Rightarrow>
          (case map_of acc new_key of
             None \<Rightarrow> stage_loop L new_path on_conflict kvs (map_put new_key val acc)
           | Some old \<Rightarrow>
               bindE (same_entry L old val) (\<lambda>same.
               bindE (if same then Inr () else on_conflict new_key) (\<lambda>_.
                 stage_loop L new_path on_conflict kvs acc))))"

definition to_subdir_path :: "string \<Rightarrow> string \<Rightarrow> string option" where
  "to_subdir_path subdir key = Some (NormPath (path_append subdir key))"

definition from_subdir_path :: "string \<Rightarrow> string \<Rightarrow> string option" where
  "from_subdir_path subdir key =
     (let new_path = NormPath (lexically_relative key subdir)
      in if PathIsNonUpwards new_path then Some new_path else None)"

definition ToSubdirExpr :: "eval_lib \<Rightarrow> language_function" where
  "ToSubdirExpr L eval expr env =
     bindE (eval_key ''$1'' eval expr env) (\<lambda>d.
     bindE (eval_default ''subdir'' (EString ''.'') eval expr env) (\<lambda>s.
     bindE (eval_default ''flat'' (EBool False) eval expr env) (\<lambda>flat.
     bindE (as_string s) (\<lambda>subdir.
     bindE (as_map d) (\<lambda>m.
     bindE (if ValueIsTrue flat
            then flat_loop L subdir (flat_conflict L eval expr env d subdir) (Items m) []
            else stage_loop L (to_subdir_path subdir) (staging_conflict L eval expr env d subdir)
                   (Items m) []) (\<lambda>kvs.
       Inr (EMap (LinkedMap_of kvs))))))))"

definition FromSubdirExpr :: "eval_lib \<Rightarrow> language_function" where
  "FromSubdirExpr L eval expr env =
     bindE (eval_key ''$1'' eval expr env) (\<lambda>d.
     bindE (eval_default ''subdir'' (EString ''.'') eval expr env) (\<lambda>s.
     bindE (as_string s) (\<lambda>subdir.
     bindE (as_map d) (\<lambda>m.
     bindE (stage_loop L (from_subdir_path subdir)
              (\<lambda>new_key. bindE (dump L (JString new_key)) (\<lambda>k.
                 eval_error (''Staging conflict for path '' @ k))) (Items m) []) (\<lambda>kvs.
       Inr (EMap (LinkedMap_of kvs)))))))"

section \<open>Iteration\<close>

definition ForeachExpr :: language_function where
  "ForeachExpr eval expr env =
     bindE (eval_default ''range'' kEmptyList eval expr env) (\<lambda>range_list.
     bindE (as_list range_list) (\<lambda>xs.
       if xs = [] then Inr kEmptyList
       else bindE (Get expr ''var'' (EString ''_'')) (\<lambda>var.
            bindE (Get expr ''body'' kEmptyList) (\<lambda>body.
            bindE (mapE (\<lambda>x. bindE (as_string var) (\<lambda>v. eval body (config_update env v x))) xs) (\<lambda>rs.
              Inr (EList rs))))))"

definition ForeachMapExpr :: language_function where
  "ForeachMapExpr eval expr env =
     bindE (eval_default ''range'' kEmptyMapExpr eval expr env) (\<lambda>range_map.
     bindE (as_map range_map) (\<lambda>m.
       if lm_empty m then Inr kEmptyList
       else bindE (Get expr ''var_key'' (EString ''_'')) (\<lambda>var.
            bindE (Get expr ''var_val'' (EString ''$_'')) (\<lambda>var_val.
            bindE (Get expr ''body'' kEmptyList) (\<lambda>body.
            bindE (mapE (\<lambda>(key, val).
                     bindE (as_string var) (\<lambda>v.
                     bindE (as_string var_val) (\<lambda>w.
                       eval body (config_update (config_update env v (EString key)) w val)))) (Items m)) (\<lambda>rs.
              Inr (EList rs)))))))"

definition ZipWithExpr :: language_function where
  "ZipWithExpr eval expr env =
     bindE (eval_default ''range_1'' kEmptyList eval expr env) (\<lambda>range_1.
     bindE (as_list range_1) (\<lambda>xs.
       if xs = [] then Inr kEmptyList
       else
     bindE (eval_default ''range_2'' kEmptyList eval expr env) (\<lambda>range_2.
     bindE (as_list range_2) (\<lambda>ys.
       if ys = [] then Inr kEmptyList
       else bindE (Get expr ''var_1'' (EString ''$1'')) (\<lambda>var_1.
            bindE (Get expr ''var_2'' (EString ''$2'')) (\<lambda>var_2.
            bindE (Get expr ''body'' kEmptyList) (\<lambda>body.
            bindE (mapE (\<lambda>(x, y).
                     bindE (as_string var_1) (\<lambda>v.
                     bindE (as_string var_2) (\<lambda>w.
                       eval body (config_update (config_update env v x) w y)))) (zip xs ys)) (\<lambda>rs.
              Inr (EList rs)))))))))"

fun zip_map_loop :: "(expr \<times> expr) list \<Rightarrow> (string \<times> expr) list \<Rightarrow> (string \<times> expr) list result" where
  "zip_map_loop [] acc = Inr acc"
| "zip_map_loop ((key, val) # kvs) acc =
     bindE (as_string key) (\<lambda>k. zip_map_loop kvs (map_put k val acc))"

definition ZipMapExpr :: language_function where
  "ZipMapExpr eval expr env =
     bindE (eval_default ''range_key'' kEmptyList eval expr env) (\<lambda>range_key.
     bindE (as_list range_key) (\<lambda>ks.
       if ks = [] then Inr kEmptyMap
       else
     bindE (eval_default ''range_val'' kEmptyList eval expr env) (\<lambda>range_val.
     bindE (as_list range_val) (\<lambda>vs.
       if vs = [] then Inr kEmptyMap
       else bindE (zip_map_loop (zip ks vs) []) (\<lambda>kvs. Inr (EMap (LinkedMap_of kvs)))))))"

fun fold_loop ::
  "evaluator \<Rightarrow> expr \<Rightarrow> configuration \<Rightarrow> expr \<Rightarrow> expr \<Rightarrow> expr list \<Rightarrow> expr \<Rightarrow> expr result" where
  "fold_loop eval body env var accum_var [] val = Inr val"
| "fold_loop eval body env var accum_var (x # xs) val =
     bindE (as_string var) (\<lambda>v.
     bindE (as_string accum_var) (\<lambda>w.
     bindE (eval body (config_update_map env (initializer_map [(v, x), (w, val)])))
       (fold_loop eval body env var accum_var xs)))"

definition FoldLeftExpr :: language_function where
  "FoldLeftExpr eval expr env =
     bindE (Get expr ''var'' (EString ''_'')) (\<lambda>var.
     bindE (Get expr ''accum_var'' (EString ''$1'')) (\<lambda>accum_var.
     bindE (eval_key ''range'' eval expr env) (\<lambda>range_list.
     bindE (eval_default ''start'' kEmptyList eval expr env) (\<lambda>val.
     bindE (Get expr ''body'' kEmptyList) (\<lambda>body.
     bindE (as_list range_list) (\<lambda>xs. fold_loop eval body env var accum_var xs val))))))"

section \<open>Environments\<close>

definition binding_text :: "eval_lib \<Rightarrow> nat \<Rightarrow> expr \<Rightarrow> string result" where
  "binding_text L pos x_exp =
     bindE (ToString L x_exp) (\<lambda>x.
       Inr (''Evaluating entry '' @ to_string_nat pos @ '' in bindings, binding '' @ x @ '':''))"

fun let_loop :: "eval_lib \<Rightarrow> evaluator \<Rightarrow> nat \<Rightarrow> expr list \<Rightarrow> configuration \<Rightarrow> configuration result" where
  "let_loop L eval pos [] new_env = Inr new_env"
| "let_loop L eval pos (binding # bindings) new_env =
     (case binding of
        EList [x_exp, e] \<Rightarrow>
          (case x_exp of
             EString x \<Rightarrow>
               bindE (while_text (binding_text L pos x_exp) (eval e new_env)) (\<lambda>val.
                 let_loop L eval (pos + 1) bindings (config_update new_env x val))
           | _ \<Rightarrow> bindE (ToString L binding) (\<lambda>s.
                    eval_error (''variable names in let* have to be strings, '' @
                                ''but found binding entry '' @ s)))
      | _ \<Rightarrow> bindE (ToString L binding) (\<lambda>s.
               eval_error (''bindings in let* has to be a list of pairs, '' @
                           ''but found entry '' @ s)))"

definition LetExpr :: "eval_lib \<Rightarrow> language_function" where
  "LetExpr L eval expr env =
     bindE (At expr ''bindings'') (\<lambda>bindings.
     bindE (case bindings of
              None \<Rightarrow> Inr env
            | Some (EList bs) \<Rightarrow> let_loop L eval 0 bs env
            | Some b \<Rightarrow> bindE (ToString L b) (\<lambda>s.
                eval_error (''bindings in let* has to be a list of pairs, but found '' @ s)))
       (\<lambda>new_env.
     bindE (Get expr ''body'' kEmptyMap) (\<lambda>body.
       while_text (Inr ''Evaluating the body:'') (eval body new_env))))"

definition EnvExpr :: "eval_lib \<Rightarrow> language_function" where
  "EnvExpr L eval expr env =
     bindE (At expr ''vars'') (\<lambda>vars.
       case vars of
         None \<Rightarrow> Inr kEmptyMap
       | Some (EList vs) \<Rightarrow>
           (case filter (\<lambda>v. \<not> is_string v) vs of
              v # _ \<Rightarrow>
                bindE (ToString L v) (\<lambda>s.
                  eval_error (''vars in env has to be a list of strings, but found entry '' @ s))
            | [] \<Rightarrow> bindE (Prune env (EList vs)) (\<lambda>pruned. Inr (EMap pruned)))
       | Some v \<Rightarrow> bindE (ToString L v) (\<lambda>s.
           eval_error (''vars in env has to be a list of strings, but found '' @ s)))"

section \<open>Errors and their context\<close>

definition context_text :: "eval_lib \<Rightarrow> evaluator \<Rightarrow> expr \<Rightarrow> configuration \<Rightarrow> string \<Rightarrow> string result" where
  "context_text L eval expr env what =
     bindE (Get expr ''msg'' kEmptyMap) (\<lambda>msg_expr.
     bindE (user_message L eval msg_expr env) (\<lambda>context_msg.
       Inr (''In Context '' @ context_msg @ std_endl @ c_str what)))"

definition ContextExpr :: "eval_lib \<Rightarrow> language_function" where
  "ContextExpr L eval expr env =
     try_catch (eval_default ''$1'' ENone eval expr env)
       (\<lambda>msg while_eval user objs.
          bindE (context_text L eval expr env msg) (\<lambda>s. Inl (mk_error s True True objs)))
       (\<lambda>what.
          bindE (context_text L eval expr env what) (\<lambda>s. Inl (mk_error s True True [])))"

text \<open>The text that replaces the error of a union, after \<open>Underlying\<close> or \<open>Reason:\<close>.\<close>

definition union_text ::
  "eval_lib \<Rightarrow> evaluator \<Rightarrow> expr \<Rightarrow> configuration \<Rightarrow> expr \<Rightarrow> string \<Rightarrow> string \<Rightarrow> string result" where
  "union_text L eval msg_expr env argument label what =
     bindE (user_message L eval msg_expr env) (\<lambda>msg.
     bindE (ToAbbrevString L argument (expression_log_limit L)) (\<lambda>a.
       Inr (msg @ std_endl @ label @ c_str what @ std_endl @ ''The argument of the union was '' @ a)))"

definition DisjointUnionExpr :: "eval_lib \<Rightarrow> language_function" where
  "DisjointUnionExpr L eval expr env =
     bindE (EvalArgument ''$1'' eval expr env) (\<lambda>argument.
       if \<not> IsCacheable argument
       then bindE (ToString L argument) (\<lambda>s.
              eval_error (''Argument to disjoint_map_union is name-containing: '' @ s))
       else
         try_catch (Union L True argument)
           (\<lambda>what while_eval user objs.
              bindE (At expr ''msg'') (\<lambda>msg_expr.
                case msg_expr of
                  None \<Rightarrow>
                    bindE (having_evaluated L argument) (\<lambda>w. WhileEval w what while_eval user objs)
                | Some m \<Rightarrow>
                    bindE (union_text L eval m env argument ''Underlying '' what) (\<lambda>s.
                      user_error s objs)))
           (\<lambda>what.
              bindE (At expr ''msg'') (\<lambda>msg_expr.
                case msg_expr of
                  None \<Rightarrow> bindE (having_evaluated L argument) (\<lambda>w. WhileEvaluating w what)
                | Some m \<Rightarrow>
                    bindE (union_text L eval m env argument ''Reason: '' what) (\<lambda>s.
                      user_error s []))))"

definition FailExpr :: "eval_lib \<Rightarrow> language_function" where
  "FailExpr L eval expr env =
     bindE (eval_default ''msg'' ENone eval expr env) (\<lambda>msg.
     bindE (ToString L msg) (\<lambda>s. user_error s []))"

definition AssertExpr :: "eval_lib \<Rightarrow> language_function" where
  "AssertExpr L eval expr env =
     bindE (eval_key ''$1'' eval expr env) (\<lambda>val.
     bindE (Get expr ''var'' (EString ''_'')) (\<lambda>var.
     bindE (at_key expr ''predicate'') (\<lambda>predicate.
     bindE (as_string var) (\<lambda>v.
     bindE (eval predicate (config_update env v val)) (\<lambda>pred.
       if ValueIsTrue pred then Inr val
       else bindE (Get expr ''msg'' ENone) (\<lambda>msg_expr.
            bindE (user_message L eval msg_expr (config_update env v val)) (\<lambda>msg.
              user_error msg [])))))))"

definition non_empty_value :: "expr \<Rightarrow> bool" where
  "non_empty_value val =
     (case val of
        EString s \<Rightarrow> s \<noteq> []
      | EList es \<Rightarrow> es \<noteq> []
      | EMap m \<Rightarrow> \<not> lm_empty m
      | _ \<Rightarrow> False)"

definition AssertNonEmptyExpr :: "eval_lib \<Rightarrow> language_function" where
  "AssertNonEmptyExpr L eval expr env =
     bindE (eval_key ''$1'' eval expr env) (\<lambda>val.
       if non_empty_value val then Inr val
       else bindE (Get expr ''msg'' ENone) (\<lambda>msg_expr.
            bindE (user_message L eval msg_expr env) (\<lambda>msg.
            bindE (ToString L val) (\<lambda>s.
              user_error (msg @ std_endl @ ''Expected non-empty value but found: '' @ s) []))))"

section \<open>The table of functions\<close>

definition builtin_entries :: "eval_lib \<Rightarrow> (string \<times> language_function) list" where
  "builtin_entries L =
     [(''var'', VarExpr),
      ([CHR 0x27], QuoteExpr),
      ([CHR 0x60], QuasiQuoteExpr L),
      ('','', OnlyInQuasiQuote),
      ('',@'', OnlyInQuasiQuote),
      (''if'', IfExpr),
      (''cond'', CondExpr L),
      (''case'', CaseExpr L),
      (''case*'', SeqCaseExpr L),
      (''fail'', FailExpr L),
      (''assert'', AssertExpr L),
      (''assert_non_empty'', AssertNonEmptyExpr L),
      (''context'', ContextExpr L),
      (''=='', EqualExpr L),
      (''and'', AndExpr L),
      (''or'', OrExpr L),
      (''not'', UnaryExpr L Not_true),
      (''++'', UnaryExpr L (Flatten L)),
      (''+'', UnaryExpr L (Addition L)),
      (''*'', UnaryExpr L (Multiplication L)),
      (''nub_right'', UnaryExpr L (NubRight L)),
      (''nub_left'', UnaryExpr L (NubLeft L)),
      (''range'', UnaryExpr L (Range L)),
      (''change_ending'', ChangeEndingExpr),
      (''basename'', UnaryExpr L BaseName),
      (''join'', JoinExpr L),
      (''join_cmd'', JoinCmdExpr L),
      (''json_encode'', JsonEncodeExpr L),
      (''escape_chars'', EscapeCharsExpr),
      (''keys'', UnaryExpr L Keys),
      (''enumerate'', UnaryExpr L (Enumerate L)),
      (''set'', UnaryExpr L (Set L)),
      (''reverse'', UnaryExpr L (Reverse L)),
      (''length'', UnaryExpr L (Length L)),
      (''values'', UnaryExpr L Values),
      (''lookup'', LookupExpr L),
      (''[]'', ArrayAccessExpr L),
      (''empty_map'', EmptyMapExpr),
      (''singleton_map'', SingletonMapExpr),
      (''disjoint_map_union'', DisjointUnionExpr L),
      (''map_union'', UnaryExpr L (Union L False)),
      (''to_subdir'', ToSubdirExpr L),
      (''from_subdir'', FromSubdirExpr L),
      (''foreach'', ForeachExpr),
      (''foreach_map'', ForeachMapExpr),
      (''zip_with'', ZipWithExpr),
      (''zip_map'', ZipMapExpr),
      (''foldl'', FoldLeftExpr),
      (''let*'', LetExpr L),
      (''env'', EnvExpr L),
      (''concat_target_name'', ConcatTargetNameExpr L)]"

definition kBuiltInFunctions :: "eval_lib \<Rightarrow> language_function linked_map" where
  "kBuiltInFunctions L = LinkedMap_of (initializer_map (builtin_entries L))"

section \<open>The evaluator\<close>

definition ExtendedErrorMessage :: "eval_lib \<Rightarrow> expr \<Rightarrow> configuration \<Rightarrow> string \<Rightarrow> string result" where
  "ExtendedErrorMessage L expr env what =
     bindE (case expr of
              EMap m \<Rightarrow>
                (case Find m ''type'' of
                   Some (EString t) \<Rightarrow>
                     bindE (ToString L (EString t)) (\<lambda>s. Inr (s @ ''-expression ''))
                 | _ \<Rightarrow> Inr [])
            | _ \<Rightarrow> Inr []) (\<lambda>kind.
     bindE (ToAbbrevString L expr (expression_log_limit L)) (\<lambda>abbrev.
     bindE (config_Enumerate L env ''  - '' (expression_log_limit L)) (\<lambda>vars.
       Inr (''* '' @ kind @ abbrev @ std_endl @ ''  environment '' @ std_endl @ vars @ std_endl @
            c_str what))))"

definition extend_error :: "eval_lib \<Rightarrow> expr \<Rightarrow> configuration \<Rightarrow> 'a result \<Rightarrow> 'a result" where
  "extend_error L expr env r =
     try_catch r
       (\<lambda>msg while_eval user objs.
          if user then Inl (EvaluationError msg while_eval user objs)
          else bindE (ExtendedErrorMessage L expr env msg) (\<lambda>s. Inl (mk_error s True False objs)))
       (\<lambda>what. bindE (ExtendedErrorMessage L expr env what) (\<lambda>s. Inl (mk_error s True False [])))"

definition apply_function ::
  "eval_lib \<Rightarrow> language_function linked_map \<Rightarrow> evaluator \<Rightarrow> expr linked_map \<Rightarrow> configuration \<Rightarrow> expr result" where
  "apply_function L functions eval m env =
     (if \<not> lm_contains m ''type''
      then bindE (ToString L (EMap m)) (\<lambda>s.
             eval_error (''Object without keyword '' @ quoted ''type'' @ '': '' @ s))
      else bindE (at_key (EMap m) ''type'') (\<lambda>t. bindE (as_string t) (\<lambda>type_name.
             case Find functions type_name of
               Some f \<Rightarrow> f eval (EMap m) env
             | None \<Rightarrow> eval_error (''Unknown syntactical construct '' @ type_name))))"

fun Evaluate :: "nat \<Rightarrow> eval_lib \<Rightarrow> language_function linked_map \<Rightarrow> evaluator" where
  "Evaluate 0 L functions expr env = Inl OutOfFuel"
| "Evaluate (Suc n) L functions expr env =
     extend_error L expr env
       (case expr of
          EList es \<Rightarrow>
            if es = [] then Inr expr
            else bindE (mapE (\<lambda>e. Evaluate n L functions e env) es) (\<lambda>vs. Inr (EList vs))
        | EMap m \<Rightarrow> apply_function L functions (Evaluate n L functions) m env
        | _ \<Rightarrow> Inr expr)"

text \<open>
  The outer interface: the value, or the text for the log and whether the error has a context of
  the user. The annotation of objects is a parameter; an exception that leaves a handler ends
  the program.
\<close>

datatype outcome =
    Value expr
  | Logged string bool
  | Terminated
  | OutOfBound

definition EvaluateExpression ::
  "nat \<Rightarrow> eval_lib \<Rightarrow> (expr \<Rightarrow> string) \<Rightarrow> language_function linked_map \<Rightarrow> expr \<Rightarrow> configuration \<Rightarrow> outcome" where
  "EvaluateExpression n L annotate_object provider_functions expr env =
     (case Evaluate n L (LinkedMap_link (kBuiltInFunctions L) provider_functions) expr env of
        Inr v \<Rightarrow> Value v
      | Inl (EvaluationError msg while_eval user objs) \<Rightarrow>
          Logged
            ((if user then []
              else if while_eval
              then ''Expression evaluation traceback (most recent call last):'' @ std_endl else []) @
             c_str msg @ concat (map annotate_object objs)) user
      | Inl (StdException what) \<Rightarrow> Logged (c_str what) False
      | Inl Terminate \<Rightarrow> Terminated
      | Inl OutOfFuel \<Rightarrow> OutOfBound)"

end
