(* ===== verification/Jst_Evaluator_Local.thy ===== *)
theory Jst_Evaluator_Local
  imports Jst_Evaluator
begin

text \<open>
  Why the evaluation of an expression ends. A function of the language is local if it only asks
  for the values of expressions of a smaller rank and ends where these do. The rules of
  \<open>same_intros\<close> follow the structure of a definition; a locale states the contract of a table of
  functions, for which the evaluator ends, and the table of the builtin functions meets it.
\<close>

section \<open>Results that agree and have not run out of the bound\<close>

definition same :: "'a result \<Rightarrow> 'a result \<Rightarrow> bool" where
  "same r r' \<longleftrightarrow> r = r' \<and> r \<noteq> Inl OutOfFuel"

named_theorems same_intros \<open>two results agree if the results they are made of do\<close>

lemma same_Inr [same_intros]: "same (Inr x) (Inr x)"
  by (simp add: same_def)

lemma same_Inl: "e \<noteq> OutOfFuel \<Longrightarrow> same (Inl e) (Inl e)"
  by (simp add: same_def)

lemma same_unfold: "r = s \<Longrightarrow> same s s \<Longrightarrow> same r r"
  by simp

lemma same_errors [same_intros]:
  "same (Inl (StdException what)) (Inl (StdException what))"
  "same (Inl (ExpressionTypeError msg)) (Inl (ExpressionTypeError msg))"
  "same (eval_error msg) (eval_error msg)"
  "same (user_error msg objs) (user_error msg objs)"
  "same (cast_error t e) (cast_error t e)"
  "same (Inl (mk_error msg w u objs)) (Inl (mk_error msg w u objs))"
  "same (Inl (EvaluationError msg w u objs)) (Inl (EvaluationError msg w u objs))"
  by (simp_all add: same_def ExpressionTypeError_def eval_error_def user_error_def cast_error_def
      mk_error_def)

lemma same_bindE [same_intros]:
  assumes "same m m'" "\<And>x. m = Inr x \<Longrightarrow> same (f x) (f' x)"
  shows "same (bindE m f) (bindE m' f')"
  using assms by (cases m) (auto simp: same_def)

lemma same_mapE [same_intros]:
  assumes "\<And>x. x \<in> set xs \<Longrightarrow> same (f x) (f' x)"
  shows "same (mapE f xs) (mapE f' xs)"
  using assms by (induction xs) (auto intro!: same_intros)

lemma same_if [same_intros]:
  assumes "b \<Longrightarrow> same r r'" "\<not> b \<Longrightarrow> same s s'"
  shows "same (if b then r else s) (if b then r' else s')"
  using assms by simp

lemma same_case_option [same_intros]:
  assumes "v = None \<Longrightarrow> same r r'" "\<And>x. v = Some x \<Longrightarrow> same (f x) (f' x)"
  shows "same (case v of None \<Rightarrow> r | Some x \<Rightarrow> f x) (case v of None \<Rightarrow> r' | Some x \<Rightarrow> f' x)"
  using assms by (cases v) auto

lemma same_case_list [same_intros]:
  assumes "v = [] \<Longrightarrow> same r r'" "\<And>x xs. v = x # xs \<Longrightarrow> same (f x xs) (f' x xs)"
  shows "same (case v of [] \<Rightarrow> r | x # xs \<Rightarrow> f x xs) (case v of [] \<Rightarrow> r' | x # xs \<Rightarrow> f' x xs)"
  using assms by (cases v) auto

lemma same_case_prod [same_intros]:
  assumes "\<And>x y. v = (x, y) \<Longrightarrow> same (f x y) (f' x y)"
  shows "same (case v of (x, y) \<Rightarrow> f x y) (case v of (x, y) \<Rightarrow> f' x y)"
  using assms by (cases v) auto

lemma same_case_expr [same_intros]:
  assumes "e = ENone \<Longrightarrow> same r r'" "\<And>b. e = EBool b \<Longrightarrow> same (f1 b) (f1' b)"
    and "\<And>d. e = ENumber d \<Longrightarrow> same (f2 d) (f2' d)" "\<And>s. e = EString s \<Longrightarrow> same (f3 s) (f3' s)"
    and "\<And>n. e = EName n \<Longrightarrow> same (f4 n) (f4' n)" "\<And>a. e = EArtifact a \<Longrightarrow> same (f5 a) (f5' a)"
    and "\<And>x y z c. e = EResult x y z c \<Longrightarrow> same (f6 x y z c) (f6' x y z c)"
    and "\<And>n. e = ENode n \<Longrightarrow> same (f7 n) (f7' n)" "\<And>es. e = EList es \<Longrightarrow> same (f8 es) (f8' es)"
    and "\<And>m. e = EMap m \<Longrightarrow> same (f9 m) (f9' m)"
  shows "same (case_expr r f1 f2 f3 f4 f5 f6 f7 f8 f9 e) (case_expr r' f1' f2' f3' f4' f5' f6' f7' f8' f9' e)"
  using assms by (cases e) auto

lemma same_try_catch [same_intros]:
  assumes "same r r'" "\<And>msg w u objs. same (f msg w u objs) (f' msg w u objs)"
    and "\<And>what. same (g what) (g' what)"
  shows "same (try_catch r f g) (try_catch r' f' g')"
proof (cases r)
  case (Inl e)
  then have "r' = Inl e" "e \<noteq> OutOfFuel" using assms(1) by (auto simp: same_def)
  then show ?thesis using Inl assms(2,3) by (cases e) (simp_all add: same_Inl)
qed (use assms in \<open>auto simp: same_def\<close>)

lemma same_noexcept [same_intros]: "same r r' \<Longrightarrow> same (noexcept r) (noexcept r')"
  by (auto simp: same_def noexcept_def split: sum.splits exn.splits)

lemma same_WhileEval [same_intros]: "same (WhileEval w msg we user objs) (WhileEval w msg we user objs)"
  by (simp add: WhileEval_def same_def mk_error_def)

lemma same_WhileEvaluating [same_intros]: "same (WhileEvaluating w what) (WhileEvaluating w what)"
  by (simp add: WhileEvaluating_def same_def mk_error_def)

lemma same_while_text [same_intros]:
  "same w w' \<Longrightarrow> same r r' \<Longrightarrow> same (while_text w r) (while_text w' r')"
  unfolding while_text_def by (intro same_intros)

section \<open>Functions without evaluation\<close>

lemma same_casts [same_intros]:
  "same (as_string e) (as_string e)" "same (as_list e) (as_list e)" "same (as_map e) (as_map e)"
  unfolding as_string_def as_list_def as_map_def by (intro same_intros)+

lemma same_access [same_intros]:
  "same (At e key) (At e key)" "same (at_key e key) (at_key e key)" "same (Get e key d) (Get e key d)"
  unfolding At_def at_key_def Get_def by (intro same_intros)+

lemma same_dump [same_intros]: "same (dump L j) (dump L j)"
  by (auto simp: dump_def same_def split: sum.splits)

lemma same_case_JsonMode [same_intros]:
  assumes "same r r'" "same s s'" "same t t'"
  shows "same (case mode of SerializeAll \<Rightarrow> r | SerializeAllButNodes \<Rightarrow> s | NullForNonJson \<Rightarrow> t)
    (case mode of SerializeAll \<Rightarrow> r' | SerializeAllButNodes \<Rightarrow> s' | NullForNonJson \<Rightarrow> t')"
  using assms by (cases mode) auto

lemma mapE_InlD: "mapE f xs = Inl e \<Longrightarrow> \<exists>x \<in> set xs. f x = Inl e"
  by (induction xs) (auto simp: bindE_Inl_iff)

lemma noexcept_ends [simp]: "noexcept r = Inl OutOfFuel \<longleftrightarrow> r = Inl OutOfFuel"
  by (auto simp: noexcept_def split: sum.splits exn.splits)

lemma dump_ends [simp]: "dump L j \<noteq> Inl OutOfFuel"
  by (simp add: dump_def split: sum.splits)

lemma ends_ToJson:
  "ToJson L mode e \<noteq> Inl OutOfFuel"
  "ToHash L e \<noteq> Inl OutOfFuel"
proof (induction L mode e and L e rule: ToJson_ToHash.induct)
  case (6 L mode node)
  then show ?case by (cases mode; cases node) (auto simp: bindE_Inl_iff)
next
  case (9 L mode name)
  then show ?case by (cases name) (auto simp: bindE_Inl_iff)
qed (auto simp: bindE_Inl_iff dest!: mapE_InlD)

lemma same_ToJson [same_intros]:
  "same (ToJson L mode e) (ToJson L mode e)"
  "same (ToHash L e) (ToHash L e)"
  by (simp_all add: same_def ends_ToJson)

lemma same_ToString [same_intros]: "same (ToString L e) (ToString L e)"
  unfolding ToString_def by (intro same_intros)

lemma same_expr_eq [same_intros]: "same (expr_eq L a b) (expr_eq L a b)"
  unfolding expr_eq_def by (intro same_intros)

text \<open>The abbreviation in messages ends for a library that prints as documented.\<close>

definition lib_ends :: "eval_lib \<Rightarrow> bool" where
  "lib_ends L \<longleftrightarrow> compact_dump (lib_json L)"

lemma AbbreviateJson_defined:
  assumes "compact_dump N"
  shows "AbbreviateJson N j len \<noteq> None"
proof (cases "nl_dump N j")
  case (Inr full)
  obtain new where new: "TruncateJson N j 1 = Inr new"
    using truncate_defined(1) [OF assms Inr] by blast
  show ?thesis
  proof (cases "length full \<le> len \<or> len < length new")
    case True
    then show ?thesis using Inr new by (auto simp: AbbreviateJson_def abbreviate_loop.simps)
  next
    case False
    then show ?thesis
      using abbreviate_loop_ends [OF assms Inr, of len 1 new new] Inr new
      by (auto simp: AbbreviateJson_def)
  qed
qed (simp add: AbbreviateJson_def)

lemma same_ToAbbrevString [same_intros]:
  assumes "lib_ends L"
  shows "same (ToAbbrevString L e len) (ToAbbrevString L e len)"
proof -
  have "same (case AbbreviateJson (lib_json L) j len of None \<Rightarrow> Inl OutOfFuel
          | Some (Inl what) \<Rightarrow> Inl (StdException what) | Some (Inr s) \<Rightarrow> Inr s)
        (case AbbreviateJson (lib_json L) j len of None \<Rightarrow> Inl OutOfFuel
          | Some (Inl what) \<Rightarrow> Inl (StdException what) | Some (Inr s) \<Rightarrow> Inr s)" for j
    using AbbreviateJson_defined [of "lib_json L" j len] assms
    by (auto simp: same_def lib_ends_def split: option.splits sum.splits)
  then show ?thesis unfolding ToAbbrevString_def by (intro same_bindE same_ToJson)
qed

lemma same_config_Enumerate [same_intros]:
  "lib_ends L \<Longrightarrow> same (config_Enumerate L env prefix width) (config_Enumerate L env prefix width)"
  unfolding config_Enumerate_def enumerate_entry_def Let_def by (intro same_intros)

lemma same_Prune [same_intros]: "same (Prune env e) (Prune env e)"
proof -
  have "same (prune_subset env ks acc) (prune_subset env ks acc)" for ks acc
    by (induction env ks acc rule: prune_subset.induct) (simp_all only: prune_subset.simps, (intro same_intros)+)
  then show ?thesis unfolding Prune_def by (intro same_intros)
qed

section \<open>The functions on values\<close>

lemma same_having_evaluated [same_intros]: "lib_ends L \<Longrightarrow> same (having_evaluated L e) (having_evaluated L e)"
  unfolding having_evaluated_def by (intro same_intros)

lemma same_set_loop [same_intros]: "same (set_loop L es acc) (set_loop L es acc)"
  by (induction L es acc rule: set_loop.induct) (simp_all only: set_loop.simps, (intro same_intros)+)

lemma same_nub_loop [same_intros]: "same (nub_loop L es seen) (nub_loop L es seen)"
proof (induction es arbitrary: seen)
  case (Cons e es)
  then show ?case unfolding nub_loop.simps by (intro same_intros)
qed (simp add: same_intros)

lemma same_find_conflict [same_intros]: "same (find_conflict L me they) (find_conflict L me they)"
  by (induction L me they rule: find_conflict.induct)
    (simp_all only: find_conflict.simps, (intro same_intros | simp)+)

lemma same_check_disjoint [same_intros]:
  "lib_ends L \<Longrightarrow> same (check_disjoint L l r) (check_disjoint L l r)"
  unfolding check_disjoint_def Let_def by (intro same_intros)

lemma same_union_range:
  "lib_ends L \<Longrightarrow> same (union_range L disjoint dicts i j) (union_range L disjoint dicts i j)"
proof (induction L disjoint dicts i j rule: union_range.induct)
  case (1 L disjoint dicts i j)
  show ?case
    by (rule same_unfold [OF union_range.simps], unfold Let_def, intro same_intros;
        use 1 in \<open>simp del: union_range.simps\<close>)
qed

lemmas same_union_rules [same_intros] = same_union_range

lemma same_pure [same_intros]:
  "same (Flatten L e) (Flatten L e)" "same (Addition L e) (Addition L e)"
  "same (Multiplication L e) (Multiplication L e)" "same (All_true e) (All_true e)"
  "same (Any_true e) (Any_true e)" "same (Not_true e) (Not_true e)" "same (Keys e) (Keys e)"
  "same (Values e) (Values e)" "same (Enumerate L e) (Enumerate L e)" "same (Set L e) (Set L e)"
  "same (Reverse L e) (Reverse L e)" "same (Length L e) (Length L e)"
  "same (NubRight L e) (NubRight L e)" "same (NubLeft L e) (NubLeft L e)"
  "same (Range L e) (Range L e)" "same (BaseName e) (BaseName e)"
  "same (ChangeEndingTo e e') (ChangeEndingTo e e')" "same (Join L q s e sep) (Join L q s e sep)"
  "same (ConcatTargetName L e e') (ConcatTargetName L e e')"
  unfolding Flatten_def flatten_entry_def Addition_def Multiplication_def number_entry_def
    All_true_def Any_true_def Not_true_def Keys_def Values_def Enumerate_def Set_def Reverse_def
    Length_def NubRight_def NubLeft_def Nub_def Range_def Let_def BaseName_def ChangeEndingTo_def
    Join_def ConcatTargetName_def
  by (intro same_intros)+

lemma same_Union [same_intros]: "lib_ends L \<Longrightarrow> same (Union L disjoint e) (Union L disjoint e)"
  unfolding Union_def by (intro same_intros)

section \<open>The constructs\<close>

text \<open>
  Two evaluators that agree on everything smaller than a map with a type, and on the map that
  is the default range of a loop over maps.
\<close>

definition part :: "expr linked_map \<Rightarrow> expr \<Rightarrow> bool" where
  "part m e \<longleftrightarrow> size e < size (EMap m) \<or> e = kEmptyMapExpr"

definition agree_parts :: "expr linked_map \<Rightarrow> evaluator \<Rightarrow> evaluator \<Rightarrow> bool" where
  "agree_parts m eval eval' \<longleftrightarrow>
     Find m ''type'' \<noteq> None \<and> (\<forall>e env. part m e \<longrightarrow> same (eval e env) (eval' e env))"

lemma same_eval: "agree_parts m eval eval' \<Longrightarrow> part m e \<Longrightarrow> same (eval e env) (eval' e env)"
  by (simp add: agree_parts_def)

lemma size_Find: "Find m k = Some v \<Longrightarrow> size v < size (EMap m)"
  using size_linked_map_member [OF Find_member, of m k v size] by simp

lemma part_Find [intro]: "Find m k = Some e \<Longrightarrow> part m e"
  by (simp add: part_def size_Find del: expr.size)

lemma part_Find_member [intro]: "Find m k = Some (EList es) \<Longrightarrow> e \<in> set es \<Longrightarrow> part m e"
  using size_Find [of m k "EList es"] size_member(2) [of e es] by (simp add: part_def)

lemma part_Find_pair [intro]:
  assumes "Find m k = Some (EList es)" "EList ps \<in> set es" "e \<in> set ps"
  shows "part m e"
  using size_Find [OF assms(1)] size_member(2) [OF assms(2)] size_member(2) [OF assms(3)]
  by (simp add: part_def)

lemma part_Find_Find [intro]: "Find m k = Some (EMap m') \<Longrightarrow> Find m' k' = Some e \<Longrightarrow> part m e"
  using size_Find [of m k "EMap m'"] size_Find [of m' k' e] by (simp add: part_def)

lemma size_entries: "map_of kvs k = Some v \<Longrightarrow> Suc 0 < size_list (size_prod (\<lambda>_. 0) f) kvs"
  by (cases kvs) auto

lemma size_found: "Find m k = Some v \<Longrightarrow> size_linked_map size (LinkedMap_of []) < size_linked_map size m"
  by (induction m k rule: Find.induct)
    (auto simp: LinkedMap_of_def trans_less_add2 [OF size_entries] split: option.splits)

lemma part_defaults [simp]:
  "part m ENone" "part m (EBool b)" "part m (EString s)" "part m kEmptyList" "part m kEmptyMapExpr"
  "agree_parts m eval eval' \<Longrightarrow> part m kEmptyMap"
  using size_found [of m "''type''"]
  by (cases m; auto simp: part_def kEmptyList_def kEmptyMap_def agree_parts_def)+

lemma access_map [simp]:
  "At (EMap m) k = Inr (Find m k)"
  "as_map (EMap m) = Inr m"
  "at_key (EMap m) k = Inr e \<longleftrightarrow> Find m k = Some e"
  by (auto simp: At_def as_map_def at_key_def split: option.splits)

lemma Get_map: "Get (EMap m) k d = Inr (case Find m k of Some v \<Rightarrow> v | None \<Rightarrow> d)"
  by (simp add: Get_def)

lemma part_Get: "Get (EMap m) k d = Inr e \<Longrightarrow> part m d \<Longrightarrow> part m e"
  by (auto simp: Get_map split: option.splits)

lemma same_EvalArgument [same_intros]:
  "agree_parts m eval eval' \<Longrightarrow> same (EvalArgument k eval (EMap m) env) (EvalArgument k eval' (EMap m) env)"
  unfolding EvalArgument_def by (intro same_intros same_eval) auto

lemma same_eval_default [same_intros]:
  "agree_parts m eval eval' \<Longrightarrow> part m d \<Longrightarrow>
   same (eval_default k d eval (EMap m) env) (eval_default k d eval' (EMap m) env)"
  unfolding eval_default_def by (intro same_intros same_eval) (auto intro: part_Get)

lemma same_eval_key [same_intros]:
  "agree_parts m eval eval' \<Longrightarrow> same (eval_key k eval (EMap m) env) (eval_key k eval' (EMap m) env)"
  unfolding eval_key_def by (intro same_intros same_eval) auto

lemma same_UnaryExpr:
  assumes "lib_ends L" "agree_parts m eval eval'" "\<And>e. same (f e) (f e)"
  shows "same (UnaryExpr L f eval (EMap m) env) (UnaryExpr L f eval' (EMap m) env)"
  unfolding UnaryExpr_def by (intro same_intros assms)

lemma same_and_loop [same_intros]:
  "(\<And>c. c \<in> set cs \<Longrightarrow> same (ev c) (ev' c)) \<Longrightarrow> same (and_loop ev cs) (and_loop ev' cs)"
  by (induction cs) (auto intro!: same_intros)

lemma same_or_loop [same_intros]:
  "(\<And>c. c \<in> set cs \<Longrightarrow> same (ev c) (ev' c)) \<Longrightarrow> same (or_loop ev cs) (or_loop ev' cs)"
  by (induction cs) (auto intro!: same_intros)

lemma same_AndExpr:
  assumes "lib_ends L" "agree_parts m eval eval'"
  shows "same (AndExpr L eval (EMap m) env) (AndExpr L eval' (EMap m) env)"
    and "same (OrExpr L eval (EMap m) env) (OrExpr L eval' (EMap m) env)"
  unfolding AndExpr_def OrExpr_def LogicalAnd_def LogicalOr_def
  by (intro same_intros same_UnaryExpr same_eval [OF assms(2)] assms; use assms in auto)+

lemma same_splice [same_intros]: "same (splice L e r) (splice L e r)"
  unfolding splice_def by (intro same_intros)

lemma same_ExpandQuasiQuote:
  assumes "\<And>arg. size arg < size e \<Longrightarrow> same (ev arg) (ev' arg)"
  shows "same (ExpandQuasiQuoteListEntry L ev e) (ExpandQuasiQuoteListEntry L ev' e)
       \<and> same (ExpandQuasiQuote L ev e) (ExpandQuasiQuote L ev' e)"
  using assms
proof (induction "size e" arbitrary: e rule: less_induct)
  case less
  have IH: "same (ExpandQuasiQuoteListEntry L ev x) (ExpandQuasiQuoteListEntry L ev' x)"
    "same (ExpandQuasiQuote L ev x) (ExpandQuasiQuote L ev' x)" if "size x < size e" for x
    using less.hyps [OF that] less.prems that by (meson less_trans)+
  show ?case
  proof (cases e)
    case (EList es)
    then have mem: "size x < size e" if "x \<in> set es" for x
      using size_member(2) [OF that] EList by simp
    show ?thesis unfolding EList ExpandQuasiQuoteListEntry.simps ExpandQuasiQuote.simps
      by (intro conjI same_intros IH mem)
  next
    case (EMap m)
    have item: "size v < size e" if "x \<in> set (Items m)" "x = (k, v)" for x k v
      using size_member(1) [of k v m] that EMap by simp
    have found: "size v < size e" if "Find m k = Some v" for k v using size_Find [OF that] EMap by simp
    show ?thesis unfolding EMap ExpandQuasiQuoteListEntry.simps ExpandQuasiQuote.simps
      by (intro conjI same_intros IH less.prems; (erule found | erule item, assumption))
  qed (simp_all add: same_intros)
qed

lemma same_QuasiQuoteExpr:
  assumes "agree_parts m eval eval'"
  shows "same (QuasiQuoteExpr L eval (EMap m) env) (QuasiQuoteExpr L eval' (EMap m) env)"
proof -
  have "same (ExpandQuasiQuote L (\<lambda>arg. eval arg env) e) (ExpandQuasiQuote L (\<lambda>arg. eval' arg env) e)"
    if "Find m k = Some e" for e k
    using same_ExpandQuasiQuote [of e "\<lambda>arg. eval arg env" "\<lambda>arg. eval' arg env" L]
      same_eval [OF assms] size_Find [OF that] by (auto simp: part_def)
  then show ?thesis unfolding QuasiQuoteExpr_def by (intro same_intros) auto
qed

lemma same_simple_constructs:
  "same (QuoteExpr eval (EMap m) env) (QuoteExpr eval' (EMap m) env)"
  "same (OnlyInQuasiQuote eval (EMap m) env) (OnlyInQuasiQuote eval' (EMap m) env)"
  "same (EmptyMapExpr eval (EMap m) env) (EmptyMapExpr eval' (EMap m) env)"
  "same (EnvExpr L eval (EMap m) env) (EnvExpr L eval' (EMap m) env)"
  unfolding QuoteExpr_def OnlyInQuasiQuote_def EmptyMapExpr_def EnvExpr_def by (intro same_intros)+

lemma same_VarExpr:
  "agree_parts m eval eval' \<Longrightarrow> same (VarExpr eval (EMap m) env) (VarExpr eval' (EMap m) env)"
  unfolding VarExpr_def by (intro same_intros) simp_all

lemma same_cond_loop:
  assumes "\<And>e ps. EList ps \<in> set pairs \<Longrightarrow> e \<in> set ps \<Longrightarrow> same (ev e) (ev' e)"
  shows "same (cond_loop L ev pairs) (cond_loop L ev' pairs)"
  using assms
proof (induction pairs)
  case (Cons pair pairs)
  have IH: "same (cond_loop L ev pairs) (cond_loop L ev' pairs)" using Cons by (meson list.set_intros(2))
  have P: "same (ev x) (ev' x)" if "pair = EList ps" "x \<in> set ps" for x ps
    using Cons.prems [of ps x] that by simp
  show ?case unfolding cond_loop.simps
    by (intro same_intros IH; rule P, assumption, simp)
qed (simp add: same_intros)

lemma same_seq_case_loop:
  assumes "\<And>e ps. EList ps \<in> set pairs \<Longrightarrow> e \<in> set ps \<Longrightarrow> same (ev e) (ev' e)"
  shows "same (seq_case_loop L ev cmp pairs) (seq_case_loop L ev' cmp pairs)"
  using assms
proof (induction pairs)
  case (Cons pair pairs)
  have IH: "same (seq_case_loop L ev cmp pairs) (seq_case_loop L ev' cmp pairs)"
    using Cons by (meson list.set_intros(2))
  have P: "same (ev x) (ev' x)" if "pair = EList ps" "x \<in> set ps" for x ps
    using Cons.prems [of ps x] that by simp
  show ?case unfolding seq_case_loop.simps
    by (intro same_intros IH; rule P, assumption, simp)
qed (simp add: same_intros)

lemma same_conditionals:
  assumes "agree_parts m eval eval'"
  shows "same (IfExpr eval (EMap m) env) (IfExpr eval' (EMap m) env)"
    and "same (CondExpr L eval (EMap m) env) (CondExpr L eval' (EMap m) env)"
    and "same (CaseExpr L eval (EMap m) env) (CaseExpr L eval' (EMap m) env)"
    and "same (SeqCaseExpr L eval (EMap m) env) (SeqCaseExpr L eval' (EMap m) env)"
    and "same (EqualExpr L eval (EMap m) env) (EqualExpr L eval' (EMap m) env)"
  unfolding IfExpr_def CondExpr_def CaseExpr_def SeqCaseExpr_def EqualExpr_def
  by (intro same_intros same_cond_loop same_seq_case_loop same_eval [OF assms] assms part_defaults;
      auto)+

lemma same_strings:
  assumes "agree_parts m eval eval'"
  shows "same (ChangeEndingExpr eval (EMap m) env) (ChangeEndingExpr eval' (EMap m) env)"
    and "same (JoinExpr L eval (EMap m) env) (JoinExpr L eval' (EMap m) env)"
    and "same (JoinCmdExpr L eval (EMap m) env) (JoinCmdExpr L eval' (EMap m) env)"
    and "same (JsonEncodeExpr L eval (EMap m) env) (JsonEncodeExpr L eval' (EMap m) env)"
    and "same (EscapeCharsExpr eval (EMap m) env) (EscapeCharsExpr eval' (EMap m) env)"
    and "same (ConcatTargetNameExpr L eval (EMap m) env) (ConcatTargetNameExpr L eval' (EMap m) env)"
  unfolding ChangeEndingExpr_def JoinExpr_def JoinCmdExpr_def JsonEncodeExpr_def EscapeCharsExpr_def
    escape_one_def ConcatTargetNameExpr_def
  by (intro same_intros assms part_defaults)+

lemma same_containers:
  assumes "agree_parts m eval eval'"
  shows "same (LookupExpr L eval (EMap m) env) (LookupExpr L eval' (EMap m) env)"
    and "same (ArrayAccessExpr L eval (EMap m) env) (ArrayAccessExpr L eval' (EMap m) env)"
    and "same (SingletonMapExpr eval (EMap m) env) (SingletonMapExpr eval' (EMap m) env)"
  unfolding LookupExpr_def ArrayAccessExpr_def SingletonMapExpr_def Let_def
  by (intro same_intros assms part_defaults)+

lemma same_user_message:
  assumes "same (eval e env) (eval' e env)"
  shows "same (user_message L eval e env) (user_message L eval' e env)"
  unfolding user_message_def non_evaluating_def by (intro same_intros assms)

lemma same_conflicts:
  assumes "agree_parts m eval eval'"
  shows "same (flat_conflict L eval (EMap m) env d subdir key) (flat_conflict L eval' (EMap m) env d subdir key)"
    and "same (staging_conflict L eval (EMap m) env d subdir key) (staging_conflict L eval' (EMap m) env d subdir key)"
  unfolding flat_conflict_def staging_conflict_def
  by (intro same_intros same_user_message same_eval [OF assms]; auto)+

lemma same_same_entry [same_intros]: "same (same_entry L a b) (same_entry L a b)"
  unfolding same_entry_def by (intro same_intros)

lemma same_flat_loop [same_intros]:
  assumes "\<And>key. same (conf key) (conf' key)"
  shows "same (flat_loop L subdir conf kvs acc) (flat_loop L subdir conf' kvs acc)"
proof (induction kvs arbitrary: acc)
  case (Cons kv kvs)
  then show ?case by (cases kv) (auto simp: Let_def intro!: same_intros assms)
qed (simp add: same_intros)

lemma same_stage_loop [same_intros]:
  assumes "\<And>key. same (conf key) (conf' key)"
  shows "same (stage_loop L path conf kvs acc) (stage_loop L path conf' kvs acc)"
proof (induction kvs arbitrary: acc)
  case (Cons kv kvs)
  then show ?case by (cases kv) (auto intro!: same_intros assms)
qed (simp add: same_intros)

lemma same_staging:
  assumes "agree_parts m eval eval'"
  shows "same (ToSubdirExpr L eval (EMap m) env) (ToSubdirExpr L eval' (EMap m) env)"
    and "same (FromSubdirExpr L eval (EMap m) env) (FromSubdirExpr L eval' (EMap m) env)"
  unfolding ToSubdirExpr_def FromSubdirExpr_def
  by (intro same_intros same_conflicts assms part_defaults)+

lemma same_zip_map_loop [same_intros]: "same (zip_map_loop kvs acc) (zip_map_loop kvs acc)"
  by (induction kvs acc rule: zip_map_loop.induct) (auto intro!: same_intros)

lemma same_fold_loop:
  assumes "\<And>env. same (eval body env) (eval' body env)"
  shows "same (fold_loop eval body env var accum_var xs val) (fold_loop eval' body env var accum_var xs val)"
  by (induction xs arbitrary: val) (auto intro!: same_intros assms)

lemma same_iterations:
  assumes "agree_parts m eval eval'"
  shows "same (ForeachExpr eval (EMap m) env) (ForeachExpr eval' (EMap m) env)"
    and "same (ForeachMapExpr eval (EMap m) env) (ForeachMapExpr eval' (EMap m) env)"
    and "same (ZipWithExpr eval (EMap m) env) (ZipWithExpr eval' (EMap m) env)"
    and "same (ZipMapExpr eval (EMap m) env) (ZipMapExpr eval' (EMap m) env)"
    and "same (FoldLeftExpr eval (EMap m) env) (FoldLeftExpr eval' (EMap m) env)"
  unfolding ForeachExpr_def ForeachMapExpr_def ZipWithExpr_def ZipMapExpr_def FoldLeftExpr_def
  by (intro same_intros same_fold_loop same_eval [OF assms] assms part_defaults;
      auto intro: part_Get)+

lemma same_let_loop:
  assumes "\<And>e ps env. EList ps \<in> set bs \<Longrightarrow> e \<in> set ps \<Longrightarrow> same (eval e env) (eval' e env)"
  shows "same (let_loop L eval pos bs env) (let_loop L eval' pos bs env)"
  using assms
proof (induction bs arbitrary: pos env)
  case (Cons b bs)
  have IH: "same (let_loop L eval pos bs env) (let_loop L eval' pos bs env)" for pos env
    using Cons by (meson list.set_intros(2))
  have P: "same (eval x env) (eval' x env)" if "b = EList ps" "x \<in> set ps" for x ps env
    using Cons.prems [of ps x] that by simp
  show ?case unfolding let_loop.simps binding_text_def
    by (intro same_intros IH; rule P, assumption, simp)
qed (simp add: same_intros)

lemma same_LetExpr:
  assumes "agree_parts m eval eval'"
  shows "same (LetExpr L eval (EMap m) env) (LetExpr L eval' (EMap m) env)"
  unfolding LetExpr_def
  by (intro same_intros same_let_loop same_eval [OF assms];
      auto intro: part_Get part_defaults(6) [OF assms])

lemma same_messages:
  assumes "lib_ends L" "agree_parts m eval eval'"
  shows "same (ContextExpr L eval (EMap m) env) (ContextExpr L eval' (EMap m) env)"
    and "same (DisjointUnionExpr L eval (EMap m) env) (DisjointUnionExpr L eval' (EMap m) env)"
    and "same (FailExpr L eval (EMap m) env) (FailExpr L eval' (EMap m) env)"
    and "same (AssertExpr L eval (EMap m) env) (AssertExpr L eval' (EMap m) env)"
    and "same (AssertNonEmptyExpr L eval (EMap m) env) (AssertNonEmptyExpr L eval' (EMap m) env)"
  unfolding ContextExpr_def context_text_def DisjointUnionExpr_def union_text_def FailExpr_def
    AssertExpr_def AssertNonEmptyExpr_def
  by (intro same_intros same_user_message same_eval [OF assms(2)] assms part_defaults;
      auto intro: part_Get part_defaults(6) [OF assms(2)])+

section \<open>Tables of functions\<close>

definition rank :: "expr \<Rightarrow> nat" where
  "rank e = (if e = kEmptyMapExpr then 0 else Suc (size e))"

definition local_function :: "string \<Rightarrow> language_function \<Rightarrow> bool" where
  "local_function name f \<longleftrightarrow>
     (\<forall>m env eval eval'.
        Find m ''type'' = Some (EString name) \<longrightarrow>
        (\<forall>e env. rank e < rank (EMap m) \<longrightarrow> same (eval e env) (eval' e env)) \<longrightarrow>
        same (f eval (EMap m) env) (f eval' (EMap m) env))"

lemma local_functionI:
  assumes "\<And>m env eval eval'. agree_parts m eval eval' \<Longrightarrow> same (f eval (EMap m) env) (f eval' (EMap m) env)"
    and "name \<noteq> ''empty_map''"
  shows "local_function name f"
  unfolding local_function_def
proof (intro allI impI)
  fix m env and eval eval' :: evaluator
  assume m: "Find m ''type'' = Some (EString name)"
    and ev: "\<forall>e env. rank e < rank (EMap m) \<longrightarrow> same (eval e env) (eval' e env)"
  have "EMap m \<noteq> kEmptyMapExpr"
    using m assms(2) by (auto simp: kEmptyMapExpr_def LinkedMap_of_def)
  then have "rank e < rank (EMap m)" if "part m e" for e
    using that by (auto simp: rank_def part_def)
  then have "agree_parts m eval eval'" using m ev by (simp add: agree_parts_def)
  then show "same (f eval (EMap m) env) (f eval' (EMap m) env)" by (rule assms(1))
qed

lemma local_UnaryExpr:
  assumes "lib_ends L" "\<And>e. same (f e) (f e)" "name \<noteq> ''empty_map''"
  shows "local_function name (UnaryExpr L f)"
  by (intro local_functionI same_UnaryExpr assms)

lemma local_EmptyMapExpr: "local_function name EmptyMapExpr"
  by (simp add: local_function_def same_simple_constructs)

lemmas local_constructs =
  same_simple_constructs same_VarExpr same_QuasiQuoteExpr same_conditionals same_AndExpr same_strings
  same_containers same_staging same_iterations same_LetExpr same_messages

text \<open>The contract of a table: where the libraries end, its functions are local.\<close>

locale language =
  fixes table :: "eval_lib \<Rightarrow> language_function linked_map"
  assumes local: "lib_ends L \<Longrightarrow> Find (table L) name = Some f \<Longrightarrow> local_function name f"
begin

lemma same_apply_function:
  assumes "lib_ends L"
    and "\<And>e env. rank e < rank (EMap m) \<Longrightarrow> same (eval e env) (eval' e env)"
  shows "same (apply_function L (table L) eval m env) (apply_function L (table L) eval' m env)"
proof -
  have "same (f eval (EMap m) env) (f eval' (EMap m) env)"
    if "Find (table L) name = Some f" "Find m ''type'' = Some t" "as_string t = Inr name" for name f t
  proof -
    have "t = EString name" using that(3) by (auto simp: as_string_def cast_error_def split: expr.splits)
    then show ?thesis using local [OF assms(1) that(1)] that(2) assms(2) by (auto simp: local_function_def)
  qed
  then show ?thesis unfolding apply_function_def by (intro same_intros) auto
qed

lemma same_extend_error:
  assumes "lib_ends L" "same r r'"
  shows "same (extend_error L e env r) (extend_error L e env r')"
  unfolding extend_error_def ExtendedErrorMessage_def by (intro same_intros assms)

lemma Evaluate_same:
  assumes "lib_ends L" "rank e < n" "rank e < n'"
  shows "same (Evaluate n L (table L) e env) (Evaluate n' L (table L) e env)"
  using assms(2,3)
proof (induction n arbitrary: n' e env)
  case (Suc n)
  obtain k where n': "n' = Suc k" using Suc.prems(2) by (cases n') auto
  have IH: "same (Evaluate n L (table L) x env) (Evaluate k L (table L) x env)"
    if "rank x < rank e" for x env
    using Suc.IH [of x k] Suc.prems n' that by simp
  have body: "same
      (case e of EList es \<Rightarrow> if es = [] then Inr e
          else bindE (mapE (\<lambda>x. Evaluate n L (table L) x env) es) (\<lambda>vs. Inr (EList vs))
        | EMap m \<Rightarrow> apply_function L (table L) (Evaluate n L (table L)) m env | _ \<Rightarrow> Inr e)
      (case e of EList es \<Rightarrow> if es = [] then Inr e
          else bindE (mapE (\<lambda>x. Evaluate k L (table L) x env) es) (\<lambda>vs. Inr (EList vs))
        | EMap m \<Rightarrow> apply_function L (table L) (Evaluate k L (table L)) m env | _ \<Rightarrow> Inr e)"
  proof (cases e)
    case (EList es)
    have mem: "rank x < rank e" if "x \<in> set es" for x
      using size_member(2) [OF that] EList by (auto simp: rank_def kEmptyMapExpr_def)
    show ?thesis unfolding EList expr.case by (intro same_intros IH mem)
  next
    case (EMap m)
    then show ?thesis using same_apply_function [OF assms(1), of m] IH by simp
  qed (simp_all add: same_intros)
  show ?case unfolding n' Evaluate.simps by (intro same_extend_error assms(1) body)
qed simp

end

section \<open>The builtin functions\<close>

lemma map_of_initializer_map: "map_of (initializer_map kvs) = map_of kvs"
  by (induction kvs rule: initializer_map.induct) (simp_all add: map_of_map_put)

lemma local_builtin_entries:
  assumes "lib_ends L"
  shows "list_all (\<lambda>(name, f). local_function name f) (builtin_entries L)"
  unfolding builtin_entries_def list.pred_inject prod.case
  by (intro conjI TrueI local_UnaryExpr local_EmptyMapExpr local_functionI local_constructs
        same_pure same_Union assms; simp)

interpretation builtins: language kBuiltInFunctions
proof
  fix L name f
  assume L: "lib_ends L" and "Find (kBuiltInFunctions L) name = Some f"
  then have "(name, f) \<in> set (builtin_entries L)"
    by (auto simp: kBuiltInFunctions_def Find_of map_of_initializer_map dest: map_of_SomeD)
  then show "local_function name f"
    using local_builtin_entries [OF L] by (auto simp: list_all_iff)
qed

text \<open>The table of an evaluation: the builtin functions, shadowed by those of the caller.\<close>

lemma language_link:
  assumes "language table"
  shows "language (\<lambda>L. LinkedMap_link (kBuiltInFunctions L) (table L))"
proof
  fix L name f
  assume "lib_ends L" "Find (LinkedMap_link (kBuiltInFunctions L) (table L)) name = Some f"
  then show "local_function name f"
    using builtins.local [of L name f] language.local [OF assms, of L name f]
    by (auto simp: Find_link map_add_def split: option.splits)
qed

end
