(* ===== verification/Jst_Evaluator_Props.thy ===== *)
theory Jst_Evaluator_Props
  imports Jst_Evaluator_Local Jst_Hash_Props "HOL-Library.Sublist"
begin

text \<open>
  What the evaluator and the builtin functions of the expression language compute: evaluation
  ends, unions of maps are the overriding union of the abstract maps, removal of duplicates is
  that of the library of lists, a joined command line is read back by a shell, a value is read
  back from its JSON form, and what quasi-quotation does with templates.
\<close>

section \<open>Evaluation ends\<close>

text \<open>
  C27: Every evaluation ends: if the functions of the caller only evaluate parts of the
  expression they are called for, as the builtin functions do, and the JSON library prints as it
  documents, then an evaluation with a bound above the size of the expression is not cut off, and
  its result does not depend on the bound.
\<close>

theorem evaluation_ends:
  assumes json: "compact_dump (lib_json L)"
    and provider: "\<And>name f. Find provider_functions name = Some f \<Longrightarrow> local_function name f"
    and bound: "rank expr < n" "n \<le> k"
  shows "EvaluateExpression k L annotate_object provider_functions expr env \<noteq> OutOfBound
       \<and> EvaluateExpression k L annotate_object provider_functions expr env =
         EvaluateExpression n L annotate_object provider_functions expr env"
proof -
  have "language (\<lambda>L. LinkedMap_link (kBuiltInFunctions L) provider_functions)"
    by (intro language_link language.intro provider)
  then have "same (Evaluate n L (LinkedMap_link (kBuiltInFunctions L) provider_functions) expr env)
      (Evaluate k L (LinkedMap_link (kBuiltInFunctions L) provider_functions) expr env)"
    using language.Evaluate_same [where n = n and n' = k] json bound by (fastforce simp: lib_ends_def)
  then show ?thesis
    by (auto simp: same_def EvaluateExpression_def split: sum.splits exn.splits)
qed

definition sample_lib :: eval_lib where
  "sample_lib = \<lparr>lib_json = sample_nlohmann, lib_openssl = sample_openssl, expression_log_limit = 320,
                 lround_outside = (\<lambda>_. 0)\<rparr>"

text \<open>A function of the caller that reads a variable, and an expression that uses it.\<close>

definition sample_provider :: "language_function linked_map" where
  "sample_provider = LinkedMap_single ''FIELD'' (\<lambda>eval expr env. Inr (config_at env ''x''))"

definition sample_call :: expr where
  "sample_call = EList [EMap (LinkedMap_of [(''type'', EString ''FIELD'')])]"

theorem evaluation_ends_witness:
  "EvaluateExpression 30 sample_lib (\<lambda>_. []) sample_provider sample_call (LinkedMap_single ''x'' (EBool True)) =
     EvaluateExpression 20 sample_lib (\<lambda>_. []) sample_provider sample_call (LinkedMap_single ''x'' (EBool True))"
proof -
  have "local_function name f" if "Find sample_provider name = Some f" for name f
    using that
    by (auto simp: sample_provider_def LinkedMap_single_def local_function_def same_def split: if_splits)
  moreover have "rank sample_call < 20"
    by (simp add: rank_def sample_call_def kEmptyMapExpr_def LinkedMap_of_def)
  moreover have "compact_dump (lib_json sample_lib)"
    by (simp add: sample_lib_def sample_compact)
  ultimately show ?thesis
    using evaluation_ends [of sample_lib sample_provider sample_call 20 30] by simp
qed

section \<open>Linked maps are maps\<close>

lemma linked_map_values:
  assumes "lm_ok m"
  shows "snd ` set (Items m) = ran (Find m)"
  using Find_Items [OF assms] ran_distinct [of "Items m"] items_ordered [OF assms]
  by (simp add: ordered_keys_def)

text \<open>
  C28: A linked map implements the map that its lookup computes: the items are its entries once
  each, in the order of the keys, equal for equal maps however they are linked; size, keys and
  emptiness are those of the map, and linking is the overriding union, which again is a
  well-formed linked map.
\<close>

theorem linked_map_implements:
  assumes "lm_ok m" "lm_ok m'"
  shows "map_of (Items m) = Find m \<and> ordered_keys (Items m) \<and>
    (Items m = Items m' \<longleftrightarrow> Find m = Find m') \<and>
    lm_size m = card (dom (Find m)) \<and> set (lm_keys m) = dom (Find m) \<and> set (lm_values m) = ran (Find m) \<and>
    (lm_empty m \<longleftrightarrow> Find m = Map.empty) \<and>
    Find (LinkedMap_link m m') = Find m ++ Find m' \<and> lm_ok (LinkedMap_link m m')"
proof -
  have "distinct (map fst (Items m))"
    using items_ordered [OF assms(1)] by (simp add: ordered_keys_def)
  moreover from this have "card (dom (Find m)) = length (Items m)"
    by (metis Find_Items [OF assms(1)] dom_map_of_conv_image_fst distinct_card length_map set_map)
  ultimately show ?thesis
    using assms Find_Items [OF assms(1)] items_ordered [OF assms(1)] items_eq_iff [OF assms]
      linked_map_values [OF assms(1)]
    by (simp add: lm_size_def lm_keys_def lm_values_def lm_empty_iff Find_link lm_ok_constructed
        flip: dom_map_of_conv_image_fst)
qed

theorem linked_map_implements_witness:
  "map_of (Items (LinkedMap_link (LinkedMap_of [(''a'', True)]) (LinkedMap_single ''b'' False))) =
     [''a'' \<mapsto> True, ''b'' \<mapsto> False]"
  using linked_map_implements
    [of "LinkedMap_link (LinkedMap_of [(''a'', True)]) (LinkedMap_single ''b'' False)" "LinkedMap_single ''b'' False"]
  by (auto simp: lm_ok_constructed ordered_keys_def Find_link Find_of LinkedMap_single_def map_add_def
      fun_eq_iff split: option.splits)

section \<open>Unions\<close>

definition entries :: "expr \<Rightarrow> string \<Rightarrow> expr option" where
  "entries e = (case e of EMap m \<Rightarrow> Find m | _ \<Rightarrow> Map.empty)"

definition override :: "expr list \<Rightarrow> string \<Rightarrow> expr option" where
  "override es = foldl (\<lambda>f e. f ++ entries e) Map.empty es"

lemma override_foldl: "foldl (\<lambda>f e. f ++ entries e) f es = f ++ override es"
  unfolding override_def by (induction es rule: rev_induct) simp_all

lemma override_append: "override (xs @ ys) = override xs ++ override ys"
proof -
  have "override (xs @ ys) = foldl (\<lambda>f e. f ++ entries e) (override xs) ys"
    by (simp add: override_def)
  then show ?thesis by (simp only: override_foldl)
qed

lemma override_single: "override [EMap m] = Find m"
  by (simp add: override_def entries_def)

text \<open>The part of a list between two positions.\<close>

definition between :: "nat \<Rightarrow> nat \<Rightarrow> 'a list \<Rightarrow> 'a list" where
  "between i j xs = drop i (take j xs)"

lemma between_split:
  assumes "i \<le> k" "k \<le> j"
  shows "between i k xs @ between k j xs = between i j xs"
proof -
  have "take j xs = take k xs @ drop k (take j xs)"
    using assms(2) append_take_drop_id [of k "take j xs"] by (simp add: min_def)
  then have "drop i (take j xs) = drop i (take k xs @ drop k (take j xs))" by (rule arg_cong)
  also have "\<dots> = drop i (take k xs) @ drop k (take j xs)"
    using assms by (cases "k \<le> length xs") auto
  finally show ?thesis by (simp add: between_def)
qed

lemma between_single: "i < length xs \<Longrightarrow> between i (Suc i) xs = [xs ! i]"
  by (simp add: between_def take_Suc_conv_app_nth)

lemma between_empty: "j \<le> i \<Longrightarrow> between i j xs = []"
  by (simp add: between_def)

definition not_a_map :: "eval_lib \<Rightarrow> expr \<Rightarrow> 'a result" where
  "not_a_map L e =
     bindE (ToString L e) (\<lambda>s. eval_error (''Map union list element is not a map: '' @ s))"

definition join_halves :: "eval_lib \<Rightarrow> bool \<Rightarrow> expr linked_map \<Rightarrow> expr linked_map \<Rightarrow> expr linked_map result" where
  "join_halves L disjoint left right =
     (if lm_empty left then Inr right
      else if lm_empty right then Inr left
      else bindE (if disjoint then check_disjoint L left right else Inr ()) (\<lambda>_.
             Inr (LinkedMap_link left right)))"

lemma union_range_cases:
  "j \<le> i \<Longrightarrow> union_range L disjoint es i j = Inr (LinkedMap_of [])"
  "es ! i = EMap m \<Longrightarrow> union_range L disjoint es i (Suc i) = Inr m"
  "\<not> is_map (es ! i) \<Longrightarrow> union_range L disjoint es i (Suc i) = not_a_map L (es ! i)"
  "Suc i < j \<Longrightarrow> k = i + (j - i) div 2 \<Longrightarrow> union_range L disjoint es i j =
     bindE (union_range L disjoint es i k) (\<lambda>left. bindE (union_range L disjoint es k j) (join_halves L disjoint left))"
  by (simp_all add: not_a_map_def is_map_def join_halves_def [abs_def] Let_def
      union_range.simps [of L disjoint es i j] union_range.simps [of L disjoint es i "Suc i"]
      split: expr.splits del: union_range.simps)

declare union_range.simps [simp del]

lemma not_a_map_bindE [simp]: "bindE (not_a_map L e) f = not_a_map L e"
  by (cases "ToString L e") (simp_all add: not_a_map_def eval_error_def)

text \<open>Induction over the halves of a range.\<close>

lemma range_induct [case_names empty single split]:
  assumes "\<And>i j. j \<le> i \<Longrightarrow> P i j" "\<And>i. P i (Suc i)"
    and "\<And>i j k. Suc i < j \<Longrightarrow> k = i + (j - i) div 2 \<Longrightarrow> i < k \<Longrightarrow> k < j \<Longrightarrow> P i k \<Longrightarrow> P k j \<Longrightarrow> P i j"
  shows "P i (j :: nat)"
proof (induction "j - i" arbitrary: i j rule: less_induct)
  case less
  consider "j \<le> i" | "j = Suc i" | "Suc i < j" by linarith
  then show ?case
  proof cases
    case 3
    define k where "k = i + (j - i) div 2"
    have k: "i < k" "k < j" using 3 by (auto simp: k_def)
    then have "P i k" "P k j" by (auto intro: less)
    then show ?thesis using assms(3) 3 k k_def by blast
  qed (use assms in auto)
qed

lemma union_range_maps:
  assumes "j \<le> length es" "list_all is_map (between i j es)"
  shows "\<exists>m. union_range L False es i j = Inr m \<and> Find m = override (between i j es)"
  using assms
proof (induction i j rule: range_induct)
  case (empty i j)
  then show ?case by (simp add: union_range_cases between_empty Find_of override_def)
next
  case (single i)
  then obtain m where "es ! i = EMap m" by (auto simp: between_single is_map_def split: expr.splits)
  then show ?case using single by (simp add: union_range_cases between_single override_single)
next
  case (split i j k)
  have parts: "between i j es = between i k es @ between k j es"
    using split by (simp add: between_split)
  obtain l r where lr: "union_range L False es i k = Inr l" "Find l = override (between i k es)"
      "union_range L False es k j = Inr r" "Find r = override (between k j es)"
    using split.IH split.prems split.hyps unfolding parts by (auto simp: list_all_append)
  have "\<exists>m. join_halves L False l r = Inr m \<and> Find m = Find l ++ Find r"
    by (auto simp: join_halves_def lm_empty_iff Find_link)
  then show ?case
    using lr by (simp add: union_range_cases(4) [OF split.hyps(1,2)] parts override_append)
qed

lemma union_range_not_map:
  assumes "j \<le> length es" "between i j es = pre @ e # post" "list_all is_map pre" "\<not> is_map e"
  shows "union_range L False es i j = not_a_map L e"
  using assms(1,2,3)
proof (induction i j arbitrary: pre post rule: range_induct)
  case (empty i j)
  then show ?case by (simp add: between_empty)
next
  case (single i)
  then have "es ! i = e" by (cases pre) (simp_all add: between_single)
  then show ?case using assms(4) by (simp add: union_range_cases)
next
  case (split i j k)
  have parts: "between i j es = between i k es @ between k j es"
    using split by (simp add: between_split)
  then have "between i k es @ between k j es = pre @ e # post" using split.prems by simp
  then consider us where "pre = between i k es @ us" "between k j es = us @ e # post"
    | us where "between i k es = pre @ e # us"
    by (auto simp: append_eq_append_conv2 append_eq_Cons_conv Cons_eq_append_conv)
  then show ?case
  proof cases
    case 1
    then obtain l where "union_range L False es i k = Inr l"
      using union_range_maps [of k es i L] split.hyps split.prems by (auto simp: list_all_append)
    then show ?thesis
      using 1 split.IH(2) [of us post] split.prems
      by (simp add: union_range_cases(4) [OF split.hyps(1,2)] list_all_append)
  next
    case 2
    then have "union_range L False es i k = not_a_map L e"
      using split.IH(1) [of pre us] split.hyps split.prems by simp
    then show ?thesis by (simp add: union_range_cases(4) [OF split.hyps(1,2)])
  qed
qed

text \<open>
  C29: The union of a list of maps by halves is the union from left to right, in which later
  maps override earlier ones; if an entry of the list is not a map, the error is that of the
  first one.
\<close>

theorem map_union_overrides:
  "if list_all is_map es
   then \<exists>m. Union L False (EList es) = Inr (EMap m) \<and> Find m = foldl (\<lambda>f e. f ++ entries e) Map.empty es
   else \<exists>pre e post. es = pre @ e # post \<and> list_all is_map pre \<and> \<not> is_map e \<and>
        Union L False (EList es) =
          bindE (ToString L e) (\<lambda>s. eval_error (''Map union list element is not a map: '' @ s))"
proof (cases "list_all is_map es")
  case True
  have "between 0 (length es) es = es" by (simp add: between_def)
  then obtain m where "union_range L False es 0 (length es) = Inr m" "Find m = override es"
    using union_range_maps [of "length es" es 0 L] True by auto
  then show ?thesis
    using True by (cases "es = []") (auto simp: Union_def kEmptyMap_def Find_of override_def)
next
  case False
  then obtain pre e post where es: "es = pre @ e # post" "list_all is_map pre" "\<not> is_map e"
    using split_list_first_prop [of es "\<lambda>e. \<not> is_map e"] by (auto simp: list_all_iff)
  have "between 0 (length es) es = es" by (simp add: between_def)
  then have "union_range L False es 0 (length es) = not_a_map L e"
    using union_range_not_map [of "length es" es 0 pre e post L] es by simp
  then have "Union L False (EList es) = not_a_map L e" using es by (simp add: Union_def)
  then show ?thesis using False es unfolding not_a_map_def by (simp only: if_False) blast
qed

subsection \<open>Disjoint unions\<close>

text \<open>The values of the maps have hashes, and those of equal keys are equal.\<close>

definition hashed :: "eval_lib \<Rightarrow> (expr \<Rightarrow> string) \<Rightarrow> (string \<Rightarrow> expr option) \<Rightarrow> bool" where
  "hashed L h f \<longleftrightarrow> (\<forall>v \<in> ran f. ToHash L v = Inr (h v))"

definition consistent :: "(expr \<Rightarrow> string) \<Rightarrow> expr list \<Rightarrow> bool" where
  "consistent h es \<longleftrightarrow>
     (\<forall>e \<in> set es. \<forall>e' \<in> set es. \<forall>k v v'. entries e k = Some v \<longrightarrow> entries e' k = Some v' \<longrightarrow> h v = h v')"

abbreviation same_hash :: "(expr \<Rightarrow> string) \<Rightarrow> expr \<Rightarrow> expr \<Rightarrow> bool" where
  "same_hash h a b \<equiv> h a = h b"

lemma consistentD:
  "consistent h es \<Longrightarrow> e \<in> set es \<Longrightarrow> e' \<in> set es \<Longrightarrow> entries e k = Some v \<Longrightarrow> entries e' k = Some v' \<Longrightarrow>
   h v = h v'"
  unfolding consistent_def by blast

lemma consistentI:
  assumes "\<And>e e' k v v'. e \<in> set es \<Longrightarrow> e' \<in> set es \<Longrightarrow> entries e k = Some v \<Longrightarrow>
      entries e' k = Some v' \<Longrightarrow> h v = h v'"
  shows "consistent h es"
  unfolding consistent_def using assms by blast

lemma override_from: "override es k = Some v \<Longrightarrow> \<exists>e \<in> set es. entries e k = Some v"
  by (induction es rule: rev_induct) (auto simp: override_def)

lemma override_defined: "e \<in> set es \<Longrightarrow> entries e k = Some w \<Longrightarrow> \<exists>v. override es k = Some v"
  by (induction es rule: rev_induct) (auto simp: override_def map_add_def split: option.splits)

lemma override_consistent:
  assumes "consistent h es" "e \<in> set es" "entries e k = Some w"
  shows "\<exists>v. override es k = Some v \<and> h v = h w"
proof -
  obtain v where v: "override es k = Some v" using override_defined assms(2,3) by blast
  obtain e' where "e' \<in> set es" "entries e' k = Some v" using override_from [OF v] by blast
  then have "h v = h w" using consistentD [OF assms(1) _ assms(2) _ assms(3)] by blast
  then show ?thesis using v by blast
qed

lemma consistent_append:
  assumes "consistent h xs" "consistent h ys"
  shows "consistent h (xs @ ys) \<longleftrightarrow> (\<forall>k. agree (same_hash h) (override xs) (override ys) k)"
proof
  assume both: "consistent h (xs @ ys)"
  have "h a = h b" if ab: "override xs k = Some a" "override ys k = Some b" for k a b
  proof -
    obtain e e' where "e \<in> set xs" "entries e k = Some a" "e' \<in> set ys" "entries e' k = Some b"
      using override_from [OF ab(1)] override_from [OF ab(2)] by blast
    then show ?thesis using consistentD [OF both, of e e' k a b] by simp
  qed
  then show "\<forall>k. agree (same_hash h) (override xs) (override ys) k" by (simp add: agree_def)
next
  assume cross: "\<forall>k. agree (same_hash h) (override xs) (override ys) k"
  have mixed: "h v = h v'"
    if e: "e \<in> set xs" "e' \<in> set ys" "entries e k = Some v" "entries e' k = Some v'" for e e' k v v'
  proof -
    obtain a b where "override xs k = Some a" "h a = h v" "override ys k = Some b" "h b = h v'"
      using override_consistent [OF assms(1) e(1,3)] override_consistent [OF assms(2) e(2,4)] by blast
    then show ?thesis using cross by (simp add: agree_def)
  qed
  show "consistent h (xs @ ys)"
  proof (rule consistentI)
    fix e e' k v v'
    assume "e \<in> set (xs @ ys)" "e' \<in> set (xs @ ys)" and v: "entries e k = Some v" "entries e' k = Some v'"
    then consider "e \<in> set xs" "e' \<in> set xs" | "e \<in> set ys" "e' \<in> set ys"
      | "e \<in> set xs" "e' \<in> set ys" | "e \<in> set ys" "e' \<in> set xs"
      by auto
    then show "h v = h v'"
      using consistentD [OF assms(1) _ _ v] consistentD [OF assms(2) _ _ v] mixed [OF _ _ v]
        mixed [OF _ _ v(2,1), symmetric]
      by cases blast+
  qed
qed

lemma consistent_appendD: "consistent h (xs @ ys) \<Longrightarrow> consistent h xs \<and> consistent h ys"
  by (auto intro!: consistentI elim: consistentD)

lemma find_conflict_hashes:
  assumes "\<forall>v \<in> snd ` set me \<union> snd ` set they. ToHash L v = Inr (h v)"
  shows "find_conflict L me they = Inr (conflict (same_hash h) me they)"
  using assms by (induction "same_hash h" me they rule: conflict.induct) (simp_all add: expr_eq_def)

lemma check_disjoint_agree:
  assumes "lm_ok l" "lm_ok r" "hashed L h (Find l)" "hashed L h (Find r)"
  shows "if \<forall>k. agree (same_hash h) (Find l) (Find r) k then check_disjoint L l r = Inr ()
         else \<exists>x. check_disjoint L l r = Inl x"
proof -
  have "find_conflict L (Items l) (Items r) = Inr (FindConflictingDuplicate (same_hash h) l r)"
    unfolding FindConflictingDuplicate_def using assms
    by (intro find_conflict_hashes) (auto simp: hashed_def linked_map_values)
  moreover have "\<exists>x. bindE r1 (\<lambda>k. bindE (r2 k) (\<lambda>l. bindE (r3 k l) (\<lambda>r. Inl (e k l r)))) = Inl x"
    for r1 :: "'a result" and r2 :: "'a \<Rightarrow> 'b result" and r3 :: "'a \<Rightarrow> 'b \<Rightarrow> 'c result" and e
    by (auto simp: bindE_def split: sum.splits)
  ultimately show ?thesis
    using FindConflictingDuplicate_agree(1) [OF assms(1,2), of "same_hash h"]
    by (auto simp: check_disjoint_def noexcept_def Let_def split: option.splits)
qed

lemma join_halves_disjoint:
  assumes "lm_ok l" "lm_ok r" "hashed L h (Find l)" "hashed L h (Find r)"
  shows "if \<forall>k. agree (same_hash h) (Find l) (Find r) k
         then \<exists>m. join_halves L True l r = Inr m \<and> lm_ok m \<and> Find m = Find l ++ Find r
         else \<exists>x. join_halves L True l r = Inl x"
proof -
  have "\<forall>k. agree (same_hash h) (Find l) (Find r) k" if "lm_empty l \<or> lm_empty r"
    using that by (auto simp: lm_empty_iff agree_def)
  then show ?thesis
    using check_disjoint_agree [OF assms] assms(1,2)
    by (cases "\<forall>k. agree (same_hash h) (Find l) (Find r) k")
      (auto simp: join_halves_def lm_empty_iff Find_link lm_ok_constructed)
qed

text \<open>The entries of a list are maps that are well-formed and whose values have hashes.\<close>

definition good_maps :: "eval_lib \<Rightarrow> (expr \<Rightarrow> string) \<Rightarrow> expr list \<Rightarrow> bool" where
  "good_maps L h es \<longleftrightarrow>
     list_all (\<lambda>e. case e of EMap m \<Rightarrow> lm_ok m \<and> (\<forall>v \<in> ran (Find m). ToHash L v = Inr (h v)) | _ \<Rightarrow> False) es"

lemma good_mapsD: "good_maps L h es \<Longrightarrow> e \<in> set es \<Longrightarrow> \<exists>m. e = EMap m \<and> lm_ok m \<and> hashed L h (Find m)"
  by (cases e) (force simp: good_maps_def list_all_iff hashed_def)+

lemma hashed_override:
  assumes "good_maps L h es"
  shows "hashed L h (override es)"
  unfolding hashed_def
proof
  fix v
  assume "v \<in> ran (override es)"
  then obtain k where "override es k = Some v" by (auto simp: ran_def)
  then obtain e where e: "e \<in> set es" "entries e k = Some v" using override_from by blast
  then obtain m where "e = EMap m" "hashed L h (Find m)" using good_mapsD [OF assms] by blast
  then show "ToHash L v = Inr (h v)" using e(2) by (auto simp: entries_def hashed_def ran_def)
qed

lemma union_range_disjoint:
  assumes "j \<le> length es" "good_maps L h (between i j es)"
  shows "if consistent h (between i j es)
         then \<exists>m. union_range L True es i j = Inr m \<and> lm_ok m \<and> Find m = override (between i j es)
         else \<exists>x. union_range L True es i j = Inl x"
  using assms
proof (induction i j rule: range_induct)
  case (empty i j)
  then show ?case
    by (simp add: union_range_cases between_empty Find_of override_def lm_ok_constructed ordered_keys_def
        consistent_def)
next
  case (single i)
  then obtain m where m: "es ! i = EMap m" "lm_ok m"
    by (auto simp: between_single good_maps_def split: expr.splits)
  moreover have "consistent h [EMap m]" by (auto intro!: consistentI)
  ultimately show ?case using single by (simp add: union_range_cases between_single override_single)
next
  case (split i j k)
  let ?xs = "between i k es" and ?ys = "between k j es"
  have parts: "between i j es = ?xs @ ?ys" using split by (simp add: between_split)
  have good: "good_maps L h ?xs" "good_maps L h ?ys"
    using split.prems(2) unfolding parts by (simp_all add: good_maps_def)
  note IH = split.IH(1) [OF _ good(1)] split.IH(2) [OF split.prems(1) good(2)]
  have k: "k \<le> length es" using split.hyps split.prems by simp
  note run = union_range_cases(4) [OF split.hyps(1,2), of L True es]
  show ?case
  proof (cases "consistent h ?xs \<and> consistent h ?ys")
    case True
    then obtain l r where lr: "union_range L True es i k = Inr l" "lm_ok l" "Find l = override ?xs"
        "union_range L True es k j = Inr r" "lm_ok r" "Find r = override ?ys"
      using IH k by auto
    have hashes: "hashed L h (Find l)" "hashed L h (Find r)"
      using hashed_override good lr(3,6) by simp_all
    show ?thesis
      using join_halves_disjoint [OF lr(2,5) hashes] consistent_append [of h ?xs ?ys] True
      unfolding parts run lr(1,4) bindE_simps override_append lr(3,6) by simp
  next
    case False
    then have "\<not> consistent h (between i j es)" using consistent_appendD parts by metis
    moreover have "\<exists>x. union_range L True es i j = Inl x"
      using False IH k by (auto simp: run bindE_def split: if_splits sum.splits)
    ultimately show ?thesis by simp
  qed
qed

text \<open>
  C30: A disjoint union succeeds exactly where no two of the maps have different values for a
  key, and then is the union from left to right: checking each half and the two results finds
  every conflict. Values are the same if their hashes are; every other entry makes the whole
  union an error.
\<close>

theorem disjoint_union_iff_consistent:
  assumes "good_maps L h es"
  shows "if \<forall>e \<in> set es. \<forall>e' \<in> set es. \<forall>k v v'.
              entries e k = Some v \<longrightarrow> entries e' k = Some v' \<longrightarrow> h v = h v'
         then \<exists>m. Union L True (EList es) = Inr (EMap m) \<and> Find m = foldl (\<lambda>f e. f ++ entries e) Map.empty es
         else \<exists>x. Union L True (EList es) = Inl x"
proof -
  have all: "between 0 (length es) es = es" by (simp add: between_def)
  have main: "if consistent h es
      then \<exists>m. union_range L True es 0 (length es) = Inr m \<and> lm_ok m \<and> Find m = override es
      else \<exists>x. union_range L True es 0 (length es) = Inl x"
    using union_range_disjoint [of "length es" es L h 0] assms unfolding all by simp
  have "if consistent h es then \<exists>m. Union L True (EList es) = Inr (EMap m) \<and> Find m = override es
      else \<exists>x. Union L True (EList es) = Inl x"
  proof (cases "es = []")
    case True
    then show ?thesis by (simp add: Union_def kEmptyMap_def Find_of override_def consistent_def)
  next
    case False
    then show ?thesis using main by (cases "consistent h es") (auto simp: Union_def)
  qed
  then show ?thesis by (simp only: consistent_def override_def)
qed

definition hash_of :: "eval_lib \<Rightarrow> expr \<Rightarrow> string" where
  "hash_of L e = (case ToHash L e of Inr s \<Rightarrow> s | Inl _ \<Rightarrow> [])"

lemma sample_hash: "ToHash sample_lib (EBool b) = Inr (hash_of sample_lib (EBool b))"
  by (simp add: hash_of_def dump_def sample_lib_def sample_nlohmann_def noexcept_def)

theorem disjoint_union_iff_consistent_witness:
  "\<exists>m. Union sample_lib True (EList [EMap (LinkedMap_of [(''a'', EBool True)]),
        EMap (LinkedMap_of [(''a'', EBool True), (''b'', EBool False)])]) = Inr (EMap m) \<and>
     Find m = [''a'' \<mapsto> EBool True, ''b'' \<mapsto> EBool False]"
proof -
  let ?es = "[EMap (LinkedMap_of [(''a'', EBool True)]), EMap (LinkedMap_of [(''a'', EBool True), (''b'', EBool False)])]"
  have "good_maps sample_lib (hash_of sample_lib) ?es"
    by (auto simp: good_maps_def lm_ok_constructed ordered_keys_def Find_of ran_def sample_hash
        simp del: ToHash.simps split: if_splits)
  moreover have "\<forall>e \<in> set ?es. \<forall>e' \<in> set ?es. \<forall>k v v'. entries e k = Some v \<longrightarrow> entries e' k = Some v' \<longrightarrow>
      hash_of sample_lib v = hash_of sample_lib v'"
    by (auto simp: entries_def Find_of split: if_splits)
  moreover have "foldl (\<lambda>f e. f ++ entries e) Map.empty ?es = [''a'' \<mapsto> EBool True, ''b'' \<mapsto> EBool False]"
    by (auto simp: entries_def Find_of fun_eq_iff)
  ultimately show ?thesis
    using disjoint_union_iff_consistent [of sample_lib "hash_of sample_lib" ?es] by (simp only: if_True)
qed

section \<open>Removal of duplicates\<close>

lemma remdups_snoc: "remdups (xs @ [x]) = remdups (filter (\<lambda>y. y \<noteq> x) xs) @ [x]"
  by (induction xs) auto

lemma subseq_rev: "subseq xs ys \<Longrightarrow> subseq (rev xs) (rev ys)"
  by (induction rule: list_emb.induct) (auto intro: list_emb_append_mono subseq_rev_drop_many)

lemma nub_loop_hashes:
  assumes "\<And>e. e \<in> set es \<Longrightarrow> ToHash L e = Inr (h e)"
  shows "\<exists>rs. nub_loop L es seen = Inr rs \<and> subseq rs es \<and>
    map h rs = rev (remdups (rev (filter (\<lambda>x. x \<notin> set seen) (map h es))))"
  using assms
proof (induction es arbitrary: seen)
  case (Cons e es)
  have IH: "\<exists>rs. nub_loop L es seen' = Inr rs \<and> subseq rs es \<and>
      map h rs = rev (remdups (rev (filter (\<lambda>x. x \<notin> set seen') (map h es))))" for seen'
    using Cons by simp
  have e: "ToHash L e = Inr (h e)" using Cons.prems by simp
  show ?case
  proof (cases "h e \<in> set seen")
    case True
    then show ?thesis using IH [of seen] e by auto
  next
    case False
    have "filter (\<lambda>x. x \<notin> set (h e # seen)) (map h es) =
        filter (\<lambda>x. x \<noteq> h e) (filter (\<lambda>x. x \<notin> set seen) (map h es))"
      by (simp add: conj_commute)
    then show ?thesis
      using IH [of "h e # seen"] e False by (auto simp: remdups_snoc rev_filter)
  qed
qed simp

text \<open>
  Removal of duplicates keeps the last occurrence of every value for \<^verbatim>\<open>nub_right\<close> and the first
  for \<^verbatim>\<open>nub_left\<close>, in the order of the list, values being the same if their hashes are.
\<close>

theorem nub_removes_duplicates:
  assumes "list_all IsCacheable es" "list_all (\<lambda>e. ToHash L e = Inr (h e)) es"
  shows "\<exists>rs ls. NubRight L (EList es) = Inr (EList rs) \<and> subseq rs es \<and> map h rs = remdups (map h es)
    \<and> NubLeft L (EList es) = Inr (EList ls) \<and> subseq ls es \<and> map h ls = rev (remdups (rev (map h es)))"
proof -
  have hashes: "ToHash L e = Inr (h e)" if "e \<in> set es" for e
    using assms(2) that by (simp add: list_all_iff)
  obtain rs where rs: "nub_loop L (rev es) [] = Inr rs" "subseq rs (rev es)"
      "map h rs = rev (remdups (rev (map h (rev es))))"
    using nub_loop_hashes [of "rev es" L h "[]"] hashes by auto
  obtain ls where ls: "nub_loop L es [] = Inr ls" "subseq ls es" "map h ls = rev (remdups (rev (map h es)))"
    using nub_loop_hashes [of es L h "[]"] hashes by auto
  have "subseq (rev rs) es" using subseq_rev [OF rs(2)] by simp
  moreover have "map h (rev rs) = remdups (map h es)" using rs(3) by (simp add: rev_map [symmetric])
  ultimately show ?thesis
    using rs ls assms(1) by (cases "es = []") (auto simp: NubRight_def NubLeft_def Nub_def)
qed

theorem nub_removes_duplicates_witness:
  "\<exists>rs ls. NubRight sample_lib (EList [EBool True, EBool True]) = Inr (EList rs) \<and>
     NubLeft sample_lib (EList [EBool True, EBool True]) = Inr (EList ls) \<and> length rs = 1 \<and> length ls = 1"
proof -
  let ?es = "[EBool True, EBool True]"
  have "list_all IsCacheable ?es" "list_all (\<lambda>e. ToHash sample_lib e = Inr (hash_of sample_lib e)) ?es"
    by (simp_all add: sample_hash del: ToHash.simps)
  then obtain rs ls where "NubRight sample_lib (EList ?es) = Inr (EList rs)"
      "map (hash_of sample_lib) rs = remdups (map (hash_of sample_lib) ?es)"
      "NubLeft sample_lib (EList ?es) = Inr (EList ls)"
      "map (hash_of sample_lib) ls = rev (remdups (rev (map (hash_of sample_lib) ?es)))"
    using nub_removes_duplicates by blast
  then show ?thesis by (auto dest!: arg_cong [of _ _ length])
qed

section \<open>Commands\<close>

text \<open>
  How a POSIX shell splits a command into words, as far as blanks, single quotes and backslashes
  go: the word that has been started, if any, and the rest of the command. Other characters that
  mean something to a shell do not occur outside of quotes here.
\<close>

fun shell_words :: "string option \<Rightarrow> string \<Rightarrow> string list option"
and shell_quoted :: "string \<Rightarrow> string \<Rightarrow> string list option" where
  "shell_words w [] = Some (case w of None \<Rightarrow> [] | Some s \<Rightarrow> [s])"
| "shell_words w (c # cs) =
     (if c = CHR 0x27 then shell_quoted (case w of None \<Rightarrow> [] | Some s \<Rightarrow> s) cs
      else if c = CHR '' ''
      then map_option (\<lambda>ws. (case w of None \<Rightarrow> ws | Some s \<Rightarrow> s # ws)) (shell_words None cs)
      else if c = CHR 0x5C
      then (case cs of [] \<Rightarrow> None
            | d # ds \<Rightarrow> shell_words (Some ((case w of None \<Rightarrow> [] | Some s \<Rightarrow> s) @ [d])) ds)
      else None)"
| "shell_quoted s [] = None"
| "shell_quoted s (c # cs) =
     (if c = CHR 0x27 then shell_words (Some s) cs else shell_quoted (s @ [c]) cs)"

lemma shell_quoted_arg:
  "shell_quoted s (concat (map (\<lambda>c. if c = CHR 0x27 then [CHR 0x27, CHR 0x5C, CHR 0x27, CHR 0x27] else [c]) arg) @
     CHR 0x27 # rest) = shell_words (Some (s @ arg)) rest"
  by (induction arg arbitrary: s) simp_all

lemma shell_words_ShellQuote: "shell_words None (ShellQuote arg @ rest) = shell_words (Some arg) rest"
  by (simp add: ShellQuote_def shell_quoted_arg)

lemma shell_words_separated: "shell_words None (separated '' '' (map ShellQuote args)) = Some args"
proof (induction "'' ''" "map ShellQuote args" arbitrary: args rule: separated.induct)
  case (2 s)
  then obtain a where "args = [a]" by auto
  then show ?case using shell_words_ShellQuote [of a "[]"] by simp
next
  case (3 s t ts)
  then obtain a b as where args: "args = a # b # as" by (cases args; cases "tl args") auto
  then have "shell_words None (separated '' '' (map ShellQuote (b # as))) = Some (b # as)"
    using 3(1) [of "b # as"] 3(2) by simp
  then show ?case using shell_words_ShellQuote [of a] by (simp add: args)
qed simp

text \<open>
  C31: The command that \<^verbatim>\<open>join_cmd\<close> makes of a list of strings is split by a shell into exactly these
  strings, whatever characters they contain.
\<close>

theorem join_cmd_round_trip:
  "\<exists>cmd. Join L True False (EList (map EString args)) '' '' = Inr (EString cmd) \<and>
         shell_words None cmd = Some args"
proof -
  have "mapE as_string (map EString args) = Inr args"
    by (induction args) (simp_all add: as_string_def)
  then show ?thesis by (simp add: Join_def shell_words_separated)
qed

section \<open>Quasi-quotation\<close>

fun no_maps :: "expr \<Rightarrow> bool" where
  "no_maps (EMap m) \<longleftrightarrow> False"
| "no_maps (EList es) \<longleftrightarrow> list_all no_maps es"
| "no_maps e \<longleftrightarrow> True"

lemma mapE_singletons: "(\<And>e. e \<in> set es \<Longrightarrow> f e = Inr [e]) \<Longrightarrow> mapE f es = Inr (map (\<lambda>e. [e]) es)"
  by (induction es) simp_all

lemma expand_no_maps:
  "no_maps e \<Longrightarrow> ExpandQuasiQuoteListEntry L ev e = Inr (EList [e]) \<and> ExpandQuasiQuote L ev e = Inr e"
proof (induction "size e" arbitrary: e rule: less_induct)
  case less
  show ?case
  proof (cases e)
    case (EList es)
    have "ExpandQuasiQuoteListEntry L ev x = Inr (EList [x])" if "x \<in> set es" for x
      using less.hyps [of x] less.prems size_member(2) [OF that] that by (simp add: EList list_all_iff)
    then have "mapE (\<lambda>x. bindE (ExpandQuasiQuoteListEntry L ev x) as_list) es = Inr (map (\<lambda>x. [x]) es)"
      by (intro mapE_singletons) (simp add: as_list_def)
    then show ?thesis by (simp add: EList)
  qed (use less.prems in simp_all)
qed

lemma mapE_fails: "x \<in> set xs \<Longrightarrow> f x = Inl e \<Longrightarrow> \<exists>e'. mapE f xs = Inl e'"
proof (induction xs)
  case (Cons y ys)
  show ?case
  proof (cases "f y")
    case (Inr z)
    then show ?thesis using Cons by fastforce
  qed simp
qed simp

text \<open>
  A quoted list with an entry that is a map other than a comma-expression is never expanded:
  the expansion of the entry is the map, but is used as a list. Lists without maps inside are
  expanded to themselves.
\<close>

theorem quasi_quoted_lists:
  assumes "EMap m \<in> set es" "type_token m \<noteq> Some '',''" "type_token m \<noteq> Some '',@''"
    and "list_all no_maps ds"
  shows "(\<exists>x. ExpandQuasiQuote L ev (EList es) = Inl x) \<and> ExpandQuasiQuote L ev (EList ds) = Inr (EList ds)"
proof -
  have "\<exists>x. bindE (ExpandQuasiQuoteListEntry L ev (EMap m)) as_list = Inl x"
    using assms(2,3) by (auto simp: bindE_def as_list_def cast_error_def split: sum.splits)
  then have "\<exists>x. mapE (\<lambda>e. bindE (ExpandQuasiQuoteListEntry L ev e) as_list) es = Inl x"
    using mapE_fails [OF assms(1)] by fast
  then show ?thesis using expand_no_maps [of "EList ds"] assms(4) by auto
qed

theorem quasi_quoted_lists_witness:
  "\<exists>x. ExpandQuasiQuote sample_lib (\<lambda>_. Inr ENone) (EList [EMap (LinkedMap_of [(''a'', EBool True)])]) = Inl x"
  using quasi_quoted_lists [of "LinkedMap_of [(''a'', EBool True)]" "[EMap (LinkedMap_of [(''a'', EBool True)])]" "[EBool True]"]
  by (simp add: type_token_def Find_of)

section \<open>JSON forms of values\<close>

text \<open>Values without names, artifacts, results and nodes.\<close>

function (sequential) is_data :: "expr \<Rightarrow> bool" where
  "is_data (EName _) = False"
| "is_data (EArtifact _) = False"
| "is_data (EResult _ _ _ _) = False"
| "is_data (ENode _) = False"
| "is_data (EList es) = list_all is_data es"
| "is_data (EMap m) = (lm_ok m \<and> list_all (\<lambda>(k, v). is_data v) (Items m))"
| "is_data e = True"
  by pat_completeness auto
termination
  by (relation "measure size") (auto dest: size_member)

text \<open>Values with the same hash and the same JSON forms.\<close>

definition alike :: "eval_lib \<Rightarrow> expr \<Rightarrow> expr \<Rightarrow> bool" where
  "alike L e e' \<longleftrightarrow> ToHash L e' = ToHash L e \<and> (\<forall>mode. ToJson L mode e' = ToJson L mode e)"

lemma alike_refl: "alike L e e"
  by (simp add: alike_def)

lemma mapE_Inr: "(\<And>x. x \<in> set xs \<Longrightarrow> f x = Inr (g x)) \<Longrightarrow> mapE f xs = Inr (map g xs)"
  by (induction xs) simp_all

lemma mapE_map: "mapE f (map g xs) = mapE (\<lambda>x. f (g x)) xs"
  by (induction xs) simp_all

lemma insert_in_order:
  "ordered_keys (acc @ kvs) \<Longrightarrow>
   foldl (\<lambda>m (k, e). if map_of m k = None then map_put k e m else m) acc kvs = acc @ kvs"
proof (induction kvs arbitrary: acc)
  case (Cons kv kvs)
  obtain k e where kv: "kv = (k, e)" by (cases kv)
  have less: "\<forall>k' \<in> fst ` set acc. k' < k"
    using Cons.prems by (auto simp: ordered_keys_def sorted_append kv order.strict_iff_order)
  then have "map_of acc k = None" by (auto simp: map_of_eq_None_iff)
  then show ?case using Cons.IH [of "acc @ [kv]"] Cons.prems map_put_last [OF less] by (simp add: kv)
qed simp

lemma json_emplace_foldl:
  "json_emplace acc kvs = foldl (\<lambda>m (k, e). if map_of m k = None then map_put k e m else m) acc kvs"
  by (induction acc kvs rule: json_emplace.induct) simp_all

lemma ordered_keys_map_snd: "ordered_keys (map (\<lambda>(k, v). (k, f v)) kvs) = ordered_keys kvs"
  by (simp add: ordered_keys_def comp_def case_prod_unfold)

lemma Items_LinkedMap_of [simp]: "Items (LinkedMap_of kvs) = kvs"
  by (cases kvs) (simp_all add: LinkedMap_of_def)

lemma alike_EList:
  assumes "\<And>x. x \<in> set es \<Longrightarrow> alike L x (f x)"
  shows "alike L (EList es) (EList (map f es))"
proof -
  have "mapE (ToHash L) (map f es) = mapE (ToHash L) es"
    "mapE (ToJson L mode) (map f es) = mapE (ToJson L mode) es" for mode
    unfolding mapE_map using assms by (auto intro!: mapE_cong simp: alike_def)
  then show ?thesis by (simp add: alike_def)
qed

lemma alike_EMap:
  assumes "\<And>k v. (k, v) \<in> set (Items m) \<Longrightarrow> alike L v (f v)"
  shows "alike L (EMap m) (EMap (LinkedMap_of (map (\<lambda>(k, v). (k, f v)) (Items m))))"
proof -
  have "mapE (\<lambda>(k, v). bindE (ToHash L v) (\<lambda>h. Inr (sha256 L k @ h))) (map (\<lambda>(k, v). (k, f v)) (Items m)) =
      mapE (\<lambda>(k, v). bindE (ToHash L v) (\<lambda>h. Inr (sha256 L k @ h))) (Items m)"
    "mapE (\<lambda>(k, v). bindE (ToJson L mode v) (\<lambda>j. Inr (k, j))) (map (\<lambda>(k, v). (k, f v)) (Items m)) =
      mapE (\<lambda>(k, v). bindE (ToJson L mode v) (\<lambda>j. Inr (k, j))) (Items m)" for mode
    unfolding mapE_map using assms by (auto intro!: mapE_cong simp: alike_def)
  then show ?thesis by (simp add: alike_def)
qed



end
