(* ===== verification/Jst_Automata.thy ===== *)
theory Jst_Automata
  imports Jst_Hash Jst_Json
begin

text \<open>
  The minimization of automata that finds repositories which behave the same:
  \<^verbatim>\<open>src/src/utils/automata/dfa_minimizer.hpp\<close>. A \<^verbatim>\<open>std::map\<close> is an association list in key order,
  an unordered map an association list whose order has no meaning: wherever the code iterates
  over one, the order is given by a parameter. A pointer to the value of a pair of states is the
  key of the pair; the table of pairs does not change its keys after it has been made. The
  recursion that marks pairs is the loop over its stack of pairs that are still to be looked at.
\<close>

section \<open>State\<close>

type_synonym transitions_t = "(string \<times> string) list"

record Bucket =
  bucket_symbols :: "string list"
  bucket_states :: "(string \<times> transitions_t) list"

record DFAMinimizer =
  buckets :: "(string \<times> Bucket) list"
  buckets_by_state :: "(string \<times> string) list"

definition empty_minimizer :: DFAMinimizer where
  "empty_minimizer = \<lparr>buckets = [], buckets_by_state = []\<rparr>"

text \<open>
  An exception, the end of the program (a violated contract, or an exception that leaves a
  function that is declared not to throw), a null pointer, and the end of the fuel.
\<close>

datatype failure =
    Thrown string
  | Terminated
  | NullPointer
  | NoFuel

record iteration =
  order_names :: "string list \<Rightarrow> string list"
  order_pairs :: "(string \<times> string) list \<Rightarrow> (string \<times> string) list"

type_synonym StatePairKey = "string \<times> string"

definition make_key :: "string \<Rightarrow> string \<Rightarrow> StatePairKey" where
  "make_key first second = (if first < second then (first, second) else (second, first))"

record StatePairValue =
  pair_parents :: "StatePairKey list"
  pair_marked :: bool

type_synonym state_pairs_t = "(StatePairKey \<times> StatePairValue) list"

section \<open>Adding states\<close>

definition GetKeys :: "('k \<times> 'v) list \<Rightarrow> 'k list" where
  "GetKeys m = map fst m"

definition state_id :: "string \<Rightarrow> string list \<Rightarrow> json" where
  "state_id content_id symbols = JArray [JString (ToHexString content_id), json_of_strings symbols]"

text \<open>\<^verbatim>\<open>emplace\<close>: an element that is there stays.\<close>

definition try_emplace :: "'k \<Rightarrow> 'v \<Rightarrow> ('k \<times> 'v) list \<Rightarrow> ('k \<times> 'v) list" where
  "try_emplace k v m = (if map_of m k = None then m @ [(k, v)] else m)"

fun update_value :: "'k \<Rightarrow> ('v \<Rightarrow> 'v) \<Rightarrow> ('k \<times> 'v) list \<Rightarrow> ('k \<times> 'v) list" where
  "update_value k f [] = []"
| "update_value k f ((k', v) # m) = (if k' = k then (k', f v) # m else (k', v) # update_value k f m)"

definition AddState ::
  "nlohmann \<Rightarrow> string \<Rightarrow> transitions_t \<Rightarrow> string \<Rightarrow> DFAMinimizer \<Rightarrow> failure + DFAMinimizer" where
  "AddState N name transitions content_id dfa =
     (let symbols = GetKeys transitions
      in case nl_dump N (state_id content_id symbols) of
           Inl what \<Rightarrow> Inl (Thrown what)
         | Inr bucket_id \<Rightarrow>
             let bs = (case map_of (buckets dfa) bucket_id of
                         None \<Rightarrow> buckets dfa @ [(bucket_id, \<lparr>bucket_symbols = symbols, bucket_states = []\<rparr>)]
                       | Some _ \<Rightarrow> buckets dfa);
                 bs = update_value bucket_id
                        (\<lambda>b. b\<lparr>bucket_states := try_emplace name transitions (bucket_states b)\<rparr>) bs
             in if map_of (buckets_by_state dfa) name \<noteq> None then Inl Terminated
                else Inr \<lparr>buckets = bs, buckets_by_state = buckets_by_state dfa @ [(name, bucket_id)]\<rparr>)"

section \<open>Pairs of states\<close>

definition new_pair :: StatePairValue where
  "new_pair = \<lparr>pair_parents = [], pair_marked = False\<rparr>"

text \<open>All states before a state, for every state.\<close>

fun bucket_pairs :: "string list \<Rightarrow> string list \<Rightarrow> state_pairs_t \<Rightarrow> state_pairs_t" where
  "bucket_pairs before [] pairs = pairs"
| "bucket_pairs before (s # states) pairs =
     bucket_pairs (before @ [s]) states (foldl (\<lambda>ps t. try_emplace (make_key s t) new_pair ps) pairs before)"

definition CreatePairs :: "iteration \<Rightarrow> DFAMinimizer \<Rightarrow> state_pairs_t" where
  "CreatePairs it dfa =
     foldl (\<lambda>pairs bucket_id.
         case map_of (buckets dfa) bucket_id of
           None \<Rightarrow> pairs
         | Some bucket \<Rightarrow> bucket_pairs [] (order_names it (GetKeys (bucket_states bucket))) pairs)
       [] (order_names it (GetKeys (buckets dfa)))"

definition LookupPairValue :: "state_pairs_t \<Rightarrow> StatePairKey \<Rightarrow> StatePairValue option" where
  "LookupPairValue pairs key = map_of pairs key"

definition is_marked :: "state_pairs_t \<Rightarrow> StatePairKey \<Rightarrow> bool" where
  "is_marked pairs key = (case map_of pairs key of None \<Rightarrow> False | Some v \<Rightarrow> pair_marked v)"

definition set_marked :: "StatePairKey \<Rightarrow> state_pairs_t \<Rightarrow> state_pairs_t" where
  "set_marked key pairs = update_value key (\<lambda>v. v\<lparr>pair_marked := True\<rparr>) pairs"

definition unmarked :: "state_pairs_t \<Rightarrow> nat" where
  "unmarked pairs = length (filter (\<lambda>(k, v). \<not> pair_marked v) pairs)"

lemma unmarked_set_marked:
  "map_of pairs k = Some v \<Longrightarrow> \<not> pair_marked v \<Longrightarrow> unmarked (set_marked k pairs) < unmarked pairs"
  by (induction pairs) (auto simp: unmarked_def set_marked_def split: if_splits)

function mark_parents :: "state_pairs_t \<Rightarrow> StatePairKey list \<Rightarrow> state_pairs_t" where
  "mark_parents pairs [] = pairs"
| "mark_parents pairs (parent # stack) =
     (case map_of pairs parent of
        None \<Rightarrow> mark_parents pairs stack
      | Some v \<Rightarrow>
          if \<not> pair_marked v then mark_parents (set_marked parent pairs) (pair_parents v @ stack)
          else mark_parents pairs stack)"
  by pat_completeness auto
termination
  by (relation "inv_image (less_than <*lex*> less_than) (\<lambda>(pairs, stack). (unmarked pairs, length stack))")
    (auto simp: unmarked_set_marked)

definition MarkPairValue :: "StatePairKey \<Rightarrow> state_pairs_t \<Rightarrow> state_pairs_t" where
  "MarkPairValue key pairs =
     mark_parents (set_marked key pairs)
       (case map_of pairs key of None \<Rightarrow> [] | Some v \<Rightarrow> pair_parents v)"

section \<open>Bisimulation\<close>

definition at_map :: "('k \<times> 'v) list \<Rightarrow> 'k \<Rightarrow> failure + 'v" where
  "at_map m k = (case map_of m k of None \<Rightarrow> Inl (Thrown ''map::at'') | Some v \<Rightarrow> Inr v)"

definition mark_symbol :: "StatePairKey \<Rightarrow> string \<Rightarrow> string \<Rightarrow> state_pairs_t \<Rightarrow> state_pairs_t" where
  "mark_symbol key r s pairs =
     (if r \<noteq> s
      then (case LookupPairValue pairs (make_key r s) of
              None \<Rightarrow> MarkPairValue key pairs
            | Some rs_val \<Rightarrow>
                if pair_marked rs_val then MarkPairValue key pairs
                else update_value (make_key r s) (\<lambda>v. v\<lparr>pair_parents := pair_parents v @ [key]\<rparr>) pairs)
      else pairs)"

fun mark_symbols :: "Bucket \<Rightarrow> StatePairKey \<Rightarrow> string list \<Rightarrow> state_pairs_t \<Rightarrow> failure + state_pairs_t" where
  "mark_symbols bucket key [] pairs = Inr pairs"
| "mark_symbols bucket key (symbol # symbols) pairs =
     bindE (at_map (bucket_states bucket) (fst key)) (\<lambda>ta.
     bindE (at_map ta symbol) (\<lambda>r.
     bindE (at_map (bucket_states bucket) (snd key)) (\<lambda>tb.
     bindE (at_map tb symbol) (\<lambda>s.
       mark_symbols bucket key symbols (mark_symbol key r s pairs)))))"

fun mark_pairs :: "DFAMinimizer \<Rightarrow> StatePairKey list \<Rightarrow> state_pairs_t \<Rightarrow> failure + state_pairs_t" where
  "mark_pairs dfa [] pairs = Inr pairs"
| "mark_pairs dfa (key # keys) pairs =
     bindE (at_map (buckets_by_state dfa) (fst key)) (\<lambda>bucket_id.
     bindE (at_map (buckets dfa) bucket_id) (\<lambda>bucket.
     bindE (mark_symbols bucket key (bucket_symbols bucket) pairs) (mark_pairs dfa keys)))"

text \<open>The states that are equal to the last one get it as their image; the others are kept.\<close>

fun match_states ::
  "state_pairs_t \<Rightarrow> string \<Rightarrow> string list \<Rightarrow> string list \<Rightarrow> (string \<times> string) list \<Rightarrow>
     failure + (string list \<times> (string \<times> string) list)" where
  "match_states pairs last_state [] unequal_states bisimulation = Inr (unequal_states, bisimulation)"
| "match_states pairs last_state (state # states) unequal_states bisimulation =
     (case LookupPairValue pairs (make_key last_state state) of
        None \<Rightarrow> Inl NullPointer
      | Some v \<Rightarrow>
          if \<not> pair_marked v
          then match_states pairs last_state states (filter (\<lambda>x. x \<noteq> state) unequal_states)
                 (try_emplace state last_state bisimulation)
          else match_states pairs last_state states unequal_states bisimulation)"

lemma match_states_length:
  "match_states pairs l states unequal bisim = Inr (unequal', bisim') \<Longrightarrow> length unequal' \<le> length unequal"
proof (induction states arbitrary: unequal bisim)
  case (Cons s states)
  obtain v where v: "LookupPairValue pairs (make_key l s) = Some v"
    using Cons.prems by (cases "LookupPairValue pairs (make_key l s)") auto
  show ?case
  proof (cases "pair_marked v")
    case False
    then have "length unequal' \<le> length (filter (\<lambda>x. x \<noteq> s) unequal)"
      using Cons v by simp
    then show ?thesis using length_filter_le le_trans by blast
  qed (use Cons v in simp)
qed simp

function bucket_bisimulation ::
  "state_pairs_t \<Rightarrow> string list \<Rightarrow> (string \<times> string) list \<Rightarrow> failure + (string \<times> string) list" where
  "bucket_bisimulation pairs all_states bisimulation =
     (if all_states = [] then Inr bisimulation
      else case match_states pairs (last all_states) (butlast all_states) (butlast all_states) bisimulation of
             Inl e \<Rightarrow> Inl e
           | Inr (unequal_states, bisimulation) \<Rightarrow> bucket_bisimulation pairs unequal_states bisimulation)"
  by pat_completeness auto
termination
proof (relation "measure (\<lambda>(pairs, all_states, bisimulation). length all_states)", goal_cases)
  case (2 pairs all_states bisimulation b unequal_states bisimulation')
  have "length unequal_states \<le> length (butlast all_states)"
    using 2(2,3) match_states_length by metis
  moreover have "length (butlast all_states) < length all_states"
    using 2(1) by (cases all_states) auto
  ultimately show ?case
    by simp
qed simp

fun buckets_bisimulation ::
  "iteration \<Rightarrow> state_pairs_t \<Rightarrow> Bucket list \<Rightarrow> (string \<times> string) list \<Rightarrow> failure + (string \<times> string) list" where
  "buckets_bisimulation it pairs [] bisimulation = Inr bisimulation"
| "buckets_bisimulation it pairs (bucket # bs) bisimulation =
     bindE (bucket_bisimulation pairs (order_names it (GetKeys (bucket_states bucket))) bisimulation)
       (buckets_bisimulation it pairs bs)"

definition ComputeBisimulation :: "iteration \<Rightarrow> DFAMinimizer \<Rightarrow> failure + (string \<times> string) list" where
  "ComputeBisimulation it dfa =
     (let pairs = CreatePairs it dfa
      in bindE (mark_pairs dfa (order_pairs it (GetKeys pairs)) pairs) (\<lambda>pairs.
           buckets_bisimulation it pairs
             (List.map_filter (map_of (buckets dfa)) (order_names it (GetKeys (buckets dfa)))) []))"

text \<open>The lookup of the users of the result: what has no image stands for itself.\<close>

definition representative :: "(string \<times> string) list \<Rightarrow> string \<Rightarrow> string" where
  "representative bisimulation name =
     (case map_of bisimulation name of None \<Rightarrow> name | Some image_name \<Rightarrow> image_name)"

end
