(* ===== verification/Jst_Repository.thy ===== *)
theory Jst_Repository
  imports Jst_Automata
begin

text \<open>
  The repositories of a build: roots that are computed before the build
  (\<^verbatim>\<open>src/src/buildtool/file_system/precomputed_root.{hpp,cpp}\<close>), the kinds of file roots with
  their descriptions (\<^verbatim>\<open>src/src/buildtool/file_system/file_root.hpp\<close>; what is read through a root
  is not part of this theory), and the configuration
  (\<^verbatim>\<open>src/src/buildtool/common/repository_config.{hpp,cpp}\<close>) with the canonical names and the keys of
  content-fixed repositories. An \<^verbatim>\<open>AtomicValue\<close> is an option, \<open>None\<close> before it is set; it is set
  once until it is reset. The members of the configuration that give access to the Git store are left
  out. The JSON library, the formatting library, OpenSSL, the access to Git
  repositories and the storage of blobs are parameters. A path is its string.
\<close>

section \<open>Libraries\<close>

record ('c, 't, 'd) repo_lib =
  rl_json :: nlohmann
  rl_dump_indent :: "nat \<Rightarrow> json \<Rightarrow> string + string"
  rl_json_equal :: "json \<Rightarrow> json \<Rightarrow> bool"
  rl_json_less :: "json \<Rightarrow> json \<Rightarrow> bool"
  rl_string_error :: "json \<Rightarrow> string"
  rl_format_json :: "json \<Rightarrow> string"
  rl_hash_string :: "string \<Rightarrow> 64 word"
  rl_hash_bool :: "bool \<Rightarrow> 64 word"
  rl_hash_json :: "json \<Rightarrow> 64 word"
  rl_openssl :: openssl
  rl_hash_type :: HashType
  rl_git_open :: "string \<Rightarrow> 'c option"
  rl_tree_read :: "'c \<Rightarrow> string \<Rightarrow> bool \<Rightarrow> 't option"
  rl_tree_hash :: "'t \<Rightarrow> string"
  rl_store_blob :: "string \<Rightarrow> 'd option"

definition json_dump :: "('c, 't, 'd) repo_lib \<Rightarrow> json \<Rightarrow> failure + string" where
  "json_dump L j = (case nl_dump (rl_json L) j of Inl what \<Rightarrow> Inl (Thrown what) | Inr s \<Rightarrow> Inr s)"

text \<open>An exception that leaves a \<^verbatim>\<open>noexcept\<close> function ends the program.\<close>

definition no_throw :: "failure + 'a \<Rightarrow> failure + 'a" where
  "no_throw r = (case r of Inl (Thrown _) \<Rightarrow> Inl Terminated | _ \<Rightarrow> r)"

text \<open>The value of \<^verbatim>\<open>expected\<close>: an error message, or the result.\<close>

type_synonym 'a expected = "string + 'a"

definition unexpected_dump :: "('c, 't, 'd) repo_lib \<Rightarrow> string \<Rightarrow> json \<Rightarrow> string \<Rightarrow> failure + 'a expected" where
  "unexpected_dump L before j after = bindE (json_dump L j) (\<lambda>s. Inr (Inl (before @ s @ after)))"

definition hash_combine :: "64 word \<Rightarrow> 64 word \<Rightarrow> 64 word" where
  "hash_combine seed h = xor seed (h + 0x9e3779b9 + push_bit 6 seed + drop_bit 2 seed)"

section \<open>Precomputed roots\<close>

record ComputedRoot =
  cr_repository :: string
  cr_target_module :: string
  cr_target_name :: string
  cr_config :: json
  cr_absent :: bool

record TreeStructureRoot =
  ts_repository :: string
  ts_absent :: bool

datatype PrecomputedRoot =
    Computed ComputedRoot
  | TreeStructure TreeStructureRoot

definition ComputedRoot_kMarker :: string where
  "ComputedRoot_kMarker = ''computed''"

definition TreeStructureRoot_kMarker :: string where
  "TreeStructureRoot_kMarker = ''tree structure''"

definition IsPrecomputedMarker :: "string \<Rightarrow> bool" where
  "IsPrecomputedMarker marker \<longleftrightarrow> marker = ComputedRoot_kMarker \<or> marker = TreeStructureRoot_kMarker"

text \<open>The optional pragma object at the end of a description.\<close>

definition computed_absent :: "('c, 't, 'd) repo_lib \<Rightarrow> json list \<Rightarrow> failure + bool expected" where
  "computed_absent L root =
     (if length root > 5
      then if \<not> is_object (root ! 5)
           then unexpected_dump L
                  ''The root has a wrong type of optional pragma argument. Expected a plain json object, got ''
                  (root ! 5) []
           else case jfind (root ! 5) ''absent'' of
                  None \<Rightarrow> Inr (Inr False)
                | Some absent_entry \<Rightarrow>
                    (case get_bool absent_entry of
                       None \<Rightarrow> unexpected_dump L
                         (''Expected pragma entry '' @ [CHR 0x22] @ ''absent'' @ [CHR 0x22] @ '' to be boolean, but found '')
                         absent_entry []
                     | Some absent \<Rightarrow> Inr (Inr absent))
      else Inr (Inr False))"

definition ParseImpl_ComputedRoot :: "('c, 't, 'd) repo_lib \<Rightarrow> json list \<Rightarrow> failure + ComputedRoot expected" where
  "ParseImpl_ComputedRoot L root =
     (if length root \<noteq> 5 \<and> length root \<noteq> 6
      then unexpected_dump L ''The root has a wrong number of arguments: '' (JArray root)
             ([CHR 0x0A] @ ''The scheme requires [<scheme>, <root>, <module>, <name>, <config>] optionally followed by a pragma object'')
      else case get_string (root ! 1) of
        None \<Rightarrow> unexpected_dump L ''The root has a wrong type of <root>. Expected a string, got '' (root ! 1) []
      | Some repository \<Rightarrow>
      (case get_string (root ! 2) of
        None \<Rightarrow> unexpected_dump L ''The root has a wrong type of <module>. Expected a string, got '' (root ! 2) []
      | Some target_module \<Rightarrow>
      (case get_string (root ! 3) of
        None \<Rightarrow> unexpected_dump L ''The root has a wrong type of <name>. Expected a string, got '' (root ! 3) []
      | Some target_name \<Rightarrow>
          if \<not> is_object (root ! 4)
          then unexpected_dump L
                 ''The root has a wrong type of <config>. Expected a plain json object, got '' (root ! 4) []
          else bindE (computed_absent L root) (\<lambda>r. Inr (case r of
                 Inl e \<Rightarrow> Inl e
               | Inr absent \<Rightarrow> Inr \<lparr>cr_repository = repository, cr_target_module = target_module,
                   cr_target_name = target_name, cr_config = root ! 4, cr_absent = absent\<rparr>)))))"

definition tree_structure_absent :: "('c, 't, 'd) repo_lib \<Rightarrow> json list \<Rightarrow> failure + bool expected" where
  "tree_structure_absent L root =
     (if length root = 3
      then if \<not> is_object (root ! 2)
           then unexpected_dump L
                  ''The root has a wrong type of optional pragma argument. Expected a plain json object, got ''
                  (root ! 2) []
           else case jfind (root ! 2) ''absent'' of
                  None \<Rightarrow> Inr (Inr False)
                | Some absent_entry \<Rightarrow>
                    if \<not> is_null absent_entry \<and> get_bool absent_entry = None
                    then unexpected_dump L
                           (''Expected pragma entry '' @ [CHR 0x22] @ ''absent'' @ [CHR 0x22] @ '' to be boolean, but found '')
                           absent_entry []
                    else Inr (Inr (get_bool absent_entry = Some True))
      else Inr (Inr False))"

definition ParseImpl_TreeStructureRoot ::
  "('c, 't, 'd) repo_lib \<Rightarrow> json list \<Rightarrow> failure + TreeStructureRoot expected" where
  "ParseImpl_TreeStructureRoot L root =
     (if length root \<noteq> 2 \<and> length root \<noteq> 3
      then unexpected_dump L ''The root has a wrong number of arguments: '' (JArray root)
             ([CHR 0x0A] @ ''The scheme requires [<scheme>, <root>] optionally followed by a pragma object'')
      else case get_string (root ! 1) of
        None \<Rightarrow> unexpected_dump L ''The root has a wrong type of <root>. Expected a string, got '' (root ! 1) []
      | Some repository \<Rightarrow>
          bindE (tree_structure_absent L root) (\<lambda>r. Inr (case r of
            Inl e \<Rightarrow> Inl e
          | Inr absent \<Rightarrow> Inr \<lparr>ts_repository = repository, ts_absent = absent\<rparr>)))"

text \<open>An exception of the parser is reported; one while it is reported ends the program.\<close>

definition ParsePrecomputed ::
  "('c, 't, 'd) repo_lib \<Rightarrow> string \<Rightarrow> ('a \<Rightarrow> PrecomputedRoot) \<Rightarrow> (json list \<Rightarrow> failure + 'a expected) \<Rightarrow>
     json list \<Rightarrow> failure + PrecomputedRoot expected" where
  "ParsePrecomputed L marker wrap parse root =
     (let failed = (\<lambda>what. no_throw (unexpected_dump L (''While parsing '' @ marker @ '' root '') (JArray root)
                              ('':'' @ [CHR 0x0A] @ what)))
      in case parse root of
           Inl (Thrown what) \<Rightarrow> failed what
         | Inl e \<Rightarrow> Inl e
         | Inr (Inl message) \<Rightarrow>
             (case unexpected_dump L (''While parsing '' @ marker @ '' root '') (JArray root)
                     ('':'' @ [CHR 0x0A] @ message) of
                Inl (Thrown what) \<Rightarrow> failed what
              | r \<Rightarrow> r)
         | Inr (Inr parsed_root) \<Rightarrow> Inr (Inr (wrap parsed_root)))"

fun PrecomputedRoot_Parse :: "('c, 't, 'd) repo_lib \<Rightarrow> json \<Rightarrow> failure + PrecomputedRoot expected" where
  "PrecomputedRoot_Parse L (JArray (v # vs)) =
     (if v = JString ComputedRoot_kMarker
      then ParsePrecomputed L ComputedRoot_kMarker Computed (ParseImpl_ComputedRoot L) (v # vs)
      else if v = JString TreeStructureRoot_kMarker
      then ParsePrecomputed L TreeStructureRoot_kMarker TreeStructure (ParseImpl_TreeStructureRoot L) (v # vs)
      else no_throw (unexpected_dump L ''Unknown precomputed type of the root '' (JArray (v # vs)) []))"
| "PrecomputedRoot_Parse L root =
     no_throw (unexpected_dump L (''The root is empty or has unsupported format: '' @ [CHR 0x22]) root [CHR 0x22])"

definition ComputedRoot_equal :: "('c, 't, 'd) repo_lib \<Rightarrow> ComputedRoot \<Rightarrow> ComputedRoot \<Rightarrow> bool" where
  "ComputedRoot_equal L a b \<longleftrightarrow>
     cr_repository a = cr_repository b \<and> cr_target_module a = cr_target_module b \<and>
     cr_target_name a = cr_target_name b \<and> rl_json_equal L (cr_config a) (cr_config b) \<and>
     cr_absent a = cr_absent b"

definition ComputedRoot_less :: "('c, 't, 'd) repo_lib \<Rightarrow> ComputedRoot \<Rightarrow> ComputedRoot \<Rightarrow> bool" where
  "ComputedRoot_less L a b =
     (if cr_repository a \<noteq> cr_repository b then cr_repository a < cr_repository b
      else if cr_target_module a \<noteq> cr_target_module b then cr_target_module a < cr_target_module b
      else if cr_target_name a \<noteq> cr_target_name b then cr_target_name a < cr_target_name b
      else if cr_absent a \<noteq> cr_absent b then cr_absent a
      else rl_json_less L (cr_config a) (cr_config b))"

definition absent_pragma :: "bool \<Rightarrow> string" where
  "absent_pragma absent =
     (if absent then '', {'' @ [CHR 0x22] @ ''absent'' @ [CHR 0x22] @ '': true}'' else [])"

definition ComputedRoot_ToString :: "('c, 't, 'd) repo_lib \<Rightarrow> ComputedRoot \<Rightarrow> failure + string" where
  "ComputedRoot_ToString L a =
     bindE (json_dump L (JString (cr_repository a))) (\<lambda>repository.
     bindE (json_dump L (JString (cr_target_module a))) (\<lambda>target_module.
     bindE (json_dump L (JString (cr_target_name a))) (\<lambda>target_name.
     bindE (json_dump L (cr_config a)) (\<lambda>config.
       Inr (''(['' @ [CHR 0x22] @ ''@'' @ [CHR 0x22] @ '', '' @ repository @ '', '' @ target_module @ '', '' @
            target_name @ absent_pragma (cr_absent a) @ ''], '' @ config @ '')'')))))"

definition ComputedRoot_ComputeHash :: "('c, 't, 'd) repo_lib \<Rightarrow> ComputedRoot \<Rightarrow> 64 word" where
  "ComputedRoot_ComputeHash L a =
     (let seed = 0;
          seed = hash_combine seed (rl_hash_string L ComputedRoot_kMarker);
          seed = hash_combine seed (rl_hash_string L (cr_repository a));
          seed = hash_combine seed (rl_hash_string L (cr_target_module a));
          seed = hash_combine seed (rl_hash_string L (cr_target_name a));
          seed = hash_combine seed (rl_hash_bool L (cr_absent a))
      in hash_combine seed (rl_hash_json L (cr_config a)))"

definition TreeStructureRoot_equal :: "TreeStructureRoot \<Rightarrow> TreeStructureRoot \<Rightarrow> bool" where
  "TreeStructureRoot_equal a b \<longleftrightarrow> ts_absent a = ts_absent b \<and> ts_repository a = ts_repository b"

definition TreeStructureRoot_less :: "TreeStructureRoot \<Rightarrow> TreeStructureRoot \<Rightarrow> bool" where
  "TreeStructureRoot_less a b =
     (if ts_absent a \<noteq> ts_absent b then ts_absent a else ts_repository a < ts_repository b)"

definition TreeStructureRoot_ToString :: "('c, 't, 'd) repo_lib \<Rightarrow> TreeStructureRoot \<Rightarrow> failure + string" where
  "TreeStructureRoot_ToString L a =
     bindE (json_dump L (JString (ts_repository a))) (\<lambda>repository.
       Inr (''['' @ [CHR 0x22] @ ''tree structure'' @ [CHR 0x22] @ '', '' @ repository @
            absent_pragma (ts_absent a) @ '']''))"

definition TreeStructureRoot_ComputeHash :: "('c, 't, 'd) repo_lib \<Rightarrow> TreeStructureRoot \<Rightarrow> 64 word" where
  "TreeStructureRoot_ComputeHash L a =
     (let seed = 0;
          seed = hash_combine seed (rl_hash_string L TreeStructureRoot_kMarker);
          seed = hash_combine seed (rl_hash_string L (ts_repository a))
      in hash_combine seed (rl_hash_bool L (ts_absent a)))"

text \<open>The comparisons of a variant: different alternatives are ordered by their position.\<close>

fun PrecomputedRoot_equal :: "('c, 't, 'd) repo_lib \<Rightarrow> PrecomputedRoot \<Rightarrow> PrecomputedRoot \<Rightarrow> bool" where
  "PrecomputedRoot_equal L (Computed a) (Computed b) = ComputedRoot_equal L a b"
| "PrecomputedRoot_equal L (TreeStructure a) (TreeStructure b) = TreeStructureRoot_equal a b"
| "PrecomputedRoot_equal L _ _ = False"

fun PrecomputedRoot_less :: "('c, 't, 'd) repo_lib \<Rightarrow> PrecomputedRoot \<Rightarrow> PrecomputedRoot \<Rightarrow> bool" where
  "PrecomputedRoot_less L (Computed a) (Computed b) = ComputedRoot_less L a b"
| "PrecomputedRoot_less L (TreeStructure a) (TreeStructure b) = TreeStructureRoot_less a b"
| "PrecomputedRoot_less L (Computed _) (TreeStructure _) = True"
| "PrecomputedRoot_less L (TreeStructure _) (Computed _) = False"

fun PrecomputedRoot_ToString :: "('c, 't, 'd) repo_lib \<Rightarrow> PrecomputedRoot \<Rightarrow> failure + string" where
  "PrecomputedRoot_ToString L (Computed a) = no_throw (ComputedRoot_ToString L a)"
| "PrecomputedRoot_ToString L (TreeStructure a) = no_throw (TreeStructureRoot_ToString L a)"

fun GetReferencedRepository :: "PrecomputedRoot \<Rightarrow> string" where
  "GetReferencedRepository (Computed a) = cr_repository a"
| "GetReferencedRepository (TreeStructure a) = ts_repository a"

fun IsComputed :: "PrecomputedRoot \<Rightarrow> bool" where
  "IsComputed (Computed _) = True"
| "IsComputed (TreeStructure _) = False"

fun AsComputed :: "PrecomputedRoot \<Rightarrow> ComputedRoot option" where
  "AsComputed (Computed a) = Some a"
| "AsComputed (TreeStructure _) = None"

fun IsTreeStructure :: "PrecomputedRoot \<Rightarrow> bool" where
  "IsTreeStructure (TreeStructure _) = True"
| "IsTreeStructure (Computed _) = False"

fun AsTreeStructure :: "PrecomputedRoot \<Rightarrow> TreeStructureRoot option" where
  "AsTreeStructure (TreeStructure a) = Some a"
| "AsTreeStructure (Computed _) = None"

fun PrecomputedRoot_ComputeHash :: "('c, 't, 'd) repo_lib \<Rightarrow> PrecomputedRoot \<Rightarrow> 64 word" where
  "PrecomputedRoot_ComputeHash L (Computed a) = ComputedRoot_ComputeHash L a"
| "PrecomputedRoot_ComputeHash L (TreeStructure a) = TreeStructureRoot_ComputeHash L a"

section \<open>File roots\<close>

datatype ('c, 't) root_t =
    FsRoot string
  | RootGit 'c 't
  | AbsentRoot string
  | PrecomputedRootT PrecomputedRoot

record ('c, 't) FileRoot =
  fr_root :: "('c, 't) root_t"
  fr_ignore_special :: bool

definition kGitTreeMarker :: string where
  "kGitTreeMarker = ''git tree''"

definition kGitTreeIgnoreSpecialMarker :: string where
  "kGitTreeIgnoreSpecialMarker = ''git tree ignore-special''"

definition kFileIgnoreSpecialMarker :: string where
  "kFileIgnoreSpecialMarker = ''file ignore-special''"

text \<open>The hexadecimal form is checked before the repository is opened.\<close>

definition FromGit ::
  "('c, 't, 'd) repo_lib \<Rightarrow> string \<Rightarrow> string \<Rightarrow> bool \<Rightarrow> ('c, 't) FileRoot option" where
  "FromGit L repo_path git_tree_id ignore_special =
     (case FromHexString git_tree_id of
        None \<Rightarrow> None
      | Some raw_tree_id \<Rightarrow>
          (case rl_git_open L repo_path of
             None \<Rightarrow> None
           | Some cas \<Rightarrow>
               (case rl_tree_read L cas git_tree_id ignore_special of
                  None \<Rightarrow> None
                | Some t \<Rightarrow> Some \<lparr>fr_root = RootGit cas t, fr_ignore_special = ignore_special\<rparr>)))"

definition content_marker :: "('c, 't) FileRoot \<Rightarrow> json" where
  "content_marker r = JString (if fr_ignore_special r then kGitTreeIgnoreSpecialMarker else kGitTreeMarker)"

definition ContentDescription :: "('c, 't, 'd) repo_lib \<Rightarrow> ('c, 't) FileRoot \<Rightarrow> json option" where
  "ContentDescription L r =
     (case fr_root r of
        RootGit cas t \<Rightarrow> Some (JArray [content_marker r, JString (rl_tree_hash L t)])
      | AbsentRoot tree_id \<Rightarrow> Some (JArray [content_marker r, JString tree_id])
      | FsRoot path \<Rightarrow> None
      | PrecomputedRootT p \<Rightarrow> None)"

definition GetTreeHash :: "('c, 't, 'd) repo_lib \<Rightarrow> ('c, 't) FileRoot \<Rightarrow> string option" where
  "GetTreeHash L r =
     (case fr_root r of
        RootGit cas t \<Rightarrow> Some (rl_tree_hash L t)
      | AbsentRoot tree_id \<Rightarrow> Some tree_id
      | _ \<Rightarrow> None)"

definition HasFastDirectoryLookup :: "('c, 't) FileRoot \<Rightarrow> bool" where
  "HasFastDirectoryLookup r = (case fr_root r of RootGit _ _ \<Rightarrow> True | _ \<Rightarrow> False)"

definition GetAbsentTreeId :: "('c, 't) FileRoot \<Rightarrow> string option" where
  "GetAbsentTreeId r = (case fr_root r of AbsentRoot tree_id \<Rightarrow> Some tree_id | _ \<Rightarrow> None)"

definition IsPrecomputed :: "('c, 't) FileRoot \<Rightarrow> bool" where
  "IsPrecomputed r = (case fr_root r of PrecomputedRootT _ \<Rightarrow> True | _ \<Rightarrow> False)"

definition GetPrecomputedDescription :: "('c, 't) FileRoot \<Rightarrow> PrecomputedRoot option" where
  "GetPrecomputedDescription r = (case fr_root r of PrecomputedRootT p \<Rightarrow> Some p | _ \<Rightarrow> None)"

text \<open>A description of a scheme with one or two strings behind the marker.\<close>

definition string_args :: "json list \<Rightarrow> string list option" where
  "string_args root =
     (if length root = 2 \<or> length root = 3 then get_all get_string (tl root) else None)"

definition of_repository :: "string \<Rightarrow> string \<Rightarrow> string" where
  "of_repository keyword repo = '' for '' @ keyword @ '' of repository '' @ repo"

definition ParseRoot_file ::
  "('c, 't, 'd) repo_lib \<Rightarrow> string \<Rightarrow> string \<Rightarrow> string \<Rightarrow> bool \<Rightarrow> json list \<Rightarrow>
     failure + (('c, 't) FileRoot \<times> string option) expected" where
  "ParseRoot_file L marker repo keyword ignore_special root =
     (if length root \<noteq> 2 \<or> get_string (root ! 1) = None
      then unexpected_dump L
             ([CHR 0x22] @ marker @ [CHR 0x22] @ '' scheme expects precisely one string argument, but found '')
             (JArray root) (of_repository keyword repo)
      else let path = the (get_string (root ! 1))
           in Inr (Inr (\<lparr>fr_root = FsRoot path, fr_ignore_special = ignore_special\<rparr>, Some path)))"

definition ParseRoot_git ::
  "('c, 't, 'd) repo_lib \<Rightarrow> string \<Rightarrow> string \<Rightarrow> string \<Rightarrow> bool \<Rightarrow> string \<Rightarrow> json list \<Rightarrow>
     failure + (('c, 't) FileRoot \<times> string option) expected" where
  "ParseRoot_git L marker repo keyword ignore_special what root =
     (case string_args root of
        Some [tree_id] \<Rightarrow>
          Inr (Inr (\<lparr>fr_root = AbsentRoot tree_id, fr_ignore_special = ignore_special\<rparr>, None))
      | Some [tree_id, path] \<Rightarrow>
          (case FromGit L path tree_id ignore_special of
             Some git_root \<Rightarrow> Inr (Inr (git_root, None))
           | None \<Rightarrow> Inr (Inl (''Could not create '' @ what @ '' for git repository '' @
                 rl_format_json L (root ! 2) @ '' and tree id '' @ rl_format_json L (root ! 1))))
      | _ \<Rightarrow> unexpected_dump L
               ([CHR 0x22] @ marker @ [CHR 0x22] @ '' scheme expects one or two string arguments, but found '')
               (JArray root) (of_repository keyword repo))"

text \<open>
  The marker is compared with the names of the schemes; before the comparison with the
  precomputed ones it is converted to a string, which throws for other values.
\<close>

fun ParseRoot ::
  "('c, 't, 'd) repo_lib \<Rightarrow> string \<Rightarrow> string \<Rightarrow> json \<Rightarrow>
     failure + (('c, 't) FileRoot \<times> string option) expected" where
  "ParseRoot L repo keyword (JArray (v # vs)) =
     (if v = JString ''file'' then ParseRoot_file L ''file'' repo keyword False (v # vs)
      else if v = JString kGitTreeMarker
      then ParseRoot_git L kGitTreeMarker repo keyword False ''file root'' (v # vs)
      else if v = JString kFileIgnoreSpecialMarker
      then ParseRoot_file L kFileIgnoreSpecialMarker repo keyword True (v # vs)
      else if v = JString kGitTreeIgnoreSpecialMarker
      then ParseRoot_git L kGitTreeIgnoreSpecialMarker repo keyword True ''ignore-special file root'' (v # vs)
      else case get_string v of
        None \<Rightarrow> Inl (Thrown (rl_string_error L v))
      | Some marker \<Rightarrow>
          if IsPrecomputedMarker marker
          then bindE (PrecomputedRoot_Parse L (JArray (v # vs))) (\<lambda>precomputed.
                 case precomputed of
                   Inl message \<Rightarrow>
                     unexpected_dump L ''While parsing '' (JArray (v # vs))
                       ('' for '' @ keyword @ '' of repository'' @ repo @ '':'' @ [CHR 0x0A] @ message)
                 | Inr p \<Rightarrow> Inr (Inr (\<lparr>fr_root = PrecomputedRootT p, fr_ignore_special = False\<rparr>, None)))
          else unexpected_dump L ''Unknown scheme in the specification '' (JArray (v # vs))
                 ('' of '' @ keyword @ '' of repository '' @ repo))"
| "ParseRoot L repo keyword root =
     unexpected_dump L (''Expected '' @ keyword @ '' for '' @ repo @ '' to be of the form [<scheme>, ...], but found '')
       root []"

section \<open>The configuration\<close>

record ('c, 't) RepositoryInfo =
  workspace_root :: "('c, 't) FileRoot"
  target_root :: "('c, 't) FileRoot"
  rule_root :: "('c, 't) FileRoot"
  expression_root :: "('c, 't) FileRoot"
  name_mapping :: "(string \<times> string) list"
  target_file_name :: string
  rule_file_name :: string
  expression_file_name :: string

record ('c, 't, 'd) RepositoryData =
  rd_info :: "('c, 't) RepositoryInfo"
  rd_base_desc :: "json option"
  rd_key :: "'d option option"

record ('c, 't, 'd) RepositoryConfig =
  repos :: "(string \<times> ('c, 't, 'd) RepositoryData) list"
  duplicates :: "(string \<times> string) list option"

definition empty_config :: "('c, 't, 'd) RepositoryConfig" where
  "empty_config = \<lparr>repos = [], duplicates = None\<rparr>"

text \<open>The description of the roots and names; nothing unless all roots are content-fixed.\<close>

definition BaseContentDescription :: "('c, 't, 'd) repo_lib \<Rightarrow> ('c, 't) RepositoryInfo \<Rightarrow> json option" where
  "BaseContentDescription L info =
     (case (ContentDescription L (workspace_root info), ContentDescription L (target_root info),
            ContentDescription L (rule_root info), ContentDescription L (expression_root info)) of
        (Some wroot, Some troot, Some rroot, Some eroot) \<Rightarrow>
          Some (json_object
            [(''workspace_root'', wroot), (''target_root'', troot), (''rule_root'', rroot),
             (''expression_root'', eroot), (''target_file_name'', JString (target_file_name info)),
             (''rule_file_name'', JString (rule_file_name info)),
             (''expression_file_name'', JString (expression_file_name info))])
      | _ \<Rightarrow> None)"

definition assign :: "'k \<Rightarrow> 'v \<Rightarrow> ('k \<times> 'v) list \<Rightarrow> ('k \<times> 'v) list" where
  "assign k v m = (if map_of m k = None then m @ [(k, v)] else update_value k (\<lambda>_. v) m)"

text \<open>The description is taken before the information is moved into the table.\<close>

definition SetInfo ::
  "('c, 't, 'd) repo_lib \<Rightarrow> string \<Rightarrow> ('c, 't) RepositoryInfo \<Rightarrow> ('c, 't, 'd) RepositoryConfig \<Rightarrow>
     ('c, 't, 'd) RepositoryConfig" where
  "SetInfo L repo info cfg =
     \<lparr>repos = assign repo \<lparr>rd_info = info, rd_base_desc = BaseContentDescription L info, rd_key = None\<rparr> (repos cfg),
      duplicates = None\<rparr>"

definition Data :: "('c, 't, 'd) RepositoryConfig \<Rightarrow> string \<Rightarrow> ('c, 't, 'd) RepositoryData option" where
  "Data cfg repo = map_of (repos cfg) repo"

definition Info :: "('c, 't, 'd) RepositoryConfig \<Rightarrow> string \<Rightarrow> ('c, 't) RepositoryInfo option" where
  "Info cfg repo = map_option rd_info (Data cfg repo)"

definition get_info ::
  "('c, 't, 'd) RepositoryConfig \<Rightarrow> string \<Rightarrow> (('c, 't) RepositoryInfo \<Rightarrow> 'a option) \<Rightarrow> 'a option" where
  "get_info cfg repo getter = (case Info cfg repo of None \<Rightarrow> None | Some info \<Rightarrow> getter info)"

definition WorkspaceRoot :: "('c, 't, 'd) RepositoryConfig \<Rightarrow> string \<Rightarrow> ('c, 't) FileRoot option" where
  "WorkspaceRoot cfg repo = get_info cfg repo (\<lambda>info. Some (workspace_root info))"

definition TargetRoot :: "('c, 't, 'd) RepositoryConfig \<Rightarrow> string \<Rightarrow> ('c, 't) FileRoot option" where
  "TargetRoot cfg repo = get_info cfg repo (\<lambda>info. Some (target_root info))"

definition RuleRoot :: "('c, 't, 'd) RepositoryConfig \<Rightarrow> string \<Rightarrow> ('c, 't) FileRoot option" where
  "RuleRoot cfg repo = get_info cfg repo (\<lambda>info. Some (rule_root info))"

definition ExpressionRoot :: "('c, 't, 'd) RepositoryConfig \<Rightarrow> string \<Rightarrow> ('c, 't) FileRoot option" where
  "ExpressionRoot cfg repo = get_info cfg repo (\<lambda>info. Some (expression_root info))"

definition GlobalName :: "('c, 't, 'd) RepositoryConfig \<Rightarrow> string \<Rightarrow> string \<Rightarrow> string option" where
  "GlobalName cfg repo local_name = get_info cfg repo (\<lambda>info. map_of (name_mapping info) local_name)"

definition TargetFileName :: "('c, 't, 'd) RepositoryConfig \<Rightarrow> string \<Rightarrow> string option" where
  "TargetFileName cfg repo = get_info cfg repo (\<lambda>info. Some (target_file_name info))"

definition RuleFileName :: "('c, 't, 'd) RepositoryConfig \<Rightarrow> string \<Rightarrow> string option" where
  "RuleFileName cfg repo = get_info cfg repo (\<lambda>info. Some (rule_file_name info))"

definition ExpressionFileName :: "('c, 't, 'd) RepositoryConfig \<Rightarrow> string \<Rightarrow> string option" where
  "ExpressionFileName cfg repo = get_info cfg repo (\<lambda>info. Some (expression_file_name info))"

section \<open>Canonical names\<close>

text \<open>Content-fixed repositories are states: name, bindings and hash of the base description.\<close>

fun add_states ::
  "('c, 't, 'd) repo_lib \<Rightarrow> (string \<times> ('c, 't, 'd) RepositoryData) list \<Rightarrow> DFAMinimizer \<Rightarrow>
     failure + DFAMinimizer" where
  "add_states L [] minimizer = Inr minimizer"
| "add_states L ((repo, data) # rs) minimizer =
     (case rd_base_desc data of
        None \<Rightarrow> add_states L rs minimizer
      | Some base_desc \<Rightarrow>
          bindE (json_dump L base_desc) (\<lambda>text.
          bindE (AddState (rl_json L) repo (name_mapping (rd_info data))
                   (PlainHashData (rl_openssl L) (rl_hash_type L) text) minimizer)
            (add_states L rs)))"

definition order_repos :: "iteration \<Rightarrow> (string \<times> 'v) list \<Rightarrow> (string \<times> 'v) list" where
  "order_repos it m =
     List.map_filter (\<lambda>k. map_option (Pair k) (map_of m k)) (order_names it (GetKeys m))"

definition compute_duplicates ::
  "('c, 't, 'd) repo_lib \<Rightarrow> iteration \<Rightarrow> ('c, 't, 'd) RepositoryConfig \<Rightarrow> failure + (string \<times> string) list" where
  "compute_duplicates L it cfg =
     bindE (add_states L (order_repos it (repos cfg)) empty_minimizer) (ComputeBisimulation it)"

text \<open>The table is computed once, in a function that is declared not to throw.\<close>

definition DeduplicateRepo ::
  "('c, 't, 'd) repo_lib \<Rightarrow> iteration \<Rightarrow> string \<Rightarrow> ('c, 't, 'd) RepositoryConfig \<Rightarrow>
     failure + (string \<times> ('c, 't, 'd) RepositoryConfig)" where
  "DeduplicateRepo L it repo cfg =
     (case duplicates cfg of
        Some ds \<Rightarrow> Inr (representative ds repo, cfg)
      | None \<Rightarrow> bindE (no_throw (compute_duplicates L it cfg)) (\<lambda>ds.
          Inr (representative ds repo, cfg\<lparr>duplicates := Some ds\<rparr>)))"

section \<open>Keys of repositories\<close>

record ('c, 't, 'd) graph_state =
  gs_config :: "('c, 't, 'd) RepositoryConfig"
  gs_graph :: json
  gs_counter :: nat
  gs_ids :: "(string \<times> string) list"

text \<open>Assignment to a field of the object \<^verbatim>\<open>repo_desc["bindings"]\<close>.\<close>

definition put_binding :: "string \<Rightarrow> string \<Rightarrow> json \<Rightarrow> json" where
  "put_binding local_name global_id repo_desc =
     (case jfind repo_desc ''bindings'' of
        None \<Rightarrow> repo_desc
      | Some bindings \<Rightarrow> jput ''bindings'' (jput local_name (JString global_id) bindings) repo_desc)"

fun AddToGraphAndGetId ::
  "('c, 't, 'd) repo_lib \<Rightarrow> iteration \<Rightarrow> nat \<Rightarrow> string \<Rightarrow> ('c, 't, 'd) graph_state \<Rightarrow>
     failure + (string option \<times> ('c, 't, 'd) graph_state)"
and add_bindings ::
  "('c, 't, 'd) repo_lib \<Rightarrow> iteration \<Rightarrow> nat \<Rightarrow> (string \<times> string) list \<Rightarrow> json \<Rightarrow> ('c, 't, 'd) graph_state \<Rightarrow>
     failure + (json option \<times> ('c, 't, 'd) graph_state)" where
  "AddToGraphAndGetId L it 0 repo st = Inl NoFuel"
| "AddToGraphAndGetId L it (Suc fuel) repo st =
     bindE (DeduplicateRepo L it repo (gs_config st)) (\<lambda>(unique_repo, cfg).
     let st = st\<lparr>gs_config := cfg\<rparr>
     in case map_of (gs_ids st) unique_repo of
          Some repo_id \<Rightarrow> Inr (Some repo_id, st)
        | None \<Rightarrow>
            (case Data cfg unique_repo of
               None \<Rightarrow> Inr (None, st)
             | Some data \<Rightarrow>
                 (case rd_base_desc data of
                    None \<Rightarrow> Inr (None, st)
                  | Some base_desc \<Rightarrow>
                      let repo_id = to_string_nat (gs_counter st);
                          st = st\<lparr>gs_counter := gs_counter st + 1, gs_ids := try_emplace unique_repo repo_id (gs_ids st)\<rparr>;
                          repo_desc = jput ''bindings'' (JObject []) base_desc
                      in bindE (add_bindings L it fuel (name_mapping (rd_info data)) repo_desc st)
                           (\<lambda>(r, st). case r of
                              None \<Rightarrow> Inr (None, st)
                            | Some repo_desc \<Rightarrow>
                                Inr (Some repo_id, st\<lparr>gs_graph := jput repo_id repo_desc (gs_graph st)\<rparr>)))))"
| "add_bindings L it fuel [] repo_desc st = Inr (Some repo_desc, st)"
| "add_bindings L it fuel ((local_name, global_name) # bs) repo_desc st =
     bindE (AddToGraphAndGetId L it fuel global_name st) (\<lambda>(r, st). case r of
       None \<Rightarrow> Inr (None, st)
     | Some global_id \<Rightarrow> add_bindings L it fuel bs (put_binding local_name global_id repo_desc) st)"

text \<open>Every nested call has given an identifier to another repository.\<close>

definition BuildGraphForRepository ::
  "('c, 't, 'd) repo_lib \<Rightarrow> iteration \<Rightarrow> string \<Rightarrow> ('c, 't, 'd) RepositoryConfig \<Rightarrow>
     failure + (json option \<times> ('c, 't, 'd) RepositoryConfig)" where
  "BuildGraphForRepository L it repo cfg =
     bindE (AddToGraphAndGetId L it (length (repos cfg) + 1) repo
              \<lparr>gs_config = cfg, gs_graph = JObject [], gs_counter = 0, gs_ids = []\<rparr>)
       (\<lambda>(r, st). Inr (if r = None then None else Some (gs_graph st), gs_config st))"

definition set_key :: "string \<Rightarrow> 'd option \<Rightarrow> ('c, 't, 'd) RepositoryConfig \<Rightarrow> ('c, 't, 'd) RepositoryConfig" where
  "set_key repo k cfg = cfg\<lparr>repos := update_value repo (\<lambda>d. d\<lparr>rd_key := Some k\<rparr>) (repos cfg)\<rparr>"

definition RepositoryKey ::
  "('c, 't, 'd) repo_lib \<Rightarrow> iteration \<Rightarrow> string \<Rightarrow> ('c, 't, 'd) RepositoryConfig \<Rightarrow>
     failure + ('d option \<times> ('c, 't, 'd) RepositoryConfig)" where
  "RepositoryKey L it repo cfg =
     no_throw (bindE (DeduplicateRepo L it repo cfg) (\<lambda>(unique, cfg).
       case Data cfg unique of
         None \<Rightarrow> Inr (None, cfg)
       | Some data \<Rightarrow>
           (case rd_key data of
              Some k \<Rightarrow> Inr (k, cfg)
            | None \<Rightarrow>
                bindE (BuildGraphForRepository L it unique cfg) (\<lambda>(r, cfg).
                  case r of
                    None \<Rightarrow> Inr (None, set_key unique None cfg)
                  | Some graph \<Rightarrow>
                      (case rl_dump_indent L 2 graph of
                         Inl what \<Rightarrow> Inl (Thrown what)
                       | Inr text \<Rightarrow>
                           let k = rl_store_blob L text in Inr (k, set_key unique k cfg))))))"

section \<open>Replacing precomputed roots\<close>

definition replace_root ::
  "('c, 't, 'd) repo_lib \<Rightarrow> PrecomputedRoot \<Rightarrow> ('c, 't) FileRoot \<Rightarrow> ('c, 't) FileRoot \<Rightarrow> ('c, 't) FileRoot" where
  "replace_root L root_desc v candidate =
     (case GetPrecomputedDescription candidate of
        None \<Rightarrow> candidate
      | Some p \<Rightarrow> if PrecomputedRoot_equal L p root_desc then v else candidate)"

definition has_root ::
  "('c, 't, 'd) repo_lib \<Rightarrow> PrecomputedRoot \<Rightarrow> ('c, 't) FileRoot \<Rightarrow> bool" where
  "has_root L root_desc candidate =
     (case GetPrecomputedDescription candidate of
        None \<Rightarrow> False
      | Some p \<Rightarrow> PrecomputedRoot_equal L p root_desc)"

definition replace_roots ::
  "('c, 't, 'd) repo_lib \<Rightarrow> PrecomputedRoot \<Rightarrow> ('c, 't) FileRoot \<Rightarrow> ('c, 't) RepositoryInfo \<Rightarrow>
     ('c, 't) RepositoryInfo" where
  "replace_roots L root_desc v info = info\<lparr>
     workspace_root := replace_root L root_desc v (workspace_root info),
     target_root := replace_root L root_desc v (target_root info),
     rule_root := replace_root L root_desc v (rule_root info),
     expression_root := replace_root L root_desc v (expression_root info)\<rparr>"

definition SetPrecomputedRoot ::
  "('c, 't, 'd) repo_lib \<Rightarrow> iteration \<Rightarrow> PrecomputedRoot \<Rightarrow> ('c, 't) FileRoot \<Rightarrow>
     ('c, 't, 'd) RepositoryConfig \<Rightarrow> ('c, 't, 'd) RepositoryConfig" where
  "SetPrecomputedRoot L it root_desc v cfg =
     foldl (\<lambda>cfg (name, data).
         if list_ex (has_root L root_desc)
              [workspace_root (rd_info data), target_root (rd_info data), rule_root (rd_info data),
               expression_root (rd_info data)]
         then SetInfo L name (replace_roots L root_desc v (rd_info data)) cfg
         else cfg)
       cfg (order_repos it (repos cfg))"

end
