(* ===== verification/Jst_Automata_Props.thy ===== *)
theory Jst_Automata_Props
  imports Jst_Automata Jst_Hash_Props "HOL-Library.Multiset"
begin

text \<open>
  The minimizer computes bisimilarity: two states get the same representative if and only if
  they have the same content and symbols and every symbol leads to the same state or again to
  such states. Marked pairs are never bisimilar, and what is not marked at the end of the
  marking is a bisimulation; the order of the unordered maps does not matter.
\<close>

section \<open>Bisimilarity\<close>

type_synonym 'c automaton = "string \<Rightarrow> ('c \<times> transitions_t) option"

coinductive bisimilar :: "'c automaton \<Rightarrow> string \<Rightarrow> string \<Rightarrow> bool" for D :: "'c automaton" where
  bisimilar: "D a = Some (c, ta) \<Longrightarrow> D b = Some (c, tb) \<Longrightarrow> map fst ta = map fst tb \<Longrightarrow>
    (\<forall>x r s. map_of ta x = Some r \<and> map_of tb x = Some s \<longrightarrow> r = s \<or> bisimilar D r s) \<Longrightarrow>
    bisimilar D a b"

inductive_cases bisimilarE: "bisimilar D a b"

definition same_state :: "'c automaton \<Rightarrow> string \<Rightarrow> string \<Rightarrow> bool" where
  "same_state D a b \<longleftrightarrow> a = b \<or> bisimilar D a b"

lemma bisimilar_next:
  "bisimilar D a b \<Longrightarrow> D a = Some (c, ta) \<Longrightarrow> D b = Some (d, tb) \<Longrightarrow>
   map_of ta x = Some r \<Longrightarrow> map_of tb x = Some s \<Longrightarrow> same_state D r s"
  unfolding same_state_def by (erule bisimilarE) auto

lemma map_of_keys: "map fst ta = map fst tb \<Longrightarrow> map_of ta x = Some r \<Longrightarrow> \<exists>s. map_of tb x = Some s"
  by (metis map_of_eq_None_iff not_Some_eq list.set_map)

lemma bisimilar_sym: "bisimilar D a b \<Longrightarrow> bisimilar D b a"
proof (coinduction arbitrary: a b)
  case bisimilar
  obtain i ta tb where ab: "D a = Some (i, ta)" "D b = Some (i, tb)" "map fst ta = map fst tb"
      "\<forall>x r s. map_of ta x = Some r \<and> map_of tb x = Some s \<longrightarrow> r = s \<or> bisimilar D r s"
    using bisimilar by (rule bisimilarE)
  have "r = s \<or> bisimilar D s r \<or> bisimilar D r s" if "map_of tb x = Some r" "map_of ta x = Some s" for x r s
    using ab(4) that by blast
  then show ?case using ab(1,2) ab(3) [symmetric] by auto
qed

lemma bisimilar_trans: "bisimilar D a b \<Longrightarrow> bisimilar D b c \<Longrightarrow> bisimilar D a c"
proof (coinduction arbitrary: a b c)
  case bisimilar
  obtain i ta tb where ab: "D a = Some (i, ta)" "D b = Some (i, tb)" "map fst ta = map fst tb"
      "\<forall>x r s. map_of ta x = Some r \<and> map_of tb x = Some s \<longrightarrow> r = s \<or> bisimilar D r s"
    using bisimilar(1) by (rule bisimilarE)
  obtain tc where bc: "D c = Some (i, tc)" "map fst tb = map fst tc"
      "\<forall>x r s. map_of tb x = Some r \<and> map_of tc x = Some s \<longrightarrow> r = s \<or> bisimilar D r s"
    using bisimilar(2) ab(2) by (auto elim: bisimilarE)
  have "r = s \<or> (\<exists>b. bisimilar D r b \<and> bisimilar D b s) \<or> bisimilar D r s"
    if "map_of ta x = Some r" "map_of tc x = Some s" for x r s
    using that ab(4) bc(3) map_of_keys [OF ab(3) that(1)] by blast
  then show ?case using ab bc by auto
qed

lemma same_state_refl [simp]: "same_state D a a"
  by (simp add: same_state_def)

lemma same_state_sym: "same_state D a b \<longleftrightarrow> same_state D b a"
  unfolding same_state_def using bisimilar_sym by blast

lemma same_state_trans: "same_state D a b \<Longrightarrow> same_state D b c \<Longrightarrow> same_state D a c"
  unfolding same_state_def using bisimilar_trans by blast

section \<open>Pairs and tables\<close>

lemma make_key_cases: "make_key a b = (a, b) \<or> make_key a b = (b, a)"
  by (simp add: make_key_def)

lemma make_key_commute: "make_key a b = make_key b a"
  by (auto simp: make_key_def)

lemma make_key_eq_iff: "make_key a b = make_key c d \<longleftrightarrow> a = c \<and> b = d \<or> a = d \<and> b = c"
  by (auto simp: make_key_def)

lemma map_of_try_emplace:
  "map_of (try_emplace k v m) k' = (if k' = k \<and> map_of m k = None then Some v else map_of m k')"
  by (auto simp: try_emplace_def map_add_def split: option.splits)

lemma map_of_update_value:
  "map_of (update_value k f m) k' = (if k' = k then map_option f (map_of m k) else map_of m k')"
  by (induction m) auto

lemma dom_try_emplace: "dom (map_of (try_emplace k v m)) = insert k (dom (map_of m))"
  by (auto simp: map_of_try_emplace split: if_splits)

definition fresh :: "state_pairs_t \<Rightarrow> bool" where
  "fresh pairs \<longleftrightarrow> (\<forall>k v. map_of pairs k = Some v \<longrightarrow> v = new_pair)"

lemma fresh_emplace: "fresh pairs \<Longrightarrow> fresh (try_emplace k new_pair pairs)"
  by (auto simp: fresh_def map_of_try_emplace)

lemma emplace_all:
  assumes "fresh pairs"
  shows "fresh (foldl (\<lambda>ps t. try_emplace (make_key s t) new_pair ps) pairs ts) \<and>
     dom (map_of (foldl (\<lambda>ps t. try_emplace (make_key s t) new_pair ps) pairs ts)) =
       dom (map_of pairs) \<union> make_key s ` set ts"
  using assms by (induction ts arbitrary: pairs) (auto simp: fresh_emplace dom_try_emplace)

definition pairs_of :: "string set \<Rightarrow> StatePairKey set" where
  "pairs_of S = {make_key a b | a b. a \<in> S \<and> b \<in> S \<and> a \<noteq> b}"

lemma pairs_of_mono: "S \<subseteq> T \<Longrightarrow> pairs_of S \<subseteq> pairs_of T"
  unfolding pairs_of_def by blast

lemma pairs_of_insert: "s \<notin> S \<Longrightarrow> pairs_of (insert s S) = pairs_of S \<union> make_key s ` S"
  unfolding pairs_of_def using make_key_commute by fastforce

lemma bucket_pairs_facts:
  assumes "fresh pairs" "distinct (before @ states)" "pairs_of (set before) \<subseteq> dom (map_of pairs)"
  shows "fresh (bucket_pairs before states pairs) \<and>
     dom (map_of (bucket_pairs before states pairs)) =
       dom (map_of pairs) \<union> pairs_of (set before \<union> set states)"
  using assms
proof (induction before states pairs rule: bucket_pairs.induct)
  case (2 before s states pairs)
  let ?ps = "foldl (\<lambda>ps t. try_emplace (make_key s t) new_pair ps) pairs before"
  have ps: "fresh ?ps" "dom (map_of ?ps) = dom (map_of pairs) \<union> make_key s ` set before"
    using emplace_all [OF 2(2)] by blast+
  have all: "pairs_of (set (before @ [s])) = pairs_of (set before) \<union> make_key s ` set before"
    using 2(3) pairs_of_insert [of s "set before"] by simp
  then have "pairs_of (set (before @ [s])) \<subseteq> dom (map_of ?ps)"
    using 2(4) ps(2) by blast
  moreover have "distinct ((before @ [s]) @ states)"
    using 2(3) by simp
  ultimately have step: "fresh (bucket_pairs (before @ [s]) states ?ps) \<and>
      dom (map_of (bucket_pairs (before @ [s]) states ?ps)) =
        dom (map_of ?ps) \<union> pairs_of (set (before @ [s]) \<union> set states)"
    using 2(1) [OF ps(1)] by blast
  have "make_key s ` set before \<subseteq> pairs_of (set (before @ [s]) \<union> set states)"
    using all pairs_of_mono [of "set (before @ [s])" "set (before @ [s]) \<union> set states"] by blast
  then show ?case
    unfolding bucket_pairs.simps using step ps(2) by (simp add: Un_assoc Un_absorb1)
qed auto

section \<open>Well-formed minimizers\<close>

text \<open>The state of a name: the identifier of its bucket and its transitions.\<close>

definition state_of :: "DFAMinimizer \<Rightarrow> string automaton" where
  "state_of dfa a =
     (case map_of (buckets_by_state dfa) a of
        None \<Rightarrow> None
      | Some i \<Rightarrow> (case map_of (buckets dfa) i of
          None \<Rightarrow> None
        | Some b \<Rightarrow> map_option (Pair i) (map_of (bucket_states b) a)))"

definition minimizer_ok :: "DFAMinimizer \<Rightarrow> bool" where
  "minimizer_ok dfa \<longleftrightarrow>
     distinct (map fst (buckets dfa)) \<and>
     (\<forall>i b. map_of (buckets dfa) i = Some b \<longrightarrow>
        distinct (map fst (bucket_states b)) \<and>
        (\<forall>a ts. map_of (bucket_states b) a = Some ts \<longrightarrow>
           map fst ts = bucket_symbols b \<and> map_of (buckets_by_state dfa) a = Some i)) \<and>
     (\<forall>a i. map_of (buckets_by_state dfa) a = Some i \<longrightarrow> state_of dfa a \<noteq> None)"

lemma state_of_Some:
  "state_of dfa a = Some (i, ts) \<longleftrightarrow>
     (\<exists>b. map_of (buckets_by_state dfa) a = Some i \<and> map_of (buckets dfa) i = Some b \<and>
          map_of (bucket_states b) a = Some ts)"
  by (auto simp: state_of_def split: option.splits)

lemma minimizer_bucket:
  assumes "minimizer_ok dfa" "map_of (buckets dfa) i = Some b" "a \<in> set (GetKeys (bucket_states b))"
  obtains ts where "state_of dfa a = Some (i, ts)" "map_of (bucket_states b) a = Some ts"
    "map fst ts = bucket_symbols b"
proof -
  obtain ts where "map_of (bucket_states b) a = Some ts"
    using assms(3) by (auto simp: GetKeys_def dest: weak_map_of_SomeI)
  then show ?thesis
    using that assms(1,2) unfolding minimizer_ok_def state_of_Some by blast
qed

section \<open>Marking\<close>

definition bis_pair :: "string automaton \<Rightarrow> StatePairKey \<Rightarrow> bool" where
  "bis_pair D p \<longleftrightarrow> bisimilar D (fst p) (snd p)"

lemma bis_pair_make_key [simp]: "bis_pair D (make_key a b) \<longleftrightarrow> bisimilar D a b"
  using make_key_cases [of a b] bisimilar_sym by (auto simp: bis_pair_def)

text \<open>
  Only pairs that are not bisimilar are marked, a parent that is bisimilar has only bisimilar
  pairs below it, and the parents of a marked pair are marked or wait to be.
\<close>

definition table_ok :: "string automaton \<Rightarrow> state_pairs_t \<Rightarrow> StatePairKey list \<Rightarrow> bool" where
  "table_ok D ps stack \<longleftrightarrow>
     (\<forall>p v. map_of ps p = Some v \<longrightarrow>
        (pair_marked v \<longrightarrow> \<not> bis_pair D p) \<and>
        (\<forall>q\<in>set (pair_parents v). map_of ps q \<noteq> None \<and> (bis_pair D q \<longrightarrow> bis_pair D p) \<and>
           (pair_marked v \<longrightarrow> is_marked ps q \<or> q \<in> set stack))) \<and>
     (\<forall>q\<in>set stack. \<not> bis_pair D q)"

lemma table_ok_marked: "table_ok D ps stack \<Longrightarrow> map_of ps p = Some v \<Longrightarrow> pair_marked v \<Longrightarrow> \<not> bis_pair D p"
  and table_ok_known: "table_ok D ps stack \<Longrightarrow> map_of ps p = Some v \<Longrightarrow> q \<in> set (pair_parents v) \<Longrightarrow>
     map_of ps q \<noteq> None"
  and table_ok_parent: "table_ok D ps stack \<Longrightarrow> map_of ps p = Some v \<Longrightarrow> q \<in> set (pair_parents v) \<Longrightarrow>
     bis_pair D q \<Longrightarrow> bis_pair D p"
  and table_ok_closed: "table_ok D ps stack \<Longrightarrow> map_of ps p = Some v \<Longrightarrow> q \<in> set (pair_parents v) \<Longrightarrow>
     pair_marked v \<Longrightarrow> is_marked ps q \<or> q \<in> set stack"
  and table_ok_stack: "table_ok D ps stack \<Longrightarrow> q \<in> set stack \<Longrightarrow> \<not> bis_pair D q"
  unfolding table_ok_def by blast+

lemma table_okI:
  assumes "\<And>p v. map_of ps p = Some v \<Longrightarrow> pair_marked v \<Longrightarrow> \<not> bis_pair D p"
    and "\<And>p v q. map_of ps p = Some v \<Longrightarrow> q \<in> set (pair_parents v) \<Longrightarrow> map_of ps q \<noteq> None"
    and "\<And>p v q. map_of ps p = Some v \<Longrightarrow> q \<in> set (pair_parents v) \<Longrightarrow> bis_pair D q \<Longrightarrow> bis_pair D p"
    and "\<And>p v q. map_of ps p = Some v \<Longrightarrow> q \<in> set (pair_parents v) \<Longrightarrow> pair_marked v \<Longrightarrow>
      is_marked ps q \<or> q \<in> set stack"
    and "\<And>q. q \<in> set stack \<Longrightarrow> \<not> bis_pair D q"
  shows "table_ok D ps stack"
  unfolding table_ok_def using assms by blast

definition extends :: "state_pairs_t \<Rightarrow> state_pairs_t \<Rightarrow> bool" where
  "extends ps ps' \<longleftrightarrow>
     dom (map_of ps') = dom (map_of ps) \<and>
     (\<forall>p v. map_of ps p = Some v \<longrightarrow> (\<exists>v'. map_of ps' p = Some v' \<and>
        set (pair_parents v) \<subseteq> set (pair_parents v') \<and> (pair_marked v \<longrightarrow> pair_marked v')))"

lemma extends_refl: "extends ps ps"
  by (auto simp: extends_def)

lemma extendsE:
  assumes "extends ps ps'" "map_of ps p = Some v"
  obtains v' where "map_of ps' p = Some v'" "set (pair_parents v) \<subseteq> set (pair_parents v')"
    "pair_marked v \<longrightarrow> pair_marked v'"
  using assms unfolding extends_def by blast

lemma extends_dom: "extends ps ps' \<Longrightarrow> dom (map_of ps') = dom (map_of ps)"
  unfolding extends_def by blast

lemma extends_trans:
  assumes "extends ps ps'" "extends ps' ps''"
  shows "extends ps ps''"
  unfolding extends_def
proof (intro conjI allI impI)
  show "dom (map_of ps'') = dom (map_of ps)" using assms extends_dom by blast
  fix p v assume "map_of ps p = Some v"
  then obtain v' where v': "map_of ps' p = Some v'" "set (pair_parents v) \<subseteq> set (pair_parents v')"
      "pair_marked v \<longrightarrow> pair_marked v'" using extendsE [OF assms(1)] by blast
  obtain v'' where "map_of ps'' p = Some v''" "set (pair_parents v') \<subseteq> set (pair_parents v'')"
      "pair_marked v' \<longrightarrow> pair_marked v''" using extendsE [OF assms(2) v'(1)] by blast
  then show "\<exists>v'. map_of ps'' p = Some v' \<and> set (pair_parents v) \<subseteq> set (pair_parents v') \<and>
      (pair_marked v \<longrightarrow> pair_marked v')" using v' by blast
qed

lemma is_marked_iff: "is_marked ps p \<longleftrightarrow> (\<exists>v. map_of ps p = Some v \<and> pair_marked v)"
  by (auto simp: is_marked_def split: option.splits)

lemma extends_marked: "extends ps ps' \<Longrightarrow> is_marked ps p \<Longrightarrow> is_marked ps' p"
  unfolding is_marked_iff by (blast elim: extendsE)

lemma extends_update_value:
  assumes "\<And>v. set (pair_parents v) \<subseteq> set (pair_parents (f v)) \<and> (pair_marked v \<longrightarrow> pair_marked (f v))"
  shows "extends ps (update_value k f ps)"
  using assms by (auto simp: extends_def map_of_update_value split: if_splits)

lemma extends_set_marked: "extends ps (set_marked k ps)"
  unfolding set_marked_def by (rule extends_update_value) simp

lemma is_marked_set_marked:
  "is_marked (set_marked k ps) p \<longleftrightarrow> p = k \<and> map_of ps k \<noteq> None \<or> is_marked ps p"
  by (auto simp: is_marked_def set_marked_def map_of_update_value split: option.splits)

lemma map_of_set_marked:
  "map_of (set_marked k ps) p = Some v \<longleftrightarrow>
     (\<exists>u. map_of ps p = Some u \<and> v = (if p = k then u\<lparr>pair_marked := True\<rparr> else u))"
  by (auto simp: set_marked_def map_of_update_value)

lemma table_ok_mark:
  assumes ok: "table_ok D ps (k # stack)" and k: "map_of ps k = Some v"
  shows "table_ok D (set_marked k ps) (pair_parents v @ stack)"
proof -
  have not: "\<not> bis_pair D k" by (rule table_ok_stack [OF ok]) simp
  have old: "\<exists>u. map_of ps p = Some u \<and> pair_parents u = pair_parents w \<and> (pair_marked w \<longrightarrow> p = k \<or> pair_marked u)"
    if "map_of (set_marked k ps) p = Some w" for p w
    using that unfolding map_of_set_marked by auto
  show ?thesis
  proof (rule table_okI)
    show "\<not> bis_pair D p" if "map_of (set_marked k ps) p = Some w" "pair_marked w" for p w
      using old [OF that(1)] that(2) not table_ok_marked [OF ok] by blast
    fix p w q assume w: "map_of (set_marked k ps) p = Some w" "q \<in> set (pair_parents w)"
    obtain u where u: "map_of ps p = Some u" "q \<in> set (pair_parents u)" "pair_marked w \<longrightarrow> p = k \<or> pair_marked u"
      using old [OF w(1)] w(2) by auto
    show "map_of (set_marked k ps) q \<noteq> None"
      using table_ok_known [OF ok u(1,2)] by (auto simp: set_marked_def map_of_update_value)
    show "bis_pair D q \<Longrightarrow> bis_pair D p"
      by (rule table_ok_parent [OF ok u(1,2)])
    show "is_marked (set_marked k ps) q \<or> q \<in> set (pair_parents v @ stack)" if "pair_marked w"
    proof (cases "p = k")
      case True
      then show ?thesis using u(1,2) k by simp
    next
      case False
      then have "is_marked ps q \<or> q \<in> set (k # stack)"
        using table_ok_closed [OF ok u(1,2)] that u(3) by blast
      then show ?thesis using k by (auto simp: is_marked_set_marked)
    qed
  next
    fix q assume "q \<in> set (pair_parents v @ stack)"
    then consider "q \<in> set (pair_parents v)" | "q \<in> set (k # stack)" by auto
    then show "\<not> bis_pair D q"
      using not table_ok_parent [OF ok k] table_ok_stack [OF ok] by cases blast+
  qed
qed

lemma table_ok_drop:
  assumes "table_ok D ps (k # stack)" "map_of ps k = None \<or> is_marked ps k"
  shows "table_ok D ps stack"
proof (rule table_okI)
  show "is_marked ps q \<or> q \<in> set stack"
    if "map_of ps p = Some v" "q \<in> set (pair_parents v)" "pair_marked v" for p v q
    using table_ok_closed [OF assms(1) that] table_ok_known [OF assms(1) that(1,2)] assms(2) by auto
qed (use table_ok_marked [OF assms(1)] table_ok_known [OF assms(1)] table_ok_parent [OF assms(1)]
      table_ok_stack [OF assms(1)] in \<open>auto simp del: split_paired_All\<close>)

lemma mark_parents_ok:
  "table_ok D ps stack \<Longrightarrow>
     table_ok D (mark_parents ps stack) [] \<and> extends ps (mark_parents ps stack)"
proof (induction ps stack rule: mark_parents.induct)
  case (2 ps parent stack)
  show ?case
  proof (cases "map_of ps parent")
    case None
    then show ?thesis using 2(1) table_ok_drop [OF 2(4)] by simp
  next
    case (Some v)
    show ?thesis
    proof (cases "pair_marked v")
      case True
      then show ?thesis
        using 2(3) [OF Some] table_ok_drop [OF 2(4)] Some by (simp add: is_marked_iff)
    next
      case False
      then show ?thesis
        using 2(2) [OF Some False] table_ok_mark [OF 2(4) Some] Some extends_set_marked extends_trans
        by simp blast
    qed
  qed
qed (simp add: extends_refl)

lemma MarkPairValue_ok:
  assumes "table_ok D ps []" "map_of ps k = Some v" "\<not> bis_pair D k"
  shows "table_ok D (MarkPairValue k ps) []" "extends ps (MarkPairValue k ps)"
    "is_marked (MarkPairValue k ps) k"
proof -
  have "table_ok D ps [k]"
    using assms(3) table_ok_marked [OF assms(1)] table_ok_known [OF assms(1)]
      table_ok_parent [OF assms(1)] table_ok_closed [OF assms(1)]
    by (intro table_okI) auto
  then have "table_ok D (set_marked k ps) (pair_parents v)"
    using table_ok_mark [OF _ assms(2)] by fastforce
  then have "table_ok D (MarkPairValue k ps) [] \<and> extends (set_marked k ps) (MarkPairValue k ps)"
    using mark_parents_ok assms(2) unfolding MarkPairValue_def by simp
  moreover have "is_marked (set_marked k ps) k"
    using assms(2) by (simp add: is_marked_set_marked)
  ultimately show "table_ok D (MarkPairValue k ps) []" "extends ps (MarkPairValue k ps)"
      "is_marked (MarkPairValue k ps) k"
    using extends_set_marked extends_trans extends_marked by blast+
qed

text \<open>A symbol of a pair is settled: the pair is marked or depends on the pair it leads to.\<close>

definition settled :: "state_pairs_t \<Rightarrow> StatePairKey \<Rightarrow> string \<Rightarrow> string \<Rightarrow> bool" where
  "settled ps key r s \<longleftrightarrow> is_marked ps key \<or> r = s \<or>
     (\<exists>v. map_of ps (make_key r s) = Some v \<and> key \<in> set (pair_parents v))"

lemma settled_extends: "extends ps ps' \<Longrightarrow> settled ps key r s \<Longrightarrow> settled ps' key r s"
  unfolding settled_def using extends_marked by (blast elim: extendsE)

lemma mark_symbol_ok:
  assumes ok: "table_ok D ps []" and key: "map_of ps key = Some kv"
    and all: "r \<noteq> s \<Longrightarrow> bisimilar D r s \<Longrightarrow> map_of ps (make_key r s) \<noteq> None"
    and step: "bis_pair D key \<Longrightarrow> same_state D r s"
  shows "table_ok D (mark_symbol key r s ps) [] \<and> extends ps (mark_symbol key r s ps) \<and>
    settled (mark_symbol key r s ps) key r s"
proof (cases "r = s")
  case True
  then show ?thesis using ok by (simp add: mark_symbol_def extends_refl settled_def)
next
  case False
  show ?thesis
  proof (cases "map_of ps (make_key r s) = None \<or> is_marked ps (make_key r s)")
    case True
    then have "\<not> bisimilar D r s"
      using all False table_ok_marked [OF ok] unfolding is_marked_iff by fastforce
    then have "\<not> bis_pair D key"
      using step False unfolding same_state_def by blast
    moreover have "mark_symbol key r s ps = MarkPairValue key ps"
      using True False by (auto simp: mark_symbol_def LookupPairValue_def is_marked_def split: option.splits)
    ultimately show ?thesis
      using MarkPairValue_ok [OF ok key] unfolding settled_def by simp
  next
    case unmarked: False
    then obtain v where v: "map_of ps (make_key r s) = Some v" "\<not> pair_marked v"
      unfolding is_marked_iff by (cases "map_of ps (make_key r s)") blast+
    let ?f = "\<lambda>v. v\<lparr>pair_parents := pair_parents v @ [key]\<rparr>"
    let ?ps = "update_value (make_key r s) ?f ps"
    have eq: "mark_symbol key r s ps = ?ps"
      using v False by (simp add: mark_symbol_def LookupPairValue_def)
    have ext: "extends ps ?ps"
      by (rule extends_update_value) auto
    have old: "\<exists>u. map_of ps p = Some u \<and> pair_marked w = pair_marked u \<and>
        set (pair_parents w) \<subseteq> set (pair_parents u) \<union> (if p = make_key r s then {key} else {})"
      if "map_of ?ps p = Some w" for p w
      using that by (auto simp: map_of_update_value split: if_splits)
    have "table_ok D ?ps []"
    proof (rule table_okI)
      show "\<not> bis_pair D p" if "map_of ?ps p = Some w" "pair_marked w" for p w
        using old [OF that(1)] that(2) table_ok_marked [OF ok] by blast
      fix p w q assume w: "map_of ?ps p = Some w" "q \<in> set (pair_parents w)"
      obtain u where u: "map_of ps p = Some u" "pair_marked w = pair_marked u"
          "q \<in> set (pair_parents u) \<or> p = make_key r s \<and> q = key"
        using old [OF w(1)] w(2) by (auto split: if_splits)
      have "q \<in> dom (map_of ps)"
        using u(1,3) table_ok_known [OF ok u(1)] key by blast
      then show "map_of ?ps q \<noteq> None"
        using extends_dom [OF ext] by blast
      show "bis_pair D p" if "bis_pair D q"
        using u(3)
      proof
        assume "q \<in> set (pair_parents u)"
        then show ?thesis using table_ok_parent [OF ok u(1)] that by blast
      next
        assume "p = make_key r s \<and> q = key"
        then show ?thesis using step that False unfolding same_state_def by simp
      qed
      show "is_marked ?ps q \<or> q \<in> set []" if "pair_marked w"
      proof -
        have "pair_marked u" "p \<noteq> make_key r s" using that u v by auto
        then have "is_marked ps q" using u(3) table_ok_closed [OF ok u(1)] by (metis list.set(1) empty_iff)
        then show ?thesis using extends_marked [OF ext] by blast
      qed
    qed simp
    moreover have "settled ?ps key r s"
      using v(1) by (auto simp: settled_def map_of_update_value)
    ultimately show ?thesis using eq ext by simp
  qed
qed

text \<open>What the table knows of a minimizer: all pairs of states of a bucket, and only these.\<close>

definition pairs_complete :: "DFAMinimizer \<Rightarrow> StatePairKey set \<Rightarrow> bool" where
  "pairs_complete dfa K \<longleftrightarrow>
     (\<forall>key\<in>K. make_key (fst key) (snd key) = key) \<and>
     (\<forall>a b. make_key a b \<in> K \<longleftrightarrow>
        a \<noteq> b \<and> (\<exists>i ta tb. state_of dfa a = Some (i, ta) \<and> state_of dfa b = Some (i, tb)))"

definition pair_settled :: "DFAMinimizer \<Rightarrow> state_pairs_t \<Rightarrow> StatePairKey \<Rightarrow> string set \<Rightarrow> bool" where
  "pair_settled dfa ps key xs \<longleftrightarrow>
     (\<forall>i j ta tb x r s. state_of dfa (fst key) = Some (i, ta) \<longrightarrow> state_of dfa (snd key) = Some (j, tb) \<longrightarrow>
        x \<in> xs \<longrightarrow> map_of ta x = Some r \<longrightarrow> map_of tb x = Some s \<longrightarrow> settled ps key r s)"

lemma pair_settled_extends: "extends ps ps' \<Longrightarrow> pair_settled dfa ps key xs \<Longrightarrow> pair_settled dfa ps' key xs"
  unfolding pair_settled_def using settled_extends by blast

lemma bisimilar_pair:
  "pairs_complete dfa K \<Longrightarrow> r \<noteq> s \<Longrightarrow> bisimilar (state_of dfa) r s \<Longrightarrow> make_key r s \<in> K"
  unfolding pairs_complete_def by (auto elim: bisimilarE)

lemma mark_symbols_ok:
  assumes "map_of (bucket_states bucket) (fst key) = Some ta" "map_of (bucket_states bucket) (snd key) = Some tb"
    and "state_of dfa (fst key) = Some (i, ta)" "state_of dfa (snd key) = Some (i, tb)"
    and "set symbols \<subseteq> fst ` set ta" "set symbols \<subseteq> fst ` set tb"
    and "key \<in> K" "pairs_complete dfa K"
  shows "table_ok (state_of dfa) ps [] \<Longrightarrow> dom (map_of ps) = K \<Longrightarrow>
    \<exists>ps'. mark_symbols bucket key symbols ps = Inr ps' \<and> table_ok (state_of dfa) ps' [] \<and>
      extends ps ps' \<and> pair_settled dfa ps' key (set symbols)"
  using assms(5,6)
proof (induction symbols arbitrary: ps)
  case Nil
  then show ?case by (simp add: extends_refl pair_settled_def)
next
  case (Cons x symbols)
  obtain r s where rs: "map_of ta x = Some r" "map_of tb x = Some s"
    using Cons.prems(3,4) by (metis list.set_intros(1) map_of_eq_None_iff not_Some_eq subsetD)
  let ?ps = "mark_symbol key r s ps"
  have step: "table_ok (state_of dfa) ?ps [] \<and> extends ps ?ps \<and> settled ?ps key r s"
  proof -
    obtain kv where "map_of ps key = Some kv" using assms(7) Cons.prems(2) by blast
    then show ?thesis
    proof (rule mark_symbol_ok [OF Cons.prems(1)])
      show "map_of ps (make_key r s) \<noteq> None" if "r \<noteq> s" "bisimilar (state_of dfa) r s"
        using bisimilar_pair [OF assms(8) that] Cons.prems(2) by blast
      show "same_state (state_of dfa) r s" if "bis_pair (state_of dfa) key"
        using bisimilar_next [OF that [unfolded bis_pair_def] assms(3,4) rs] .
    qed
  qed
  have "dom (map_of ?ps) = K" using step extends_dom Cons.prems(2) by blast
  then obtain ps' where ps': "mark_symbols bucket key symbols ?ps = Inr ps'" "table_ok (state_of dfa) ps' []"
      "extends ?ps ps'" "pair_settled dfa ps' key (set symbols)"
    using Cons.IH [of ?ps] step Cons.prems(3,4) by auto
  have "settled ps' key r s" using step ps'(3) settled_extends by blast
  then have "pair_settled dfa ps' key (set (x # symbols))"
    using ps'(4) rs assms(3,4) unfolding pair_settled_def by auto
  moreover have "mark_symbols bucket key (x # symbols) ps = Inr ps'"
    using ps'(1) rs assms(1,2) by (simp add: at_map_def)
  ultimately show ?case using ps' step extends_trans by blast
qed

lemma pairs_complete_key:
  assumes "pairs_complete dfa K" "key \<in> K"
  obtains i ta tb where "state_of dfa (fst key) = Some (i, ta)" "state_of dfa (snd key) = Some (i, tb)"
    "fst key \<noteq> snd key" "make_key (fst key) (snd key) = key"
proof -
  have "make_key (fst key) (snd key) = key" "make_key (fst key) (snd key) \<in> K"
    using assms unfolding pairs_complete_def by auto
  then show ?thesis using that assms(1) unfolding pairs_complete_def by blast
qed

lemma mark_pairs_ok:
  assumes ok: "minimizer_ok dfa" and K: "pairs_complete dfa K"
  shows "set keys \<subseteq> K \<Longrightarrow> table_ok (state_of dfa) ps [] \<Longrightarrow> dom (map_of ps) = K \<Longrightarrow>
    \<exists>ps'. mark_pairs dfa keys ps = Inr ps' \<and> table_ok (state_of dfa) ps' [] \<and> extends ps ps' \<and>
      (\<forall>key\<in>set keys. pair_settled dfa ps' key UNIV)"
proof (induction keys arbitrary: ps)
  case Nil
  then show ?case by (simp add: extends_refl)
next
  case (Cons key keys)
  have "key \<in> K" using Cons.prems(1) by simp
  then obtain i ta tb where st: "state_of dfa (fst key) = Some (i, ta)" "state_of dfa (snd key) = Some (i, tb)"
    using pairs_complete_key [OF K] by metis
  then obtain b where b: "map_of (buckets_by_state dfa) (fst key) = Some i" "map_of (buckets dfa) i = Some b"
      "map_of (bucket_states b) (fst key) = Some ta" "map_of (bucket_states b) (snd key) = Some tb"
    unfolding state_of_Some by auto
  have sy: "map fst ta = bucket_symbols b" "map fst tb = bucket_symbols b"
    using ok b unfolding minimizer_ok_def by blast+
  have "set (bucket_symbols b) \<subseteq> fst ` set ta" "set (bucket_symbols b) \<subseteq> fst ` set tb"
    using arg_cong [OF sy(1), of set] arg_cong [OF sy(2), of set] by simp_all
  then obtain ps1 where ps1: "mark_symbols b key (bucket_symbols b) ps = Inr ps1"
      "table_ok (state_of dfa) ps1 []" "extends ps ps1" "pair_settled dfa ps1 key (set (bucket_symbols b))"
    using mark_symbols_ok [OF b(3,4) st _ _ \<open>key \<in> K\<close> K Cons.prems(2,3)] by blast
  obtain ps2 where ps2: "mark_pairs dfa keys ps1 = Inr ps2" "table_ok (state_of dfa) ps2 []"
      "extends ps1 ps2" "\<forall>key\<in>set keys. pair_settled dfa ps2 key UNIV"
    using Cons.IH [OF _ ps1(2)] Cons.prems(1,3) extends_dom [OF ps1(3)] by auto
  have "x \<in> set (bucket_symbols b)" if "map_of ta x = Some r" for x r
    using that sy(1) by (metis map_of_SomeD in_set_zipE zip_map_fst_snd)
  then have "pair_settled dfa ps2 key UNIV"
    using pair_settled_extends [OF ps2(3) ps1(4)] st unfolding pair_settled_def by simp blast
  moreover have "mark_pairs dfa (key # keys) ps = Inr ps2"
    using ps1(1) ps2(1) b by (simp add: at_map_def)
  ultimately show ?case using ps2 ps1(3) extends_trans by auto
qed

text \<open>What is not marked in the end is a bisimulation.\<close>

lemma unmarked_bisimilar:
  assumes ok: "minimizer_ok dfa" and K: "pairs_complete dfa (dom (map_of ps))"
    and table: "table_ok (state_of dfa) ps []"
    and settled: "\<And>key. map_of ps key \<noteq> None \<Longrightarrow> pair_settled dfa ps key UNIV"
    and ab: "map_of ps (make_key a b) = Some v" "\<not> pair_marked v"
  shows "bisimilar (state_of dfa) a b"
  using ab
proof (coinduction arbitrary: a b v)
  case bisimilar
  let ?key = "make_key a b"
  have "?key \<in> dom (map_of ps)" using bisimilar(1) by blast
  then obtain i ta tb where st: "state_of dfa a = Some (i, ta)" "state_of dfa b = Some (i, tb)"
    using K unfolding pairs_complete_def by blast
  have "map fst ta = map fst tb"
    using st ok unfolding state_of_Some minimizer_ok_def by (metis option.inject)
  moreover have "r = s \<or> (\<exists>v. map_of ps (make_key r s) = Some v \<and> \<not> pair_marked v)"
    if "map_of ta x = Some r" "map_of tb x = Some s" for x r s
  proof -
    have "pair_settled dfa ps ?key UNIV" using settled [of ?key] bisimilar(1) by simp
    then have "settled ps ?key r s \<or> settled ps ?key s r"
      using make_key_cases [of a b] st that unfolding pair_settled_def by (elim disjE) simp_all
    then have "r = s \<or> (\<exists>v. map_of ps (make_key r s) = Some v \<and> ?key \<in> set (pair_parents v))"
      using bisimilar make_key_commute [of r s] unfolding settled_def is_marked_iff by auto
    moreover have "\<not> pair_marked w" if "map_of ps (make_key r s) = Some w" "?key \<in> set (pair_parents w)" for w
      using table_ok_closed [OF table that] bisimilar by (auto simp: is_marked_iff)
    ultimately show ?thesis by blast
  qed
  ultimately show ?case using st by auto
qed

section \<open>Representatives\<close>

definition equivalence :: "(string \<Rightarrow> string \<Rightarrow> bool) \<Rightarrow> bool" where
  "equivalence Q \<longleftrightarrow> (\<forall>a. Q a a) \<and> (\<forall>a b. Q a b \<longrightarrow> Q b a) \<and> (\<forall>a b c. Q a b \<longrightarrow> Q b c \<longrightarrow> Q a c)"

lemma equivalence_same_state: "equivalence (same_state D)"
  unfolding equivalence_def using same_state_sym same_state_trans by (metis same_state_refl)

definition decides :: "state_pairs_t \<Rightarrow> (string \<Rightarrow> string \<Rightarrow> bool) \<Rightarrow> string set \<Rightarrow> bool" where
  "decides pairs Q S \<longleftrightarrow>
     (\<forall>a\<in>S. \<forall>b\<in>S. a \<noteq> b \<longrightarrow>
        (\<exists>v. map_of pairs (make_key a b) = Some v \<and> (pair_marked v \<longleftrightarrow> \<not> Q a b)))"

definition represents_classes :: "(string \<Rightarrow> string \<Rightarrow> bool) \<Rightarrow> (string \<times> string) list \<Rightarrow> string set \<Rightarrow> bool" where
  "represents_classes Q bis S \<longleftrightarrow>
     (\<forall>a\<in>S. Q a (representative bis a)) \<and>
     (\<forall>a\<in>S. \<forall>b\<in>S. Q a b \<longrightarrow> representative bis a = representative bis b)"

lemma decidesD:
  "decides pairs Q S \<Longrightarrow> a \<in> S \<Longrightarrow> b \<in> S \<Longrightarrow> a \<noteq> b \<Longrightarrow>
   \<exists>v. map_of pairs (make_key a b) = Some v \<and> (pair_marked v \<longleftrightarrow> \<not> Q a b)"
  unfolding decides_def by blast

lemma decides_mono: "decides pairs Q S \<Longrightarrow> T \<subseteq> S \<Longrightarrow> decides pairs Q T"
  unfolding decides_def by blast

lemma match_states_ok:
  assumes "decides pairs Q (insert l (set states))" "l \<notin> set states" "distinct states"
    and "\<forall>x\<in>set states. map_of bis x = None"
  shows "\<exists>bis'. match_states pairs l states unequal bis =
      Inr (filter (\<lambda>x. \<not> (x \<in> set states \<and> Q l x)) unequal, bis') \<and>
    (\<forall>x. map_of bis' x = (if x \<in> set states \<and> Q l x then Some l else map_of bis x))"
  using assms
proof (induction states arbitrary: unequal bis)
  case (Cons s states)
  obtain v where v: "map_of pairs (make_key l s) = Some v" "pair_marked v \<longleftrightarrow> \<not> Q l s"
    using decidesD [OF Cons.prems(1), of l s] Cons.prems(2) by auto
  have dec: "decides pairs Q (insert l (set states))"
    using decides_mono [OF Cons.prems(1)] by (simp add: subset_insertI2)
  show ?case
  proof (cases "Q l s")
    case True
    have "\<forall>x\<in>set states. map_of (try_emplace s l bis) x = None"
      using Cons.prems(3,4) by (auto simp: map_of_try_emplace)
    then obtain bis' where bis': "match_states pairs l states (filter (\<lambda>x. x \<noteq> s) unequal) (try_emplace s l bis) =
          Inr (filter (\<lambda>x. \<not> (x \<in> set states \<and> Q l x)) (filter (\<lambda>x. x \<noteq> s) unequal), bis')"
        "\<forall>x. map_of bis' x = (if x \<in> set states \<and> Q l x then Some l else map_of (try_emplace s l bis) x)"
      using Cons.IH [OF dec, of "try_emplace s l bis" "filter (\<lambda>x. x \<noteq> s) unequal"] Cons.prems(2,3) by auto
    have "filter (\<lambda>x. \<not> (x \<in> set states \<and> Q l x)) (filter (\<lambda>x. x \<noteq> s) unequal) =
        filter (\<lambda>x. \<not> (x \<in> set (s # states) \<and> Q l x)) unequal"
      using True by (auto simp: filter_filter intro!: filter_cong)
    moreover have "\<forall>x. map_of bis' x = (if x \<in> set (s # states) \<and> Q l x then Some l else map_of bis x)"
      using bis'(2) True Cons.prems(4) by (auto simp: map_of_try_emplace)
    ultimately show ?thesis
      using bis'(1) v True by (simp add: LookupPairValue_def)
  next
    case False
    have "filter (\<lambda>x. \<not> (x \<in> set states \<and> Q l x)) unequal =
        filter (\<lambda>x. \<not> (x \<in> set (s # states) \<and> Q l x)) unequal"
      using False by (auto intro!: filter_cong)
    moreover have "(x \<in> set (s # states) \<and> Q l x) = (x \<in> set states \<and> Q l x)" for x
      using False by auto
    ultimately show ?thesis
      using Cons.IH [OF dec, of bis unequal] Cons.prems(2-4) v False by (simp add: LookupPairValue_def)
  qed
qed simp

declare bucket_bisimulation.simps [simp del]

lemma bucket_bisimulation_ok:
  assumes Q: "equivalence Q"
  shows "decides pairs Q (set xs) \<Longrightarrow> distinct xs \<Longrightarrow> \<forall>x\<in>set xs. map_of bis x = None \<Longrightarrow>
    \<exists>bis'. bucket_bisimulation pairs xs bis = Inr bis' \<and>
      (\<forall>x. x \<notin> set xs \<longrightarrow> map_of bis' x = map_of bis x) \<and> represents_classes Q bis' (set xs)"
proof (induction "length xs" arbitrary: xs bis rule: less_induct)
  case less
  show ?case
  proof (cases xs rule: rev_cases)
    case Nil
    then show ?thesis by (simp add: bucket_bisimulation.simps represents_classes_def)
  next
    case (snoc ys l)
    let ?un = "filter (\<lambda>x. \<not> Q l x) ys"
    have un: "filter (\<lambda>x. \<not> (x \<in> set ys \<and> Q l x)) ys = ?un" by (rule filter_cong) auto
    obtain bis1 where bis1: "match_states pairs l ys ys bis = Inr (?un, bis1)"
        "\<forall>x. map_of bis1 x = (if x \<in> set ys \<and> Q l x then Some l else map_of bis x)"
      using match_states_ok [of pairs Q l ys bis ys] less.prems snoc unfolding un by auto
    have "length ?un < length xs" using snoc by (simp add: less_Suc_eq_le)
    moreover have "decides pairs Q (set ?un)"
      by (rule decides_mono [OF less.prems(1)]) (use snoc in auto)
    moreover have "distinct ?un" "\<forall>x\<in>set ?un. map_of bis1 x = None"
      using less.prems(2,3) snoc bis1(2) by auto
    ultimately obtain bis' where bis': "bucket_bisimulation pairs ?un bis1 = Inr bis'"
        "\<forall>x. x \<notin> set ?un \<longrightarrow> map_of bis' x = map_of bis1 x" "represents_classes Q bis' (set ?un)"
      using less.hyps by blast
    have run: "bucket_bisimulation pairs xs bis = Inr bis'"
      using snoc bis1(1) bis'(1) by (subst bucket_bisimulation.simps) simp
    have same: "map_of bis' x = map_of bis x" if "x \<notin> set xs" for x
      using that snoc bis'(2) bis1(2) by auto
    have rep: "representative bis' x = l" if "x \<in> set xs" "x \<notin> set ?un" for x
      using that snoc bis'(2) bis1(2) less.prems(2,3) by (auto simp: representative_def)
    have "Q l l" using Q unfolding equivalence_def by blast
    then have other: "Q l x" if "x \<in> set xs" "x \<notin> set ?un" for x
      using that snoc by auto
    have "represents_classes Q bis' (set xs)"
      unfolding represents_classes_def
    proof (intro conjI ballI impI)
      fix a assume a: "a \<in> set xs"
      show "Q a (representative bis' a)"
      proof (cases "a \<in> set ?un")
        case True
        then show ?thesis using bis'(3) unfolding represents_classes_def by blast
      next
        case False
        have "Q a l" using other [OF a False] Q unfolding equivalence_def by blast
        then show ?thesis using rep [OF a False] by simp
      qed
      fix b assume b: "b \<in> set xs" and ab: "Q a b"
      have "Q l a \<longleftrightarrow> Q l b" using ab Q unfolding equivalence_def by blast
      then have "a \<in> set ?un \<longleftrightarrow> b \<in> set ?un"
        using other [OF a] other [OF b] by auto
      then show "representative bis' a = representative bis' b"
        using bis'(3) rep [OF a] rep [OF b] ab unfolding represents_classes_def by (cases "a \<in> set ?un") auto
    qed
    then show ?thesis using run same by blast
  qed
qed

lemma buckets_bisimulation_ok:
  assumes ok: "minimizer_ok dfa" and Q: "equivalence Q"
    and order: "\<forall>xs. mset (order_names it xs) = mset xs"
    and dec: "\<forall>b\<in>ran (map_of (buckets dfa)). decides pairs Q (fst ` set (bucket_states b))"
  shows "distinct ids \<Longrightarrow> \<forall>x i. map_of (buckets_by_state dfa) x = Some i \<longrightarrow> i \<in> set ids \<longrightarrow> map_of bis x = None \<Longrightarrow>
    \<exists>bis'. buckets_bisimulation it pairs (List.map_filter (map_of (buckets dfa)) ids) bis = Inr bis' \<and>
      (\<forall>x. (\<forall>i\<in>set ids. map_of (buckets_by_state dfa) x \<noteq> Some i) \<longrightarrow> map_of bis' x = map_of bis x) \<and>
      (\<forall>i\<in>set ids. \<forall>b. map_of (buckets dfa) i = Some b \<longrightarrow> represents_classes Q bis' (fst ` set (bucket_states b)))"
proof (induction ids arbitrary: bis)
  case (Cons i ids)
  show ?case
  proof (cases "map_of (buckets dfa) i")
    case None
    have "map_of (buckets_by_state dfa) x \<noteq> Some i" for x
    proof
      assume i: "map_of (buckets_by_state dfa) x = Some i"
      then have "state_of dfa x \<noteq> None" using ok unfolding minimizer_ok_def by blast
      then show False using i None by (simp add: state_of_def)
    qed
    then show ?thesis using Cons None by (simp add: List.map_filter_def)
  next
    case (Some b)
    let ?xs = "order_names it (GetKeys (bucket_states b))"
    have ms: "mset ?xs = mset (map fst (bucket_states b))" using order by (simp add: GetKeys_def)
    have xs: "set ?xs = fst ` set (bucket_states b)" "distinct ?xs"
      using mset_eq_setD [OF ms] mset_eq_imp_distinct_iff [OF ms] ok Some unfolding minimizer_ok_def by auto
    have mem: "map_of (buckets_by_state dfa) x = Some i" if "x \<in> set ?xs" for x
      using minimizer_bucket [OF ok Some, of x] that xs(1) unfolding state_of_Some GetKeys_def by auto
    have "decides pairs Q (fst ` set (bucket_states b))"
      using dec ranI [of "map_of (buckets dfa)" i b] Some by blast
    then obtain bis1 where bis1: "bucket_bisimulation pairs ?xs bis = Inr bis1"
        "\<forall>x. x \<notin> set ?xs \<longrightarrow> map_of bis1 x = map_of bis x" "represents_classes Q bis1 (set ?xs)"
      using bucket_bisimulation_ok [OF Q, of pairs ?xs bis] xs mem Cons.prems(2) by auto
    have "map_of bis1 x = None" if "map_of (buckets_by_state dfa) x = Some j" "j \<in> set ids" for x j
      using bis1(2) mem [of x] that Cons.prems by (metis distinct.simps(2) list.set_intros(2) option.inject)
    then obtain bis' where bis': "buckets_bisimulation it pairs (List.map_filter (map_of (buckets dfa)) ids) bis1 = Inr bis'"
        "\<forall>x. (\<forall>i\<in>set ids. map_of (buckets_by_state dfa) x \<noteq> Some i) \<longrightarrow> map_of bis' x = map_of bis1 x"
        "\<forall>i\<in>set ids. \<forall>b. map_of (buckets dfa) i = Some b \<longrightarrow> represents_classes Q bis' (fst ` set (bucket_states b))"
      using Cons.IH [of bis1] Cons.prems(1) by auto
    have "map_of bis' x = map_of bis1 x" if "x \<in> set ?xs" for x
      using bis'(2) mem [OF that] Cons.prems(1) by (metis distinct.simps(2) option.inject)
    then have "representative bis' x = representative bis1 x" if "x \<in> set ?xs" for x
      using that by (simp add: representative_def)
    then have "represents_classes Q bis' (set ?xs)"
      using bis1(3) unfolding represents_classes_def by simp
    moreover have "map_of bis' x = map_of bis x"
      if "\<forall>j\<in>set (i # ids). map_of (buckets_by_state dfa) x \<noteq> Some j" for x
      using that bis'(2) bis1(2) mem [of x] by auto
    ultimately show ?thesis
      using bis' bis1(1) Some xs(1) by (simp add: List.map_filter_def)
  qed
qed (simp add: List.map_filter_def)

definition order_ok :: "iteration \<Rightarrow> bool" where
  "order_ok it \<longleftrightarrow> (\<forall>xs. mset (order_names it xs) = mset xs) \<and> (\<forall>xs. mset (order_pairs it xs) = mset xs)"

lemma CreatePairs_facts:
  assumes ok: "minimizer_ok dfa" and order: "\<forall>xs. mset (order_names it xs) = mset xs"
  shows "fresh (CreatePairs it dfa) \<and>
    dom (map_of (CreatePairs it dfa)) =
      (\<Union>b\<in>ran (map_of (buckets dfa)). pairs_of (fst ` set (bucket_states b)))"
proof -
  let ?add = "\<lambda>pairs i. case map_of (buckets dfa) i of None \<Rightarrow> pairs
      | Some b \<Rightarrow> bucket_pairs [] (order_names it (GetKeys (bucket_states b))) pairs"
  have step: "fresh (bucket_pairs [] (order_names it (GetKeys (bucket_states b))) pairs) \<and>
      dom (map_of (bucket_pairs [] (order_names it (GetKeys (bucket_states b))) pairs)) =
        dom (map_of pairs) \<union> pairs_of (fst ` set (bucket_states b))"
    if "map_of (buckets dfa) i = Some b" "fresh pairs" for i b pairs
  proof -
    have ms: "mset (order_names it (GetKeys (bucket_states b))) = mset (map fst (bucket_states b))"
      using order by (simp add: GetKeys_def)
    have "distinct (order_names it (GetKeys (bucket_states b)))"
      using mset_eq_imp_distinct_iff [OF ms] ok that(1) unfolding minimizer_ok_def by blast
    then show ?thesis
      using bucket_pairs_facts [OF that(2), of "[]"] mset_eq_setD [OF ms] by (simp add: pairs_of_def)
  qed
  have all: "fresh pairs \<Longrightarrow> fresh (foldl ?add pairs ids) \<and>
      dom (map_of (foldl ?add pairs ids)) = dom (map_of pairs) \<union>
        (\<Union>i\<in>set ids. \<Union>b\<in>set_option (map_of (buckets dfa) i). pairs_of (fst ` set (bucket_states b)))"
    for pairs ids
  proof (induction ids arbitrary: pairs)
    case (Cons i ids)
    then show ?case
      using step [of i] by (cases "map_of (buckets dfa) i") (simp_all add: Un_assoc)
  qed simp
  have "set (order_names it (GetKeys (buckets dfa))) = fst ` set (buckets dfa)"
    using mset_eq_setD [OF order [rule_format, of "GetKeys (buckets dfa)"]] by (simp add: GetKeys_def)
  then have "(\<Union>i\<in>set (order_names it (GetKeys (buckets dfa))). set_option (map_of (buckets dfa) i)) =
      ran (map_of (buckets dfa))"
    by (auto simp: ran_def) (metis map_of_SomeD fst_conv image_eqI option.set_intros)
  moreover have "fresh []" by (simp add: fresh_def)
  ultimately show ?thesis
    using all [of "[]" "order_names it (GetKeys (buckets dfa))"]
    unfolding CreatePairs_def UN_UN_flatten [symmetric] by simp
qed

lemma fst_set_map_of: "a \<in> fst ` set m \<longleftrightarrow> map_of m a \<noteq> None"
  by (simp add: map_of_eq_None_iff)

lemma CreatePairs_complete:
  assumes ok: "minimizer_ok dfa" and order: "\<forall>xs. mset (order_names it xs) = mset xs"
  shows "pairs_complete dfa (dom (map_of (CreatePairs it dfa)))"
proof -
  have d: "dom (map_of (CreatePairs it dfa)) =
      (\<Union>b\<in>ran (map_of (buckets dfa)). pairs_of (fst ` set (bucket_states b)))"
    using CreatePairs_facts [OF assms] by blast
  have key: "make_key a b \<in> pairs_of S \<longleftrightarrow> a \<in> S \<and> b \<in> S \<and> a \<noteq> b" for a b S
    unfolding pairs_of_def by (auto simp: make_key_eq_iff)
  have "make_key (fst k) (snd k) = k" if k: "k \<in> pairs_of S" for k S
  proof -
    obtain a b where "k = make_key a b" using k unfolding pairs_of_def by blast
    then show ?thesis using make_key_cases [of a b] make_key_commute [of a b] by auto
  qed
  moreover have "(\<exists>bu\<in>ran (map_of (buckets dfa)). a \<in> fst ` set (bucket_states bu) \<and> b \<in> fst ` set (bucket_states bu)) \<longleftrightarrow>
      (\<exists>i ta tb. state_of dfa a = Some (i, ta) \<and> state_of dfa b = Some (i, tb))" (is "?L \<longleftrightarrow> ?R") for a b
  proof
    assume ?L
    then obtain i bu where i: "map_of (buckets dfa) i = Some bu" and
        "a \<in> set (GetKeys (bucket_states bu))" "b \<in> set (GetKeys (bucket_states bu))"
      by (auto simp: ran_def GetKeys_def)
    then show ?R using minimizer_bucket [OF ok i] by metis
  next
    assume ?R
    then show ?L unfolding state_of_Some fst_set_map_of by (auto simp: ran_def)
  qed
  moreover have "make_key a b \<in> (\<Union>bu\<in>ran (map_of (buckets dfa)). pairs_of (fst ` set (bucket_states bu))) \<longleftrightarrow>
      a \<noteq> b \<and> (\<exists>bu\<in>ran (map_of (buckets dfa)). a \<in> fst ` set (bucket_states bu) \<and> b \<in> fst ` set (bucket_states bu))"
    for a b unfolding UN_iff key by blast
  ultimately show ?thesis unfolding pairs_complete_def d by simp
qed

lemma ComputeBisimulation_ok:
  assumes ok: "minimizer_ok dfa" and it: "order_ok it"
  shows "\<exists>bis. ComputeBisimulation it dfa = Inr bis \<and>
    (\<forall>a. state_of dfa a = None \<longrightarrow> representative bis a = a) \<and>
    (\<forall>a. state_of dfa a \<noteq> None \<longrightarrow> same_state (state_of dfa) a (representative bis a)) \<and>
    (\<forall>a b. state_of dfa a \<noteq> None \<longrightarrow> state_of dfa b \<noteq> None \<longrightarrow>
       (representative bis a = representative bis b \<longleftrightarrow> same_state (state_of dfa) a b))"
proof -
  have order: "\<forall>xs. mset (order_names it xs) = mset xs" "\<forall>xs. mset (order_pairs it xs) = mset xs"
    using it unfolding order_ok_def by blast+
  let ?Q = "same_state (state_of dfa)"
  let ?ps = "CreatePairs it dfa"
  let ?keys = "order_pairs it (GetKeys ?ps)"
  note K = CreatePairs_complete [OF ok order(1)]
  have keys: "set ?keys = dom (map_of ?ps)"
    using mset_eq_setD [OF order(2) [rule_format, of "GetKeys ?ps"]]
    by (simp add: GetKeys_def dom_map_of_conv_image_fst)
  have "table_ok (state_of dfa) ?ps []"
    using CreatePairs_facts [OF ok order(1)] unfolding fresh_def
    by (intro table_okI) (fastforce simp: new_pair_def)+
  then obtain ps where ps: "mark_pairs dfa ?keys ?ps = Inr ps" "table_ok (state_of dfa) ps []"
      "extends ?ps ps" "\<forall>key\<in>set ?keys. pair_settled dfa ps key UNIV"
    using mark_pairs_ok [OF ok K, of ?keys ?ps] keys by auto
  have dom: "dom (map_of ps) = dom (map_of ?ps)" using extends_dom [OF ps(3)] .
  have settled: "pair_settled dfa ps key UNIV" if "map_of ps key \<noteq> None" for key
    using ps(4) that dom keys by blast
  have unmarked: "bisimilar (state_of dfa) a b" if "map_of ps (make_key a b) = Some v" "\<not> pair_marked v" for a b v
    by (rule unmarked_bisimilar [OF ok K [folded dom] ps(2) settled that])
  have dec: "\<forall>b\<in>ran (map_of (buckets dfa)). decides ps ?Q (fst ` set (bucket_states b))"
    unfolding decides_def
  proof (intro ballI impI)
    fix b x y assume "b \<in> ran (map_of (buckets dfa))"
    then obtain i where b: "map_of (buckets dfa) i = Some b" by (auto simp: ran_def)
    assume xy: "x \<in> fst ` set (bucket_states b)" "y \<in> fst ` set (bucket_states b)" "x \<noteq> y"
    obtain tx where tx: "state_of dfa x = Some (i, tx)"
      using minimizer_bucket [OF ok b, of x] xy(1) by (auto simp: GetKeys_def)
    obtain ty where ty: "state_of dfa y = Some (i, ty)"
      using minimizer_bucket [OF ok b, of y] xy(2) by (auto simp: GetKeys_def)
    have "make_key x y \<in> dom (map_of ps)"
      using K tx ty xy(3) unfolding pairs_complete_def dom by blast
    then obtain v where v: "map_of ps (make_key x y) = Some v" by blast
    have "pair_marked v \<longleftrightarrow> \<not> ?Q x y"
      using table_ok_marked [OF ps(2) v] unmarked [OF v] xy(3) unfolding same_state_def by auto
    then show "\<exists>v. map_of ps (make_key x y) = Some v \<and> (pair_marked v \<longleftrightarrow> \<not> ?Q x y)"
      using v by blast
  qed
  let ?ids = "order_names it (GetKeys (buckets dfa))"
  have ms: "mset ?ids = mset (map fst (buckets dfa))" using order(1) by (simp add: GetKeys_def)
  have ids: "distinct ?ids" "set ?ids = fst ` set (buckets dfa)"
    using mset_eq_imp_distinct_iff [OF ms] mset_eq_setD [OF ms] ok unfolding minimizer_ok_def by auto
  obtain bis where bis: "buckets_bisimulation it ps (List.map_filter (map_of (buckets dfa)) ?ids) [] = Inr bis"
      "\<forall>x. (\<forall>i\<in>set ?ids. map_of (buckets_by_state dfa) x \<noteq> Some i) \<longrightarrow> map_of bis x = None"
      "\<forall>i\<in>set ?ids. \<forall>b. map_of (buckets dfa) i = Some b \<longrightarrow> represents_classes ?Q bis (fst ` set (bucket_states b))"
    using buckets_bisimulation_ok [OF ok equivalence_same_state order(1) dec ids(1), of "[]"] by auto
  have cls: "\<exists>S. a \<in> S \<and> represents_classes ?Q bis S \<and> (\<forall>b tb. state_of dfa b = Some (i, tb) \<longrightarrow> b \<in> S)"
    if a: "state_of dfa a = Some (i, ta)" for a i ta
  proof -
    obtain bu where bu: "map_of (buckets dfa) i = Some bu" "a \<in> fst ` set (bucket_states bu)"
      using a unfolding state_of_Some fst_set_map_of by auto
    have "i \<in> set ?ids" using bu(1) ids(2) fst_set_map_of [of i "buckets dfa"] by simp
    then have "represents_classes ?Q bis (fst ` set (bucket_states bu))" using bis(3) bu(1) by blast
    moreover have "b \<in> fst ` set (bucket_states bu)" if "state_of dfa b = Some (i, tb)" for b tb
      using that bu(1) unfolding state_of_Some fst_set_map_of by auto
    ultimately show ?thesis using bu(2) by blast
  qed
  have rep: "?Q x (representative bis x)" if "state_of dfa x \<noteq> None" for x
    using that cls unfolding represents_classes_def by fastforce
  have none: "representative bis x = x" if "state_of dfa x = None" for x
  proof -
    have "map_of (buckets_by_state dfa) x = None"
      using ok that unfolding minimizer_ok_def by (metis not_Some_eq)
    then show ?thesis using bis(2) by (simp add: representative_def)
  qed
  have "representative bis a = representative bis b \<longleftrightarrow> ?Q a b"
    if "state_of dfa a \<noteq> None" "state_of dfa b \<noteq> None" for a b
  proof
    assume "representative bis a = representative bis b"
    then show "?Q a b"
      using rep [OF that(1)] rep [OF that(2)] same_state_trans same_state_sym by metis
  next
    assume ab: "?Q a b"
    show "representative bis a = representative bis b"
    proof (cases "a = b")
      case False
      then obtain i ta tb where "state_of dfa a = Some (i, ta)" "state_of dfa b = Some (i, tb)"
        using ab unfolding same_state_def by (auto elim: bisimilarE)
      then show ?thesis using cls ab unfolding represents_classes_def by blast
    qed simp
  qed
  moreover have "ComputeBisimulation it dfa = Inr bis"
    using ps(1) bis(1) by (simp add: ComputeBisimulation_def Let_def)
  ultimately show ?thesis using rep none by blast
qed

end
