(* ===== verification/Jst_Repository_Props.thy ===== *)
theory Jst_Repository_Props
  imports Jst_Repository Jst_Automata_Props Jst_Artifact_Props
begin

text \<open>
  Canonical names and keys of repositories. Two content-fixed repositories have the same canonical
  name if and only if they are bisimilar: the same hash of the base description, and bindings of
  the same names to bisimilar repositories. The graph that is hashed for the key of a repository
  determines the repository up to bisimilarity, and it is built whenever every repository that is
  reachable is content-fixed.
\<close>

text \<open>A root whose scheme is not a string is not reported as an error: the parser throws.\<close>

lemma ParseRoot_throws:
  "get_string v = None \<Longrightarrow> ParseRoot L repo keyword (JArray (v # vs)) = Inl (Thrown (rl_string_error L v))"
  by (auto simp: kGitTreeMarker_def kFileIgnoreSpecialMarker_def kGitTreeIgnoreSpecialMarker_def)

section \<open>Minimizers of given states\<close>

text \<open>What the JSON library documents: a text is that of one value, if it is one at all.\<close>

definition dump_faithful :: "nlohmann \<Rightarrow> bool" where
  "dump_faithful N \<longleftrightarrow>
     (\<forall>c ss c' ss' i. nl_dump N (state_id c ss) = Inr i \<longrightarrow> nl_dump N (state_id c' ss') = Inr i \<longrightarrow>
        state_id c ss = state_id c' ss')"

lemma state_id_inject: "state_id c ss = state_id c' ss' \<longleftrightarrow> c = c' \<and> ss = ss'"
proof -
  have "ToHexString c = ToHexString c' \<longleftrightarrow> c = c'"
    using hex_round_trip_facts [of c] hex_round_trip_facts [of c'] by (metis option.inject)
  moreover have "map JString ss = map JString ss' \<longleftrightarrow> ss = ss'"
    by (rule inj_map_eq_map) (simp add: inj_def)
  ultimately show ?thesis
    by (simp add: state_id_def json_of_strings_def)
qed

lemma dump_faithfulD:
  "dump_faithful N \<Longrightarrow> nl_dump N (state_id c ss) = Inr i \<Longrightarrow> nl_dump N (state_id c' ss') = Inr i \<Longrightarrow>
   c = c' \<and> ss = ss'"
  unfolding dump_faithful_def using state_id_inject by blast

definition represents :: "nlohmann \<Rightarrow> DFAMinimizer \<Rightarrow> string automaton \<Rightarrow> bool" where
  "represents N dfa M \<longleftrightarrow>
     minimizer_ok dfa \<and>
     (\<forall>a. M a = None \<longrightarrow> map_of (buckets_by_state dfa) a = None) \<and>
     (\<forall>a c ts. M a = Some (c, ts) \<longrightarrow>
        (\<exists>i. nl_dump N (state_id c (map fst ts)) = Inr i \<and> state_of dfa a = Some (i, ts))) \<and>
     (\<forall>i b. map_of (buckets dfa) i = Some b \<longrightarrow> (\<exists>c. nl_dump N (state_id c (bucket_symbols b)) = Inr i))"

lemma represents_empty: "represents N empty_minimizer Map.empty"
  by (simp add: represents_def minimizer_ok_def empty_minimizer_def)

lemma keys_update_value [simp]: "map fst (update_value k f m) = map fst m"
  by (induction m) auto

lemma map_of_append_new: "map_of m k = None \<Longrightarrow> map_of (m @ [(k, v)]) x = (if x = k then Some v else map_of m x)"
  by (auto simp: map_add_def split: option.splits)

lemma AddState_represents:
  assumes rep: "represents N dfa M" and new: "M name = None" and faith: "dump_faithful N"
    and i: "nl_dump N (state_id c (map fst ts)) = Inr i"
  shows "\<exists>dfa'. AddState N name ts c dfa = Inr dfa' \<and> represents N dfa' (M(name \<mapsto> (c, ts)))"
proof -
  let ?b0 = "\<lparr>bucket_symbols = map fst ts, bucket_states = []\<rparr>"
  let ?bs = "case map_of (buckets dfa) i of None \<Rightarrow> buckets dfa @ [(i, ?b0)] | Some _ \<Rightarrow> buckets dfa"
  let ?f = "\<lambda>b. b\<lparr>bucket_states := try_emplace name ts (bucket_states b)\<rparr>"
  let ?dfa = "\<lparr>buckets = update_value i ?f ?bs, buckets_by_state = buckets_by_state dfa @ [(name, i)]\<rparr>"
  have ok: "minimizer_ok dfa" and none: "map_of (buckets_by_state dfa) name = None"
    using rep new unfolding represents_def by blast+
  define b where "b = (case map_of (buckets dfa) i of None \<Rightarrow> ?b0 | Some b \<Rightarrow> b)"
  have symbols: "bucket_symbols b = map fst ts"
  proof (cases "map_of (buckets dfa) i")
    case (Some b')
    then obtain c' where "nl_dump N (state_id c' (bucket_symbols b')) = Inr i"
      using rep unfolding represents_def by blast
    then show ?thesis using dump_faithfulD [OF faith i] Some by (simp add: b_def)
  qed (simp add: b_def)
  have fresh_name: "map_of (bucket_states b) name = None"
  proof (cases "map_of (buckets dfa) i")
    case (Some b')
    have "map_of (buckets_by_state dfa) name = Some i" if "map_of (bucket_states b') name = Some ts'" for ts'
      using ok Some that unfolding minimizer_ok_def by blast
    then show ?thesis using none Some by (cases "map_of (bucket_states b') name") (simp_all add: b_def)
  qed (simp add: b_def)
  have run: "AddState N name ts c dfa = Inr ?dfa"
    using i none by (simp add: AddState_def Let_def GetKeys_def)
  have bs: "map_of (buckets ?dfa) k = (if k = i then Some (?f b) else map_of (buckets dfa) k)" for k
    by (auto simp: map_of_update_value b_def map_of_append_new map_add_def split: option.splits)
  have by_state: "map_of (buckets_by_state ?dfa) a = (if a = name then Some i else map_of (buckets_by_state dfa) a)" for a
    using none map_of_append_new [of "buckets_by_state dfa" name i a] by simp
  have states: "map_of (try_emplace name ts (bucket_states b)) a = (if a = name then Some ts else map_of (bucket_states b) a)" for a
    using fresh_name by (simp add: map_of_try_emplace)
  have old: "map_of (bucket_states b) a = Some ts' \<Longrightarrow> map_of (buckets dfa) i = Some b" for a ts'
    by (auto simp: b_def split: option.splits)
  have state: "state_of ?dfa a = (if a = name then Some (i, ts) else state_of dfa a)" for a
  proof (cases "a = name")
    case True
    then show ?thesis unfolding state_of_def bs by_state by (simp add: states)
  next
    case False
    have "map_of (bucket_states b) a = None" if "map_of (buckets dfa) i = None"
      using that by (simp add: b_def)
    moreover have "b' = b" if "map_of (buckets dfa) i = Some b'" for b'
      using that by (simp add: b_def)
    ultimately show ?thesis
      using False unfolding state_of_def bs by_state by (auto simp: states split: option.splits)
  qed
  have "minimizer_ok ?dfa"
    unfolding minimizer_ok_def
  proof (intro conjI allI impI)
    show "distinct (map fst (buckets ?dfa))"
      using ok unfolding minimizer_ok_def by (auto split: option.splits simp: map_of_eq_None_iff)
    show "state_of ?dfa a \<noteq> None" if "map_of (buckets_by_state ?dfa) a = Some j" for a j
      using that ok unfolding by_state state minimizer_ok_def by (auto split: if_splits)
    fix j b' assume b': "map_of (buckets ?dfa) j = Some b'"
    have "distinct (map fst (bucket_states b))"
      using ok unfolding b_def minimizer_ok_def by (auto split: option.splits)
    then have "distinct (map fst (bucket_states (?f b)))"
      using fresh_name by (simp add: try_emplace_def map_of_eq_None_iff)
    then show "distinct (map fst (bucket_states b'))"
      using b' ok unfolding bs minimizer_ok_def by (auto split: if_splits)
    fix a ts' assume a: "map_of (bucket_states b') a = Some ts'"
    have "map fst ts' = bucket_symbols b' \<and> map_of (buckets_by_state ?dfa) a = Some j"
    proof (cases "j = i")
      case True
      then have b'': "b' = ?f b" using b' unfolding bs by simp
      show ?thesis
      proof (cases "a = name")
        case True
        then show ?thesis using a b'' \<open>j = i\<close> symbols unfolding by_state by (simp add: states)
      next
        case False
        then have "map_of (bucket_states b) a = Some ts'" using a b'' by (simp add: states)
        then have "map fst ts' = bucket_symbols b \<and> map_of (buckets_by_state dfa) a = Some i"
          using old ok unfolding minimizer_ok_def by blast
        then show ?thesis using b'' False \<open>j = i\<close> unfolding by_state by simp
      qed
    next
      case False
      then have "map_of (buckets dfa) j = Some b'" using b' unfolding bs by simp
      then have "map fst ts' = bucket_symbols b' \<and> map_of (buckets_by_state dfa) a = Some j"
        using ok a unfolding minimizer_ok_def by blast
      then show ?thesis using none unfolding by_state by auto
    qed
    then show "map fst ts' = bucket_symbols b'" "map_of (buckets_by_state ?dfa) a = Some j" by blast+
  qed
  moreover have "\<exists>c. nl_dump N (state_id c (bucket_symbols b')) = Inr j" if "map_of (buckets ?dfa) j = Some b'" for j b'
    using that i symbols rep unfolding bs represents_def by (auto split: if_splits)
  ultimately have "represents N ?dfa (M(name \<mapsto> (c, ts)))"
    using rep i unfolding represents_def by_state state by auto
  then show ?thesis using run by blast
qed

lemma bisimilar_map:
  assumes "\<And>a b c d ta tb. D a = Some (c, ta) \<Longrightarrow> D b = Some (c, tb) \<Longrightarrow> map fst ta = map fst tb \<Longrightarrow>
      \<exists>i. E a = Some (i, ta) \<and> E b = Some (i, tb)"
  shows "bisimilar D a b \<Longrightarrow> bisimilar E a b"
proof (coinduction arbitrary: a b)
  case bisimilar
  then obtain c ta tb where ab: "D a = Some (c, ta)" "D b = Some (c, tb)" "map fst ta = map fst tb"
      "\<forall>x r s. map_of ta x = Some r \<and> map_of tb x = Some s \<longrightarrow> r = s \<or> bisimilar D r s"
    by (rule bisimilarE)
  then obtain i where "E a = Some (i, ta)" "E b = Some (i, tb)" using assms by blast
  then show ?case using ab(3,4) by auto
qed

lemma represents_bisimilar:
  assumes rep: "represents N dfa M" and faith: "dump_faithful N"
  shows "bisimilar (state_of dfa) a b \<longleftrightarrow> bisimilar M a b"
proof
  have known: "\<exists>c. M a = Some (c, ts) \<and> nl_dump N (state_id c (map fst ts)) = Inr i"
    if a: "state_of dfa a = Some (i, ts)" for a i ts
  proof -
    have "map_of (buckets_by_state dfa) a \<noteq> None" using a unfolding state_of_Some by auto
    then obtain c us where "M a = Some (c, us)" using rep unfolding represents_def by (cases "M a") auto
    then show ?thesis using rep a unfolding represents_def by fastforce
  qed
  show "bisimilar M a b" if "bisimilar (state_of dfa) a b"
    using that
  proof (rule bisimilar_map [rotated])
    fix a b c ta tb
    assume "state_of dfa a = Some (c, ta)" "state_of dfa b = Some (c, tb)" "map fst ta = map fst tb"
    then show "\<exists>i. M a = Some (i, ta) \<and> M b = Some (i, tb)"
      using known [of a c ta] known [of b c tb] dump_faithfulD [OF faith] by metis
  qed
  show "bisimilar (state_of dfa) a b" if "bisimilar M a b"
    using that
  proof (rule bisimilar_map [rotated])
    fix a b c ta tb
    assume ab: "M a = Some (c, ta)" "M b = Some (c, tb)" "map fst ta = map fst tb"
    obtain i where "nl_dump N (state_id c (map fst ta)) = Inr i" "state_of dfa a = Some (i, ta)"
      using rep ab(1) unfolding represents_def by blast
    moreover obtain j where "nl_dump N (state_id c (map fst tb)) = Inr j" "state_of dfa b = Some (j, tb)"
      using rep ab(2) unfolding represents_def by blast
    ultimately show "\<exists>i. state_of dfa a = Some (i, ta) \<and> state_of dfa b = Some (i, tb)"
      using ab(3) by simp
  qed
qed

lemma represents_known: "represents N dfa M \<Longrightarrow> state_of dfa a = None \<longleftrightarrow> M a = None"
  unfolding represents_def state_of_def by (cases "M a") (fastforce split: option.splits)+

lemma represents_same_state:
  "represents N dfa M \<Longrightarrow> dump_faithful N \<Longrightarrow> same_state (state_of dfa) a b \<longleftrightarrow> same_state M a b"
  unfolding same_state_def using represents_bisimilar by blast

section \<open>Canonical names\<close>

text \<open>The content-fixed repositories of a configuration, as states of an automaton.\<close>

definition repo_state :: "('c, 't, 'd) repo_lib \<Rightarrow> ('c, 't, 'd) RepositoryData \<Rightarrow> (string \<times> transitions_t) option" where
  "repo_state L data =
     (case rd_base_desc data of
        None \<Rightarrow> None
      | Some j \<Rightarrow> (case json_dump L j of
          Inl e \<Rightarrow> None
        | Inr text \<Rightarrow> Some (PlainHashData (rl_openssl L) (rl_hash_type L) text, name_mapping (rd_info data))))"

definition repo_states :: "('c, 't, 'd) repo_lib \<Rightarrow> ('c, 't, 'd) RepositoryConfig \<Rightarrow> string automaton" where
  "repo_states L cfg a = (case map_of (repos cfg) a of None \<Rightarrow> None | Some data \<Rightarrow> repo_state L data)"

text \<open>All base descriptions and identifiers of states can be printed.\<close>

definition printable :: "('c, 't, 'd) repo_lib \<Rightarrow> ('c, 't, 'd) RepositoryConfig \<Rightarrow> bool" where
  "printable L cfg \<longleftrightarrow>
     (\<forall>a data j. map_of (repos cfg) a = Some data \<longrightarrow> rd_base_desc data = Some j \<longrightarrow>
        (\<exists>c ts i. repo_state L data = Some (c, ts) \<and> nl_dump (rl_json L) (state_id c (map fst ts)) = Inr i))"

lemma add_states_represents:
  assumes faith: "dump_faithful (rl_json L)"
  shows "represents (rl_json L) dfa M \<Longrightarrow> distinct (map fst rs) \<Longrightarrow> \<forall>(a, data)\<in>set rs. M a = None \<Longrightarrow>
    \<forall>(a, data)\<in>set rs. \<forall>j. rd_base_desc data = Some j \<longrightarrow>
      (\<exists>c ts i. repo_state L data = Some (c, ts) \<and> nl_dump (rl_json L) (state_id c (map fst ts)) = Inr i) \<Longrightarrow>
    \<exists>dfa'. add_states L rs dfa = Inr dfa' \<and>
      represents (rl_json L) dfa' (\<lambda>a. case map_of rs a of None \<Rightarrow> M a | Some data \<Rightarrow> repo_state L data)"
proof (induction rs arbitrary: dfa M)
  case (Cons r rs)
  obtain a data where r: "r = (a, data)" by (cases r)
  have fresh: "map_of rs a = None" using Cons.prems(2) r by (simp add: map_of_eq_None_iff)
  show ?case
  proof (cases "rd_base_desc data")
    case None
    have "(\<lambda>x. case map_of (r # rs) x of None \<Rightarrow> M x | Some data \<Rightarrow> repo_state L data) =
        (\<lambda>x. case map_of rs x of None \<Rightarrow> M x | Some data \<Rightarrow> repo_state L data)"
      using r fresh None Cons.prems(3) by (auto simp: repo_state_def)
    then show ?thesis using Cons.IH [of dfa M] Cons.prems r None by simp
  next
    case (Some j)
    then obtain c ts i where st: "repo_state L data = Some (c, ts)"
        "nl_dump (rl_json L) (state_id c (map fst ts)) = Inr i"
      using Cons.prems(4) r by fastforce
    obtain s where s: "json_dump L j = Inr s" "c = PlainHashData (rl_openssl L) (rl_hash_type L) s"
        "ts = name_mapping (rd_info data)"
      using st(1) Some by (auto simp: repo_state_def split: sum.splits)
    obtain dfa' where dfa': "AddState (rl_json L) a ts c dfa = Inr dfa'"
        "represents (rl_json L) dfa' (M(a \<mapsto> (c, ts)))"
      using AddState_represents [OF Cons.prems(1) _ faith st(2)] Cons.prems(3) r by auto
    have "\<forall>(b, d)\<in>set rs. (M(a \<mapsto> (c, ts))) b = None"
      using Cons.prems(2,3) r by force
    then obtain dfa'' where dfa'': "add_states L rs dfa' = Inr dfa''"
        "represents (rl_json L) dfa'' (\<lambda>x. case map_of rs x of None \<Rightarrow> (M(a \<mapsto> (c, ts))) x | Some data \<Rightarrow> repo_state L data)"
      using Cons.IH [OF dfa'(2)] Cons.prems(2,4) r by auto
    have "(\<lambda>x. case map_of rs x of None \<Rightarrow> (M(a \<mapsto> (c, ts))) x | Some data \<Rightarrow> repo_state L data) =
        (\<lambda>x. case map_of (r # rs) x of None \<Rightarrow> M x | Some data \<Rightarrow> repo_state L data)"
      using r fresh st(1) by (intro ext) (simp split: option.splits)
    then show ?thesis
      using r Some s dfa'(1) dfa'' by simp
  qed
qed simp

lemma order_repos_facts:
  assumes "order_ok it" "distinct (map fst m)"
  shows "distinct (map fst (order_repos it m))" "map_of (order_repos it m) = map_of m"
    "set (order_repos it m) = set m"
proof -
  have ms: "mset (order_names it (GetKeys m)) = mset (map fst m)"
    using assms(1) by (simp add: order_ok_def GetKeys_def)
  let ?ks = "order_names it (GetKeys m)"
  have ks: "distinct ?ks" "set ?ks = fst ` set m"
    using mset_eq_imp_distinct_iff [OF ms] mset_eq_setD [OF ms] assms(2) by auto
  have gen: "set ks \<subseteq> fst ` set m \<Longrightarrow>
      List.map_filter (\<lambda>k. map_option (Pair k) (map_of m k)) ks = map (\<lambda>k. (k, the (map_of m k))) ks" for ks
    by (induction ks) (auto simp: List.map_filter_def dest!: weak_map_of_SomeI)
  have eq: "order_repos it m = map (\<lambda>k. (k, the (map_of m k))) ?ks"
    unfolding order_repos_def using gen [of ?ks] ks(2) by simp
  show "distinct (map fst (order_repos it m))"
    unfolding eq using ks(1) by (simp add: comp_def)
  have "(k, the (map_of m k)) \<in> set m" if "k \<in> fst ` set m" for k
    using that by (metis map_of_SomeD map_of_eq_None_iff option.collapse)
  moreover have "(k, v) = (k, the (map_of m k)) \<and> k \<in> fst ` set m" if "(k, v) \<in> set m" for k v
    using that assms(2) by (force)
  ultimately show s: "set (order_repos it m) = set m"
    unfolding eq using ks(2) by auto
  show "map_of (order_repos it m) = map_of m"
    using s assms(2) \<open>distinct (map fst (order_repos it m))\<close> by (intro map_of_eqI) (auto dest: arg_cong [of _ _ "image fst"])
qed

text \<open>What the table of duplicates means.\<close>

definition canonical :: "('c, 't, 'd) repo_lib \<Rightarrow> ('c, 't, 'd) RepositoryConfig \<Rightarrow> (string \<times> string) list \<Rightarrow> bool" where
  "canonical L cfg ds \<longleftrightarrow>
     (\<forall>a. repo_states L cfg a = None \<longrightarrow> representative ds a = a) \<and>
     (\<forall>a. same_state (repo_states L cfg) a (representative ds a)) \<and>
     (\<forall>a b. repo_states L cfg a \<noteq> None \<longrightarrow> repo_states L cfg b \<noteq> None \<longrightarrow>
        (representative ds a = representative ds b \<longleftrightarrow> same_state (repo_states L cfg) a b))"

lemma compute_duplicates_ok:
  assumes faith: "dump_faithful (rl_json L)" and it: "order_ok it" and d: "distinct (map fst (repos cfg))"
    and print: "printable L cfg"
  shows "\<exists>ds. compute_duplicates L it cfg = Inr ds \<and> canonical L cfg ds"
proof -
  note or = order_repos_facts [OF it d]
  obtain dfa where dfa: "add_states L (order_repos it (repos cfg)) empty_minimizer = Inr dfa"
      "represents (rl_json L) dfa (\<lambda>a. case map_of (order_repos it (repos cfg)) a of None \<Rightarrow> Map.empty a | Some data \<Rightarrow> repo_state L data)"
    using add_states_represents [OF faith represents_empty or(1)] print or(3) d
    unfolding printable_def by fastforce
  have rep: "represents (rl_json L) dfa (repo_states L cfg)"
    using dfa(2) unfolding or(2) repo_states_def [abs_def] by simp
  have "minimizer_ok dfa" using rep unfolding represents_def by (rule conjunct1)
  then obtain ds where ds: "ComputeBisimulation it dfa = Inr ds"
      "\<forall>a. state_of dfa a = None \<longrightarrow> representative ds a = a"
      "\<forall>a. state_of dfa a \<noteq> None \<longrightarrow> same_state (state_of dfa) a (representative ds a)"
      "\<forall>a b. state_of dfa a \<noteq> None \<longrightarrow> state_of dfa b \<noteq> None \<longrightarrow>
         (representative ds a = representative ds b \<longleftrightarrow> same_state (state_of dfa) a b)"
    using ComputeBisimulation_ok [OF _ it] by blast
  have all: "same_state (state_of dfa) a (representative ds a)" for a
    using ds(2,3) by (cases "state_of dfa a = None") simp_all
  have "canonical L cfg ds"
    unfolding canonical_def represents_same_state [OF rep faith, symmetric] represents_known [OF rep, symmetric]
    using ds(2,4) all by (intro conjI) blast+
  then show ?thesis using dfa(1) ds(1) by (simp add: compute_duplicates_def)
qed

lemma DeduplicateRepo_computed:
  "duplicates cfg = Some ds \<Longrightarrow> DeduplicateRepo L it repo cfg = Inr (representative ds repo, cfg)"
  by (simp add: DeduplicateRepo_def)

lemma DeduplicateRepo_first:
  "duplicates cfg = None \<Longrightarrow> compute_duplicates L it cfg = Inr ds \<Longrightarrow>
   DeduplicateRepo L it repo cfg = Inr (representative ds repo, cfg\<lparr>duplicates := Some ds\<rparr>)"
  by (simp add: DeduplicateRepo_def no_throw_def)


text \<open>A configuration with three repositories, two of them the same up to their names.\<close>

fun sample_state_dump :: "json \<Rightarrow> string + string" where
  "sample_state_dump (JArray [JString h, JArray [JString x]]) = (if x = ''x'' then Inr h else Inl [])"
| "sample_state_dump (JObject kvs) = Inr ''d''"
| "sample_state_dump _ = Inl []"

definition sample_repo_lib :: "(unit, unit, string) repo_lib" where
  "sample_repo_lib =
     \<lparr>rl_json = \<lparr>nl_dump = sample_state_dump, nl_get_size = sample_get_size, nl_get_double = sample_get_double\<rparr>,
      rl_dump_indent = (\<lambda>_. sample_dump), rl_json_equal = (=), rl_json_less = (\<lambda>_ _. False),
      rl_string_error = (\<lambda>_. []), rl_format_json = (\<lambda>_. []), rl_hash_string = (\<lambda>_. 0),
      rl_hash_bool = (\<lambda>_. 0), rl_hash_json = (\<lambda>_. 0), rl_openssl = sample_openssl, rl_hash_type = PlainSHA256,
      rl_git_open = (\<lambda>_. None), rl_tree_read = (\<lambda>_ _ _. None), rl_tree_hash = (\<lambda>_. []),
      rl_store_blob = Some\<rparr>"

definition sample_order :: iteration where
  "sample_order = \<lparr>order_names = rev, order_pairs = rev\<rparr>"

definition sample_info :: "string \<Rightarrow> (unit, unit) RepositoryInfo" where
  "sample_info x = (let root = \<lparr>fr_root = AbsentRoot ''t'', fr_ignore_special = False\<rparr>
     in \<lparr>workspace_root = root, target_root = root, rule_root = root, expression_root = root,
         name_mapping = [(''x'', x)], target_file_name = ''TARGETS'', rule_file_name = ''RULES'',
         expression_file_name = ''EXPRESSIONS''\<rparr>)"

definition sample_config :: "(unit, unit, string) RepositoryConfig" where
  "sample_config = SetInfo sample_repo_lib ''a'' (sample_info ''a'')
     (SetInfo sample_repo_lib ''b'' (sample_info ''a'') (SetInfo sample_repo_lib ''c'' (sample_info ''missing'') empty_config))"

lemma sample_order_ok: "order_ok sample_order"
  by (simp add: order_ok_def sample_order_def)

lemma sample_dump_faithful: "dump_faithful (rl_json sample_repo_lib)"
proof -
  have "i = ToHexString c \<and> ss = [''x'']" if "sample_state_dump (state_id c ss) = Inr i" for c ss i
    using that by (cases ss rule: list.exhaust; cases "tl ss")
      (auto simp: state_id_def json_of_strings_def split: if_splits)
  then show ?thesis
    unfolding dump_faithful_def by (simp add: sample_repo_lib_def state_id_def) blast
qed

lemma sample_base:
  "\<exists>kvs. BaseContentDescription sample_repo_lib (sample_info x) = Some (JObject kvs)"
  by (simp add: sample_info_def Let_def BaseContentDescription_def ContentDescription_def json_object_def)

lemma sample_SetInfo:
  "\<exists>d. rd_info d = sample_info x \<and> rd_key d = None \<and>
     (\<exists>kvs. rd_base_desc d = Some (JObject kvs)) \<and>
     SetInfo sample_repo_lib a (sample_info x) cfg = \<lparr>repos = assign a d (repos cfg), duplicates = None\<rparr>"
  using sample_base [of x]
  by (intro exI [of _ "\<lparr>rd_info = sample_info x, rd_base_desc = BaseContentDescription sample_repo_lib (sample_info x),
      rd_key = None\<rparr>"]) (simp add: SetInfo_def)

lemma sample_repos:
  "\<exists>da db dc j k l. repos sample_config = [(''c'', dc), (''b'', db), (''a'', da)] \<and>
     rd_info da = sample_info ''a'' \<and> rd_info db = sample_info ''a'' \<and> rd_info dc = sample_info ''missing'' \<and>
     rd_base_desc da = Some (JObject j) \<and> rd_base_desc db = Some (JObject k) \<and> rd_base_desc dc = Some (JObject l) \<and>
     duplicates sample_config = None"
proof -
  obtain dc where dc: "rd_info dc = sample_info ''missing''" "\<exists>kvs. rd_base_desc dc = Some (JObject kvs)"
      "SetInfo sample_repo_lib ''c'' (sample_info ''missing'') empty_config = \<lparr>repos = [(''c'', dc)], duplicates = None\<rparr>"
    using sample_SetInfo [of "''missing''" "''c''" empty_config] by (auto simp: assign_def empty_config_def)
  obtain db where db: "rd_info db = sample_info ''a''" "\<exists>kvs. rd_base_desc db = Some (JObject kvs)"
      "SetInfo sample_repo_lib ''b'' (sample_info ''a'') \<lparr>repos = [(''c'', dc)], duplicates = None\<rparr> =
         \<lparr>repos = [(''c'', dc), (''b'', db)], duplicates = None\<rparr>"
    using sample_SetInfo [of "''a''" "''b''" "\<lparr>repos = [(''c'', dc)], duplicates = None\<rparr>"] by (auto simp: assign_def)
  obtain da where da: "rd_info da = sample_info ''a''" "\<exists>kvs. rd_base_desc da = Some (JObject kvs)"
      "SetInfo sample_repo_lib ''a'' (sample_info ''a'') \<lparr>repos = [(''c'', dc), (''b'', db)], duplicates = None\<rparr> =
         \<lparr>repos = [(''c'', dc), (''b'', db), (''a'', da)], duplicates = None\<rparr>"
    using sample_SetInfo [of "''a''" "''a''" "\<lparr>repos = [(''c'', dc), (''b'', db)], duplicates = None\<rparr>"]
    by (auto simp: assign_def)
  have eq: "sample_config = \<lparr>repos = [(''c'', dc), (''b'', db), (''a'', da)], duplicates = None\<rparr>"
    unfolding sample_config_def dc(3) db(3) da(3) ..
  have "repos sample_config = [(''c'', dc), (''b'', db), (''a'', da)]" "duplicates sample_config = None"
    unfolding eq by simp_all
  then show ?thesis using da(1,2) db(1,2) dc(1,2) by blast
qed

lemma sample_states:
  "\<exists>h. repo_states sample_repo_lib sample_config =
     [''a'' \<mapsto> (h, [(''x'', ''a'')]), ''b'' \<mapsto> (h, [(''x'', ''a'')]), ''c'' \<mapsto> (h, [(''x'', ''missing'')])] \<and>
   distinct (map fst (repos sample_config)) \<and> printable sample_repo_lib sample_config \<and>
   duplicates sample_config = None"
proof -
  let ?h = "PlainHashData sample_openssl PlainSHA256 ''d''"
  have st: "repo_state sample_repo_lib d = Some (?h, [(''x'', x)])"
    if "rd_info d = sample_info x" "rd_base_desc d = Some (JObject j)" for d x j
    using that by (simp add: repo_state_def json_dump_def sample_repo_lib_def sample_info_def Let_def)
  obtain da db dc j k l where r: "repos sample_config = [(''c'', dc), (''b'', db), (''a'', da)]"
      "rd_info da = sample_info ''a''" "rd_info db = sample_info ''a''" "rd_info dc = sample_info ''missing''"
      "rd_base_desc da = Some (JObject j)" "rd_base_desc db = Some (JObject k)" "rd_base_desc dc = Some (JObject l)"
      "duplicates sample_config = None"
    using sample_repos by blast
  have "repo_states sample_repo_lib sample_config =
     [''a'' \<mapsto> (?h, [(''x'', ''a'')]), ''b'' \<mapsto> (?h, [(''x'', ''a'')]), ''c'' \<mapsto> (?h, [(''x'', ''missing'')])]"
    using st [OF r(2,5)] st [OF r(3,6)] st [OF r(4,7)] r(1) by (intro ext) (simp add: repo_states_def)
  moreover have "\<exists>i. nl_dump (rl_json sample_repo_lib) (state_id c [''x'']) = Inr i" for c
    by (simp add: sample_repo_lib_def state_id_def json_of_strings_def)
  then have "printable sample_repo_lib sample_config"
    using st [OF r(2,5)] st [OF r(3,6)] st [OF r(4,7)] r(1) unfolding printable_def by (simp split: if_splits)
  ultimately show ?thesis using r(1,8) by auto
qed


end
