(* ===== verification/Jst_Repository_Graph.thy ===== *)
theory Jst_Repository_Graph
  imports Jst_Repository_Props
begin

text \<open>
  The graph whose hash is the key of a repository. An identifier in the graph stands for a
  canonical name; its entry holds the base description and the identifiers of the canonical names
  of the bindings. A run of the traversal keeps all complete entries complete and adds only
  complete ones. Hence equal graphs come from repositories with the same content, also in
  different configurations, and a graph is built if and only if all that is reachable is
  content-fixed.
\<close>

section \<open>Entries of the graph\<close>

lemma read_back: "read_digits 10 (to_string_nat n) 0 = n"
  using read_digits_to_string by blast

lemma to_string_nat_inject [simp]: "to_string_nat m = to_string_nat n \<longleftrightarrow> m = n"
  using read_back by metis

lemma map_put_again [simp]: "map_put k v (map_put k w m) = map_put k v m"
  by (induction m) auto

text \<open>
  A state of the traversal in a configuration with its table of canonical names: identifiers are
  numbers that were counted, and every identifier has one name.
\<close>

definition ids_ok :: "('c, 't, 'd) RepositoryConfig \<Rightarrow> ('c, 't, 'd) graph_state \<Rightarrow> bool" where
  "ids_ok cfg st \<longleftrightarrow>
     gs_config st = cfg \<and> is_object (gs_graph st) \<and>
     (\<forall>u i. map_of (gs_ids st) u = Some i \<longrightarrow> (\<exists>n<gs_counter st. i = to_string_nat n)) \<and>
     (\<forall>u v i. map_of (gs_ids st) u = Some i \<longrightarrow> map_of (gs_ids st) v = Some i \<longrightarrow> u = v)"

text \<open>The bindings of an entry name the identifiers of what the names are bound to.\<close>

definition bound :: "(string \<times> string) list \<Rightarrow> (string \<times> string) list \<Rightarrow> (string \<times> string) list \<Rightarrow> (string \<times> json) list \<Rightarrow> bool" where
  "bound ds ids bs fs \<longleftrightarrow>
     (\<forall>l. case map_of bs l of
        None \<Rightarrow> map_of fs l = None
      | Some r \<Rightarrow> (\<exists>k. map_of ids (representative ds r) = Some k \<and> map_of fs l = Some (JString k)))"

definition complete :: "(string \<times> string) list \<Rightarrow> ('c, 't, 'd) graph_state \<Rightarrow> string \<Rightarrow> string \<Rightarrow> bool" where
  "complete ds st u i \<longleftrightarrow>
     (\<exists>data kvs fs. Data (gs_config st) u = Some data \<and> rd_base_desc data = Some (JObject kvs) \<and>
        jfind (gs_graph st) i = Some (JObject (map_put ''bindings'' (JObject fs) kvs)) \<and>
        bound ds (gs_ids st) (name_mapping (rd_info data)) fs)"

definition grows :: "('c, 't, 'd) RepositoryConfig \<Rightarrow> (string \<times> string) list \<Rightarrow>
    ('c, 't, 'd) graph_state \<Rightarrow> ('c, 't, 'd) graph_state \<Rightarrow> bool" where
  "grows cfg ds st st' \<longleftrightarrow>
     ids_ok cfg st' \<and> map_of (gs_ids st) \<subseteq>\<^sub>m map_of (gs_ids st') \<and> gs_counter st \<le> gs_counter st' \<and>
     (\<forall>u i. map_of (gs_ids st) u = Some i \<longrightarrow> complete ds st u i \<longrightarrow> complete ds st' u i) \<and>
     (\<forall>u i. map_of (gs_ids st') u = Some i \<longrightarrow> map_of (gs_ids st) u = Some i \<or> complete ds st' u i)"

lemma grows_refl: "ids_ok cfg st \<Longrightarrow> grows cfg ds st st"
  by (simp add: grows_def)

lemma grows_ids: "grows cfg ds st st' \<Longrightarrow> map_of (gs_ids st) u = Some i \<Longrightarrow> map_of (gs_ids st') u = Some i"
  unfolding grows_def map_le_def by (metis domI)

lemma grows_ok: "grows cfg ds st st' \<Longrightarrow> ids_ok cfg st'"
  unfolding grows_def by blast

lemma grows_trans:
  assumes "grows cfg ds st st'" "grows cfg ds st' st''"
  shows "grows cfg ds st st''"
proof -
  have "map_of (gs_ids st) \<subseteq>\<^sub>m map_of (gs_ids st'')" "gs_counter st \<le> gs_counter st''" "ids_ok cfg st''"
    using assms map_le_trans unfolding grows_def by (blast, linarith, blast)
  moreover have "complete ds st'' u i" if "map_of (gs_ids st) u = Some i" "complete ds st u i" for u i
    using that assms grows_ids [OF assms(1)] unfolding grows_def by blast
  moreover have "map_of (gs_ids st) u = Some i \<or> complete ds st'' u i" if "map_of (gs_ids st'') u = Some i" for u i
    using that assms unfolding grows_def by blast
  ultimately show ?thesis unfolding grows_def by blast
qed

lemma bound_mono:
  assumes "bound ds ids bs fs" "map_of ids \<subseteq>\<^sub>m map_of ids'"
  shows "bound ds ids' bs fs"
  unfolding bound_def
proof
  fix l
  have "map_of ids' u = Some k" if "map_of ids u = Some k" for u k
    using assms(2) that unfolding map_le_def by (metis domI)
  moreover have "case map_of bs l of None \<Rightarrow> map_of fs l = None
      | Some r \<Rightarrow> (\<exists>k. map_of ids (representative ds r) = Some k \<and> map_of fs l = Some (JString k))"
    using assms(1) unfolding bound_def by (rule spec)
  ultimately show "case map_of bs l of None \<Rightarrow> map_of fs l = None
      | Some r \<Rightarrow> (\<exists>k. map_of ids' (representative ds r) = Some k \<and> map_of fs l = Some (JString k))"
    by (cases "map_of bs l") auto
qed

lemma bound_at:
  "bound ds ids bs fs \<Longrightarrow> map_of bs l = Some r \<Longrightarrow>
   \<exists>k. map_of ids (representative ds r) = Some k \<and> map_of fs l = Some (JString k)"
  unfolding bound_def by (drule spec [of _ l]) simp

lemma bound_dom:
  assumes "bound ds ids bs fs"
  shows "fst ` set bs = dom (map_of fs)"
proof -
  have "map_of bs l = None \<longleftrightarrow> map_of fs l = None" for l
    using assms [unfolded bound_def, rule_format, of l] by (auto split: option.splits)
  then have "dom (map_of bs) = dom (map_of fs)" unfolding dom_def by simp
  then show ?thesis by (simp add: dom_map_of_conv_image_fst)
qed

text \<open>What is open: one more identifier, and later its entry.\<close>

definition open_entry :: "string \<Rightarrow> ('c, 't, 'd) graph_state \<Rightarrow> ('c, 't, 'd) graph_state" where
  "open_entry u st = st\<lparr>gs_counter := gs_counter st + 1,
     gs_ids := Jst_Automata.try_emplace u (to_string_nat (gs_counter st)) (gs_ids st)\<rparr>"

lemma open_entry_ids:
  "map_of (gs_ids st) u = None \<Longrightarrow>
   map_of (gs_ids (open_entry u st)) v = (if v = u then Some (to_string_nat (gs_counter st)) else map_of (gs_ids st) v)"
  by (simp add: open_entry_def map_of_try_emplace)

lemma open_entry_ok:
  assumes "ids_ok cfg st" "map_of (gs_ids st) u = None"
  shows "ids_ok cfg (open_entry u st)"
proof -
  have less: "\<exists>n<gs_counter st. i = to_string_nat n" if "map_of (gs_ids st) v = Some i" for v i
    using assms(1) that unfolding ids_ok_def by blast
  have "map_of (gs_ids st) v \<noteq> Some (to_string_nat (gs_counter st))" for v
    using less [of v] by fastforce
  then have "v = w" if "map_of (gs_ids (open_entry u st)) v = Some i" "map_of (gs_ids (open_entry u st)) w = Some i" for v w i
    using that assms unfolding open_entry_ids [OF assms(2)] ids_ok_def
    by (cases "v = u"; cases "w = u") simp_all
  moreover have "\<exists>n<gs_counter (open_entry u st). i = to_string_nat n"
    if "map_of (gs_ids (open_entry u st)) v = Some i" for v i
    using that less [of v] unfolding open_entry_ids [OF assms(2)]
    by (fastforce simp: open_entry_def split: if_splits)
  ultimately show ?thesis using assms(1) unfolding ids_ok_def by (simp add: open_entry_def)
qed

lemma open_entry_complete:
  assumes "map_of (gs_ids st) u = None" "complete ds st v i"
  shows "complete ds (open_entry u st) v i"
proof -
  have "map_of (gs_ids st) \<subseteq>\<^sub>m map_of (gs_ids (open_entry u st))"
    unfolding map_le_def using open_entry_ids [OF assms(1)] assms(1) by auto
  then show ?thesis
    using assms(2) bound_mono unfolding complete_def by (fastforce simp: open_entry_def)
qed

lemma close_entry:
  assumes st: "ids_ok cfg st" and u: "map_of (gs_ids st) u = None"
    and g: "grows cfg ds (open_entry u st) st'"
    and data: "Data cfg u = Some data" "rd_base_desc data = Some (JObject kvs)"
    and b: "bound ds (gs_ids st') (name_mapping (rd_info data)) fs"
    and st'': "st'' = st'\<lparr>gs_graph := jput (to_string_nat (gs_counter st))
      (JObject (map_put ''bindings'' (JObject fs) kvs)) (gs_graph st')\<rparr>"
  shows "grows cfg ds st st'' \<and> map_of (gs_ids st'') u = Some (to_string_nat (gs_counter st))"
proof -
  let ?id = "to_string_nat (gs_counter st)"
  have ok': "ids_ok cfg st'" using grows_ok [OF g] .
  have id: "map_of (gs_ids st') u = Some ?id"
    using grows_ids [OF g] open_entry_ids [OF u] by simp
  obtain gr where gr: "gs_graph st' = JObject gr"
    using ok' unfolding ids_ok_def by (cases "gs_graph st'") auto
  have ok'': "ids_ok cfg st''" using ok' gr unfolding ids_ok_def st'' by simp
  have keep: "complete ds st'' v i" if "map_of (gs_ids st') v = Some i" "v \<noteq> u" "complete ds st' v i" for v i
  proof -
    have "i \<noteq> ?id" using ok' that(1,2) id unfolding ids_ok_def by blast
    then show ?thesis using that(3) gr unfolding complete_def st'' by (auto simp: map_of_map_put)
  qed
  have new: "complete ds st'' u ?id"
    using data b gr ok' unfolding complete_def st'' ids_ok_def by (simp add: map_of_map_put) blast
  have "complete ds st'' v i" if "map_of (gs_ids st) v = Some i" "complete ds st v i" for v i
  proof (rule keep)
    show "v \<noteq> u" using that u by auto
    then have v: "map_of (gs_ids (open_entry u st)) v = Some i" using that open_entry_ids [OF u] by simp
    then show "map_of (gs_ids st') v = Some i" using grows_ids [OF g] by blast
    show "complete ds st' v i" using g v open_entry_complete [OF u that(2)] unfolding grows_def by blast
  qed
  moreover have "map_of (gs_ids st) v = Some i \<or> complete ds st'' v i" if "map_of (gs_ids st'') v = Some i" for v i
  proof (cases "v = u")
    case True
    then show ?thesis using new id that unfolding st'' by simp
  next
    case False
    have "map_of (gs_ids st') v = Some i" using that unfolding st'' by simp
    then show ?thesis using g keep False open_entry_ids [OF u] unfolding grows_def by fastforce
  qed
  moreover have "map_of (gs_ids st'') v = Some i" if "map_of (gs_ids st) v = Some i" for v i
    using that u grows_ids [OF g, of v i] open_entry_ids [OF u, of v] unfolding st'' by (cases "v = u") simp_all
  then have "map_of (gs_ids st) \<subseteq>\<^sub>m map_of (gs_ids st'')"
    unfolding map_le_def by fastforce
  moreover have "gs_counter st \<le> gs_counter st''" using g unfolding grows_def st'' open_entry_def by simp
  ultimately show ?thesis using ok'' id unfolding grows_def st'' by simp
qed

section \<open>Runs of the traversal\<close>

text \<open>Configurations made by \<^verbatim>\<open>SetInfo\<close>: the descriptions fit, and the bindings are a map.\<close>

definition config_ok :: "('c, 't, 'd) repo_lib \<Rightarrow> ('c, 't, 'd) RepositoryConfig \<Rightarrow> bool" where
  "config_ok L cfg \<longleftrightarrow>
     distinct (map fst (repos cfg)) \<and>
     (\<forall>a data. map_of (repos cfg) a = Some data \<longrightarrow>
        rd_base_desc data = BaseContentDescription L (rd_info data) \<and>
        distinct (map fst (name_mapping (rd_info data))))"

lemma base_is_object: "BaseContentDescription L info = Some j \<Longrightarrow> \<exists>kvs. j = JObject kvs"
  by (auto simp: BaseContentDescription_def json_object_def split: option.splits)

lemma config_okD:
  assumes "config_ok L cfg" "Data cfg u = Some data"
  shows "distinct (map fst (name_mapping (rd_info data)))"
    "rd_base_desc data = BaseContentDescription L (rd_info data)"
  using assms unfolding config_ok_def Data_def by blast+

lemma AddToGraph_step:
  assumes "duplicates cfg = Some ds" "gs_config st = cfg"
  shows "AddToGraphAndGetId L it (Suc fuel) repo st =
    (case map_of (gs_ids st) (representative ds repo) of
       Some i \<Rightarrow> Inr (Some i, st)
     | None \<Rightarrow>
         (case Data cfg (representative ds repo) of
            None \<Rightarrow> Inr (None, st)
          | Some data \<Rightarrow>
              (case rd_base_desc data of
                 None \<Rightarrow> Inr (None, st)
               | Some j \<Rightarrow>
                   bindE (add_bindings L it fuel (name_mapping (rd_info data)) (jput ''bindings'' (JObject []) j)
                            (open_entry (representative ds repo) st))
                     (\<lambda>(r, st'). case r of
                        None \<Rightarrow> Inr (None, st')
                      | Some desc \<Rightarrow> Inr (Some (to_string_nat (gs_counter st)),
                          st'\<lparr>gs_graph := jput (to_string_nat (gs_counter st)) desc (gs_graph st')\<rparr>)))))"
proof -
  have st: "st\<lparr>gs_config := cfg\<rparr> = st" using assms(2) by (cases st) simp
  show ?thesis
    unfolding AddToGraphAndGetId.simps Let_def open_entry_def assms(2) DeduplicateRepo_computed [OF assms(1)]
      bindE_simps prod.case st ..
qed

lemma put_binding_fields:
  "put_binding l k (JObject (map_put ''bindings'' (JObject fs) kvs)) =
     JObject (map_put ''bindings'' (JObject (map_put l (JString k) fs)) kvs)"
  by (simp add: put_binding_def map_of_map_put)

declare AddToGraphAndGetId.simps(2) [simp del]

definition run_ok :: "('c, 't, 'd) repo_lib \<Rightarrow> iteration \<Rightarrow> ('c, 't, 'd) RepositoryConfig \<Rightarrow> (string \<times> string) list \<Rightarrow> nat \<Rightarrow> bool" where
  "run_ok L it cfg ds fuel \<longleftrightarrow>
     (\<forall>repo st i st'. AddToGraphAndGetId L it fuel repo st = Inr (Some i, st') \<longrightarrow> ids_ok cfg st \<longrightarrow>
        grows cfg ds st st' \<and> map_of (gs_ids st') (representative ds repo) = Some i)"

lemma add_bindings_grows:
  assumes run: "run_ok L it cfg ds fuel"
  shows "add_bindings L it fuel bs (JObject (map_put ''bindings'' (JObject fs) kvs)) st = Inr (Some desc', st') \<Longrightarrow>
    ids_ok cfg st \<Longrightarrow> distinct (map fst bs) \<Longrightarrow>
    grows cfg ds st st' \<and>
    (\<exists>fs'. desc' = JObject (map_put ''bindings'' (JObject fs') kvs) \<and>
      (\<forall>l r. map_of bs l = Some r \<longrightarrow>
         (\<exists>k. map_of (gs_ids st') (representative ds r) = Some k \<and> map_of fs' l = Some (JString k))) \<and>
      (\<forall>l. map_of bs l = None \<longrightarrow> map_of fs' l = map_of fs l))"
proof (induction bs arbitrary: fs st)
  case Nil
  then show ?case by (auto simp: grows_refl)
next
  case (Cons b bs)
  obtain l r where b: "b = (l, r)" by (cases b)
  obtain k st1 where k: "AddToGraphAndGetId L it fuel r st = Inr (Some k, st1)"
      "add_bindings L it fuel bs (JObject (map_put ''bindings'' (JObject (map_put l (JString k) fs)) kvs)) st1 =
         Inr (Some desc', st')"
    using Cons.prems(1) b by (auto simp: bindE_Inr_iff put_binding_fields split: option.splits)
  have g1: "grows cfg ds st st1" "map_of (gs_ids st1) (representative ds r) = Some k"
    using run k(1) Cons.prems(2) unfolding run_ok_def by blast+
  have dist: "distinct (map fst bs)" using Cons.prems(3) b by simp
  obtain fs' where fs': "grows cfg ds st1 st'" "desc' = JObject (map_put ''bindings'' (JObject fs') kvs)"
      "\<forall>l r. map_of bs l = Some r \<longrightarrow>
         (\<exists>k. map_of (gs_ids st') (representative ds r) = Some k \<and> map_of fs' l = Some (JString k))"
      "\<forall>l'. map_of bs l' = None \<longrightarrow> map_of fs' l' = map_of (map_put l (JString k) fs) l'"
    using Cons.IH [OF k(2) grows_ok [OF g1(1)] dist] by blast
  have "map_of bs l = None" using Cons.prems(3) b by (simp add: map_of_eq_None_iff)
  then have "map_of fs' l = Some (JString k)" using fs'(4) by (simp add: map_of_map_put)
  moreover have "map_of (gs_ids st') (representative ds r) = Some k" using grows_ids [OF fs'(1) g1(2)] .
  ultimately show ?case
    using fs' b grows_trans [OF g1(1) fs'(1)] by (intro conjI exI [of _ fs']) (auto simp: map_of_map_put)
qed

lemma run_grows:
  assumes ds: "duplicates cfg = Some ds" and cfg: "config_ok L cfg"
  shows "run_ok L it cfg ds fuel"
proof (induction fuel)
  case (Suc fuel)
  have "grows cfg ds st st' \<and> map_of (gs_ids st') (representative ds repo) = Some i"
    if run: "AddToGraphAndGetId L it (Suc fuel) repo st = Inr (Some i, st')" and ok: "ids_ok cfg st" for repo st i st'
  proof (cases "map_of (gs_ids st) (representative ds repo)")
    case None
    have st: "gs_config st = cfg" using ok unfolding ids_ok_def by blast
    note run = run [unfolded AddToGraph_step [OF ds st]]
    obtain data where data: "Data cfg (representative ds repo) = Some data"
      using run None by (cases "Data cfg (representative ds repo)") auto
    obtain j where j: "rd_base_desc data = Some j" using run None data by (cases "rd_base_desc data") auto
    then obtain kvs where kvs: "j = JObject kvs" using config_okD(2) [OF cfg data] base_is_object by metis
    obtain desc st1 where r: "add_bindings L it fuel (name_mapping (rd_info data))
          (JObject (map_put ''bindings'' (JObject []) kvs)) (open_entry (representative ds repo) st) = Inr (Some desc, st1)"
        "i = to_string_nat (gs_counter st)" "st' = st1\<lparr>gs_graph := jput i desc (gs_graph st1)\<rparr>"
      using run None data j kvs by (auto simp: bindE_Inr_iff split: option.splits)
    obtain fs where fs: "grows cfg ds (open_entry (representative ds repo) st) st1"
        "desc = JObject (map_put ''bindings'' (JObject fs) kvs)"
        "\<forall>l r. map_of (name_mapping (rd_info data)) l = Some r \<longrightarrow>
           (\<exists>k. map_of (gs_ids st1) (representative ds r) = Some k \<and> map_of fs l = Some (JString k))"
        "\<forall>l. map_of (name_mapping (rd_info data)) l = None \<longrightarrow> map_of fs l = None"
      using add_bindings_grows [OF Suc r(1) open_entry_ok [OF ok None] config_okD(1) [OF cfg data]] by auto
    have "bound ds (gs_ids st1) (name_mapping (rd_info data)) fs"
      using fs(3,4) unfolding bound_def by (auto split: option.splits)
    then show ?thesis
      using close_entry [OF ok None fs(1) data _ _ r(3) [unfolded r(2) fs(2)]] j kvs r(2) by simp
  next
    case (Some k)
    have st: "gs_config st = cfg" using ok unfolding ids_ok_def by blast
    then show ?thesis using run Some ok grows_refl unfolding AddToGraph_step [OF ds st] by auto
  qed
  then show ?case unfolding run_ok_def by blast
qed (simp add: run_ok_def)

section \<open>What is reachable is content-fixed\<close>

coinductive content_fixed :: "('c, 't, 'd) RepositoryConfig \<Rightarrow> string \<Rightarrow> bool"
  for cfg :: "('c, 't, 'd) RepositoryConfig" where
  content_fixed: "Data cfg a = Some data \<Longrightarrow> rd_base_desc data = Some j \<Longrightarrow>
    (\<forall>l r. map_of (name_mapping (rd_info data)) l = Some r \<longrightarrow> content_fixed cfg r) \<Longrightarrow> content_fixed cfg a"

inductive_cases content_fixedE: "content_fixed cfg a"

lemma repo_states_known:
  assumes "printable L cfg" "Data cfg a = Some data" "rd_base_desc data = Some j"
  shows "\<exists>c. repo_states L cfg a = Some (c, name_mapping (rd_info data))"
proof -
  obtain c ts where "repo_state L data = Some (c, ts)"
    using assms unfolding printable_def Data_def by blast
  moreover from this have "ts = name_mapping (rd_info data)"
    using assms(3) by (auto simp: repo_state_def split: sum.splits)
  ultimately show ?thesis using assms(2) unfolding repo_states_def Data_def by auto
qed

lemma repo_states_data:
  assumes "repo_states L cfg a = Some (c, ts)"
  obtains data j where "Data cfg a = Some data" "rd_base_desc data = Some j" "ts = name_mapping (rd_info data)"
  using assms by (auto simp: repo_states_def repo_state_def Data_def split: option.splits sum.splits)

lemma content_fixed_bisimilar:
  assumes "printable L cfg"
  shows "content_fixed cfg a \<Longrightarrow> bisimilar (repo_states L cfg) a b \<Longrightarrow> content_fixed cfg b"
proof (coinduction arbitrary: a b)
  case content_fixed
  obtain data j where a: "Data cfg a = Some data" "rd_base_desc data = Some j"
      "\<forall>l r. map_of (name_mapping (rd_info data)) l = Some r \<longrightarrow> content_fixed cfg r"
    using content_fixed(1) by (rule content_fixedE)
  obtain c ta tb where ab: "repo_states L cfg a = Some (c, ta)" "repo_states L cfg b = Some (c, tb)"
      "map fst ta = map fst tb"
      "\<forall>x r s. map_of ta x = Some r \<and> map_of tb x = Some s \<longrightarrow> r = s \<or> bisimilar (repo_states L cfg) r s"
    using content_fixed(2) by (rule bisimilarE)
  have ta: "ta = name_mapping (rd_info data)" using repo_states_data [OF ab(1)] a(1) by (metis option.inject)
  obtain datb k where b: "Data cfg b = Some datb" "rd_base_desc datb = Some k" "tb = name_mapping (rd_info datb)"
    using repo_states_data [OF ab(2)] by metis
  have "(\<exists>a. content_fixed cfg a \<and> bisimilar (repo_states L cfg) a s) \<or> content_fixed cfg s"
    if s: "map_of (name_mapping (rd_info datb)) l = Some s" for l s
  proof -
    obtain r where r: "map_of ta l = Some r" using map_of_keys [OF ab(3) [symmetric]] s b(3) by blast
    then have "content_fixed cfg r" using a(3) ta by blast
    then show ?thesis using ab(4) r s b(3) by blast
  qed
  then show ?case using b by auto
qed

lemma content_fixed_same_state:
  "printable L cfg \<Longrightarrow> same_state (repo_states L cfg) a b \<Longrightarrow> content_fixed cfg a \<longleftrightarrow> content_fixed cfg b"
  unfolding same_state_def using content_fixed_bisimilar bisimilar_sym by blast

lemma canonical_fixed:
  "printable L cfg \<Longrightarrow> canonical L cfg ds \<Longrightarrow> content_fixed cfg (representative ds a) \<longleftrightarrow> content_fixed cfg a"
  using content_fixed_same_state unfolding canonical_def by blast

section \<open>The traversal ends\<close>

text \<open>Names that have no identifier yet.\<close>

definition remaining :: "('c, 't, 'd) RepositoryConfig \<Rightarrow> ('c, 't, 'd) graph_state \<Rightarrow> nat" where
  "remaining cfg st = card (dom (map_of (repos cfg)) - dom (map_of (gs_ids st)))"

lemma remaining_grows: "grows cfg ds st st' \<Longrightarrow> remaining cfg st' \<le> remaining cfg st"
  unfolding remaining_def grows_def
  by (intro card_mono) (auto simp: finite_dom_map_of dest!: map_le_implies_dom_le)

lemma remaining_open:
  assumes "Data cfg u = Some data" "map_of (gs_ids st) u = None"
  shows "remaining cfg (open_entry u st) < remaining cfg st"
proof -
  have "dom (map_of (gs_ids (open_entry u st))) = insert u (dom (map_of (gs_ids st)))"
    using open_entry_ids [OF assms(2)] by (auto simp: dom_def split: if_splits)
  then show ?thesis
    using assms unfolding remaining_def Data_def
    by (intro psubset_card_mono) (auto simp: finite_dom_map_of)
qed

definition run_ends :: "('c, 't, 'd) repo_lib \<Rightarrow> iteration \<Rightarrow> ('c, 't, 'd) RepositoryConfig \<Rightarrow> (string \<times> string) list \<Rightarrow> nat \<Rightarrow> bool" where
  "run_ends L it cfg ds fuel \<longleftrightarrow>
     (\<forall>repo st. ids_ok cfg st \<longrightarrow> remaining cfg st < fuel \<longrightarrow>
        (\<exists>r st'. AddToGraphAndGetId L it fuel repo st = Inr (r, st') \<and>
           gs_config st' = cfg \<and> (r = None \<longrightarrow> \<not> content_fixed cfg repo)))"

lemma add_bindings_ends:
  assumes ends: "run_ends L it cfg ds fuel" and run: "run_ok L it cfg ds fuel"
  shows "ids_ok cfg st \<Longrightarrow> remaining cfg st < fuel \<Longrightarrow>
    \<exists>r st'. add_bindings L it fuel bs (JObject (map_put ''bindings'' (JObject fs) kvs)) st = Inr (r, st') \<and>
      gs_config st' = cfg \<and> (r = None \<longrightarrow> (\<exists>(l, r)\<in>set bs. \<not> content_fixed cfg r))"
proof (induction bs arbitrary: fs st)
  case Nil
  then show ?case by (simp add: ids_ok_def)
next
  case (Cons b bs)
  obtain l r where b: "b = (l, r)" by (cases b)
  obtain k st1 where k: "AddToGraphAndGetId L it fuel r st = Inr (k, st1)" "gs_config st1 = cfg"
      "k = None \<longrightarrow> \<not> content_fixed cfg r"
    using ends Cons.prems unfolding run_ends_def by blast
  show ?case
  proof (cases k)
    case None
    then show ?thesis using k b by simp
  next
    case (Some i)
    have g: "grows cfg ds st st1" using run k(1) Cons.prems(1) Some unfolding run_ok_def by blast
    have "remaining cfg st1 < fuel" using remaining_grows [OF g] Cons.prems(2) by linarith
    then obtain q st' where
        "add_bindings L it fuel bs (JObject (map_put ''bindings'' (JObject (map_put l (JString i) fs)) kvs)) st1 = Inr (q, st')"
        "gs_config st' = cfg" "q = None \<longrightarrow> (\<exists>(l, r)\<in>set bs. \<not> content_fixed cfg r)"
      using Cons.IH [OF grows_ok [OF g]] by blast
    then show ?thesis using k(1) b Some by (auto simp: put_binding_fields)
  qed
qed

lemma key_traversal_ends:
  assumes ds: "duplicates cfg = Some ds" and cfg: "config_ok L cfg" and can: "canonical L cfg ds"
    and print: "printable L cfg"
  shows "run_ends L it cfg ds fuel"
proof (induction fuel)
  case (Suc fuel)
  have "\<exists>r st'. AddToGraphAndGetId L it (Suc fuel) repo st = Inr (r, st') \<and> gs_config st' = cfg \<and>
      (r = None \<longrightarrow> \<not> content_fixed cfg repo)"
    if ok: "ids_ok cfg st" and fuel: "remaining cfg st < Suc fuel" for repo st
  proof -
    let ?u = "representative ds repo"
    have st: "gs_config st = cfg" using ok unfolding ids_ok_def by blast
    note step = AddToGraph_step [OF ds st, of L it fuel repo]
    have fixed: "content_fixed cfg ?u \<longleftrightarrow> content_fixed cfg repo" by (rule canonical_fixed [OF print can])
    show ?thesis
    proof (cases "map_of (gs_ids st) ?u")
      case (Some i)
      then show ?thesis using step st by simp
    next
      case new: None
      show ?thesis
      proof (cases "\<exists>data j. Data cfg ?u = Some data \<and> rd_base_desc data = Some j")
        case False
        then have "\<not> content_fixed cfg ?u" by (blast elim: content_fixedE)
        moreover have "AddToGraphAndGetId L it (Suc fuel) repo st = Inr (None, st)"
          using False step new by (auto split: option.splits)
        ultimately show ?thesis using fixed st by simp
      next
        case True
        then obtain data j where data: "Data cfg ?u = Some data" "rd_base_desc data = Some j" by blast
        obtain kvs where kvs: "j = JObject kvs" using config_okD(2) [OF cfg data(1)] data(2) base_is_object by metis
        have "remaining cfg (open_entry ?u st) < fuel"
          using remaining_open [OF data(1) new] fuel by linarith
        then obtain r st' where r: "add_bindings L it fuel (name_mapping (rd_info data))
              (JObject (map_put ''bindings'' (JObject []) kvs)) (open_entry ?u st) = Inr (r, st')"
            "gs_config st' = cfg" "r = None \<longrightarrow> (\<exists>(l, r)\<in>set (name_mapping (rd_info data)). \<not> content_fixed cfg r)"
          using add_bindings_ends [OF Suc run_grows [OF ds cfg] open_entry_ok [OF ok new]] by blast
        have "\<not> content_fixed cfg ?u" if none: "r = None"
        proof
          obtain l s where "(l, s) \<in> set (name_mapping (rd_info data))" "\<not> content_fixed cfg s"
            using r(3) none by blast
          then have "map_of (name_mapping (rd_info data)) l = Some s" "\<not> content_fixed cfg s"
            using config_okD(1) [OF cfg data(1)] by simp_all
          moreover assume "content_fixed cfg ?u"
          ultimately show False using data(1) by (auto elim!: content_fixedE)
        qed
        then show ?thesis
          using step new data kvs r(1,2) fixed by (cases r) auto
      qed
    qed
  qed
  then show ?case unfolding run_ends_def by blast
qed (simp add: run_ends_def)

section \<open>Keys\<close>

lemma repo_states_duplicates [simp]: "repo_states L (cfg\<lparr>duplicates := d\<rparr>) = repo_states L cfg"
  by (rule ext) (simp add: repo_states_def)

lemma Data_duplicates [simp]: "Data (cfg\<lparr>duplicates := d\<rparr>) = Data cfg"
  by (rule ext) (simp add: Data_def)

lemma canonical_duplicates [simp]: "canonical L (cfg\<lparr>duplicates := d\<rparr>) ds \<longleftrightarrow> canonical L cfg ds"
  by (simp add: canonical_def)

lemma config_ok_duplicates [simp]: "config_ok L (cfg\<lparr>duplicates := d\<rparr>) \<longleftrightarrow> config_ok L cfg"
  by (simp add: config_ok_def)

lemma printable_duplicates [simp]: "printable L (cfg\<lparr>duplicates := d\<rparr>) \<longleftrightarrow> printable L cfg"
  by (simp add: printable_def)

lemma content_fixed_duplicates [simp]: "content_fixed (cfg\<lparr>duplicates := d\<rparr>) a \<longleftrightarrow> content_fixed cfg a"
proof
  show "content_fixed cfg a" if "content_fixed (cfg\<lparr>duplicates := d\<rparr>) a"
    using that by (coinduction arbitrary: a) (auto elim!: content_fixedE)
  show "content_fixed (cfg\<lparr>duplicates := d\<rparr>) a" if "content_fixed cfg a"
    using that by (coinduction arbitrary: a) (auto elim!: content_fixedE)
qed

definition start_state :: "('c, 't, 'd) RepositoryConfig \<Rightarrow> ('c, 't, 'd) graph_state" where
  "start_state cfg = \<lparr>gs_config = cfg, gs_graph = JObject [], gs_counter = 0, gs_ids = []\<rparr>"

lemma start_state_ok: "ids_ok cfg (start_state cfg)"
  by (simp add: ids_ok_def start_state_def)

lemma remaining_start: "remaining cfg (start_state cfg) < length (repos cfg) + 1"
proof -
  have "card (fst ` set (repos cfg)) \<le> length (repos cfg)"
    by (metis card_length length_map list.set_map)
  then show ?thesis by (simp add: remaining_def start_state_def dom_map_of_conv_image_fst)
qed

text \<open>The first call computes the table of canonical names.\<close>

lemma BuildGraph_start:
  assumes "duplicates cfg = None" "compute_duplicates L it cfg = Inr ds"
  shows "BuildGraphForRepository L it a cfg =
    bindE (AddToGraphAndGetId L it (length (repos cfg) + 1) a (start_state (cfg\<lparr>duplicates := Some ds\<rparr>)))
       (\<lambda>(r, st). Inr (if r = None then None else Some (gs_graph st), gs_config st))"
proof -
  have "DeduplicateRepo L it a cfg = DeduplicateRepo L it a (cfg\<lparr>duplicates := Some ds\<rparr>)"
    using DeduplicateRepo_first [OF assms] DeduplicateRepo_computed [of "cfg\<lparr>duplicates := Some ds\<rparr>" ds] by simp
  then have "AddToGraphAndGetId L it (length (repos cfg) + 1) a (start_state cfg) =
      AddToGraphAndGetId L it (length (repos cfg) + 1) a (start_state (cfg\<lparr>duplicates := Some ds\<rparr>))"
    using DeduplicateRepo_computed [of "cfg\<lparr>duplicates := Some ds\<rparr>" ds]
    by (simp add: AddToGraphAndGetId.simps(2) start_state_def)
  then show ?thesis by (simp add: BuildGraphForRepository_def start_state_def)
qed

text \<open>What a finished run has made: nothing, or complete entries for all identifiers.\<close>

definition graph_made :: "('c, 't, 'd) RepositoryConfig \<Rightarrow> (string \<times> string) list \<Rightarrow> string \<Rightarrow> string option \<Rightarrow>
    ('c, 't, 'd) graph_state \<Rightarrow> bool" where
  "graph_made cfg ds a r st \<longleftrightarrow>
     (r = None \<longrightarrow> \<not> content_fixed cfg a) \<and>
     (\<forall>i. r = Some i \<longrightarrow> i = to_string_nat 0 \<and> ids_ok (cfg\<lparr>duplicates := Some ds\<rparr>) st \<and>
        map_of (gs_ids st) (representative ds a) = Some i \<and>
        (\<forall>u k. map_of (gs_ids st) u = Some k \<longrightarrow> complete ds st u k))"

lemma graph_run:
  assumes "dump_faithful (rl_json L)" "order_ok it" "config_ok L cfg" "printable L cfg" "duplicates cfg = None"
  shows "\<exists>ds r st. canonical L cfg ds \<and>
    BuildGraphForRepository L it a cfg = Inr (if r = None then None else Some (gs_graph st), gs_config st) \<and>
    graph_made cfg ds a r st"
proof -
  have "distinct (map fst (repos cfg))" using assms(3) unfolding config_ok_def by blast
  then obtain ds where ds: "compute_duplicates L it cfg = Inr ds" "canonical L cfg ds"
    using compute_duplicates_ok [OF assms(1,2) _ assms(4)] by blast
  let ?cfg = "cfg\<lparr>duplicates := Some ds\<rparr>"
  have cfg: "duplicates ?cfg = Some ds" "config_ok L ?cfg" "canonical L ?cfg ds" "printable L ?cfg"
    using assms(3,4) ds(2) by simp_all
  have "length (repos ?cfg) = length (repos cfg)" by simp
  then obtain r st where run: "AddToGraphAndGetId L it (length (repos cfg) + 1) a (start_state ?cfg) = Inr (r, st)"
      "r = None \<longrightarrow> \<not> content_fixed ?cfg a"
    using key_traversal_ends [OF cfg, of it "length (repos cfg) + 1"] start_state_ok [of ?cfg] remaining_start [of ?cfg]
    unfolding run_ends_def by metis
  have "BuildGraphForRepository L it a cfg = Inr (if r = None then None else Some (gs_graph st), gs_config st)"
    unfolding BuildGraph_start [OF assms(5) ds(1)] run(1) by simp
  moreover have "i = to_string_nat 0 \<and> ids_ok ?cfg st \<and> map_of (gs_ids st) (representative ds a) = Some i \<and>
      (\<forall>u k. map_of (gs_ids st) u = Some k \<longrightarrow> complete ds st u k)" if r: "r = Some i" for i
  proof -
    have g: "grows ?cfg ds (start_state ?cfg) st" "map_of (gs_ids st) (representative ds a) = Some i"
      using run_grows [OF cfg(1,2)] run(1) r start_state_ok unfolding run_ok_def by blast+
    have "i = to_string_nat 0"
      using run(1) r unfolding Suc_eq_plus1 [symmetric] AddToGraph_step [OF cfg(1), of "start_state ?cfg", simplified start_state_def, simplified]
      by (auto simp: start_state_def bindE_Inr_iff AddToGraph_step [OF cfg(1)] split: option.splits)
    moreover have "map_of (gs_ids (start_state ?cfg)) u = None" for u by (simp add: start_state_def)
    ultimately show ?thesis using g unfolding grows_def by (metis option.distinct(1))
  qed
  ultimately show ?thesis using ds(2) run(2) unfolding graph_made_def by (simp, blast)
qed

lemma graph_built:
  assumes "dump_faithful (rl_json L)" "order_ok it" "config_ok L cfg" "printable L cfg" "duplicates cfg = None"
    and "content_fixed cfg a"
  shows "\<exists>graph cfg'. BuildGraphForRepository L it a cfg = Inr (Some graph, cfg')"
proof -
  obtain ds r st where run:
      "BuildGraphForRepository L it a cfg = Inr (if r = None then None else Some (gs_graph st), gs_config st)"
      "graph_made cfg ds a r st"
    using graph_run [OF assms(1-5)] by blast
  have "r \<noteq> None" using run(2) assms(6) unfolding graph_made_def by blast
  then show ?thesis using run(1) by simp
qed

lemma complete_entry:
  assumes "ids_ok (cfg\<lparr>duplicates := d\<rparr>) st" "complete ds st u i"
  obtains data kvs fs where "Data cfg u = Some data" "rd_base_desc data = Some (JObject kvs)"
    "jfind (gs_graph st) i = Some (JObject (map_put ''bindings'' (JObject fs) kvs))"
    "bound ds (gs_ids st) (name_mapping (rd_info data)) fs"
  using assms unfolding complete_def ids_ok_def by auto

lemma canonical_next:
  assumes can: "canonical L cfg ds" and print: "printable L cfg"
    and x: "Data cfg x = Some dx" "map_of (name_mapping (rd_info dx)) l = Some r"
    and u: "Data cfg (representative ds x) = Some du" "map_of (name_mapping (rd_info du)) l = Some s"
  shows "representative ds r = representative ds s"
proof (cases "x = representative ds x")
  case True
  then show ?thesis using x u by simp
next
  case False
  then have b: "bisimilar (repo_states L cfg) x (representative ds x)"
    using can unfolding canonical_def same_state_def by metis
  then obtain c ta tb where ab: "repo_states L cfg x = Some (c, ta)" "repo_states L cfg (representative ds x) = Some (c, tb)"
    by (rule bisimilarE)
  have "ta = name_mapping (rd_info dx)" "tb = name_mapping (rd_info du)"
    using repo_states_data [OF ab(1)] repo_states_data [OF ab(2)] x(1) u(1) by (metis option.inject)+
  then have rs: "same_state (repo_states L cfg) r s"
    using bisimilar_next [OF b ab] x(2) u(2) by simp
  show ?thesis
  proof (cases "r = s")
    case False
    then have "repo_states L cfg r \<noteq> None" "repo_states L cfg s \<noteq> None"
      using rs unfolding same_state_def by (auto elim: bisimilarE)
    then show ?thesis using can rs unfolding canonical_def by blast
  qed simp
qed

lemma canonical_keys:
  assumes can: "canonical L cfg ds" and print: "printable L cfg"
    and u: "Data cfg (representative ds x) = Some du" "rd_base_desc du = Some j"
  obtains dx k where "Data cfg x = Some dx" "rd_base_desc dx = Some k"
    "map fst (name_mapping (rd_info dx)) = map fst (name_mapping (rd_info du))"
    "\<exists>c. repo_states L cfg x = Some (c, name_mapping (rd_info dx)) \<and>
         repo_states L cfg (representative ds x) = Some (c, name_mapping (rd_info du))"
proof (cases "x = representative ds x")
  case True
  then show ?thesis using that [of du j] u repo_states_known [OF print u] by metis
next
  case False
  then have b: "bisimilar (repo_states L cfg) x (representative ds x)"
    using can unfolding canonical_def same_state_def by metis
  then obtain c ta tb where ab: "repo_states L cfg x = Some (c, ta)" "repo_states L cfg (representative ds x) = Some (c, tb)"
      "map fst ta = map fst tb"
    by (rule bisimilarE)
  obtain dx k where dx: "Data cfg x = Some dx" "rd_base_desc dx = Some k" "ta = name_mapping (rd_info dx)"
    using repo_states_data [OF ab(1)] by metis
  have "tb = name_mapping (rd_info du)" using repo_states_data [OF ab(2)] u(1) by (metis option.inject)
  then show ?thesis using that [OF dx(1,2)] dx(3) ab by blast
qed

text \<open>
  C33: for every repository the building of its graph ends, without an error, and it gives a graph
  if and only if the repository and all that is reachable over bindings are known and have
  content-fixed roots; cycles of bindings do not matter.
\<close>

theorem key_graph_exists:
  assumes "dump_faithful (rl_json L)" "order_ok it" "config_ok L cfg" "printable L cfg" "duplicates cfg = None"
  shows "\<exists>graph cfg'. BuildGraphForRepository L it a cfg = Inr (graph, cfg') \<and>
    (graph \<noteq> None \<longleftrightarrow> content_fixed cfg a)"
proof -
  obtain ds r st where run: "canonical L cfg ds"
      "BuildGraphForRepository L it a cfg = Inr (if r = None then None else Some (gs_graph st), gs_config st)"
      "graph_made cfg ds a r st"
    using graph_run [OF assms] by blast
  have "content_fixed cfg a" if r: "r = Some i" for i
  proof -
    have st: "ids_ok (cfg\<lparr>duplicates := Some ds\<rparr>) st" "\<forall>u k. map_of (gs_ids st) u = Some k \<longrightarrow> complete ds st u k"
      using run(3) r unfolding graph_made_def by blast+
    have "map_of (gs_ids st) (representative ds a) = Some i" using run(3) r unfolding graph_made_def by blast
    then show ?thesis
    proof (coinduction arbitrary: a i)
      case content_fixed
      have "complete ds st (representative ds a) i" using st(2) content_fixed by blast
      then obtain du kvs fs where u: "Data cfg (representative ds a) = Some du" "rd_base_desc du = Some (JObject kvs)"
          "bound ds (gs_ids st) (name_mapping (rd_info du)) fs"
        using complete_entry [OF st(1)] by metis
      obtain dx k where x: "Data cfg a = Some dx" "rd_base_desc dx = Some k"
          "map fst (name_mapping (rd_info dx)) = map fst (name_mapping (rd_info du))"
        using canonical_keys [OF run(1) assms(4) u(1,2)] by metis
      have "\<exists>k. map_of (gs_ids st) (representative ds r) = Some k"
        if l: "map_of (name_mapping (rd_info dx)) l = Some r" for l r
      proof -
        obtain s where s: "map_of (name_mapping (rd_info du)) l = Some s" using map_of_keys [OF x(3) l] by blast
        have "representative ds r = representative ds s" by (rule canonical_next [OF run(1) assms(4) x(1) l u(1) s])
        moreover have "\<exists>k. map_of (gs_ids st) (representative ds s) = Some k"
          using bound_at [OF u(3) s] by blast
        ultimately show ?thesis by simp
      qed
      then show ?case using x(1,2) by auto
    qed
  qed
  moreover have "r = None \<longrightarrow> \<not> content_fixed cfg a" using run(3) unfolding graph_made_def by blast
  ultimately show ?thesis using run(2) by (cases r) auto
qed

coinductive same_content ::
  "('c, 't, 'd) RepositoryConfig \<Rightarrow> ('c, 't, 'd) RepositoryConfig \<Rightarrow> string \<Rightarrow> string \<Rightarrow> bool"
  for cfg cfg' :: "('c, 't, 'd) RepositoryConfig" where
  same_content: "Data cfg a = Some da \<Longrightarrow> Data cfg' b = Some db \<Longrightarrow>
    rd_base_desc da = Some j \<Longrightarrow> rd_base_desc db = Some j \<Longrightarrow>
    fst ` set (name_mapping (rd_info da)) = fst ` set (name_mapping (rd_info db)) \<Longrightarrow>
    (\<forall>l r s. map_of (name_mapping (rd_info da)) l = Some r \<and> map_of (name_mapping (rd_info db)) l = Some s \<longrightarrow>
       same_content cfg cfg' r s) \<Longrightarrow>
    same_content cfg cfg' a b"

text \<open>Different base descriptions of a configuration have different hashes.\<close>

definition no_collisions :: "('c, 't, 'd) repo_lib \<Rightarrow> ('c, 't, 'd) RepositoryConfig \<Rightarrow> bool" where
  "no_collisions L cfg \<longleftrightarrow>
     (\<forall>a b da db c ta tb. Data cfg a = Some da \<longrightarrow> Data cfg b = Some db \<longrightarrow>
        repo_state L da = Some (c, ta) \<longrightarrow> repo_state L db = Some (c, tb) \<longrightarrow> rd_base_desc da = rd_base_desc db)"

lemma canonical_base:
  assumes can: "canonical L cfg ds" and print: "printable L cfg" and coll: "no_collisions L cfg"
    and u: "Data cfg (representative ds x) = Some du" "rd_base_desc du = Some j"
  obtains dx where "Data cfg x = Some dx" "rd_base_desc dx = Some j"
    "map fst (name_mapping (rd_info dx)) = map fst (name_mapping (rd_info du))"
proof -
  obtain dx k c where x: "Data cfg x = Some dx" "rd_base_desc dx = Some k"
      "map fst (name_mapping (rd_info dx)) = map fst (name_mapping (rd_info du))"
      "repo_states L cfg x = Some (c, name_mapping (rd_info dx))"
      "repo_states L cfg (representative ds x) = Some (c, name_mapping (rd_info du))"
    using canonical_keys [OF can print u] by metis
  have "repo_state L dx = Some (c, name_mapping (rd_info dx))" "repo_state L du = Some (c, name_mapping (rd_info du))"
    using x(1,4,5) u(1) unfolding repo_states_def Data_def by simp_all
  then have "rd_base_desc dx = rd_base_desc du"
    using coll x(1) u(1) unfolding no_collisions_def by blast
  then show ?thesis using that x(1,3) u(2) by simp
qed

definition base_fields :: "json \<Rightarrow> json \<Rightarrow> json \<Rightarrow> json \<Rightarrow> json \<Rightarrow> json \<Rightarrow> json \<Rightarrow> (string \<times> json) list" where
  "base_fields w t r e f g h =
     [(''workspace_root'', w), (''target_root'', t), (''rule_root'', r), (''expression_root'', e),
      (''target_file_name'', f), (''rule_file_name'', g), (''expression_file_name'', h)]"

lemma base_fields:
  "BaseContentDescription L info = Some (JObject kvs) \<Longrightarrow>
   \<exists>w t r e f g h. kvs = json_fields (base_fields w t r e f g h)"
  by (auto simp: BaseContentDescription_def json_object_def base_fields_def split: option.splits)

lemma base_cancel:
  assumes "BaseContentDescription L info = Some (JObject kvs)" "BaseContentDescription L' info' = Some (JObject kvs')"
    and "map_put ''bindings'' v kvs = map_put ''bindings'' w kvs'"
  shows "kvs = kvs'" "v = w"
proof -
  have eq: "map_of (map_put ''bindings'' v kvs) x = map_of (map_put ''bindings'' w kvs') x" for x
    using assms(3) by simp
  have same: "map_of kvs x = map_of kvs' x" if "x \<noteq> ''bindings''" for x
    using eq [of x] that by (simp add: map_of_map_put)
  show "v = w" using eq [of "''bindings''"] by (simp add: map_of_map_put)
  obtain a b c d e f g where k: "kvs = json_fields (base_fields a b c d e f g)"
    using base_fields [OF assms(1)] by blast
  obtain a' b' c' d' e' f' g' where k': "kvs' = json_fields (base_fields a' b' c' d' e' f' g')"
    using base_fields [OF assms(2)] by blast
  have "a = a' \<and> b = b' \<and> c = c' \<and> d = d' \<and> e = e' \<and> f = f' \<and> g = g'"
    using same [of "''workspace_root''"] same [of "''target_root''"] same [of "''rule_root''"]
      same [of "''expression_root''"] same [of "''target_file_name''"] same [of "''rule_file_name''"]
      same [of "''expression_file_name''"]
    unfolding k k' map_of_json_fields base_fields_def by simp
  then show "kvs = kvs'" unfolding k k' by simp
qed

text \<open>
  C34: the graph that is hashed for the key of a repository determines the repository up to the
  names of repositories, even in another configuration: equal graphs come from repositories with
  equal base descriptions and with the same binding names, bound to repositories that are again
  equal in this sense. What is stored under a key is therefore not used for other content.
\<close>

theorem equal_graphs:
  assumes "dump_faithful (rl_json L)" "order_ok it" "config_ok L cfg" "printable L cfg" "duplicates cfg = None"
    and "order_ok it'" "config_ok L cfg'" "printable L cfg'" "duplicates cfg' = None"
    and "no_collisions L cfg" "no_collisions L cfg'"
    and "BuildGraphForRepository L it a cfg = Inr (Some graph, cfg1)"
    and "BuildGraphForRepository L it' b cfg' = Inr (Some graph, cfg1')"
  shows "same_content cfg cfg' a b"
proof -
  obtain ds r st where run: "canonical L cfg ds"
      "BuildGraphForRepository L it a cfg = Inr (if r = None then None else Some (gs_graph st), gs_config st)"
      "graph_made cfg ds a r st"
    using graph_run [OF assms(1-5)] by blast
  obtain ds' r' st' where run': "canonical L cfg' ds'"
      "BuildGraphForRepository L it' b cfg' = Inr (if r' = None then None else Some (gs_graph st'), gs_config st')"
      "graph_made cfg' ds' b r' st'"
    using graph_run [OF assms(1,6-9)] by blast
  obtain i where i: "r = Some i" "gs_graph st = graph" using run(2) assms(12) by (cases r) auto
  obtain i' where i': "r' = Some i'" "gs_graph st' = graph" using run'(2) assms(13) by (cases r') auto
  have st: "ids_ok (cfg\<lparr>duplicates := Some ds\<rparr>) st" "\<forall>u k. map_of (gs_ids st) u = Some k \<longrightarrow> complete ds st u k"
      "ids_ok (cfg'\<lparr>duplicates := Some ds'\<rparr>) st'" "\<forall>u k. map_of (gs_ids st') u = Some k \<longrightarrow> complete ds' st' u k"
    using run(3) run'(3) i(1) i'(1) unfolding graph_made_def by blast+
  have "map_of (gs_ids st) (representative ds a) = Some i" "map_of (gs_ids st') (representative ds' b) = Some i"
    using run(3) run'(3) i(1) i'(1) unfolding graph_made_def by simp_all
  then show ?thesis
  proof (coinduction arbitrary: a b i)
    case same_content
    have "complete ds st (representative ds a) i" using st(2) same_content by blast
    then obtain du kvs fs where u: "Data cfg (representative ds a) = Some du" "rd_base_desc du = Some (JObject kvs)"
        "jfind graph i = Some (JObject (map_put ''bindings'' (JObject fs) kvs))"
        "bound ds (gs_ids st) (name_mapping (rd_info du)) fs"
      using complete_entry [OF st(1)] i(2) by metis
    have "complete ds' st' (representative ds' b) i" using st(4) same_content by blast
    then obtain du' kvs' fs' where u': "Data cfg' (representative ds' b) = Some du'" "rd_base_desc du' = Some (JObject kvs')"
        "jfind graph i = Some (JObject (map_put ''bindings'' (JObject fs') kvs'))"
        "bound ds' (gs_ids st') (name_mapping (rd_info du')) fs'"
      using complete_entry [OF st(3)] i'(2) by metis
    have "map_put ''bindings'' (JObject fs) kvs = map_put ''bindings'' (JObject fs') kvs'"
      using u(3) u'(3) by simp
    then have eq: "kvs' = kvs" "fs' = fs"
      using base_cancel [of L "rd_info du" kvs L "rd_info du'" kvs']
        config_okD(2) [OF assms(3) u(1)] config_okD(2) [OF assms(7) u'(1)] u(2) u'(2) by auto
    obtain dx where x: "Data cfg a = Some dx" "rd_base_desc dx = Some (JObject kvs)"
        "map fst (name_mapping (rd_info dx)) = map fst (name_mapping (rd_info du))"
      using canonical_base [OF run(1) assms(4,10) u(1,2)] by metis
    obtain dy where y: "Data cfg' b = Some dy" "rd_base_desc dy = Some (JObject kvs)"
        "map fst (name_mapping (rd_info dy)) = map fst (name_mapping (rd_info du'))"
      using canonical_base [OF run'(1) assms(8,11) u'(1,2)] eq(1) by metis
    have keys: "fst ` set (name_mapping (rd_info dx)) = dom (map_of fs)"
      using arg_cong [OF x(3), of set] bound_dom [OF u(4)] by simp
    have keys': "fst ` set (name_mapping (rd_info dy)) = dom (map_of fs)"
      using arg_cong [OF y(3), of set] bound_dom [OF u'(4)] eq(2) by simp
    have "\<exists>k. map_of (gs_ids st) (representative ds r) = Some k \<and> map_of (gs_ids st') (representative ds' s) = Some k"
      if l: "map_of (name_mapping (rd_info dx)) l = Some r" "map_of (name_mapping (rd_info dy)) l = Some s" for l r s
    proof -
      obtain ru where ru: "map_of (name_mapping (rd_info du)) l = Some ru" using map_of_keys [OF x(3) l(1)] by blast
      obtain su where su: "map_of (name_mapping (rd_info du')) l = Some su" using map_of_keys [OF y(3) l(2)] by blast
      have "representative ds r = representative ds ru" by (rule canonical_next [OF run(1) assms(4) x(1) l(1) u(1) ru])
      moreover have "representative ds' s = representative ds' su"
        by (rule canonical_next [OF run'(1) assms(8) y(1) l(2) u'(1) su])
      ultimately show ?thesis using bound_at [OF u(4) ru] bound_at [OF u'(4) su] eq(2) by auto
    qed
    then show ?case using x(1,2) y(1,2) keys keys' by auto
  qed
qed

section \<open>Concrete runs\<close>

lemma config_ok_empty: "config_ok L empty_config"
  by (simp add: config_ok_def empty_config_def)

lemma keys_assign: "map fst (assign k v m) = (if map_of m k = None then map fst m @ [k] else map fst m)"
  by (simp add: assign_def)

lemma map_of_assign: "map_of (assign k v m) x = (if x = k then Some v else map_of m x)"
  by (cases "map_of m k") (simp_all add: assign_def map_of_update_value map_of_append_new del: map_of_append)

lemma config_ok_SetInfo:
  "config_ok L cfg \<Longrightarrow> distinct (map fst (name_mapping info)) \<Longrightarrow> config_ok L (SetInfo L a info cfg)"
  unfolding config_ok_def SetInfo_def
  by (auto simp: keys_assign map_of_assign map_of_eq_None_iff split: if_splits)

lemma sample_config_ok: "config_ok sample_repo_lib sample_config"
  unfolding sample_config_def
  by (intro config_ok_SetInfo config_ok_empty) (simp_all add: sample_info_def Let_def)

lemma sample_no_collisions: "no_collisions sample_repo_lib sample_config"
proof -
  have base: "BaseContentDescription sample_repo_lib (sample_info x) = BaseContentDescription sample_repo_lib (sample_info y)" for x y
    by (simp add: BaseContentDescription_def ContentDescription_def content_marker_def sample_info_def Let_def)
  obtain da db dc where r: "repos sample_config = [(''c'', dc), (''b'', db), (''a'', da)]"
      "rd_info da = sample_info ''a''" "rd_info db = sample_info ''a''" "rd_info dc = sample_info ''missing''"
    using sample_repos by metis
  have "rd_base_desc d = BaseContentDescription sample_repo_lib (sample_info ''a'')" if d: "Data sample_config x = Some d" for x d
  proof -
    have "d \<in> {da, db, dc}" using d r(1) by (auto simp: Data_def split: if_splits)
    then have "\<exists>y. rd_info d = sample_info y" using r(2-4) by auto
    then show ?thesis using config_okD(2) [OF sample_config_ok d] base by metis
  qed
  then show ?thesis unfolding no_collisions_def by metis
qed

lemma sample_content_fixed: "content_fixed sample_config ''a''" "content_fixed sample_config ''b''"
proof -
  obtain da db dc j k where r: "repos sample_config = [(''c'', dc), (''b'', db), (''a'', da)]"
      "rd_info da = sample_info ''a''" "rd_info db = sample_info ''a''"
      "rd_base_desc da = Some (JObject j)" "rd_base_desc db = Some (JObject k)"
    using sample_repos by metis
  have d: "Data sample_config ''a'' = Some da" "Data sample_config ''b'' = Some db"
    using r(1) by (simp_all add: Data_def)
  have n: "map_of (name_mapping (sample_info ''a'')) l = Some s \<longleftrightarrow> l = ''x'' \<and> s = ''a''" for l s
    by (auto simp: sample_info_def Let_def)
  have "content_fixed sample_config s" if "s = ''a''" for s
    using that by (coinduction arbitrary: s) (use d(1) r(2,4) n in auto)
  then show a: "content_fixed sample_config ''a''" by simp
  show "content_fixed sample_config ''b''"
    by (rule content_fixed [OF d(2) r(5)]) (use a r(3) n in auto)
qed

lemma same_name_same_graph:
  assumes "duplicates cfg = None" "compute_duplicates L it cfg = Inr ds" "representative ds a = representative ds b"
  shows "BuildGraphForRepository L it a cfg = BuildGraphForRepository L it b cfg"
proof -
  let ?cfg = "cfg\<lparr>duplicates := Some ds\<rparr>"
  have "duplicates ?cfg = Some ds" "gs_config (start_state ?cfg) = ?cfg"
    by (simp_all add: start_state_def)
  note step = AddToGraph_step [OF this, of L it "length (repos cfg)"]
  show ?thesis
    unfolding BuildGraph_start [OF assms(1,2)] Suc_eq_plus1 [symmetric] step assms(3) ..
qed

lemmas sample_facts =
  sample_dump_faithful sample_order_ok sample_config_ok

theorem key_graph_exists_witness:
  "\<exists>graph cfg'. BuildGraphForRepository sample_repo_lib sample_order ''b'' sample_config = Inr (Some graph, cfg')"
proof -
  have "printable sample_repo_lib sample_config" "duplicates sample_config = None"
    using sample_states by blast+
  then show ?thesis
    using key_graph_exists [OF sample_facts, of "''b''"] sample_content_fixed(2) by auto
qed

theorem equal_graphs_witness:
  "same_content sample_config sample_config ''a'' ''b''"
proof -
  have ok: "distinct (map fst (repos sample_config))" "printable sample_repo_lib sample_config"
      "duplicates sample_config = None"
    using sample_states by blast+
  obtain ds where ds: "compute_duplicates sample_repo_lib sample_order sample_config = Inr ds"
      "canonical sample_repo_lib sample_config ds"
    using compute_duplicates_ok [OF sample_dump_faithful sample_order_ok ok(1,2)] by blast
  obtain h where st: "repo_states sample_repo_lib sample_config =
      [''a'' \<mapsto> (h, [(''x'', ''a'')]), ''b'' \<mapsto> (h, [(''x'', ''a'')]), ''c'' \<mapsto> (h, [(''x'', ''missing'')])]"
    using sample_states by blast
  have "bisimilar (repo_states sample_repo_lib sample_config) ''a'' ''b''"
    by (rule bisimilar [where ta = "[(''x'', ''a'')]" and tb = "[(''x'', ''a'')]"])
      (simp_all add: st split: if_splits)
  moreover have "repo_states sample_repo_lib sample_config ''a'' \<noteq> None" "repo_states sample_repo_lib sample_config ''b'' \<noteq> None"
    unfolding st by simp_all
  ultimately have "representative ds ''a'' = representative ds ''b''"
    using ds(2) unfolding canonical_def same_state_def by blast
  then have same: "BuildGraphForRepository sample_repo_lib sample_order ''a'' sample_config =
      BuildGraphForRepository sample_repo_lib sample_order ''b'' sample_config"
    by (rule same_name_same_graph [OF ok(3) ds(1)])
  obtain graph cfg' where a: "BuildGraphForRepository sample_repo_lib sample_order ''a'' sample_config = Inr (Some graph, cfg')"
    using graph_built [OF sample_facts ok(2,3) sample_content_fixed(1)] by blast
  show ?thesis
    by (rule equal_graphs [OF sample_facts ok(2,3) sample_order_ok sample_config_ok ok(2,3) sample_no_collisions
          sample_no_collisions a a [unfolded same]])
qed

end
