(* ===== verification/Jst_TaskSystem.thy ===== *)
theory Jst_TaskSystem
  imports Jst_Prelude "HOL-Library.Multiset"
begin

text \<open>
  The task system: \<^verbatim>\<open>src/src/buildtool/multithreading/task_system.{hpp,cpp}\<close> with its queues and the
  counter of the workload, \<^verbatim>\<open>notification_queue.hpp\<close>. The member functions are cut into operations
  at every point where another thread can see a difference: mutexes of queues, conditions, the
  counter and flags are explicit. The sections under the mutex of the counter are one operation
  each, as a decrement holds the mutex shared and a waiting thread holds it alone. An attempt to
  lock may fail without a reason, and a waiting thread may wake up without one, as the standard
  allows. A task is a value; what it queues while it runs is a parameter. The lists of tasks that
  were accepted and that were started are for the theorems only.
\<close>

section \<open>State\<close>

record 'a NotificationQueue =
  q_tasks :: "'a list"
  q_done :: bool
  q_owner :: "nat option"
  q_waiting :: "nat list"

record 'a TaskSystem =
  queues :: "'a NotificationQueue list"
  workload :: int
  workload_done :: bool
  workload_waiting :: "nat list"
  next_index :: nat
  shutdown :: bool
  accepted :: "'a list"
  started :: "'a list"

text \<open>The operations of a thread; a thread is the list of operations it still has to do.\<close>

datatype 'a op =
    OpRun
  | OpTryPop nat
  | OpPop nat
  | OpWait nat
  | OpWoken nat
  | OpPopFront nat
  | OpUnlock nat
  | OpGot 'a
  | OpQueueTask 'a
  | OpTryPush nat nat 'a
  | OpEmplace nat 'a
  | OpPush nat 'a
  | OpNotifyOne nat
  | OpNotifyAll nat
  | OpIncrement
  | OpDecrement
  | OpFinish
  | OpWaitForZero
  | OpZeroWoken
  | OpShutdown
  | OpAbort
  | OpDone nat

definition kNumberOfAttempts :: nat where
  "kNumberOfAttempts = 5"

definition NotificationQueue_init :: "'a NotificationQueue" where
  "NotificationQueue_init = \<lparr>q_tasks = [], q_done = False, q_owner = None, q_waiting = []\<rparr>"

definition TaskSystem_init :: "nat \<Rightarrow> 'a TaskSystem" where
  "TaskSystem_init thread_count =
     \<lparr>queues = replicate thread_count NotificationQueue_init, workload = int thread_count, workload_done = False,
      workload_waiting = [], next_index = 0, shutdown = False, accepted = [], started = []\<rparr>"

definition thread_count :: "nat \<Rightarrow> nat" where
  "thread_count number_of_threads = max 1 number_of_threads"

section \<open>The counter\<close>

definition IsZero :: "'a TaskSystem \<Rightarrow> bool" where
  "IsZero s \<longleftrightarrow> workload s = 0 \<or> workload_done s"

definition Decrement :: "'a TaskSystem \<Rightarrow> 'a TaskSystem" where
  "Decrement s = (let s = s\<lparr>workload := workload s - 1\<rparr> in if workload s = 0 then s\<lparr>workload_waiting := []\<rparr> else s)"

definition Increment :: "'a TaskSystem \<Rightarrow> 'a TaskSystem" where
  "Increment s = s\<lparr>workload := workload s + 1\<rparr>"

definition Abort_count :: "'a TaskSystem \<Rightarrow> 'a TaskSystem" where
  "Abort_count s = s\<lparr>workload_done := True, workload_waiting := []\<rparr>"

text \<open>\<^verbatim>\<open>WaitForZero\<close>: the loop, the wait under the lock, and what a woken thread does.\<close>

definition WaitForZero :: "'a TaskSystem \<Rightarrow> 'a TaskSystem \<times> 'a op list" where
  "WaitForZero s = (if IsZero s then (s, []) else (s, [OpWaitForZero]))"

definition wait_for_zero :: "nat \<Rightarrow> 'a TaskSystem \<Rightarrow> 'a TaskSystem \<times> 'a op list" where
  "wait_for_zero me s =
     (if IsZero s then (s, [OpFinish]) else (s\<lparr>workload_waiting := me # workload_waiting s\<rparr>, [OpZeroWoken]))"

definition zero_woken :: "nat \<Rightarrow> bool \<Rightarrow> 'a TaskSystem \<Rightarrow> ('a TaskSystem \<times> 'a op list) option" where
  "zero_woken me spurious s =
     (if me \<in> set (workload_waiting s) \<and> \<not> spurious then None
      else Some (wait_for_zero me (s\<lparr>workload_waiting := removeAll me (workload_waiting s)\<rparr>)))"

section \<open>The queues\<close>

definition update_queue ::
  "nat \<Rightarrow> ('a NotificationQueue \<Rightarrow> 'a NotificationQueue) \<Rightarrow> 'a TaskSystem \<Rightarrow> 'a TaskSystem" where
  "update_queue q f s = s\<lparr>queues := (queues s)[q := f (queues s ! q)]\<rparr>"

definition locked :: "nat \<Rightarrow> 'a TaskSystem \<Rightarrow> bool" where
  "locked q s \<longleftrightarrow> q_owner (queues s ! q) \<noteq> None"

definition lock :: "nat \<Rightarrow> nat \<Rightarrow> 'a TaskSystem \<Rightarrow> 'a TaskSystem" where
  "lock me q = update_queue q (\<lambda>qu. qu\<lparr>q_owner := Some me\<rparr>)"

definition unlock :: "nat \<Rightarrow> 'a TaskSystem \<Rightarrow> 'a TaskSystem" where
  "unlock q = update_queue q (\<lambda>qu. qu\<lparr>q_owner := None\<rparr>)"

text \<open>There is something to pop, or the queue is done.\<close>

definition ready :: "nat \<Rightarrow> 'a TaskSystem \<Rightarrow> bool" where
  "ready q s \<longleftrightarrow> q_tasks (queues s ! q) \<noteq> [] \<or> q_done (queues s ! q)"

definition try_pop :: "nat \<Rightarrow> bool \<Rightarrow> nat \<Rightarrow> 'a op list \<Rightarrow> 'a TaskSystem \<Rightarrow> 'a TaskSystem \<times> 'a op list" where
  "try_pop me spurious q otherwise s =
     (if locked q s \<or> spurious then (s, otherwise)
      else case q_tasks (queues s ! q) of
             [] \<Rightarrow> (s, otherwise)
           | t # ts \<Rightarrow>
               (update_queue q (\<lambda>qu. qu\<lparr>q_tasks := ts, q_owner := Some me\<rparr>) s,
                [OpDecrement, OpUnlock q, OpGot t]))"

definition pop_begin :: "nat \<Rightarrow> nat \<Rightarrow> 'a TaskSystem \<Rightarrow> ('a TaskSystem \<times> 'a op list) option" where
  "pop_begin me q s =
     (if locked q s then None
      else Some (lock me q s, if ready q s then [OpPopFront q] else [OpDecrement, OpWait q]))"

text \<open>The mutex is given up together with the beginning of the wait.\<close>

definition pop_wait :: "nat \<Rightarrow> nat \<Rightarrow> 'a TaskSystem \<Rightarrow> 'a TaskSystem \<times> 'a op list" where
  "pop_wait me q s =
     (update_queue q (\<lambda>qu. qu\<lparr>q_owner := None, q_waiting := me # q_waiting qu\<rparr>) s, [OpWoken q])"

definition pop_woken :: "nat \<Rightarrow> bool \<Rightarrow> nat \<Rightarrow> 'a TaskSystem \<Rightarrow> ('a TaskSystem \<times> 'a op list) option" where
  "pop_woken me spurious q s =
     (if locked q s \<or> me \<in> set (q_waiting (queues s ! q)) \<and> \<not> spurious then None
      else let s = update_queue q (\<lambda>qu. qu\<lparr>q_waiting := removeAll me (q_waiting qu)\<rparr>) s
           in if ready q s then Some (lock me q s, [OpIncrement, OpPopFront q])
              else Some (pop_wait me q s))"

definition pop_front :: "nat \<Rightarrow> 'a TaskSystem \<Rightarrow> 'a TaskSystem \<times> 'a op list" where
  "pop_front q s =
     (case q_tasks (queues s ! q) of
        [] \<Rightarrow> (unlock q s, [])
      | t # ts \<Rightarrow> (update_queue q (\<lambda>qu. qu\<lparr>q_tasks := ts\<rparr>) s, [OpDecrement, OpUnlock q, OpGot t]))"

definition emplace_back :: "nat \<Rightarrow> 'a \<Rightarrow> 'a TaskSystem \<Rightarrow> 'a TaskSystem" where
  "emplace_back q t s =
     update_queue q (\<lambda>qu. qu\<lparr>q_tasks := q_tasks qu @ [t]\<rparr>) s\<lparr>accepted := accepted s @ [t]\<rparr>"

definition push :: "nat \<Rightarrow> 'a \<Rightarrow> 'a op list" where
  "push q t = [OpIncrement, OpPush q t, OpNotifyOne q]"

definition try_push :: "nat \<Rightarrow> bool \<Rightarrow> nat \<Rightarrow> 'a \<Rightarrow> 'a op list \<Rightarrow> 'a TaskSystem \<Rightarrow> 'a TaskSystem \<times> 'a op list" where
  "try_push me spurious q t otherwise s =
     (if locked q s \<or> spurious then (s, otherwise)
      else (lock me q s, [OpIncrement, OpEmplace q t, OpNotifyOne q]))"

definition notify_one :: "nat \<Rightarrow> 'a TaskSystem \<Rightarrow> 'a TaskSystem" where
  "notify_one q = update_queue q (\<lambda>qu. qu\<lparr>q_waiting := tl (q_waiting qu)\<rparr>)"

definition notify_all :: "nat \<Rightarrow> 'a TaskSystem \<Rightarrow> 'a TaskSystem" where
  "notify_all q = update_queue q (\<lambda>qu. qu\<lparr>q_waiting := []\<rparr>)"

definition set_done :: "nat \<Rightarrow> 'a TaskSystem \<Rightarrow> ('a TaskSystem \<times> 'a op list) option" where
  "set_done q s =
     (if locked q s then None else Some (update_queue q (\<lambda>qu. qu\<lparr>q_done := True\<rparr>) s, []))"

section \<open>The task system\<close>

definition QueueTask :: "'a \<Rightarrow> 'a TaskSystem \<Rightarrow> 'a TaskSystem \<times> 'a op list" where
  "QueueTask t s = (s\<lparr>next_index := (next_index s + 1) mod 2 ^ 64\<rparr>, [OpTryPush (next_index s) 0 t])"

definition attempt :: "nat \<Rightarrow> nat \<Rightarrow> bool \<Rightarrow> nat \<Rightarrow> nat \<Rightarrow> 'a \<Rightarrow> 'a TaskSystem \<Rightarrow> 'a TaskSystem \<times> 'a op list" where
  "attempt n me spurious idx i t s =
     (if i < n * kNumberOfAttempts
      then try_push me spurious (((idx + i) mod 2 ^ 64) mod n) t [OpTryPush idx (i + 1) t] s
      else (s, push (idx mod n) t))"

definition Shutdown :: "nat \<Rightarrow> 'a TaskSystem \<Rightarrow> 'a TaskSystem \<times> 'a op list" where
  "Shutdown n s =
     (s\<lparr>shutdown := True\<rparr>, OpAbort # concat (map (\<lambda>q. [OpDone q, OpNotifyAll q]) [0..<n]))"

text \<open>The destructor also joins the workers: it ends when each of their programs has.\<close>

definition TaskSystem_destroy :: "'a op list" where
  "TaskSystem_destroy = [OpFinish, OpShutdown]"

text \<open>The loop of a worker: the queues are tried from its own on, then it waits for its own.\<close>

definition Run :: "'a TaskSystem \<Rightarrow> 'a op list" where
  "Run s = (if shutdown s then [] else [OpTryPop 0])"

definition steal :: "nat \<Rightarrow> nat \<Rightarrow> bool \<Rightarrow> nat \<Rightarrow> 'a TaskSystem \<Rightarrow> 'a TaskSystem \<times> 'a op list" where
  "steal n me spurious i s =
     (if i < n then try_pop me spurious ((me + i) mod n) [OpTryPop (i + 1)] s else (s, [OpPop (me mod n)]))"

definition run_task :: "('a \<Rightarrow> 'a list) \<Rightarrow> 'a \<Rightarrow> 'a TaskSystem \<Rightarrow> 'a TaskSystem \<times> 'a op list" where
  "run_task body t s =
     (if shutdown s then (s, [])
      else (s\<lparr>started := started s @ [t]\<rparr>, map OpQueueTask (body t) @ [OpRun]))"

fun perform ::
  "('a \<Rightarrow> 'a list) \<Rightarrow> nat \<Rightarrow> nat \<Rightarrow> bool \<Rightarrow> 'a op \<Rightarrow> 'a TaskSystem \<Rightarrow> ('a TaskSystem \<times> 'a op list) option" where
  "perform body n me spurious OpRun s = Some (s, Run s)"
| "perform body n me spurious (OpTryPop i) s = Some (steal n me spurious i s)"
| "perform body n me spurious (OpPop q) s = pop_begin me q s"
| "perform body n me spurious (OpWait q) s = Some (pop_wait me q s)"
| "perform body n me spurious (OpWoken q) s = pop_woken me spurious q s"
| "perform body n me spurious (OpPopFront q) s = Some (pop_front q s)"
| "perform body n me spurious (OpUnlock q) s = Some (unlock q s, [])"
| "perform body n me spurious (OpGot t) s = Some (run_task body t s)"
| "perform body n me spurious (OpQueueTask t) s = Some (QueueTask t s)"
| "perform body n me spurious (OpTryPush idx i t) s = Some (attempt n me spurious idx i t s)"
| "perform body n me spurious (OpEmplace q t) s = Some (unlock q (emplace_back q t s), [])"
| "perform body n me spurious (OpPush q t) s = (if locked q s then None else Some (emplace_back q t s, []))"
| "perform body n me spurious (OpNotifyOne q) s = Some (notify_one q s, [])"
| "perform body n me spurious (OpNotifyAll q) s = Some (notify_all q s, [])"
| "perform body n me spurious OpIncrement s = Some (Increment s, [])"
| "perform body n me spurious OpDecrement s = Some (Decrement s, [])"
| "perform body n me spurious OpFinish s = Some (WaitForZero s)"
| "perform body n me spurious OpWaitForZero s = Some (wait_for_zero me s)"
| "perform body n me spurious OpZeroWoken s = zero_woken me spurious s"
| "perform body n me spurious OpShutdown s = Some (Shutdown n s)"
| "perform body n me spurious OpAbort s = Some (Abort_count s, [])"
| "perform body n me spurious (OpDone q) s = set_done q s"

section \<open>Threads\<close>

text \<open>The workers come first, then the threads that use the system.\<close>

record 'a machine =
  system :: "'a TaskSystem"
  threads :: "'a op list list"

definition machine_init :: "nat \<Rightarrow> 'a op list list \<Rightarrow> 'a machine" where
  "machine_init n users = \<lparr>system = TaskSystem_init n, threads = replicate n [OpRun] @ users\<rparr>"

definition machine_step :: "('a \<Rightarrow> 'a list) \<Rightarrow> nat \<Rightarrow> nat \<Rightarrow> bool \<Rightarrow> 'a machine \<Rightarrow> 'a machine option" where
  "machine_step body n me spurious m =
     (if me < length (threads m)
      then case threads m ! me of
             [] \<Rightarrow> None
           | x # xs \<Rightarrow>
               (case perform body n me spurious x (system m) of
                  None \<Rightarrow> None
                | Some (s, new) \<Rightarrow> Some \<lparr>system = s, threads = (threads m)[me := new @ xs]\<rparr>)
      else None)"

inductive machine_reachable :: "('a \<Rightarrow> 'a list) \<Rightarrow> nat \<Rightarrow> 'a op list list \<Rightarrow> 'a machine \<Rightarrow> bool"
  for body :: "'a \<Rightarrow> 'a list" and n :: nat and users :: "'a op list list" where
  start: "machine_reachable body n users (machine_init n users)"
| step: "machine_reachable body n users m \<Longrightarrow> machine_step body n me spurious m = Some m' \<Longrightarrow> machine_reachable body n users m'"

end
