(* ===== verification/Jst_TaskSystem_Props.thy ===== *)
theory Jst_TaskSystem_Props
  imports Jst_TaskSystem
begin

text \<open>
  The task system loses no task and no wake-up. The counter of the workload is the number of
  active workers and of queued or promised tasks, so that it is zero only when everything that
  was accepted has been run; and when no thread can move, nobody waits for something that has
  happened.
\<close>

section \<open>Programs\<close>

inductive push_part :: "nat \<Rightarrow> 'a op list \<Rightarrow> bool" for n :: nat where
  "push_part n []"
| "push_part n [OpTryPush idx i t]"
| "q < n \<Longrightarrow> push_part n [OpIncrement, OpEmplace q t, OpNotifyOne q]"
| "q < n \<Longrightarrow> push_part n [OpEmplace q t, OpNotifyOne q]"
| "q < n \<Longrightarrow> push_part n [OpNotifyOne q]"
| "q < n \<Longrightarrow> push_part n [OpIncrement, OpPush q t, OpNotifyOne q]"
| "q < n \<Longrightarrow> push_part n [OpPush q t, OpNotifyOne q]"

inductive worker_prog :: "nat \<Rightarrow> nat \<Rightarrow> 'a op list \<Rightarrow> bool" for n w :: nat where
  "worker_prog n w []"
| "worker_prog n w [OpTryPop i]"
| "worker_prog n w [OpPop w]"
| "worker_prog n w [OpDecrement, OpWait w]"
| "worker_prog n w [OpWait w]"
| "worker_prog n w [OpWoken w]"
| "worker_prog n w [OpIncrement, OpPopFront w]"
| "worker_prog n w [OpPopFront w]"
| "q < n \<Longrightarrow> worker_prog n w [OpDecrement, OpUnlock q, OpGot t]"
| "q < n \<Longrightarrow> worker_prog n w [OpUnlock q, OpGot t]"
| "worker_prog n w [OpGot t]"
| "push_part n p \<Longrightarrow> worker_prog n w (p @ map OpQueueTask us @ [OpRun])"

fun user_ops :: "nat \<Rightarrow> 'a op list \<Rightarrow> bool" where
  "user_ops n [] \<longleftrightarrow> True"
| "user_ops n (OpDone q # p) \<longleftrightarrow> q < n \<and> (\<exists>p'. p = OpNotifyAll q # p') \<and> user_ops n p"
| "user_ops n (OpNotifyAll q # p) \<longleftrightarrow> q < n \<and> user_ops n p"
| "user_ops n (OpQueueTask t # p) \<longleftrightarrow> user_ops n p"
| "user_ops n (OpFinish # p) \<longleftrightarrow> user_ops n p"
| "user_ops n (OpShutdown # p) \<longleftrightarrow> user_ops n p"
| "user_ops n (OpAbort # p) \<longleftrightarrow> user_ops n p"
| "user_ops n _ \<longleftrightarrow> False"

inductive user_prog :: "nat \<Rightarrow> 'a op list \<Rightarrow> bool" for n :: nat where
  "push_part n p \<Longrightarrow> user_ops n us \<Longrightarrow> user_prog n (p @ us)"
| "user_ops n us \<Longrightarrow> user_prog n (OpWaitForZero # us)"
| "user_ops n us \<Longrightarrow> user_prog n (OpZeroWoken # us)"

inductive_cases push_partE: "push_part n p"
inductive_cases worker_progE: "worker_prog n w p"
inductive_cases user_progE: "user_prog n p"

definition thread_ok :: "nat \<Rightarrow> nat \<Rightarrow> 'a op list \<Rightarrow> bool" where
  "thread_ok n me p \<longleftrightarrow> (if me < n then worker_prog n me p else user_prog n p)"

text \<open>The first operation of a program and what is left of it.\<close>

lemma push_part_head:
  "push_part n (x # p) \<Longrightarrow>
   (\<exists>idx i t. x = OpTryPush idx i t \<and> p = []) \<or>
   (\<exists>q t. q < n \<and> x = OpIncrement \<and> (p = [OpEmplace q t, OpNotifyOne q] \<or> p = [OpPush q t, OpNotifyOne q])) \<or>
   (\<exists>q t. q < n \<and> (x = OpEmplace q t \<or> x = OpPush q t) \<and> p = [OpNotifyOne q]) \<or>
   (\<exists>q. q < n \<and> x = OpNotifyOne q \<and> p = [])"
  by (auto elim!: push_partE)

lemma push_part_simps [simp]:
  "push_part n []" "push_part n [OpTryPush idx i t]"
  "push_part n [OpIncrement, OpEmplace q t, OpNotifyOne q] \<longleftrightarrow> q < n"
  "push_part n [OpEmplace q t, OpNotifyOne q] \<longleftrightarrow> q < n"
  "push_part n [OpNotifyOne q] \<longleftrightarrow> q < n"
  "push_part n [OpIncrement, OpPush q t, OpNotifyOne q] \<longleftrightarrow> q < n"
  "push_part n [OpPush q t, OpNotifyOne q] \<longleftrightarrow> q < n"
  by (auto intro: push_part.intros elim: push_partE)

lemma push_part_step:
  assumes "push_part n (x # p)" "perform body n me spurious x s = Some (s', new)" "0 < n"
  shows "push_part n (new @ p)"
  using push_part_head [OF assms(1)] assms(2,3)
  by (auto simp: attempt_def try_push_def push_def split: if_splits)

lemma worker_prog_tail: "worker_prog n w (map OpQueueTask us @ [OpRun])"
  using worker_prog.intros(12) [OF push_part.intros(1)] by simp

lemma worker_step:
  assumes "worker_prog n w (x # p)" "perform body n w spurious x s = Some (s', new)" "0 < n" "w < n"
  shows "worker_prog n w (new @ p)"
proof (cases "\<exists>r us. push_part n r \<and> x # p = r @ map OpQueueTask us @ [OpRun]")
  case True
  then obtain r us where 12: "push_part n r" "x # p = r @ map OpQueueTask us @ [OpRun]" by blast
  show ?thesis
  proof (cases r)
    case Nil
    show ?thesis
    proof (cases us)
      case Nil
      then show ?thesis using 12 \<open>r = []\<close> assms(2) by (auto simp: Run_def intro: worker_prog.intros)
    next
      case (Cons u us')
      then have "new = [OpTryPush (next_index s) 0 u]" "p = map OpQueueTask us' @ [OpRun]"
        using 12 \<open>r = []\<close> assms(2) by (auto simp: QueueTask_def)
      then show ?thesis using worker_prog.intros(12) [OF push_part.intros(2)] by fastforce
    qed
  next
    case (Cons y r')
    then have "push_part n (new @ r')" using push_part_step [of n x r'] 12 assms(2,3) by auto
    then show ?thesis using worker_prog.intros(12) 12 Cons by fastforce
  qed
next
  case False
  then have "worker_prog n w [OpRun]" using worker_prog_tail [of n w "[]"] by simp
  show ?thesis
    using assms(1)
    by (rule worker_progE) (use False assms(2-4) worker_prog_tail in \<open>auto simp: steal_def try_pop_def pop_begin_def pop_wait_def pop_woken_def
    pop_front_def run_task_def Let_def intro: worker_prog.intros split: if_splits list.splits\<close>)
qed

lemma user_ops_append: "user_ops n p \<Longrightarrow> user_ops n p' \<Longrightarrow> user_ops n (p @ p')"
  by (induction n p rule: user_ops.induct) auto

lemma user_ops_shutdown: "set l \<subseteq> {..<n} \<Longrightarrow> user_ops n (concat (map (\<lambda>q. [OpDone q, OpNotifyAll q]) l))"
  by (induction l) auto

lemma user_ops_tail: "user_ops n (x # p) \<Longrightarrow> user_ops n p"
  by (cases x) auto

lemma user_prog_ops: "user_ops n p \<Longrightarrow> user_prog n p"
  using user_prog.intros(1) [OF push_part.intros(1)] by simp

lemma user_ops_step:
  assumes "user_ops n (x # p)" "perform body n me spurious x s = Some (s', new)"
  shows "user_prog n (new @ p)"
proof -
  have p: "user_ops n p" by (rule user_ops_tail [OF assms(1)])
  show ?thesis
  proof (cases x)
    case (OpQueueTask t)
    then have "new = [OpTryPush (next_index s) 0 t]" using assms(2) by (auto simp: QueueTask_def)
    then show ?thesis using user_prog.intros(1) [OF push_part.intros(2) p] by simp
  next
    case OpFinish
    then show ?thesis using assms(2) p user_prog.intros user_prog_ops by (auto simp: WaitForZero_def split: if_splits)
  next
    case OpShutdown
    have "user_ops n (OpAbort # concat (map (\<lambda>q. [OpDone q, OpNotifyAll q]) [0..<n]))"
      using user_ops_shutdown [of "[0..<n]" n] by (simp add: atLeastLessThan_upt [symmetric] lessThan_atLeast0)
    then have "user_ops n new" using OpShutdown assms(2) by (auto simp: Shutdown_def)
    then show ?thesis by (rule user_prog_ops [OF user_ops_append [OF _ p]])
  qed (use assms p user_prog_ops [OF p] in \<open>auto simp: set_done_def split: if_splits\<close>)
qed

lemma user_step:
  assumes "user_prog n (x # p)" "perform body n me spurious x s = Some (s', new)" "0 < n"
  shows "user_prog n (new @ p)"
proof (cases "\<exists>r us. push_part n r \<and> user_ops n us \<and> x # p = r @ us")
  case True
  then obtain r us where 1: "push_part n r" "user_ops n us" "x # p = r @ us" by blast
  show ?thesis
  proof (cases r)
    case Nil
    then show ?thesis using user_ops_step [OF _ assms(2)] 1 by simp
  next
    case (Cons y r')
    then have "push_part n (new @ r')" using push_part_step [of n x r'] 1 assms(2,3) by auto
    then show ?thesis using user_prog.intros(1) 1 Cons by fastforce
  qed
next
  case False
  show ?thesis
    using assms(1)
    by (rule user_progE) (use False assms(2) user_prog.intros user_prog_ops [of n "OpFinish # p"] in
      \<open>auto simp: wait_for_zero_def zero_woken_def split: if_splits\<close>)
qed

lemma thread_ok_step:
  "thread_ok n me (x # p) \<Longrightarrow> perform body n me spurious x s = Some (s', new) \<Longrightarrow> 0 < n \<Longrightarrow> thread_ok n me (new @ p)"
  unfolding thread_ok_def using worker_step user_step by (metis (full_types))

section \<open>Quantities of programs\<close>

text \<open>What is still to be counted, what is held, and which task is in the hand of a worker.\<close>

fun cost :: "'a op \<Rightarrow> int" where
  "cost OpIncrement = - 1"
| "cost OpDecrement = 1"
| "cost (OpEmplace q t) = 1"
| "cost (OpPush q t) = 1"
| "cost (OpWait q) = - 1"
| "cost (OpWoken q) = - 1"
| "cost _ = 0"

definition prog_cost :: "'a op list \<Rightarrow> int" where
  "prog_cost p = sum_list (map cost p)"

fun held :: "'a op list \<Rightarrow> nat option" where
  "held (OpUnlock q # p) = Some q"
| "held (OpWait q # p) = Some q"
| "held (OpPopFront q # p) = Some q"
| "held (OpEmplace q t # p) = Some q"
| "held (OpIncrement # p) = held p"
| "held (OpDecrement # p) = held p"
| "held _ = None"

fun got :: "'a op \<Rightarrow> 'a multiset" where
  "got (OpGot t) = {#t#}"
| "got _ = {#}"

definition hand :: "'a op list \<Rightarrow> 'a multiset" where
  "hand p = sum_list (map got p)"

lemma prog_cost_simps [simp]:
  "prog_cost [] = 0" "prog_cost (x # p) = cost x + prog_cost p" "prog_cost (p @ p') = prog_cost p + prog_cost p'"
  by (simp_all add: prog_cost_def)

lemma hand_simps [simp]:
  "hand [] = {#}" "hand (x # p) = got x + hand p" "hand (p @ p') = hand p + hand p'"
  by (simp_all add: hand_def)

text \<open>Operations that come later and hold, cost and own nothing.\<close>

fun calm_op :: "'a op \<Rightarrow> bool" where
  "calm_op OpRun = True"
| "calm_op (OpQueueTask t) = True"
| "calm_op OpFinish = True"
| "calm_op OpShutdown = True"
| "calm_op OpAbort = True"
| "calm_op (OpDone q) = True"
| "calm_op (OpNotifyAll q) = True"
| "calm_op _ = False"

definition calm :: "'a op list \<Rightarrow> bool" where
  "calm p \<longleftrightarrow> (\<forall>x\<in>set p. calm_op x)"

lemma calm_simps [simp]: "calm []" "calm (x # p) \<longleftrightarrow> calm_op x \<and> calm p" "calm (p @ p') \<longleftrightarrow> calm p \<and> calm p'"
  by (auto simp: calm_def)

lemma calm_cost [simp]: "calm p \<Longrightarrow> prog_cost p = 0" "calm p \<Longrightarrow> hand p = {#}" "calm p \<Longrightarrow> held p = None"
proof -
  have op: "cost x = 0 \<and> got x = {#} \<and> held (x # r) = None" if "calm_op x" for x :: "'a op" and r
    using that by (cases x) auto
  show "calm p \<Longrightarrow> prog_cost p = 0" "calm p \<Longrightarrow> hand p = {#}" "calm p \<Longrightarrow> held p = None"
    by (induction p) (use op in auto)
qed

lemma calm_tasks [simp]: "calm (map OpQueueTask us)"
  by (induction us) auto

lemma calm_user_ops: "user_ops n p \<Longrightarrow> calm p"
  by (induction n p rule: user_ops.induct) auto

text \<open>The cases of a program that is not empty.\<close>

lemma thread_cases:
  assumes "thread_ok n me (x # p)"
  obtains
    (run) "me < n" "x = OpRun" "p = []"
  | (try_pop) i where "me < n" "x = OpTryPop i" "p = []"
  | (pop) "me < n" "x = OpPop me" "p = []"
  | (sleep) "me < n" "x = OpDecrement" "p = [OpWait me]"
  | (wait) "me < n" "x = OpWait me" "p = []"
  | (woken) "me < n" "x = OpWoken me" "p = []"
  | (up) "me < n" "x = OpIncrement" "p = [OpPopFront me]"
  | (front) "me < n" "x = OpPopFront me" "p = []"
  | (popped) q t where "me < n" "q < n" "x = OpDecrement" "p = [OpUnlock q, OpGot t]"
  | (release) q t where "me < n" "q < n" "x = OpUnlock q" "p = [OpGot t]"
  | (got) t where "me < n" "x = OpGot t" "p = []"
  | (queue) t where "x = OpQueueTask t" "calm p"
  | (try_push) idx i t where "x = OpTryPush idx i t" "calm p"
  | (promise) q t r where "q < n" "x = OpIncrement" "p = OpEmplace q t # OpNotifyOne q # r" "calm r"
  | (promise_push) q t r where "q < n" "x = OpIncrement" "p = OpPush q t # OpNotifyOne q # r" "calm r"
  | (emplace) q t r where "q < n" "x = OpEmplace q t" "p = OpNotifyOne q # r" "calm r"
  | (push) q t r where "q < n" "x = OpPush q t" "p = OpNotifyOne q # r" "calm r"
  | (notify) q where "q < n" "x = OpNotifyOne q" "calm p"
  | (finish) "n \<le> me" "x = OpFinish" "calm p"
  | (wait_zero) "n \<le> me" "x = OpWaitForZero" "calm p"
  | (zero_woken) "n \<le> me" "x = OpZeroWoken" "calm p"
  | (shut) "n \<le> me" "x = OpShutdown" "calm p"
  | (abort) "n \<le> me" "x = OpAbort" "calm p"
  | (all_done) q r where "n \<le> me" "q < n" "x = OpDone q" "p = OpNotifyAll q # r" "calm r"
  | (notify_all) q where "n \<le> me" "q < n" "x = OpNotifyAll q" "calm p"
proof -
  have pushing: thesis if r: "push_part n r" "x # p = r @ rest" "calm rest" "r \<noteq> []" for r rest
    using push_part_head [of n x "tl r"] r
    by (cases r) (auto intro: try_push promise promise_push emplace push notify)
  show thesis
  proof (cases "me < n")
    case True
    then have "worker_prog n me (x # p)" using assms unfolding thread_ok_def by simp
    then show thesis
    proof (rule worker_progE)
      fix r us assume r: "x # p = r @ map OpQueueTask us @ [OpRun]" "push_part n r"
      show thesis
      proof (cases "r = []")
        case True
        then show thesis using r \<open>me < n\<close> by (cases us) (auto intro: run queue)
      qed (use pushing [OF r(2,1)] in auto)
    qed (use True in \<open>auto intro: try_pop pop sleep wait woken up front popped release got\<close>)
  next
    case False
    then have me: "n \<le> me" by simp
    have "user_prog n (x # p)" using assms False unfolding thread_ok_def by simp
    then show thesis
    proof (rule user_progE)
      fix r us assume r: "x # p = r @ us" "push_part n r" "user_ops n us"
      show thesis
      proof (cases "r = []")
        case True
        then have us: "user_ops n (x # p)" using r by simp
        have c: "calm p" using calm_user_ops [OF us] by simp
        show thesis using us c me
          by (cases x) (auto intro: queue finish shut abort all_done notify_all)
      qed (use pushing [OF r(2,1)] calm_user_ops [OF r(3)] in auto)
    qed (use me calm_user_ops [of n p] in \<open>auto intro: wait_zero zero_woken\<close>)
  qed
qed

section \<open>Sums over threads and queues\<close>

lemma sum_list_map_update:
  fixes f :: "'b \<Rightarrow> 'c::ab_group_add"
  shows "i < length xs \<Longrightarrow> sum_list (map f (xs[i := y])) = sum_list (map f xs) - f (xs ! i) + f y"
  by (induction xs arbitrary: i) (auto split: nat.splits)

lemma sum_list_mset_update:
  fixes f :: "'b \<Rightarrow> 'c multiset"
  shows "i < length xs \<Longrightarrow> sum_list (map f (xs[i := y])) + f (xs ! i) = sum_list (map f xs) + f y"
  by (induction xs arbitrary: i) (auto split: nat.splits simp: ac_simps)

definition queued :: "'a TaskSystem \<Rightarrow> int" where
  "queued s = sum_list (map (\<lambda>qu. int (length (q_tasks qu))) (queues s))"

definition stock :: "'a TaskSystem \<Rightarrow> 'a multiset" where
  "stock s = sum_list (map (\<lambda>qu. mset (q_tasks qu)) (queues s))"

lemma queues_update_queue [simp]: "queues (update_queue q f s) = (queues s)[q := f (queues s ! q)]"
  by (simp add: update_queue_def)

lemma update_queue_sel [simp]:
  "workload (update_queue q f s) = workload s" "workload_done (update_queue q f s) = workload_done s"
  "workload_waiting (update_queue q f s) = workload_waiting s" "next_index (update_queue q f s) = next_index s"
  "shutdown (update_queue q f s) = shutdown s" "accepted (update_queue q f s) = accepted s"
  "started (update_queue q f s) = started s"
  by (simp_all add: update_queue_def)

lemma queued_sel [simp]:
  "queued (s\<lparr>workload := w\<rparr>) = queued s" "queued (s\<lparr>workload_waiting := l\<rparr>) = queued s"
  "queued (s\<lparr>workload_done := b\<rparr>) = queued s" "queued (s\<lparr>next_index := i\<rparr>) = queued s"
  "queued (s\<lparr>shutdown := b\<rparr>) = queued s" "queued (s\<lparr>accepted := a\<rparr>) = queued s"
  "queued (s\<lparr>started := a\<rparr>) = queued s"
  by (simp_all add: queued_def)

lemma stock_sel [simp]:
  "stock (s\<lparr>workload := w\<rparr>) = stock s" "stock (s\<lparr>workload_waiting := l\<rparr>) = stock s"
  "stock (s\<lparr>workload_done := b\<rparr>) = stock s" "stock (s\<lparr>next_index := i\<rparr>) = stock s"
  "stock (s\<lparr>shutdown := b\<rparr>) = stock s" "stock (s\<lparr>accepted := a\<rparr>) = stock s"
  "stock (s\<lparr>started := a\<rparr>) = stock s"
  by (simp_all add: stock_def)

lemma queued_update:
  "q < length (queues s) \<Longrightarrow>
   queued (update_queue q f s) = queued s - int (length (q_tasks (queues s ! q))) + int (length (q_tasks (f (queues s ! q))))"
  by (simp add: queued_def sum_list_map_update)

lemma stock_update:
  "q < length (queues s) \<Longrightarrow>
   stock (update_queue q f s) + mset (q_tasks (queues s ! q)) = stock s + mset (q_tasks (f (queues s ! q)))"
  using sum_list_mset_update [of q "queues s" "\<lambda>qu. mset (q_tasks qu)" "f (queues s ! q)"] by (simp add: stock_def)

lemma stock_update_same:
  "q < length (queues s) \<Longrightarrow> q_tasks (f (queues s ! q)) = q_tasks (queues s ! q) \<Longrightarrow> stock (update_queue q f s) = stock s"
  using stock_update [of q s f] by simp

lemmas op_defs =
  Run_def steal_def try_pop_def pop_begin_def pop_wait_def pop_woken_def pop_front_def run_task_def QueueTask_def
  attempt_def try_push_def push_def emplace_back_def notify_one_def notify_all_def set_done_def Increment_def
  WaitForZero_def wait_for_zero_def zero_woken_def Shutdown_def Abort_count_def lock_def unlock_def Let_def

lemma queues_length:
  "perform body n me spurious x s = Some (s', new) \<Longrightarrow> length (queues s') = length (queues s)"
  by (cases x) (auto simp: op_defs Decrement_def split: if_splits list.splits)

section \<open>The effect of an operation\<close>

text \<open>The operation a thread does next, with what it makes of the system and of the program.\<close>

lemma steal_cases:
  assumes "steal n me spurious i s = (s', new)" "me < n"
  obtains
    (no) j where "s' = s" "new = [OpTryPop j]"
  | (give_up) "s' = s" "new = [OpPop me]"
  | (yes) q t r where "q < n" "q_owner (queues s ! q) = None" "q_tasks (queues s ! q) = t # r"
      "s' = update_queue q (\<lambda>qu. qu\<lparr>q_tasks := r, q_owner := Some me\<rparr>) s" "new = [OpDecrement, OpUnlock q, OpGot t]"
proof -
  have n: "(me + i) mod n < n" using assms(2) by simp
  show thesis
  proof (cases "i < n \<and> \<not> locked ((me + i) mod n) s \<and> \<not> spurious \<and> q_tasks (queues s ! ((me + i) mod n)) \<noteq> []")
    case True
    then obtain t r where t: "q_tasks (queues s ! ((me + i) mod n)) = t # r" by (meson neq_Nil_conv)
    have "q_owner (queues s ! ((me + i) mod n)) = None" using True by (simp add: locked_def)
    then show thesis using yes [OF n _ t] assms True t by (simp add: steal_def try_pop_def)
  next
    case False
    then show thesis using assms no give_up by (auto simp: steal_def try_pop_def split: if_splits list.splits)
  qed
qed

lemma attempt_cases:
  assumes "attempt n me spurious idx i t s = (s', new)" "0 < n"
  obtains
    (no) j where "s' = s" "new = [OpTryPush idx j t]"
  | (yes) q where "q < n" "q_owner (queues s ! q) = None" "s' = lock me q s" "new = [OpIncrement, OpEmplace q t, OpNotifyOne q]"
  | (give_up) q where "q < n" "s' = s" "new = [OpIncrement, OpPush q t, OpNotifyOne q]"
proof -
  have n: "j mod n < n" for j using assms(2) by simp
  define q where "q = ((idx + i) mod 2 ^ 64) mod n"
  consider "i < n * kNumberOfAttempts" "locked q s \<or> spurious" | "i < n * kNumberOfAttempts" "\<not> (locked q s \<or> spurious)"
    | "\<not> i < n * kNumberOfAttempts" by blast
  then show thesis
  proof cases
    case 1
    then show thesis using assms(1) no [of "Suc i"] unfolding attempt_def try_push_def q_def [symmetric] by simp
  next
    case 2
    have "q < n" "q_owner (queues s ! q) = None" using 2 n by (simp_all add: q_def locked_def)
    then show thesis using 2 assms(1) yes unfolding attempt_def try_push_def q_def [symmetric] by simp
  next
    case 3
    then show thesis using assms(1) give_up [OF n [of idx]] unfolding attempt_def push_def by simp
  qed
qed

lemma step_cases:
  assumes "thread_ok n me (x # p)" "perform body n me spurious x s = Some (s', new)" "length (queues s) = n" "0 < n"
  obtains
    (run) "me < n" "x = OpRun" "p = []" "s' = s" "\<not> shutdown s" "new = [OpTryPop 0]"
  | (run_stop) "me < n" "x = OpRun" "p = []" "s' = s" "shutdown s" "new = []"
  | (try_pop_no) i j where "me < n" "x = OpTryPop i" "p = []" "s' = s" "new = [OpTryPop j]"
  | (try_pop_end) i where "me < n" "x = OpTryPop i" "p = []" "s' = s" "new = [OpPop me]"
  | (try_pop) i q t r where "me < n" "x = OpTryPop i" "p = []" "q < n" "q_owner (queues s ! q) = None"
      "q_tasks (queues s ! q) = t # r" "s' = update_queue q (\<lambda>qu. qu\<lparr>q_tasks := r, q_owner := Some me\<rparr>) s"
      "new = [OpDecrement, OpUnlock q, OpGot t]"
  | (pop) "me < n" "x = OpPop me" "p = []" "q_owner (queues s ! me) = None" "ready me s" "s' = lock me me s" "new = [OpPopFront me]"
  | (pop_empty) "me < n" "x = OpPop me" "p = []" "q_owner (queues s ! me) = None" "\<not> ready me s" "s' = lock me me s"
      "new = [OpDecrement, OpWait me]"
  | (sleep) "me < n" "x = OpDecrement" "p = [OpWait me]" "s' = Decrement s" "new = []"
  | (wait) "me < n" "x = OpWait me" "p = []" "s' = fst (pop_wait me me s)" "new = [OpWoken me]"
  | (woken_wait) s1 where "me < n" "x = OpWoken me" "p = []" "q_owner (queues s ! me) = None" "\<not> ready me s"
      "me \<notin> set (q_waiting (queues s ! me)) \<or> spurious"
      "s1 = update_queue me (\<lambda>qu. qu\<lparr>q_waiting := removeAll me (q_waiting qu)\<rparr>) s"
      "s' = fst (pop_wait me me s1)" "new = [OpWoken me]"
  | (woken) s1 where "me < n" "x = OpWoken me" "p = []" "q_owner (queues s ! me) = None" "ready me s"
      "s1 = update_queue me (\<lambda>qu. qu\<lparr>q_waiting := removeAll me (q_waiting qu)\<rparr>) s"
      "s' = lock me me s1" "new = [OpIncrement, OpPopFront me]"
  | (up) "me < n" "x = OpIncrement" "p = [OpPopFront me]" "s' = Increment s" "new = []"
  | (front_none) "me < n" "x = OpPopFront me" "p = []" "q_tasks (queues s ! me) = []" "s' = unlock me s" "new = []"
  | (front) t r where "me < n" "x = OpPopFront me" "p = []" "q_tasks (queues s ! me) = t # r"
      "s' = update_queue me (\<lambda>qu. qu\<lparr>q_tasks := r\<rparr>) s" "new = [OpDecrement, OpUnlock me, OpGot t]"
  | (popped) q t where "me < n" "q < n" "x = OpDecrement" "p = [OpUnlock q, OpGot t]" "s' = Decrement s" "new = []"
  | (release) q t where "me < n" "q < n" "x = OpUnlock q" "p = [OpGot t]" "s' = unlock q s" "new = []"
  | (got) t where "me < n" "x = OpGot t" "p = []" "\<not> shutdown s" "s' = s\<lparr>started := started s @ [t]\<rparr>"
      "new = map OpQueueTask (body t) @ [OpRun]"
  | (got_stop) t where "me < n" "x = OpGot t" "p = []" "shutdown s" "s' = s" "new = []"
  | (queue) t i j where "x = OpQueueTask t" "calm p" "s' = s\<lparr>next_index := i\<rparr>" "new = [OpTryPush j 0 t]"
  | (try_push_no) idx i t j where "x = OpTryPush idx i t" "calm p" "s' = s" "new = [OpTryPush idx j t]"
  | (try_push) idx i t q where "x = OpTryPush idx i t" "calm p" "q < n" "q_owner (queues s ! q) = None" "s' = lock me q s"
      "new = [OpIncrement, OpEmplace q t, OpNotifyOne q]"
  | (try_push_end) idx i t q where "x = OpTryPush idx i t" "calm p" "q < n" "s' = s"
      "new = [OpIncrement, OpPush q t, OpNotifyOne q]"
  | (promise) q t r where "q < n" "x = OpIncrement" "p = OpEmplace q t # OpNotifyOne q # r" "calm r" "s' = Increment s" "new = []"
  | (promise_push) q t r where "q < n" "x = OpIncrement" "p = OpPush q t # OpNotifyOne q # r" "calm r" "s' = Increment s" "new = []"
  | (emplace) q t r where "q < n" "x = OpEmplace q t" "p = OpNotifyOne q # r" "calm r"
      "s' = unlock q (emplace_back q t s)" "new = []"
  | (push) q t r where "q < n" "x = OpPush q t" "p = OpNotifyOne q # r" "calm r" "q_owner (queues s ! q) = None"
      "s' = emplace_back q t s" "new = []"
  | (notify) q where "q < n" "x = OpNotifyOne q" "calm p" "s' = notify_one q s" "new = []"
  | (finish) "n \<le> me" "x = OpFinish" "calm p" "s' = s" "IsZero s" "new = []"
  | (finish_wait) "n \<le> me" "x = OpFinish" "calm p" "s' = s" "\<not> IsZero s" "new = [OpWaitForZero]"
  | (zero) "n \<le> me" "x = OpWaitForZero" "calm p" "s' = s" "IsZero s" "new = [OpFinish]"
  | (zero_wait) "n \<le> me" "x = OpWaitForZero" "calm p" "s' = s\<lparr>workload_waiting := me # workload_waiting s\<rparr>" "\<not> IsZero s"
      "new = [OpZeroWoken]"
  | (zero_woken) s1 where "n \<le> me" "x = OpZeroWoken" "calm p"
      "s1 = s\<lparr>workload_waiting := removeAll me (workload_waiting s)\<rparr>" "(s', new) = wait_for_zero me s1"
  | (shut) "n \<le> me" "x = OpShutdown" "calm p" "s' = s\<lparr>shutdown := True\<rparr>"
      "new = OpAbort # concat (map (\<lambda>q. [OpDone q, OpNotifyAll q]) [0..<n])"
  | (abort) "n \<le> me" "x = OpAbort" "calm p" "s' = Abort_count s" "new = []"
  | (all_done) q r where "n \<le> me" "q < n" "x = OpDone q" "p = OpNotifyAll q # r" "calm r" "q_owner (queues s ! q) = None"
      "s' = update_queue q (\<lambda>qu. qu\<lparr>q_done := True\<rparr>) s" "new = []"
  | (notify_all) q where "n \<le> me" "q < n" "x = OpNotifyAll q" "calm p" "s' = notify_all q s" "new = []"
  using assms(1)
proof (cases rule: thread_cases)
  case c: (try_pop i)
  have "steal n me spurious i s = (s', new)" using c assms(2) by simp
  then show thesis using c(1)
  proof (cases rule: steal_cases)
    case (no j)
    then show thesis using try_pop_no c by blast
  next
    case give_up
    then show thesis using try_pop_end c by blast
  next
    case (yes q t r)
    then show thesis using try_pop c by blast
  qed
next
  case c: (try_push idx i t)
  then have "attempt n me spurious idx i t s = (s', new)" using assms(2) by simp
  then show thesis using assms(4)
  proof (cases rule: attempt_cases)
    case (no j)
    then show thesis using try_push_no c by blast
  next
    case (yes q)
    then show thesis using try_push c by blast
  next
    case (give_up q)
    then show thesis using try_push_end c by blast
  qed
next
  case run
  then show thesis using that(1,2) assms(2) by (auto simp: Run_def split: if_splits)
next
  case pop
  then show thesis using that(6,7) assms(2) by (auto simp: pop_begin_def locked_def split: if_splits)
next
  case sleep
  then show thesis using that(8) assms(2) by auto
next
  case wait
  then show thesis using that(9) assms(2) by (auto simp: pop_wait_def)
next
  case woken
  have "ready me (update_queue me (\<lambda>qu. qu\<lparr>q_waiting := removeAll me (q_waiting qu)\<rparr>) s) = ready me s"
    using woken assms(3) by (simp add: ready_def)
  then show thesis using woken that(10,11) assms(2)
    by (auto simp: pop_woken_def Let_def locked_def pop_wait_def split: if_splits)
next
  case up
  then show thesis using that(12) assms(2) by auto
next
  case front
  then show thesis using that(13,14) assms(2) by (auto simp: pop_front_def split: list.splits)
next
  case (popped q t)
  then show thesis using that(15) assms(2) by auto
next
  case (release q t)
  then show thesis using that(16) assms(2) by auto
next
  case (got t)
  then show thesis using that(17,18) assms(2) by (auto simp: run_task_def split: if_splits)
next
  case (queue t)
  then show thesis using that(19) assms(2) by (auto simp: QueueTask_def)
next
  case (promise q t r)
  then show thesis using that(23) assms(2) by auto
next
  case (promise_push q t r)
  then show thesis using that(24) assms(2) by auto
next
  case (emplace q t r)
  then show thesis using that(25) assms(2) by auto
next
  case (push q t r)
  then show thesis using that(26) assms(2) by (auto simp: locked_def split: if_splits)
next
  case (notify q)
  then show thesis using that(27) assms(2) by auto
next
  case finish
  then show thesis using that(28,29) assms(2) by (auto simp: WaitForZero_def split: if_splits)
next
  case wait_zero
  then show thesis using that(30,31) assms(2) by (auto simp: wait_for_zero_def split: if_splits)
next
  case zero_woken
  then show thesis using that(32) [OF _ _ _ refl] assms(2) by (auto simp: zero_woken_def split: if_splits)
next
  case shut
  then show thesis using that(33) assms(2) by (auto simp: Shutdown_def)
next
  case abort
  then show thesis using that(34) assms(2) by auto
next
  case (all_done q r)
  then show thesis using that(35) assms(2) by (auto simp: set_done_def locked_def split: if_splits)
next
  case (notify_all q)
  then show thesis using that(36) assms(2) by auto
qed

section \<open>The account\<close>

text \<open>Every operation keeps the balance of the counter.\<close>

lemma shutdown_calm [simp]: "calm (concat (map (\<lambda>q. [OpDone q, OpNotifyAll q]) l))"
  by (induction l) auto

lemma Decrement_sel [simp]:
  "workload (Decrement s) = workload s - 1" "queues (Decrement s) = queues s" "shutdown (Decrement s) = shutdown s"
  "workload_done (Decrement s) = workload_done s" "accepted (Decrement s) = accepted s" "started (Decrement s) = started s"
  "queued (Decrement s) = queued s" "stock (Decrement s) = stock s"
  "workload_waiting (Decrement s) = (if workload s = 1 then [] else workload_waiting s)"
  by (simp_all add: Decrement_def Let_def queued_def stock_def)

lemma balance:
  assumes "thread_ok n me (x # p)" "perform body n me spurious x s = Some (s', new)" "length (queues s) = n" "0 < n"
  shows "workload s' - queued s' = workload s - queued s + prog_cost new - cost x"
  using assms
  by (cases rule: step_cases)
    (use assms(3) in \<open>auto simp: pop_wait_def notify_one_def notify_all_def emplace_back_def Increment_def
      Abort_count_def wait_for_zero_def queued_update lock_def unlock_def split: if_splits\<close>)

text \<open>Every operation keeps the account of the tasks, unless there is a shutdown.\<close>

lemma account:
  assumes "thread_ok n me (x # p)" "perform body n me spurious x s = Some (s', new)" "length (queues s) = n" "0 < n"
    and "\<not> shutdown s'"
  shows "mset (accepted s') + (stock s + mset (started s) + got x) = mset (accepted s) + (stock s' + mset (started s') + hand new)"
  using assms(1-4)
proof (cases rule: step_cases)
  case (try_pop i q t r)
  then show ?thesis using stock_update [of q s "\<lambda>qu. qu\<lparr>q_tasks := r, q_owner := Some me\<rparr>"] assms(3) by (auto simp: ac_simps)
next
  case (front t r)
  then show ?thesis using stock_update [of me s "\<lambda>qu. qu\<lparr>q_tasks := r\<rparr>"] assms(3) by (auto simp: ac_simps)
next
  case (emplace q t r)
  then show ?thesis using stock_update [of q s "\<lambda>qu. qu\<lparr>q_tasks := q_tasks qu @ [t]\<rparr>"] assms(3)
    by (auto simp: emplace_back_def unlock_def stock_update_same ac_simps)
next
  case (push q t r)
  then show ?thesis using stock_update [of q s "\<lambda>qu. qu\<lparr>q_tasks := q_tasks qu @ [t]\<rparr>"] assms(3)
    by (auto simp: emplace_back_def stock_update_same ac_simps)
qed (use assms(3,5) in \<open>auto simp: pop_wait_def notify_one_def notify_all_def Increment_def lock_def unlock_def
      Abort_count_def wait_for_zero_def stock_update_same split: if_splits\<close>)

lemma shutdown_stays: "perform body n me spurious x s = Some (s', new) \<Longrightarrow> shutdown s \<Longrightarrow> shutdown s'"
  by (cases x) (auto simp: op_defs split: if_splits list.splits)

section \<open>Locks\<close>

text \<open>An operation changes the owner only of what its own thread holds before or after it.\<close>

lemma owners:
  assumes "thread_ok n me (x # p)" "perform body n me spurious x s = Some (s', new)" "length (queues s) = n" "0 < n"
    and "k < n" and own: "\<And>q. q < n \<Longrightarrow> q_owner (queues s ! q) = Some me \<longleftrightarrow> held (x # p) = Some q"
  shows "q_owner (queues s' ! k) = Some me \<longleftrightarrow> held (new @ p) = Some k"
    "t \<noteq> me \<Longrightarrow> q_owner (queues s' ! k) = Some t \<longleftrightarrow> q_owner (queues s ! k) = Some t"
proof -
  have "(q_owner (queues s' ! k) = Some me \<longleftrightarrow> held (new @ p) = Some k) \<and>
    (t \<noteq> me \<longrightarrow> (q_owner (queues s' ! k) = Some t \<longleftrightarrow> q_owner (queues s ! k) = Some t))"
    using assms(1-4)
    by (cases rule: step_cases)
      (use assms(3,5) own [of k] in \<open>auto simp: pop_wait_def notify_one_def notify_all_def
        emplace_back_def Increment_def lock_def unlock_def
        Abort_count_def wait_for_zero_def nth_list_update split: if_splits\<close>)
  then show "q_owner (queues s' ! k) = Some me \<longleftrightarrow> held (new @ p) = Some k"
    "t \<noteq> me \<Longrightarrow> q_owner (queues s' ! k) = Some t \<longleftrightarrow> q_owner (queues s ! k) = Some t" by auto
qed

definition locks_ok :: "nat \<Rightarrow> 'a machine \<Rightarrow> bool" where
  "locks_ok n m \<longleftrightarrow> 0 < n \<and> length (queues (system m)) = n \<and> n \<le> length (threads m) \<and>
     (\<forall>me<length (threads m). thread_ok n me (threads m ! me)) \<and>
     (\<forall>q<n. \<forall>t. q_owner (queues (system m) ! q) = Some t \<longleftrightarrow> t < length (threads m) \<and> held (threads m ! t) = Some q)"

lemma machine_stepE:
  assumes "machine_step body n me spurious m = Some m'"
  obtains x p s' new where "me < length (threads m)" "threads m ! me = x # p"
    "perform body n me spurious x (system m) = Some (s', new)"
    "m' = \<lparr>system = s', threads = (threads m)[me := new @ p]\<rparr>"
  using assms by (auto simp: machine_step_def split: if_splits list.splits option.splits)

lemma locks_step:
  assumes "locks_ok n m" "machine_step body n me spurious m = Some m'"
  shows "locks_ok n m'"
proof -
  obtain x p s' new where m: "me < length (threads m)" "threads m ! me = x # p"
    "perform body n me spurious x (system m) = Some (s', new)" "m' = \<lparr>system = s', threads = (threads m)[me := new @ p]\<rparr>"
    using assms(2) by (rule machine_stepE)
  have n: "0 < n" "length (queues (system m)) = n" "n \<le> length (threads m)"
    and ok: "\<And>me. me < length (threads m) \<Longrightarrow> thread_ok n me (threads m ! me)"
    and own: "\<And>q t. q < n \<Longrightarrow> q_owner (queues (system m) ! q) = Some t \<longleftrightarrow> t < length (threads m) \<and> held (threads m ! t) = Some q"
    using assms(1) unfolding locks_ok_def by blast+
  have me: "thread_ok n me (x # p)" using ok [OF m(1)] m(2) by simp
  have "thread_ok n i (threads m' ! i)" if "i < length (threads m')" for i
    using ok [of i] thread_ok_step [OF me m(3) n(1)] that m(1,4) by (cases "i = me") simp_all
  moreover have "q_owner (queues s' ! q) = Some t \<longleftrightarrow> t < length (threads m') \<and> held (threads m' ! t) = Some q" if "q < n" for q t
    using owners [OF me m(3) n(2,1) that] own [of _ me] own [OF that] m(1,2,4) by (cases "t = me") simp_all
  ultimately show ?thesis using n m queues_length [OF m(3)] unfolding locks_ok_def by simp
qed

lemma locks_init:
  assumes "0 < n" "\<forall>u\<in>set users. user_ops n u"
  shows "locks_ok n (machine_init n users)"
proof -
  let ?m = "machine_init n users"
  have prog: "thread_ok n i (threads ?m ! i) \<and> held (threads ?m ! i) = None" if "i < length (threads ?m)" for i
  proof (cases "i < n")
    case True
    then show ?thesis using worker_prog_tail [of n i "[]"] by (simp add: machine_init_def thread_ok_def nth_append)
  next
    case False
    then have u: "user_ops n (users ! (i - n))" using that assms(2) by (auto simp: machine_init_def)
    show ?thesis using False user_prog_ops [OF u] calm_user_ops [OF u] by (simp add: machine_init_def thread_ok_def nth_append)
  qed
  then show ?thesis using assms(1)
    unfolding locks_ok_def by (auto simp: machine_init_def TaskSystem_init_def NotificationQueue_init_def)
qed

end
