(* ===== verification/Jst_TaskSystem_Live.thy ===== *)
theory Jst_TaskSystem_Live
  imports Jst_TaskSystem_Props
begin

text \<open>
  What holds in every state the threads of the task system can reach: the counter is the number
  of workers that are awake plus the tasks that are queued or promised; a worker that waits is
  not needed, or a notification is on its way; and the flags are set by a shutdown only.
\<close>

section \<open>The counter\<close>

definition call :: "'a op \<Rightarrow> bool" where
  "call x \<longleftrightarrow> (\<exists>t. x = OpQueueTask t) \<or> x = OpFinish \<or> x = OpShutdown"

definition counter_ok :: "nat \<Rightarrow> 'a machine \<Rightarrow> bool" where
  "counter_ok n m \<longleftrightarrow>
     workload (system m) = int n + sum_list (map prog_cost (threads m)) + queued (system m)"

definition tasks_ok :: "'a machine \<Rightarrow> bool" where
  "tasks_ok m \<longleftrightarrow>
     (\<not> shutdown (system m) \<longrightarrow>
      mset (accepted (system m)) = mset (started (system m)) + stock (system m) + sum_list (map hand (threads m)))"

lemma locks_okD:
  assumes "locks_ok n m"
  shows "0 < n" "length (queues (system m)) = n" "n \<le> length (threads m)"
    "me < length (threads m) \<Longrightarrow> thread_ok n me (threads m ! me)"
    "q < n \<Longrightarrow> q_owner (queues (system m) ! q) = Some t \<longleftrightarrow> t < length (threads m) \<and> held (threads m ! t) = Some q"
  using assms unfolding locks_ok_def by blast+

lemma workload_step:
  assumes "locks_ok n m" "counter_ok n m" "machine_step body n me spurious m = Some m'"
  shows "counter_ok n m'"
proof -
  obtain x p s' new where m: "me < length (threads m)" "threads m ! me = x # p"
    "perform body n me spurious x (system m) = Some (s', new)" "m' = \<lparr>system = s', threads = (threads m)[me := new @ p]\<rparr>"
    using assms(3) by (rule machine_stepE)
  have "thread_ok n me (x # p)" using locks_okD(4) [OF assms(1) m(1)] m(2) by simp
  from balance [OF this m(3) locks_okD(2,1) [OF assms(1)]] show ?thesis
    using assms(2) m(1,2,4) by (simp add: counter_ok_def sum_list_map_update)
qed

lemma tasks_step:
  assumes "locks_ok n m" "tasks_ok m" "machine_step body n me spurious m = Some m'"
  shows "tasks_ok m'"
proof -
  obtain x p s' new where m: "me < length (threads m)" "threads m ! me = x # p"
    "perform body n me spurious x (system m) = Some (s', new)" "m' = \<lparr>system = s', threads = (threads m)[me := new @ p]\<rparr>"
    using assms(3) by (rule machine_stepE)
  have ok: "thread_ok n me (x # p)" using locks_okD(4) [OF assms(1) m(1)] m(2) by simp
  show ?thesis
  proof (cases "shutdown s'")
    case True
    then show ?thesis using m(4) by (simp add: tasks_ok_def)
  next
    case False
    let ?H = "sum_list (map hand (threads m))" and ?H' = "sum_list (map hand (threads m'))"
    have acc: "mset (accepted s') + (stock (system m) + mset (started (system m)) + got x) =
        mset (accepted (system m)) + (stock s' + mset (started s') + hand new)"
      by (rule account [OF ok m(3) locks_okD(2,1) [OF assms(1)] False])
    have "\<not> shutdown (system m)" using shutdown_stays [OF m(3)] False by blast
    then have old: "mset (accepted (system m)) = mset (started (system m)) + stock (system m) + ?H"
      using assms(2) by (simp add: tasks_ok_def)
    have H: "?H' + (got x + hand p) = ?H + (hand new + hand p)"
      using sum_list_mset_update [OF m(1), of hand "new @ p"] m(2,4) by simp
    have "mset (accepted s') + (stock (system m) + mset (started (system m)) + got x) =
        (mset (started (system m)) + stock (system m) + ?H) + (stock s' + mset (started s') + hand new)"
      using acc old by simp
    then have "mset (accepted s') + got x = ?H + (stock s' + mset (started s') + hand new)"
      by (simp add: ac_simps)
    moreover have "?H' + got x = ?H + hand new" using H by (simp add: ac_simps)
    ultimately have "mset (accepted s') + got x = (mset (started s') + stock s' + ?H') + got x"
      by (simp add: ac_simps)
    then show ?thesis using m(4) by (simp add: tasks_ok_def)
  qed
qed

text \<open>A worker takes at most one off the count, another thread none.\<close>

lemma prog_cost_bound:
  assumes "thread_ok n me p"
  shows "me < n \<Longrightarrow> - 1 \<le> prog_cost p" "n \<le> me \<Longrightarrow> 0 \<le> prog_cost p"
proof -
  have "(me < n \<longrightarrow> - 1 \<le> prog_cost p) \<and> (n \<le> me \<longrightarrow> 0 \<le> prog_cost p)"
  proof (cases p)
    case (Cons x r)
    with assms have "thread_ok n me (x # r)" by simp
    then show ?thesis unfolding Cons by (cases rule: thread_cases) simp_all
  qed simp
  then show "me < n \<Longrightarrow> - 1 \<le> prog_cost p" "n \<le> me \<Longrightarrow> 0 \<le> prog_cost p" by auto
qed

lemma sum_list_threads:
  assumes "n \<le> length xs" "\<And>i. i < n \<Longrightarrow> (- 1 :: int) \<le> f (xs ! i)" "\<And>i. n \<le> i \<Longrightarrow> i < length xs \<Longrightarrow> 0 \<le> f (xs ! i)"
  shows "- int n \<le> sum_list (map f xs)"
    "sum_list (map f xs) = - int n \<Longrightarrow> i < n \<Longrightarrow> f (xs ! i) = - 1"
    "sum_list (map f xs) = - int n \<Longrightarrow> n \<le> i \<Longrightarrow> i < length xs \<Longrightarrow> f (xs ! i) = 0"
proof -
  let ?g = "\<lambda>i. f (xs ! i) + (if i < n then 1 else 0)"
  have pos: "0 \<le> ?g i" if "i < length xs" for i using assms(2,3) [of i] that by auto
  have "(\<Sum>i<length xs. if i < n then 1 else 0 :: int) = (\<Sum>i<n. 1)"
    using assms(1) by (intro sum.mono_neutral_cong_right) auto
  then have sum: "sum_list (map f xs) + int n = (\<Sum>i<length xs. ?g i)"
    by (simp add: sum.distrib sum_list_sum_nth atLeast0LessThan)
  have "0 \<le> (\<Sum>i<length xs. ?g i)" using pos by (intro sum_nonneg) auto
  then show "- int n \<le> sum_list (map f xs)" using sum by simp
  have zero: "?g i = 0" if "sum_list (map f xs) = - int n" "i < length xs" for i
    using sum_nonneg_0 [of "{..<length xs}" ?g i] pos sum that by simp
  show "f (xs ! i) = - 1" if "sum_list (map f xs) = - int n" "i < n"
    using zero [OF that(1), of i] that(2) assms(1) by simp
  show "f (xs ! i) = 0" if "sum_list (map f xs) = - int n" "n \<le> i" "i < length xs"
    using zero [OF that(1,3)] that(2) by simp
qed

lemma queued_pos: "0 \<le> queued s"
  unfolding queued_def by (rule sum_list_nonneg) auto

lemma queued_zero:
  assumes "queued s = 0" "q < length (queues s)"
  shows "q_tasks (queues s ! q) = []"
proof -
  have "sum_list (map (\<lambda>qu. int (length (q_tasks qu))) l) = 0 \<Longrightarrow> \<forall>qu\<in>set l. q_tasks qu = []"
    for l :: "'a NotificationQueue list"
  proof (induction l)
    case (Cons qu l)
    have "0 \<le> sum_list (map (\<lambda>qu. int (length (q_tasks qu))) l)" by (rule sum_list_nonneg) auto
    moreover have "int (length (q_tasks qu)) + sum_list (map (\<lambda>qu. int (length (q_tasks qu))) l) = 0" using Cons.prems by simp
    ultimately have "length (q_tasks qu) = 0" "sum_list (map (\<lambda>qu. int (length (q_tasks qu))) l) = 0" by linarith+
    then show ?case using Cons.IH by simp
  qed simp
  then show ?thesis using assms by (simp add: queued_def)
qed

lemma counter_bound:
  assumes "locks_ok n m" "counter_ok n m"
  shows "queued (system m) \<le> workload (system m)"
    "workload (system m) = queued (system m) \<Longrightarrow> i < n \<Longrightarrow> prog_cost (threads m ! i) = - 1"
    "workload (system m) = queued (system m) \<Longrightarrow> n \<le> i \<Longrightarrow> i < length (threads m) \<Longrightarrow> prog_cost (threads m ! i) = 0"
proof -
  note ok = locks_okD(4) [OF assms(1)]
  have n: "n \<le> length (threads m)" by (rule locks_okD(3) [OF assms(1)])
  have 1: "- 1 \<le> prog_cost (threads m ! i)" if "i < n" for i using prog_cost_bound(1) [OF ok that] that n by simp
  have 2: "0 \<le> prog_cost (threads m ! i)" if "n \<le> i" "i < length (threads m)" for i
    by (rule prog_cost_bound(2) [OF ok [OF that(2)] that(1)])
  note sums = sum_list_threads [of n _ prog_cost, OF n 1 2]
  show "queued (system m) \<le> workload (system m)" using sums(1) assms(2) by (simp add: counter_ok_def)
  show "prog_cost (threads m ! i) = - 1" if "workload (system m) = queued (system m)" "i < n"
    using sums(2) [of i] that assms(2) by (simp add: counter_ok_def)
  show "prog_cost (threads m ! i) = 0" if "workload (system m) = queued (system m)" "n \<le> i" "i < length (threads m)"
    using sums(3) [of i] that assms(2) by (simp add: counter_ok_def)
qed

section \<open>What an operation does to a queue\<close>

lemma queue_effect:
  assumes "thread_ok n me (x # p)" "perform body n me spurious x s = Some (s', new)" "length (queues s) = n" "0 < n"
    and "k < n" and own: "\<forall>q<n. q_owner (queues s ! q) = Some me \<longleftrightarrow> held (x # p) = Some q"
    and wait: "q_waiting (queues s ! k) = [] \<or> q_waiting (queues s ! k) = [k]"
  shows "q_tasks (queues s' ! k) \<noteq> [] \<Longrightarrow> q_tasks (queues s ! k) = [] \<Longrightarrow> OpNotifyOne k \<in> set p"
    and "q_done (queues s' ! k) \<Longrightarrow> \<not> q_done (queues s ! k) \<Longrightarrow> OpNotifyAll k \<in> set p \<and> x = OpDone k"
    and "q_owner (queues s ! k) = Some u \<Longrightarrow> u \<noteq> me \<Longrightarrow> ready k s' = ready k s"
    and "x = OpNotifyOne k \<or> x = OpNotifyAll k \<Longrightarrow> q_waiting (queues s' ! k) = []"
    and "me \<noteq> k \<Longrightarrow> q_waiting (queues s' ! k) = [] \<or> q_waiting (queues s' ! k) = q_waiting (queues s ! k)"
proof -
  have 1: "(q_tasks (queues s' ! k) \<noteq> [] \<longrightarrow> q_tasks (queues s ! k) = [] \<longrightarrow> OpNotifyOne k \<in> set p) \<and>
    (q_done (queues s' ! k) \<longrightarrow> \<not> q_done (queues s ! k) \<longrightarrow> OpNotifyAll k \<in> set p \<and> x = OpDone k)"
    using assms(1-4)
    by (cases rule: step_cases)
      (use assms(3,5) in \<open>auto simp: pop_wait_def notify_one_def notify_all_def emplace_back_def Increment_def lock_def
        unlock_def Abort_count_def wait_for_zero_def nth_list_update split: if_splits\<close>)
  have 2: "q_owner (queues s ! k) = Some u \<longrightarrow> u \<noteq> me \<longrightarrow> ready k s' = ready k s"
    using assms(1-4)
    by (cases rule: step_cases)
      (use assms(3,5) own [THEN spec, of k] in \<open>auto simp: ready_def pop_wait_def notify_one_def notify_all_def emplace_back_def
        Increment_def lock_def unlock_def Abort_count_def wait_for_zero_def nth_list_update split: if_splits\<close>)
  have 3: "(x = OpNotifyOne k \<or> x = OpNotifyAll k \<longrightarrow> q_waiting (queues s' ! k) = []) \<and>
    (me \<noteq> k \<longrightarrow> q_waiting (queues s' ! k) = [] \<or> q_waiting (queues s' ! k) = q_waiting (queues s ! k))"
    using assms(1-4)
    by (cases rule: step_cases)
      (use assms(3,5) wait in \<open>auto simp: pop_wait_def notify_one_def notify_all_def emplace_back_def Increment_def
        lock_def unlock_def Abort_count_def wait_for_zero_def nth_list_update split: if_splits\<close>)
  show "q_tasks (queues s' ! k) \<noteq> [] \<Longrightarrow> q_tasks (queues s ! k) = [] \<Longrightarrow> OpNotifyOne k \<in> set p" using 1 by blast
  show "q_done (queues s' ! k) \<Longrightarrow> \<not> q_done (queues s ! k) \<Longrightarrow> OpNotifyAll k \<in> set p \<and> x = OpDone k" using 1 by blast
  show "q_owner (queues s ! k) = Some u \<Longrightarrow> u \<noteq> me \<Longrightarrow> ready k s' = ready k s" using 2 by blast
  show "x = OpNotifyOne k \<or> x = OpNotifyAll k \<Longrightarrow> q_waiting (queues s' ! k) = []" using 3 by blast
  show "me \<noteq> k \<Longrightarrow> q_waiting (queues s' ! k) = [] \<or> q_waiting (queues s' ! k) = q_waiting (queues s ! k)" using 3 by blast
qed

text \<open>A worker waits at its own queue only, as long as it finds it empty.\<close>

definition sleeper :: "nat \<Rightarrow> 'a op list \<Rightarrow> 'a TaskSystem \<Rightarrow> bool" where
  "sleeper q p s \<longleftrightarrow>
     (q_waiting (queues s ! q) = [] \<or> q_waiting (queues s ! q) = [q] \<and> p = [OpWoken q]) \<and>
     (p = [OpDecrement, OpWait q] \<or> p = [OpWait q] \<longrightarrow> \<not> ready q s) \<and>
     (p = [OpIncrement, OpPopFront q] \<or> p = [OpPopFront q] \<longrightarrow> ready q s)"

lemma own_queue_effect:
  assumes "thread_ok n me (x # p)" "perform body n me spurious x s = Some (s', new)" "length (queues s) = n" "0 < n"
    and "me < n" "sleeper me (x # p) s"
  shows "sleeper me (new @ p) s' \<and> (q_waiting (queues s' ! me) \<noteq> [] \<longrightarrow> \<not> ready me s')"
  using assms(1-4)
proof (cases rule: step_cases)
  case (got t)
  have "map OpQueueTask us @ [OpRun] \<noteq> r @ [OpPopFront me] \<and> map OpQueueTask us @ [OpRun] \<noteq> r @ [OpWait me]" for us r by auto
  from this [of _ "[]"] this [of _ "[OpIncrement]"] this [of _ "[OpDecrement]"]
  show ?thesis using got assms(6) by (auto simp: sleeper_def)
qed (use assms(3,5,6) in \<open>auto simp: sleeper_def ready_def pop_wait_def notify_one_def notify_all_def emplace_back_def
      Increment_def lock_def unlock_def nth_list_update split: if_splits\<close>)

section \<open>Notifications on their way\<close>

definition pending :: "'a op \<Rightarrow> 'a machine \<Rightarrow> bool" where
  "pending x m \<longleftrightarrow> (\<exists>p\<in>set (threads m). x \<in> set p)"

lemma pending_keep:
  assumes "pending y m" "y \<noteq> x" "threads m ! me = x # p" "me < length (threads m)" "threads m' = (threads m)[me := new @ p]"
  shows "pending y m'"
proof -
  obtain i where i: "i < length (threads m)" "y \<in> set (threads m ! i)"
    using assms(1) unfolding pending_def by (metis in_set_conv_nth)
  have "y \<in> set (threads m' ! i)" using i assms(2-5) by (cases "i = me") auto
  then show ?thesis using i(1) assms(5) unfolding pending_def by (metis length_list_update nth_mem)
qed

lemma pending_new:
  assumes "y \<in> set (new @ p)" "me < length (threads m)" "threads m' = (threads m)[me := new @ p]"
  shows "pending y m'"
  using assms set_update_memI [OF assms(2)] unfolding pending_def by metis

lemma pending_back:
  assumes "pending y m'" "threads m ! me = x # p" "me < length (threads m)" "threads m' = (threads m)[me := new @ p]"
  shows "y \<in> set new \<or> pending y m"
proof -
  obtain i where i: "i < length (threads m)" "y \<in> set (threads m' ! i)"
    using assms(1,4) unfolding pending_def by (metis in_set_conv_nth length_list_update)
  show ?thesis
  proof (cases "i = me")
    case True
    then have "y \<in> set new \<or> y \<in> set (threads m ! me)" using i assms(2-4) by auto
    then show ?thesis using assms(3) nth_mem unfolding pending_def by blast
  next
    case False
    then have "y \<in> set (threads m ! i)" using i assms(4) by simp
    then show ?thesis using i(1) nth_mem unfolding pending_def by blast
  qed
qed

text \<open>Who waits at a queue that has something for it is about to be told.\<close>

definition queue_ok :: "nat \<Rightarrow> 'a machine \<Rightarrow> bool" where
  "queue_ok q m \<longleftrightarrow>
     sleeper q (threads m ! q) (system m) \<and>
     (q_waiting (queues (system m) ! q) \<noteq> [] \<and> q_tasks (queues (system m) ! q) \<noteq> [] \<longrightarrow> pending (OpNotifyOne q) m) \<and>
     (q_waiting (queues (system m) ! q) \<noteq> [] \<and> q_done (queues (system m) ! q) \<longrightarrow> pending (OpNotifyAll q) m)"

lemma queue_step:
  assumes "locks_ok n m" "queue_ok q m" "q < n" "machine_step body n me spurious m = Some m'"
  shows "queue_ok q m'"
proof -
  obtain x p s' new where m: "me < length (threads m)" "threads m ! me = x # p"
    "perform body n me spurious x (system m) = Some (s', new)" "m' = \<lparr>system = s', threads = (threads m)[me := new @ p]\<rparr>"
    using assms(4) by (rule machine_stepE)
  note ok = locks_okD [OF assms(1)]
  have me: "thread_ok n me (x # p)" using ok(4) [OF m(1)] m(2) by simp
  have own: "\<forall>k<n. q_owner (queues (system m) ! k) = Some me \<longleftrightarrow> held (x # p) = Some k"
    using ok(5) m(1,2) by simp
  let ?w = "q_waiting (queues (system m) ! q)" and ?w' = "q_waiting (queues s' ! q)"
  have old: "sleeper q (threads m ! q) (system m)" and wait: "?w = [] \<or> ?w = [q]"
    using assms(2) unfolding queue_ok_def sleeper_def by blast+
  note eff = queue_effect [OF me m(3) ok(2,1) assms(3) own wait]
  show ?thesis
  proof (cases "me = q")
    case True
    have "sleeper me (new @ p) s' \<and> (?w' \<noteq> [] \<longrightarrow> \<not> ready q s')"
      using own_queue_effect [OF me m(3) ok(2,1)] assms(3) old m(2) True by simp
    then show ?thesis using m(1,4) True by (auto simp: queue_ok_def ready_def)
  next
    case False
    have w: "?w' = [] \<or> ?w' = ?w" by (rule eff(5) [OF False])
    have same: "threads m' ! q = threads m ! q" using m(4) False by simp
    have qlen: "q < length (threads m)" using assms(3) ok(3) by simp
    have ready: "ready q s' = ready q (system m)" if "held (threads m ! q) = Some q"
      using ok(5) [OF assms(3), of q] eff(3) that qlen False by blast
    have "sleeper q (threads m ! q) s'"
      using old w ready unfolding sleeper_def by auto
    moreover have "pending (OpNotifyOne q) m'" if t: "?w' \<noteq> []" "q_tasks (queues s' ! q) \<noteq> []"
    proof (cases "q_tasks (queues (system m) ! q) = []")
      case True
      then show ?thesis using eff(1) [OF t(2)] pending_new [of _ new p me m m'] m(1,4) by simp
    next
      case False
      then have "pending (OpNotifyOne q) m" using assms(2) w t(1) unfolding queue_ok_def by auto
      moreover have "OpNotifyOne q \<noteq> x" using eff(4) t(1) by blast
      ultimately show ?thesis using pending_keep [OF _ _ m(2,1)] m(4) by simp
    qed
    moreover have "pending (OpNotifyAll q) m'" if t: "?w' \<noteq> []" "q_done (queues s' ! q)"
    proof (cases "q_done (queues (system m) ! q)")
      case False
      then show ?thesis using eff(2) [OF t(2)] pending_new [of _ new p me m m'] m(1,4) by simp
    next
      case True
      then have "pending (OpNotifyAll q) m" using assms(2) w t(1) unfolding queue_ok_def by auto
      moreover have "OpNotifyAll q \<noteq> x" using eff(4) t(1) by blast
      ultimately show ?thesis using pending_keep [OF _ _ m(2,1)] m(4) by simp
    qed
    ultimately show ?thesis using same m(4) unfolding queue_ok_def by simp
  qed
qed

section \<open>Flags\<close>

text \<open>The operations of a shutdown come before everything else.\<close>

fun settled :: "'a op \<Rightarrow> bool" where
  "settled OpAbort = False"
| "settled (OpDone q) = False"
| "settled (OpNotifyAll q) = False"
| "settled _ = True"

abbreviation ordered :: "'a op list \<Rightarrow> bool" where
  "ordered \<equiv> sorted_wrt (\<lambda>x y. settled x \<longrightarrow> settled y)"

lemma new_settled:
  assumes "perform body n me spurious x s = Some (s', new)"
  shows "(\<forall>y\<in>set new. settled y) \<or> x = OpShutdown"
  using assms by (cases x) (auto simp: op_defs split: if_splits list.splits)

lemma unsettled_new:
  assumes "perform body n me spurious x s = Some (s', new)" "\<not> settled x"
  shows "new = []"
  using assms by (cases x) (auto simp: op_defs split: if_splits list.splits)

lemma ordered_shutdown: "ordered (OpAbort # concat (map (\<lambda>q. [OpDone q, OpNotifyAll q]) l))"
  by (induction l) auto

definition flags_ok :: "nat \<Rightarrow> 'a machine \<Rightarrow> bool" where
  "flags_ok n m \<longleftrightarrow>
     (\<forall>p\<in>set (threads m). ordered p) \<and>
     (if shutdown (system m)
      then (workload_done (system m) \<or> pending OpAbort m) \<and>
        (\<forall>q<n. q_done (queues (system m) ! q) \<or> pending (OpDone q) m)
      else \<not> workload_done (system m) \<and> \<not> pending OpAbort m \<and> (\<forall>w<n. threads m ! w \<noteq> []) \<and>
        (\<forall>q<n. \<not> q_done (queues (system m) ! q) \<and> \<not> pending (OpDone q) m))"

lemma flag_effect:
  assumes "perform body n me spurious x s = Some (s', new)"
  shows "workload_done s' \<longleftrightarrow> workload_done s \<or> x = OpAbort" "shutdown s' \<longleftrightarrow> shutdown s \<or> x = OpShutdown"
  using assms by (cases x; auto simp: op_defs split: if_splits list.splits)+

lemma nth_updated: "k < length xs \<Longrightarrow> xs[j := y] ! k = (if j = k then y else xs ! k)"
  by (cases "j = k") simp_all

lemma done_effect:
  assumes "perform body n me spurious x s = Some (s', new)" "k < length (queues s)"
  shows "q_done (queues s' ! k) \<longleftrightarrow> q_done (queues s ! k) \<or> x = OpDone k"
  using assms by (cases x) (auto simp: op_defs nth_updated split: if_splits list.splits)

lemma ordered_settled: "\<forall>y\<in>set p. settled y \<Longrightarrow> ordered p"
  by (induction p) auto

lemma ordered_step:
  assumes "ordered (x # p)" "perform body n me spurious x s = Some (s', new)"
  shows "ordered (new @ p)"
proof (cases "settled x")
  case False
  then show ?thesis using unsettled_new [OF assms(2)] assms(1) by simp
next
  case True
  then have p: "\<forall>y\<in>set p. settled y" using assms(1) by simp
  show ?thesis
  proof (cases "x = OpShutdown")
    case True
    then have "new = OpAbort # concat (map (\<lambda>q. [OpDone q, OpNotifyAll q]) [0..<n])"
      using assms(2) by (auto simp: Shutdown_def)
    then show ?thesis using ordered_shutdown [of "[0..<n]"] assms(1) p by (auto simp: sorted_wrt_append)
  next
    case False
    then have "\<forall>y\<in>set (new @ p). settled y" using new_settled [OF assms(2)] p by auto
    then show ?thesis by (rule ordered_settled)
  qed
qed

lemma worker_stops:
  assumes "thread_ok n me (x # p)" "perform body n me spurious x s = Some (s', new)" "length (queues s) = n" "0 < n"
    and "me < n" "sleeper me (x # p) s" "new @ p = []"
  shows "shutdown s \<or> q_done (queues s ! me)"
  using assms(1-4)
proof (cases rule: step_cases)
  case (notify q)
  then have "worker_prog n me (OpNotifyOne q # p)" using assms(1,5) by (simp add: thread_ok_def)
  then have "p \<noteq> []" by (auto elim!: worker_progE push_partE)
  then show ?thesis using assms(7) by simp
qed (use assms(5-7) in \<open>auto simp: sleeper_def ready_def\<close>)

lemma flags_step:
  assumes "locks_ok n m" "\<And>q. q < n \<Longrightarrow> queue_ok q m" "flags_ok n m" "machine_step body n me spurious m = Some m'"
  shows "flags_ok n m'"
proof -
  obtain x p s' new where m: "me < length (threads m)" "threads m ! me = x # p"
    "perform body n me spurious x (system m) = Some (s', new)" "m' = \<lparr>system = s', threads = (threads m)[me := new @ p]\<rparr>"
    using assms(4) by (rule machine_stepE)
  let ?s = "system m"
  note ok = locks_okD [OF assms(1)]
  have me: "thread_ok n me (x # p)" using ok(4) [OF m(1)] m(2) by simp
  have th: "threads m' = (threads m)[me := new @ p]" "system m' = s'" using m(4) by simp_all
  have xp: "x # p \<in> set (threads m)" using nth_mem [OF m(1)] unfolding m(2) .
  then have px: "pending x m" unfolding pending_def by (intro bexI [of _ "x # p"]) simp_all
  have ord: "\<forall>p\<in>set (threads m). ordered p" using assms(3) by (simp add: flags_ok_def)
  have "ordered (new @ p)" by (rule ordered_step [OF bspec [OF ord xp] m(3)])
  moreover have "set (threads m') \<subseteq> insert (new @ p) (set (threads m))" unfolding th(1) by (rule set_update_subset_insert)
  ultimately have 1: "\<forall>p\<in>set (threads m'). ordered p" using ord by blast
  have done_iff: "q_done (queues s' ! q) \<longleftrightarrow> q_done (queues ?s ! q) \<or> x = OpDone q" if "q < n" for q
    using done_effect [OF m(3)] that ok(2) by simp
  show ?thesis
  proof (cases "shutdown s'")
    case True
    have "(workload_done s' \<or> pending OpAbort m') \<and> (\<forall>q<n. q_done (queues s' ! q) \<or> pending (OpDone q) m')"
    proof (cases "shutdown ?s")
      case True
      then have "workload_done ?s \<or> pending OpAbort m" "\<forall>q<n. q_done (queues ?s ! q) \<or> pending (OpDone q) m"
        using assms(3) unfolding flags_ok_def by simp_all
      then show ?thesis
        using flag_effect(1) [OF m(3)] done_iff pending_keep [OF _ _ m(2,1) th(1)] by metis
    next
      case False
      then have "x = OpShutdown" using True flag_effect(2) [OF m(3)] by simp
      then have "new = OpAbort # concat (map (\<lambda>q. [OpDone q, OpNotifyAll q]) [0..<n])"
        using m(3) by (auto simp: Shutdown_def)
      then have "pending OpAbort m'" "\<forall>q<n. pending (OpDone q) m'"
        using pending_new [OF _ m(1) th(1)] by auto
      then show ?thesis by blast
    qed
    then show ?thesis using 1 th(2) True unfolding flags_ok_def by simp
  next
    case False
    then have sh: "\<not> shutdown ?s" "x \<noteq> OpShutdown" using flag_effect(2) [OF m(3)] by simp_all
    then have old: "\<not> workload_done ?s" "\<not> pending OpAbort m" "\<forall>w<n. threads m ! w \<noteq> []"
      "\<forall>q<n. \<not> q_done (queues ?s ! q) \<and> \<not> pending (OpDone q) m"
      using assms(3) unfolding flags_ok_def by simp_all
    have new: "\<forall>y\<in>set new. settled y" using new_settled [OF m(3)] sh(2) by blast
    have "\<not> workload_done s'" using flag_effect(1) [OF m(3)] old(1,2) px by auto
    moreover have "\<not> pending OpAbort m'" using pending_back [OF _ m(2,1) th(1)] old(2) new by fastforce
    moreover have "\<not> pending (OpDone q) m'" if "q < n" for q
      using pending_back [OF _ m(2,1) th(1)] old(4) new that by fastforce
    moreover have "\<not> q_done (queues s' ! q)" if "q < n" for q
      using done_iff [OF that] old(4) that px by auto
    moreover have "threads m' ! w \<noteq> []" if w: "w < n" for w
    proof (cases "w = me")
      case True
      have "sleeper me (x # p) ?s" using assms(2) [of me] w True m(2) unfolding queue_ok_def by simp
      then have "new @ p \<noteq> []" using worker_stops [OF me m(3) ok(2,1)] w True sh(1) old(4) by blast
      then show ?thesis using True th(1) m(1) by simp
    next
      case False
      then show ?thesis using old(3) w th(1) by simp
    qed
    ultimately show ?thesis using 1 th(2) False unfolding flags_ok_def by simp
  qed
qed

section \<open>Waiting for the end\<close>

definition zero_ok :: "'a machine \<Rightarrow> bool" where
  "zero_ok m \<longleftrightarrow>
     (\<forall>t\<in>set (workload_waiting (system m)). \<exists>p. threads m ! t = OpZeroWoken # p) \<and>
     (workload_waiting (system m) \<noteq> [] \<longrightarrow> \<not> IsZero (system m))"

lemma zero_effect:
  assumes "thread_ok n me (x # p)" "perform body n me spurious x s = Some (s', new)" "length (queues s) = n" "0 < n"
    and "0 \<le> workload s" "me \<in> set (workload_waiting s) \<Longrightarrow> x = OpZeroWoken" "workload_waiting s = [] \<or> \<not> IsZero s"
  shows "t \<in> set (workload_waiting s') \<Longrightarrow> (t = me \<and> (\<exists>p'. new @ p = OpZeroWoken # p')) \<or> (t \<noteq> me \<and> t \<in> set (workload_waiting s))"
    and "workload_waiting s' \<noteq> [] \<Longrightarrow> \<not> IsZero s'"
proof -
  have "(t \<in> set (workload_waiting s') \<longrightarrow>
      (t = me \<and> (\<exists>p'. new @ p = OpZeroWoken # p')) \<or> (t \<noteq> me \<and> t \<in> set (workload_waiting s))) \<and>
    (workload_waiting s' \<noteq> [] \<longrightarrow> \<not> IsZero s')"
    using assms(1-4)
    by (cases rule: step_cases)
      (use assms(5-7) in \<open>auto simp: IsZero_def pop_wait_def notify_one_def notify_all_def emplace_back_def Increment_def
        lock_def unlock_def Abort_count_def wait_for_zero_def split: if_splits\<close>)
  then show "t \<in> set (workload_waiting s') \<Longrightarrow> (t = me \<and> (\<exists>p'. new @ p = OpZeroWoken # p')) \<or> (t \<noteq> me \<and> t \<in> set (workload_waiting s))"
    "workload_waiting s' \<noteq> [] \<Longrightarrow> \<not> IsZero s'" by blast+
qed

lemma zero_step:
  assumes "locks_ok n m" "counter_ok n m" "zero_ok m" "machine_step body n me spurious m = Some m'"
  shows "zero_ok m'"
proof -
  obtain x p s' new where m: "me < length (threads m)" "threads m ! me = x # p"
    "perform body n me spurious x (system m) = Some (s', new)" "m' = \<lparr>system = s', threads = (threads m)[me := new @ p]\<rparr>"
    using assms(4) by (rule machine_stepE)
  note ok = locks_okD [OF assms(1)]
  have me: "thread_ok n me (x # p)" using ok(4) [OF m(1)] m(2) by simp
  have pos: "0 \<le> workload (system m)" using counter_bound(1) [OF assms(1,2)] queued_pos [of "system m"] by simp
  have old: "t \<in> set (workload_waiting (system m)) \<Longrightarrow> \<exists>p. threads m ! t = OpZeroWoken # p"
    "workload_waiting (system m) = [] \<or> \<not> IsZero (system m)" for t
    using assms(3) unfolding zero_ok_def by blast+
  have x: "me \<in> set (workload_waiting (system m)) \<Longrightarrow> x = OpZeroWoken" using old(1) m(2) by fastforce
  note eff = zero_effect [OF me m(3) ok(2,1) pos x old(2)]
  have "\<exists>p. threads m' ! t = OpZeroWoken # p" if "t \<in> set (workload_waiting s')" for t
    using eff(1) [of t] that old(1) [of t] m(1,4) by (cases "t = me") auto
  then show ?thesis using eff(2) m(4) unfolding zero_ok_def by simp
qed

end
