(* ===== verification/Jst_TaskSystem_Thms.thy ===== *)
theory Jst_TaskSystem_Thms
  imports Jst_TaskSystem_Live
begin

text \<open>
  The theorems of the task system: the bounds of the counter, that nothing accepted is left when
  the counter is zero, and that the threads never stop with something left to do.
\<close>

section \<open>Reachable states\<close>

definition machine_ok :: "nat \<Rightarrow> 'a machine \<Rightarrow> bool" where
  "machine_ok n m \<longleftrightarrow> locks_ok n m \<and> counter_ok n m \<and> tasks_ok m \<and> (\<forall>q<n. queue_ok q m) \<and> flags_ok n m \<and> zero_ok m"

lemma calls_user_ops: "\<forall>x\<in>set p. call x \<Longrightarrow> user_ops n p"
  by (induction p) (auto simp: call_def)

lemma calls_plain: "\<forall>x\<in>set p. call x \<Longrightarrow> \<forall>x\<in>set p. settled x"
  by (auto simp: call_def)

lemma init_calls:
  assumes "\<forall>u\<in>set users. \<forall>x\<in>set u. call x"
  shows "p \<in> set (threads (machine_init n users)) \<Longrightarrow> calm p \<and> (\<forall>x\<in>set p. settled x)"
proof -
  assume "p \<in> set (threads (machine_init n users))"
  then consider "p = [OpRun]" | "p \<in> set users" by (auto simp: machine_init_def split: if_splits)
  then show "calm p \<and> (\<forall>x\<in>set p. settled x)"
  proof cases
    case 2
    then have "\<forall>x\<in>set p. call x" using assms by blast
    then show ?thesis using calm_user_ops [OF calls_user_ops [of p n]] calls_plain [of p] by blast
  qed simp
qed

lemma sum_list_zero:
  fixes f :: "'b \<Rightarrow> 'c::comm_monoid_add"
  shows "(\<And>p. p \<in> set ps \<Longrightarrow> f p = 0) \<Longrightarrow> sum_list (map f ps) = 0"
  by (induction ps) auto

lemma machine_ok_init:
  assumes "0 < n" "\<forall>u\<in>set users. \<forall>x\<in>set u. call x"
  shows "machine_ok n (machine_init n users)"
proof -
  let ?m = "machine_init n users"
  note plain = init_calls [OF assms(2), of _ n]
  have s: "system ?m = TaskSystem_init n" by (simp add: machine_init_def)
  have 1: "locks_ok n ?m" using locks_init [OF assms(1)] assms(2) calls_user_ops by blast
  have "sum_list (map prog_cost (threads ?m)) = 0" by (rule sum_list_zero) (use plain in simp)
  moreover have "queued (TaskSystem_init n :: 'a TaskSystem) = 0"
    by (simp add: queued_def TaskSystem_init_def NotificationQueue_init_def sum_list_replicate)
  ultimately have 2: "counter_ok n ?m" by (simp add: counter_ok_def s) (simp add: TaskSystem_init_def)
  have "sum_list (map hand (threads ?m)) = {#}" by (rule sum_list_zero) (use plain in simp)
  moreover have "stock (TaskSystem_init n :: 'a TaskSystem) = {#}"
    unfolding stock_def by (rule sum_list_zero) (auto simp: TaskSystem_init_def NotificationQueue_init_def)
  ultimately have 3: "tasks_ok ?m" by (simp add: tasks_ok_def s) (simp add: TaskSystem_init_def)
  have w: "threads ?m ! q = [OpRun]" if "q < n" for q using that by (simp add: machine_init_def nth_append)
  then have 4: "\<forall>q<n. queue_ok q ?m"
    by (simp add: queue_ok_def sleeper_def s) (simp add: TaskSystem_init_def NotificationQueue_init_def)
  have "\<not> pending OpAbort ?m" "\<not> pending (OpDone q) ?m" for q
    using plain unfolding pending_def by fastforce+
  moreover have "\<forall>p\<in>set (threads ?m). ordered p" using ordered_settled plain by blast
  ultimately have 5: "flags_ok n ?m"
    using w by (simp add: flags_ok_def s) (simp add: TaskSystem_init_def NotificationQueue_init_def)
  have 6: "zero_ok ?m" by (simp add: zero_ok_def s) (simp add: TaskSystem_init_def)
  show ?thesis using 1 2 3 4 5 6 unfolding machine_ok_def by blast
qed

lemma machine_ok_step:
  "machine_ok n m \<Longrightarrow> machine_step body n me spurious m = Some m' \<Longrightarrow> machine_ok n m'"
  unfolding machine_ok_def
  using locks_step workload_step tasks_step queue_step flags_step zero_step by meson

lemma machine_ok_reachable:
  assumes "machine_reachable body n users m" "0 < n" "\<forall>u\<in>set users. \<forall>x\<in>set u. call x"
  shows "machine_ok n m"
  using assms(1)
  by induction (use machine_ok_init [OF assms(2,3)] machine_ok_step in \<open>blast+\<close>)

lemma threads_reachable: "machine_reachable body n users m \<Longrightarrow> length (threads m) = n + length users"
  by (induction rule: machine_reachable.induct) (auto simp: machine_init_def elim!: machine_stepE)

section \<open>Idle workers\<close>

lemma worker_idle:
  assumes "thread_ok n w p" "w < n" "prog_cost p = - 1"
  shows "p = [OpWait w] \<or> p = [OpWoken w] \<or> p = [OpIncrement, OpPopFront w]"
proof (cases p)
  case (Cons x r)
  with assms(1) have "thread_ok n w (x # r)" by simp
  then show ?thesis using assms(2,3) unfolding Cons by (cases rule: thread_cases) auto
qed (use assms(3) in simp)

lemma user_hand:
  assumes "thread_ok n w p" "n \<le> w"
  shows "hand p = {#}"
proof (cases p)
  case (Cons x r)
  with assms(1) have "thread_ok n w (x # r)" by simp
  then show ?thesis using assms(2) unfolding Cons by (cases rule: thread_cases) auto
qed simp

lemma idle_state:
  assumes "machine_ok n m" "workload (system m) = 0" "\<not> shutdown (system m)"
  shows "q < n \<Longrightarrow> q_tasks (queues (system m) ! q) = []"
    and "w < n \<Longrightarrow> threads m ! w = [OpWait w] \<or> threads m ! w = [OpWoken w]"
    and "mset (accepted (system m)) = mset (started (system m))"
proof -
  have inv: "locks_ok n m" "counter_ok n m" "tasks_ok m" "\<forall>q<n. queue_ok q m" "flags_ok n m"
    using assms(1) unfolding machine_ok_def by blast+
  note ok = locks_okD [OF inv(1)]
  have zero: "queued (system m) = 0" using counter_bound(1) [OF inv(1,2)] queued_pos [of "system m"] assms(2) by simp
  then have full: "workload (system m) = queued (system m)" using assms(2) by simp
  show tasks: "q_tasks (queues (system m) ! q) = []" if "q < n" for q
    using queued_zero [OF zero] that ok(2) by simp
  show idle: "threads m ! w = [OpWait w] \<or> threads m ! w = [OpWoken w]" if w: "w < n" for w
  proof -
    have "ready w (system m) = False"
      using tasks [OF w] inv(5) assms(3) w unfolding ready_def flags_ok_def by simp
    moreover have "sleeper w (threads m ! w) (system m)" using inv(4) w unfolding queue_ok_def by blast
    moreover have "thread_ok n w (threads m ! w)" using ok(3,4) w by simp
    ultimately show ?thesis using worker_idle [OF _ w counter_bound(2) [OF inv(1,2) full w]] unfolding sleeper_def by blast
  qed
  have "hand p = {#}" if p: "p \<in> set (threads m)" for p
  proof -
    obtain i where i: "i < length (threads m)" "p = threads m ! i" using p by (metis in_set_conv_nth)
    show ?thesis
    proof (cases "i < n")
      case True
      then show ?thesis using idle [OF True] i(2) by auto
    next
      case False
      then show ?thesis using user_hand [OF ok(4) [OF i(1)]] i(2) by simp
    qed
  qed
  then have "sum_list (map hand (threads m)) = {#}" by (rule sum_list_zero)
  moreover have "stock (system m) = {#}"
    unfolding stock_def by (rule sum_list_zero) (use tasks ok(2) in \<open>auto simp: in_set_conv_nth\<close>)
  ultimately show "mset (accepted (system m)) = mset (started (system m))"
    using inv(3) assms(3) unfolding tasks_ok_def by simp
qed

lemma prog_cost_upper:
  assumes "thread_ok n w p"
  shows "prog_cost p \<le> 1"
proof (cases p)
  case (Cons x r)
  with assms have "thread_ok n w (x # r)" by simp
  then show ?thesis unfolding Cons by (cases rule: thread_cases) auto
qed simp

section \<open>Threads that cannot move\<close>

definition stuck :: "('a \<Rightarrow> 'a list) \<Rightarrow> nat \<Rightarrow> 'a machine \<Rightarrow> bool" where
  "stuck body n m \<longleftrightarrow> (\<forall>me<length (threads m). machine_step body n me False m = None)"

lemma stuck_head:
  assumes "stuck body n m" "me < length (threads m)" "threads m ! me = x # p"
  shows "perform body n me False x (system m) = None"
  using assms unfolding stuck_def machine_step_def by (auto split: option.splits)

lemma stuck_unlocked:
  assumes "locks_ok n m" "stuck body n m" "q < n"
  shows "\<not> locked q (system m)"
proof
  note ok = locks_okD [OF assms(1)]
  assume "locked q (system m)"
  then obtain t where "q_owner (queues (system m) ! q) = Some t" by (auto simp: locked_def)
  then have t: "t < length (threads m)" "held (threads m ! t) = Some q" using ok(5) [OF assms(3)] by blast+
  then obtain x p where xp: "threads m ! t = x # p" by (cases "threads m ! t") auto
  then show False using t(2) stuck_head [OF assms(2) t(1) xp] by (cases x) auto
qed

text \<open>A thread that cannot move is at its end or waits.\<close>

lemma stuck_cases:
  assumes "locks_ok n m" "stuck body n m" "me < length (threads m)"
  shows "threads m ! me = [] \<or>
    (me < n \<and> threads m ! me = [OpWoken me] \<and> me \<in> set (q_waiting (queues (system m) ! me))) \<or>
    (n \<le> me \<and> (\<exists>p. threads m ! me = OpZeroWoken # p \<and> calm p) \<and> me \<in> set (workload_waiting (system m)))"
proof (cases "threads m ! me")
  case (Cons x p)
  note ok = locks_okD [OF assms(1)]
  have "thread_ok n me (x # p)" using ok(4) [OF assms(3)] Cons by simp
  then show ?thesis
    using stuck_head [OF assms(2,3) Cons] stuck_unlocked [OF assms(1,2)] unfolding Cons
    by (cases rule: thread_cases)
      (auto simp: pop_begin_def pop_woken_def set_done_def zero_woken_def Let_def split: if_splits)
qed simp

lemma stuck_pending:
  assumes "machine_ok n m" "stuck body n m"
  shows "\<not> pending (OpNotifyOne q) m" "\<not> pending (OpNotifyAll q) m" "\<not> pending (OpDone q) m" "\<not> pending OpAbort m"
proof -
  have inv: "locks_ok n m" "flags_ok n m" using assms(1) unfolding machine_ok_def by blast+
  have no: "OpNotifyOne q \<notin> set p \<and> (\<forall>x\<in>set p. settled x)" if p: "p \<in> set (threads m)" for p q
  proof -
    obtain i where i: "i < length (threads m)" "p = threads m ! i" using p by (metis in_set_conv_nth)
    have "ordered p" using inv(2) p unfolding flags_ok_def by blast
    moreover have "p = [] \<or> p = [OpWoken i] \<or> (\<exists>r. p = OpZeroWoken # r \<and> calm r)"
      using stuck_cases [OF inv(1) assms(2) i(1)] i(2) by blast
    moreover have "OpNotifyOne q \<notin> set r" if "calm r" for r :: "'a op list" using that by (auto simp: calm_def)
    ultimately show ?thesis by auto
  qed
  show "\<not> pending (OpNotifyOne q) m" "\<not> pending (OpNotifyAll q) m" "\<not> pending (OpDone q) m" "\<not> pending OpAbort m"
    using no unfolding pending_def by fastforce+
qed

lemma stuck_state:
  assumes "machine_ok n m" "stuck body n m"
  shows "n \<le> me \<Longrightarrow> me < length (threads m) \<Longrightarrow> threads m ! me = []"
    and "shutdown (system m) \<Longrightarrow> w < n \<Longrightarrow> threads m ! w = []"
    and "\<not> shutdown (system m) \<Longrightarrow> workload (system m) = 0"
proof -
  have inv: "locks_ok n m" "counter_ok n m" "tasks_ok m" "\<forall>q<n. queue_ok q m" "flags_ok n m" "zero_ok m"
    using assms(1) unfolding machine_ok_def by blast+
  note ok = locks_okD [OF inv(1)] and none = stuck_pending [OF assms]
  note cases = stuck_cases [OF inv(1) assms(2)]
  have quiet: "q_tasks (queues (system m) ! w) = [] \<and> \<not> q_done (queues (system m) ! w)"
    if "w < n" "threads m ! w \<noteq> []" for w
  proof -
    have "q_waiting (queues (system m) ! w) \<noteq> []" using cases [of w] that ok(3) by auto
    then show ?thesis using inv(4) that(1) none unfolding queue_ok_def by blast
  qed
  show stop: "threads m ! w = []" if "shutdown (system m)" "w < n" for w
    using inv(5) that none(3) quiet [OF that(2)] unfolding flags_ok_def by auto
  have awake: "threads m ! w = [OpWoken w]" if "\<not> shutdown (system m)" "w < n" for w
    using cases [of w] inv(5) that ok(3) unfolding flags_ok_def by auto
  show zero: "workload (system m) = 0" if sh: "\<not> shutdown (system m)"
  proof -
    have "sum_list (map (\<lambda>qu. int (length (q_tasks qu))) (queues (system m))) = 0"
      by (rule sum_list_zero) (use quiet awake [OF sh] ok(2) in \<open>auto simp: in_set_conv_nth\<close>)
    then have "queued (system m) = 0" by (simp add: queued_def)
    moreover have "sum_list (map prog_cost (threads m)) = - int n"
    proof -
      have cost: "prog_cost (threads m ! i) = (if i < n then - 1 else 0)" if "i < length (threads m)" for i
        using awake [OF sh, of i] cases [OF that] by auto
      have "sum_list (map prog_cost (threads m)) = (\<Sum>i<length (threads m). if i < n then - 1 else 0)"
        using cost by (simp add: sum_list_sum_nth atLeast0LessThan)
      also have "\<dots> = (\<Sum>i<n. - 1)" using ok(3) by (intro sum.mono_neutral_cong_right) auto
      finally show ?thesis by simp
    qed
    ultimately show ?thesis using inv(2) by (simp add: counter_ok_def)
  qed
  show "threads m ! me = []" if me: "n \<le> me" "me < length (threads m)"
  proof -
    have "IsZero (system m)"
      using zero inv(5) none(4) unfolding IsZero_def flags_ok_def by (cases "shutdown (system m)") auto
    then have "workload_waiting (system m) = []" using inv(6) unfolding zero_ok_def by blast
    then show ?thesis using cases [OF me(2)] me(1) by auto
  qed
qed

section \<open>Runs\<close>

text \<open>A schedule names the threads in turn; one that cannot move is passed over.\<close>

fun run_machine :: "('a \<Rightarrow> 'a list) \<Rightarrow> nat \<Rightarrow> nat list \<Rightarrow> 'a machine \<Rightarrow> 'a machine" where
  "run_machine body n [] m = m"
| "run_machine body n (me # l) m =
     run_machine body n l (case machine_step body n me False m of None \<Rightarrow> m | Some m' \<Rightarrow> m')"

lemma run_reachable: "machine_reachable body n users m \<Longrightarrow> machine_reachable body n users (run_machine body n l m)"
  by (induction l arbitrary: m) (auto intro: machine_reachable.step split: option.splits)

definition example_body :: "nat \<Rightarrow> nat list" where
  "example_body t = (if t = 0 then [1] else [])"

lemmas run_defs =
  op_defs machine_step_def machine_init_def TaskSystem_init_def NotificationQueue_init_def IsZero_def Decrement_def
  locked_def ready_def update_queue_def kNumberOfAttempts_def example_body_def

text \<open>One worker, and a thread that queues a task and waits for the end, or shuts the system down.\<close>

definition example_end :: "nat machine" where
  "example_end = run_machine example_body 1
     [0, 1, 0, 1, 0, 1, 1, 0, 1, 0, 1, 0, 1, 0, 0, 0, 0, 0, 0, 0, 0, 0, 0, 0, 0, 0, 0, 0, 0, 0, 1, 0, 1]
     (machine_init 1 [[OpQueueTask 0, OpFinish]])"

definition example_shutdown :: "nat machine" where
  "example_shutdown = run_machine example_body 1 [0, 1, 0, 1, 0, 1, 1, 0, 1, 0, 1, 0, 1, 0, 1, 0, 1]
     (machine_init 1 [[OpQueueTask 0, OpShutdown]])"

lemma example_end_reachable: "machine_reachable example_body 1 [[OpQueueTask 0, OpFinish]] example_end"
  unfolding example_end_def by (rule run_reachable [OF start])

lemma example_shutdown_reachable: "machine_reachable example_body 1 [[OpQueueTask 0, OpShutdown]] example_shutdown"
  unfolding example_shutdown_def by (rule run_reachable [OF start])

lemma example_end_state:
  "example_end =
   \<lparr>system = \<lparr>queues = [\<lparr>q_tasks = [], q_done = False, q_owner = None, q_waiting = [0]\<rparr>], workload = 0,
      workload_done = False, workload_waiting = [], next_index = 2, shutdown = False, accepted = [0, 1], started = [0, 1]\<rparr>,
    threads = [[OpWoken 0], []]\<rparr>"
  by (simp add: example_end_def run_defs)

lemma example_shutdown_state:
  "list_all (\<lambda>me. machine_step example_body 1 me False example_shutdown = None) [0, 1]"
  "length (threads example_shutdown) = 2" "shutdown (system example_shutdown)"
  by (simp_all add: example_shutdown_def run_defs)

section \<open>The theorems\<close>

text \<open>
  C35: the counter of the workload never goes below the number of queued tasks, so that a decrement
  never underflows, and exceeds it by at most two for each worker and one for each other thread.
\<close>

theorem workload_bounds:
  assumes "machine_reachable body n users m" "0 < n" "\<forall>u\<in>set users. \<forall>x\<in>set u. call x"
  shows "queued (system m) \<le> workload (system m) \<and>
    workload (system m) \<le> queued (system m) + 2 * int n + int (length users)"
proof -
  have inv: "locks_ok n m" "counter_ok n m"
    using machine_ok_reachable [OF assms] unfolding machine_ok_def by blast+
  have low: "queued (system m) \<le> workload (system m)" by (rule counter_bound(1) [OF inv])
  have "prog_cost p \<le> 1" if p: "p \<in> set (threads m)" for p
  proof -
    obtain i where "i < length (threads m)" "p = threads m ! i" using p by (metis in_set_conv_nth)
    then show ?thesis using prog_cost_upper [OF locks_okD(4) [OF inv(1)]] by blast
  qed
  then have "sum_list (map prog_cost (threads m)) \<le> sum_list (map (\<lambda>_. 1) (threads m))" by (intro sum_list_mono)
  then show ?thesis
    using low inv(2) threads_reachable [OF assms(1)] by (simp add: counter_ok_def sum_list_triv)
qed

lemma workload_bounds_witness: "queued (system example_end) \<le> workload (system example_end)"
  using workload_bounds [OF example_end_reachable] by (simp add: call_def)

text \<open>
  C36: while there is no shutdown, a counter at zero, which is what the wait for the end of the work
  looks for, means that every queue is empty, that every worker waits or is about to, and that
  exactly the tasks that were accepted have been started, each as often as it was queued.
\<close>

theorem no_task_is_lost:
  assumes "machine_reachable body n users m" "0 < n" "\<forall>u\<in>set users. \<forall>x\<in>set u. call x"
    and "workload (system m) = 0" "\<not> shutdown (system m)"
  shows "mset (started (system m)) = mset (accepted (system m)) \<and>
    (\<forall>q<n. q_tasks (queues (system m) ! q) = []) \<and>
    (\<forall>w<n. threads m ! w = [OpWait w] \<or> threads m ! w = [OpWoken w])"
  using idle_state [OF machine_ok_reachable [OF assms(1-3)] assms(4,5)] by simp

lemma no_task_is_lost_witness: "mset (started (system example_end)) = mset [0, 1]"
  using no_task_is_lost [OF example_end_reachable] by (simp add: call_def example_end_state)

text \<open>
  C12: no wake-up is lost: when no thread can move, every thread that uses the system has come to
  its end, its waits for the end of the work included; after a shutdown every worker has ended,
  and otherwise every accepted task has been started and nothing is queued.
\<close>

theorem no_deadlock:
  assumes "machine_reachable body n users m" "0 < n" "\<forall>u\<in>set users. \<forall>x\<in>set u. call x"
    and "\<forall>me<length (threads m). machine_step body n me False m = None"
  shows "(\<forall>u. n \<le> u \<and> u < n + length users \<longrightarrow> threads m ! u = []) \<and>
    (if shutdown (system m) then \<forall>w<n. threads m ! w = []
     else mset (started (system m)) = mset (accepted (system m)) \<and> (\<forall>q<n. q_tasks (queues (system m) ! q) = []))"
proof -
  have ok: "machine_ok n m" by (rule machine_ok_reachable [OF assms(1-3)])
  have "stuck body n m" using assms(4) unfolding stuck_def .
  from stuck_state [OF ok this] idle_state [OF ok] threads_reachable [OF assms(1)] show ?thesis by simp
qed

lemma no_deadlock_witness: "threads example_shutdown ! 0 = []"
proof -
  have "machine_step example_body 1 me False example_shutdown = None" if "me < length (threads example_shutdown)" for me
    using example_shutdown_state(1,2) that by (auto simp: less_Suc_eq numeral_2_eq_2)
  then show ?thesis using no_deadlock [OF example_shutdown_reachable] example_shutdown_state(3) by (simp add: call_def)
qed

end
