(* ===== verification/Jst_Render.thy ===== *)
theory Jst_Render
  imports Jst_AST Jst_Json
begin

text \<open>
  The JSON form of a syntax tree: \<^verbatim>\<open>src/buildtool/jstlang/ast/to_json_visitor.{hpp,cpp}\<close>. A visitor
  has two settings, how literally maps are taken and whether only values that do not depend on
  the configuration are allowed. A failure is the message of the exception.
\<close>

section \<open>Results\<close>

text \<open>The values of a list of results, or its first failure.\<close>

fun collect :: "('e + 'a) list \<Rightarrow> 'e + 'a list" where
  "collect [] = Inr []"
| "collect (r # rs) = bindE r (\<lambda>x. bindE (collect rs) (\<lambda>xs. Inr (x # xs)))"

text \<open>A result that may be missing.\<close>

fun collect_option :: "('e + 'a) option \<Rightarrow> 'e + 'a option" where
  "collect_option None = Inr None"
| "collect_option (Some r) = bindE r (\<lambda>x. Inr (Some x))"

fun is_FuncNode :: "ast \<Rightarrow> bool" where
  "is_FuncNode (FuncNode _ _ _) = True"
| "is_FuncNode _ = False"

fun string_value :: "ast \<Rightarrow> string option" where
  "string_value (StringNode _ s) = Some s"
| "string_value _ = None"

section \<open>Maps\<close>

definition kEmptyMap_json :: json where
  "kEmptyMap_json = json_object [(''type'', JString ''empty_map'')]"

text \<open>
  A field is prepared as whether its value is a function, the JSON form of its key and that of
  its value, of which only the ones that are asked for may fail.
\<close>

type_synonym field_results = "bool \<times> (string + json) \<times> (string + json)"

fun CreateSingletonMap :: "field_results \<Rightarrow> string + json option" where
  "CreateSingletonMap (function_value, key, value) =
     (if function_value then Inr None
      else bindE key (\<lambda>k. bindE value (\<lambda>v.
        Inr (Some (json_object [(''type'', JString ''singleton_map''), (''key'', k), (''value'', v)])))))"

fun is_some :: "'a option \<Rightarrow> bool" where
  "is_some None = False"
| "is_some (Some _) = True"

definition map_expression :: "field_results list \<Rightarrow> string + json" where
  "map_expression entries =
     (case entries of
        [] \<Rightarrow> Inr kEmptyMap_json
      | [entry] \<Rightarrow>
          bindE (CreateSingletonMap entry) (\<lambda>jmap.
            Inr (case jmap of Some j \<Rightarrow> j | None \<Rightarrow> kEmptyMap_json))
      | _ \<Rightarrow>
          bindE (collect (map CreateSingletonMap entries)) (\<lambda>jmaps.
            Inr (json_object [(''type'', JString ''map_union''), (''$1'', JArray (map the (filter is_some jmaps)))])))"

text \<open>A literal map: the name of each field if it is literal, with its value.\<close>

fun literal_map :: "(string \<times> json) list \<Rightarrow> (string option \<times> field_results) list \<Rightarrow> string + json" where
  "literal_map root [] = Inr (JObject root)"
| "literal_map root ((None, _) # entries) = Inr JNull"
| "literal_map root ((Some name, function_value, _, value) # entries) =
     (if function_value then literal_map root entries
      else bindE value (\<lambda>v. literal_map (map_put name v root) entries))"

section \<open>The visitor\<close>

definition visitor_for :: "VerbatimType \<Rightarrow> VerbatimType \<Rightarrow> VerbatimType" where
  "visitor_for vtype next_vtype =
     (if vtype = next_vtype \<or> vtype = VerbatimFull then vtype else next_vtype)"

definition unless_json_only :: "bool \<Rightarrow> string + json \<Rightarrow> string + json" where
  "unless_json_only json_only r = (if json_only then Inl ''not allowed'' else r)"

definition ref_json :: "RefData \<Rightarrow> json" where
  "ref_json data =
     (let target = (case ref_target data of Some t \<Rightarrow> t | None \<Rightarrow> [])
      in if ref_type data = RefLocal then JString target
         else JArray ((if ref_type data = RefExt
                       then [JString ''@'', JString (case ref_repo data of Some r \<Rightarrow> r | None \<Rightarrow> [])]
                       else if ref_type data = RefRel then [JString ''./''] else []) @
                      [JString (ref_module data), JString target]))"

text \<open>What a visitor with these settings makes of a node.\<close>

fun visit_json :: "VerbatimType \<Rightarrow> bool \<Rightarrow> ast \<Rightarrow> string + json" where
  "visit_json v json_only (VerbatimNode b expr vtype) =
     (if json_only then Inl ''not allowed'' else visit_json (visitor_for v vtype) json_only expr)"
| "visit_json v json_only (ListNode b nodes) =
     bindE (collect (map (visit_json (visitor_for v VerbatimNone) json_only) nodes)) (\<lambda>js. Inr (JArray js))"
| "visit_json v json_only (MapNode b entries) =
     (let rs = map (\<lambda>(key, value).
                 (is_FuncNode value, visit_json (visitor_for v VerbatimNone) json_only key,
                  visit_json (visitor_for v VerbatimNone) json_only value)) entries
      in if \<not> json_only \<and> v = VerbatimNone then map_expression rs
         else literal_map [] (zip (map (\<lambda>(key, value). string_value key) entries) rs))"
| "visit_json v json_only (BoolNode b x) = Inr (JBool x)"
| "visit_json v json_only (StringNode b x) = Inr (JString x)"
| "visit_json v json_only (NumberNode b x) = Inr (JFloat x)"
| "visit_json v json_only (NullNode b) = Inr JNull"
| "visit_json v json_only (VarNode b name default_expr) =
     unless_json_only json_only
       (bindE (collect_option (map_option (visit_json (visitor_for v VerbatimNone) json_only) default_expr)) (\<lambda>d.
          Inr (json_object ([(''type'', JString ''var''), (''name'', JString name)] @
            (case d of None \<Rightarrow> [] | Some j \<Rightarrow> [(''default'', j)])))))"
| "visit_json v json_only (IfNode b cond then_expr else_expr) =
     unless_json_only json_only
       (bindE (visit_json (visitor_for v VerbatimNone) json_only cond) (\<lambda>c.
        bindE (collect_option (map_option (visit_json (visitor_for v VerbatimNone) json_only) then_expr)) (\<lambda>t.
        bindE (collect_option (map_option (visit_json (visitor_for v VerbatimNone) json_only) else_expr)) (\<lambda>e.
          Inr (json_object ([(''type'', JString ''if''), (''cond'', c)] @
            (case t of None \<Rightarrow> [] | Some j \<Rightarrow> [(''then'', j)]) @
            (case e of None \<Rightarrow> [] | Some j \<Rightarrow> [(''else'', j)])))))))"
| "visit_json v json_only (ForEachNode b var rng body) =
     unless_json_only json_only
       (bindE (visit_json (visitor_for v VerbatimNone) json_only rng) (\<lambda>r.
        bindE (visit_json (visitor_for v VerbatimNone) json_only body) (\<lambda>e.
          Inr (json_object [(''type'', JString ''foreach''), (''var'', JString var), (''range'', r), (''body'', e)]))))"
| "visit_json v json_only (ZipWithNode b var1 var2 range1 range2 body) =
     unless_json_only json_only
       (bindE (visit_json (visitor_for v VerbatimNone) json_only range1) (\<lambda>r1.
        bindE (visit_json (visitor_for v VerbatimNone) json_only range2) (\<lambda>r2.
        bindE (visit_json (visitor_for v VerbatimNone) json_only body) (\<lambda>e.
          Inr (json_object [(''type'', JString ''zip_with''), (''var_1'', JString var1), (''var_2'', JString var2),
            (''range_1'', r1), (''range_2'', r2), (''body'', e)])))))"
| "visit_json v json_only (FoldLeftNode b iter_var accu_var init rng body) =
     unless_json_only json_only
       (bindE (visit_json (visitor_for v VerbatimNone) json_only init) (\<lambda>i.
        bindE (visit_json (visitor_for v VerbatimNone) json_only rng) (\<lambda>r.
        bindE (visit_json (visitor_for v VerbatimNone) json_only body) (\<lambda>e.
          Inr (json_object [(''type'', JString ''foldl''), (''var'', JString iter_var),
            (''accum_var'', JString accu_var), (''start'', i), (''range'', r), (''body'', e)])))))"
| "visit_json v json_only (RefNode b data) = Inr (ref_json data)"
| "visit_json v json_only _ = Inl ''Node type cannot be serialized.''"

text \<open>\<^verbatim>\<open>ASTToJsonVisitor{vtype, json_only}.ToJson(node)\<close>\<close>

definition ASTToJson :: "VerbatimType \<Rightarrow> bool \<Rightarrow> ast \<Rightarrow> string + json" where
  "ASTToJson vtype json_only node = visit_json (visitor_for vtype VerbatimNone) json_only node"

section \<open>Equality of JSON values\<close>

text \<open>
  \<^verbatim>\<open>operator==\<close> of the library on values of the same kind; numbers are compared as numbers, so
  that a value that is not a number differs from itself.
\<close>

definition double_eq :: "64 word \<Rightarrow> 64 word \<Rightarrow> bool" where
  "double_eq x y \<longleftrightarrow>
     decode_double x \<noteq> NaN \<and> decode_double y \<noteq> NaN \<and> (x = y \<or> double_is_zero x \<and> double_is_zero y)"

fun json_equal :: "json \<Rightarrow> json \<Rightarrow> bool" where
  "json_equal JNull JNull = True"
| "json_equal (JBool a) (JBool b) = (a = b)"
| "json_equal (JUnsigned a) (JUnsigned b) = (a = b)"
| "json_equal (JInteger a) (JInteger b) = (a = b)"
| "json_equal (JFloat a) (JFloat b) = double_eq a b"
| "json_equal (JString a) (JString b) = (a = b)"
| "json_equal (JArray []) (JArray []) = True"
| "json_equal (JArray (a # as)) (JArray (b # bs)) = (json_equal a b \<and> json_equal (JArray as) (JArray bs))"
| "json_equal (JObject []) (JObject []) = True"
| "json_equal (JObject ((k, a) # as)) (JObject ((l, b) # bs)) =
     (k = l \<and> json_equal a b \<and> json_equal (JObject as) (JObject bs))"
| "json_equal _ _ = False"

end
