(* ===== verification/Jst_BuiltIn.thy ===== *)
theory Jst_BuiltIn
  imports Jst_Render Jst_Parser
begin

text \<open>
  The builtin functions of the jst language: \<^verbatim>\<open>src/buildtool/jstlang/ast/builtin_functions.{hpp,cpp}\<close>.
  A function is computed at once where its arguments are literal, and becomes a verbatim map, an
  expression for the evaluator, where they are not. Whether two pointers are the same is not a
  question about trees: the environment answers it, and what it answers yes to are equal trees.
  So does it for conversions of numbers whose result the language leaves open.
\<close>

section \<open>Environment and failures\<close>

record inline_lib =
  il_json :: nlohmann
  same_node :: "ast \<Rightarrow> ast \<Rightarrow> bool"
  il_lround_outside :: "64 word \<Rightarrow> 64 word"
  il_int_outside :: "64 word \<Rightarrow> int"

text \<open>An exception of the inliner with its message, one of the library, or the bound of the model.\<close>

datatype inline_error = InlineError string | LengthError string | InlineFuel

type_synonym 'a inlined = "inline_error + 'a"

type_synonym call_args = "(string option \<times> ast option) list"

definition MakeMessage :: "Location \<Rightarrow> string \<Rightarrow> string" where
  "MakeMessage loc message =
     (if loc_file loc \<noteq> [] then loc_file loc @ '':'' else []) @
     to_string_nat (loc_line loc) @ '':'' @ to_string_nat (loc_column loc) @ '': '' @ message"

definition BuiltInError :: "Location \<Rightarrow> string \<Rightarrow> 'a inlined" where
  "BuiltInError loc message = Inl (InlineError (MakeMessage loc message))"

section \<open>Parameters\<close>

record ExpectedParameter =
  Name :: string
  Types :: "ValueType list"
  Mandatory :: bool

definition expect :: "string \<Rightarrow> ValueType list \<Rightarrow> bool \<Rightarrow> ExpectedParameter" where
  "expect name types mandatory = \<lparr>Name = name, Types = types, Mandatory = mandatory\<rparr>"

type_synonym NamedParams = "(string \<times> ast option) list"

text \<open>The names of the arguments: nameless ones get those of the expected parameters in order.\<close>

fun name_arguments :: "ExpectedParameter list \<Rightarrow> call_args \<Rightarrow> NamedParams \<Rightarrow> string + NamedParams" where
  "name_arguments unnamed [] named = Inr named"
| "name_arguments unnamed ((given, node) # args) named =
     bindE (case given of
              Some name \<Rightarrow> Inr (name, unnamed)
            | None \<Rightarrow> (case unnamed of
                         [] \<Rightarrow> Inl ''Too many nameless parameters''
                       | e # es \<Rightarrow> Inr (Name e, es))) (\<lambda>(name, unnamed).
     if map_of named name \<noteq> None then Inl (''Parameter '' @ [CHR 0x22] @ name @ [CHR 0x22] @ '' is duplicated'')
     else name_arguments unnamed args ((name, node) # named))"

fun check_expected :: "ExpectedParameter list \<Rightarrow> NamedParams \<Rightarrow> string + NamedParams" where
  "check_expected [] named = Inr named"
| "check_expected (e # es) named =
     (case map_of named (Name e) of
        Some (Some node) \<Rightarrow>
          if Types e \<noteq> [] \<and> EvalType node \<notin> set (Types e)
          then Inl ([CHR 0x22] @ Name e @ [CHR 0x22] @ '' does not accept argument type '' @
                    TypeToString (EvalType node) @ ''.'')
          else check_expected es named
      | _ \<Rightarrow>
          if Mandatory e
          then Inl (''An expected mandatory parameter '' @ [CHR 0x22] @ Name e @ [CHR 0x22] @ '' is missing.'')
          else check_expected es named)"

definition MakeNamedParameters :: "call_args \<Rightarrow> ExpectedParameter list \<Rightarrow> string + NamedParams" where
  "MakeNamedParameters source_args expected =
     bindE (name_arguments expected source_args []) (check_expected expected)"

text \<open>\<^verbatim>\<open>RetrieveAs\<close> for any node, and for the two classes it is used with.\<close>

definition RetrieveAs :: "NamedParams \<Rightarrow> string \<Rightarrow> ast option" where
  "RetrieveAs named name = (case map_of named name of Some (Some node) \<Rightarrow> Some node | _ \<Rightarrow> None)"

definition RetrieveString :: "NamedParams \<Rightarrow> string \<Rightarrow> ast option" where
  "RetrieveString named name =
     (case RetrieveAs named name of
        Some node \<Rightarrow> if string_value node \<noteq> None then Some node else None
      | None \<Rightarrow> None)"

definition RetrieveFunc :: "NamedParams \<Rightarrow> string \<Rightarrow> ast option" where
  "RetrieveFunc named name =
     (case RetrieveAs named name of
        Some node \<Rightarrow> if is_FuncNode node then Some node else None
      | None \<Rightarrow> None)"

text \<open>The beginning of every builtin function, and a parameter it cannot do without.\<close>

definition with_parameters ::
  "Location \<Rightarrow> string \<Rightarrow> call_args \<Rightarrow> ExpectedParameter list \<Rightarrow> (NamedParams \<Rightarrow> 'a inlined) \<Rightarrow> 'a inlined" where
  "with_parameters loc fname args expected k =
     (case MakeNamedParameters args expected of
        Inl what \<Rightarrow> BuiltInError loc (fname @ '': '' @ what)
      | Inr named \<Rightarrow> k named)"

definition required :: "Location \<Rightarrow> string \<Rightarrow> ast option \<Rightarrow> (ast \<Rightarrow> 'a inlined) \<Rightarrow> 'a inlined" where
  "required loc message node k = (case node of None \<Rightarrow> BuiltInError loc message | Some n \<Rightarrow> k n)"

definition missing_parameter :: "string \<Rightarrow> string \<Rightarrow> string" where
  "missing_parameter fname param = fname @ '': Missing mandatory parameter '' @ [CHR 0x22] @ param @ [CHR 0x22]"

section \<open>Nodes\<close>

definition kNullNode :: ast where "kNullNode = mk_NullNode no_location"
definition kEmptyMap_node :: ast where "kEmptyMap_node = mk_MapNode no_location []"
definition kEmptyString :: ast where "kEmptyString = mk_StringNode no_location []"
definition kDotPath :: ast where "kDotPath = mk_StringNode no_location ''.''"
definition kFalseBool :: ast where "kFalseBool = mk_BoolNode no_location False"
definition kPrefixString :: ast where "kPrefixString = mk_StringNode no_location [CHR 0x5C]"

fun list_items :: "ast \<Rightarrow> ast list option" where
  "list_items (ListNode _ nodes) = Some nodes"
| "list_items _ = None"

fun map_fields :: "ast \<Rightarrow> (ast \<times> ast) list option" where
  "map_fields (MapNode _ entries) = Some entries"
| "map_fields _ = None"

fun number_value :: "ast \<Rightarrow> 64 word option" where
  "number_value (NumberNode _ x) = Some x"
| "number_value _ = None"

fun is_NullNode :: "ast \<Rightarrow> bool" where
  "is_NullNode (NullNode _) = True"
| "is_NullNode _ = False"

definition field :: "Location \<Rightarrow> string \<Rightarrow> ast \<Rightarrow> ast \<times> ast" where
  "field loc name value = (mk_StringNode loc name, value)"

text \<open>The expression of a builtin function for the evaluator.\<close>

definition runtime_call :: "Location \<Rightarrow> string \<Rightarrow> (ast \<times> ast) list \<Rightarrow> ValueType \<Rightarrow> ast" where
  "runtime_call loc type entries eval_type =
     mk_VerbatimNode loc (mk_MapNode loc (field loc ''type'' (mk_StringNode loc type) # entries))
       VerbatimFlat (Some eval_type)"

definition optional_field :: "Location \<Rightarrow> string \<Rightarrow> ast option \<Rightarrow> (ast \<times> ast) list" where
  "optional_field loc name node = (case node of None \<Rightarrow> [] | Some n \<Rightarrow> [field loc name n])"

section \<open>Comparison\<close>

definition NodeToJson :: "ast \<Rightarrow> bool \<Rightarrow> json option" where
  "NodeToJson node json_only =
     (case ASTToJson VerbatimFull json_only node of Inl _ \<Rightarrow> None | Inr j \<Rightarrow> Some j)"

definition ProduceSameJSON :: "ast \<Rightarrow> ast \<Rightarrow> bool \<Rightarrow> bool option" where
  "ProduceSameJSON lhs rhs json_only =
     (case (NodeToJson lhs json_only, NodeToJson rhs json_only) of
        (Some l, Some r) \<Rightarrow> Some (json_equal l r)
      | _ \<Rightarrow> None)"

fun variant_index :: "ast \<Rightarrow> nat" where
  "variant_index (LetNode _ _ _ _) = 0"
| "variant_index (FuncNode _ _ _) = 1"
| "variant_index (BuiltinNode _ _) = 2"
| "variant_index (CallNode _ _ _) = 3"
| "variant_index (ForeignNode _ _) = 4"
| "variant_index (VerbatimNode _ _ _) = 5"
| "variant_index (ListNode _ _) = 6"
| "variant_index (MapNode _ _) = 7"
| "variant_index (BoolNode _ _) = 8"
| "variant_index (StringNode _ _) = 9"
| "variant_index (NumberNode _ _) = 10"
| "variant_index (NullNode _) = 11"
| "variant_index (VarNode _ _ _) = 12"
| "variant_index (IfNode _ _ _ _) = 13"
| "variant_index (ForEachNode _ _ _ _) = 14"
| "variant_index (ZipWithNode _ _ _ _ _ _) = 15"
| "variant_index (FoldLeftNode _ _ _ _ _ _) = 16"
| "variant_index (UnaryOperationNode _ _ _) = 17"
| "variant_index (LookupNode _ _ _ _) = 18"
| "variant_index (BinaryOperationNode _ _ _ _) = 19"
| "variant_index (RefNode _ _) = 20"

definition CheckEqual :: "inline_lib \<Rightarrow> ast \<Rightarrow> ast \<Rightarrow> bool option" where
  "CheckEqual L lhs rhs =
     (if same_node L lhs rhs then Some True
      else if EvalType lhs \<noteq> EvalType rhs \<and> EvalType lhs \<noteq> TyAny \<and> EvalType rhs \<noteq> TyAny then Some False
      else if variant_index lhs = variant_index rhs
        then (case ProduceSameJSON lhs rhs True of
                Some verdict \<Rightarrow> Some verdict
              | None \<Rightarrow> if ProduceSameJSON lhs rhs False = Some True then Some True else None)
      else None)"

section \<open>Functions\<close>

definition BuiltIn_env :: "Location \<Rightarrow> call_args \<Rightarrow> ast inlined" where
  "BuiltIn_env loc args =
     with_parameters loc ''env'' args [expect ''name'' [TyString] True, expect ''default'' [] False] (\<lambda>named.
     required loc (missing_parameter ''env'' ''name'') (RetrieveString named ''name'') (\<lambda>name_node.
       Inr (mk_VarNode loc (the (string_value name_node)) (RetrieveAs named ''default''))))"

text \<open>
  The lookup in a literal map from its last field on: a computed name stops it, as it might be
  the one that is looked for.
\<close>

datatype lookup_result = Found ast | NotFound | Undecided

fun lookup_field :: "string \<Rightarrow> (ast \<times> ast) list \<Rightarrow> lookup_result" where
  "lookup_field name [] = NotFound"
| "lookup_field name ((key, value) # entries) =
     (case string_value key of
        None \<Rightarrow> Undecided
      | Some s \<Rightarrow>
          if s = name then (if is_NullNode value then NotFound else Found value)
          else lookup_field name entries)"

definition BuiltIn_get :: "inline_lib \<Rightarrow> Location \<Rightarrow> call_args \<Rightarrow> ast inlined" where
  "BuiltIn_get L loc args =
     with_parameters loc ''get'' args
       [expect ''key'' [TyAny, TyString] True, expect ''map'' [TyAny, TyMap] True, expect ''default'' [] False] (\<lambda>named.
     required loc (missing_parameter ''get'' ''key'') (RetrieveAs named ''key'') (\<lambda>key_node.
     required loc (missing_parameter ''get'' ''map'') (RetrieveAs named ''map'') (\<lambda>map_node.
       let given = RetrieveAs named ''default'';
           default_node = (case given of None \<Rightarrow> kNullNode | Some d \<Rightarrow> d);
           result = (case (map_fields map_node, string_value key_node) of
                       (Some entries, Some name) \<Rightarrow> lookup_field name (rev entries)
                     | _ \<Rightarrow> Undecided)
       in case result of
            Found value \<Rightarrow> Inr value
          | NotFound \<Rightarrow> Inr default_node
          | Undecided \<Rightarrow>
              let map_node = (if EvalType map_node = TyAny
                              then mk_IfNode loc map_node (Some map_node) (Some kEmptyMap_node) else map_node)
              in Inr (runtime_call loc ''lookup''
                   ([field loc ''key'' key_node, field loc ''map'' map_node] @
                    (case given of
                       None \<Rightarrow> []
                     | Some d \<Rightarrow> if same_node L d kNullNode then [] else [field loc ''default'' d])) TyAny))))"

text \<open>The strings of literal items; nothing if one is not literal, unless it cannot be a string.\<close>

fun string_items :: "Location \<Rightarrow> string \<Rightarrow> ast list \<Rightarrow> string list option inlined" where
  "string_items loc message [] = Inr (Some [])"
| "string_items loc message (n # ns) =
     (if EvalType n \<notin> {TyAny, TyString} then BuiltInError loc (message @ TypeToString (EvalType n))
      else case string_value n of
             None \<Rightarrow> Inr None
           | Some s \<Rightarrow> bindE (string_items loc message ns) (\<lambda>r. Inr (map_option (\<lambda>ss. s # ss) r)))"

text \<open>The separator is put in only when there is something in front of it.\<close>

fun join_loop :: "string \<Rightarrow> string \<Rightarrow> string list \<Rightarrow> string" where
  "join_loop sep out [] = out"
| "join_loop sep out (s # ss) = join_loop sep ((if out \<noteq> [] then out @ sep else out) @ s) ss"

definition BuiltIn_join :: "Location \<Rightarrow> call_args \<Rightarrow> ast inlined" where
  "BuiltIn_join loc args =
     with_parameters loc ''join'' args
       [expect ''items'' [TyAny, TyList] True, expect ''sep'' [TyAny, TyString] False] (\<lambda>named.
     required loc (missing_parameter ''join'' ''items'') (RetrieveAs named ''items'') (\<lambda>items_node.
       let separator = RetrieveAs named ''sep'';
           literal = (case separator of None \<Rightarrow> Some [] | Some n \<Rightarrow> string_value n)
       in bindE (case (list_items items_node, literal) of
                   (Some nodes, Some _) \<Rightarrow> string_items loc ''join: List may not contain items of type '' nodes
                 | _ \<Rightarrow> Inr None) (\<lambda>strings.
          case (strings, literal) of
            (Some ss, Some sep) \<Rightarrow> Inr (mk_StringNode no_location (join_loop sep [] ss))
          | _ \<Rightarrow> Inr (runtime_call loc ''join''
                   (field loc ''$1'' items_node # optional_field loc ''separator'' separator) TyString))))"

fun flatten_items :: "Location \<Rightarrow> ast list \<Rightarrow> ast list \<Rightarrow> ast list option inlined" where
  "flatten_items loc output [] = Inr (Some output)"
| "flatten_items loc output (n # ns) =
     (case list_items n of
        Some nodes \<Rightarrow> flatten_items loc (output @ nodes) ns
      | None \<Rightarrow>
          if EvalType n \<notin> {TyAny, TyList}
          then BuiltInError loc (''flatten: List may not contain items of type '' @ TypeToString (EvalType n))
          else Inr None)"

definition BuiltIn_flatten :: "Location \<Rightarrow> call_args \<Rightarrow> ast inlined" where
  "BuiltIn_flatten loc args =
     with_parameters loc ''flatten'' args [expect ''lists'' [TyAny, TyList] True] (\<lambda>named.
     required loc (missing_parameter ''flatten'' ''lists'') (RetrieveAs named ''lists'') (\<lambda>lists_node.
     bindE (case list_items lists_node of None \<Rightarrow> Inr None | Some nodes \<Rightarrow> flatten_items loc [] nodes) (\<lambda>output.
       case output of
         Some nodes \<Rightarrow> Inr (mk_ListNode no_location nodes)
       | None \<Rightarrow> Inr (runtime_call loc ''++'' [field loc ''$1'' lists_node] TyList))))"

text \<open>Whether the items of a union are literal maps, up to the first that is not.\<close>

fun literal_maps :: "Location \<Rightarrow> ast list \<Rightarrow> (ast \<times> ast) list list option inlined" where
  "literal_maps loc [] = Inr (Some [])"
| "literal_maps loc (n # ns) =
     (case map_fields n of
        Some entries \<Rightarrow> bindE (literal_maps loc ns) (\<lambda>r. Inr (map_option (\<lambda>ms. entries # ms) r))
      | None \<Rightarrow>
          if EvalType n \<notin> {TyAny, TyMap}
          then BuiltInError loc (''union: List may not contain items of type '' @ TypeToString (EvalType n))
          else Inr None)"

fun field_pos :: "string \<Rightarrow> (ast \<times> ast) list \<Rightarrow> nat option" where
  "field_pos name [] = None"
| "field_pos name ((key, value) # entries) =
     (if string_value key = Some name then Some 0 else map_option Suc (field_pos name entries))"

fun union_fields :: "inline_lib \<Rightarrow> Location \<Rightarrow> bool \<Rightarrow> (ast \<times> ast) list \<Rightarrow> (ast \<times> ast) list \<Rightarrow> (ast \<times> ast) list option inlined" where
  "union_fields L loc disjoint output [] = Inr (Some output)"
| "union_fields L loc disjoint output ((key, value) # entries) =
     (case string_value key of
        None \<Rightarrow> Inr None
      | Some name \<Rightarrow>
          (case field_pos name output of
             None \<Rightarrow> union_fields L loc disjoint (output @ [(key, value)]) entries
           | Some i \<Rightarrow>
               if disjoint
               then (case CheckEqual L value (snd (output ! i)) of
                       None \<Rightarrow> Inr None
                     | Some False \<Rightarrow>
                         BuiltInError loc (''disjoint union: Got conflicting field name '' @
                           [CHR 0x22] @ name @ [CHR 0x22])
                     | Some True \<Rightarrow> union_fields L loc disjoint output entries)
               else union_fields L loc disjoint (output[i := (fst (output ! i), value)]) entries))"

fun union_maps :: "inline_lib \<Rightarrow> Location \<Rightarrow> bool \<Rightarrow> (ast \<times> ast) list \<Rightarrow> (ast \<times> ast) list list \<Rightarrow> (ast \<times> ast) list option inlined" where
  "union_maps L loc disjoint output [] = Inr (Some output)"
| "union_maps L loc disjoint output (m # ms) =
     bindE (union_fields L loc disjoint output m) (\<lambda>r.
       case r of None \<Rightarrow> Inr None | Some output \<Rightarrow> union_maps L loc disjoint output ms)"

definition BuiltIn_map_union :: "inline_lib \<Rightarrow> Location \<Rightarrow> call_args \<Rightarrow> ast inlined" where
  "BuiltIn_map_union L loc args =
     with_parameters loc ''union'' args [expect ''maps'' [TyAny, TyList] True, expect ''disjoint'' [] False] (\<lambda>named.
     required loc (missing_parameter ''union'' ''maps'') (RetrieveAs named ''maps'') (\<lambda>maps_node.
       let disjoint_node = (case RetrieveAs named ''disjoint'' of None \<Rightarrow> kNullNode | Some d \<Rightarrow> d)
       in case TruthValue disjoint_node of
            None \<Rightarrow> BuiltInError loc (''union: Parameter '' @ [CHR 0x22] @ ''disjoint'' @ [CHR 0x22] @ '' must be a literal.'')
          | Some disjoint \<Rightarrow>
              bindE (case list_items maps_node of None \<Rightarrow> Inr None | Some nodes \<Rightarrow> literal_maps loc nodes) (\<lambda>maps.
              bindE (case maps of None \<Rightarrow> Inr None | Some ms \<Rightarrow> union_maps L loc disjoint [] ms) (\<lambda>output.
                case output of
                  Some entries \<Rightarrow> Inr (mk_MapNode no_location entries)
                | None \<Rightarrow> Inr (runtime_call loc (if disjoint then ''disjoint_map_union'' else ''map_union'')
                           [field loc ''$1'' maps_node] TyMap)))))"

definition BuiltIn_keys :: "Location \<Rightarrow> call_args \<Rightarrow> ast inlined" where
  "BuiltIn_keys loc args =
     with_parameters loc ''keys'' args [expect ''map'' [TyAny, TyMap] True] (\<lambda>named.
     required loc (missing_parameter ''keys'' ''map'') (RetrieveAs named ''map'') (\<lambda>map_node.
       case map_fields map_node of
         Some entries \<Rightarrow> Inr (mk_ListNode loc (map fst entries))
       | None \<Rightarrow> Inr (runtime_call loc ''keys'' [field loc ''$1'' map_node] TyList)))"

definition BuiltIn_fail :: "Location \<Rightarrow> call_args \<Rightarrow> ast inlined" where
  "BuiltIn_fail loc args =
     with_parameters loc ''fail'' args [expect ''msg'' [] True] (\<lambda>named.
     required loc (missing_parameter ''fail'' ''msg'') (RetrieveAs named ''msg'') (\<lambda>msg_node.
       Inr (runtime_call loc ''fail'' [field loc ''msg'' msg_node] TyAny)))"

definition BuiltIn_json_encode :: "inline_lib \<Rightarrow> Location \<Rightarrow> call_args \<Rightarrow> ast inlined" where
  "BuiltIn_json_encode L loc args =
     with_parameters loc ''json_encode'' args [expect ''data'' [] True] (\<lambda>named.
     required loc (missing_parameter ''json_encode'' ''data'') (RetrieveAs named ''data'') (\<lambda>data_node.
       case NodeToJson data_node True of
         Some j \<Rightarrow> (case nl_dump (il_json L) j of
                      Inl what \<Rightarrow> Inl (InlineError what)
                    | Inr s \<Rightarrow> Inr (mk_StringNode loc s))
       | None \<Rightarrow> Inr (runtime_call loc ''json_encode'' [field loc ''$1'' data_node] TyString)))"

text \<open>The four functions for names of files differ in a word.\<close>

definition file_reference :: "string \<Rightarrow> string \<Rightarrow> string \<Rightarrow> string \<Rightarrow> Location \<Rightarrow> call_args \<Rightarrow> ast inlined" where
  "file_reference fname complaint param marker loc args =
     with_parameters loc fname args [expect param [TyString] True] (\<lambda>named.
     required loc (missing_parameter complaint param) (RetrieveString named param) (\<lambda>node.
       Inr (mk_ListNode loc [mk_StringNode loc marker, mk_NullNode loc, node])))"

definition BuiltIn_file :: "Location \<Rightarrow> call_args \<Rightarrow> ast inlined" where
  "BuiltIn_file = file_reference ''file'' ''file'' ''path'' ''FILE''"

definition BuiltIn_symlink :: "Location \<Rightarrow> call_args \<Rightarrow> ast inlined" where
  "BuiltIn_symlink = file_reference ''symlink'' ''file'' ''path'' ''SYMLINK''"

definition BuiltIn_tree :: "Location \<Rightarrow> call_args \<Rightarrow> ast inlined" where
  "BuiltIn_tree = file_reference ''tree'' ''tree'' ''path'' ''TREE''"

definition BuiltIn_glob :: "Location \<Rightarrow> call_args \<Rightarrow> ast inlined" where
  "BuiltIn_glob = file_reference ''glob'' ''glob'' ''pattern'' ''GLOB''"

section \<open>Numbers\<close>

text \<open>\<^verbatim>\<open>std::stol\<close>; \<open>None\<close> stands for its exceptions.\<close>

definition stol :: "string \<Rightarrow> int option" where
  "stol str =
     (let str = dropWhile isspace str;
          negative = (case str of c # _ \<Rightarrow> c = CHR ''-'' | [] \<Rightarrow> False);
          str = (case str of c # cs \<Rightarrow> if c = CHR ''-'' \<or> c = CHR ''+'' then cs else str | [] \<Rightarrow> []);
          digits = takeWhile isdigit str;
          i = (if negative then - digits_value digits else digits_value digits)
      in if digits = [] \<or> i < - (2 ^ 63) \<or> 2 ^ 63 \<le> i then None else Some i)"

text \<open>\<^verbatim>\<open>std::stod\<close> on any string, in the locale of the language; \<open>None\<close> stands for its exceptions.\<close>

definition hex_digit_value :: "char \<Rightarrow> int option" where
  "hex_digit_value c =
     (let n = (of_char c :: int)
      in if 48 \<le> n \<and> n \<le> 57 then Some (n - 48)
         else if 97 \<le> n \<and> n \<le> 102 then Some (n - 87)
         else if 65 \<le> n \<and> n \<le> 70 then Some (n - 55) else None)"

definition to_lower :: "char \<Rightarrow> char" where
  "to_lower c = (let n = (of_char c :: nat) in if 65 \<le> n \<and> n \<le> 90 then char_of (n + 32) else c)"

text \<open>Digits with an optional point, and the rest: the digits, and how many follow the point.\<close>

definition take_digits :: "(char \<Rightarrow> bool) \<Rightarrow> string \<Rightarrow> string \<times> nat \<times> string" where
  "take_digits digit str =
     (let whole = takeWhile digit str; rest = dropWhile digit str
      in case rest of
           c # cs \<Rightarrow>
             if c = CHR ''.'' \<and> whole @ takeWhile digit cs \<noteq> []
             then (whole @ takeWhile digit cs, length (takeWhile digit cs), dropWhile digit cs)
             else (whole, 0, rest)
         | [] \<Rightarrow> (whole, 0, rest))"

definition take_exponent :: "char \<Rightarrow> string \<Rightarrow> int" where
  "take_exponent marker str =
     (case str of
        c # cs \<Rightarrow>
          if to_lower c = marker
          then let (negative, cs) = (case cs of
                     d # ds \<Rightarrow> if d = CHR ''-'' then (True, ds) else if d = CHR ''+'' then (False, ds) else (False, cs)
                   | [] \<Rightarrow> (False, []));
                   e = digits_value (takeWhile isdigit cs)
               in if negative then - e else e
          else 0
      | [] \<Rightarrow> 0)"

definition scaled_double :: "int \<Rightarrow> int \<Rightarrow> int \<Rightarrow> double option" where
  "scaled_double base n e =
     (if 0 \<le> e then nearest_double (n * base ^ nat e) 1 else nearest_double n (base ^ nat (- e)))"

definition signed_double :: "bool \<Rightarrow> double option \<Rightarrow> 64 word option" where
  "signed_double negative d =
     (case d of None \<Rightarrow> None | Some (Double m e) \<Rightarrow> Some (encode_double negative (nat m) e))"

definition stod_any :: "string \<Rightarrow> 64 word option" where
  "stod_any str =
     (let str = dropWhile isspace str;
          negative = (case str of c # _ \<Rightarrow> c = CHR ''-'' | [] \<Rightarrow> False);
          str = (case str of c # cs \<Rightarrow> if c = CHR ''-'' \<or> c = CHR ''+'' then cs else str | [] \<Rightarrow> []);
          lower = map to_lower str;
          hex = (\<lambda>c. hex_digit_value c \<noteq> None);
          (hs, hk, hrest) = take_digits hex (drop 2 str);
          (ds, k, rest) = take_digits isdigit str
      in if take 3 lower = ''inf'' then Some (infinity negative)
         else if take 3 lower = ''nan'' then Some quiet_nan
         else if take 2 lower = ''0x'' \<and> hs \<noteq> []
           then signed_double negative
                  (scaled_double 2 (foldl (\<lambda>n c. 16 * n + the (hex_digit_value c)) 0 hs)
                     (take_exponent (CHR ''p'') hrest - 4 * int hk))
         else if ds \<noteq> []
           then signed_double negative (scaled_double 10 (digits_value ds) (take_exponent (CHR ''e'') rest - int k))
         else None)"

definition NodeToNumber :: "ast \<Rightarrow> 64 word option" where
  "NodeToNumber node =
     (case number_value node of
        Some x \<Rightarrow> Some x
      | None \<Rightarrow>
          (case string_value node of
             Some s \<Rightarrow> Some (case stod_any s of Some x \<Rightarrow> x | None \<Rightarrow> 0)
           | None \<Rightarrow>
               if variant_index node \<in> {11, 8, 6, 7} then Some 0
               else if EvalType node \<notin> {TyAny, TyNumber, TyString} then Some 0 else None))"

text \<open>\<^verbatim>\<open>std::lround\<close>, and \<^verbatim>\<open>static_cast<int>(std::round(x))\<close>.\<close>

definition il_lround :: "inline_lib \<Rightarrow> 64 word \<Rightarrow> int" where
  "il_lround L x = sint (case lround x of Some w \<Rightarrow> w | None \<Rightarrow> il_lround_outside L x)"

definition round_to_int :: "inline_lib \<Rightarrow> 64 word \<Rightarrow> int" where
  "round_to_int L x =
     (case lround x of
        Some w \<Rightarrow> if - (2 ^ 31) \<le> sint w \<and> sint w < 2 ^ 31 then sint w else il_int_outside L x
      | None \<Rightarrow> il_int_outside L x)"

definition list_index :: "inline_lib \<Rightarrow> ast \<Rightarrow> int option" where
  "list_index L node =
     (case number_value node of
        Some x \<Rightarrow> Some (il_lround L x)
      | None \<Rightarrow>
          (case string_value node of
             Some s \<Rightarrow> Some (case stol s of Some i \<Rightarrow> i | None \<Rightarrow> 0)
           | None \<Rightarrow> None))"

definition BuiltIn_at :: "inline_lib \<Rightarrow> Location \<Rightarrow> call_args \<Rightarrow> ast inlined" where
  "BuiltIn_at L loc args =
     with_parameters loc ''at'' args
       [expect ''index'' [TyAny, TyString, TyNumber] True, expect ''list'' [TyAny, TyList] True,
        expect ''default'' [] False] (\<lambda>named.
     required loc (missing_parameter ''at'' ''index'') (RetrieveAs named ''index'') (\<lambda>index_node.
     required loc (missing_parameter ''at'' ''list'') (RetrieveAs named ''list'') (\<lambda>list_node.
       let given = RetrieveAs named ''default'';
           default_node = (case given of None \<Rightarrow> kNullNode | Some d \<Rightarrow> d)
       in case (list_items list_node, list_index L index_node) of
            (Some nodes, Some i) \<Rightarrow>
              let i = (if i < 0 then i + int (length nodes) else i)
              in Inr (if i < 0 \<or> int (length nodes) \<le> i then default_node else nodes ! nat i)
          | _ \<Rightarrow>
              Inr (runtime_call loc ''[]''
                ([field loc ''index'' index_node, field loc ''list'' list_node] @
                 (case given of
                    None \<Rightarrow> []
                  | Some d \<Rightarrow> if same_node L d kNullNode then [] else [field loc ''default'' d])) TyAny))))"

text \<open>The loops of \<^verbatim>\<open>all\<close> and \<^verbatim>\<open>any\<close>: a literal that decides wins, also behind one that is not literal.\<close>

fun find_truth :: "bool \<Rightarrow> bool \<Rightarrow> ast list \<Rightarrow> bool option" where
  "find_truth wanted non_static [] = (if non_static then None else Some (\<not> wanted))"
| "find_truth wanted non_static (n # ns) =
     (case TruthValue n of
        None \<Rightarrow> find_truth wanted True ns
      | Some truth \<Rightarrow> if truth = wanted then Some wanted else find_truth wanted non_static ns)"

definition junction :: "string \<Rightarrow> string \<Rightarrow> bool \<Rightarrow> Location \<Rightarrow> call_args \<Rightarrow> ast inlined" where
  "junction fname type wanted loc args =
     with_parameters loc fname args [expect ''args'' [TyAny, TyList] True] (\<lambda>named.
     required loc (missing_parameter fname ''args'') (RetrieveAs named ''args'') (\<lambda>args_node.
       case (case list_items args_node of None \<Rightarrow> None | Some nodes \<Rightarrow> find_truth wanted False nodes) of
         Some truth \<Rightarrow> Inr (mk_BoolNode loc truth)
       | None \<Rightarrow> Inr (runtime_call loc type [field loc ''$1'' args_node] TyBool)))"

definition BuiltIn_all :: "Location \<Rightarrow> call_args \<Rightarrow> ast inlined" where
  "BuiltIn_all = junction ''all'' ''and'' False"

definition BuiltIn_any :: "Location \<Rightarrow> call_args \<Rightarrow> ast inlined" where
  "BuiltIn_any = junction ''any'' ''or'' True"

fun fold_numbers ::
  "Location \<Rightarrow> string \<Rightarrow> (64 word \<Rightarrow> 64 word \<Rightarrow> 64 word) \<Rightarrow> 64 word \<Rightarrow> ast list \<Rightarrow> 64 word option inlined" where
  "fold_numbers loc message f acc [] = Inr (Some acc)"
| "fold_numbers loc message f acc (n # ns) =
     (case number_value n of
        Some x \<Rightarrow> fold_numbers loc message f (f acc x) ns
      | None \<Rightarrow>
          if EvalType n \<notin> {TyAny, TyNumber} then BuiltInError loc (message @ TypeToString (EvalType n))
          else Inr None)"

definition arithmetic ::
  "string \<Rightarrow> string \<Rightarrow> (64 word \<Rightarrow> 64 word \<Rightarrow> 64 word) \<Rightarrow> 64 word \<Rightarrow> Location \<Rightarrow> call_args \<Rightarrow> ast inlined" where
  "arithmetic fname type f start loc args =
     with_parameters loc fname args [expect ''numbers'' [TyAny, TyList] True] (\<lambda>named.
     required loc (missing_parameter fname ''numbers'') (RetrieveAs named ''numbers'') (\<lambda>numbers_node.
     bindE (case list_items numbers_node of
              None \<Rightarrow> Inr None
            | Some nodes \<Rightarrow> fold_numbers loc (fname @ '': List may not contain items of type '') f start nodes) (\<lambda>r.
       case r of
         Some x \<Rightarrow> Inr (mk_NumberNode loc x)
       | None \<Rightarrow> Inr (runtime_call loc type [field loc ''$1'' numbers_node] TyNumber))))"

definition BuiltIn_sum :: "Location \<Rightarrow> call_args \<Rightarrow> ast inlined" where
  "BuiltIn_sum = arithmetic ''sum'' ''+'' double_add (double_of_nat 0)"

definition BuiltIn_prod :: "Location \<Rightarrow> call_args \<Rightarrow> ast inlined" where
  "BuiltIn_prod = arithmetic ''prod'' ''*'' double_mult (double_of_nat 1)"

definition BuiltIn_eq :: "inline_lib \<Rightarrow> Location \<Rightarrow> call_args \<Rightarrow> ast inlined" where
  "BuiltIn_eq L loc args =
     with_parameters loc ''eq'' args [expect ''lhs'' [] True, expect ''rhs'' [] True] (\<lambda>named.
     required loc (missing_parameter ''eq'' ''lhs'') (RetrieveAs named ''lhs'') (\<lambda>lhs_node.
     required loc (missing_parameter ''eq'' ''rhs'') (RetrieveAs named ''rhs'') (\<lambda>rhs_node.
       case CheckEqual L lhs_node rhs_node of
         Some equal \<Rightarrow> Inr (mk_BoolNode loc equal)
       | None \<Rightarrow> Inr (runtime_call loc ''=='' [field loc ''$1'' lhs_node, field loc ''$2'' rhs_node] TyBool))))"

definition BuiltIn_negate :: "Location \<Rightarrow> call_args \<Rightarrow> ast inlined" where
  "BuiltIn_negate loc args =
     with_parameters loc ''not'' args [expect ''expr'' [] True] (\<lambda>named.
     required loc (missing_parameter ''not'' ''lhs'') (RetrieveAs named ''expr'') (\<lambda>expr_node.
       case TruthValue expr_node of
         Some truth \<Rightarrow> Inr (mk_BoolNode loc (\<not> truth))
       | None \<Rightarrow> Inr (runtime_call loc ''not'' [field loc ''$1'' expr_node] TyBool)))"

end
