(* ===== verification/Jst_BuiltIn_Table.thy ===== *)
theory Jst_BuiltIn_Table
  imports Jst_BuiltIn
begin

text \<open>
  The rest of the builtin functions, on lists, paths and maps, those that call the inliner again,
  and their table: \<^verbatim>\<open>src/buildtool/jstlang/ast/builtin_functions.{hpp,cpp}\<close>.
\<close>

section \<open>Functions that inline\<close>

text \<open>
  A function given as an argument becomes the body of a loop, which the inliner, the argument
  \<open>inline_callback\<close>, takes further.
\<close>

type_synonym inline_callback = "ast \<Rightarrow> ast inlined"

fun func_params :: "ast \<Rightarrow> string list" where
  "func_params (FuncNode _ params _) = map fst params"
| "func_params _ = []"

fun func_body :: "ast \<Rightarrow> ast" where
  "func_body (FuncNode _ _ body) = body"
| "func_body n = n"

definition no_function :: "string \<Rightarrow> string" where
  "no_function fname =
     fname @ '': Mandatory parameter '' @ [CHR 0x22] @ ''func'' @ [CHR 0x22] @ '' is missing or not a function''"

definition wrong_arity :: "string \<Rightarrow> string \<Rightarrow> string" where
  "wrong_arity fname arity =
     fname @ '': Parameter '' @ [CHR 0x22] @ ''func'' @ [CHR 0x22] @ '' must accept exactly '' @ arity @ ''.''"

definition BuiltIn_zip_with :: "inline_callback \<Rightarrow> Location \<Rightarrow> call_args \<Rightarrow> ast inlined" where
  "BuiltIn_zip_with inline_callback loc args =
     with_parameters loc ''zip_with'' args
       [expect ''func'' [] True, expect ''range1'' [TyAny, TyList] True, expect ''range2'' [TyAny, TyList] True] (\<lambda>named.
     required loc (no_function ''zip_with'') (RetrieveFunc named ''func'') (\<lambda>func_node.
     required loc (missing_parameter ''zip_with'' ''range1'') (RetrieveAs named ''range1'') (\<lambda>range1_node.
     required loc (missing_parameter ''zip_with'' ''range2'') (RetrieveAs named ''range2'') (\<lambda>range2_node.
       case func_params func_node of
         [iter1_var, iter2_var] \<Rightarrow>
           inline_callback (mk_ZipWithNode loc iter1_var iter2_var range1_node range2_node (func_body func_node))
       | _ \<Rightarrow> BuiltInError loc (wrong_arity ''zip_with'' ''two parameters'')))))"

definition BuiltIn_foreach :: "inline_callback \<Rightarrow> Location \<Rightarrow> call_args \<Rightarrow> ast inlined" where
  "BuiltIn_foreach inline_callback loc args =
     with_parameters loc ''foreach'' args [expect ''func'' [] True, expect ''range'' [TyAny, TyList] True] (\<lambda>named.
     required loc (no_function ''foreach'') (RetrieveFunc named ''func'') (\<lambda>func_node.
     required loc (missing_parameter ''foreach'' ''range'') (RetrieveAs named ''range'') (\<lambda>range_node.
       case func_params func_node of
         [iter_var] \<Rightarrow> inline_callback (mk_ForEachNode loc iter_var range_node (func_body func_node))
       | _ \<Rightarrow> BuiltInError loc (wrong_arity ''foreach'' ''one parameter''))))"

definition BuiltIn_foldl :: "inline_callback \<Rightarrow> Location \<Rightarrow> call_args \<Rightarrow> ast inlined" where
  "BuiltIn_foldl inline_callback loc args =
     with_parameters loc ''foldl'' args
       [expect ''func'' [] True, expect ''init'' [] True, expect ''range'' [TyAny, TyList] True] (\<lambda>named.
     required loc (no_function ''foldl'') (RetrieveFunc named ''func'') (\<lambda>func_node.
     required loc (missing_parameter ''foldl'' ''init'') (RetrieveAs named ''init'') (\<lambda>init_node.
     required loc (missing_parameter ''foldl'' ''range'') (RetrieveAs named ''range'') (\<lambda>range_node.
       case func_params func_node of
         [iter_var, accu_var] \<Rightarrow>
           inline_callback (mk_FoldLeftNode loc iter_var accu_var init_node range_node (func_body func_node))
       | _ \<Rightarrow> BuiltInError loc (wrong_arity ''foldl'' ''two parameters'')))))"

section \<open>Lists\<close>

fun zip_fields :: "Location \<Rightarrow> ast list \<Rightarrow> ast list \<Rightarrow> (ast \<times> ast) list inlined" where
  "zip_fields loc (key # ks) (val # vs) =
     (if EvalType key \<notin> {TyAny, TyString}
      then BuiltInError loc (''zip_map: List '' @ [CHR 0x27] @ ''range_key'' @ [CHR 0x27] @
             '' may not contain items of type '' @ TypeToString (EvalType key))
      else bindE (zip_fields loc ks vs) (\<lambda>r. Inr ((key, val) # r)))"
| "zip_fields loc ks vs = Inr []"

text \<open>The expression for the evaluator is given the type of lists.\<close>

definition BuiltIn_zip_map :: "Location \<Rightarrow> call_args \<Rightarrow> ast inlined" where
  "BuiltIn_zip_map loc args =
     with_parameters loc ''zip_map'' args
       [expect ''range_key'' [TyAny, TyList] True, expect ''range_val'' [TyAny, TyList] True] (\<lambda>named.
     required loc (missing_parameter ''zip_map'' ''range_key'') (RetrieveAs named ''range_key'') (\<lambda>range_key_node.
     required loc (missing_parameter ''zip_map'' ''range_val'') (RetrieveAs named ''range_val'') (\<lambda>range_val_node.
       case (list_items range_key_node, list_items range_val_node) of
         (Some ks, Some vs) \<Rightarrow> bindE (zip_fields loc ks vs) (\<lambda>entries. Inr (mk_MapNode no_location entries))
       | (ks, vs) \<Rightarrow>
           if ks = Some [] \<or> vs = Some [] then Inr (mk_MapNode no_location [])
           else Inr (runtime_call loc ''zip_map''
                  [field loc ''range_key'' range_key_node, field loc ''range_val'' range_val_node] TyList))))"

text \<open>The items with different JSON forms; nothing if one has none.\<close>

fun nub_items :: "inline_lib \<Rightarrow> string list \<Rightarrow> ast list \<Rightarrow> ast list \<Rightarrow> ast list option" where
  "nub_items L seen output [] = Some output"
| "nub_items L seen output (n # ns) =
     (case ASTToJson VerbatimFull True n of
        Inl _ \<Rightarrow> None
      | Inr j \<Rightarrow>
          (case nl_dump (il_json L) j of
             Inl _ \<Rightarrow> None
           | Inr s \<Rightarrow> if s \<in> set seen then nub_items L seen output ns
                      else nub_items L (s # seen) (output @ [n]) ns))"

definition nub_function ::
  "string \<Rightarrow> (ast list \<Rightarrow> ast list) \<Rightarrow> inline_lib \<Rightarrow> Location \<Rightarrow> call_args \<Rightarrow> ast inlined" where
  "nub_function fname order L loc args =
     with_parameters loc fname args [expect ''list'' [TyAny, TyList] True] (\<lambda>named.
     required loc (missing_parameter fname ''list'') (RetrieveAs named ''list'') (\<lambda>list_node.
       case (case list_items list_node of
               None \<Rightarrow> None
             | Some nodes \<Rightarrow> if length nodes \<le> 1 then Some nodes
                             else map_option order (nub_items L [] [] (order nodes))) of
         Some nodes \<Rightarrow> Inr (mk_ListNode loc nodes)
       | None \<Rightarrow> Inr (runtime_call loc fname [field loc ''$1'' list_node] TyList)))"

definition BuiltIn_nub_right :: "inline_lib \<Rightarrow> Location \<Rightarrow> call_args \<Rightarrow> ast inlined" where
  "BuiltIn_nub_right = nub_function ''nub_right'' rev"

definition BuiltIn_nub_left :: "inline_lib \<Rightarrow> Location \<Rightarrow> call_args \<Rightarrow> ast inlined" where
  "BuiltIn_nub_left = nub_function ''nub_left'' (\<lambda>nodes. nodes)"

definition BuiltIn_range :: "inline_lib \<Rightarrow> Location \<Rightarrow> call_args \<Rightarrow> ast inlined" where
  "BuiltIn_range L loc args =
     with_parameters loc ''range'' args [expect ''size'' [] True] (\<lambda>named.
     required loc (missing_parameter ''range'' ''size'') (RetrieveAs named ''size'') (\<lambda>size_node.
       case NodeToNumber size_node of
         Some x \<Rightarrow> Inr (mk_ListNode loc
                     (map (\<lambda>i. mk_StringNode loc (to_string_nat i)) [0..<nat (max 0 (round_to_int L x))]))
       | None \<Rightarrow> Inr (runtime_call loc ''range'' [field loc ''$1'' size_node] TyList)))"

definition BuiltIn_reverse :: "Location \<Rightarrow> call_args \<Rightarrow> ast inlined" where
  "BuiltIn_reverse loc args =
     with_parameters loc ''reverse'' args [expect ''list'' [TyAny, TyList] True] (\<lambda>named.
     required loc (missing_parameter ''reverse'' ''list'') (RetrieveAs named ''list'') (\<lambda>list_node.
       case list_items list_node of
         Some nodes \<Rightarrow> Inr (if length nodes \<le> 1 then list_node else mk_ListNode loc (rev nodes))
       | None \<Rightarrow> Inr (runtime_call loc ''reverse'' [field loc ''$1'' list_node] TyList)))"

definition BuiltIn_length :: "Location \<Rightarrow> call_args \<Rightarrow> ast inlined" where
  "BuiltIn_length loc args =
     with_parameters loc ''length'' args [expect ''list'' [TyAny, TyList] True] (\<lambda>named.
     required loc (missing_parameter ''length'' ''list'') (RetrieveAs named ''list'') (\<lambda>list_node.
       case list_items list_node of
         Some nodes \<Rightarrow> Inr (mk_NumberNode loc (double_of_nat (length nodes)))
       | None \<Rightarrow> Inr (runtime_call loc ''length'' [field loc ''$1'' list_node] TyNumber)))"

section \<open>Strings and paths\<close>

definition BuiltIn_basename :: "Location \<Rightarrow> call_args \<Rightarrow> ast inlined" where
  "BuiltIn_basename loc args =
     with_parameters loc ''basename'' args [expect ''path'' [TyAny, TyString] True] (\<lambda>named.
     required loc (missing_parameter ''basename'' ''path'') (RetrieveAs named ''path'') (\<lambda>path_node.
       case string_value path_node of
         Some path \<Rightarrow> Inr (mk_StringNode loc (path_filename path))
       | None \<Rightarrow> Inr (runtime_call loc ''basename'' [field loc ''$1'' path_node] TyString)))"

definition quote_argument :: "string \<Rightarrow> string" where
  "quote_argument arg =
     [CHR 0x27] @
     concat (map (\<lambda>c. if c = CHR 0x27 then [CHR 0x27, CHR 0x5C, CHR 0x27, CHR 0x27] else [c]) arg) @
     [CHR 0x27]"

definition BuiltIn_join_cmd :: "Location \<Rightarrow> call_args \<Rightarrow> ast inlined" where
  "BuiltIn_join_cmd loc args =
     with_parameters loc ''join_cmd'' args [expect ''args'' [TyAny, TyList] True] (\<lambda>named.
     required loc (missing_parameter ''join_cmd'' ''args'') (RetrieveAs named ''args'') (\<lambda>args_node.
     bindE (case list_items args_node of
              None \<Rightarrow> Inr None
            | Some nodes \<Rightarrow> string_items loc ''join_cmd: List may not contain args of type '' nodes) (\<lambda>strings.
       case strings of
         Some ss \<Rightarrow> Inr (mk_StringNode no_location (join_loop '' '' [] (map quote_argument ss)))
       | None \<Rightarrow> Inr (runtime_call loc ''join_cmd'' [field loc ''$1'' args_node] TyString))))"

definition BuiltIn_change_ending :: "Location \<Rightarrow> call_args \<Rightarrow> ast inlined" where
  "BuiltIn_change_ending loc args =
     with_parameters loc ''change_ending'' args
       [expect ''path'' [TyAny, TyString] True, expect ''ending'' [TyAny, TyString] False] (\<lambda>named.
     required loc (missing_parameter ''change_ending'' ''path'') (RetrieveAs named ''path'') (\<lambda>path_node.
       let given = RetrieveAs named ''ending'';
           ending_node = (case given of None \<Rightarrow> kEmptyString | Some n \<Rightarrow> n)
       in case (string_value path_node, string_value ending_node) of
            (Some path, Some ending) \<Rightarrow>
              Inr (mk_StringNode loc (path_append (parent_path path) (path_stem path) @ ending))
          | _ \<Rightarrow> Inr (runtime_call loc ''change_ending''
                   (field loc ''$1'' path_node # optional_field loc ''ending'' given) TyString)))"

definition BuiltIn_escape_chars :: "Location \<Rightarrow> call_args \<Rightarrow> ast inlined" where
  "BuiltIn_escape_chars loc args =
     with_parameters loc ''escape_chars'' args
       [expect ''str'' [TyAny, TyString] True, expect ''chars'' [TyAny, TyString] False,
        expect ''prefix'' [TyAny, TyString] False] (\<lambda>named.
     required loc (missing_parameter ''escape_chars'' ''str'') (RetrieveAs named ''str'') (\<lambda>str_node.
       let given_chars = RetrieveAs named ''chars'';
           chars_node = (case given_chars of None \<Rightarrow> kEmptyString | Some n \<Rightarrow> n);
           given_prefix = RetrieveAs named ''prefix'';
           prefix_node = (case given_prefix of None \<Rightarrow> kPrefixString | Some n \<Rightarrow> n)
       in case (string_value str_node, string_value chars_node, string_value prefix_node) of
            (Some str, Some chars, Some prefix) \<Rightarrow>
              Inr (mk_StringNode loc (concat (map (\<lambda>c. (if c \<in> set chars then prefix else []) @ [c]) str)))
          | _ \<Rightarrow> Inr (runtime_call loc ''escape_chars''
                   (field loc ''$1'' str_node # optional_field loc ''chars'' given_chars @
                    optional_field loc ''escape_prefix'' given_prefix) TyString)))"

section \<open>Maps\<close>

definition padded :: "nat \<Rightarrow> string" where
  "padded pos = (let s = to_string_nat pos in replicate (10 - length s) (CHR ''0'') @ s)"

fun enumerate_fields :: "Location \<Rightarrow> nat \<Rightarrow> ast list \<Rightarrow> (ast \<times> ast) list" where
  "enumerate_fields loc pos [] = []"
| "enumerate_fields loc pos (n # ns) = field loc (padded pos) n # enumerate_fields loc (pos + 1) ns"

definition BuiltIn_enumerate :: "Location \<Rightarrow> call_args \<Rightarrow> ast inlined" where
  "BuiltIn_enumerate loc args =
     with_parameters loc ''enumerate'' args [expect ''items'' [TyAny, TyList] True] (\<lambda>named.
     required loc (missing_parameter ''enumerate'' ''items'') (RetrieveAs named ''items'') (\<lambda>items_node.
       case list_items items_node of
         Some nodes \<Rightarrow> Inr (mk_MapNode loc (enumerate_fields loc 0 nodes))
       | None \<Rightarrow> Inr (runtime_call loc ''enumerate'' [field loc ''$1'' items_node] TyMap)))"

text \<open>
  The loop of \<^verbatim>\<open>to_subdir\<close> and \<^verbatim>\<open>from_subdir\<close>: the new path of each entry, if it has one, and what is
  said of two entries with the same new path and different values.
\<close>

fun stage_fields ::
  "inline_lib \<Rightarrow> Location \<Rightarrow> (string \<Rightarrow> string option) \<Rightarrow> (string \<Rightarrow> string) \<Rightarrow>
     (string \<times> ast) list \<Rightarrow> (ast \<times> ast) list \<Rightarrow> (ast \<times> ast) list option inlined" where
  "stage_fields L loc new_path complaint seen [] =
     Inr (Some (map (\<lambda>(name, value). field loc name value) (rev seen)))"
| "stage_fields L loc new_path complaint seen ((key, value) # entries) =
     (case string_value key of
        None \<Rightarrow> Inr None
      | Some name \<Rightarrow>
          (case new_path name of
             None \<Rightarrow> stage_fields L loc new_path complaint seen entries
           | Some new_key \<Rightarrow>
               (case map_of seen new_key of
                  None \<Rightarrow> stage_fields L loc new_path complaint ((new_key, value) # seen) entries
                | Some old \<Rightarrow>
                    (case CheckEqual L old value of
                       None \<Rightarrow> Inr None
                     | Some False \<Rightarrow> BuiltInError loc (complaint new_key)
                     | Some True \<Rightarrow> stage_fields L loc new_path complaint seen entries))))"

definition subdir_path :: "bool \<Rightarrow> string \<Rightarrow> string \<Rightarrow> string option" where
  "subdir_path flat subdir name = Some (NormPath (path_append subdir (if flat then path_filename name else name)))"

definition subdir_complaint :: "ast option \<Rightarrow> string \<Rightarrow> string \<Rightarrow> string" where
  "subdir_complaint msg_node subdir new_key =
     (case (case msg_node of None \<Rightarrow> None | Some n \<Rightarrow> string_value n) of
        Some msg \<Rightarrow> if msg \<noteq> [] then msg @ [CHR 0x0A] else []
      | None \<Rightarrow> []) @
     ''Reason: staging to subdir '' @ subdir @ '' conflicts on new path '' @ new_key @ [CHR 0x0A]"

definition BuiltIn_to_subdir :: "inline_lib \<Rightarrow> Location \<Rightarrow> call_args \<Rightarrow> ast inlined" where
  "BuiltIn_to_subdir L loc args =
     with_parameters loc ''to_subdir'' args
       [expect ''map'' [TyAny, TyMap] True, expect ''subdir'' [TyAny, TyString] False,
        expect ''flat'' [] False, expect ''msg'' [TyString] False] (\<lambda>named.
     required loc (missing_parameter ''to_subdir'' ''map'') (RetrieveAs named ''map'') (\<lambda>map_node.
       let given_subdir = RetrieveAs named ''subdir'';
           subdir_node = (case given_subdir of None \<Rightarrow> kDotPath | Some n \<Rightarrow> n);
           given_flat = RetrieveAs named ''flat'';
           flat_node = (case given_flat of None \<Rightarrow> kFalseBool | Some n \<Rightarrow> n);
           msg_node = RetrieveAs named ''msg''
       in bindE (case map_fields map_node of
                   None \<Rightarrow> Inr None
                 | Some entries \<Rightarrow>
                     if entries = [] then Inr (Some [])
                     else (case (string_value subdir_node, TruthValue flat_node) of
                             (Some subdir, Some flat) \<Rightarrow>
                               stage_fields L loc (subdir_path flat subdir) (subdir_complaint msg_node subdir) [] entries
                           | _ \<Rightarrow> Inr None)) (\<lambda>output.
          case output of
            Some entries \<Rightarrow> Inr (mk_MapNode loc entries)
          | None \<Rightarrow> Inr (runtime_call loc ''to_subdir''
                   (field loc ''$1'' map_node # optional_field loc ''subdir'' given_subdir @
                    optional_field loc ''flat'' given_flat @ optional_field loc ''msg'' msg_node) TyMap))))"

definition below_path :: "string \<Rightarrow> string \<Rightarrow> string option" where
  "below_path subdir name =
     (let new_path = NormPath (lexically_relative (NormPath name) subdir)
      in if \<not> is_absolute new_path \<and> hd (path_elements new_path) \<noteq> ''..'' then Some new_path else None)"

definition BuiltIn_from_subdir :: "inline_lib \<Rightarrow> Location \<Rightarrow> call_args \<Rightarrow> ast inlined" where
  "BuiltIn_from_subdir L loc args =
     with_parameters loc ''from_subdir'' args
       [expect ''map'' [TyAny, TyMap] True, expect ''subdir'' [TyAny, TyString] False] (\<lambda>named.
     required loc (missing_parameter ''from_subdir'' ''map'') (RetrieveAs named ''map'') (\<lambda>map_node.
       let given_subdir = RetrieveAs named ''subdir'';
           subdir_node = (case given_subdir of None \<Rightarrow> kDotPath | Some n \<Rightarrow> n)
       in bindE (case map_fields map_node of
                   None \<Rightarrow> Inr None
                 | Some entries \<Rightarrow>
                     if entries = [] then Inr (Some [])
                     else (case string_value subdir_node of
                             Some subdir \<Rightarrow>
                               stage_fields L loc (below_path (NormPath subdir))
                                 (\<lambda>new_key. ''Staging conflict for path '' @ new_key) [] entries
                           | None \<Rightarrow> Inr None)) (\<lambda>output.
          case output of
            Some entries \<Rightarrow> Inr (mk_MapNode loc entries)
          | None \<Rightarrow> Inr (runtime_call loc ''from_subdir''
                   (field loc ''$1'' map_node # optional_field loc ''subdir'' given_subdir) TyMap))))"

section \<open>The table\<close>

definition kBuiltinFunctions ::
  "(string \<times> (inline_lib \<Rightarrow> inline_callback \<Rightarrow> Location \<Rightarrow> call_args \<Rightarrow> ast inlined)) list" where
  "kBuiltinFunctions =
     [(''env'', \<lambda>L cb. BuiltIn_env), (''get'', \<lambda>L cb. BuiltIn_get L), (''join'', \<lambda>L cb. BuiltIn_join),
      (''flatten'', \<lambda>L cb. BuiltIn_flatten), (''union'', \<lambda>L cb. BuiltIn_map_union L), (''keys'', \<lambda>L cb. BuiltIn_keys),
      (''fail'', \<lambda>L cb. BuiltIn_fail), (''json_encode'', \<lambda>L cb. BuiltIn_json_encode L), (''file'', \<lambda>L cb. BuiltIn_file),
      (''symlink'', \<lambda>L cb. BuiltIn_symlink), (''tree'', \<lambda>L cb. BuiltIn_tree), (''glob'', \<lambda>L cb. BuiltIn_glob),
      (''at'', \<lambda>L cb. BuiltIn_at L), (''all'', \<lambda>L cb. BuiltIn_all), (''any'', \<lambda>L cb. BuiltIn_any),
      (''sum'', \<lambda>L cb. BuiltIn_sum), (''prod'', \<lambda>L cb. BuiltIn_prod), (''eq'', \<lambda>L cb. BuiltIn_eq L),
      (''not'', \<lambda>L cb. BuiltIn_negate), (''foreach'', \<lambda>L cb. BuiltIn_foreach cb),
      (''zip_with'', \<lambda>L cb. BuiltIn_zip_with cb), (''zip_map'', \<lambda>L cb. BuiltIn_zip_map),
      (''foldl'', \<lambda>L cb. BuiltIn_foldl cb), (''nub_right'', \<lambda>L cb. BuiltIn_nub_right L),
      (''nub_left'', \<lambda>L cb. BuiltIn_nub_left L), (''range'', \<lambda>L cb. BuiltIn_range L), (''reverse'', \<lambda>L cb. BuiltIn_reverse),
      (''length'', \<lambda>L cb. BuiltIn_length), (''basename'', \<lambda>L cb. BuiltIn_basename), (''join_cmd'', \<lambda>L cb. BuiltIn_join_cmd),
      (''change_ending'', \<lambda>L cb. BuiltIn_change_ending), (''escape_chars'', \<lambda>L cb. BuiltIn_escape_chars),
      (''enumerate'', \<lambda>L cb. BuiltIn_enumerate), (''to_subdir'', \<lambda>L cb. BuiltIn_to_subdir L),
      (''from_subdir'', \<lambda>L cb. BuiltIn_from_subdir L)]"

definition MakeBuiltinObjEntry :: "string \<Rightarrow> ast \<times> ast" where
  "MakeBuiltinObjEntry name = (mk_StringNode no_location name, mk_BuiltinNode name)"

definition MakeBuiltinObj :: ast where
  "MakeBuiltinObj =
     mk_MapNode no_location (map MakeBuiltinObjEntry
       [''env'', ''get'', ''join'', ''flatten'', ''union'', ''keys'', ''fail'', ''json_encode'', ''file'', ''symlink'',
        ''tree'', ''glob'', ''at'', ''all'', ''any'', ''sum'', ''prod'', ''eq'', ''not'', ''foreach'', ''zip_with'',
        ''zip_map'', ''foldl'', ''nub_right'', ''nub_left'', ''range'', ''reverse'', ''length'', ''basename'',
        ''join_cmd'', ''change_ending'', ''escape_chars'', ''enumerate'', ''to_subdir'', ''from_subdir''])"

definition ProvideBuiltinsToAST :: "ast \<Rightarrow> ast" where
  "ProvideBuiltinsToAST node = mk_LetNode no_location ''jst'' MakeBuiltinObj node"

end
