(* ===== verification/Jst_Inline.thy ===== *)
theory Jst_Inline
  imports Jst_BuiltIn_Table
begin

text \<open>
  The inliner of the jst language, \<^verbatim>\<open>src/buildtool/jstlang/ast/{inline,inline_visitor}.{hpp,cpp}\<close>. All
  definitions and calls of functions are replaced; in the body of a function with parameters this is done in
  part, and once more at each of its calls. Every operator of the visitor takes the inliner itself,
  \<open>I\<close>, with the scope and whether to inline in part; \<open>InlineFunctions\<close> recurses on a bound of the depth.
\<close>

section \<open>Scopes\<close>

text \<open>
  The definitions of a scope and of the ones above it, the latest first. A definition without a
  node is that of a parameter or variable which is not known yet.
\<close>

type_synonym scope = "(string \<times> ast option) list"

definition AddDef :: "string \<Rightarrow> ast option \<Rightarrow> scope \<Rightarrow> scope" where
  "AddDef name def scope = (name, def) # scope"

definition GetDef :: "scope \<Rightarrow> string \<Rightarrow> ast option option" where
  "GetDef scope name = map_of scope name"

type_synonym inliner = "scope \<Rightarrow> bool \<Rightarrow> ast \<Rightarrow> ast inlined"

section \<open>Messages\<close>

definition GetLocationString :: "Location \<Rightarrow> string" where
  "GetLocationString loc =
     loc_file loc @ '':'' @ to_string_nat (loc_line loc) @ '':'' @ to_string_nat (loc_column loc) @
     (if 0 < loc_column_end loc then ''-'' @ to_string_nat (loc_column_end loc) else [])"

text \<open>The given line, if it is ended by a line break.\<close>

fun source_line :: "nat \<Rightarrow> string \<Rightarrow> string option" where
  "source_line n str =
     (if CHR 0x0A \<notin> set str then None
      else if n \<le> 1 then Some (takeWhile (\<lambda>c. c \<noteq> CHR 0x0A) str)
      else source_line (n - 1) (tl (dropWhile (\<lambda>c. c \<noteq> CHR 0x0A) str)))"

declare source_line.simps [simp del]

text \<open>A string of so many characters, or the exception for a negative number of them.\<close>

definition fill :: "int \<Rightarrow> char \<Rightarrow> string + string" where
  "fill n c = (if n < 0 then Inl ''basic_string::_M_create'' else Inr (replicate (nat n) c))"

definition GetLocationSnippet :: "Location \<Rightarrow> string + string" where
  "GetLocationSnippet loc =
     (case loc_content loc of
        None \<Rightarrow> Inr []
      | Some content \<Rightarrow>
          (case source_line (loc_line loc) content of
             None \<Rightarrow> Inr []
           | Some line_data \<Rightarrow>
               let line_str = to_string_nat (loc_line loc);
                   column_end = (if 0 < loc_column_end loc then loc_column_end loc else length line_data)
               in bindE (fill (int (loc_column loc) - 1) (CHR '' '')) (\<lambda>blanks.
                  bindE (fill (int column_end - int (loc_column loc) + 1) (CHR ''^'')) (\<lambda>marks.
                    Inr ([CHR 0x0A, CHR 0x0A] @ line_str @ '' |  '' @ line_data @ [CHR 0x0A] @
                         replicate (length line_str) (CHR '' '') @ '' |  '' @ blanks @ marks @ [CHR 0x0A])))))"

definition ASTInlineError :: "string \<Rightarrow> Location \<Rightarrow> 'a inlined" where
  "ASTInlineError error loc =
     (case GetLocationSnippet loc of
        Inl what \<Rightarrow> Inl (LengthError what)
      | Inr snippet \<Rightarrow> Inl (InlineError (GetLocationString loc @ '': '' @ error @ snippet)))"

section \<open>Calls of builtin functions\<close>

text \<open>Every exception of the library becomes one of the inliner.\<close>

definition catch_exception :: "'a inlined \<Rightarrow> 'a inlined" where
  "catch_exception r = (case r of Inl (LengthError what) \<Rightarrow> Inl (InlineError what) | _ \<Rightarrow> r)"

definition CallBuiltinWithParams ::
  "inline_lib \<Rightarrow> inline_callback \<Rightarrow> string \<Rightarrow> Location \<Rightarrow> call_args \<Rightarrow> ast inlined" where
  "CallBuiltinWithParams L cb name loc params =
     (case map_of kBuiltinFunctions name of
        None \<Rightarrow> ASTInlineError (''Unknown builtin function '' @ [CHR 0x22] @ name @ [CHR 0x22] @ ''.'') loc
      | Some f \<Rightarrow> catch_exception (f L cb loc params))"

definition CallBuiltin_nodes :: "inline_lib \<Rightarrow> inline_callback \<Rightarrow> string \<Rightarrow> Location \<Rightarrow> ast option list \<Rightarrow> ast inlined" where
  "CallBuiltin_nodes L cb name loc params = CallBuiltinWithParams L cb name loc (map (\<lambda>p. (None, p)) params)"

text \<open>The argument expressions in order, each inlined.\<close>

fun inline_args :: "(ast \<Rightarrow> ast inlined) \<Rightarrow> (string option \<times> ast) list \<Rightarrow> (string option \<times> ast) list inlined" where
  "inline_args I [] = Inr []"
| "inline_args I ((pname, pexpr) # ps) =
     bindE (I pexpr) (\<lambda>e. bindE (inline_args I ps) (\<lambda>es. Inr ((pname, e) # es)))"

definition is_VarNode_def :: "ast option option \<Rightarrow> bool" where
  "is_VarNode_def def = (case def of Some (Some (VarNode _ _ _)) \<Rightarrow> True | _ \<Rightarrow> False)"

text \<open>What \<^verbatim>\<open>env\<close> gives is a variable of the configuration, which no variable of a loop may hide.\<close>

definition check_shadowed :: "scope \<Rightarrow> Location \<Rightarrow> ast \<Rightarrow> ast inlined" where
  "check_shadowed scope loc result =
     (case result of
        VarNode _ name _ \<Rightarrow>
          if is_VarNode_def (GetDef scope name)
          then ASTInlineError (''Config variable '' @ [CHR 0x27] @ name @ [CHR 0x27] @ '' is shadowed by scope variable.'') loc
          else Inr result
      | _ \<Rightarrow> ASTInlineError ''Expected var node from env() built-in function.'' loc)"

definition InlineBuiltinCall ::
  "inline_lib \<Rightarrow> inliner \<Rightarrow> scope \<Rightarrow> bool \<Rightarrow> Location \<Rightarrow> (string option \<times> ast) list option \<Rightarrow> ast \<Rightarrow> string \<Rightarrow> ast inlined" where
  "InlineBuiltinCall L I scope partial_inline loc caller_params builtin name =
     (case caller_params of
        None \<Rightarrow> ASTInlineError ''Expected function call.'' loc
      | Some ps \<Rightarrow>
          bindE (inline_args (I scope partial_inline) ps) (\<lambda>params.
            if partial_inline then Inr (mk_CallNode loc (CallBuiltin builtin) (Some params))
            else bindE (CallBuiltinWithParams L (I scope partial_inline) name loc
                          (map (\<lambda>(pname, e). (pname, Some e)) params)) (\<lambda>result.
                   if name = ''env'' then check_shadowed scope loc result else Inr result)))"

section \<open>Calls of functions\<close>

text \<open>
  The arguments of a call in the order of the parameters: those of the caller are inlined in its
  own scope, defaults in the one with the parameters so far. A name given by the caller
  replaces that of the parameter at the same position.
\<close>

fun bind_params ::
  "inliner \<Rightarrow> scope \<Rightarrow> bool \<Rightarrow> Location \<Rightarrow> (string \<times> ast option) list \<Rightarrow> (string option \<times> ast) list \<Rightarrow> scope \<Rightarrow> scope inlined" where
  "bind_params I scope partial_inline callee_loc [] params func_scope = Inr func_scope"
| "bind_params I scope partial_inline callee_loc ((pname, pdefault) # ps) ((cname, cexpr) # cs) func_scope =
     bindE (I scope partial_inline cexpr) (\<lambda>e.
       bind_params I scope partial_inline callee_loc ps cs
         (AddDef (case cname of Some n \<Rightarrow> n | None \<Rightarrow> pname) (Some e) func_scope))"
| "bind_params I scope partial_inline callee_loc ((pname, pdefault) # ps) [] func_scope =
     (case pdefault of
        None \<Rightarrow> ASTInlineError (''Missing function argument '' @ [CHR 0x27] @ pname @ [CHR 0x27] @ ''.'') callee_loc
      | Some d \<Rightarrow>
          bindE (I func_scope partial_inline d) (\<lambda>e.
            bind_params I scope partial_inline callee_loc ps [] (AddDef pname (Some e) func_scope)))"

definition rethrow_call :: "Location \<Rightarrow> 'a inlined \<Rightarrow> 'a inlined" where
  "rethrow_call loc r =
     (case catch_exception r of
        Inl (InlineError what) \<Rightarrow> ASTInlineError (''Inlining function call failed with:'' @ [CHR 0x0A] @ what) loc
      | _ \<Rightarrow> r)"

definition InlineFuncBody ::
  "inliner \<Rightarrow> scope \<Rightarrow> bool \<Rightarrow> Location \<Rightarrow> (string option \<times> ast) list option \<Rightarrow> Location \<Rightarrow>
     (string \<times> ast option) list \<Rightarrow> ast \<Rightarrow> ast inlined" where
  "InlineFuncBody I scope partial_inline loc caller_params callee_loc callee_params body =
     (case caller_params of
        None \<Rightarrow> ASTInlineError ''Expected function call.'' loc
      | Some params \<Rightarrow>
          if callee_params = [] then Inr body
          else if length params < length (filter (\<lambda>p. snd p = None) callee_params)
            then ASTInlineError ''Missing mandatory arguments for calling function.'' loc
          else rethrow_call loc
                 (bindE (bind_params I scope partial_inline callee_loc callee_params params scope) (\<lambda>func_scope.
                    I func_scope partial_inline body)))"

definition InlineCall ::
  "inline_lib \<Rightarrow> inliner \<Rightarrow> scope \<Rightarrow> bool \<Rightarrow> Location \<Rightarrow> call_target \<Rightarrow> (string option \<times> ast) list option \<Rightarrow> ast inlined" where
  "InlineCall L I scope partial_inline loc target params =
     (case target of
        CallExpr expr \<Rightarrow>
          bindE (I scope partial_inline expr) (\<lambda>inl_target.
            case inl_target of
              BuiltinNode b name \<Rightarrow> InlineBuiltinCall L I scope partial_inline loc params inl_target name
            | FuncNode b fparams body \<Rightarrow> InlineFuncBody I scope partial_inline loc params (base_loc b) fparams body
            | _ \<Rightarrow>
                if partial_inline then Inr (mk_CallNode loc (CallExpr inl_target) params)
                else ASTInlineError ''Call target is not a function.'' loc)
      | CallBuiltin builtin \<Rightarrow>
          (case builtin of
             BuiltinNode b name \<Rightarrow> InlineBuiltinCall L I scope partial_inline loc params builtin name
           | _ \<Rightarrow> ASTInlineError ''Unsupported call target.'' loc)
      | CallIdentifier name \<Rightarrow>
          (case GetDef scope name of
             None \<Rightarrow> ASTInlineError (''Cannot find function or variable '' @ [CHR 0x27] @ name @ [CHR 0x27] @ '' in scope.'') loc
           | Some None \<Rightarrow>
               if partial_inline then Inr (mk_CallNode loc target params)
               else ASTInlineError ''Found unknown variable during full inlining.'' loc
           | Some (Some (FuncNode b fparams body)) \<Rightarrow>
               if IsVarRead params then Inr (FuncNode b fparams body)
               else InlineFuncBody I scope partial_inline loc params (base_loc b) fparams body
           | Some (Some value) \<Rightarrow>
               if IsVarRead params then Inr value
               else ASTInlineError ''Cannot call a variable that does not contain a function.'' loc))"

section \<open>Operators of the visitor\<close>

fun inline_option :: "(ast \<Rightarrow> ast inlined) \<Rightarrow> ast option \<Rightarrow> ast option inlined" where
  "inline_option I None = Inr None"
| "inline_option I (Some n) = bindE (I n) (\<lambda>e. Inr (Some e))"

fun inline_list :: "(ast \<Rightarrow> ast inlined) \<Rightarrow> ast list \<Rightarrow> ast list inlined" where
  "inline_list I [] = Inr []"
| "inline_list I (n # ns) = bindE (I n) (\<lambda>e. bindE (inline_list I ns) (\<lambda>es. Inr (e # es)))"

fun inline_fields :: "(ast \<Rightarrow> ast inlined) \<Rightarrow> (ast \<times> ast) list \<Rightarrow> (ast \<times> ast) list inlined" where
  "inline_fields I [] = Inr []"
| "inline_fields I ((key, value) # entries) =
     bindE (I key) (\<lambda>k. bindE (I value) (\<lambda>v. bindE (inline_fields I entries) (\<lambda>es. Inr ((k, v) # es))))"

definition InlineLet :: "inliner \<Rightarrow> scope \<Rightarrow> bool \<Rightarrow> string \<Rightarrow> ast \<Rightarrow> ast \<Rightarrow> ast inlined" where
  "InlineLet I scope partial_inline name value next_node =
     bindE (I scope partial_inline value) (\<lambda>v. I (AddDef name (Some v) scope) partial_inline next_node)"

text \<open>The default of each parameter is inlined with the parameters before it as unknown.\<close>

fun inline_params ::
  "inliner \<Rightarrow> bool \<Rightarrow> (string \<times> ast option) list \<Rightarrow> scope \<Rightarrow> ((string \<times> ast option) list \<times> scope) inlined" where
  "inline_params I partial_inline [] func_scope = Inr ([], func_scope)"
| "inline_params I partial_inline ((pname, pexpr) # ps) func_scope =
     bindE (inline_option (I func_scope partial_inline) pexpr) (\<lambda>e.
     bindE (inline_params I partial_inline ps (AddDef pname None func_scope)) (\<lambda>(params, func_scope).
       Inr ((pname, e) # params, func_scope)))"

definition InlineFunc :: "inliner \<Rightarrow> scope \<Rightarrow> bool \<Rightarrow> Location \<Rightarrow> (string \<times> ast option) list \<Rightarrow> ast \<Rightarrow> ast inlined" where
  "InlineFunc I scope partial_inline loc params body =
     (let partial_inline = partial_inline \<or> params \<noteq> []
      in bindE (inline_params I partial_inline params scope) (\<lambda>(params, func_scope).
         bindE (I func_scope partial_inline body) (\<lambda>b. Inr (mk_FuncNode loc params b))))"

text \<open>A foreign tree starts with nothing but the builtin functions.\<close>

definition InlineForeign :: "inliner \<Rightarrow> ast \<Rightarrow> ast inlined" where
  "InlineForeign I expr = I [] False (ProvideBuiltinsToAST expr)"

definition kEmptyList_node :: ast where "kEmptyList_node = mk_ListNode no_location []"
definition kMinusOne :: ast where "kMinusOne = mk_NumberNode no_location (encode_double True 1 0)"

definition InlineIf :: "inliner \<Rightarrow> scope \<Rightarrow> bool \<Rightarrow> Location \<Rightarrow> ast \<Rightarrow> ast option \<Rightarrow> ast option \<Rightarrow> ast inlined" where
  "InlineIf I scope partial_inline loc cond then_expr else_expr =
     bindE (I scope partial_inline cond) (\<lambda>inl_cond.
       case TruthValue inl_cond of
         Some cond_value \<Rightarrow>
           bindE (inline_option (I scope partial_inline) (if cond_value then then_expr else else_expr)) (\<lambda>branch.
             Inr (case branch of Some n \<Rightarrow> n | None \<Rightarrow> kEmptyList_node))
       | None \<Rightarrow>
           bindE (inline_option (I scope partial_inline) then_expr) (\<lambda>t.
           bindE (inline_option (I scope partial_inline) else_expr) (\<lambda>e.
             Inr (mk_IfNode loc inl_cond t e))))"

text \<open>
  What stands for the variable of a loop that is left to the evaluator: nothing yet, or a
  variable of the configuration with its name.
\<close>

definition loop_variable :: "bool \<Rightarrow> Location \<Rightarrow> string \<Rightarrow> ast option" where
  "loop_variable partial_inline loc name = (if partial_inline then None else Some (mk_VarNode loc name None))"

definition InlineForEach :: "inliner \<Rightarrow> scope \<Rightarrow> bool \<Rightarrow> Location \<Rightarrow> string \<Rightarrow> ast \<Rightarrow> ast \<Rightarrow> ast inlined" where
  "InlineForEach I scope partial_inline loc var_name rng body =
     bindE (I scope partial_inline rng) (\<lambda>inl_range.
       if EvalType inl_range \<notin> {TyList, TyAny}
       then ASTInlineError (''Expected list expression for foreach range argument, but got: '' @
              TypeToString (EvalType inl_range)) loc
       else case list_items inl_range of
              Some nodes \<Rightarrow>
                bindE (inline_list (\<lambda>node. I (AddDef var_name (Some node) scope) partial_inline body) nodes) (\<lambda>inl_items.
                  Inr (mk_ListNode loc inl_items))
            | None \<Rightarrow>
                bindE (I (AddDef var_name (loop_variable partial_inline loc var_name) scope) partial_inline body) (\<lambda>b.
                  Inr (mk_ForEachNode loc var_name inl_range b)))"

fun inline_pairs :: "(ast \<Rightarrow> ast \<Rightarrow> ast inlined) \<Rightarrow> ast list \<Rightarrow> ast list \<Rightarrow> ast list inlined" where
  "inline_pairs I (x # xs) (y # ys) = bindE (I x y) (\<lambda>e. bindE (inline_pairs I xs ys) (\<lambda>es. Inr (e # es)))"
| "inline_pairs I xs ys = Inr []"

definition InlineZipWith ::
  "inliner \<Rightarrow> scope \<Rightarrow> bool \<Rightarrow> Location \<Rightarrow> string \<Rightarrow> string \<Rightarrow> ast \<Rightarrow> ast \<Rightarrow> ast \<Rightarrow> ast inlined" where
  "InlineZipWith I scope partial_inline loc var1_name var2_name range1 range2 body =
     bindE (I scope partial_inline range1) (\<lambda>r1.
     bindE (I scope partial_inline range2) (\<lambda>r2.
       case (list_items r1, list_items r2) of
         (Some nodes1, Some nodes2) \<Rightarrow>
           bindE (inline_pairs (\<lambda>item1 item2.
                    I (AddDef var2_name (Some item2) (AddDef var1_name (Some item1) scope)) partial_inline body) nodes1 nodes2)
             (\<lambda>inl_items. Inr (mk_ListNode loc inl_items))
       | (list1, list2) \<Rightarrow>
           if list1 = Some [] \<or> list2 = Some [] then Inr (mk_ListNode loc [])
           else bindE (I (AddDef var2_name (loop_variable partial_inline loc var2_name)
                          (AddDef var1_name (loop_variable partial_inline loc var1_name) scope)) partial_inline body)
                  (\<lambda>b. Inr (mk_ZipWithNode loc var1_name var2_name r1 r2 b))))"

text \<open>The scope of an unrolled fold is one for all rounds.\<close>

fun unroll_fold :: "inliner \<Rightarrow> bool \<Rightarrow> string \<Rightarrow> string \<Rightarrow> ast \<Rightarrow> scope \<Rightarrow> ast \<Rightarrow> ast list \<Rightarrow> ast inlined" where
  "unroll_fold I partial_inline iter_var accu_var body eval_scope accu [] = Inr accu"
| "unroll_fold I partial_inline iter_var accu_var body eval_scope accu (node # nodes) =
     (let eval_scope = AddDef iter_var (Some node) (AddDef accu_var (Some accu) eval_scope)
      in bindE (I eval_scope partial_inline body) (\<lambda>accu.
           unroll_fold I partial_inline iter_var accu_var body eval_scope accu nodes))"

definition InlineFoldLeft ::
  "inliner \<Rightarrow> scope \<Rightarrow> bool \<Rightarrow> Location \<Rightarrow> string \<Rightarrow> string \<Rightarrow> ast \<Rightarrow> ast \<Rightarrow> ast \<Rightarrow> ast inlined" where
  "InlineFoldLeft I scope partial_inline loc iter_var accu_var init rng body =
     bindE (I scope partial_inline rng) (\<lambda>inl_range.
     bindE (I scope partial_inline init) (\<lambda>inl_init.
       case list_items inl_range of
         Some nodes \<Rightarrow> unroll_fold I partial_inline iter_var accu_var body scope inl_init nodes
       | None \<Rightarrow>
           bindE (I (AddDef accu_var (loop_variable partial_inline loc accu_var)
                     (AddDef iter_var (loop_variable partial_inline loc iter_var) scope)) partial_inline body) (\<lambda>b.
             Inr (mk_FoldLeftNode loc iter_var accu_var inl_init inl_range b))))"

text \<open>In the body of a function operations are kept; elsewhere they are calls of builtin functions.\<close>

definition InlineUnary :: "inline_lib \<Rightarrow> inliner \<Rightarrow> scope \<Rightarrow> bool \<Rightarrow> Location \<Rightarrow> ValueType \<Rightarrow> UnaryOp \<Rightarrow> ast \<Rightarrow> ast inlined" where
  "InlineUnary L I scope partial_inline loc eval_type type expr =
     bindE (I scope partial_inline expr) (\<lambda>inl_expr.
       if partial_inline then Inr (mk_UnaryOperationNode loc type inl_expr (Some eval_type))
       else case type of
              OpMinus \<Rightarrow>
                if EvalType inl_expr \<in> {TyAny, TyNumber}
                then CallBuiltin_nodes L (I scope partial_inline) ''prod'' loc [Some (mk_ListNode loc [inl_expr, kMinusOne])]
                else ASTInlineError (''Unsupported type for unary minus operation: '' @ TypeToString (EvalType inl_expr)) loc
            | OpNot \<Rightarrow> CallBuiltin_nodes L (I scope partial_inline) ''not'' loc [Some inl_expr])"

text \<open>
  A lookup is computed in any case. It fails if what it gives is the same node as the default;
  without a default there is no such node.
\<close>

definition default_returned :: "inline_lib \<Rightarrow> bool \<Rightarrow> ast \<Rightarrow> ast option \<Rightarrow> bool" where
  "default_returned L not_found result default_expr =
     (case default_expr of None \<Rightarrow> False | Some d \<Rightarrow> not_found \<or> same_node L result d)"

definition field_not_found :: "(ast \<times> ast) list \<Rightarrow> ast \<Rightarrow> bool" where
  "field_not_found entries index =
     (case string_value index of None \<Rightarrow> False | Some name \<Rightarrow> lookup_field name (rev entries) = NotFound)"

definition index_not_found :: "inline_lib \<Rightarrow> ast list \<Rightarrow> ast \<Rightarrow> bool" where
  "index_not_found L nodes index =
     (case list_index L index of
        None \<Rightarrow> False
      | Some i \<Rightarrow> (if i < 0 then i + int (length nodes) else i) \<notin> {0..<int (length nodes)})"

definition InlineLookup ::
  "inline_lib \<Rightarrow> inliner \<Rightarrow> scope \<Rightarrow> bool \<Rightarrow> Location \<Rightarrow> ast \<Rightarrow> ast \<Rightarrow> ast option \<Rightarrow> ast inlined" where
  "InlineLookup L I scope partial_inline loc index container default_expr =
     bindE (I scope partial_inline container) (\<lambda>inl_container.
     bindE (I scope partial_inline index) (\<lambda>inl_index.
     bindE (inline_option (I scope partial_inline) default_expr) (\<lambda>inl_default.
       case (map_fields inl_container, list_items inl_container) of
         (Some entries, _) \<Rightarrow>
           bindE (CallBuiltin_nodes L (I scope partial_inline) ''get'' loc [Some inl_index, Some inl_container, inl_default]) (\<lambda>result.
             if default_returned L (field_not_found entries inl_index) result inl_default
             then ASTInlineError (''Cannot find field name'' @
                    (case string_value inl_index of Some s \<Rightarrow> '' '' @ [CHR 0x27] @ s @ [CHR 0x27] | None \<Rightarrow> []) @ ''.'') loc
             else Inr result)
       | (None, Some nodes) \<Rightarrow>
           bindE (CallBuiltin_nodes L (I scope partial_inline) ''at'' loc [Some inl_index, Some inl_container, inl_default]) (\<lambda>result.
             if default_returned L (index_not_found L nodes inl_index) result inl_default
             then ASTInlineError ''Invalid index.'' loc
             else Inr result)
       | _ \<Rightarrow> ASTInlineError ''Failed to resolve the type of the container for LookupNode. Please use built-in functions.'' loc)))"

definition unsupported_types :: "ast \<Rightarrow> ast \<Rightarrow> Location \<Rightarrow> ast inlined" where
  "unsupported_types lhs rhs loc =
     ASTInlineError (''Unsupported types for binary operation. Found '' @ TypeToString (EvalType lhs) @ '' and '' @
       TypeToString (EvalType rhs) @ ''.'') loc"

definition InlineBinary ::
  "inline_lib \<Rightarrow> inliner \<Rightarrow> scope \<Rightarrow> bool \<Rightarrow> Location \<Rightarrow> ValueType \<Rightarrow> BinaryOp \<Rightarrow> ast \<Rightarrow> ast \<Rightarrow> ast inlined" where
  "InlineBinary L I scope partial_inline loc eval_type type lhs rhs =
     bindE (I scope partial_inline lhs) (\<lambda>inl_lhs.
     bindE (I scope partial_inline rhs) (\<lambda>inl_rhs.
       if partial_inline then Inr (mk_BinaryOperationNode loc type inl_lhs inl_rhs (Some eval_type))
       else
         let call = (\<lambda>name. CallBuiltin_nodes L (I scope partial_inline) name loc [Some (mk_ListNode loc [inl_lhs, inl_rhs])]);
             both = (\<lambda>ty. EvalType inl_lhs \<in> {TyAny, ty} \<and> EvalType inl_rhs \<in> {TyAny, ty})
         in case type of
              OpPlus \<Rightarrow>
                if EvalType inl_lhs = TyAny \<and> EvalType inl_rhs = TyAny
                then ASTInlineError (''Cannot deduce argument types, please use explicit '' @
                       ''join/sum/flatten/union built-in function.'') loc
                else if both TyString then call ''join''
                else if both TyNumber then call ''sum''
                else if both TyList then call ''flatten''
                else if both TyMap then call ''union''
                else unsupported_types inl_lhs inl_rhs loc
            | OpMultiplication \<Rightarrow> if both TyNumber then call ''prod'' else unsupported_types inl_lhs inl_rhs loc
            | OpAnd \<Rightarrow> call ''all''
            | OpOr \<Rightarrow> call ''any''
            | OpEqual \<Rightarrow> CallBuiltin_nodes L (I scope partial_inline) ''eq'' loc [Some inl_lhs, Some inl_rhs]))"

section \<open>The inliner\<close>

fun inline_node :: "inline_lib \<Rightarrow> inliner \<Rightarrow> scope \<Rightarrow> bool \<Rightarrow> ast \<Rightarrow> ast inlined" where
  "inline_node L I scope p (LetNode b name value next_node) = InlineLet I scope p name value next_node"
| "inline_node L I scope p (FuncNode b params body) = InlineFunc I scope p (base_loc b) params body"
| "inline_node L I scope p (CallNode b target params) = InlineCall L I scope p (base_loc b) target params"
| "inline_node L I scope p (ForeignNode b expr) = InlineForeign I expr"
| "inline_node L I scope p (VerbatimNode b expr type) =
     bindE (I scope p expr) (\<lambda>e. Inr (mk_VerbatimNode (base_loc b) e type (Some (base_value_type b))))"
| "inline_node L I scope p (ListNode b nodes) =
     bindE (inline_list (I scope p) nodes) (\<lambda>es. Inr (mk_ListNode (base_loc b) es))"
| "inline_node L I scope p (MapNode b entries) =
     bindE (inline_fields (I scope p) entries) (\<lambda>es. Inr (mk_MapNode (base_loc b) es))"
| "inline_node L I scope p (IfNode b cond then_expr else_expr) = InlineIf I scope p (base_loc b) cond then_expr else_expr"
| "inline_node L I scope p (ForEachNode b var rng body) = InlineForEach I scope p (base_loc b) var rng body"
| "inline_node L I scope p (ZipWithNode b var1 var2 range1 range2 body) =
     InlineZipWith I scope p (base_loc b) var1 var2 range1 range2 body"
| "inline_node L I scope p (FoldLeftNode b iter_var accu_var init rng body) =
     InlineFoldLeft I scope p (base_loc b) iter_var accu_var init rng body"
| "inline_node L I scope p (UnaryOperationNode b type expr) =
     InlineUnary L I scope p (base_loc b) (base_value_type b) type expr"
| "inline_node L I scope p (LookupNode b index container default_expr) =
     InlineLookup L I scope p (base_loc b) index container default_expr"
| "inline_node L I scope p (BinaryOperationNode b type lhs rhs) =
     InlineBinary L I scope p (base_loc b) (base_value_type b) type lhs rhs"
| "inline_node L I scope p (NullNode b) = Inr (NullNode b)"
| "inline_node L I scope p (BoolNode b x) = Inr (BoolNode b x)"
| "inline_node L I scope p (StringNode b x) = Inr (StringNode b x)"
| "inline_node L I scope p (NumberNode b x) = Inr (NumberNode b x)"
| "inline_node L I scope p (VarNode b name default_expr) = Inr (VarNode b name default_expr)"
| "inline_node L I scope p (RefNode b data) = Inr (RefNode b data)"
| "inline_node L I scope p (BuiltinNode b name) = Inr (BuiltinNode b name)"

fun InlineFunctions :: "inline_lib \<Rightarrow> nat \<Rightarrow> scope \<Rightarrow> bool \<Rightarrow> ast \<Rightarrow> ast inlined" where
  "InlineFunctions L 0 scope partial_inline node = Inl InlineFuel"
| "InlineFunctions L (Suc n) scope partial_inline node = inline_node L (InlineFunctions L n) scope partial_inline node"

definition InlineAST :: "inline_lib \<Rightarrow> nat \<Rightarrow> ast \<Rightarrow> ast inlined" where
  "InlineAST L n expr = InlineFunctions L n [] False expr"

end
