(* ===== verification/Jst_Preprocessor.thy ===== *)
theory Jst_Preprocessor
  imports Jst_Inline
begin

text \<open>
  What turns a file in the jst language into JSON: \<^verbatim>\<open>src/buildtool/jstlang/ast/analyze.hpp\<close>,
  \<^verbatim>\<open>ast/augment.{hpp,cpp}\<close>, \<^verbatim>\<open>preprocessor.{hpp,cpp}\<close> and the arguments of \<^verbatim>\<open>main.cpp\<close>. The file is parsed,
  the shape of a targets file is checked, the tree is inlined, and the fields of targets that the
  evaluator takes literally are marked. A null pointer comes with the message given to the logger.
\<close>

section \<open>The shape of a targets file\<close>

fun skip_lets :: "ast \<Rightarrow> ast" where
  "skip_lets (LetNode b name value next_node) = skip_lets next_node"
| "skip_lets n = n"

definition StaticAnalysis :: "ast \<Rightarrow> string + unit" where
  "StaticAnalysis expr =
     (case map_fields (skip_lets expr) of
        None \<Rightarrow> Inl ''Expected top-level entity to be a literal map.''
      | Some entries \<Rightarrow>
          if \<exists>f \<in> set entries. string_value (fst f) = None
          then Inl ''Expected all target names to be literal strings.'' else Inr ())"

section \<open>Marking of fields\<close>

definition kUnevaluatedTargetFields :: "(string \<times> (string \<times> VerbatimType) list) list" where
  "kUnevaluatedTargetFields =
     [([], [(''type'', VerbatimFull), (''arguments_config'', VerbatimFull)]),
      (''export'',
       [(''type'', VerbatimFull), (''arguments_config'', VerbatimFull), (''fixed_config'', VerbatimFull),
        (''doc'', VerbatimFull), (''config_doc'', VerbatimFull)]),
      (''install'',
       [(''type'', VerbatimFull), (''arguments_config'', VerbatimFull), (''files'', VerbatimFlat)])]"

definition unevaluated_fields :: "string \<Rightarrow> (string \<times> VerbatimType) list" where
  "unevaluated_fields target_type =
     (case map_of kUnevaluatedTargetFields target_type of
        Some entries \<Rightarrow> entries
      | None \<Rightarrow> the (map_of kUnevaluatedTargetFields []))"

fun is_RefNode :: "ast \<Rightarrow> bool" where
  "is_RefNode (RefNode _ _) = True"
| "is_RefNode _ = False"

text \<open>The first loop over the fields of a target: their names, and the type of the target.\<close>

fun field_names :: "string \<Rightarrow> (ast \<times> ast) list \<Rightarrow> string + string \<times> string list" where
  "field_names target_type [] = Inr (target_type, [])"
| "field_names target_type ((key, value) # entries) =
     (case string_value key of
        None \<Rightarrow> Inl ''Expected literal string as field name for literal map.''
      | Some name \<Rightarrow>
          bindE (if name \<noteq> ''type'' then Inr target_type
                 else case string_value value of
                        Some str \<Rightarrow> Inr str
                      | None \<Rightarrow>
                          if is_RefNode value then Inr target_type
                          else Inl ''Expected literal string or reference for target type.'') (\<lambda>target_type.
          bindE (field_names target_type entries) (\<lambda>(target_type, names). Inr (target_type, name # names))))"

definition mark_field :: "(string \<times> VerbatimType) list \<Rightarrow> string \<Rightarrow> ast \<times> ast \<Rightarrow> ast \<times> ast" where
  "mark_field uneval_fields name f =
     (case map_of uneval_fields name of
        Some vtype \<Rightarrow> (fst f, mk_VerbatimNode (GetLocation (snd f)) (snd f) vtype None)
      | None \<Rightarrow> f)"

definition AugmentTarget :: "Location \<Rightarrow> (ast \<times> ast) list \<Rightarrow> string + ast" where
  "AugmentTarget loc entries =
     bindE (field_names [] entries) (\<lambda>(target_type, names).
       Inr (mk_VerbatimNode loc
         (mk_MapNode loc (map2 (mark_field (unevaluated_fields target_type)) names entries)) VerbatimFlat None))"

fun augment_targets :: "(ast \<times> ast) list \<Rightarrow> string + (ast \<times> ast) list" where
  "augment_targets [] = Inr []"
| "augment_targets ((key, value) # targets) =
     (if string_value key = None then Inl ''Expected literal string as field name for literal map.''
      else case map_fields value of
             None \<Rightarrow> Inl ''AST node is not a literal map.''
           | Some entries \<Rightarrow>
               bindE (AugmentTarget (GetLocation value) entries) (\<lambda>target.
               bindE (augment_targets targets) (\<lambda>rest. Inr ((key, target) # rest))))"

definition AugmentAST :: "ast \<Rightarrow> string + ast" where
  "AugmentAST expr =
     (case map_fields expr of
        None \<Rightarrow> Inl ''AST node is not a literal map.''
      | Some targets \<Rightarrow>
          bindE (augment_targets targets) (\<lambda>targets.
            Inr (mk_VerbatimNode (GetLocation expr) (mk_MapNode (GetLocation expr) targets) VerbatimFlat None)))"

section \<open>The preprocessor\<close>

datatype FileType = Plain | Targets | Rules | Expressions

record preprocessor =
  pp_reader :: "FileLocation \<Rightarrow> string \<Rightarrow> string option \<Rightarrow> FileData option"
  pp_json :: json_lib
  pp_inline :: inline_lib
  pp_depth :: nat

text \<open>
  The tree, or the message for the logger. \<open>Aborted\<close> is a call of \<^verbatim>\<open>std::terminate\<close> and
  \<open>Unbounded\<close> stands for more recursion than \<open>pp_depth\<close> allows.
\<close>

datatype process_error = LogError string | Aborted | Unbounded

definition of_parser :: "parse_error + ast \<Rightarrow> process_error + ast" where
  "of_parser r =
     (case r of
        Inr expr \<Rightarrow> Inr expr
      | Inl (ASTParseError what) \<Rightarrow> Inl (LogError (what @ [CHR 0x0A]))
      | Inl OutOfFuel \<Rightarrow> Inl Unbounded
      | Inl e \<Rightarrow> Inl Aborted)"

definition internal_error :: "string \<Rightarrow> process_error" where
  "internal_error what = LogError (''Internal error:'' @ [CHR 0x0A] @ what @ [CHR 0x0A])"

definition of_inliner :: "ast inlined \<Rightarrow> process_error + ast" where
  "of_inliner r =
     (case r of
        Inr expr \<Rightarrow> Inr expr
      | Inl (InlineError what) \<Rightarrow>
          Inl (LogError (''AST inlining failed with:'' @ [CHR 0x0A] @ what @ [CHR 0x0A]))
      | Inl (LengthError what) \<Rightarrow> Inl (internal_error what)
      | Inl InlineFuel \<Rightarrow> Inl Unbounded)"

definition augmented :: "FileType \<Rightarrow> ast \<Rightarrow> process_error + ast" where
  "augmented type inl_ast =
     (case type of
        Plain \<Rightarrow> Inr inl_ast
      | Targets \<Rightarrow>
          (case AugmentAST inl_ast of
             Inr expr \<Rightarrow> Inr expr
           | Inl what \<Rightarrow> Inl (LogError (''AST augmentation failed with:'' @ [CHR 0x0A] @ what @ [CHR 0x0A])))
      | _ \<Rightarrow> Inl (LogError ''not yet implemented file type''))"

definition Process_data :: "preprocessor \<Rightarrow> FileData \<Rightarrow> FileType \<Rightarrow> process_error + ast" where
  "Process_data P file_data type =
     bindE (of_parser (ParseData (pp_depth P) (pp_reader P) (pp_json P) [] file_data)) (\<lambda>jst_ast.
     bindE (if type = Plain then Inr ()
            else case StaticAnalysis jst_ast of Inr u \<Rightarrow> Inr u | Inl what \<Rightarrow> Inl (internal_error what)) (\<lambda>_.
     bindE (of_inliner (InlineAST (pp_inline P) (pp_depth P) (ProvideBuiltinsToAST jst_ast))) (\<lambda>inl_ast.
       augmented type inl_ast)))"

definition Process :: "preprocessor \<Rightarrow> string \<Rightarrow> string \<Rightarrow> FileType \<Rightarrow> process_error + ast" where
  "Process P global_repo file_path type =
     (case pp_reader P \<lparr>fl_repo = global_repo, fl_path = ''/'', fl_content = None\<rparr> file_path None of
        None \<Rightarrow>
          (case FileLocation_ToString (pp_json P) \<lparr>fl_repo = global_repo, fl_path = file_path, fl_content = None\<rparr> of
             None \<Rightarrow> Inl Aborted
           | Some file \<Rightarrow> Inl (LogError (''Reading file '' @ file @ '' failed.'' @ [CHR 0x0A])))
      | Some file_data \<Rightarrow> Process_data P file_data type)"

text \<open>\<^verbatim>\<open>Serialize\<close>, which may also have logged a message.\<close>

definition Serialize :: "ast option \<Rightarrow> string option \<times> json option" where
  "Serialize node =
     (case node of
        None \<Rightarrow> (None, None)
      | Some n \<Rightarrow>
          (case ASTToJson VerbatimNone False n of
             Inr j \<Rightarrow> (None, Some j)
           | Inl what \<Rightarrow> (Some (''AST serialization error:'' @ [CHR 0x0A] @ what), None)))"

section \<open>The command line\<close>

text \<open>The name of the file and its type, or what is said before the usage.\<close>

fun parse_arguments :: "bool \<Rightarrow> string option \<times> FileType \<Rightarrow> string list \<Rightarrow> string + string option \<times> FileType" where
  "parse_arguments only_positional r [] = Inr r"
| "parse_arguments only_positional (name, file_type) (arg # args) =
     (if \<not> only_positional \<and> take 2 arg = ''--''
      then if length arg = 2 then parse_arguments True (name, file_type) args
           else if arg = ''--help'' then Inl []
           else if arg = ''--plain'' then parse_arguments only_positional (name, Plain) args
           else if arg = ''--targets'' then parse_arguments only_positional (name, Targets) args
           else if arg = ''--rules'' then parse_arguments only_positional (name, Rules) args
           else if arg = ''--expression'' then parse_arguments only_positional (name, Expressions) args
           else Inl (''Unknown option '' @ arg)
      else parse_arguments only_positional (Some arg, file_type) args)"

definition ParseArguments :: "string list \<Rightarrow> string + string \<times> FileType" where
  "ParseArguments args =
     bindE (parse_arguments False (None, Targets) args) (\<lambda>(name, file_type).
       case name of
         None \<Rightarrow> Inl ''Missing filename argument.''
       | Some file_name \<Rightarrow> Inr (file_name, file_type))"

text \<open>\<^verbatim>\<open>ReadData\<close>: each line that is read is written with a line break.\<close>

fun read_lines :: "string \<Rightarrow> string \<Rightarrow> string" where
  "read_lines buffer [] = buffer @ [CHR 0x0A]"
| "read_lines buffer (c # istream) =
     (if c = CHR 0x0A then buffer @ [CHR 0x0A] @ read_lines [] istream
      else read_lines (buffer @ [c]) istream)"

definition ReadData :: "string \<Rightarrow> string" where
  "ReadData istream = read_lines [] istream"

text \<open>What is read is the input with one more line break, also where it has ended with one.\<close>

lemma read_lines_appends: "read_lines buffer istream = buffer @ istream @ [CHR 0x0A]"
  by (induction istream arbitrary: buffer) auto

lemma ReadData_appends: "ReadData istream = istream @ [CHR 0x0A]"
  by (simp add: ReadData_def read_lines_appends)

end
