(* ===== verification/Jst_Inline_Props.thy ===== *)
theory Jst_Inline_Props
  imports Jst_Preprocessor
begin

text \<open>
  What the inliner gives. A class of nodes that is closed under the constructors the builtin functions
  use is a locale, in which all builtin functions are shown to stay in the class. It is
  interpreted for the nodes that are left by full inlining, and for consistent nodes.
\<close>

section \<open>Results with a property\<close>

definition gives :: "('a \<Rightarrow> bool) \<Rightarrow> 'e + 'a \<Rightarrow> bool" where
  "gives P r \<longleftrightarrow> (case r of Inl _ \<Rightarrow> True | Inr x \<Rightarrow> P x)"

named_theorems gives_intro

lemma gives_simps [simp]: "gives P (Inl e)" "gives P (Inr x) \<longleftrightarrow> P x"
  by (simp_all add: gives_def)

lemma givesD: "gives P r \<Longrightarrow> r = Inr x \<Longrightarrow> P x"
  by (simp add: gives_def)

lemma givesI: "(\<And>x. r = Inr x \<Longrightarrow> P x) \<Longrightarrow> gives P r"
  by (cases r) simp_all

lemma gives_weaken: "gives P r \<Longrightarrow> (\<And>x. P x \<Longrightarrow> Q x) \<Longrightarrow> gives Q r"
  by (auto simp: gives_def split: sum.splits)

lemma gives_bind: "gives Q m \<Longrightarrow> (\<And>x. Q x \<Longrightarrow> gives P (k x)) \<Longrightarrow> gives P (bindE m k)"
  by (cases m) simp_all

lemma gives_bind_any [gives_intro]: "(\<And>x. m = Inr x \<Longrightarrow> gives P (k x)) \<Longrightarrow> gives P (bindE m k)"
  by (cases m) simp_all

lemma gives_errors [simp]: "gives P (BuiltInError loc msg)" "gives P (ASTInlineError msg loc)"
  by (simp_all add: BuiltInError_def ASTInlineError_def split: sum.splits)

lemma gives_catch_exception [simp]: "gives P (catch_exception r) \<longleftrightarrow> gives P r"
  by (cases r) (auto simp: catch_exception_def split: inline_error.splits)

lemma gives_rethrow_call: "gives P r \<Longrightarrow> gives P (rethrow_call loc r)"
  by (auto simp: rethrow_call_def split: sum.splits inline_error.splits)

lemma gives_required [gives_intro]:
  "(\<And>n. node = Some n \<Longrightarrow> gives P (k n)) \<Longrightarrow> gives P (required loc msg node k)"
  by (cases node) (simp_all add: required_def)

section \<open>Parameters\<close>

definition all_args :: "(ast \<Rightarrow> bool) \<Rightarrow> ('a \<times> ast option) list \<Rightarrow> bool" where
  "all_args P args \<longleftrightarrow> (\<forall>a \<in> set args. \<forall>n. snd a = Some n \<longrightarrow> P n)"

lemma all_args_simps [simp]:
  "all_args P []" "all_args P (a # args) \<longleftrightarrow> (\<forall>n. snd a = Some n \<longrightarrow> P n) \<and> all_args P args"
  by (auto simp: all_args_def)

lemma name_arguments_all:
  "name_arguments unnamed args named = Inr r \<Longrightarrow> all_args P args \<Longrightarrow> all_args P named \<Longrightarrow> all_args P r"
proof (induction unnamed args named rule: name_arguments.induct)
  case (2 unnamed given node args named)
  then show ?case
    by (auto simp: bindE_Inr_iff split: option.splits list.splits if_splits)
qed simp

lemma check_expected_same: "check_expected es named = Inr r \<Longrightarrow> r = named"
  by (induction es named rule: check_expected.induct) (auto split: option.splits if_splits)

lemma MakeNamedParameters_all: "MakeNamedParameters args es = Inr named \<Longrightarrow> all_args P args \<Longrightarrow> all_args P named"
  by (auto simp: MakeNamedParameters_def bindE_Inr_iff dest!: check_expected_same intro: name_arguments_all)

lemma gives_with_parameters [gives_intro]:
  "all_args P args \<Longrightarrow> (\<And>named. all_args P named \<Longrightarrow> gives Q (k named)) \<Longrightarrow>
     gives Q (with_parameters loc fname args es k)"
  by (auto simp: with_parameters_def dest: MakeNamedParameters_all split: sum.splits)

lemma RetrieveAs_all: "RetrieveAs named name = Some n \<Longrightarrow> all_args P named \<Longrightarrow> P n"
  by (fastforce simp: RetrieveAs_def all_args_def dest: map_of_SomeD split: option.splits)

lemma RetrieveString_all: "RetrieveString named name = Some n \<Longrightarrow> all_args P named \<Longrightarrow> P n"
  by (auto simp: RetrieveString_def dest: RetrieveAs_all split: option.splits if_splits)

lemma RetrieveFunc_all: "RetrieveFunc named name = Some n \<Longrightarrow> all_args P named \<Longrightarrow> P n \<and> is_FuncNode n"
  by (auto simp: RetrieveFunc_def dest: RetrieveAs_all split: option.splits if_splits)

section \<open>Builtin functions stay in a class of nodes\<close>

locale node_class =
  fixes P :: "ast \<Rightarrow> bool"
  assumes P_list: "\<forall>n \<in> set nodes. P n \<Longrightarrow> P (mk_ListNode loc nodes)"
    and P_map: "\<forall>f \<in> set entries. P (fst f) \<and> P (snd f) \<Longrightarrow> P (mk_MapNode loc entries)"
    and P_leaf: "P (mk_BoolNode loc b)" "P (mk_StringNode loc s)" "P (mk_NumberNode loc x)" "P (mk_NullNode loc)"
    and P_if: "P c \<Longrightarrow> P t \<Longrightarrow> P e \<Longrightarrow> P (mk_IfNode loc c (Some t) (Some e))"
    and P_verbatim: "P e \<Longrightarrow> P (mk_VerbatimNode loc e vtype eval_type)"
    and P_items: "list_items n = Some nodes \<Longrightarrow> P n \<Longrightarrow> \<forall>x \<in> set nodes. P x"
    and P_fields: "map_fields n = Some entries \<Longrightarrow> P n \<Longrightarrow> \<forall>f \<in> set entries. P (fst f) \<and> P (snd f)"
begin

definition fields_in :: "(ast \<times> ast) list \<Rightarrow> bool" where
  "fields_in entries \<longleftrightarrow> (\<forall>f \<in> set entries. P (fst f) \<and> P (snd f))"

lemma fields_in_simps [simp]:
  "fields_in []" "fields_in (f # entries) \<longleftrightarrow> P (fst f) \<and> P (snd f) \<and> fields_in entries"
  "fields_in (xs @ ys) \<longleftrightarrow> fields_in xs \<and> fields_in ys" "fields_in (rev xs) \<longleftrightarrow> fields_in xs"
  by (auto simp: fields_in_def)

lemma P_constants [simp]:
  "P (mk_BoolNode loc b)" "P (mk_StringNode loc s)" "P (mk_NumberNode loc x)" "P (mk_NullNode loc)"
  "P kNullNode" "P kEmptyMap_node" "P kEmptyString" "P kDotPath" "P kFalseBool"
  by (simp_all add: P_leaf kNullNode_def kEmptyMap_node_def kEmptyString_def kDotPath_def kFalseBool_def P_map)

lemma P_map_in [simp]: "fields_in entries \<Longrightarrow> P (mk_MapNode loc entries)"
  by (simp add: P_map fields_in_def)

lemma P_field [simp]: "P (fst (field loc name n))" "snd (field loc name n) = n"
  by (simp_all add: field_def)

lemma fields_in_optional [simp]: "fields_in (optional_field loc name node) \<longleftrightarrow> (\<forall>n. node = Some n \<longrightarrow> P n)"
  by (cases node) (simp_all add: optional_field_def field_def)

lemma P_runtime_call [simp]: "fields_in entries \<Longrightarrow> P (runtime_call loc type entries eval_type)"
  by (auto simp: runtime_call_def field_def intro!: P_verbatim)

lemma P_map_fields [simp, dest]: "map_fields n = Some entries \<Longrightarrow> P n \<Longrightarrow> fields_in entries"
  by (simp add: P_fields fields_in_def)

lemma lookup_field_in: "lookup_field name entries = Found value \<Longrightarrow> fields_in entries \<Longrightarrow> P value"
  by (induction name entries rule: lookup_field.induct) (auto split: option.splits if_splits)

lemma flatten_items_in:
  "\<forall>n \<in> set nodes. P n \<Longrightarrow> \<forall>n \<in> set out. P n \<Longrightarrow>
     gives (\<lambda>r. \<forall>ns. r = Some ns \<longrightarrow> (\<forall>n \<in> set ns. P n)) (flatten_items loc out nodes)"
proof (induction loc out nodes rule: flatten_items.induct)
  case (2 loc out n ns)
  show ?case
  proof (cases "list_items n")
    case (Some xs)
    moreover have "\<forall>x \<in> set xs. P x" using Some 2(2) by (intro P_items) auto
    ultimately show ?thesis using 2 by simp blast
  qed simp
qed simp

lemma literal_maps_in:
  "\<forall>n \<in> set nodes. P n \<Longrightarrow>
     gives (\<lambda>r. \<forall>ms. r = Some ms \<longrightarrow> (\<forall>m \<in> set ms. fields_in m)) (literal_maps loc nodes)"
proof (induction loc nodes rule: literal_maps.induct)
  case (2 loc n ns)
  show ?case
  proof (cases "map_fields n")
    case (Some entries)
    moreover have "fields_in entries" using Some 2(2) by (intro P_map_fields) auto
    ultimately show ?thesis using 2 by (auto intro!: gives_bind)
  qed simp
qed simp

lemma union_fields_in:
  "fields_in entries \<Longrightarrow> fields_in out \<Longrightarrow>
     gives (\<lambda>r. \<forall>es. r = Some es \<longrightarrow> fields_in es) (union_fields L loc disjoint out entries)"
proof (induction L loc disjoint out entries rule: union_fields.induct)
  case (2 L loc disjoint out key val entries)
  have upd: "fields_in (out[i := (fst (out ! i), val)])" if "field_pos name out = Some i" for name i
  proof -
    have "i < length out" using that
      by (induction name out arbitrary: i rule: field_pos.induct) (auto split: if_splits)
    with 2(4,5) show ?thesis
      by (fastforce simp: fields_in_def dest: set_update_subset_insert [THEN subsetD])
  qed
  show ?case
    using 2(4,5) 2(1-3)
    by (cases "string_value key"; cases "field_pos (the (string_value key)) out"; cases disjoint;
        cases "CheckEqual L val (snd (out ! the (field_pos (the (string_value key)) out)))") (auto simp: upd split: bool.splits)
qed simp

lemma union_maps_in:
  "\<forall>m \<in> set ms. fields_in m \<Longrightarrow> fields_in out \<Longrightarrow>
     gives (\<lambda>r. \<forall>es. r = Some es \<longrightarrow> fields_in es) (union_maps L loc disjoint out ms)"
  by (induction L loc disjoint out ms rule: union_maps.induct)
    (auto intro!: gives_bind union_fields_in split: option.splits)

lemma zip_fields_in:
  "\<forall>n \<in> set ks. P n \<Longrightarrow> \<forall>n \<in> set vs. P n \<Longrightarrow> gives fields_in (zip_fields loc ks vs)"
  by (induction loc ks vs rule: zip_fields.induct) (auto intro!: gives_bind)

lemma nub_items_in: "nub_items L seen out nodes = Some ns \<Longrightarrow> set ns \<subseteq> set out \<union> set nodes"
  by (induction L seen out nodes rule: nub_items.induct) (auto split: sum.splits if_splits)

lemma enumerate_fields_in: "\<forall>n \<in> set nodes. P n \<Longrightarrow> fields_in (enumerate_fields loc pos nodes)"
  by (induction loc pos nodes rule: enumerate_fields.induct) (simp_all add: field_def)

lemma stage_fields_in:
  "fields_in entries \<Longrightarrow> \<forall>s \<in> set seen. P (snd s) \<Longrightarrow>
     gives (\<lambda>r. \<forall>es. r = Some es \<longrightarrow> fields_in es) (stage_fields L loc new_path complaint seen entries)"
  by (induction L loc new_path complaint seen entries rule: stage_fields.induct)
    (auto simp: fields_in_def field_def split: option.splits bool.splits)

lemma required_in:
  "all_args P named \<Longrightarrow> (\<And>n. RetrieveAs named name = Some n \<Longrightarrow> P n \<Longrightarrow> gives R (k n)) \<Longrightarrow>
     gives R (required loc msg (RetrieveAs named name) k)"
  by (rule gives_required) (blast dest: RetrieveAs_all)

lemma required_string_in:
  "all_args P named \<Longrightarrow> (\<And>n. RetrieveString named name = Some n \<Longrightarrow> P n \<Longrightarrow> gives R (k n)) \<Longrightarrow>
     gives R (required loc msg (RetrieveString named name) k)"
  by (rule gives_required) (blast dest: RetrieveString_all)

lemma required_func_in:
  "all_args P named \<Longrightarrow> (\<And>n. RetrieveFunc named name = Some n \<Longrightarrow> P n \<Longrightarrow> is_FuncNode n \<Longrightarrow> gives R (k n)) \<Longrightarrow>
     gives R (required loc msg (RetrieveFunc named name) k)"
  by (rule gives_required) (blast dest: RetrieveFunc_all)

lemmas enter = gives_with_parameters [where P = P] required_in required_string_in required_func_in

lemma given_in [simp]: "RetrieveAs named name = Some n \<Longrightarrow> all_args P named \<Longrightarrow> P n"
  by (rule RetrieveAs_all)

lemma list_items_in [simp]: "list_items n = Some nodes \<Longrightarrow> P n \<Longrightarrow> x \<in> set nodes \<Longrightarrow> P x"
  using P_items by blast

lemma fields_keys [simp]: "map_fields n = Some entries \<Longrightarrow> P n \<Longrightarrow> (key, v) \<in> set entries \<Longrightarrow> P key"
  using P_fields by fastforce

text \<open>Literal parts are computed in the class, too.\<close>

lemma flatten_in:
  "P n \<Longrightarrow> gives (\<lambda>r. \<forall>ns. r = Some ns \<longrightarrow> (\<forall>n \<in> set ns. P n))
     (case list_items n of None \<Rightarrow> Inr None | Some nodes \<Rightarrow> flatten_items loc [] nodes)"
  by (auto split: option.split intro!: flatten_items_in)

lemma computed_builtins:
  assumes "all_args P args"
  shows "gives P (BuiltIn_flatten loc args)" "gives P (BuiltIn_map_union L loc args)" "gives P (BuiltIn_zip_map loc args)"
  using assms
  by (auto simp: BuiltIn_flatten_def BuiltIn_map_union_def BuiltIn_zip_map_def Let_def
      intro!: enter gives_bind [OF flatten_in] gives_bind [OF literal_maps_in] gives_bind [OF union_maps_in]
        gives_bind [OF zip_fields_in] P_list split: option.splits bool.splits)

lemma looked_up_in [simp]:
  "lookup_field name (rev entries) = Found v \<Longrightarrow> map_fields n = Some entries \<Longrightarrow> P n \<Longrightarrow> P v"
  by (erule lookup_field_in) (auto dest: P_map_fields)

lemmas P_if_in [simp] = P_if

lemma lookup_builtins:
  assumes "all_args P args"
  shows "gives P (BuiltIn_get L loc args)" "gives P (BuiltIn_at L loc args)"
  using assms
  by (auto simp: BuiltIn_get_def BuiltIn_at_def Let_def
      intro!: enter split: option.splits lookup_result.splits if_splits)

lemma nub_in [simp]:
  "nub_items L [] [] nodes = Some ns \<Longrightarrow> list_items n = Some nodes \<Longrightarrow> P n \<Longrightarrow> x \<in> set ns \<Longrightarrow> P x"
  "nub_items L [] [] (rev nodes) = Some ns \<Longrightarrow> list_items n = Some nodes \<Longrightarrow> P n \<Longrightarrow> x \<in> set ns \<Longrightarrow> P x"
  using nub_items_in [of L "[]" "[]"] by fastforce+

lemma list_builtins:
  assumes "all_args P args"
  shows "gives P (BuiltIn_nub_right L loc args)" "gives P (BuiltIn_nub_left L loc args)"
    "gives P (BuiltIn_range L loc args)" "gives P (BuiltIn_reverse loc args)" "gives P (BuiltIn_length loc args)"
  using assms
  by (auto simp: BuiltIn_nub_right_def BuiltIn_nub_left_def nub_function_def BuiltIn_range_def BuiltIn_reverse_def
      BuiltIn_length_def intro!: enter P_list split: option.splits if_splits)

lemma string_builtins:
  assumes "all_args P args"
  shows "gives P (BuiltIn_basename loc args)" "gives P (BuiltIn_join_cmd loc args)"
    "gives P (BuiltIn_change_ending loc args)" "gives P (BuiltIn_escape_chars loc args)"
  using assms
  by (auto simp: BuiltIn_basename_def BuiltIn_join_cmd_def BuiltIn_change_ending_def BuiltIn_escape_chars_def Let_def
      intro!: enter gives_bind_any split: option.splits)

lemma map_builtins:
  assumes "all_args P args"
  shows "gives P (BuiltIn_enumerate loc args)" "gives P (BuiltIn_to_subdir L loc args)"
    "gives P (BuiltIn_from_subdir L loc args)"
  using assms
  by (auto simp: BuiltIn_enumerate_def BuiltIn_to_subdir_def BuiltIn_from_subdir_def Let_def
      intro!: enter gives_bind [OF stage_fields_in] enumerate_fields_in P_map_in dest: P_items split: option.splits)

end

text \<open>
  With variables of the configuration, and nodes \<open>Q\<close> that the inliner takes to nodes of the class.
\<close>

locale builtin_class = node_class P for P :: "ast \<Rightarrow> bool" +
  fixes Q :: "ast \<Rightarrow> bool"
  assumes P_var: "\<forall>d. default_expr = Some d \<longrightarrow> P d \<Longrightarrow> P (mk_VarNode loc name default_expr)"
    and Q_foreach: "is_FuncNode f \<Longrightarrow> P f \<Longrightarrow> P r \<Longrightarrow> Q (mk_ForEachNode loc v r (func_body f))"
    and Q_zip_with: "is_FuncNode f \<Longrightarrow> P f \<Longrightarrow> P r1 \<Longrightarrow> P r2 \<Longrightarrow>
      Q (mk_ZipWithNode loc v1 v2 r1 r2 (func_body f))"
    and Q_foldl: "is_FuncNode f \<Longrightarrow> P f \<Longrightarrow> P i \<Longrightarrow> P r \<Longrightarrow>
      Q (mk_FoldLeftNode loc v1 v2 i r (func_body f))"
begin

lemma simple_builtins:
  assumes "all_args P args"
  shows "gives P (BuiltIn_env loc args)" "gives P (BuiltIn_join loc args)"
    "gives P (BuiltIn_keys loc args)" "gives P (BuiltIn_fail loc args)" "gives P (BuiltIn_json_encode L loc args)"
    "gives P (BuiltIn_file loc args)" "gives P (BuiltIn_symlink loc args)" "gives P (BuiltIn_tree loc args)"
    "gives P (BuiltIn_glob loc args)" "gives P (BuiltIn_all loc args)" "gives P (BuiltIn_any loc args)"
    "gives P (BuiltIn_sum loc args)" "gives P (BuiltIn_prod loc args)" "gives P (BuiltIn_eq L loc args)"
    "gives P (BuiltIn_negate loc args)"
  using assms
  by (auto simp: BuiltIn_env_def BuiltIn_join_def BuiltIn_keys_def BuiltIn_fail_def BuiltIn_json_encode_def
      BuiltIn_file_def BuiltIn_symlink_def BuiltIn_tree_def BuiltIn_glob_def file_reference_def BuiltIn_all_def
      BuiltIn_any_def junction_def BuiltIn_sum_def BuiltIn_prod_def arithmetic_def BuiltIn_eq_def BuiltIn_negate_def Let_def
      intro!: enter gives_bind_any P_var P_list split: option.splits sum.splits)

lemma inlining_builtins:
  assumes "all_args P args" and "\<And>n. Q n \<Longrightarrow> gives P (cb n)"
  shows "gives P (BuiltIn_foreach cb loc args)" "gives P (BuiltIn_zip_with cb loc args)" "gives P (BuiltIn_foldl cb loc args)"
  using assms
  by (auto simp: BuiltIn_foreach_def BuiltIn_zip_with_def BuiltIn_foldl_def Q_foreach Q_zip_with Q_foldl
      intro!: enter split: list.splits)

text \<open>All functions of the table.\<close>

theorem builtins_in_class:
  assumes "map_of kBuiltinFunctions name = Some f" and "all_args P args" and "\<And>n. Q n \<Longrightarrow> gives P (cb n)"
  shows "gives P (f L cb loc args)"
  using map_of_SomeD [OF assms(1)] assms(2,3)
  unfolding kBuiltinFunctions_def
  by (auto intro: simple_builtins computed_builtins lookup_builtins list_builtins string_builtins map_builtins inlining_builtins)

end


section \<open>What the inliner keeps\<close>

text \<open>
  In part or fully, inlining keeps trees consistent; what it gives when it is full is a tree for
  the evaluator.
\<close>

definition kept :: "bool \<Rightarrow> ast \<Rightarrow> bool" where
  "kept partial_inline n \<longleftrightarrow> wf_ast n \<and> (partial_inline \<or> runtime n)"

lemma kept_wf: "kept p n \<Longrightarrow> wf_ast n"
  by (simp add: kept_def)

lemma kept_True [simp]: "kept True n \<longleftrightarrow> wf_ast n"
  by (simp add: kept_def)

lemma kept_weaken: "kept p n \<Longrightarrow> kept (p \<or> q) n"
  by (auto simp: kept_def)

lemma kept_mk [simp]:
  "kept p (mk_ListNode loc nodes) \<longleftrightarrow> (\<forall>n \<in> set nodes. kept p n)"
  "kept p (mk_MapNode loc entries) \<longleftrightarrow> (\<forall>f \<in> set entries. kept p (fst f) \<and> kept p (snd f))"
  "kept p (mk_BoolNode loc b)" "kept p (mk_StringNode loc s)" "kept p (mk_NumberNode loc x)" "kept p (mk_NullNode loc)"
  "kept p (mk_VarNode loc name d) \<longleftrightarrow> (case d of None \<Rightarrow> True | Some e \<Rightarrow> kept False e)"
  "kept p (mk_IfNode loc c t e) \<longleftrightarrow> kept p c \<and> (case t of None \<Rightarrow> True | Some n \<Rightarrow> kept p n) \<and>
     (case e of None \<Rightarrow> True | Some n \<Rightarrow> kept p n)"
  "kept p (mk_VerbatimNode loc n vtype ty) \<longleftrightarrow> kept p n"
  "kept p (mk_ForEachNode loc v r body) \<longleftrightarrow> kept p r \<and> kept p body"
  "kept p (mk_ZipWithNode loc v1 v2 r1 r2 body) \<longleftrightarrow> kept p r1 \<and> kept p r2 \<and> kept p body"
  "kept p (mk_FoldLeftNode loc v1 v2 i r body) \<longleftrightarrow> kept p i \<and> kept p r \<and> kept p body"
  "kept p (mk_BuiltinNode name)"
  by (auto simp: kept_def split: option.splits)

lemma kept_mk_FuncNode:
  "\<forall>a \<in> set params. \<forall>d. snd a = Some d \<longrightarrow> wf_ast d \<Longrightarrow> kept (p \<or> params \<noteq> []) body \<Longrightarrow>
     kept p (mk_FuncNode loc params body)"
  by (auto simp: kept_def split: option.splits)

lemma kept_FuncNode:
  "kept p (FuncNode b params body) \<Longrightarrow>
     wf_ast body \<and> (params = [] \<longrightarrow> kept p body) \<and> (\<forall>a \<in> set params. \<forall>d. snd a = Some d \<longrightarrow> wf_ast d)"
  by (auto simp: kept_def split: option.splits)

interpretation anyway: node_class "kept p"
proof unfold_locales
  show "\<forall>x \<in> set nodes. kept p x" if "list_items n = Some nodes" "kept p n" for n nodes
    using that by (cases n) (simp_all add: kept_def)
  show "\<forall>f \<in> set entries. kept p (fst f) \<and> kept p (snd f)" if "map_fields n = Some entries" "kept p n" for n entries
    using that by (cases n) (auto simp: kept_def)
qed (auto simp: kept_def)

lemma wf_func_body: "is_FuncNode f \<Longrightarrow> wf_ast f \<Longrightarrow> wf_ast (func_body f)"
  by (cases f) simp_all

interpretation full: builtin_class "kept False" wf_ast
  by unfold_locales (auto simp: kept_wf wf_func_body split: option.splits)

definition inlines :: "inliner \<Rightarrow> bool" where
  "inlines I \<longleftrightarrow> (\<forall>scope p n. all_args (kept p) scope \<longrightarrow> wf_ast n \<longrightarrow> gives (kept p) (I scope p n))"

lemma inlinesD: "inlines I \<Longrightarrow> all_args (kept p) scope \<Longrightarrow> wf_ast n \<Longrightarrow> gives (kept p) (I scope p n)"
  by (simp add: inlines_def)

lemma all_args_AddDef [simp]: "all_args P (AddDef name d scope) \<longleftrightarrow> (\<forall>n. d = Some n \<longrightarrow> P n) \<and> all_args P scope"
  by (simp add: AddDef_def)

lemma all_args_GetDef: "GetDef scope name = Some (Some n) \<Longrightarrow> all_args P scope \<Longrightarrow> P n"
  by (fastforce simp: GetDef_def all_args_def dest: map_of_SomeD)

lemma all_args_weaken: "all_args (kept p) scope \<Longrightarrow> all_args (kept (p \<or> q)) scope"
  by (auto simp: all_args_def kept_weaken)

text \<open>The loops of the operators.\<close>

lemma inline_list_gives:
  "(\<And>n. n \<in> set nodes \<Longrightarrow> gives P (I n)) \<Longrightarrow> gives (\<lambda>es. \<forall>e \<in> set es. P e) (inline_list I nodes)"
  by (induction I nodes rule: inline_list.induct) (auto intro!: gives_bind)

lemma inline_fields_gives:
  "(\<And>f. f \<in> set entries \<Longrightarrow> gives P (I (fst f)) \<and> gives P (I (snd f))) \<Longrightarrow>
     gives (\<lambda>es. \<forall>f \<in> set es. P (fst f) \<and> P (snd f)) (inline_fields I entries)"
  by (induction I entries rule: inline_fields.induct) (fastforce intro!: gives_bind)+

lemma inline_option_gives:
  "(\<And>n. node = Some n \<Longrightarrow> gives P (I n)) \<Longrightarrow> gives (\<lambda>d. \<forall>n. d = Some n \<longrightarrow> P n) (inline_option I node)"
  by (cases node) (auto intro!: gives_bind)

lemma inline_args_gives:
  "(\<And>a. a \<in> set ps \<Longrightarrow> gives P (I (snd a))) \<Longrightarrow>
     gives (\<lambda>es. map fst es = map fst ps \<and> (\<forall>a \<in> set es. P (snd a))) (inline_args I ps)"
proof (induction I ps rule: inline_args.induct)
  case (2 I pname pexpr ps)
  then have "gives P (I pexpr)" by force
  moreover have "gives (\<lambda>es. map fst es = map fst ps \<and> (\<forall>a \<in> set es. P (snd a))) (inline_args I ps)"
    using 2 by simp
  ultimately show ?case by (auto intro!: gives_bind [where Q = P] elim: gives_bind)
qed simp

lemma inline_pairs_gives:
  "(\<And>x y. x \<in> set xs \<Longrightarrow> y \<in> set ys \<Longrightarrow> gives P (I x y)) \<Longrightarrow> gives (\<lambda>es. \<forall>e \<in> set es. P e) (inline_pairs I xs ys)"
  by (induction I xs ys rule: inline_pairs.induct) (auto intro!: gives_bind)

text \<open>Calls.\<close>

lemma bind_params_kept:
  assumes I: "inlines I" and scope: "all_args (kept p) scope"
  shows "\<forall>a \<in> set ps. \<forall>d. snd a = Some d \<longrightarrow> wf_ast d \<Longrightarrow> \<forall>c \<in> set cs. wf_ast (snd c) \<Longrightarrow>
    all_args (kept p) func_scope \<Longrightarrow> gives (all_args (kept p)) (bind_params I scope p callee_loc ps cs func_scope)"
proof (induction ps arbitrary: cs func_scope)
  case (Cons a ps)
  then show ?case using scope
    by (cases a; cases cs) (auto split: option.splits intro!: gives_bind [OF inlinesD [OF I]] Cons.IH)
qed (cases cs, simp_all)

lemma InlineFuncBody_kept:
  assumes I: "inlines I" and scope: "all_args (kept p) scope" and callee: "kept p (FuncNode b fparams body)"
    and args: "\<forall>as. params = Some as \<longrightarrow> (\<forall>a \<in> set as. wf_ast (snd a))"
  shows "gives (kept p) (InlineFuncBody I scope p loc params callee_loc fparams body)"
  using scope args kept_FuncNode [OF callee]
  by (auto simp: InlineFuncBody_def split: option.splits
      intro!: gives_rethrow_call gives_bind [OF bind_params_kept [OF I]] inlinesD [OF I])

lemma CallBuiltinWithParams_kept:
  assumes I: "inlines I" and scope: "all_args (kept False) scope" and args: "all_args (kept False) args"
  shows "gives (kept False) (CallBuiltinWithParams L (I scope False) name loc args)"
  using full.builtins_in_class [OF _ args] inlinesD [OF I scope]
  by (auto simp: CallBuiltinWithParams_def split: option.splits)

lemma CallBuiltin_nodes_kept:
  "inlines I \<Longrightarrow> all_args (kept False) scope \<Longrightarrow> \<forall>a \<in> set params. \<forall>n. a = Some n \<longrightarrow> kept False n \<Longrightarrow>
     gives (kept False) (CallBuiltin_nodes L (I scope False) name loc params)"
  unfolding CallBuiltin_nodes_def by (rule CallBuiltinWithParams_kept) (auto simp: all_args_def)

text \<open>Lookups are computed in partial inlining, too.\<close>

lemma CallBuiltin_lookup_kept:
  assumes "name = ''get'' \<or> name = ''at''" and "\<forall>a \<in> set params. \<forall>n. a = Some n \<longrightarrow> kept p n"
  shows "gives (kept p) (CallBuiltin_nodes L cb name loc params)"
proof -
  have args: "all_args (kept p) (map (\<lambda>a. (None, a)) params)" for f :: "ast option \<Rightarrow> string option"
    using assms(2) by (auto simp: all_args_def)
  from assms(1) show ?thesis
  proof
    assume "name = ''get''"
    moreover have "map_of kBuiltinFunctions ''get'' = Some (\<lambda>L cb. BuiltIn_get L)" by (simp add: kBuiltinFunctions_def)
    ultimately show ?thesis using anyway.lookup_builtins(1) [OF args]
      by (simp add: CallBuiltin_nodes_def CallBuiltinWithParams_def)
  next
    assume "name = ''at''"
    moreover have "map_of kBuiltinFunctions ''at'' = Some (\<lambda>L cb. BuiltIn_at L)" by (simp add: kBuiltinFunctions_def)
    ultimately show ?thesis using anyway.lookup_builtins(2) [OF args]
      by (simp add: CallBuiltin_nodes_def CallBuiltinWithParams_def)
  qed
qed

lemma gives_check_shadowed: "P n \<Longrightarrow> gives P (check_shadowed scope loc n)"
  by (auto simp: check_shadowed_def split: ast.splits)

lemma args_ordered_names: "args_ordered ps \<longleftrightarrow> list_all (\<lambda>x. x \<noteq> None) (dropWhile (\<lambda>x. x = None) (map fst ps))"
  by (simp add: args_ordered_def dropWhile_map list.pred_map comp_def)

lemma InlineBuiltinCall_kept:
  assumes I: "inlines I" and scope: "all_args (kept p) scope" and b: "wf_target (CallBuiltin builtin)"
    and args: "\<forall>as. params = Some as \<longrightarrow> args_ordered as \<and> (\<forall>a \<in> set as. wf_ast (snd a))"
  shows "gives (kept p) (InlineBuiltinCall L I scope p loc params builtin name)"
proof (cases params)
  case (Some as)
  have es: "gives (\<lambda>es. map fst es = map fst as \<and> (\<forall>a \<in> set es. kept p (snd a))) (inline_args (I scope p) as)"
    using args Some by (intro inline_args_gives inlinesD [OF I scope]) blast
  show ?thesis
  proof (cases p)
    case True
    with es have "gives (\<lambda>es. map fst es = map fst as \<and> (\<forall>a \<in> set es. wf_ast (snd a))) (inline_args (I scope True) as)"
      by simp
    with True Some show ?thesis using b args
      by (auto simp: InlineBuiltinCall_def args_ordered_names elim!: gives_bind)
  next
    case False
    have "gives (kept False) (bindE (CallBuiltinWithParams L (I scope False) name loc (map (\<lambda>(pname, e). (pname, Some e)) es))
        (\<lambda>result. if name = ''env'' then check_shadowed scope loc result else Inr result))"
      if "\<forall>a \<in> set es. kept False (snd a)" for es
      using scope False that
      by (intro gives_bind [OF CallBuiltinWithParams_kept [OF I]]) (auto simp: all_args_def intro!: gives_check_shadowed)
    moreover from False es have "gives (\<lambda>es. \<forall>a \<in> set es. kept False (snd a)) (inline_args (I scope False) as)"
      by (auto elim: gives_weaken)
    ultimately show ?thesis using Some False
      by (auto simp: InlineBuiltinCall_def elim!: gives_bind)
  qed
qed (simp add: InlineBuiltinCall_def)

lemma InlineCall_kept:
  assumes I: "inlines I" and scope: "all_args (kept p) scope" and n: "wf_ast (CallNode b target params)"
  shows "gives (kept p) (InlineCall L I scope p loc target params)"
proof -
  have args: "\<forall>as. params = Some as \<longrightarrow> args_ordered as \<and> (\<forall>a \<in> set as. wf_ast (snd a))"
    using n by (auto split: option.splits)
  have func: "gives (kept p) (InlineFuncBody I scope p loc params (base_loc fb) fparams body)"
    if "kept p (FuncNode fb fparams body)" for fb fparams body
    using args by (intro InlineFuncBody_kept [OF I scope that]) blast
  show ?thesis
  proof (cases target)
    case (CallIdentifier name)
    with n have retained: "wf_ast (mk_CallNode loc target params)" by simp
    show ?thesis
    proof (cases "\<exists>v. GetDef scope name = Some (Some v)")
      case True
      then obtain v where v: "GetDef scope name = Some (Some v)" by blast
      from all_args_GetDef [OF v scope] v CallIdentifier show ?thesis
        by (cases v) (auto simp: InlineCall_def intro!: func)
    next
      case False
      with CallIdentifier retained show ?thesis
        by (auto simp: InlineCall_def split: option.split)
    qed
  next
    case (CallExpr e)
    with n have wf: "wf_ast e" "\<And>t. wf_ast t \<Longrightarrow> wf_ast (mk_CallNode loc (CallExpr t) params)" by simp_all
    have "gives (kept p) (case t of BuiltinNode b name \<Rightarrow> InlineBuiltinCall L I scope p loc params t name
        | FuncNode b fparams body \<Rightarrow> InlineFuncBody I scope p loc params (base_loc b) fparams body
        | _ \<Rightarrow> if p then Inr (mk_CallNode loc (CallExpr t) params) else ASTInlineError ''Call target is not a function.'' loc)"
      if t: "kept p t" for t
      using wf(2) [OF kept_wf [OF t]] t kept_wf [OF t]
      by (cases t) (auto intro!: func InlineBuiltinCall_kept [OF I scope _ args])
    then show ?thesis unfolding InlineCall_def CallExpr call_target.case
      by (rule gives_bind [OF inlinesD [OF I scope wf(1)]])
  next
    case (CallBuiltin e)
    with n show ?thesis
      by (auto simp: InlineCall_def intro!: InlineBuiltinCall_kept [OF I scope _ args])
  qed
qed

text \<open>Definitions, conditions and loops.\<close>

lemma inline_params_kept:
  assumes I: "inlines I"
  shows "all_args (kept p) scope \<Longrightarrow> \<forall>a \<in> set params. \<forall>d. snd a = Some d \<longrightarrow> wf_ast d \<Longrightarrow>
    gives (\<lambda>(ps, func_scope). (ps = [] \<longleftrightarrow> params = []) \<and> all_args (kept p) func_scope \<and>
               (\<forall>a \<in> set ps. \<forall>d. snd a = Some d \<longrightarrow> wf_ast d)) (inline_params I p params scope)"
proof (induction params arbitrary: scope)
  case (Cons a ps)
  obtain pname pexpr where a: "a = (pname, pexpr)" by fastforce
  have e: "gives (\<lambda>d. \<forall>n. d = Some n \<longrightarrow> wf_ast n) (inline_option (I scope p) pexpr)"
    using Cons.prems a by (intro inline_option_gives gives_weaken [OF inlinesD [OF I]]) (auto simp: kept_wf)
  have rest: "gives (\<lambda>(qs, func_scope). (qs = [] \<longleftrightarrow> ps = []) \<and> all_args (kept p) func_scope \<and>
      (\<forall>a \<in> set qs. \<forall>d. snd a = Some d \<longrightarrow> wf_ast d)) (inline_params I p ps (AddDef pname None scope))"
    using Cons.prems by (intro Cons.IH) auto
  show ?case
    unfolding a inline_params.simps
    by (rule gives_bind [OF e], rule gives_bind [OF rest]) auto
qed simp

lemma InlineFunc_kept:
  assumes I: "inlines I" and scope: "all_args (kept p) scope" and n: "wf_ast (FuncNode b params body)"
  shows "gives (kept p) (InlineFunc I scope p loc params body)"
proof -
  from kept_FuncNode [of True, unfolded kept_True, OF n]
  have f: "wf_ast body" "\<forall>a \<in> set params. \<forall>d. snd a = Some d \<longrightarrow> wf_ast d" by auto
  show ?thesis
    unfolding InlineFunc_def Let_def
    by (rule gives_bind [OF inline_params_kept [OF I all_args_weaken [OF scope] f(2)]])
      (use f(1) in \<open>auto intro!: gives_bind [OF inlinesD [OF I]] kept_mk_FuncNode\<close>)
qed

text \<open>What stands for the variables of loops is kept in both modes.\<close>

lemma loop_variable_kept [simp]: "loop_variable p loc name = Some n \<Longrightarrow> kept p n"
  by (auto simp: loop_variable_def split: if_splits)

lemma InlineIf_kept:
  assumes I: "inlines I" and scope: "all_args (kept p) scope" and n: "wf_ast (IfNode b c t e)"
  shows "gives (kept p) (InlineIf I scope p loc c t e)"
proof -
  have branch: "gives (\<lambda>d. \<forall>n. d = Some n \<longrightarrow> kept p n) (inline_option (I scope p) node)" if "node = t \<or> node = e" for node
    using n that by (intro inline_option_gives inlinesD [OF I scope]) auto
  from n have c: "wf_ast c" by simp
  show ?thesis
    unfolding InlineIf_def
    by (rule gives_bind [OF inlinesD [OF I scope c]])
      (auto simp: kEmptyList_node_def split: option.split intro!: gives_bind [OF branch])
qed

lemma InlineForEach_kept:
  assumes I: "inlines I" and scope: "all_args (kept p) scope" and n: "wf_ast (ForEachNode b v r body)"
  shows "gives (kept p) (InlineForEach I scope p loc v r body)"
  using n scope
  by (auto simp: InlineForEach_def split: option.splits
      intro!: gives_bind [OF inlinesD [OF I]] gives_bind [OF inline_list_gives [where P = "kept p"]] inlinesD [OF I])

lemma InlineZipWith_kept:
  assumes I: "inlines I" and scope: "all_args (kept p) scope" and n: "wf_ast (ZipWithNode b v1 v2 r1 r2 body)"
  shows "gives (kept p) (InlineZipWith I scope p loc v1 v2 r1 r2 body)"
  using n scope
  by (auto simp: InlineZipWith_def split: option.splits
      intro!: gives_bind [OF inlinesD [OF I]] gives_bind [OF inline_pairs_gives [where P = "kept p"]] inlinesD [OF I])

lemma unroll_fold_kept:
  assumes I: "inlines I" and body: "wf_ast body"
  shows "\<forall>n \<in> set nodes. kept p n \<Longrightarrow> kept p accu \<Longrightarrow> all_args (kept p) scope \<Longrightarrow>
    gives (kept p) (unroll_fold I p v1 v2 body scope accu nodes)"
  using body by (induction nodes arbitrary: scope accu) (auto simp: Let_def intro!: gives_bind [OF inlinesD [OF I]])

lemma InlineFoldLeft_kept:
  assumes I: "inlines I" and scope: "all_args (kept p) scope" and n: "wf_ast (FoldLeftNode b v1 v2 init rng body)"
  shows "gives (kept p) (InlineFoldLeft I scope p loc v1 v2 init rng body)"
  using n scope
  by (auto simp: InlineFoldLeft_def split: option.splits
      intro!: gives_bind [OF inlinesD [OF I]] unroll_fold_kept [OF I])

text \<open>Operations and lookups.\<close>

lemma InlineUnary_kept:
  assumes I: "inlines I" and scope: "all_args (kept p) scope" and n: "wf_ast (UnaryOperationNode b op e)"
  shows "gives (kept p) (InlineUnary L I scope p loc ty op e)"
proof (cases p)
  case True
  with n scope show ?thesis
    by (auto simp: InlineUnary_def intro!: gives_bind [OF inlinesD [OF I]])
next
  case False
  with n scope show ?thesis
    by (cases op) (auto simp: InlineUnary_def kMinusOne_def
        intro!: gives_bind [OF inlinesD [OF I]] CallBuiltin_nodes_kept [OF I])
qed

lemma gives_if: "gives P a \<Longrightarrow> gives P b \<Longrightarrow> gives P (if c then a else b)"
  by simp

lemma InlineLookup_kept:
  assumes I: "inlines I" and scope: "all_args (kept p) scope" and n: "wf_ast (LookupNode b i c d)"
  shows "gives (kept p) (InlineLookup L I scope p loc i c d)"
proof -
  have call: "gives (kept p) (bindE (CallBuiltin_nodes L (I scope p) name loc [Some x, Some y, z])
      (\<lambda>r. if wrong r then ASTInlineError (msg r) loc else Inr r))"
    if "name = ''get'' \<or> name = ''at''" "kept p x" "kept p y" "\<forall>n. z = Some n \<longrightarrow> kept p n"
    for x y z name wrong and msg :: "ast \<Rightarrow> string"
    using that by (intro gives_bind [OF CallBuiltin_lookup_kept [where p = p]]) auto
  from n have wf: "wf_ast c" "wf_ast i" "\<And>n. d = Some n \<Longrightarrow> wf_ast n" by auto
  show ?thesis
    unfolding InlineLookup_def
    by (rule gives_bind [OF inlinesD [OF I scope wf(1)]], rule gives_bind [OF inlinesD [OF I scope wf(2)]],
        rule gives_bind [OF inline_option_gives [OF inlinesD [OF I scope wf(3)]]])
      (simp_all add: call split: option.split)
qed

lemma InlineBinary_kept:
  assumes I: "inlines I" and scope: "all_args (kept p) scope" and n: "wf_ast (BinaryOperationNode b op l r)"
  shows "gives (kept p) (InlineBinary L I scope p loc ty op l r)"
proof -
  from n have wf: "wf_ast l" "wf_ast r" by auto
  show ?thesis
  proof (cases p)
    case True
    with n scope show ?thesis
      by (auto simp: InlineBinary_def intro!: gives_bind [OF inlinesD [OF I]])
  next
    case False
    then have call: "gives (kept p) (CallBuiltin_nodes L (I scope p) name loc ps)"
      if "\<forall>a \<in> set ps. \<forall>n. a = Some n \<longrightarrow> kept p n" for name ps
      using that scope CallBuiltin_nodes_kept [OF I] by simp
    show ?thesis
      unfolding InlineBinary_def Let_def unsupported_types_def
      by (rule gives_bind [OF inlinesD [OF I scope wf(1)]], rule gives_bind [OF inlinesD [OF I scope wf(2)]], cases op)
        (simp_all only: BinaryOp.case if_not_P [OF False], (intro gives_if call gives_errors; simp)+)
  qed
qed

lemma wf_ProvideBuiltinsToAST: "wf_ast (ProvideBuiltinsToAST e) \<longleftrightarrow> wf_ast e"
  by (auto simp: ProvideBuiltinsToAST_def MakeBuiltinObj_def MakeBuiltinObjEntry_def)

lemma InlineForeign_kept:
  assumes I: "inlines I" and n: "wf_ast e"
  shows "gives (kept p) (InlineForeign I e)"
  using inlinesD [OF I, of False "[]" "ProvideBuiltinsToAST e"] n
  by (auto simp: InlineForeign_def wf_ProvideBuiltinsToAST kept_def elim: gives_weaken)

lemmas operators_kept = InlineCall_kept InlineFunc_kept InlineIf_kept InlineForEach_kept InlineZipWith_kept
  InlineFoldLeft_kept InlineUnary_kept InlineLookup_kept InlineBinary_kept

text \<open>All operators together, and the inliner with any bound.\<close>

lemma inline_node_kept:
  assumes I: "inlines I" and scope: "all_args (kept p) scope" and n: "wf_ast n"
  shows "gives (kept p) (inline_node L I scope p n)"
proof (cases n)
  case (LetNode b name v e)
  with n scope show ?thesis
    by (auto simp: InlineLet_def intro!: gives_bind [OF inlinesD [OF I]] inlinesD [OF I])
next
  case (ListNode b nodes)
  with n scope show ?thesis
    by (auto intro!: gives_bind [OF inline_list_gives [where P = "kept p"]] inlinesD [OF I])
next
  case (MapNode b entries)
  with n scope show ?thesis
    by (auto intro!: gives_bind [OF inline_fields_gives [where P = "kept p"]] inlinesD [OF I]; fastforce)
next
  case (VerbatimNode b e ty)
  with n scope show ?thesis
    by (auto intro!: gives_bind [OF inlinesD [OF I]])
qed (use n in \<open>auto intro!: operators_kept [OF I scope] InlineForeign_kept [OF I] simp: kept_def split: option.splits\<close>)

lemma InlineFunctions_inlines: "inlines (InlineFunctions L n)"
proof (induction n)
  case (Suc n)
  then show ?case by (auto simp: inlines_def intro: inline_node_kept [unfolded inlines_def])
qed (simp add: inlines_def)

lemma InlineAST_kept: "InlineAST L n e = Inr e' \<Longrightarrow> wf_ast e \<Longrightarrow> wf_ast e' \<and> runtime e'"
  using inlinesD [OF InlineFunctions_inlines, of False "[]" e L n]
  by (simp add: InlineAST_def kept_def)

end
