(* ===== verification/Jst_Inline_Bound.thy ===== *)
theory Jst_Inline_Bound
  imports Jst_Inline_Props
begin

text \<open>
  The bound on the depth of the inliner. A result that is not the one of the bound is the same with
  every greater bound; some programs exceed every bound.
\<close>

section \<open>Approximation\<close>

definition approx :: "'a inlined \<Rightarrow> 'a inlined \<Rightarrow> bool" where
  "approx r r' \<longleftrightarrow> r = Inl InlineFuel \<or> r = r'"

named_theorems approx_intro

lemma approx_refl [simp, approx_intro]: "approx r r"
  by (simp add: approx_def)

lemma approx_fuel [simp]: "approx (Inl InlineFuel) r"
  by (simp add: approx_def)

lemma approx_bind [approx_intro]:
  "approx r r' \<Longrightarrow> (\<And>x. approx (k x) (k' x)) \<Longrightarrow> approx (bindE r k) (bindE r' k')"
  by (cases r; cases r') (auto simp: approx_def)

lemma approx_if [approx_intro]: "approx a a' \<Longrightarrow> approx b b' \<Longrightarrow> approx (if c then a else b) (if c then a' else b')"
  by simp

lemma approx_option [approx_intro]:
  "approx a a' \<Longrightarrow> (\<And>x. approx (f x) (f' x)) \<Longrightarrow>
     approx (case d of None \<Rightarrow> a | Some x \<Rightarrow> f x) (case d of None \<Rightarrow> a' | Some x \<Rightarrow> f' x)"
  by (cases d) simp_all

lemma approx_catch_exception [approx_intro]: "approx r r' \<Longrightarrow> approx (catch_exception r) (catch_exception r')"
  by (auto simp: approx_def catch_exception_def)

lemma approx_rethrow_call [approx_intro]: "approx r r' \<Longrightarrow> approx (rethrow_call loc r) (rethrow_call loc r')"
  by (auto simp: approx_def rethrow_call_def catch_exception_def)

lemma approx_with_parameters [approx_intro]:
  "(\<And>named. approx (k named) (k' named)) \<Longrightarrow> approx (with_parameters loc fname args es k) (with_parameters loc fname args es k')"
  by (auto simp: with_parameters_def split: sum.splits)

lemma approx_required [approx_intro]:
  "(\<And>n. approx (k n) (k' n)) \<Longrightarrow> approx (required loc msg node k) (required loc msg node k')"
  by (auto simp: required_def split: option.splits)

definition inliner_below :: "inliner \<Rightarrow> inliner \<Rightarrow> bool" where
  "inliner_below I J \<longleftrightarrow> (\<forall>scope p n. approx (I scope p n) (J scope p n))"

lemma inliner_belowD: "inliner_below I J \<Longrightarrow> approx (I scope p n) (J scope p n)"
  by (simp add: inliner_below_def)

section \<open>Builtin functions and operators\<close>

lemma builtins_approx:
  assumes "\<And>n. approx (cb n) (cb' n)" and "map_of kBuiltinFunctions name = Some f"
  shows "approx (f L cb loc args) (f L cb' loc args)"
proof -
  have cases: "approx (BuiltIn_foreach cb loc args) (BuiltIn_foreach cb' loc args)"
    "approx (BuiltIn_zip_with cb loc args) (BuiltIn_zip_with cb' loc args)"
    "approx (BuiltIn_foldl cb loc args) (BuiltIn_foldl cb' loc args)"
    unfolding BuiltIn_foreach_def BuiltIn_zip_with_def BuiltIn_foldl_def
    by (intro approx_intro; simp add: assms(1) split: list.split)+
  show ?thesis
    using map_of_SomeD [OF assms(2)] cases unfolding kBuiltinFunctions_def by auto
qed

lemma loops_approx:
  assumes fg: "\<And>n. approx (f n) (g n)"
  shows "approx (inline_list f nodes) (inline_list g nodes)" "approx (inline_fields f entries) (inline_fields g entries)"
    "approx (inline_args f as) (inline_args g as)" "approx (inline_option f node) (inline_option g node)"
proof -
  show "approx (inline_list f nodes) (inline_list g nodes)"
    by (induction nodes) (auto intro!: approx_intro fg)
  show "approx (inline_fields f entries) (inline_fields g entries)"
    by (induction entries) (auto intro!: approx_intro fg)
  show "approx (inline_args f as) (inline_args g as)"
    by (induction as) (auto intro!: approx_intro fg)
  show "approx (inline_option f node) (inline_option g node)"
    by (cases node) (auto intro!: approx_intro fg)
qed

lemma inline_pairs_approx:
  assumes fg: "\<And>x y. approx (f x y) (g x y)"
  shows "approx (inline_pairs f xs ys) (inline_pairs g xs ys)"
  by (induction xs ys rule: list_induct2') (auto intro!: approx_intro fg)

lemma bind_params_approx:
  assumes IJ: "inliner_below I J"
  shows "approx (bind_params I scope p loc ps cs func_scope) (bind_params J scope p loc ps cs func_scope)"
proof (induction ps arbitrary: cs func_scope)
  case (Cons a ps)
  then show ?case
    by (cases a; cases cs) (auto intro!: approx_intro inliner_belowD [OF IJ] split: option.split)
qed (cases cs, simp_all)

lemma inline_params_approx:
  assumes IJ: "inliner_below I J"
  shows "approx (inline_params I p ps func_scope) (inline_params J p ps func_scope)"
  by (induction ps arbitrary: func_scope) (auto intro!: approx_intro loops_approx inliner_belowD [OF IJ] split: prod.split)

lemma unroll_fold_approx:
  assumes IJ: "inliner_below I J"
  shows "approx (unroll_fold I p v1 v2 body scope accu nodes) (unroll_fold J p v1 v2 body scope accu nodes)"
  by (induction nodes arbitrary: scope accu) (auto simp: Let_def intro!: approx_intro inliner_belowD [OF IJ])

lemma InlineFuncBody_approx:
  assumes IJ: "inliner_below I J"
  shows "approx (InlineFuncBody I scope p loc params callee_loc fparams body)
                (InlineFuncBody J scope p loc params callee_loc fparams body)"
  unfolding InlineFuncBody_def
  by (rule approx_option; (rule approx_refl)?; intro approx_if approx_refl approx_rethrow_call approx_bind
      bind_params_approx [OF IJ] inliner_belowD [OF IJ])

lemma calls_approx:
  assumes IJ: "inliner_below I J"
  shows "approx (CallBuiltinWithParams L (I scope p) name loc args) (CallBuiltinWithParams L (J scope p) name loc args)"
    "approx (CallBuiltin_nodes L (I scope p) name loc params) (CallBuiltin_nodes L (J scope p) name loc params)"
proof -
  show call: "approx (CallBuiltinWithParams L (I scope p) name loc args) (CallBuiltinWithParams L (J scope p) name loc args)"
    for args
  proof (cases "map_of kBuiltinFunctions name")
    case (Some f)
    then show ?thesis
      using builtins_approx [OF inliner_belowD [OF IJ] Some] by (auto simp: CallBuiltinWithParams_def intro!: approx_catch_exception)
  qed (simp add: CallBuiltinWithParams_def)
  show "approx (CallBuiltin_nodes L (I scope p) name loc params) (CallBuiltin_nodes L (J scope p) name loc params)"
    unfolding CallBuiltin_nodes_def by (rule call)
qed

lemma InlineBuiltinCall_approx:
  assumes IJ: "inliner_below I J"
  shows "approx (InlineBuiltinCall L I scope p loc params builtin name) (InlineBuiltinCall L J scope p loc params builtin name)"
  unfolding InlineBuiltinCall_def
  by (rule approx_option; (rule approx_refl)?; intro approx_bind approx_if approx_refl loops_approx(3) calls_approx(1) [OF IJ]
      inliner_belowD [OF IJ])

lemma InlineCall_approx:
  assumes IJ: "inliner_below I J"
  shows "approx (InlineCall L I scope p loc target params) (InlineCall L J scope p loc target params)"
proof -
  note call = InlineFuncBody_approx [OF IJ] InlineBuiltinCall_approx [OF IJ]
  show ?thesis
  proof (cases target)
    case (CallIdentifier name)
    then show ?thesis by (auto simp: InlineCall_def intro: call split: option.split ast.split)
  next
    case (CallExpr e)
    have "approx (case t of BuiltinNode b name \<Rightarrow> InlineBuiltinCall L I scope p loc params t name
        | FuncNode b fparams body \<Rightarrow> InlineFuncBody I scope p loc params (base_loc b) fparams body
        | _ \<Rightarrow> if p then Inr (mk_CallNode loc (CallExpr t) params) else ASTInlineError ''Call target is not a function.'' loc)
       (case t of BuiltinNode b name \<Rightarrow> InlineBuiltinCall L J scope p loc params t name
        | FuncNode b fparams body \<Rightarrow> InlineFuncBody J scope p loc params (base_loc b) fparams body
        | _ \<Rightarrow> if p then Inr (mk_CallNode loc (CallExpr t) params) else ASTInlineError ''Call target is not a function.'' loc)"
      for t by (cases t) (auto intro: call)
    then show ?thesis unfolding InlineCall_def CallExpr call_target.case
      by (intro approx_bind inliner_belowD [OF IJ])
  next
    case (CallBuiltin e)
    then show ?thesis by (cases e) (auto simp: InlineCall_def intro: call)
  qed
qed

lemma operators_approx:
  assumes IJ: "inliner_below I J"
  shows "approx (InlineLet I scope p name v e) (InlineLet J scope p name v e)"
    "approx (InlineFunc I scope p loc params body) (InlineFunc J scope p loc params body)"
    "approx (InlineForeign I e) (InlineForeign J e)"
    "approx (InlineIf I scope p loc c t el) (InlineIf J scope p loc c t el)"
    "approx (InlineForEach I scope p loc v1 rng body) (InlineForEach J scope p loc v1 rng body)"
    "approx (InlineZipWith I scope p loc v1 v2 r1 r2 body) (InlineZipWith J scope p loc v1 v2 r1 r2 body)"
    "approx (InlineFoldLeft I scope p loc v1 v2 init rng body) (InlineFoldLeft J scope p loc v1 v2 init rng body)"
    "approx (InlineUnary L I scope p loc ty u e) (InlineUnary L J scope p loc ty u e)"
    "approx (InlineLookup L I scope p loc i c d) (InlineLookup L J scope p loc i c d)"
    "approx (InlineBinary L I scope p loc ty op l r) (InlineBinary L J scope p loc ty op l r)"
proof -
  note I = inliner_belowD [OF IJ]
  note intros = approx_bind approx_if approx_option approx_refl loops_approx I inline_params_approx [OF IJ]
    unroll_fold_approx [OF IJ] calls_approx [OF IJ] inline_pairs_approx
  show "approx (InlineLet I scope p name v e) (InlineLet J scope p name v e)"
    unfolding InlineLet_def by (intro approx_bind I)
  show "approx (InlineFunc I scope p loc params body) (InlineFunc J scope p loc params body)"
    unfolding InlineFunc_def Let_def
    by (rule approx_bind [OF inline_params_approx [OF IJ]]) (auto split: prod.split intro!: approx_bind I)
  show "approx (InlineForeign I e) (InlineForeign J e)"
    unfolding InlineForeign_def by (rule I)
  show "approx (InlineIf I scope p loc c t el) (InlineIf J scope p loc c t el)"
    unfolding InlineIf_def by (rule approx_bind [OF I], rule approx_option; intro approx_bind loops_approx(4) I approx_refl)
  show "approx (InlineForEach I scope p loc v1 rng body) (InlineForEach J scope p loc v1 rng body)"
    unfolding InlineForEach_def
    by (rule approx_bind [OF I], rule approx_if [OF approx_refl], rule approx_option; intro approx_bind loops_approx(1) I approx_refl)
  show "approx (InlineFoldLeft I scope p loc v1 v2 init rng body) (InlineFoldLeft J scope p loc v1 v2 init rng body)"
    unfolding InlineFoldLeft_def
    by (rule approx_bind [OF I], rule approx_bind [OF I], rule approx_option; intro approx_bind unroll_fold_approx [OF IJ] I approx_refl)
  show "approx (InlineUnary L I scope p loc ty u e) (InlineUnary L J scope p loc ty u e)"
    unfolding InlineUnary_def by (rule approx_bind [OF I], rule approx_if [OF approx_refl], cases u)
      (simp_all add: calls_approx [OF IJ])
  show "approx (InlineBinary L I scope p loc ty op l r) (InlineBinary L J scope p loc ty op l r)"
    unfolding InlineBinary_def Let_def by (rule approx_bind [OF I], rule approx_bind [OF I], rule approx_if [OF approx_refl], cases op)
      (simp_all only: BinaryOp.case, (intro approx_if calls_approx [OF IJ] approx_refl)+)
  show "approx (InlineZipWith I scope p loc v1 v2 r1 r2 body) (InlineZipWith J scope p loc v1 v2 r1 r2 body)"
    unfolding InlineZipWith_def
    by (rule approx_bind [OF I], rule approx_bind [OF I])
      (auto split: option.split intro!: approx_bind inline_pairs_approx I)
  show "approx (InlineLookup L I scope p loc i c d) (InlineLookup L J scope p loc i c d)"
    unfolding InlineLookup_def
    by (rule approx_bind [OF I], rule approx_bind [OF I], rule approx_bind [OF loops_approx(4) [OF I]])
      (auto split: option.split intro!: approx_bind calls_approx [OF IJ])
qed

lemma inline_node_approx:
  assumes IJ: "inliner_below I J"
  shows "approx (inline_node L I scope p n) (inline_node L J scope p n)"
  by (cases n) (auto intro!: operators_approx [OF IJ] InlineCall_approx [OF IJ] approx_bind loops_approx inliner_belowD [OF IJ])

lemma InlineFunctions_deeper: "inliner_below (InlineFunctions L n) (InlineFunctions L (n + k))"
proof (induction n)
  case (Suc n)
  then show ?case by (auto simp: inliner_below_def intro: inline_node_approx [unfolded inliner_below_def])
qed (simp add: inliner_below_def)

section \<open>The bound does not matter\<close>


text \<open>The identity applied to a string: \<^verbatim>\<open>let f(x) = x; f("a")\<close>.\<close>

definition sample_call :: ast where
  "sample_call =
     mk_LetNode no_location ''f''
       (mk_FuncNode no_location [(''x'', None)] (mk_CallNode no_location (CallIdentifier ''x'') None))
       (mk_CallNode no_location (CallIdentifier ''f'') (Some [(None, mk_StringNode no_location ''a'')]))"

lemma sample_call_inlined: "InlineAST L 3 sample_call = Inr (mk_StringNode no_location ''a'')"
  by (simp add: InlineAST_def sample_call_def mk_node_defs numeral_3_eq_3 InlineLet_def InlineFunc_def InlineCall_def
      GetDef_def AddDef_def IsVarRead_def InlineFuncBody_def rethrow_call_def catch_exception_def)


section \<open>Programs without end\<close>

text \<open>A function that applies its argument to itself, applied to itself: \<^verbatim>\<open>let g(f) = f(f); g(g)\<close>.\<close>

definition read_var :: "string \<Rightarrow> ast" where
  "read_var name = mk_CallNode no_location (CallIdentifier name) None"

definition call_with_itself :: "string \<Rightarrow> ast" where
  "call_with_itself name = mk_CallNode no_location (CallIdentifier name) (Some [(None, read_var name)])"

definition self_applier :: ast where
  "self_applier = mk_FuncNode no_location [(''f'', None)] (call_with_itself ''f'')"

definition self_application :: ast where
  "self_application = mk_LetNode no_location ''g'' self_applier (call_with_itself ''g'')"

lemmas self_defs = read_var_def call_with_itself_def self_applier_def mk_CallNode_def mk_FuncNode_def

lemma read_var_inlined:
  "GetDef scope name = Some (Some self_applier) \<Longrightarrow>
     InlineFunctions L n scope False (read_var name) = (if n = 0 then Inl InlineFuel else Inr self_applier)"
  by (cases n) (auto simp: self_defs InlineCall_def IsVarRead_def)

lemma call_with_itself_endless:
  "GetDef scope name = Some (Some self_applier) \<Longrightarrow>
     InlineFunctions L n scope False (call_with_itself name) = Inl InlineFuel"
proof (induction n arbitrary: scope name)
  case (Suc n)
  let ?I = "InlineFunctions L n"
  have body: "?I (AddDef ''f'' (Some self_applier) scope) False (call_with_itself ''f'') = Inl InlineFuel"
    by (rule Suc.IH) (simp add: GetDef_def AddDef_def)
  have "InlineFunctions L (Suc n) scope False (call_with_itself name) =
      rethrow_call no_location (bindE (bind_params ?I scope False no_location [(''f'', None)] [(None, read_var name)] scope)
        (\<lambda>func_scope. ?I func_scope False (call_with_itself ''f'')))"
    using Suc.prems
    by (simp add: call_with_itself_def [of name] self_applier_def mk_CallNode_def mk_FuncNode_def InlineCall_def IsVarRead_def
        InlineFuncBody_def)
  also have "\<dots> = Inl InlineFuel"
    using body Suc.prems by (simp add: read_var_inlined rethrow_call_def catch_exception_def)
  finally show ?case .
qed simp

text \<open>
  C38: Inlining need not end: a function that applies its argument to itself, applied to itself,
  exceeds every bound.
\<close>

theorem self_application_endless: "InlineAST L n self_application = Inl InlineFuel"
proof (cases n)
  case (Suc m)
  have "InlineFunctions L m [] False self_applier = Inl InlineFuel \<or> InlineFunctions L m [] False self_applier = Inr self_applier"
  proof (cases m)
    case (Suc k)
    then show ?thesis
      by (cases k) (simp_all add: self_defs InlineFunc_def InlineCall_def GetDef_def AddDef_def)
  qed simp
  then show ?thesis
    using Suc call_with_itself_endless [of "AddDef ''g'' (Some self_applier) []" "''g''" L m]
    by (auto simp: InlineAST_def self_application_def mk_LetNode_def InlineLet_def GetDef_def AddDef_def)
qed (simp add: InlineAST_def)

end
