(* ===== verification/Jst_Inline_Cases.thy ===== *)
theory Jst_Inline_Cases
  imports Jst_Inline_Bound
begin

text \<open>
  What the inliner and the builtin functions do in cases that are easily overlooked, each on a small
  program.
\<close>

lemmas inline_simps = InlineAST_def mk_node_defs InlineLet_def InlineFunc_def InlineCall_def GetDef_def AddDef_def
  IsVarRead_def InlineFuncBody_def rethrow_call_def catch_exception_def

abbreviation str :: "string \<Rightarrow> ast" where
  "str s \<equiv> mk_StringNode no_location s"

abbreviation call1 :: "string \<Rightarrow> ast \<Rightarrow> ast" where
  "call1 name arg \<equiv> mk_CallNode no_location (CallIdentifier name) (Some [(None, arg)])"

abbreviation var :: "string \<Rightarrow> ast" where
  "var name \<equiv> mk_CallNode no_location (CallIdentifier name) None"

section \<open>Calls of parameters\<close>

text \<open>
  The arguments of a call of a parameter are not inlined with the definition of the function, and
  local definitions are gone when it is called: in
  \<^verbatim>\<open>let y = "outer"; let f(g) = (let y = "inner"; g(y)); f((x) -> x)\<close>
  the argument is the \<^verbatim>\<open>y\<close> of the caller.
\<close>

definition capture :: ast where
  "capture =
     mk_LetNode no_location ''y'' (str ''outer'')
       (mk_LetNode no_location ''f''
         (mk_FuncNode no_location [(''g'', None)] (mk_LetNode no_location ''y'' (str ''inner'') (call1 ''g'' (var ''y''))))
         (call1 ''f'' (mk_FuncNode no_location [(''x'', None)] (var ''x''))))"

lemma argument_captured: "InlineAST L 6 capture = Inr (str ''outer'')"
  by (simp add: capture_def inline_simps eval_nat_numeral)

text \<open>Without an outer definition it fails.\<close>

definition lost :: ast where
  "lost =
     mk_LetNode no_location ''f''
       (mk_FuncNode no_location [(''g'', None)] (mk_LetNode no_location ''y'' (str ''inner'') (call1 ''g'' (var ''y''))))
       (call1 ''f'' (mk_FuncNode no_location [(''x'', None)] (var ''x'')))"

lemma argument_lost: "\<exists>what. InlineAST L 6 lost = Inl (InlineError what)"
  by (simp add: lost_def inline_simps eval_nat_numeral ASTInlineError_def GetLocationSnippet_def no_location_def)

section \<open>Lookups\<close>

text \<open>A lookup in a parameter is computed when the function is defined, which fails.\<close>

definition field_of_parameter :: ast where
  "field_of_parameter =
     mk_LetNode no_location ''f'' (mk_FuncNode no_location [(''m'', None)] (mk_LookupNode no_location (str ''x'') (var ''m'') None))
       (mk_NullNode no_location)"

lemma lookup_in_parameter_fails: "\<exists>what. InlineAST L 6 field_of_parameter = Inl (InlineError what)"
  by (simp add: field_of_parameter_def inline_simps eval_nat_numeral InlineLookup_def ASTInlineError_def GetLocationSnippet_def
      no_location_def)

text \<open>A field that is missing is null; it is no error.\<close>

lemma missing_field_is_null:
  "InlineAST L 3 (mk_LookupNode no_location (str ''b'') (mk_MapNode no_location [(str ''a'', str ''1'')]) None) =
     Inr (mk_NullNode no_location)"
  by (simp add: inline_simps eval_nat_numeral InlineLookup_def CallBuiltin_nodes_def CallBuiltinWithParams_def
      kBuiltinFunctions_def BuiltIn_get_def with_parameters_def MakeNamedParameters_def expect_def required_def RetrieveAs_def
      EvalType_def mk_base_def kNullNode_def default_returned_def)

section \<open>Builtin functions\<close>

text \<open>Separators after empty items at the front are left out.\<close>

lemma join_drops_separator:
  "BuiltIn_join loc [(None, Some (mk_ListNode loc [mk_StringNode loc [], mk_StringNode loc ''a''])), (None, Some (mk_StringNode loc '',''))] =
     Inr (str ''a'')"
  by (simp add: mk_node_defs BuiltIn_join_def with_parameters_def MakeNamedParameters_def expect_def required_def RetrieveAs_def
      EvalType_def mk_base_def)

text \<open>The keys of a literal map are in the order of the source.\<close>

lemma keys_in_source_order:
  "BuiltIn_keys loc [(None, Some (mk_MapNode loc [(mk_StringNode loc ''b'', x), (mk_StringNode loc ''a'', y)]))] =
     Inr (mk_ListNode loc [mk_StringNode loc ''b'', mk_StringNode loc ''a''])"
  by (simp add: mk_node_defs BuiltIn_keys_def with_parameters_def MakeNamedParameters_def expect_def required_def RetrieveAs_def
      EvalType_def mk_base_def)

text \<open>Maps with computed keys are equal at once, whatever they hold.\<close>

lemma computed_keys_equal:
  assumes "\<not> same_node L m m'" "m = mk_MapNode loc [(mk_VarNode loc a None, x)]" "m' = mk_MapNode loc [(mk_VarNode loc b None, y)]"
  shows "CheckEqual L m m' = Some True"
  using assms
  by (simp add: CheckEqual_def mk_node_defs EvalType_def mk_base_def ProduceSameJSON_def NodeToJson_def ASTToJson_def visitor_for_def)

text \<open>The expression for \<^verbatim>\<open>zip_map\<close> has the type of lists.\<close>

lemma zip_map_typed_as_list:
  "\<exists>e. BuiltIn_zip_map loc [(None, Some (mk_VarNode loc a None)), (None, Some (mk_VarNode loc b None))] = Inr e \<and> EvalType e = TyList"
  by (simp add: mk_node_defs BuiltIn_zip_map_def with_parameters_def MakeNamedParameters_def expect_def required_def RetrieveAs_def
      EvalType_def mk_base_def runtime_call_def)

text \<open>Arguments with a name that no parameter has are ignored.\<close>

lemma unknown_argument_ignored:
  "BuiltIn_negate loc [(None, Some (mk_BoolNode loc True)), (Some ''nonsense'', Some x)] = Inr (mk_BoolNode loc False)"
  by (simp add: mk_node_defs BuiltIn_negate_def with_parameters_def MakeNamedParameters_def expect_def required_def RetrieveAs_def
      EvalType_def mk_base_def TruthValue_def)

end
