(* ===== verification/Jst_Preprocessor_Props.thy ===== *)
theory Jst_Preprocessor_Props
  imports Jst_Inline_Props Jst_Parser_Props
begin

text \<open>
  What the preprocessor gives for a file: a consistent tree for the evaluator that has a JSON form,
  and for a targets file an object of objects with literal types.
\<close>

section \<open>Serialization\<close>

text \<open>A function, or a builtin one, in a place where it is not skipped.\<close>

fun function_outside :: "ast \<Rightarrow> bool" where
  "function_outside (FuncNode b params body) \<longleftrightarrow> True"
| "function_outside (BuiltinNode b name) \<longleftrightarrow> True"
| "function_outside (VerbatimNode b e ty) \<longleftrightarrow> function_outside e"
| "function_outside (ListNode b nodes) \<longleftrightarrow> (\<exists>n \<in> set nodes. function_outside n)"
| "function_outside (MapNode b entries) \<longleftrightarrow>
     (\<exists>f \<in> set entries. function_outside (fst f) \<or> \<not> is_FuncNode (snd f) \<and> function_outside (snd f))"
| "function_outside (VarNode b name d) \<longleftrightarrow> (case d of None \<Rightarrow> False | Some e \<Rightarrow> function_outside e)"
| "function_outside (IfNode b c t e) \<longleftrightarrow> function_outside c \<or> (case t of None \<Rightarrow> False | Some n \<Rightarrow> function_outside n) \<or>
     (case e of None \<Rightarrow> False | Some n \<Rightarrow> function_outside n)"
| "function_outside (ForEachNode b v r body) \<longleftrightarrow> function_outside r \<or> function_outside body"
| "function_outside (ZipWithNode b v1 v2 r1 r2 body) \<longleftrightarrow>
     function_outside r1 \<or> function_outside r2 \<or> function_outside body"
| "function_outside (FoldLeftNode b v1 v2 i r body) \<longleftrightarrow> function_outside i \<or> function_outside r \<or> function_outside body"
| "function_outside _ \<longleftrightarrow> False"

definition works :: "'e + 'a \<Rightarrow> bool" where
  "works r \<longleftrightarrow> (\<exists>x. r = Inr x)"

lemma works_simps [simp]: "works (Inr x)" "\<not> works (Inl e)" "works (unless_json_only False r) \<longleftrightarrow> works r"
  by (simp_all add: works_def unless_json_only_def)

lemma works_bind: "works m \<Longrightarrow> (\<And>x. m = Inr x \<Longrightarrow> works (k x)) \<Longrightarrow> works (bindE m k)"
  by (auto simp: works_def)

lemma collect_works: "\<forall>r \<in> set rs. works r \<Longrightarrow> works (collect rs)"
  by (induction rs) (auto intro!: works_bind)

lemma collect_option_works: "(\<And>r. d = Some r \<Longrightarrow> works r) \<Longrightarrow> works (collect_option d)"
  by (cases d) (auto intro!: works_bind)

definition field_works :: "field_results \<Rightarrow> bool" where
  "field_works f \<longleftrightarrow> fst f \<or> works (fst (snd f)) \<and> works (snd (snd f))"

lemma CreateSingletonMap_works: "field_works f \<Longrightarrow> works (CreateSingletonMap f)"
  by (cases f rule: CreateSingletonMap.cases) (auto simp: field_works_def intro!: works_bind)

lemma map_expression_works: "\<forall>f \<in> set entries. field_works f \<Longrightarrow> works (map_expression entries)"
  by (auto simp: map_expression_def simp del: CreateSingletonMap.simps split: list.split
      intro!: works_bind CreateSingletonMap_works collect_works)

lemma literal_map_works: "\<forall>f \<in> set entries. field_works (snd f) \<Longrightarrow> works (literal_map root entries)"
  by (induction root entries rule: literal_map.induct) (auto simp: field_works_def intro!: works_bind)

lemma visit_json_works:
  "runtime n \<Longrightarrow> \<not> function_outside n \<Longrightarrow> \<not> json_only \<Longrightarrow> works (visit_json v json_only n)"
proof (induction v json_only n rule: visit_json.induct)
  case (3 v json_only b entries)
  have "field_works (is_FuncNode (snd f), visit_json (visitor_for v VerbatimNone) json_only (fst f),
      visit_json (visitor_for v VerbatimNone) json_only (snd f))" if "f \<in> set entries" for f
    using 3 that by (cases f) (fastforce simp: field_works_def)
  then show ?case
    by (auto simp: Let_def split_beta intro!: map_expression_works literal_map_works dest!: set_zip_rightD)
qed (auto intro!: works_bind collect_works collect_option_works split: option.splits)

section \<open>Marking of fields\<close>

lemma field_names_shape:
  "field_names tt entries = Inr (tt', names) \<Longrightarrow>
     map Some names = map (\<lambda>f. string_value (fst f)) entries \<and>
     (\<forall>f \<in> set entries. string_value (fst f) = Some ''type'' \<longrightarrow> string_value (snd f) \<noteq> None \<or> is_RefNode (snd f))"
proof (induction tt entries arbitrary: tt' names rule: field_names.induct)
  case (2 tt key val entries)
  then show ?case
    by (auto simp: bindE_Inr_iff split: option.splits if_splits) fastforce+
qed simp

lemma mark_field_keeps: "fst (mark_field u name f) = fst f" "kept p (snd (mark_field u name f)) \<longleftrightarrow> kept p (snd f)"
  by (auto simp: mark_field_def split: option.split)

lemma AugmentTarget_kept:
  "AugmentTarget loc entries = Inr t \<Longrightarrow> \<forall>f \<in> set entries. kept p (fst f) \<and> kept p (snd f) \<Longrightarrow> kept p t"
  by (auto simp: AugmentTarget_def bindE_Inr_iff mark_field_keeps dest!: set_zip_rightD; fastforce)

lemma augment_targets_kept:
  "augment_targets targets = Inr ts \<Longrightarrow> \<forall>f \<in> set targets. kept p (fst f) \<and> kept p (snd f) \<Longrightarrow>
     \<forall>f \<in> set ts. kept p (fst f) \<and> kept p (snd f)"
proof (induction targets arbitrary: ts rule: augment_targets.induct)
  case (2 key val targets)
  from 2(2) obtain entries t rest where
    step: "string_value key \<noteq> None" "map_fields val = Some entries" "AugmentTarget (GetLocation val) entries = Inr t"
      "augment_targets targets = Inr rest" "ts = (key, t) # rest"
    by (auto simp: bindE_Inr_iff split: option.splits if_splits)
  have "kept p t"
    using step(3) anyway.P_fields [OF step(2)] 2(3) by (auto intro: AugmentTarget_kept)
  moreover have "\<forall>f \<in> set rest. kept p (fst f) \<and> kept p (snd f)"
    using 2(1) step 2(3) by auto
  ultimately show ?case using step(5) 2(3) by auto
qed simp

lemma AugmentAST_kept: "AugmentAST e = Inr e' \<Longrightarrow> kept p e \<Longrightarrow> kept p e'"
  by (auto simp: AugmentAST_def bindE_Inr_iff split: option.splits dest!: anyway.P_fields dest: augment_targets_kept)

text \<open>A type that the evaluator of targets takes as it is: a name or a reference.\<close>

fun literal_type :: "json \<Rightarrow> bool" where
  "literal_type (JString s) \<longleftrightarrow> True"
| "literal_type (JArray js) \<longleftrightarrow> (\<forall>j \<in> set js. \<exists>s. j = JString s)"
| "literal_type _ \<longleftrightarrow> False"

lemma ref_json_literal: "literal_type (ref_json data)"
  by (auto simp: ref_json_def Let_def)

lemma type_unevaluated: "map_of (unevaluated_fields target_type) ''type'' = Some VerbatimFull"
  by (auto simp: unevaluated_fields_def kUnevaluatedTargetFields_def)

lemma in_map_put: "kv \<in> set (map_put k v kvs) \<Longrightarrow> kv = (k, v) \<or> kv \<in> set kvs"
  by (induction k v kvs rule: map_put.induct) (auto split: if_splits)

lemma literal_map_fields:
  "literal_map root entries = Inr j \<Longrightarrow> \<forall>f \<in> set entries. fst f \<noteq> None \<Longrightarrow>
     \<exists>kvs. j = JObject kvs \<and> (\<forall>kv \<in> set kvs. kv \<in> set root \<or>
       (\<exists>f \<in> set entries. fst f = Some (fst kv) \<and> snd (snd (snd f)) = Inr (snd kv)))"
proof (induction root entries arbitrary: j rule: literal_map.induct)
  case (3 root name function_value key val entries)
  show ?case
  proof (cases function_value)
    case True
    with 3 show ?thesis by fastforce
  next
    case False
    with 3(3) obtain x where x: "val = Inr x" "literal_map (map_put name x root) entries = Inr j"
      by (auto simp: bindE_Inr_iff)
    from 3(2) [OF False x(2)] 3(4) obtain kvs where "j = JObject kvs"
      "\<forall>kv \<in> set kvs. kv \<in> set (map_put name x root) \<or>
         (\<exists>f \<in> set entries. fst f = Some (fst kv) \<and> snd (snd (snd f)) = Inr (snd kv))"
      by auto
    with x(1) show ?thesis by (fastforce dest: in_map_put)
  qed
qed auto

text \<open>A literal map as the visitor of literal maps takes it.\<close>

lemma flat_map_fields:
  assumes "visit_json VerbatimFlat False (mk_MapNode loc entries) = Inr j"
    and "\<forall>f \<in> set entries. string_value (fst f) \<noteq> None"
  shows "\<exists>kvs. j = JObject kvs \<and> (\<forall>kv \<in> set kvs. \<exists>f \<in> set entries.
      string_value (fst f) = Some (fst kv) \<and> visit_json VerbatimNone False (snd f) = Inr (snd kv))"
proof -
  let ?entry = "\<lambda>f. (string_value (fst f), is_FuncNode (snd f), visit_json VerbatimNone False (fst f),
      visit_json VerbatimNone False (snd f))"
  have "zip (map (\<lambda>(key, val). string_value key) entries) (map (\<lambda>(key, val).
      (is_FuncNode val, visit_json VerbatimNone False key, visit_json VerbatimNone False val)) entries) = map ?entry entries"
    by (induction entries) auto
  with assms(1) have "literal_map [] (map ?entry entries) = Inr j"
    by (simp add: mk_node_defs visitor_for_def Let_def)
  from literal_map_fields [OF this] assms(2) show ?thesis by auto
qed

lemma visit_verbatim: "visit_json VerbatimNone False (mk_VerbatimNode loc n vtype ty) = visit_json vtype False n"
  by (simp add: mk_node_defs visitor_for_def)

lemma unevaluated_type:
  "visit_json VerbatimFull False n = Inr v \<Longrightarrow> string_value n \<noteq> None \<or> is_RefNode n \<Longrightarrow> literal_type v"
  by (cases n) (auto simp: ref_json_literal)

lemma AugmentTarget_type:
  assumes t: "AugmentTarget loc entries = Inr t" and j: "visit_json VerbatimNone False t = Inr j"
  shows "\<exists>kvs. j = JObject kvs \<and> (\<forall>kv \<in> set kvs. fst kv = ''type'' \<longrightarrow> literal_type (snd kv))"
proof -
  from t obtain tt names where names: "field_names [] entries = Inr (tt, names)"
    and t': "t = mk_VerbatimNode loc (mk_MapNode loc (map2 (mark_field (unevaluated_fields tt)) names entries)) VerbatimFlat None"
    by (auto simp: AugmentTarget_def bindE_Inr_iff)
  let ?marked = "map2 (mark_field (unevaluated_fields tt)) names entries"
  note shape = field_names_shape [OF names]
  have marked: "\<exists>name g. (name, g) \<in> set (zip names entries) \<and> string_value (fst g) = Some name \<and>
      f = mark_field (unevaluated_fields tt) name g" if "f \<in> set ?marked" for f
  proof -
    from that obtain i where i: "i < length names" "i < length entries" "f = mark_field (unevaluated_fields tt) (names ! i) (entries ! i)"
      by (auto simp: in_set_conv_nth)
    moreover from shape i have "string_value (fst (entries ! i)) = Some (names ! i)"
      by (metis (no_types, lifting) nth_map)
    moreover from i have "(names ! i, entries ! i) \<in> set (zip names entries)" by (auto simp: in_set_zip)
    ultimately show ?thesis by blast
  qed
  have "\<forall>f \<in> set ?marked. string_value (fst f) \<noteq> None"
  proof
    fix f assume "f \<in> set ?marked"
    from marked [OF this] show "string_value (fst f) \<noteq> None" by (auto simp: mark_field_keeps)
  qed
  with j obtain kvs where kvs: "j = JObject kvs" "\<forall>kv \<in> set kvs. \<exists>f \<in> set ?marked.
      string_value (fst f) = Some (fst kv) \<and> visit_json VerbatimNone False (snd f) = Inr (snd kv)"
    using flat_map_fields [of loc ?marked j] by (auto simp: t' visit_verbatim)
  have "literal_type (snd kv)" if kv: "kv \<in> set kvs" "fst kv = ''type''" for kv
  proof -
    from bspec [OF kvs(2) kv(1)] kv(2) obtain f where f: "f \<in> set ?marked" "string_value (fst f) = Some ''type''"
      "visit_json VerbatimNone False (snd f) = Inr (snd kv)" by metis
    with marked obtain name g where g: "(name, g) \<in> set (zip names entries)" "string_value (fst g) = Some name"
      "f = mark_field (unevaluated_fields tt) name g" by blast
    with f have name: "name = ''type''" by (simp add: mark_field_keeps)
    with f(3) g(3) have "visit_json VerbatimFull False (snd g) = Inr (snd kv)"
      by (simp add: mark_field_def type_unevaluated visit_verbatim)
    moreover have "string_value (snd g) \<noteq> None \<or> is_RefNode (snd g)"
      using shape g(1,2) name by (auto dest: set_zip_rightD)
    ultimately show ?thesis by (rule unevaluated_type)
  qed
  with kvs(1) show ?thesis by auto
qed

lemma augment_targets_shape:
  "augment_targets targets = Inr ts \<Longrightarrow> \<forall>f \<in> set ts. string_value (fst f) \<noteq> None \<and> (\<exists>loc entries. AugmentTarget loc entries = Inr (snd f))"
proof (induction targets arbitrary: ts rule: augment_targets.induct)
  case (2 key val targets)
  from 2(2) obtain entries t rest where
    "string_value key \<noteq> None" "map_fields val = Some entries" "AugmentTarget (GetLocation val) entries = Inr t"
      "augment_targets targets = Inr rest" "ts = (key, t) # rest"
    by (auto simp: bindE_Inr_iff split: option.splits if_splits)
  with 2(1) show ?case by auto
qed simp

definition typed_targets :: "json \<Rightarrow> bool" where
  "typed_targets j \<longleftrightarrow> (\<exists>targets. j = JObject targets \<and>
     (\<forall>t \<in> set targets. \<exists>kvs. snd t = JObject kvs \<and> (\<forall>kv \<in> set kvs. fst kv = ''type'' \<longrightarrow> literal_type (snd kv))))"

lemma AugmentAST_typed:
  assumes "AugmentAST e = Inr e'" "ASTToJson VerbatimNone False e' = Inr j"
  shows "typed_targets j"
proof -
  from assms(1) obtain ts targets where ts: "augment_targets targets = Inr ts"
    and e': "e' = mk_VerbatimNode (GetLocation e) (mk_MapNode (GetLocation e) ts) VerbatimFlat None"
    by (auto simp: AugmentAST_def bindE_Inr_iff split: option.splits)
  note shape = augment_targets_shape [OF ts]
  from assms(2) have "visit_json VerbatimFlat False (mk_MapNode (GetLocation e) ts) = Inr j"
    by (simp add: ASTToJson_def visitor_for_def e' visit_verbatim)
  with flat_map_fields [of "GetLocation e" ts j] shape obtain kvs where kvs: "j = JObject kvs"
    "\<forall>kv \<in> set kvs. \<exists>f \<in> set ts. string_value (fst f) = Some (fst kv) \<and> visit_json VerbatimNone False (snd f) = Inr (snd kv)"
    by auto
  have "\<exists>fields. snd t = JObject fields \<and> (\<forall>kv \<in> set fields. fst kv = ''type'' \<longrightarrow> literal_type (snd kv))" if "t \<in> set kvs" for t
    using kvs(2) that shape AugmentTarget_type by meson
  with kvs(1) show ?thesis by (auto simp: typed_targets_def)
qed

section \<open>Processing a file\<close>

text \<open>The reader can give finitely many files, among them the one that is processed, and the bound is above their number.\<close>

definition enough_files :: "preprocessor \<Rightarrow> FileData \<Rightarrow> bool" where
  "enough_files P fd \<longleftrightarrow>
     (\<exists>K. finite K \<and> reads_from (pp_reader P) K \<and> location_key (fd_location fd) \<in> K \<and> card K < pp_depth P)"

lemma Process_data_steps:
  assumes "Process_data P fd type = Inr e"
  obtains jst inl where "of_parser (ParseData (pp_depth P) (pp_reader P) (pp_json P) [] fd) = Inr jst"
    "of_inliner (InlineAST (pp_inline P) (pp_depth P) (ProvideBuiltinsToAST jst)) = Inr inl" "augmented type inl = Inr e"
  using assms unfolding Process_data_def bindE_Inr_iff by blast

lemma Process_data_kept:
  assumes files: "enough_files P fd" and e: "Process_data P fd type = Inr e"
  shows "kept False e"
proof -
  from files obtain K where K: "finite K" "reads_from (pp_reader P) K" "location_key (fd_location fd) \<in> K" "card K < pp_depth P"
    by (auto simp: enough_files_def)
  from Process_data_steps [OF e] obtain jst inl where steps:
    "of_parser (ParseData (pp_depth P) (pp_reader P) (pp_json P) [] fd) = Inr jst"
    "of_inliner (InlineAST (pp_inline P) (pp_depth P) (ProvideBuiltinsToAST jst)) = Inr inl" "augmented type inl = Inr e" .
  from steps(1) have "ParseData (pp_depth P) (pp_reader P) (pp_json P) [] fd = Inr jst"
    by (auto simp: of_parser_def split: sum.splits parse_error.splits)
  with ParseData_good [OF K(1,2,3), of "[]" "pp_depth P" "pp_json P"] K(4) have "wf_ast jst"
    by (simp add: good_result_def)
  moreover from steps(2) have "InlineAST (pp_inline P) (pp_depth P) (ProvideBuiltinsToAST jst) = Inr inl"
    by (auto simp: of_inliner_def split: sum.splits inline_error.splits)
  ultimately have "kept False inl"
    using InlineAST_kept by (simp add: kept_def wf_ProvideBuiltinsToAST)
  with steps(3) show ?thesis
    by (cases type; cases "AugmentAST inl") (auto simp: augmented_def intro: AugmentAST_kept)
qed

text \<open>A targets file with one target: \<^verbatim>\<open>{a: {type: "b"}}\<close>.\<close>

definition sample_inline :: inline_lib where
  "sample_inline =
     \<lparr>il_json = \<lparr>nl_dump = \<lambda>j. Inl [], nl_get_size = \<lambda>j. None, nl_get_double = \<lambda>j. None\<rparr>, same_node = \<lambda>a b. False,
      il_lround_outside = \<lambda>x. 0, il_int_outside = \<lambda>x. 0\<rparr>"

definition sample_preprocessor :: preprocessor where
  "sample_preprocessor =
     \<lparr>pp_reader = \<lambda>_ _ _. None, pp_json = sample_json, pp_inline = sample_inline, pp_depth = 6\<rparr>"

definition sample_targets :: FileData where
  "sample_targets = sample_file ''TARGETS'' (''{a: {type: '' @ [CHR 0x22] @ ''b'' @ [CHR 0x22] @ ''}}'')"

definition sample_loc :: "nat \<Rightarrow> Location" where
  "sample_loc n = \<lparr>loc_file = ''TARGETS'', loc_line = 1, loc_column = n, loc_column_end = n, loc_content = None\<rparr>"

definition sample_tree :: ast where
  "sample_tree = mk_MapNode (sample_loc 17) [(mk_StringNode (sample_loc 3) ''a'',
     mk_MapNode (sample_loc 16) [(mk_StringNode (sample_loc 10) ''type'', mk_StringNode (sample_loc 15) ''b'')])]"

lemma sample_parsed: "ParseData 6 (\<lambda>_ _ _. None) sample_json [] sample_targets = Inr sample_tree"
  by code_simp

lemma builtin_entries_inlined:
  "inline_fields (InlineFunctions L (Suc n) scope p) (map MakeBuiltinObjEntry names) = Inr (map MakeBuiltinObjEntry names)"
  by (induction names) (simp_all add: MakeBuiltinObjEntry_def mk_node_defs)

lemma MakeBuiltinObj_inlined: "InlineFunctions L (Suc (Suc n)) scope p MakeBuiltinObj = Inr MakeBuiltinObj"
  unfolding MakeBuiltinObj_def mk_MapNode_def
  by (simp only: InlineFunctions.simps(2) [of L "Suc n"] inline_node.simps builtin_entries_inlined) (simp add: mk_node_defs)

lemma sample_inlined: "InlineAST L 6 (ProvideBuiltinsToAST sample_tree) = Inr sample_tree"
proof -
  have "InlineFunctions L 5 [] False MakeBuiltinObj = Inr MakeBuiltinObj"
    using MakeBuiltinObj_inlined [of L 3] by (simp add: eval_nat_numeral)
  moreover have "InlineFunctions L 5 scope False sample_tree = Inr sample_tree" for scope
    by (simp add: sample_tree_def mk_node_defs eval_nat_numeral)
  moreover have "InlineAST L 6 (LetNode b ''jst'' v e) = InlineLet (InlineFunctions L 5) [] False ''jst'' v e" for b v e
    by (simp add: InlineAST_def eval_nat_numeral)
  ultimately show ?thesis
    by (simp add: ProvideBuiltinsToAST_def mk_LetNode_def InlineLet_def)
qed

definition sample_augmented :: ast where
  "sample_augmented = mk_VerbatimNode (sample_loc 17) (mk_MapNode (sample_loc 17) [(mk_StringNode (sample_loc 3) ''a'',
     mk_VerbatimNode (sample_loc 16) (mk_MapNode (sample_loc 16) [(mk_StringNode (sample_loc 10) ''type'',
       mk_VerbatimNode (sample_loc 15) (mk_StringNode (sample_loc 15) ''b'') VerbatimFull None)]) VerbatimFlat None)]) VerbatimFlat None"

lemma sample_processed: "Process_data sample_preprocessor sample_targets Targets = Inr sample_augmented"
proof -
  have "AugmentAST sample_tree = Inr sample_augmented"
    by (simp add: AugmentAST_def AugmentTarget_def sample_tree_def sample_augmented_def mk_MapNode_def mk_StringNode_def
        mark_field_def unevaluated_fields_def kUnevaluatedTargetFields_def GetLocation_def mk_base_def)
  moreover have "StaticAnalysis sample_tree = Inr ()"
    by (simp add: StaticAnalysis_def sample_tree_def mk_node_defs)
  ultimately show ?thesis
    by (simp add: Process_data_def sample_preprocessor_def sample_parsed of_parser_def sample_inlined of_inliner_def augmented_def)
qed

lemma sample_serialized: "Serialize (Some sample_augmented) = (None, Some (JObject [(''a'', JObject [(''type'', JString ''b'')])]))"
  by (simp add: Serialize_def ASTToJson_def visitor_for_def sample_augmented_def mk_node_defs)

lemma sample_enough: "enough_files sample_preprocessor sample_targets"
  unfolding enough_files_def
  by (rule exI [of _ "{location_key (fd_location sample_targets)}"]) (simp add: sample_preprocessor_def reads_from_def)



text \<open>
  C15: The JSON form of a targets file is an object of objects, in which every type is a name or a
  reference and not an expression.
\<close>

theorem targets_are_typed:
  assumes "Process_data P fd Targets = Inr e" and "Serialize (Some e) = (log, Some j)"
  shows "typed_targets j"
proof -
  from Process_data_steps [OF assms(1)] obtain inl where "augmented Targets inl = Inr e" by metis
  then have "AugmentAST inl = Inr e"
    by (cases "AugmentAST inl") (simp_all add: augmented_def)
  moreover from assms(2) have "ASTToJson VerbatimNone False e = Inr j"
    by (auto simp: Serialize_def split: sum.splits)
  ultimately show ?thesis by (rule AugmentAST_typed)
qed

theorem targets_are_typed_witness: "typed_targets (JObject [(''a'', JObject [(''type'', JString ''b'')])])"
  by (rule targets_are_typed [OF sample_processed sample_serialized])

text \<open>
  C14: Inlining keeps trees consistent, and what it gives is a tree for the evaluator: no definition, call,
  operation or lookup is left but in the bodies of functions with parameters.
\<close>

theorem inlined_for_evaluator:
  assumes "InlineAST L n e = Inr e'" and "wf_ast e"
  shows "wf_ast e' \<and> runtime e'"
  using assms by (rule InlineAST_kept)

theorem inlined_for_evaluator_witness: "wf_ast sample_tree \<and> runtime sample_tree"
proof -
  have "wf_ast (ProvideBuiltinsToAST sample_tree)" by (simp add: wf_ProvideBuiltinsToAST sample_tree_def)
  from inlined_for_evaluator [OF sample_inlined this] show ?thesis .
qed

end
