(* ===== verification/Jst_AsyncMap.thy ===== *)
theory Jst_AsyncMap
  imports Main "HOL-Library.Multiset" "HOL-Library.AList"
begin

text \<open>
  Maps whose values are computed by tasks: \<^verbatim>\<open>src/buildtool/multithreading/async_map_node.hpp\<close>,
  \<^verbatim>\<open>async_map.hpp\<close>, \<^verbatim>\<open>async_map_consumer.hpp\<close> and \<^verbatim>\<open>async_map_utils.hpp\<close>. All analysis of targets runs
  on such maps. Member functions are cut into instructions, one for every access to shared
  data: a section under the lock of a node is one instruction, and so is a check without
  the lock. A step runs the next instruction of some thread or lets an idle thread take
  some queued task.

  Left out are the partition of the map by hashes of keys, which only reduces contention,
  the freeing of nodes, and the shutdown of the task system. The order of unordered
  containers is that of the lists here; no lemma rests on it.
\<close>

section \<open>Value creators\<close>

text \<open>
  A value creator is the client's code. What it does to the map is a list of actions: it sets
  the value of its key, logs a message (which is fatal or not), or calls for the values of
  further keys with a consumer that continues. The logger it passes on is its own with some
  text put around messages, as in all clients.
\<close>

datatype ('k, 'v) action =
    SetValue 'v
  | LogMessage string bool
  | SubCall "'k list" "string \<Rightarrow> string" "'v list \<Rightarrow> ('k, 'v) action list"

type_synonym ('k, 'v) creator = "'k \<Rightarrow> ('k, 'v) action list"

section \<open>Callbacks and tasks\<close>

text \<open>
  The callbacks of the code by what they do: a logger is that of the client, one that fails a
  node first, or one that changes messages; a failure function is the client's or fails a
  node; a consumer is the client's or the continuation of a creator.
\<close>

datatype 'k map_logger =
    TopLogger
  | NodeLogger 'k "'k map_logger"
  | WrappedLogger "string \<Rightarrow> string" "'k map_logger"

datatype 'k failure = TopFailure nat | NodeFailure 'k

datatype ('k, 'v) consumer =
    TopConsumer nat
  | NodeConsumer 'k "'k map_logger" "'v list \<Rightarrow> ('k, 'v) action list"

datatype ('k, 'v) map_task =
    CreateValue 'k "'k map_logger"
  | WhenAllReady "'k option" "('k, 'v) consumer" "'k failure option" "'k list" nat
  | CallConsumer "('k, 'v) consumer" "'k list"
  | CallFailure "'k failure"

section \<open>Nodes\<close>

record ('k, 'v) AsyncMapNode =
  node_value :: "'v option"
  awaiting_tasks :: "('k, 'v) map_task list"
  failure_tasks :: "('k, 'v) map_task list"
  node_queued :: bool
  node_failed :: bool

definition fresh_node :: "('k, 'v) AsyncMapNode" where
  "fresh_node = \<lparr>node_value = None, awaiting_tasks = [], failure_tasks = [],
     node_queued = False, node_failed = False\<rparr>"

definition node_IsReady :: "('k, 'v) AsyncMapNode \<Rightarrow> bool" where
  "node_IsReady n \<longleftrightarrow> node_value n \<noteq> None"

text \<open>Each of these gives the node and the tasks that are queued.\<close>

definition SetAndQueueAwaitingTasks :: "'v \<Rightarrow> ('k, 'v) AsyncMapNode \<Rightarrow> ('k, 'v) AsyncMapNode \<times> ('k, 'v) map_task list" where
  "SetAndQueueAwaitingTasks v n =
     (if node_failed n then (n, [])
      else (n\<lparr>node_value := Some v, awaiting_tasks := [], failure_tasks := []\<rparr>, awaiting_tasks n))"

definition GetAndMarkQueued :: "('k, 'v) AsyncMapNode \<Rightarrow> bool \<times> ('k, 'v) AsyncMapNode" where
  "GetAndMarkQueued n = (node_queued n, n\<lparr>node_queued := True\<rparr>)"

text \<open>The parts under the lock; the flag is whether the task has been queued at once.\<close>

definition await_locked ::
  "('k, 'v) map_task \<Rightarrow> ('k, 'v) AsyncMapNode \<Rightarrow> ('k, 'v) AsyncMapNode \<times> ('k, 'v) map_task list \<times> bool" where
  "await_locked t n =
     (if node_failed n then (n, [], False)
      else if node_IsReady n then (n, [t], True)
      else (n\<lparr>awaiting_tasks := awaiting_tasks n @ [t]\<rparr>, [], False))"

definition on_failure_locked ::
  "('k, 'v) map_task \<Rightarrow> ('k, 'v) AsyncMapNode \<Rightarrow> ('k, 'v) AsyncMapNode \<times> ('k, 'v) map_task list" where
  "on_failure_locked t n =
     (if node_failed n then (n, [t]) else (n\<lparr>failure_tasks := failure_tasks n @ [t]\<rparr>, []))"

definition Fail_node :: "('k, 'v) AsyncMapNode \<Rightarrow> ('k, 'v) AsyncMapNode \<times> ('k, 'v) map_task list" where
  "Fail_node n =
     (if node_IsReady n then (n, [])
      else if node_failed n then (n, [])
      else (n\<lparr>node_failed := True, awaiting_tasks := [], failure_tasks := []\<rparr>, failure_tasks n))"

section \<open>The map\<close>

text \<open>
  The last four fields are a record of what happened, which no instruction reads: the keys
  whose creators have been called, what consumers and failure functions of the client have
  been called, and the messages that came to the client's logger.
\<close>

type_synonym 'k requests = "('k \<times> 'k list) list"

record ('k, 'v) map_state =
  node_map :: "'k \<rightharpoonup> ('k, 'v) AsyncMapNode"
  requests_by_thread :: "(nat \<times> 'k requests) list"
  task_queue :: "('k, 'v) map_task multiset"
  created :: "'k list"
  consumed :: "(nat \<times> 'v list) list"
  top_failures :: "nat list"
  messages :: "(string \<times> bool) list"

definition empty_map :: "('k, 'v) map_state" where
  "empty_map = \<lparr>node_map = Map.empty, requests_by_thread = [], task_queue = {#}, created = [],
     consumed = [], top_failures = [], messages = []\<rparr>"

definition node_of :: "('k, 'v) map_state \<Rightarrow> 'k \<Rightarrow> ('k, 'v) AsyncMapNode" where
  "node_of s k = (case node_map s k of Some n \<Rightarrow> n | None \<Rightarrow> fresh_node)"

definition set_node :: "'k \<Rightarrow> ('k, 'v) AsyncMapNode \<Rightarrow> ('k, 'v) map_state \<Rightarrow> ('k, 'v) map_state" where
  "set_node k n s = s\<lparr>node_map := (node_map s)(k \<mapsto> n)\<rparr>"

definition GetOrCreateNode :: "'k \<Rightarrow> ('k, 'v) map_state \<Rightarrow> ('k, 'v) map_state" where
  "GetOrCreateNode k s = (case node_map s k of Some n \<Rightarrow> s | None \<Rightarrow> set_node k fresh_node s)"

definition queue_tasks :: "('k, 'v) map_task list \<Rightarrow> ('k, 'v) map_state \<Rightarrow> ('k, 'v) map_state" where
  "queue_tasks ts s = s\<lparr>task_queue := task_queue s + mset ts\<rparr>"

text \<open>\<^verbatim>\<open>RecordNodeRequest\<close>, on the table of the thread.\<close>

definition RecordNodeRequest :: "nat \<Rightarrow> 'k \<Rightarrow> 'k \<Rightarrow> ('k, 'v) map_state \<Rightarrow> ('k, 'v) map_state" where
  "RecordNodeRequest tid consumer_id k s =
     s\<lparr>requests_by_thread :=
         AList.map_default tid [(consumer_id, [k])]
           (AList.map_default consumer_id [k] (List.insert k)) (requests_by_thread s)\<rparr>"

section \<open>The member functions\<close>

datatype ('k, 'v) map_instr =
    ConsumeAfterKeysReady "'k option" "'k list" "('k, 'v) consumer" "'k map_logger" "'k failure option"
  | EnsureValuePresent 'k "'k map_logger"
  | QueueOnceProcessingTask 'k "'k map_logger"
  | QueueTask "('k, 'v) map_task"
  | QueueOnFailure 'k "'k failure"
  | QueueOnFailureLocked 'k "'k failure"
  | AddOrQueueAwaitingTask "'k option" 'k "('k, 'v) map_task"
  | AddOrQueueLocked "'k option" 'k "('k, 'v) map_task"
  | RecordRequest 'k 'k
  | QueueTaskWhenAllReady "'k option" "('k, 'v) consumer" "'k failure option" "'k list" nat
  | CallCreator 'k "'k map_logger"
  | RunActions 'k "'k map_logger" "('k, 'v) action list"
  | CallSetter 'k 'v
  | CallLogger "'k map_logger" string bool
  | CallFail "'k failure"
  | ReadAndConsume "('k, 'v) consumer" "'k list"

definition record_unless :: "bool \<Rightarrow> 'k option \<Rightarrow> 'k \<Rightarrow> ('k, 'v) map_instr list" where
  "record_unless queued consumer_id k =
     (case consumer_id of Some c \<Rightarrow> if \<not> queued then [RecordRequest c k] else [] | None \<Rightarrow> [])"

definition fail_registration :: "'k failure option \<Rightarrow> 'k \<Rightarrow> ('k, 'v) map_instr list" where
  "fail_registration fail k = (case fail of Some f \<Rightarrow> [QueueOnFailure k f] | None \<Rightarrow> [])"

fun task_code :: "('k, 'v) map_task \<Rightarrow> ('k, 'v) map_instr" where
  "task_code (CreateValue k l) = CallCreator k l"
| "task_code (WhenAllReady consumer_id consumer fail nodes pos) =
     QueueTaskWhenAllReady consumer_id consumer fail nodes pos"
| "task_code (CallConsumer consumer nodes) = ReadAndConsume consumer nodes"
| "task_code (CallFailure f) = CallFail f"

text \<open>
  One instruction, on thread \<open>tid\<close>: the state after it and the instructions that follow in
  its function.
\<close>

fun run_instr ::
  "('k, 'v) creator \<Rightarrow> nat \<Rightarrow> ('k, 'v) map_instr \<Rightarrow> ('k, 'v) map_state \<Rightarrow> ('k, 'v) map_state \<times> ('k, 'v) map_instr list" where
  "run_instr vc tid (ConsumeAfterKeysReady consumer_id nodes consumer l fail) s =
     (s, case nodes of
           [] \<Rightarrow> [QueueTask (CallConsumer consumer [])]
         | first_node # _ \<Rightarrow>
             map (\<lambda>k. EnsureValuePresent k l) nodes @ fail_registration fail first_node @
             [AddOrQueueAwaitingTask consumer_id first_node (WhenAllReady consumer_id consumer fail nodes 1)])"
| "run_instr vc tid (EnsureValuePresent k l) s = (GetOrCreateNode k s, [QueueOnceProcessingTask k (NodeLogger k l)])"
| "run_instr vc tid (QueueOnceProcessingTask k l) s =
     (let (queued, n) = GetAndMarkQueued (node_of s k)
      in (set_node k n s, if queued then [] else [QueueTask (CreateValue k l)]))"
| "run_instr vc tid (QueueTask t) s = (queue_tasks [t] s, [])"
| "run_instr vc tid (QueueOnFailure k f) s = (s, if node_IsReady (node_of s k) then [] else [QueueOnFailureLocked k f])"
| "run_instr vc tid (QueueOnFailureLocked k f) s =
     (let (n, ts) = on_failure_locked (CallFailure f) (node_of s k) in (queue_tasks ts (set_node k n s), []))"
| "run_instr vc tid (AddOrQueueAwaitingTask consumer_id k t) s =
     (if node_IsReady (node_of s k) then (queue_tasks [t] s, []) else (s, [AddOrQueueLocked consumer_id k t]))"
| "run_instr vc tid (AddOrQueueLocked consumer_id k t) s =
     (let (n, ts, queued) = await_locked t (node_of s k)
      in (queue_tasks ts (set_node k n s), record_unless queued consumer_id k))"
| "run_instr vc tid (RecordRequest c k) s = (RecordNodeRequest tid c k s, [])"
| "run_instr vc tid (QueueTaskWhenAllReady consumer_id consumer fail nodes pos) s =
     (s, if pos = length nodes then [QueueTask (CallConsumer consumer nodes)]
         else fail_registration fail (nodes ! pos) @
              [AddOrQueueAwaitingTask consumer_id (nodes ! pos) (WhenAllReady consumer_id consumer fail nodes (pos + 1))])"
| "run_instr vc tid (CallCreator k l) s = (s\<lparr>created := created s @ [k]\<rparr>, [RunActions k l (vc k)])"
| "run_instr vc tid (RunActions k l []) s = (s, [])"
| "run_instr vc tid (RunActions k l (a # as)) s =
     (s, (case a of
            SetValue v \<Rightarrow> CallSetter k v
          | LogMessage msg fatal \<Rightarrow> CallLogger l msg fatal
          | SubCall nodes wrap consumer \<Rightarrow>
              ConsumeAfterKeysReady (Some k) nodes (NodeConsumer k l consumer) (WrappedLogger wrap l) (Some (NodeFailure k)))
         # [RunActions k l as])"
| "run_instr vc tid (CallSetter k v) s =
     (let (n, ts) = SetAndQueueAwaitingTasks v (node_of s k) in (queue_tasks ts (set_node k n s), []))"
| "run_instr vc tid (CallLogger TopLogger msg fatal) s = (s\<lparr>messages := messages s @ [(msg, fatal)]\<rparr>, [])"
| "run_instr vc tid (CallLogger (NodeLogger k l) msg fatal) s =
     (s, (if fatal then [CallFail (NodeFailure k)] else []) @ [CallLogger l msg fatal])"
| "run_instr vc tid (CallLogger (WrappedLogger wrap l) msg fatal) s = (s, [CallLogger l (wrap msg) fatal])"
| "run_instr vc tid (CallFail (TopFailure i)) s = (s\<lparr>top_failures := top_failures s @ [i]\<rparr>, [])"
| "run_instr vc tid (CallFail (NodeFailure k)) s =
     (let (n, ts) = Fail_node (node_of s k) in (queue_tasks ts (set_node k n s), []))"
| "run_instr vc tid (ReadAndConsume (TopConsumer i) nodes) s =
     (s\<lparr>consumed := consumed s @ [(i, map (\<lambda>k. the (node_value (node_of s k))) nodes)]\<rparr>, [])"
| "run_instr vc tid (ReadAndConsume (NodeConsumer k l consumer) nodes) s =
     (s, [RunActions k l (consumer (map (\<lambda>k. the (node_value (node_of s k))) nodes))])"

section \<open>Threads\<close>

record ('k, 'v) map_system =
  async_map :: "('k, 'v) map_state"
  thread_code :: "('k, 'v) map_instr list list"

text \<open>
  Thread 0 is that of the client, which makes its calls and then waits for the task system;
  the others are workers, of which there is at least one. The calls of the client are numbered,
  to tell their consumers and failure functions apart.
\<close>

fun client_calls :: "nat \<Rightarrow> ('k list \<times> bool) list \<Rightarrow> ('k, 'v) map_instr list" where
  "client_calls i [] = []"
| "client_calls i ((nodes, with_fail) # calls) =
     ConsumeAfterKeysReady None nodes (TopConsumer i) TopLogger (if with_fail then Some (TopFailure i) else None)
     # client_calls (i + 1) calls"

definition start_map :: "nat \<Rightarrow> ('k list \<times> bool) list \<Rightarrow> ('k, 'v) map_system" where
  "start_map jobs calls = \<lparr>async_map = empty_map, thread_code = client_calls 0 calls # replicate (max 1 jobs) []\<rparr>"

inductive map_step :: "('k, 'v) creator \<Rightarrow> ('k, 'v) map_system \<Rightarrow> ('k, 'v) map_system \<Rightarrow> bool" for vc where
  run_thread:
    "w < length (thread_code s) \<Longrightarrow> thread_code s ! w = i # is \<Longrightarrow> run_instr vc w i (async_map s) = (m, new) \<Longrightarrow>
     map_step vc s (s\<lparr>async_map := m, thread_code := (thread_code s)[w := new @ is]\<rparr>)"
| start_task:
    "0 < w \<Longrightarrow> w < length (thread_code s) \<Longrightarrow> thread_code s ! w = [] \<Longrightarrow> t \<in># task_queue (async_map s) \<Longrightarrow>
     map_step vc s (s\<lparr>async_map := (async_map s)\<lparr>task_queue := task_queue (async_map s) - {#t#}\<rparr>,
                       thread_code := (thread_code s)[w := [task_code t]]\<rparr>)"

inductive map_reachable :: "('k, 'v) creator \<Rightarrow> ('k, 'v) map_system \<Rightarrow> ('k, 'v) map_system \<Rightarrow> bool" for vc s0 where
  map_start: "map_reachable vc s0 s0"
| map_steps: "map_reachable vc s0 s \<Longrightarrow> map_step vc s s' \<Longrightarrow> map_reachable vc s0 s'"

section \<open>Pending keys and cycles\<close>

definition IsReady_key :: "('k, 'v) map_state \<Rightarrow> 'k \<Rightarrow> bool" where
  "IsReady_key s k = node_IsReady (node_of s k)"

definition GetPendingKeys :: "('k, 'v) map_state \<Rightarrow> 'k list \<Rightarrow> 'k list" where
  "GetPendingKeys s iteration = filter (\<lambda>k. \<not> IsReady_key s k) iteration"

text \<open>The requests of a thread are added to the table, without the nodes that are ready by now.\<close>

definition add_requests :: "('k \<Rightarrow> bool) \<Rightarrow> 'k \<times> 'k list \<Rightarrow> 'k requests \<Rightarrow> 'k requests" where
  "add_requests ready entry requests =
     (let pending = filter (\<lambda>k. \<not> ready k) (snd entry)
      in AList.map_default (fst entry) pending (\<lambda>nodes. List.union pending nodes) requests)"

definition GetPendingRequests :: "('k, 'v) map_state \<Rightarrow> 'k requests" where
  "GetPendingRequests s = fold (add_requests (IsReady_key s)) (concat (map snd (requests_by_thread s))) []"

text \<open>The requests whose callers are not on a path; there are fewer and fewer during a search.\<close>

definition keys_left :: "'k requests \<Rightarrow> 'k list \<Rightarrow> nat" where
  "keys_left requests calls = card (fst ` set requests - set calls)"

lemma keys_left_caller:
  assumes "map_of requests caller = Some deps" "caller \<notin> set calls"
  shows "keys_left requests (calls @ [caller]) < keys_left requests calls"
  unfolding keys_left_def
proof (rule psubset_card_mono)
  show "fst ` set requests - set (calls @ [caller]) \<subset> fst ` set requests - set calls"
    using assms by (force dest: map_of_SomeD)
qed simp

lemma keys_left_known: "caller \<in> set calls \<Longrightarrow> keys_left requests (calls @ [caller]) = keys_left requests calls"
  by (simp add: keys_left_def insert_absorb)

text \<open>
  The search for a cycle. The path holds the first \<^verbatim>\<open>pos\<close> entries of the vector \<^verbatim>\<open>calls\<close>; the entries
  behind it are never read.
\<close>

function (sequential) DetectCycleForCaller :: "'k requests \<Rightarrow> 'k list \<Rightarrow> 'k set \<Rightarrow> 'k \<Rightarrow> 'k list option \<times> 'k set"
  and detect_deps :: "'k requests \<Rightarrow> 'k list \<Rightarrow> 'k set \<Rightarrow> 'k list \<Rightarrow> 'k list option \<times> 'k set" where
  "DetectCycleForCaller requests calls known caller =
     (if caller \<in> known then (None, known)
      else case map_of requests caller of
             None \<Rightarrow> (None, insert caller known)
           | Some deps \<Rightarrow>
               (case detect_deps requests (calls @ [caller]) known deps of
                  (Some cycle, known) \<Rightarrow> (Some cycle, known)
                | (None, known) \<Rightarrow> (None, insert caller known)))"
| "detect_deps requests calls known [] = (None, known)"
| "detect_deps requests calls known (dep # deps) =
     (if dep \<in> set calls then (Some (calls @ [dep]), known)
      else case DetectCycleForCaller requests calls known dep of
             (Some cycle, known) \<Rightarrow> (Some cycle, known)
           | (None, known) \<Rightarrow> detect_deps requests calls known deps)"
  by pat_completeness auto

termination
  by (relation "measures [
        (\<lambda>x. case x of Inl (requests, calls, known, caller) \<Rightarrow> keys_left requests calls
                     | Inr (requests, calls, known, deps) \<Rightarrow> keys_left requests calls),
        (\<lambda>x. case x of Inl (requests, calls, known, caller) \<Rightarrow> if caller \<in> set calls then 2 else 0
                     | Inr (requests, calls, known, deps) \<Rightarrow> 1),
        (\<lambda>x. case x of Inl (requests, calls, known, caller) \<Rightarrow> 0 | Inr (requests, calls, known, deps) \<Rightarrow> length deps)]")
     (auto simp: keys_left_known intro: keys_left_caller)

fun detect_callers :: "'k requests \<Rightarrow> 'k set \<Rightarrow> 'k list \<Rightarrow> 'k list option" where
  "detect_callers requests known [] = None"
| "detect_callers requests known (caller # callers) =
     (case DetectCycleForCaller requests [] known caller of
        (Some cycle, known) \<Rightarrow> Some cycle
      | (None, known) \<Rightarrow> detect_callers requests known callers)"

definition DetectCycle :: "('k, 'v) map_state \<Rightarrow> 'k list option" where
  "DetectCycle s = (let requests = GetPendingRequests s in detect_callers requests {} (map fst requests))"

text \<open>The text that shows a cycle: entries from the first occurrence of the repeated key on are in the cycle.\<close>

fun cycle_lines :: "('k \<Rightarrow> string) \<Rightarrow> 'k \<Rightarrow> bool \<Rightarrow> 'k list \<Rightarrow> string" where
  "cycle_lines printer repeated found [] = []"
| "cycle_lines printer repeated found (k # ks) =
     (let match = (k = repeated);
          prefix = (if match then (if found then ''`-- '' else ''.-> '') else (if found then ''|   '' else ''    ''))
      in prefix @ printer k @ [CHR 0x0A] @ cycle_lines printer repeated (found \<or> match) ks)"

definition DetectAndReportCycle :: "string \<Rightarrow> ('k \<Rightarrow> string) \<Rightarrow> ('k, 'v) map_state \<Rightarrow> string option" where
  "DetectAndReportCycle name printer s =
     (case DetectCycle s of
        None \<Rightarrow> None
      | Some cycle \<Rightarrow> Some (''Cycle detected in '' @ name @ '':'' @ [CHR 0x0A] @ cycle_lines printer (last cycle) False cycle))"

definition DetectAndReportPending :: "string \<Rightarrow> ('k \<Rightarrow> string) \<Rightarrow> ('k, 'v) map_state \<Rightarrow> 'k list \<Rightarrow> string option" where
  "DetectAndReportPending name printer s iteration =
     (case GetPendingKeys s iteration of
        [] \<Rightarrow> None
      | ks \<Rightarrow> Some (''Internal error, failed to evaluate pending '' @ name @ '':'' @ [CHR 0x0A] @
                   concat (map (\<lambda>k. ''  '' @ printer k @ [CHR 0x0A]) ks)))"

end
