(* ===== verification/Jst_AsyncMap_View.thy ===== *)
theory Jst_AsyncMap_View
  imports Jst_AsyncMap
begin

text \<open>
  The threads and the task queue matter for invariants only by the instructions they hold: a view of a
  system is the nodes of the map and the multiset of the instructions that are still to be run, a
  queued task being the instruction it starts with. Every step runs one instruction of the view, or
  leaves the view as it is.
\<close>

definition without_queue :: "('k, 'v) map_state \<Rightarrow> ('k, 'v) map_state" where
  "without_queue m = m\<lparr>task_queue := {#}\<rparr>"

definition open_items :: "('k, 'v) map_system \<Rightarrow> ('k, 'v) map_instr multiset" where
  "open_items s = mset (concat (thread_code s)) + image_mset task_code (task_queue (async_map s))"

lemma without_queue_simps [simp]:
  "node_map (without_queue m) = node_map m" "requests_by_thread (without_queue m) = requests_by_thread m"
  "created (without_queue m) = created m" "consumed (without_queue m) = consumed m"
  "top_failures (without_queue m) = top_failures m" "messages (without_queue m) = messages m"
  "task_queue (without_queue m) = {#}" "without_queue (without_queue m) = without_queue m"
  by (simp_all add: without_queue_def)

lemma node_of_cong: "node_map m = node_map m' \<Longrightarrow> node_of m = node_of m'"
  by (simp add: node_of_def fun_eq_iff)

lemma node_of_without_queue [simp]: "node_of (without_queue m) = node_of m"
  by (rule node_of_cong) simp

section \<open>Nodes after an instruction\<close>

lemma queue_tasks_simps [simp]:
  "node_map (queue_tasks ts m) = node_map m" "requests_by_thread (queue_tasks ts m) = requests_by_thread m"
  "created (queue_tasks ts m) = created m" "consumed (queue_tasks ts m) = consumed m"
  "top_failures (queue_tasks ts m) = top_failures m" "messages (queue_tasks ts m) = messages m"
  "task_queue (queue_tasks ts m) = task_queue m + mset ts"
  by (simp_all add: queue_tasks_def)

lemma set_node_simps [simp]:
  "requests_by_thread (set_node k n m) = requests_by_thread m" "task_queue (set_node k n m) = task_queue m"
  "created (set_node k n m) = created m" "consumed (set_node k n m) = consumed m"
  "top_failures (set_node k n m) = top_failures m" "messages (set_node k n m) = messages m"
  by (simp_all add: set_node_def)

lemma node_of_set_node [simp]: "node_of (set_node k n m) = (node_of m)(k := n)"
  by (auto simp: node_of_def set_node_def fun_eq_iff)

lemma GetOrCreateNode_simps [simp]:
  "requests_by_thread (GetOrCreateNode k m) = requests_by_thread m" "task_queue (GetOrCreateNode k m) = task_queue m"
  "created (GetOrCreateNode k m) = created m" "consumed (GetOrCreateNode k m) = consumed m"
  "top_failures (GetOrCreateNode k m) = top_failures m" "messages (GetOrCreateNode k m) = messages m"
  by (simp_all add: GetOrCreateNode_def split: option.splits)

lemma node_of_GetOrCreateNode [simp]: "node_of (GetOrCreateNode k m) = node_of m"
  by (auto simp: GetOrCreateNode_def node_of_def set_node_def fun_eq_iff split: option.splits)

lemma node_of_updates [simp]:
  "node_of (queue_tasks ts m) = node_of m" "node_of (RecordNodeRequest tid c k m) = node_of m"
  "node_of (m\<lparr>created := a\<rparr>) = node_of m" "node_of (m\<lparr>consumed := b\<rparr>) = node_of m"
  "node_of (m\<lparr>top_failures := d\<rparr>) = node_of m" "node_of (m\<lparr>messages := e\<rparr>) = node_of m"
  "node_of (m\<lparr>task_queue := q\<rparr>) = node_of m"
  by (rule node_of_cong, simp add: RecordNodeRequest_def)+

lemma RecordNodeRequest_simps [simp]:
  "node_map (RecordNodeRequest tid c k m) = node_map m" "task_queue (RecordNodeRequest tid c k m) = task_queue m"
  "created (RecordNodeRequest tid c k m) = created m" "consumed (RecordNodeRequest tid c k m) = consumed m"
  "top_failures (RecordNodeRequest tid c k m) = top_failures m" "messages (RecordNodeRequest tid c k m) = messages m"
  by (simp_all add: RecordNodeRequest_def)

text \<open>The queue is only added to.\<close>

lemma set_node_queue: "set_node k n (m\<lparr>task_queue := q\<rparr>) = (set_node k n m)\<lparr>task_queue := q\<rparr>"
  by (simp add: set_node_def)

lemma queue_tasks_queue: "queue_tasks ts (m\<lparr>task_queue := q\<rparr>) = m\<lparr>task_queue := q + mset ts\<rparr>"
  by (simp add: queue_tasks_def)

lemma run_instr_queue:
  assumes "run_instr vc w i (without_queue m) = (m', new)"
  shows "run_instr vc w i m = (m'\<lparr>task_queue := task_queue m + task_queue m'\<rparr>, new)"
proof -
  have "run_instr vc w i (m\<lparr>task_queue := q\<rparr>) =
      (m'\<lparr>task_queue := q + task_queue m'\<rparr>, new)" if "run_instr vc w i (m\<lparr>task_queue := {#}\<rparr>) = (m', new)" for q
    using that
    by (induction vc w i "m\<lparr>task_queue := {#}\<rparr>" rule: run_instr.induct)
       (auto simp: set_node_queue queue_tasks_queue GetAndMarkQueued_def GetOrCreateNode_def RecordNodeRequest_def split: prod.splits option.splits)
  from this [of "task_queue m"] assms show ?thesis by (simp add: without_queue_def)
qed

section \<open>Steps on views\<close>

lemma mset_run_thread:
  "w < length xs \<Longrightarrow> xs ! w = i # is \<Longrightarrow> mset (concat (xs[w := new @ is])) + {#i#} = mset (concat xs) + mset new"
proof (induction xs arbitrary: w)
  case (Cons x xs)
  then show ?case by (cases w) auto
qed simp

lemma mset_start_task:
  "w < length xs \<Longrightarrow> xs ! w = [] \<Longrightarrow> mset (concat (xs[w := [i]])) = add_mset i (mset (concat xs))"
proof (induction xs arbitrary: w)
  case (Cons x xs)
  then show ?case by (cases w) auto
qed simp

lemma step_view:
  assumes "map_step vc s s'"
  shows "(without_queue (async_map s') = without_queue (async_map s) \<and> open_items s' = open_items s) \<or>
    (\<exists>w i M m' new. open_items s = add_mset i M \<and> run_instr vc w i (without_queue (async_map s)) = (m', new) \<and>
       without_queue (async_map s') = without_queue m' \<and>
       open_items s' = M + mset new + image_mset task_code (task_queue m'))"
  using assms
proof cases
  case (run_thread w i "is" m new)
  obtain m1 new1 where run: "run_instr vc w i (without_queue (async_map s)) = (m1, new1)" by fastforce
  from run_instr_queue [OF this] run_thread have
    m: "m = m1\<lparr>task_queue := task_queue (async_map s) + task_queue m1\<rparr>" "new1 = new" by simp_all
  have items: "mset (concat ((thread_code s)[w := new @ is])) + {#i#} = mset (concat (thread_code s)) + mset new"
    using run_thread by (intro mset_run_thread)
  have "i \<in># mset (concat (thread_code s))"
    using run_thread(2,3) by (auto simp: in_set_conv_nth [of "thread_code s ! w"]) (metis list.set_intros(1) nth_mem)
  then obtain M where M: "mset (concat (thread_code s)) = add_mset i M" by (meson mset_add)
  have "open_items s = add_mset i (M + image_mset task_code (task_queue (async_map s)))" by (simp add: open_items_def M)
  moreover have "open_items s' = (M + image_mset task_code (task_queue (async_map s))) + mset new + image_mset task_code (task_queue m1)"
    using items M by (simp add: open_items_def run_thread m)
  moreover have "without_queue (async_map s') = without_queue m1" by (simp add: run_thread m without_queue_def)
  ultimately show ?thesis using run m(2) by blast
next
  case (start_task w t)
  have "open_items s' = open_items s"
    using start_task by (simp add: open_items_def mset_start_task image_mset_Diff)
  then show ?thesis using start_task by (simp add: without_queue_def)
qed

lemma view_invariant:
  assumes reachable: "map_reachable vc s0 s"
    and start: "P (without_queue (async_map s0)) (open_items s0)"
    and step: "\<And>w i m M m' new. P m (add_mset i M) \<Longrightarrow> task_queue m = {#} \<Longrightarrow> run_instr vc w i m = (m', new) \<Longrightarrow>
      P (without_queue m') (M + mset new + image_mset task_code (task_queue m'))"
  shows "P (without_queue (async_map s)) (open_items s)"
  using reachable
proof induction
  case (map_steps s s')
  from step_view [OF map_steps.hyps(2)] show ?case
  proof (elim disjE exE conjE)
    fix w i M m' new
    assume "open_items s = add_mset i M" "run_instr vc w i (without_queue (async_map s)) = (m', new)"
      and view: "without_queue (async_map s') = without_queue m'"
        "open_items s' = M + mset new + image_mset task_code (task_queue m')"
    with map_steps.IH show ?thesis
      using step [of "without_queue (async_map s)" i M w m' new] by simp
  qed (use map_steps.IH in simp)
qed (rule start)

lemma open_items_start: "open_items (start_map jobs calls) = mset (client_calls 0 calls)"
  by (simp add: open_items_def start_map_def empty_map_def)

lemma start_view: "without_queue (async_map (start_map jobs calls)) = empty_map"
  by (simp add: start_map_def empty_map_def without_queue_def)

section \<open>Ends\<close>

text \<open>Where no step is possible nothing is left to run.\<close>

lemma threads_kept: "map_step vc s s' \<Longrightarrow> length (thread_code s') = length (thread_code s)"
  by (induction rule: map_step.induct) auto

lemma reachable_threads: "map_reachable vc s0 s \<Longrightarrow> length (thread_code s) = length (thread_code s0)"
  by (induction rule: map_reachable.induct) (auto dest: threads_kept)

definition at_rest :: "('k, 'v) creator \<Rightarrow> ('k, 'v) map_system \<Rightarrow> bool" where
  "at_rest vc s \<longleftrightarrow> (\<nexists>s'. map_step vc s s')"

lemma at_rest_items:
  assumes "map_reachable vc (start_map jobs calls) s" "at_rest vc s"
  shows "open_items s = {#}"
proof -
  have idle: "thread_code s ! w = []" if "w < length (thread_code s)" for w
  proof (rule ccontr)
    assume "thread_code s ! w \<noteq> []"
    then obtain i "is" where "thread_code s ! w = i # is" by (cases "thread_code s ! w") auto
    with that have "\<exists>s'. map_step vc s s'" by (cases "run_instr vc w i (async_map s)") (blast intro: map_step.run_thread)
    with assms(2) show False by (simp add: at_rest_def)
  qed
  have "1 < length (thread_code s)" using reachable_threads [OF assms(1)] by (simp add: start_map_def)
  with idle assms(2) have "task_queue (async_map s) = {#}"
    using map_step.start_task [of 1 s _ vc] by (auto simp: at_rest_def multiset_eq_iff not_in_iff) (metis not_in_iff)
  moreover have "concat (thread_code s) = []" using idle by (auto simp: in_set_conv_nth)
  ultimately show ?thesis by (simp add: open_items_def)
qed

end
