(* ===== verification/Jst_AsyncMap_Values.thy ===== *)
theory Jst_AsyncMap_Values
  imports Jst_AsyncMap_View
begin

text \<open>
  What values nodes get, whatever the schedule: those the creators give, computed from values the
  creators give for other keys. A node fails only if its creator logs a fatal message, or needs a key
  that fails.
\<close>

section \<open>What creators give\<close>

inductive gives :: "('k, 'v) creator \<Rightarrow> 'k \<Rightarrow> 'v \<Rightarrow> bool"
  and action_gives :: "('k, 'v) creator \<Rightarrow> ('k, 'v) action \<Rightarrow> 'v \<Rightarrow> bool" for vc where
  gives_action: "a \<in> set (vc k) \<Longrightarrow> action_gives vc a v \<Longrightarrow> gives vc k v"
| set_gives: "action_gives vc (SetValue v) v"
| call_gives: "list_all2 (gives vc) nodes vs \<Longrightarrow> a \<in> set (f vs) \<Longrightarrow> action_gives vc a v \<Longrightarrow> action_gives vc (SubCall nodes wrap f) v"

inductive fails :: "('k, 'v) creator \<Rightarrow> 'k \<Rightarrow> bool"
  and action_fails :: "('k, 'v) creator \<Rightarrow> ('k, 'v) action \<Rightarrow> bool" for vc where
  fails_action: "a \<in> set (vc k) \<Longrightarrow> action_fails vc a \<Longrightarrow> fails vc k"
| fatal_fails: "action_fails vc (LogMessage msg True)"
| needed_fails: "k \<in> set nodes \<Longrightarrow> fails vc k \<Longrightarrow> action_fails vc (SubCall nodes wrap f)"
| call_fails: "list_all2 (gives vc) nodes vs \<Longrightarrow> a \<in> set (f vs) \<Longrightarrow> action_fails vc a \<Longrightarrow> action_fails vc (SubCall nodes wrap f)"

inductive_cases action_gives_cases [elim!]:
  "action_gives vc (SetValue v') v" "action_gives vc (LogMessage msg fatal) v"
inductive_cases call_gives_cases: "action_gives vc (SubCall nodes wrap f) v"
inductive_cases gives_cases: "gives vc k v"
inductive_cases action_fails_cases [elim!]: "action_fails vc (SetValue v)" "action_fails vc (LogMessage msg fatal)"
inductive_cases call_fails_cases: "action_fails vc (SubCall nodes wrap f)"
inductive_cases fails_cases: "fails vc k"

section \<open>What is sound\<close>

fun failure_fails :: "('k, 'v) creator \<Rightarrow> ('k list \<times> bool) list \<Rightarrow> 'k failure \<Rightarrow> bool" where
  "failure_fails vc calls (TopFailure i) \<longleftrightarrow> i < length calls \<and> (\<exists>k\<in>set (fst (calls ! i)). fails vc k)"
| "failure_fails vc calls (NodeFailure k) \<longleftrightarrow> fails vc k"

fun logger_nodes :: "'k map_logger \<Rightarrow> 'k set" where
  "logger_nodes TopLogger = {}"
| "logger_nodes (NodeLogger k l) = insert k (logger_nodes l)"
| "logger_nodes (WrappedLogger wrap l) = logger_nodes l"

definition logger_ok :: "('k, 'v) creator \<Rightarrow> 'k \<Rightarrow> 'k map_logger \<Rightarrow> bool" where
  "logger_ok vc k l \<longleftrightarrow> (fails vc k \<longrightarrow> (\<forall>k'\<in>logger_nodes l. fails vc k'))"

definition within :: "('k, 'v) creator \<Rightarrow> 'k \<Rightarrow> ('k, 'v) action list \<Rightarrow> bool" where
  "within vc k as \<longleftrightarrow> (\<forall>a\<in>set as. (\<forall>v. action_gives vc a v \<longrightarrow> gives vc k v) \<and> (action_fails vc a \<longrightarrow> fails vc k))"

fun consumer_ok :: "('k, 'v) creator \<Rightarrow> ('k list \<times> bool) list \<Rightarrow> 'k list \<Rightarrow> ('k, 'v) consumer \<Rightarrow> bool" where
  "consumer_ok vc calls nodes (TopConsumer i) \<longleftrightarrow> i < length calls \<and> nodes = fst (calls ! i)"
| "consumer_ok vc calls nodes (NodeConsumer k l f) \<longleftrightarrow>
     logger_ok vc k l \<and> (\<forall>vs. list_all2 (gives vc) nodes vs \<longrightarrow> within vc k (f vs))"

definition request_ok ::
  "('k, 'v) creator \<Rightarrow> ('k list \<times> bool) list \<Rightarrow> 'k list \<Rightarrow> ('k, 'v) consumer \<Rightarrow> 'k failure option \<Rightarrow> bool" where
  "request_ok vc calls nodes consumer fail \<longleftrightarrow> consumer_ok vc calls nodes consumer \<and>
     (\<forall>f k. fail = Some f \<longrightarrow> k \<in> set nodes \<longrightarrow> fails vc k \<longrightarrow> failure_fails vc calls f)"

fun task_ok :: "('k, 'v) creator \<Rightarrow> ('k list \<times> bool) list \<Rightarrow> 'k set \<Rightarrow> ('k, 'v) map_task \<Rightarrow> bool" where
  "task_ok vc calls R (CreateValue k l) \<longleftrightarrow> logger_ok vc k l"
| "task_ok vc calls R (WhenAllReady cid consumer fail nodes pos) \<longleftrightarrow>
     request_ok vc calls nodes consumer fail \<and> pos \<le> length nodes \<and> set (take pos nodes) \<subseteq> R"
| "task_ok vc calls R (CallConsumer consumer nodes) \<longleftrightarrow> consumer_ok vc calls nodes consumer \<and> set nodes \<subseteq> R"
| "task_ok vc calls R (CallFailure f) \<longleftrightarrow> failure_fails vc calls f"

text \<open>A task that waits for one more node.\<close>

fun waits_ok :: "('k, 'v) creator \<Rightarrow> ('k list \<times> bool) list \<Rightarrow> 'k set \<Rightarrow> 'k \<Rightarrow> ('k, 'v) map_task \<Rightarrow> bool" where
  "waits_ok vc calls R k (WhenAllReady cid consumer fail nodes pos) \<longleftrightarrow>
     task_ok vc calls (insert k R) (WhenAllReady cid consumer fail nodes pos)"
| "waits_ok vc calls R k t \<longleftrightarrow> False"

fun item_ok :: "('k, 'v) creator \<Rightarrow> ('k list \<times> bool) list \<Rightarrow> 'k set \<Rightarrow> ('k, 'v) map_instr \<Rightarrow> bool" where
  "item_ok vc calls R (ConsumeAfterKeysReady cid nodes consumer l fail) \<longleftrightarrow>
     request_ok vc calls nodes consumer fail \<and> (\<forall>k\<in>set nodes. logger_ok vc k l)"
| "item_ok vc calls R (EnsureValuePresent k l) \<longleftrightarrow> logger_ok vc k l"
| "item_ok vc calls R (QueueOnceProcessingTask k l) \<longleftrightarrow> logger_ok vc k l"
| "item_ok vc calls R (QueueTask t) \<longleftrightarrow> task_ok vc calls R t"
| "item_ok vc calls R (QueueOnFailure k f) \<longleftrightarrow> (fails vc k \<longrightarrow> failure_fails vc calls f)"
| "item_ok vc calls R (QueueOnFailureLocked k f) \<longleftrightarrow> (fails vc k \<longrightarrow> failure_fails vc calls f)"
| "item_ok vc calls R (AddOrQueueAwaitingTask cid k t) \<longleftrightarrow> waits_ok vc calls R k t"
| "item_ok vc calls R (AddOrQueueLocked cid k t) \<longleftrightarrow> waits_ok vc calls R k t"
| "item_ok vc calls R (RecordRequest c k) \<longleftrightarrow> True"
| "item_ok vc calls R (QueueTaskWhenAllReady cid consumer fail nodes pos) \<longleftrightarrow>
     task_ok vc calls R (WhenAllReady cid consumer fail nodes pos)"
| "item_ok vc calls R (CallCreator k l) \<longleftrightarrow> logger_ok vc k l"
| "item_ok vc calls R (RunActions k l as) \<longleftrightarrow> logger_ok vc k l \<and> within vc k as"
| "item_ok vc calls R (CallSetter k v) \<longleftrightarrow> gives vc k v"
| "item_ok vc calls R (CallLogger l msg fatal) \<longleftrightarrow> (fatal \<longrightarrow> (\<forall>k\<in>logger_nodes l. fails vc k))"
| "item_ok vc calls R (CallFail f) \<longleftrightarrow> failure_fails vc calls f"
| "item_ok vc calls R (ReadAndConsume consumer nodes) \<longleftrightarrow> task_ok vc calls R (CallConsumer consumer nodes)"

definition node_ok :: "('k, 'v) creator \<Rightarrow> ('k list \<times> bool) list \<Rightarrow> 'k set \<Rightarrow> 'k \<Rightarrow> ('k, 'v) AsyncMapNode \<Rightarrow> bool" where
  "node_ok vc calls R k n \<longleftrightarrow>
     (\<forall>v. node_value n = Some v \<longrightarrow> gives vc k v) \<and> (node_failed n \<longrightarrow> fails vc k) \<and>
     (\<forall>t\<in>set (awaiting_tasks n). waits_ok vc calls R k t) \<and>
     (\<forall>t\<in>set (failure_tasks n). \<exists>f. t = CallFailure f \<and> (fails vc k \<longrightarrow> failure_fails vc calls f))"

definition ready_keys :: "('k, 'v) map_state \<Rightarrow> 'k set" where
  "ready_keys m = {k. node_value (node_of m k) \<noteq> None}"

definition history_ok :: "('k, 'v) creator \<Rightarrow> ('k list \<times> bool) list \<Rightarrow> ('k, 'v) map_state \<Rightarrow> bool" where
  "history_ok vc calls m \<longleftrightarrow>
     (\<forall>(i, vs)\<in>set (consumed m). i < length calls \<and> list_all2 (gives vc) (fst (calls ! i)) vs) \<and>
     (\<forall>i\<in>set (top_failures m). failure_fails vc calls (TopFailure i))"

definition map_sound :: "('k, 'v) creator \<Rightarrow> ('k list \<times> bool) list \<Rightarrow> ('k, 'v) map_state \<Rightarrow> ('k, 'v) map_instr multiset \<Rightarrow> bool" where
  "map_sound vc calls m M \<longleftrightarrow>
     (\<forall>k. node_ok vc calls (ready_keys m) k (node_of m k)) \<and> (\<forall>i\<in>#M. item_ok vc calls (ready_keys m) i) \<and> history_ok vc calls m"

section \<open>Every step is sound\<close>

lemma task_ok_mono: "task_ok vc calls R t \<Longrightarrow> R \<subseteq> R' \<Longrightarrow> task_ok vc calls R' t"
  by (cases t) auto

lemma waits_ok_mono: "waits_ok vc calls R k t \<Longrightarrow> R \<subseteq> R' \<Longrightarrow> waits_ok vc calls R' k t"
  by (cases t) auto

lemma waits_ok_ready: "waits_ok vc calls R k t \<Longrightarrow> k \<in> R \<Longrightarrow> task_ok vc calls R t"
  by (cases t) (auto simp: insert_absorb)

lemma waits_ok_insert: "waits_ok vc calls R k t \<Longrightarrow> task_ok vc calls (insert k R) t"
  by (cases t) auto

lemma ready_keys_iff: "k \<in> ready_keys m \<longleftrightarrow> node_value (node_of m k) \<noteq> None"
  by (simp add: ready_keys_def)

lemma item_ok_mono:
  assumes "item_ok vc calls R i" "R \<subseteq> R'"
  shows "item_ok vc calls R' i"
  using assms(1) task_ok_mono [OF _ assms(2)] waits_ok_mono [OF _ assms(2)] by (cases i) (simp_all del: task_ok.simps)

lemma node_ok_mono:
  assumes "node_ok vc calls R k n" "R \<subseteq> R'"
  shows "node_ok vc calls R' k n"
  using assms(1) waits_ok_mono [OF _ assms(2), of vc calls k] by (auto simp: node_ok_def)

lemma item_ok_task_code [simp]: "item_ok vc calls R (task_code t) = task_ok vc calls R t"
  by (cases t) auto

lemma ready_keys_cong: "node_of m = node_of m' \<Longrightarrow> ready_keys m = ready_keys m'"
  by (simp add: ready_keys_def)

lemma history_ok_without_queue [simp]: "history_ok vc calls (without_queue m) = history_ok vc calls m"
  by (simp add: history_ok_def)

text \<open>Nodes stay as they are, or one changes.\<close>

lemma sound_items:
  assumes "map_sound vc calls m (add_mset i M)" "node_of m' = node_of m" "history_ok vc calls m'"
    and "\<And>j. j \<in># new \<Longrightarrow> item_ok vc calls (ready_keys m) j"
  shows "map_sound vc calls m' (M + new)"
  using assms ready_keys_cong [OF assms(2)] by (auto simp: map_sound_def)

lemma sound_node:
  assumes sound: "map_sound vc calls m (add_mset i M)" and "node_of m' = (node_of m)(k := n)"
    and "consumed m' = consumed m" "top_failures m' = top_failures m"
    and kept: "node_value (node_of m k) \<noteq> None \<Longrightarrow> node_value n \<noteq> None"
    and n: "node_ok vc calls (if node_value n = None then ready_keys m else insert k (ready_keys m)) k n"
    and new: "\<And>j. j \<in># new \<Longrightarrow> item_ok vc calls (if node_value n = None then ready_keys m else insert k (ready_keys m)) j"
  shows "map_sound vc calls m' (M + new)"
proof -
  have R: "ready_keys m' = (if node_value n = None then ready_keys m else insert k (ready_keys m))"
    using assms(2) kept by (auto simp: ready_keys_def)
  have mono: "ready_keys m \<subseteq> ready_keys m'" by (auto simp: R)
  have "node_ok vc calls (ready_keys m') k' (node_of m' k')" for k'
    using sound n node_ok_mono [OF _ mono, of vc calls k'] by (auto simp: map_sound_def assms(2) R [symmetric])
  moreover have "item_ok vc calls (ready_keys m') j" if "j \<in># M + new" for j
    using sound new that item_ok_mono [OF _ mono, of vc calls j] by (auto simp: map_sound_def R [symmetric])
  ultimately show ?thesis using sound assms(3,4) by (simp add: map_sound_def history_ok_def)
qed

lemma values_given:
  assumes "\<forall>k. node_ok vc calls R k (node_of m k)" "set nodes \<subseteq> ready_keys m"
  shows "list_all2 (gives vc) nodes (map (\<lambda>k. the (node_value (node_of m k))) nodes)"
  using assms by (auto simp: list_all2_conv_all_nth ready_keys_def node_ok_def dest!: nth_mem)

lemma within_Cons: "within vc k (a # as) \<Longrightarrow> within vc k as"
  by (simp add: within_def)

lemma withinD: "within vc k (a # as) \<Longrightarrow> action_fails vc a \<Longrightarrow> fails vc k"
  by (simp add: within_def)

lemma subcall_ok:
  assumes "within vc k (SubCall nodes wrap f # as)" "logger_ok vc k l"
  shows "item_ok vc calls R (ConsumeAfterKeysReady cid nodes (NodeConsumer k l f) (WrappedLogger wrap l) (Some (NodeFailure k)))"
proof -
  have needed: "\<forall>k'\<in>set nodes. fails vc k' \<longrightarrow> fails vc k"
    using assms(1) by (blast intro: needed_fails dest: withinD)
  have "\<forall>vs. list_all2 (gives vc) nodes vs \<longrightarrow> within vc k (f vs)"
    using assms(1) unfolding within_def by (meson call_fails call_gives list.set_intros(1))
  with assms(2) have "consumer_ok vc calls nodes (NodeConsumer k l f)" unfolding consumer_ok.simps by blast
  moreover have "failure_fails vc calls g" if "Some (NodeFailure k) = Some g" "k' \<in> set nodes" "fails vc k'" for g k'
  proof -
    from that(1) have "g = NodeFailure k" by simp
    with needed that show ?thesis by (simp only: failure_fails.simps)
  qed
  moreover have "\<forall>k'\<in>set nodes. logger_ok vc k' (WrappedLogger wrap l)"
    using needed assms(2) unfolding logger_ok_def logger_nodes.simps by blast
  ultimately show ?thesis unfolding item_ok.simps request_ok_def by blast
qed

lemma action_ok:
  assumes "within vc k (a # as)" "logger_ok vc k l"
  shows "item_ok vc calls R (case a of
            SetValue v \<Rightarrow> CallSetter k v
          | LogMessage msg fatal \<Rightarrow> CallLogger l msg fatal
          | SubCall nodes wrap consumer \<Rightarrow>
              ConsumeAfterKeysReady (Some k) nodes (NodeConsumer k l consumer) (WrappedLogger wrap l) (Some (NodeFailure k)))"
proof (cases a)
  case (SubCall nodes wrap consumer)
  then show ?thesis using subcall_ok [of vc k nodes wrap consumer as l calls R "Some k"] assms by simp
next
  case (LogMessage msg fatal)
  have "fails vc k" if fatal
    using assms(1) that LogMessage fatal_fails [of vc msg] by (auto simp: within_def)
  with assms(2) LogMessage show ?thesis by (auto simp: logger_ok_def)
qed (use assms in \<open>auto simp: within_def intro: set_gives\<close>)

lemma within_creator: "within vc k (vc k)"
  by (auto simp: within_def intro: gives_action fails_action)

lemma request_items_ok:
  assumes "request_ok vc calls nodes consumer fail" "\<forall>k\<in>set nodes. logger_ok vc k l"
  shows "j \<in> set (snd (run_instr vc w (ConsumeAfterKeysReady cid nodes consumer l fail) m)) \<Longrightarrow> item_ok vc calls R j"
  using assms by (auto simp: fail_registration_def request_ok_def take_Suc split: list.splits option.splits if_splits)

lemma next_node_ok:
  assumes "task_ok vc calls R (WhenAllReady cid consumer fail nodes pos)"
  shows "j \<in> set (snd (run_instr vc w (QueueTaskWhenAllReady cid consumer fail nodes pos) m)) \<Longrightarrow> item_ok vc calls R j"
proof (cases "pos = length nodes")
  case False
  with assms have pos: "pos < length nodes" by simp
  have "failure_fails vc calls f" if "fail = Some f" "fails vc (nodes ! pos)" for f
    using assms that nth_mem [OF pos] by (simp add: request_ok_def del: nth_mem)
  with assms pos show "j \<in> set (snd (run_instr vc w (QueueTaskWhenAllReady cid consumer fail nodes pos) m)) \<Longrightarrow> item_ok vc calls R j"
    by (auto simp: fail_registration_def request_ok_def take_Suc_conv_app_nth split: option.splits if_splits)
qed (use assms in \<open>auto simp: request_ok_def\<close>)

lemma map_sound_step:
  assumes sound: "map_sound vc calls m (add_mset i M)" and queue: "task_queue m = {#}"
    and run: "run_instr vc w i m = (m', new)"
  shows "map_sound vc calls (without_queue m') (M + (mset new + image_mset task_code (task_queue m')))"
proof -
  have i: "item_ok vc calls (ready_keys m) i" and nodes: "\<And>k. node_ok vc calls (ready_keys m) k (node_of m k)"
    and history: "history_ok vc calls m"
    using sound by (auto simp: map_sound_def)
  note items = sound_items [OF sound] and node = sound_node [OF sound]
  show ?thesis
  proof (cases i)
    case (ConsumeAfterKeysReady cid ks consumer l fail)
    with run have m: "m' = m" by simp
    show ?thesis
      using i run queue history request_items_ok [of vc calls ks consumer fail l _ w cid m "ready_keys m"]
      unfolding ConsumeAfterKeysReady by (intro items) (auto simp: m simp del: run_instr.simps)
  next
    case (EnsureValuePresent k l)
    with i run queue history show ?thesis by (intro items) (auto simp: logger_ok_def history_ok_def)
  next
    case (QueueOnceProcessingTask k l)
    with i run queue nodes [of k] show ?thesis
      by (intro node [of _ k "snd (GetAndMarkQueued (node_of m k))"])
         (auto simp: GetAndMarkQueued_def node_ok_def ready_keys_iff insert_absorb split: if_splits)
  next
    case (QueueTask t)
    with i run queue history show ?thesis by (intro items) (auto simp: history_ok_def)
  next
    case (QueueOnFailure k f)
    with i run queue history show ?thesis by (intro items) (auto split: if_splits)
  next
    case (QueueOnFailureLocked k f)
    with i run queue nodes [of k] show ?thesis
      by (intro node [of _ k "fst (on_failure_locked (CallFailure f) (node_of m k))"])
         (auto simp: on_failure_locked_def node_ok_def ready_keys_iff insert_absorb split: if_splits)
  next
    case (AddOrQueueAwaitingTask cid k t)
    with i run queue history show ?thesis
      using waits_ok_ready [of vc calls "ready_keys m" k t]
      by (intro items) (auto simp: node_IsReady_def ready_keys_iff history_ok_def split: if_splits)
  next
    case (AddOrQueueLocked cid k t)
    with i run queue nodes [of k] waits_ok_ready [of vc calls "ready_keys m" k t] show ?thesis
      by (intro node [of _ k "fst (await_locked t (node_of m k))"])
         (auto simp: await_locked_def node_ok_def ready_keys_iff insert_absorb node_IsReady_def record_unless_def
            split: if_splits option.splits)
  next
    case (RecordRequest c k)
    with i run queue history show ?thesis by (intro items) (auto simp: history_ok_def)
  next
    case (QueueTaskWhenAllReady cid consumer fail ks pos)
    with run have m: "m' = m" by simp
    show ?thesis
      using i run queue history next_node_ok [of vc calls "ready_keys m" cid consumer fail ks pos _ w m]
      unfolding QueueTaskWhenAllReady by (intro items) (auto simp: m simp del: run_instr.simps)
  next
    case (CallCreator k l)
    with i run queue history show ?thesis by (intro items) (auto simp: history_ok_def within_creator)
  next
    case (RunActions k l as)
    show ?thesis
    proof (cases as)
      case Nil
      with RunActions i run queue history show ?thesis by (intro items) auto
    next
      case (Cons a bs)
      let ?first = "case a of SetValue v \<Rightarrow> CallSetter k v | LogMessage msg fatal \<Rightarrow> CallLogger l msg fatal
        | SubCall nodes wrap consumer \<Rightarrow>
            ConsumeAfterKeysReady (Some k) nodes (NodeConsumer k l consumer) (WrappedLogger wrap l) (Some (NodeFailure k))"
      from RunActions Cons run have m': "m' = m" and new: "new = [?first, RunActions k l bs]" by auto
      have "item_ok vc calls (ready_keys m) ?first" "item_ok vc calls (ready_keys m) (RunActions k l bs)"
        using i RunActions Cons action_ok [of vc k a bs l calls "ready_keys m"] within_Cons [of vc k a bs] by auto
      with history show ?thesis unfolding m' new by (intro items) (auto simp: queue)
    qed
  next
    case (CallSetter k v)
    have "task_ok vc calls (insert k (ready_keys m)) t" if "t \<in> set (awaiting_tasks (node_of m k))" for t
      using that nodes [of k] by (intro waits_ok_insert) (simp add: node_ok_def)
    with CallSetter i run queue nodes [of k] show ?thesis
      by (intro node [of _ k "fst (SetAndQueueAwaitingTasks v (node_of m k))"])
         (auto simp: SetAndQueueAwaitingTasks_def node_ok_def ready_keys_iff insert_absorb
            split: if_splits)
  next
    case (CallLogger l msg fatal)
    with i run queue history show ?thesis by (intro items; cases l) (auto simp: history_ok_def split: if_splits)
  next
    case (CallFail f)
    show ?thesis
    proof (cases f)
      case (TopFailure j)
      with CallFail i run queue history show ?thesis by (intro items) (auto simp: history_ok_def)
    next
      case (NodeFailure k)
      have "task_ok vc calls R t" if "t \<in> set (failure_tasks (node_of m k))" for R t
        using that nodes [of k] i CallFail NodeFailure by (auto simp: node_ok_def dest: bspec)
      with CallFail NodeFailure i run queue nodes [of k] show ?thesis
        by (intro node [of _ k "fst (Fail_node (node_of m k))"])
           (auto simp: Fail_node_def node_ok_def ready_keys_iff insert_absorb node_IsReady_def split: if_splits)
    qed
  next
    case (ReadAndConsume consumer ks)
    with i have "set ks \<subseteq> ready_keys m" by simp
    from values_given [OF _ this] nodes have "list_all2 (gives vc) ks (map (\<lambda>k. the (node_value (node_of m k))) ks)" by blast
    with ReadAndConsume i run queue history show ?thesis
      by (intro items; cases consumer) (auto simp: history_ok_def)
  qed
qed

lemma start_sound: "map_sound vc calls empty_map (mset (client_calls 0 calls))"
proof -
  have "item_ok vc calls R j" if "j \<in> set (client_calls n (drop n calls))" for n j R
    using that
  proof (induction "length calls - n" arbitrary: n)
    case 0
    then show ?case by simp
  next
    case (Suc d)
    then have n: "n < length calls" "d = length calls - Suc n" by simp_all
    obtain nodes with_fail where call: "calls ! n = (nodes, with_fail)" by fastforce
    then have "drop n calls = (nodes, with_fail) # drop (Suc n) calls" using Cons_nth_drop_Suc [OF n(1)] by simp
    with Suc n call show ?case by (auto simp: request_ok_def logger_ok_def simp del: drop_Suc_Cons)
  qed
  from this [of _ 0] show ?thesis
    by (auto simp: map_sound_def node_ok_def node_of_def empty_map_def fresh_node_def history_ok_def)
qed

lemma reachable_sound:
  assumes "map_reachable vc (start_map jobs calls) s"
  shows "map_sound vc calls (without_queue (async_map s)) (open_items s)"
  using assms
proof (rule view_invariant)
  show "map_sound vc calls (without_queue (async_map (start_map jobs calls))) (open_items (start_map jobs calls))"
    unfolding start_view open_items_start by (rule start_sound)
qed (use map_sound_step in \<open>fastforce simp: add.assoc\<close>)

end
