(* ===== verification/Jst_AsyncMap_Cycle.thy ===== *)
theory Jst_AsyncMap_Cycle
  imports Jst_AsyncMap
begin

text \<open>
  The search for a cycle among pending requests is correct: what it finds is a cycle, and it finds one
  if there is any. The requests it searches are the recorded ones whose nodes have no value.
\<close>

section \<open>Tables of requests as relations\<close>

definition requested :: "'k requests \<Rightarrow> ('k \<times> 'k) set" where
  "requested requests = {(c, k). \<exists>deps. (c, deps) \<in> set requests \<and> k \<in> set deps}"

lemma requested_simps [simp]:
  "requested [] = {}"
  "requested ((c, deps) # requests) = {c} \<times> set deps \<union> requested requests"
  by (auto simp: requested_def)

lemma requested_append [simp]: "requested (xs @ ys) = requested xs \<union> requested ys"
  by (auto simp: requested_def)

lemma requested_iff: "distinct (map fst requests) \<Longrightarrow> (c, k) \<in> requested requests \<longleftrightarrow> (\<exists>deps. map_of requests c = Some deps \<and> k \<in> set deps)"
  by (auto simp: requested_def dest: map_of_SomeD)

lemma requested_map_default:
  assumes "\<And>old. set (f old) = set new \<union> set old"
  shows "requested (AList.map_default c new f requests) = {c} \<times> set new \<union> requested requests"
  using assms by (induction requests) auto

section \<open>The search on a table\<close>

declare DetectCycleForCaller.simps [simp del]

lemmas search_split = option.splits prod.splits if_splits

lemma search_finds:
  "DetectCycleForCaller requests calls known caller = (Some cycle, known') \<Longrightarrow> distinct (map fst requests) \<Longrightarrow>
     successively (\<lambda>c k. (c, k) \<in> requested requests) (calls @ [caller]) \<Longrightarrow>
     \<exists>p k. cycle = p @ [k] \<and> k \<in> set p \<and> successively (\<lambda>c k. (c, k) \<in> requested requests) cycle"
  "detect_deps requests calls known deps = (Some cycle, known') \<Longrightarrow> distinct (map fst requests) \<Longrightarrow> calls \<noteq> [] \<Longrightarrow>
     (\<And>k. k \<in> set deps \<Longrightarrow> (last calls, k) \<in> requested requests) \<Longrightarrow>
     successively (\<lambda>c k. (c, k) \<in> requested requests) calls \<Longrightarrow>
     \<exists>p k. cycle = p @ [k] \<and> k \<in> set p \<and> successively (\<lambda>c k. (c, k) \<in> requested requests) cycle"
proof (induction requests calls known caller and requests calls known deps arbitrary: known' and known'
    rule: DetectCycleForCaller_detect_deps.induct)
  case (1 requests calls known caller)
  then obtain deps where deps: "map_of requests caller = Some deps" "caller \<notin> known"
    and found: "detect_deps requests (calls @ [caller]) known deps = (Some cycle, known')"
    by (auto simp: DetectCycleForCaller.simps split: search_split)
  have "(caller, k) \<in> requested requests" if "k \<in> set deps" for k
    using that deps(1) "1.prems"(2) by (auto simp: requested_iff)
  with 1 deps found show ?case by simp
next
  case (3 requests calls known dep deps)
  show ?case
  proof (cases "dep \<in> set calls")
    case True
    with 3 show ?thesis by (auto simp: successively_append_iff)
  next
    case False
    note step = 3
    show ?thesis
    proof (cases "DetectCycleForCaller requests calls known dep")
      case (Pair result known1)
      have "successively (\<lambda>c k. (c, k) \<in> requested requests) (calls @ [dep])"
        using step(4,5,6,7) by (simp add: successively_append_iff)
      with step False Pair show ?thesis by (cases result) auto
    qed
  qed
qed simp

text \<open>What is known has been searched: its requests are known, and no cycle can be reached from it.\<close>

definition searched :: "('k \<times> 'k) set \<Rightarrow> 'k set \<Rightarrow> bool" where
  "searched E known \<longleftrightarrow> E `` known \<subseteq> known \<and> (\<forall>k\<in>known. (k, k) \<notin> E\<^sup>+)"

lemma searched_closed: "(a, b) \<in> E\<^sup>* \<Longrightarrow> searched E known \<Longrightarrow> a \<in> known \<Longrightarrow> b \<in> known"
  by (induction rule: rtrancl_induct) (auto simp: searched_def)

lemma searched_insert:
  assumes "searched E known" "caller \<notin> known" "E `` {caller} \<subseteq> known"
  shows "searched E (insert caller known)"
proof -
  have "(caller, caller) \<notin> E\<^sup>+"
  proof
    assume "(caller, caller) \<in> E\<^sup>+"
    then obtain k where "(caller, k) \<in> E" "(k, caller) \<in> E\<^sup>*" by (meson tranclD)
    with searched_closed [of k caller E known] assms show False by blast
  qed
  with assms show ?thesis by (auto simp: searched_def)
qed

lemma search_exhausts:
  "DetectCycleForCaller requests calls known caller = (None, known') \<Longrightarrow> distinct (map fst requests) \<Longrightarrow>
     searched (requested requests) known \<Longrightarrow> set calls \<inter> known = {} \<Longrightarrow> caller \<notin> set calls \<Longrightarrow>
     searched (requested requests) known' \<and> known \<subseteq> known' \<and> caller \<in> known' \<and> set calls \<inter> known' = {}"
  "detect_deps requests calls known deps = (None, known') \<Longrightarrow> distinct (map fst requests) \<Longrightarrow>
     searched (requested requests) known \<Longrightarrow> set calls \<inter> known = {} \<Longrightarrow>
     searched (requested requests) known' \<and> known \<subseteq> known' \<and> set deps \<subseteq> known' \<and> set calls \<inter> known' = {}"
proof (induction requests calls known caller and requests calls known deps arbitrary: known' and known'
    rule: DetectCycleForCaller_detect_deps.induct)
  case (1 requests calls known caller)
  show ?case
  proof (cases "caller \<in> known")
    case new: False
    show ?thesis
    proof (cases "map_of requests caller")
      case None
      then have "requested requests `` {caller} = {}" using "1.prems"(2) by (auto simp: requested_iff)
      with None new 1 searched_insert [of "requested requests" known caller] show ?thesis
        by (auto simp: DetectCycleForCaller.simps)
    next
      case (Some deps)
      with "1.prems"(1) new obtain known1 where
        deps: "detect_deps requests (calls @ [caller]) known deps = (None, known1)" "known' = insert caller known1"
        by (auto simp: DetectCycleForCaller.simps split: search_split)
      with 1 new Some have *: "searched (requested requests) known1" "known \<subseteq> known1" "set deps \<subseteq> known1"
          "set (calls @ [caller]) \<inter> known1 = {}" by auto
      moreover have "requested requests `` {caller} = set deps" using Some "1.prems"(2) by (auto simp: requested_iff)
      ultimately show ?thesis using deps(2) "1.prems"(5) searched_insert [of "requested requests" known1 caller] by auto
    qed
  qed (use 1 in \<open>simp add: DetectCycleForCaller.simps\<close>)
next
  case (3 requests calls known dep deps)
  show ?case
  proof (cases "DetectCycleForCaller requests calls known dep")
    case (Pair result known1)
    with 3 have *: "dep \<notin> set calls" "result = None" "detect_deps requests calls known1 deps = (None, known')"
      by (auto split: search_split)
    with 3 Pair have known1: "searched (requested requests) known1 \<and> known \<subseteq> known1 \<and> dep \<in> known1 \<and> set calls \<inter> known1 = {}"
      by simp
    with 3 Pair * have "searched (requested requests) known' \<and> known1 \<subseteq> known' \<and> set deps \<subseteq> known' \<and> set calls \<inter> known' = {}"
      by fastforce
    with known1 show ?thesis by auto
  qed
qed simp

lemma detect_callers_exhausts:
  assumes "detect_callers requests known callers = None" "distinct (map fst requests)" "searched (requested requests) known"
  shows "\<exists>known'. searched (requested requests) known' \<and> known \<subseteq> known' \<and> set callers \<subseteq> known'"
  using assms
proof (induction callers arbitrary: known)
  case (Cons caller callers)
  obtain known1 where first: "DetectCycleForCaller requests [] known caller = (None, known1)"
    and rest: "detect_callers requests known1 callers = None"
    using Cons.prems(1) by (auto split: search_split)
  with Cons.prems search_exhausts(1) [OF first] have
    "searched (requested requests) known1 \<and> known \<subseteq> known1 \<and> caller \<in> known1" by simp
  with Cons.IH [OF rest] Cons.prems show ?case by fastforce
qed auto

lemma detect_callers_finds:
  assumes "detect_callers requests known callers = Some cycle" "distinct (map fst requests)"
  shows "\<exists>p k. cycle = p @ [k] \<and> k \<in> set p \<and> successively (\<lambda>c k. (c, k) \<in> requested requests) cycle"
  using assms
proof (induction callers arbitrary: known)
  case (Cons caller callers)
  show ?case
  proof (cases "DetectCycleForCaller requests [] known caller")
    case (Pair result known1)
    with Cons search_finds(1) [OF _ Cons.prems(2), of "[]" known caller cycle known1] show ?thesis by (cases result) auto
  qed
qed simp

lemma no_cycle_iff:
  assumes "distinct (map fst requests)"
  shows "detect_callers requests {} (map fst requests) = None \<longleftrightarrow> acyclic (requested requests)"
proof
  assume "detect_callers requests {} (map fst requests) = None"
  from detect_callers_exhausts [OF this assms] obtain known where
    known: "searched (requested requests) known" "fst ` set requests \<subseteq> known" by (auto simp: searched_def)
  have "(k, k) \<notin> (requested requests)\<^sup>+" for k
  proof
    assume cycle: "(k, k) \<in> (requested requests)\<^sup>+"
    then obtain k' where "(k, k') \<in> requested requests" by (meson tranclD)
    then have "k \<in> fst ` set requests" by (force simp: requested_def)
    with known cycle show False by (auto simp: searched_def)
  qed
  then show "acyclic (requested requests)" by (simp add: acyclic_def)
next
  assume acyclic: "acyclic (requested requests)"
  show "detect_callers requests {} (map fst requests) = None"
  proof (rule ccontr)
    assume "detect_callers requests {} (map fst requests) \<noteq> None"
    then obtain cycle where "detect_callers requests {} (map fst requests) = Some cycle" by auto
    from detect_callers_finds [OF this assms] obtain p k where
      cycle: "k \<in> set p" "successively (\<lambda>c k. (c, k) \<in> requested requests) (p @ [k])" by auto
    then obtain p1 p2 where "p = p1 @ k # p2" by (meson split_list)
    with cycle(2) have path: "successively (\<lambda>c k. (c, k) \<in> requested requests) (k # p2 @ [k])" by (simp add: successively_append_iff)
    have "(k, last (k' # ks)) \<in> (requested requests)\<^sup>+"
      if "successively (\<lambda>c k. (c, k) \<in> requested requests) (k # k' # ks)" for k k' ks
      using that
    proof (induction ks arbitrary: k k')
      case (Cons k'' ks)
      from Cons.prems have "(k, k') \<in> requested requests" by simp
      moreover from Cons.prems Cons.IH [of k' k''] have "(k', last (k'' # ks)) \<in> (requested requests)\<^sup>+" by simp
      ultimately show ?case by (simp add: trancl_into_trancl2)
    qed auto
    from this [of k "hd (p2 @ [k])" "tl (p2 @ [k])"] path acyclic show False by (cases p2) (auto simp: acyclic_def)
  qed
qed

section \<open>The pending requests\<close>

definition recorded :: "('k, 'v) map_state \<Rightarrow> ('k \<times> 'k) set" where
  "recorded s = requested (concat (map snd (requests_by_thread s)))"

lemma recorded_RecordNodeRequest [simp]: "recorded (RecordNodeRequest tid c k s) = insert (c, k) (recorded s)"
proof -
  have "requested (concat (map snd (AList.map_default tid [(c, [k])] (AList.map_default c [k] (List.insert k)) tables))) =
      insert (c, k) (requested (concat (map snd tables)))" for tables
    by (induction tables) (auto simp: requested_map_default)
  then show ?thesis by (simp add: recorded_def RecordNodeRequest_def)
qed

lemma pending_table:
  assumes "distinct (map fst requests)"
  shows "requested (fold (add_requests ready) entries requests) =
           {(c, k). ((c, k) \<in> requested entries \<and> \<not> ready k)} \<union> requested requests \<and>
         distinct (map fst (fold (add_requests ready) entries requests))"
  using assms
proof (induction entries arbitrary: requests)
  case (Cons entry entries)
  have "requested (add_requests ready entry requests) =
      {(c, k). c = fst entry \<and> k \<in> set (snd entry) \<and> \<not> ready k} \<union> requested requests"
    by (auto simp: add_requests_def Let_def requested_map_default)
  moreover have "distinct (map fst (add_requests ready entry requests))"
    using Cons.prems by (simp add: add_requests_def Let_def distinct_map_default)
  ultimately show ?case using Cons.IH by (cases entry) auto
qed simp

lemma GetPendingRequests_distinct: "distinct (map fst (GetPendingRequests s))"
  by (simp add: GetPendingRequests_def pending_table)

definition pending_requests :: "('k, 'v) map_state \<Rightarrow> ('k \<times> 'k) set" where
  "pending_requests s = {(c, k). (c, k) \<in> recorded s \<and> \<not> IsReady_key s k}"

lemma GetPendingRequests_requested: "requested (GetPendingRequests s) = pending_requests s"
  by (simp add: GetPendingRequests_def pending_table pending_requests_def recorded_def)

text \<open>
  C39: A cycle that is reported is one: every key of it has requested the next, whose value is not there,
  and the last occurs before. If none is reported the pending requests have no cycle.
\<close>

theorem cycle_search_correct:
  "case DetectCycle s of
     Some cycle \<Rightarrow> last cycle \<in> set (butlast cycle) \<and>
       successively (\<lambda>c k. (c, k) \<in> recorded s \<and> \<not> IsReady_key s k) cycle
   | None \<Rightarrow> acyclic {(c, k). (c, k) \<in> recorded s \<and> \<not> IsReady_key s k}"
proof (cases "DetectCycle s")
  case None
  then show ?thesis
    using no_cycle_iff [OF GetPendingRequests_distinct, of s]
    by (simp add: DetectCycle_def Let_def GetPendingRequests_requested pending_requests_def)
next
  case (Some cycle)
  then show ?thesis
    using detect_callers_finds [OF _ GetPendingRequests_distinct, of s "{}" "map fst (GetPendingRequests s)" cycle]
    by (auto simp: DetectCycle_def Let_def GetPendingRequests_requested pending_requests_def)
qed

end
