(* ===== verification/Jst_AsyncMap_Live.thy ===== *)
theory Jst_AsyncMap_Live
  imports Jst_AsyncMap_Values Jst_AsyncMap_Cycle
begin

text \<open>
  Nothing is forgotten: a key whose creator has been queued gets a value, fails, or its creator waits for a
  key for which the same holds. At the end the keys that neither have a value nor failed wait for each
  other in a cycle.
\<close>

section \<open>Creators that settle\<close>

text \<open>
  A creator settles if in the end it sets the value or reports a fatal error once, which is how
  all clients are written.
\<close>

inductive settles :: "('k, 'v) action list \<Rightarrow> bool" where
  settles_set: "settles [SetValue v]"
| settles_fatal: "settles [LogMessage msg True]"
| settles_log: "settles as \<Longrightarrow> settles (LogMessage msg False # as)"
| settles_call: "(\<And>vs. length vs = length nodes \<Longrightarrow> settles (f vs)) \<Longrightarrow> settles [SubCall nodes wrap f]"

inductive_cases settles_cases: "settles as"

inductive_simps settles_simps [simp]:
  "settles []" "settles (SetValue v # as)" "settles (LogMessage msg fatal # as)" "settles (SubCall nodes wrap f # as)"

section \<open>Who acts for a key\<close>

fun own_logger :: "'k \<Rightarrow> 'k map_logger \<Rightarrow> bool" where
  "own_logger k (NodeLogger k' l) \<longleftrightarrow> k' = k"
| "own_logger k l \<longleftrightarrow> False"

fun consumes_for :: "'k \<Rightarrow> 'k list \<Rightarrow> ('k, 'v) consumer \<Rightarrow> bool" where
  "consumes_for k nodes (NodeConsumer k' l f) \<longleftrightarrow>
     k' = k \<and> own_logger k l \<and> (\<forall>vs. length vs = length nodes \<longrightarrow> settles (f vs))"
| "consumes_for k nodes (TopConsumer i) \<longleftrightarrow> False"

text \<open>Tasks and instructions that will settle the key, or call for the keys it needs.\<close>

fun task_acts :: "'k \<Rightarrow> ('k, 'v) map_task \<Rightarrow> bool" where
  "task_acts k (CreateValue k' l) \<longleftrightarrow> k' = k \<and> own_logger k l"
| "task_acts k (WhenAllReady cid consumer fail nodes pos) \<longleftrightarrow>
     cid = Some k \<and> consumes_for k nodes consumer \<and> fail = Some (NodeFailure k)"
| "task_acts k (CallConsumer consumer nodes) \<longleftrightarrow> consumes_for k nodes consumer"
| "task_acts k (CallFailure f) \<longleftrightarrow> f = NodeFailure k"

fun acts_for :: "'k \<Rightarrow> ('k, 'v) map_instr \<Rightarrow> bool" where
  "acts_for k (ConsumeAfterKeysReady cid nodes consumer l fail) \<longleftrightarrow>
     cid = Some k \<and> consumes_for k nodes consumer \<and> fail = Some (NodeFailure k)"
| "acts_for k (QueueTask t) \<longleftrightarrow> task_acts k t"
| "acts_for k (QueueTaskWhenAllReady cid consumer fail nodes pos) \<longleftrightarrow>
     task_acts k (WhenAllReady cid consumer fail nodes pos)"
| "acts_for k (CallCreator k' l) \<longleftrightarrow> k' = k \<and> own_logger k l"
| "acts_for k (RunActions k' l as) \<longleftrightarrow> k' = k \<and> own_logger k l \<and> settles as"
| "acts_for k (CallSetter k' v) \<longleftrightarrow> k' = k"
| "acts_for k (CallLogger l msg fatal) \<longleftrightarrow> fatal \<and> own_logger k l"
| "acts_for k (CallFail f) \<longleftrightarrow> f = NodeFailure k"
| "acts_for k (ReadAndConsume consumer nodes) \<longleftrightarrow> consumes_for k nodes consumer"
| "acts_for k i \<longleftrightarrow> False"

lemma acts_for_task_code [simp]: "acts_for k (task_code t) = task_acts k t"
  by (cases t) auto

text \<open>A task that continues for the key when another is ready.\<close>

fun waits_for :: "'k \<Rightarrow> ('k, 'v) map_task \<Rightarrow> bool" where
  "waits_for k (WhenAllReady cid consumer fail nodes pos) \<longleftrightarrow> task_acts k (WhenAllReady cid consumer fail nodes pos)"
| "waits_for k t \<longleftrightarrow> False"

lemma waits_for_acts: "waits_for k t \<Longrightarrow> task_acts k t"
  by (cases t) auto

section \<open>What one instruction does\<close>

definition spawned :: "('k, 'v) map_state \<Rightarrow> ('k, 'v) map_instr list \<Rightarrow> ('k, 'v) map_instr multiset" where
  "spawned m' new = mset new + image_mset task_code (task_queue m')"

lemmas run_defs = SetAndQueueAwaitingTasks_def Fail_node_def await_locked_def on_failure_locked_def GetAndMarkQueued_def
  record_unless_def fail_registration_def spawned_def node_IsReady_def

lemmas run_splits = if_splits option.splits list.splits action.splits

lemma recorded_updates [simp]:
  "recorded (queue_tasks ts m) = recorded m" "recorded (set_node k n m) = recorded m"
  "recorded (GetOrCreateNode k m) = recorded m" "recorded (without_queue m) = recorded m"
  "recorded (m\<lparr>created := a\<rparr>) = recorded m" "recorded (m\<lparr>consumed := b\<rparr>) = recorded m"
  "recorded (m\<lparr>top_failures := d\<rparr>) = recorded m" "recorded (m\<lparr>messages := e\<rparr>) = recorded m"
  by (simp_all add: recorded_def)

lemma task_code_neq [simp]:
  "task_code t \<noteq> AddOrQueueAwaitingTask cid k t'" "AddOrQueueAwaitingTask cid k t' \<noteq> task_code t"
  "task_code t \<noteq> AddOrQueueLocked cid k t'" "AddOrQueueLocked cid k t' \<noteq> task_code t"
  "task_code t \<noteq> QueueOnceProcessingTask k l" "QueueOnceProcessingTask k l \<noteq> task_code t"
  "task_code t \<noteq> EnsureValuePresent k l" "EnsureValuePresent k l \<noteq> task_code t"
  "task_code t \<noteq> QueueTask t'" "QueueTask t' \<noteq> task_code t"
  by (cases t; simp)+

lemma run_keeps:
  assumes "run_instr vc w i m = (m', new)"
  shows "node_value (node_of m k) \<noteq> None \<Longrightarrow> node_value (node_of m' k) \<noteq> None"
    and "node_failed (node_of m k) \<Longrightarrow> node_failed (node_of m' k)"
    and "node_queued (node_of m k) \<Longrightarrow> node_queued (node_of m' k)"
    and "recorded m \<subseteq> recorded m'"
  using assms by (induction vc w i m rule: run_instr.induct, auto simp: run_defs split: run_splits)

text \<open>Failed nodes have no value, and settled nodes no tasks that wait.\<close>

definition settled_ok :: "('k, 'v) AsyncMapNode \<Rightarrow> bool" where
  "settled_ok n \<longleftrightarrow> (node_failed n \<longrightarrow> node_value n = None) \<and>
     (node_failed n \<or> node_value n \<noteq> None \<longrightarrow> awaiting_tasks n = []) \<and> (node_failed n \<longrightarrow> failure_tasks n = [])"

lemma settled_ok_ops:
  "SetAndQueueAwaitingTasks v n = (n', ts) \<Longrightarrow> settled_ok n \<Longrightarrow> settled_ok n'"
  "Fail_node n = (n', ts) \<Longrightarrow> settled_ok n \<Longrightarrow> settled_ok n'"
  "await_locked t n = (n', ts, queued) \<Longrightarrow> settled_ok n \<Longrightarrow> settled_ok n'"
  "on_failure_locked t n = (n', ts) \<Longrightarrow> settled_ok n \<Longrightarrow> settled_ok n'"
  by (auto simp: settled_ok_def SetAndQueueAwaitingTasks_def Fail_node_def await_locked_def on_failure_locked_def node_IsReady_def
      split: if_splits)

lemma settled_ok_queued [simp]: "settled_ok (n\<lparr>node_queued := b\<rparr>) = settled_ok n"
  by (simp add: settled_ok_def)

lemma run_settled:
  assumes "run_instr vc w i m = (m', new)" "settled_ok (node_of m k)"
  shows "settled_ok (node_of m' k)"
  using assms
  by (induction vc w i m rule: run_instr.induct)
     (auto simp: GetAndMarkQueued_def split: prod.splits if_splits dest: settled_ok_ops)

text \<open>Tasks of nodes are run, or given up when the node fails.\<close>

lemma run_failure_tasks:
  assumes "run_instr vc w i m = (m', new)" "CallFailure f \<in> set (failure_tasks (node_of m k))"
  shows "node_value (node_of m' k) \<noteq> None \<or> CallFailure f \<in> set (failure_tasks (node_of m' k)) \<or> CallFail f \<in># spawned m' new"
  using assms by (induction vc w i m rule: run_instr.induct) (force simp: run_defs split: run_splits)+

lemma run_awaiting:
  assumes "run_instr vc w i m = (m', new)" "t \<in> set (awaiting_tasks (node_of m k))"
  shows "t \<in> set (awaiting_tasks (node_of m' k)) \<or> task_code t \<in># spawned m' new \<or> node_failed (node_of m' k)"
  using assms by (induction vc w i m rule: run_instr.induct) (auto simp: run_defs split: run_splits)

lemma run_awaiting_new:
  assumes "run_instr vc w i m = (m', new)" "t \<in> set (awaiting_tasks (node_of m' k))" "t \<notin> set (awaiting_tasks (node_of m k))"
  shows "\<exists>cid. i = AddOrQueueLocked cid k t \<and> (\<forall>c. cid = Some c \<longrightarrow> RecordRequest c k \<in># spawned m' new)"
  using assms by (induction vc w i m rule: run_instr.induct) (auto simp: run_defs split: run_splits)

lemma run_CallFail:
  "run_instr vc w (CallFail (NodeFailure k)) m = (m', new) \<Longrightarrow> node_failed (node_of m' k) \<or> node_value (node_of m' k) \<noteq> None"
  by (auto simp: run_defs split: run_splits)

lemma run_QueueOnFailure:
  "run_instr vc w (QueueOnFailure k f) m = (m', new) \<Longrightarrow>
     node_value (node_of m k) \<noteq> None \<or> QueueOnFailureLocked k f \<in># spawned m' new"
  by (auto simp: run_defs split: run_splits)

lemma run_QueueOnFailureLocked:
  "run_instr vc w (QueueOnFailureLocked k f) m = (m', new) \<Longrightarrow>
     CallFail f \<in># spawned m' new \<or> (CallFailure f \<in> set (failure_tasks (node_of m' k)) \<and> \<not> node_failed (node_of m k))"
  by (auto simp: run_defs split: run_splits)

lemma run_AddOrQueue:
  "run_instr vc w (AddOrQueueAwaitingTask cid k t) m = (m', new) \<Longrightarrow>
     task_code t \<in># spawned m' new \<or> AddOrQueueLocked cid k t \<in># spawned m' new"
  "run_instr vc w (AddOrQueueLocked cid k t) m = (m', new) \<Longrightarrow>
     task_code t \<in># spawned m' new \<or> t \<in> set (awaiting_tasks (node_of m' k)) \<or> node_failed (node_of m' k)"
  by (auto simp: run_defs split: run_splits)

lemma run_RecordRequest: "run_instr vc w (RecordRequest c k) m = (m', new) \<Longrightarrow> (c, k) \<in> recorded m'"
  by auto

text \<open>What an instruction leaves to be done.\<close>

lemma run_acts:
  assumes "run_instr vc w i m = (m', new)" "acts_for k i" "\<And>k. settles (vc k)"
  shows "node_value (node_of m' k) \<noteq> None \<or> node_failed (node_of m' k) \<or> (\<exists>j\<in># spawned m' new. acts_for k j) \<or>
    (\<exists>k' t. waits_for k t \<and> AddOrQueueAwaitingTask (Some k) k' t \<in># spawned m' new)"
proof (cases i)
  case (ConsumeAfterKeysReady cid nodes consumer l fail)
  with assms have cid: "cid = Some k" "consumes_for k nodes consumer" "fail = Some (NodeFailure k)" by simp_all
  then have acts: "waits_for k (WhenAllReady cid consumer fail nodes 1)" "task_acts k (CallConsumer consumer nodes)" by simp_all
  show ?thesis
  proof (cases nodes)
    case Nil
    with ConsumeAfterKeysReady assms(1) acts(2) show ?thesis by (auto simp: spawned_def)
  next
    case (Cons first_node rest)
    with ConsumeAfterKeysReady assms(1) cid have
      "AddOrQueueAwaitingTask (Some k) first_node (WhenAllReady cid consumer fail nodes 1) \<in># spawned m' new"
      by (auto simp: spawned_def)
    with acts(1) show ?thesis by blast
  qed
next
  case (QueueTaskWhenAllReady cid consumer fail nodes pos)
  with assms have cid: "cid = Some k" "consumes_for k nodes consumer" "fail = Some (NodeFailure k)" by simp_all
  then have acts: "waits_for k (WhenAllReady cid consumer fail nodes (pos + 1))" "task_acts k (CallConsumer consumer nodes)"
    by simp_all
  show ?thesis
  proof (cases "pos = length nodes")
    case True
    with QueueTaskWhenAllReady assms(1) acts(2) show ?thesis by (auto simp: spawned_def)
  next
    case False
    with QueueTaskWhenAllReady assms(1) cid have
      "AddOrQueueAwaitingTask (Some k) (nodes ! pos) (WhenAllReady cid consumer fail nodes (pos + 1)) \<in># spawned m' new"
      by (auto simp: spawned_def)
    with acts(1) show ?thesis by blast
  qed
next
  case (RunActions k' l as)
  with assms show ?thesis by (cases as) (auto simp: spawned_def split: action.splits)
next
  case (CallLogger l msg fatal)
  with assms show ?thesis by (cases l) (auto simp: spawned_def)
next
  case (CallFail f)
  with assms run_CallFail [of vc w k m m' new] show ?thesis by auto
next
  case (ReadAndConsume consumer nodes)
  with assms show ?thesis by (cases consumer) (auto simp: spawned_def)
qed (use assms in \<open>auto simp: run_defs split: run_splits\<close>)

lemma run_new_await:
  assumes "run_instr vc w i m = (m', new)" "AddOrQueueAwaitingTask cid k' t \<in># spawned m' new" "waits_for k t"
  shows "cid = Some k \<and> QueueOnFailure k' (NodeFailure k) \<in># spawned m' new"
  using assms by (induction vc w i m rule: run_instr.induct) (auto simp: run_defs split: run_splits)

lemma run_new_locked:
  assumes "run_instr vc w i m = (m', new)" "AddOrQueueLocked cid k' t \<in># spawned m' new"
  shows "i = AddOrQueueAwaitingTask cid k' t"
  using assms by (induction vc w i m rule: run_instr.induct) (auto simp: run_defs split: run_splits)

lemma run_new_once:
  assumes "run_instr vc w i m = (m', new)" "QueueOnceProcessingTask k l \<in># spawned m' new"
  shows "own_logger k l"
  using assms by (induction vc w i m rule: run_instr.induct) (auto simp: run_defs split: run_splits)

lemma run_newly_queued:
  assumes "run_instr vc w i m = (m', new)" "node_queued (node_of m' k)" "\<not> node_queued (node_of m k)"
  shows "\<exists>l. i = QueueOnceProcessingTask k l \<and> QueueTask (CreateValue k l) \<in># spawned m' new"
  using assms by (induction vc w i m rule: run_instr.induct) (auto simp: run_defs split: run_splits)

section \<open>The invariant\<close>

text \<open>A key is bound to fail if a node it needs has failed and it is being told so.\<close>

definition doomed :: "('k, 'v) map_state \<Rightarrow> ('k, 'v) map_instr multiset \<Rightarrow> 'k \<Rightarrow> bool" where
  "doomed m M k \<longleftrightarrow> node_failed (node_of m k) \<or> CallFail (NodeFailure k) \<in># M \<or>
     (\<exists>k'. node_failed (node_of m k') \<and> (QueueOnFailure k' (NodeFailure k) \<in># M \<or> QueueOnFailureLocked k' (NodeFailure k) \<in># M))"

text \<open>A key that waits for another is told when that fails.\<close>

definition guarded :: "('k, 'v) map_state \<Rightarrow> ('k, 'v) map_instr multiset \<Rightarrow> 'k \<Rightarrow> 'k \<Rightarrow> bool" where
  "guarded m M k k' \<longleftrightarrow> node_value (node_of m k') \<noteq> None \<or> CallFailure (NodeFailure k) \<in> set (failure_tasks (node_of m k')) \<or>
     QueueOnFailure k' (NodeFailure k) \<in># M \<or> QueueOnFailureLocked k' (NodeFailure k) \<in># M \<or>
     doomed m M k \<or> node_value (node_of m k) \<noteq> None"

definition waiting :: "('k, 'v) map_instr multiset \<Rightarrow> 'k \<Rightarrow> 'k \<Rightarrow> 'k option \<Rightarrow> ('k, 'v) map_task \<Rightarrow> bool" where
  "waiting M k k' cid t \<longleftrightarrow> waits_for k t \<and> (AddOrQueueAwaitingTask cid k' t \<in># M \<or> AddOrQueueLocked cid k' t \<in># M)"

definition parked :: "('k, 'v) map_state \<Rightarrow> 'k \<Rightarrow> 'k \<Rightarrow> ('k, 'v) map_task \<Rightarrow> bool" where
  "parked m k k' t \<longleftrightarrow> waits_for k t \<and> t \<in> set (awaiting_tasks (node_of m k'))"

definition cared_for :: "('k, 'v) map_state \<Rightarrow> ('k, 'v) map_instr multiset \<Rightarrow> 'k \<Rightarrow> bool" where
  "cared_for m M k \<longleftrightarrow> node_value (node_of m k) \<noteq> None \<or> doomed m M k \<or> (\<exists>j\<in>#M. acts_for k j) \<or>
     (\<exists>k' t. waiting M k k' (Some k) t) \<or> (\<exists>k' t. parked m k k' t)"

definition map_live :: "('k, 'v) map_state \<Rightarrow> ('k, 'v) map_instr multiset \<Rightarrow> bool" where
  "map_live m M \<longleftrightarrow> (\<forall>k. settled_ok (node_of m k)) \<and>
     (\<forall>k. node_queued (node_of m k) \<longrightarrow> cared_for m M k) \<and>
     (\<forall>k k' cid t. waiting M k k' cid t \<longrightarrow> cid = Some k \<and> guarded m M k k') \<and>
     (\<forall>k k' t. parked m k k' t \<longrightarrow> guarded m M k k' \<and> ((k, k') \<in> recorded m \<or> RecordRequest k k' \<in># M)) \<and>
     (\<forall>k l. QueueOnceProcessingTask k l \<in># M \<longrightarrow> own_logger k l)"

lemma doomedI:
  "node_failed (node_of m k) \<Longrightarrow> doomed m M k"
  "CallFail (NodeFailure k) \<in># M \<Longrightarrow> doomed m M k"
  "node_failed (node_of m k') \<Longrightarrow> QueueOnFailure k' (NodeFailure k) \<in># M \<Longrightarrow> doomed m M k"
  "node_failed (node_of m k') \<Longrightarrow> QueueOnFailureLocked k' (NodeFailure k) \<in># M \<Longrightarrow> doomed m M k"
  by (auto simp: doomed_def)

lemma cared_forI:
  "node_value (node_of m k) \<noteq> None \<Longrightarrow> cared_for m M k"
  "doomed m M k \<Longrightarrow> cared_for m M k"
  "j \<in># M \<Longrightarrow> acts_for k j \<Longrightarrow> cared_for m M k"
  "waiting M k k' (Some k) t \<Longrightarrow> cared_for m M k"
  "parked m k k' t \<Longrightarrow> cared_for m M k"
  by (auto simp: cared_for_def)

lemma map_liveD:
  assumes "map_live m M"
  shows "settled_ok (node_of m k)" "node_queued (node_of m k) \<Longrightarrow> cared_for m M k"
    "waiting M k k' cid t \<Longrightarrow> cid = Some k \<and> guarded m M k k'"
    "parked m k k' t \<Longrightarrow> guarded m M k k' \<and> ((k, k') \<in> recorded m \<or> RecordRequest k k' \<in># M)"
    "QueueOnceProcessingTask k l \<in># M \<Longrightarrow> own_logger k l"
  using assms unfolding map_live_def by blast+

lemma doomed_step:
  assumes "run_instr vc w i m = (m', new)" "doomed m (add_mset i M) k" "\<And>k. settled_ok (node_of m k)"
  shows "doomed m' (M + spawned m' new) k \<or> node_value (node_of m' k) \<noteq> None"
  using assms(2) unfolding doomed_def [of m]
proof (elim disjE exE conjE)
  assume "node_failed (node_of m k)"
  with run_keeps(2) [OF assms(1)] show ?thesis by (simp add: doomed_def)
next
  assume "CallFail (NodeFailure k) \<in># add_mset i M"
  then show ?thesis using run_CallFail [of vc w k m m' new] assms(1) by (auto simp: doomed_def)
next
  fix k' assume k': "node_failed (node_of m k')" "QueueOnFailure k' (NodeFailure k) \<in># add_mset i M"
  then have "node_value (node_of m k') = None" using assms(3) [of k'] by (simp add: settled_ok_def)
  with k' have "QueueOnFailure k' (NodeFailure k) \<in># M + spawned m' new \<or> QueueOnFailureLocked k' (NodeFailure k) \<in># M + spawned m' new"
    using run_QueueOnFailure [of vc w k' "NodeFailure k" m m' new] assms(1) by (auto simp del: run_instr.simps)
  with run_keeps(2) [OF assms(1) k'(1)] show ?thesis by (blast intro: doomedI)
next
  fix k' assume k': "node_failed (node_of m k')" "QueueOnFailureLocked k' (NodeFailure k) \<in># add_mset i M"
  then have "CallFail (NodeFailure k) \<in># M + spawned m' new \<or> QueueOnFailureLocked k' (NodeFailure k) \<in># M + spawned m' new"
    using run_QueueOnFailureLocked [of vc w k' "NodeFailure k" m m' new] assms(1) by (auto simp del: run_instr.simps)
  with run_keeps(2) [OF assms(1) k'(1)] show ?thesis by (blast intro: doomedI)
qed

lemma guarded_step:
  assumes run: "run_instr vc w i m = (m', new)" and "guarded m (add_mset i M) k k'" "\<And>k. settled_ok (node_of m k)"
  shows "guarded m' (M + spawned m' new) k k'"
  using assms(2) unfolding guarded_def [of m]
proof (elim disjE)
  assume "CallFailure (NodeFailure k) \<in> set (failure_tasks (node_of m k'))"
  from run_failure_tasks [OF run this] show ?thesis by (auto simp: guarded_def doomed_def)
next
  assume "QueueOnFailure k' (NodeFailure k) \<in># add_mset i M"
  then show ?thesis
    using run_QueueOnFailure [of vc w k' "NodeFailure k" m m' new] run run_keeps(1) [OF run, of k'] by (auto simp: guarded_def simp del: run_instr.simps)
next
  assume "QueueOnFailureLocked k' (NodeFailure k) \<in># add_mset i M"
  then show ?thesis
    using run_QueueOnFailureLocked [of vc w k' "NodeFailure k" m m' new] run
    by (auto simp: guarded_def doomed_def simp del: run_instr.simps)
next
  assume "doomed m (add_mset i M) k"
  with doomed_step [OF run this assms(3)] show ?thesis by (auto simp: guarded_def)
qed (use run_keeps(1) [OF run] in \<open>auto simp: guarded_def\<close>)

lemma guarded_failed:
  assumes "guarded m M k k'" "node_failed (node_of m k')" "settled_ok (node_of m k')"
  shows "doomed m M k \<or> node_value (node_of m k) \<noteq> None"
  using assms by (auto simp: guarded_def doomed_def settled_ok_def)

lemma cared_for_step:
  assumes run: "run_instr vc w i m = (m', new)" and live: "map_live m (add_mset i M)"
    and settles: "\<And>k. settles (vc k)" and cared: "cared_for m (add_mset i M) k"
  shows "cared_for m' (M + spawned m' new) k"
proof -
  note ok = map_liveD(1) [OF live]
  have ok': "settled_ok (node_of m' k)" for k by (rule run_settled [OF run ok])
  have guard: "cared_for m' (M + spawned m' new) k" if "guarded m (add_mset i M) k k'" "node_failed (node_of m' k')" for k'
    using guarded_failed [OF guarded_step [OF run that(1) ok] that(2) ok'] by (auto simp: cared_for_def)
  have task: "cared_for m' (M + spawned m' new) k" if "waits_for k t" "task_code t \<in># spawned m' new" for t
    using waits_for_acts [OF that(1)] that(2) by (intro cared_forI(3) [of "task_code t"]) simp_all
  from cared show ?thesis unfolding cared_for_def [of m]
  proof (elim disjE bexE exE)
    assume "doomed m (add_mset i M) k"
    from doomed_step [OF run this ok] show ?thesis by (blast intro: cared_forI)
  next
    fix j assume j: "j \<in># add_mset i M" "acts_for k j"
    show ?thesis
    proof (cases "j = i")
      case True
      with run_acts [OF run _ settles, of k] j(2) consider
        "node_value (node_of m' k) \<noteq> None" | "node_failed (node_of m' k)" | j' where "j' \<in># spawned m' new" "acts_for k j'"
        | k' t where "waits_for k t" "AddOrQueueAwaitingTask (Some k) k' t \<in># spawned m' new" by blast
      then show ?thesis by cases (auto intro: cared_forI doomedI simp: waiting_def)
    qed (use j in \<open>auto intro: cared_forI\<close>)
  next
    fix k' t assume waiting: "waiting (add_mset i M) k k' (Some k) t"
    with map_liveD(3) [OF live] have g: "guarded m (add_mset i M) k k'" and t: "waits_for k t" by (auto simp: waiting_def)
    from waiting consider "waiting M k k' (Some k) t" | "i = AddOrQueueAwaitingTask (Some k) k' t" | "i = AddOrQueueLocked (Some k) k' t"
      by (auto simp: waiting_def)
    then show ?thesis
    proof cases
      case 1
      then show ?thesis by (intro cared_forI(4) [of _ _ k' t]) (auto simp: waiting_def)
    next
      case 2
      with run_AddOrQueue(1) run t task [of t] cared_forI(4) [of "M + spawned m' new" k k' t m'] show ?thesis
        by (fastforce simp: waiting_def simp del: run_instr.simps)
    next
      case 3
      with run_AddOrQueue(2) run t task [of t] guard [OF g] cared_forI(5) [of m' k k' t] show ?thesis
        by (fastforce simp: parked_def simp del: run_instr.simps)
    qed
  next
    fix k' t assume parked: "parked m k k' t"
    with map_liveD(4) [OF live] have g: "guarded m (add_mset i M) k k'" and t: "waits_for k t" by (auto simp: parked_def)
    from parked have "t \<in> set (awaiting_tasks (node_of m k'))" by (simp add: parked_def)
    from run_awaiting [OF run this] t guard [OF g] task [OF t] cared_forI(5) [of m' k k' t] show ?thesis by (auto simp: parked_def)
  qed (use run_keeps(1) [OF run] in \<open>auto simp: cared_for_def\<close>)
qed

lemma map_live_step:
  assumes run: "run_instr vc w i m = (m', new)" and live: "map_live m (add_mset i M)" and settles: "\<And>k. settles (vc k)"
  shows "map_live m' (M + spawned m' new)"
proof -
  note ok = map_liveD(1) [OF live]
  have waits: "cid = Some k \<and> guarded m' (M + spawned m' new) k k'" if "waiting (add_mset i M) k k' cid t" for k k' cid t
    using map_liveD(3) [OF live that] guarded_step [OF run _ ok] by blast
  note once = map_liveD(5) [OF live]
  have "cared_for m' (M + spawned m' new) k" if "node_queued (node_of m' k)" for k
  proof (cases "node_queued (node_of m k)")
    case True
    from cared_for_step [OF run live settles map_liveD(2) [OF live True]] show ?thesis .
  next
    case False
    from run_newly_queued [OF run that False] obtain l where
      l: "i = QueueOnceProcessingTask k l" "QueueTask (CreateValue k l) \<in># spawned m' new" by auto
    with once [of k l] have "acts_for k (QueueTask (CreateValue k l))" by simp
    with l(2) show ?thesis by (intro cared_forI(3)) auto
  qed
  moreover have "cid = Some k \<and> guarded m' (M + spawned m' new) k k'" if "waiting (M + spawned m' new) k k' cid t" for k k' cid t
  proof (cases "waiting (add_mset i M) k k' cid t")
    case False
    with that have new: "waits_for k t"
      "AddOrQueueAwaitingTask cid k' t \<in># spawned m' new \<or> AddOrQueueLocked cid k' t \<in># spawned m' new"
      by (auto simp: waiting_def)
    then show ?thesis
    proof (elim disjE)
      assume "AddOrQueueAwaitingTask cid k' t \<in># spawned m' new"
      from run_new_await [OF run this new(1)] show ?thesis by (auto simp: guarded_def)
    next
      assume "AddOrQueueLocked cid k' t \<in># spawned m' new"
      from run_new_locked [OF run this] new(1) False show ?thesis by (simp add: waiting_def)
    qed
  qed (rule waits)
  moreover have "guarded m' (M + spawned m' new) k k' \<and> ((k, k') \<in> recorded m' \<or> RecordRequest k k' \<in># M + spawned m' new)"
    if parked: "parked m' k k' t" for k k' t
  proof (cases "parked m k k' t")
    case True
    from map_liveD(4) [OF live True] have
      "guarded m (add_mset i M) k k'" "(k, k') \<in> recorded m \<or> RecordRequest k k' = i \<or> RecordRequest k k' \<in># M" by auto
    then show ?thesis
      using guarded_step [OF run _ ok, of M k k'] run_keeps(4) [OF run] run_RecordRequest [of vc w k k' m m' new] run
      by (auto simp del: run_instr.simps)
  next
    case False
    with parked have new: "waits_for k t" "t \<in> set (awaiting_tasks (node_of m' k'))" "t \<notin> set (awaiting_tasks (node_of m k'))"
      by (auto simp: parked_def)
    from run_awaiting_new [OF run new(2,3)] obtain cid where
      cid: "i = AddOrQueueLocked cid k' t" "\<forall>c. cid = Some c \<longrightarrow> RecordRequest c k' \<in># spawned m' new" by auto
    with new(1) have "waiting (add_mset i M) k k' cid t" by (simp add: waiting_def)
    from waits [OF this] cid(2) show ?thesis by auto
  qed
  moreover have "own_logger k l" if "QueueOnceProcessingTask k l \<in># M + spawned m' new" for k l
    using that once [of k l] run_new_once [OF run, of k l] by auto
  ultimately show ?thesis using run_settled [OF run ok] unfolding map_live_def by blast
qed

end
