(* ===== verification/Jst_AsyncMap_Keys.thy ===== *)
theory Jst_AsyncMap_Keys
  imports Jst_AsyncMap_Live
begin

text \<open>
  What creators that settle give is unique, and who is waited for has been asked for: the creators of all
  keys that the client or a creator needs are queued.
\<close>

section \<open>Results of creators that settle\<close>

lemma settled_action:
  assumes "settles as" "a \<in> set as" "action_gives vc a v \<or> action_fails vc a"
  shows "a = last as \<and> (\<forall>nodes wrap f vs. a = SubCall nodes wrap f \<longrightarrow> length vs = length nodes \<longrightarrow> settles (f vs))"
  using assms by (induction rule: settles.induct) (auto split: if_splits)

lemma settled_unique:
  assumes settles: "\<And>k. settles (vc k)"
  shows "gives vc k v \<Longrightarrow> \<not> fails vc k \<and> (\<forall>v'. gives vc k v' \<longrightarrow> v' = v)"
    and "action_gives vc a v \<Longrightarrow> settles as \<Longrightarrow> a \<in> set as \<Longrightarrow>
           \<not> action_fails vc a \<and> (\<forall>v'. action_gives vc a v' \<longrightarrow> v' = v)"
proof (induction arbitrary: and as rule: gives_action_gives.inducts)
  case (gives_action a k v)
  have a: "a = last (vc k)" using settled_action [OF settles gives_action(1)] gives_action(2) by blast
  have "\<not> fails vc k"
    using settled_action [OF settles] gives_action(3) [OF settles gives_action(1)] a by (blast elim: fails_cases)
  moreover have "v' = v" if "gives vc k v'" for v'
    using that settled_action [OF settles] gives_action(3) [OF settles gives_action(1)] a by (blast elim: gives_cases)
  ultimately show ?case by blast
next
  case (set_gives v)
  then show ?case by auto
next
  case (call_gives nodes vs a f v wrap)
  then have nodes: "\<And>i. i < length nodes \<Longrightarrow> \<not> fails vc (nodes ! i) \<and> (\<forall>v'. gives vc (nodes ! i) v' \<longrightarrow> v' = vs ! i)"
    and length: "length vs = length nodes"
    by (auto simp: list_all2_conv_all_nth)
  have "action_gives vc (SubCall nodes wrap f) v"
    using call_gives by (intro gives_action_gives.call_gives [of vc nodes vs]) (auto elim: list_all2_mono)
  from settled_action [OF call_gives(5,6) disjI1 [OF this]] length have f: "settles (f vs)" by blast
  note inner = call_gives(3) [OF f call_gives(4)]
  have a: "a = last (f vs)" using settled_action [OF f call_gives(4)] call_gives(2) by blast
  have vs: "vs' = vs" if "list_all2 (gives vc) nodes vs'" for vs'
    using that nodes length by (intro nth_equalityI) (auto simp: list_all2_conv_all_nth)
  have "\<not> action_fails vc (SubCall nodes wrap f)"
  proof
    assume "action_fails vc (SubCall nodes wrap f)"
    then show False
    proof (rule call_fails_cases)
      fix k assume "k \<in> set nodes" "fails vc k"
      with nodes show False by (auto simp: in_set_conv_nth)
    next
      fix vs' a' assume a': "list_all2 (gives vc) nodes vs'" "a' \<in> set (f vs')" "action_fails vc a'"
      with vs have "a' \<in> set (f vs)" by blast
      with settled_action [OF f this disjI2 [OF a'(3)]] a inner a'(3) show False by simp
    qed
  qed
  moreover have "v' = v" if "action_gives vc (SubCall nodes wrap f) v'" for v'
    using that
  proof (rule call_gives_cases)
    fix vs' a' assume a': "list_all2 (gives vc) nodes vs'" "a' \<in> set (f vs')" "action_gives vc a' v'"
    with vs have "a' \<in> set (f vs)" by blast
    with settled_action [OF f this disjI1 [OF a'(3)]] a inner a'(3) show ?thesis by simp
  qed
  ultimately show ?case by blast
qed

section \<open>Keys that are asked for\<close>

text \<open>A key is asked for if its creator has been queued or is about to be.\<close>

definition asked :: "('k, 'v) map_state \<Rightarrow> ('k, 'v) map_instr multiset \<Rightarrow> 'k \<Rightarrow> bool" where
  "asked m M k \<longleftrightarrow> node_queued (node_of m k) \<or> (\<exists>l. EnsureValuePresent k l \<in># M) \<or> (\<exists>l. QueueOnceProcessingTask k l \<in># M) \<or>
     (\<exists>cid nodes consumer l fail. ConsumeAfterKeysReady cid nodes consumer l fail \<in># M \<and> k \<in> set nodes)"

fun task_keys :: "('k, 'v) map_task \<Rightarrow> 'k set" where
  "task_keys (WhenAllReady cid consumer fail nodes pos) = set nodes"
| "task_keys t = {}"

fun item_keys :: "('k, 'v) map_instr \<Rightarrow> 'k set" where
  "item_keys (QueueTask t) = task_keys t"
| "item_keys (AddOrQueueAwaitingTask cid k t) = task_keys t"
| "item_keys (AddOrQueueLocked cid k t) = task_keys t"
| "item_keys (QueueTaskWhenAllReady cid consumer fail nodes pos) = set nodes"
| "item_keys i = {}"

text \<open>The node that a task waits for is one of its own.\<close>

fun awaits_own :: "('k, 'v) map_instr \<Rightarrow> bool" where
  "awaits_own (AddOrQueueAwaitingTask cid k t) \<longleftrightarrow> k \<in> task_keys t"
| "awaits_own (AddOrQueueLocked cid k t) \<longleftrightarrow> k \<in> task_keys t"
| "awaits_own i \<longleftrightarrow> True"

lemma item_keys_task_code [simp]: "item_keys (task_code t) = task_keys t"
  by (cases t) auto

lemma awaits_own_task_code [simp]: "awaits_own (task_code t)"
  by (cases t) auto

lemma run_ensures:
  assumes "run_instr vc w (ConsumeAfterKeysReady cid nodes consumer l fail) m = (m', new)" "k \<in> set nodes"
  shows "EnsureValuePresent k l \<in># spawned m' new"
  using assms by (auto simp: spawned_def split: list.splits)

lemma run_item_keys:
  assumes run: "run_instr vc w i m = (m', new)" and j: "j \<in># spawned m' new" "k \<in> item_keys j" and queue: "task_queue m = {#}"
  shows "k \<in> item_keys i \<or> (\<exists>l. EnsureValuePresent k l \<in># spawned m' new) \<or>
    (\<exists>k' t. (t \<in> set (awaiting_tasks (node_of m k')) \<or> t \<in> set (failure_tasks (node_of m k'))) \<and> k \<in> task_keys t)"
proof (cases "\<exists>cid nodes consumer l fail. i = ConsumeAfterKeysReady cid nodes consumer l fail")
  case True
  then obtain cid nodes consumer l fail where i: "i = ConsumeAfterKeysReady cid nodes consumer l fail" by blast
  with assms have "k \<in> set nodes" by (auto simp: run_defs split: run_splits)
  from run_ensures [OF run [unfolded i] this] show ?thesis by blast
next
  case False
  with assms show ?thesis
    by (induction vc w i m rule: run_instr.induct) (auto simp: run_defs split: run_splits, blast+)
qed

lemma run_awaits_own:
  assumes "run_instr vc w i m = (m', new)" "item_ok vc calls R i" "awaits_own i" "j \<in># spawned m' new"
  shows "awaits_own j"
  using assms by (induction vc w i m rule: run_instr.induct) (auto simp: run_defs split: run_splits)

definition keys_ok :: "('k list \<times> bool) list \<Rightarrow> ('k, 'v) map_state \<Rightarrow> ('k, 'v) map_instr multiset \<Rightarrow> bool" where
  "keys_ok calls m M \<longleftrightarrow> (\<forall>j\<in>#M. awaits_own j \<and> (\<forall>k\<in>item_keys j. asked m M k)) \<and>
     (\<forall>k. \<forall>t\<in>set (awaiting_tasks (node_of m k)). k \<in> task_keys t \<and> (\<forall>k'\<in>task_keys t. asked m M k')) \<and>
     (\<forall>k. \<forall>t\<in>set (failure_tasks (node_of m k)). task_keys t = {}) \<and>
     (\<forall>j<length calls. \<forall>k\<in>set (fst (calls ! j)). asked m M k)"

lemma asked_step:
  assumes run: "run_instr vc w i m = (m', new)" and asked: "asked m (add_mset i M) k"
  shows "asked m' (M + spawned m' new) k"
  using asked unfolding asked_def [of m]
proof (elim disjE exE conjE)
  assume "node_queued (node_of m k)"
  with run_keeps(3) [OF run] show ?thesis by (simp add: asked_def)
next
  fix l assume "EnsureValuePresent k l \<in># add_mset i M"
  then have "EnsureValuePresent k l \<in># M \<or> QueueOnceProcessingTask k (NodeLogger k l) \<in># spawned m' new"
    using run by (auto simp: spawned_def)
  then show ?thesis by (auto simp: asked_def)
next
  fix l assume "QueueOnceProcessingTask k l \<in># add_mset i M"
  with run show ?thesis by (auto simp: asked_def spawned_def GetAndMarkQueued_def split: if_splits)
next
  fix cid nodes consumer l fail
  assume consume: "ConsumeAfterKeysReady cid nodes consumer l fail \<in># add_mset i M" "k \<in> set nodes"
  show ?thesis
  proof (cases "i = ConsumeAfterKeysReady cid nodes consumer l fail")
    case True
    from run_ensures [OF run [unfolded True] consume(2)] show ?thesis by (auto simp: asked_def)
  next
    case False
    with consume have "ConsumeAfterKeysReady cid nodes consumer l fail \<in># M + spawned m' new" by simp
    with consume(2) show ?thesis unfolding asked_def by blast
  qed
qed

lemma run_failure_tasks_new:
  assumes "run_instr vc w i m = (m', new)" "t \<in> set (failure_tasks (node_of m' k))"
  shows "t \<in> set (failure_tasks (node_of m k)) \<or> (\<exists>f. t = CallFailure f)"
  using assms by (induction vc w i m rule: run_instr.induct) (auto simp: run_defs split: run_splits)

lemma keys_ok_step:
  assumes run: "run_instr vc w i m = (m', new)" and ok: "keys_ok calls m (add_mset i M)" and i: "item_ok vc calls R i"
    and queue: "task_queue m = {#}"
  shows "keys_ok calls m' (M + spawned m' new)"
proof -
  have asked: "asked m' (M + spawned m' new) k" if "asked m (add_mset i M) k" for k by (rule asked_step [OF run that])
  have items: "awaits_own j" "k \<in> item_keys j \<Longrightarrow> asked m (add_mset i M) k" if "j \<in># add_mset i M" for j k
    using ok that unfolding keys_ok_def by blast+
  have nodes: "k \<in> task_keys t" "k' \<in> task_keys t \<Longrightarrow> asked m (add_mset i M) k'"
    if "t \<in> set (awaiting_tasks (node_of m k))" for k k' t
    using ok that unfolding keys_ok_def by blast+
  have failure: "task_keys t = {}" if "t \<in> set (failure_tasks (node_of m k))" for k t
    using ok that unfolding keys_ok_def by blast
  have "awaits_own j \<and> (\<forall>k\<in>item_keys j. asked m' (M + spawned m' new) k)" if "j \<in># M + spawned m' new" for j
  proof (cases "j \<in># M")
    case True
    with items [of j] asked show ?thesis by auto
  next
    case False
    with that have j: "j \<in># spawned m' new" by simp
    have "asked m' (M + spawned m' new) k" if "k \<in> item_keys j" for k
    proof -
      from run_item_keys [OF run j that queue] consider "k \<in> item_keys i" | l where "EnsureValuePresent k l \<in># spawned m' new"
        | k' t where "t \<in> set (awaiting_tasks (node_of m k'))" "k \<in> task_keys t"
        using failure by blast
      then show ?thesis
      proof cases
        case 1
        with items(2) [of i k] asked show ?thesis by simp
      next
        case 2
        then show ?thesis by (auto simp: asked_def)
      next
        case 3
        with nodes(2) asked show ?thesis by blast
      qed
    qed
    with run_awaits_own [OF run i items(1) j] show ?thesis by simp
  qed
  moreover have "k \<in> task_keys t \<and> (\<forall>k'\<in>task_keys t. asked m' (M + spawned m' new) k')"
    if "t \<in> set (awaiting_tasks (node_of m' k))" for k t
  proof (cases "t \<in> set (awaiting_tasks (node_of m k))")
    case False
    with run_awaiting_new [OF run that] obtain cid where "i = AddOrQueueLocked cid k t" by blast
    with items [of i] asked show ?thesis by auto
  qed (use nodes asked in blast)
  moreover have "task_keys t = {}" if "t \<in> set (failure_tasks (node_of m' k))" for k t
    using run_failure_tasks_new [OF run that] failure by auto
  moreover have "asked m' (M + spawned m' new) k" if "j < length calls" "k \<in> set (fst (calls ! j))" for j k
    using ok that asked unfolding keys_ok_def by blast
  ultimately show ?thesis unfolding keys_ok_def by blast
qed

end
