(* ===== verification/Jst_AsyncMap_Thms.thy ===== *)
theory Jst_AsyncMap_Thms
  imports Jst_AsyncMap_Keys
begin

text \<open>
  The results on maps whose values are computed by tasks: creators are called once, values and failures do
  not depend on the schedule, and at the end every call of the client is answered unless a cycle is found.
\<close>

section \<open>Calls of the client\<close>

fun top_task :: "nat \<Rightarrow> ('k, 'v) map_task \<Rightarrow> bool" where
  "top_task j (WhenAllReady cid (TopConsumer i) fail nodes pos) \<longleftrightarrow> i = j"
| "top_task j (CallConsumer (TopConsumer i) nodes) \<longleftrightarrow> i = j"
| "top_task j t \<longleftrightarrow> False"

fun top_item :: "nat \<Rightarrow> ('k, 'v) map_instr \<Rightarrow> bool" where
  "top_item j (ConsumeAfterKeysReady cid nodes (TopConsumer i) l fail) \<longleftrightarrow> i = j"
| "top_item j (QueueTask t) \<longleftrightarrow> top_task j t"
| "top_item j (AddOrQueueAwaitingTask cid k t) \<longleftrightarrow> top_task j t"
| "top_item j (AddOrQueueLocked cid k t) \<longleftrightarrow> top_task j t"
| "top_item j (QueueTaskWhenAllReady cid (TopConsumer i) fail nodes pos) \<longleftrightarrow> i = j"
| "top_item j (ReadAndConsume (TopConsumer i) nodes) \<longleftrightarrow> i = j"
| "top_item j i \<longleftrightarrow> False"

lemma top_item_task_code: "top_task j t \<Longrightarrow> top_item j (task_code t)"
  by (cases "(j, t)" rule: top_task.cases) auto

lemma run_top:
  assumes "run_instr vc w i m = (m', new)" "top_item j i"
  shows "(\<exists>i'\<in>#spawned m' new. top_item j i') \<or> j \<in> fst ` set (consumed m') \<or>
    (\<exists>cid k t. i = AddOrQueueLocked cid k t \<and> top_task j t \<and> (t \<in> set (awaiting_tasks (node_of m' k)) \<or> node_failed (node_of m' k)))"
proof (cases "(j, i)" rule: top_item.cases)
  case (1 j' cid nodes i' l fail)
  with assms show ?thesis by (cases nodes) (auto simp: spawned_def)
next
  case (2 j' t)
  with assms top_item_task_code [of j t] show ?thesis by (auto simp: spawned_def)
next
  case (3 j' cid k t)
  with assms top_item_task_code [of j t] show ?thesis by (auto simp: spawned_def split: if_splits)
next
  case (4 j' cid k t)
  with assms run_AddOrQueue(2) [of vc w cid k t m m' new] top_item_task_code [of j t] show ?thesis
    by (auto simp del: run_instr.simps)
next
  case (5 j' cid i' fail nodes pos)
  with assms show ?thesis by (cases "pos = length nodes") (auto simp: spawned_def)
next
  case (6 j' i' nodes)
  with assms show ?thesis by auto
qed (use assms in auto)

lemma run_consumed:
  assumes "run_instr vc w i m = (m', new)"
  shows "set (consumed m) \<subseteq> set (consumed m')"
  using assms by (induction vc w i m rule: run_instr.induct) (auto simp: run_defs split: run_splits)

text \<open>A call is answered, has a key that failed, or its consumer is still on the way.\<close>

definition call_alive :: "('k list \<times> bool) list \<Rightarrow> ('k, 'v) map_state \<Rightarrow> ('k, 'v) map_instr multiset \<Rightarrow> nat \<Rightarrow> bool" where
  "call_alive calls m M j \<longleftrightarrow> j \<in> fst ` set (consumed m) \<or> (\<exists>k\<in>set (fst (calls ! j)). node_failed (node_of m k)) \<or>
     (\<exists>i\<in>#M. top_item j i) \<or> (\<exists>k. \<exists>t\<in>set (awaiting_tasks (node_of m k)). top_task j t)"

lemma call_aliveI:
  "j \<in> fst ` set (consumed m) \<Longrightarrow> call_alive calls m M j"
  "k \<in> set (fst (calls ! j)) \<Longrightarrow> node_failed (node_of m k) \<Longrightarrow> call_alive calls m M j"
  "i \<in># M \<Longrightarrow> top_item j i \<Longrightarrow> call_alive calls m M j"
  "t \<in> set (awaiting_tasks (node_of m k)) \<Longrightarrow> top_task j t \<Longrightarrow> call_alive calls m M j"
  by (auto simp: call_alive_def)

lemma top_task_keys: "waits_ok vc calls R k t \<Longrightarrow> top_task j t \<Longrightarrow> task_keys t = set (fst (calls ! j))"
  by (cases "(j, t)" rule: top_task.cases) (auto simp: request_ok_def)

lemma call_alive_step:
  assumes run: "run_instr vc w i m = (m', new)" and alive: "call_alive calls m (add_mset i M) j"
    and sound: "map_sound vc calls m (add_mset i M)" and keys: "keys_ok calls m (add_mset i M)"
  shows "call_alive calls m' (M + spawned m' new) j"
  using alive unfolding call_alive_def [of calls m]
proof (elim disjE bexE exE)
  assume "j \<in> fst ` set (consumed m)"
  with run_consumed [OF run] show ?thesis by (intro call_aliveI(1)) auto
next
  fix k assume "k \<in> set (fst (calls ! j))" "node_failed (node_of m k)"
  with run_keeps(2) [OF run] show ?thesis by (intro call_aliveI(2))
next
  fix i' assume i': "i' \<in># add_mset i M" "top_item j i'"
  show ?thesis
  proof (cases "i' = i")
    case True
    from run_top [OF run i'(2) [unfolded True]] show ?thesis
    proof (elim disjE bexE exE conjE)
      fix cid k t assume t: "i = AddOrQueueLocked cid k t" "top_task j t" "node_failed (node_of m' k)"
      from sound t(1) have "waits_ok vc calls (ready_keys m) k t" by (simp add: map_sound_def)
      from top_task_keys [OF this t(2)] keys t(1) have "k \<in> set (fst (calls ! j))" by (simp add: keys_ok_def)
      with t(3) show ?thesis by (intro call_aliveI(2))
    qed (auto intro: call_aliveI)
  qed (use i' in \<open>auto intro: call_aliveI\<close>)
next
  fix k t assume t: "t \<in> set (awaiting_tasks (node_of m k))" "top_task j t"
  from run_awaiting [OF run t(1)] show ?thesis
  proof (elim disjE)
    assume failed: "node_failed (node_of m' k)"
    from sound t(1) have "waits_ok vc calls (ready_keys m) k t" by (simp add: map_sound_def node_ok_def)
    from top_task_keys [OF this t(2)] keys t(1) have "k \<in> set (fst (calls ! j))" unfolding keys_ok_def by blast
    with failed show ?thesis by (intro call_aliveI(2))
  next
    assume "task_code t \<in># spawned m' new"
    with t(2) top_item_task_code show ?thesis by (intro call_aliveI(3) [of "task_code t"]) auto
  qed (use t in \<open>auto intro: call_aliveI\<close>)
qed

section \<open>Creators are called once\<close>

fun creates :: "'k \<Rightarrow> ('k, 'v) map_instr \<Rightarrow> bool" where
  "creates k (QueueTask (CreateValue k' l)) \<longleftrightarrow> k' = k"
| "creates k (CallCreator k' l) \<longleftrightarrow> k' = k"
| "creates k i \<longleftrightarrow> False"

definition created_ok :: "('k, 'v) map_state \<Rightarrow> ('k, 'v) map_instr multiset \<Rightarrow> bool" where
  "created_ok m M \<longleftrightarrow>
     (\<forall>k. count_list (created m) k + size (filter_mset (creates k) M) \<le> (if node_queued (node_of m k) then 1 else 0))"

lemma waits_no_creation: "waits_ok vc calls R k' t \<Longrightarrow> \<not> creates k (task_code t)"
  by (cases t) auto

lemma no_creation:
  "\<forall>t\<in>set ts. (\<exists>f. t = CallFailure f) \<or> waits_ok vc calls R k' t \<Longrightarrow>
     filter_mset (creates k) (image_mset task_code (mset ts)) = {#}"
proof (induction ts)
  case (Cons t ts)
  then show ?case by (cases t) auto
qed simp

lemma run_creates:
  assumes "run_instr vc w i m = (m', new)" "\<And>k. node_ok vc calls R k (node_of m k)" "task_queue m = {#}"
    and "item_ok vc calls R i"
  shows "count_list (created m') k + size (filter_mset (creates k) (spawned m' new)) + (if node_queued (node_of m k) then 1 else 0)
    \<le> count_list (created m) k + (if creates k i then 1 else 0) + (if node_queued (node_of m' k) then 1 else 0)"
proof (cases "\<exists>k v. i = CallSetter k v \<or> i = CallFail (NodeFailure k)")
  case True
  then obtain k' v where i: "i = CallSetter k' v \<or> i = CallFail (NodeFailure k')" by blast
  have "filter_mset (creates k) (image_mset task_code (mset (awaiting_tasks (node_of m k')))) = {#}"
    "filter_mset (creates k) (image_mset task_code (mset (failure_tasks (node_of m k')))) = {#}"
    using assms(2) [of k'] by (intro no_creation [of _ vc calls R k']; auto simp: node_ok_def)+
  with i assms(1,3) show ?thesis by (auto simp: run_defs split: if_splits)
next
  case False
  with assms(1,3,4) show ?thesis
  proof (induction vc w i m rule: run_instr.induct)
    case (1 vc tid cid nodes consumer l fail s)
    have "filter_mset (creates k) (image_mset (\<lambda>k. EnsureValuePresent k l) (mset ks)) = {#}" for ks by (induction ks) auto
    with 1 show ?case by (auto simp: run_defs split: list.splits option.splits)
  next
    case (4 vc tid t s)
    then show ?case by (cases t) (auto simp: run_defs)
  next
    case (5 vc tid k' f s)
    then show ?case by (cases "node_IsReady (node_of s k')") (auto simp: spawned_def)
  next
    case (7 vc tid cid k' t s)
    then show ?case by (cases t) (auto simp: run_defs split: if_splits)
  qed (auto simp: run_defs dest: waits_no_creation split: run_splits)
qed

lemma created_ok_step:
  assumes "run_instr vc w i m = (m', new)" "map_sound vc calls m (add_mset i M)" "task_queue m = {#}" "created_ok m (add_mset i M)"
  shows "created_ok m' (M + spawned m' new)"
  unfolding created_ok_def
proof
  fix k
  have "node_ok vc calls (ready_keys m) k (node_of m k)" for k using assms(2) by (simp add: map_sound_def)
  moreover have "item_ok vc calls (ready_keys m) i" using assms(2) by (simp add: map_sound_def)
  ultimately have step: "count_list (created m') k + size (filter_mset (creates k) (spawned m' new)) + (if node_queued (node_of m k) then 1 else 0)
    \<le> count_list (created m) k + (if creates k i then 1 else 0) + (if node_queued (node_of m' k) then 1 else 0)"
    using run_creates [OF assms(1) _ assms(3)] by blast
  have "size (filter_mset (creates k) (add_mset i M)) = (if creates k i then 1 else 0) + size (filter_mset (creates k) M)" by simp
  moreover have "count_list (created m) k + size (filter_mset (creates k) (add_mset i M)) \<le> (if node_queued (node_of m k) then 1 else 0)"
    using assms(4) unfolding created_ok_def by blast
  moreover have "size (filter_mset (creates k) (M + spawned m' new)) =
      size (filter_mset (creates k) M) + size (filter_mset (creates k) (spawned m' new))" by simp
  ultimately show "count_list (created m') k + size (filter_mset (creates k) (M + spawned m' new)) \<le>
      (if node_queued (node_of m' k) then 1 else 0)"
    using step by linarith
qed

section \<open>All invariants\<close>

definition map_invariant :: "('k, 'v) creator \<Rightarrow> ('k list \<times> bool) list \<Rightarrow> ('k, 'v) map_state \<Rightarrow> ('k, 'v) map_instr multiset \<Rightarrow> bool" where
  "map_invariant vc calls m M \<longleftrightarrow> map_sound vc calls m M \<and> keys_ok calls m M \<and> created_ok m M \<and>
     (\<forall>j<length calls. call_alive calls m M j) \<and> ((\<forall>k. settles (vc k)) \<longrightarrow> map_live m M)"

lemma recorded_simp [simp]: "recorded (without_queue m) = recorded m"
  by (simp add: recorded_def)

lemma without_queue_invariants [simp]:
  "keys_ok calls (without_queue m) M = keys_ok calls m M" "created_ok (without_queue m) M = created_ok m M"
  "call_alive calls (without_queue m) M j = call_alive calls m M j" "map_live (without_queue m) M = map_live m M"
  by (simp_all add: keys_ok_def asked_def created_ok_def call_alive_def map_live_def cared_for_def guarded_def doomed_def parked_def)

lemma map_invariant_step:
  assumes inv: "map_invariant vc calls m (add_mset i M)" and queue: "task_queue m = {#}" and run: "run_instr vc w i m = (m', new)"
  shows "map_invariant vc calls (without_queue m') (M + mset new + image_mset task_code (task_queue m'))"
proof -
  have sound: "map_sound vc calls m (add_mset i M)" and keys: "keys_ok calls m (add_mset i M)"
    and created: "created_ok m (add_mset i M)" and alive: "\<forall>j<length calls. call_alive calls m (add_mset i M) j"
    using inv by (simp_all add: map_invariant_def)
  have "item_ok vc calls (ready_keys m) i" using sound by (simp add: map_sound_def)
  with keys_ok_step [OF run keys _ queue] have "keys_ok calls m' (M + spawned m' new)" by blast
  moreover have "map_live m' (M + spawned m' new)" if "\<forall>k. settles (vc k)"
    using map_live_step [OF run] inv that by (auto simp: map_invariant_def)
  ultimately show ?thesis
    using map_sound_step [OF sound queue run] created_ok_step [OF run sound queue created] call_alive_step [OF run _ sound keys] alive
    by (simp add: map_invariant_def spawned_def add.assoc)
qed

lemma client_calls_items:
  "i \<in> set (client_calls n calls) \<Longrightarrow>
     \<exists>j<length calls. \<exists>fail. i = ConsumeAfterKeysReady None (fst (calls ! j)) (TopConsumer (n + j)) TopLogger fail"
  "j < length calls \<Longrightarrow>
     \<exists>fail. ConsumeAfterKeysReady None (fst (calls ! j)) (TopConsumer (n + j)) TopLogger fail \<in> set (client_calls n calls)"
proof (induction n calls arbitrary: j rule: client_calls.induct)
  case (2 n nodes with_fail calls)
  {
    case 1
    then show ?case
    proof (cases "i \<in> set (client_calls (n + 1) calls)")
      case True
      with "2.IH"(1) obtain j fail where
        "j < length calls" "i = ConsumeAfterKeysReady None (fst (calls ! j)) (TopConsumer (n + 1 + j)) TopLogger fail" by blast
      then show ?thesis by (intro exI [of _ "Suc j"]) auto
    qed (intro exI [of _ 0], auto)
  next
    case 2
    with "2.IH"(2) [of "j - 1"] show ?case by (cases j) auto
  }
qed simp_all

lemma start_invariant: "map_invariant vc calls empty_map (mset (client_calls 0 calls))"
proof -
  have node: "node_of empty_map = (\<lambda>k. fresh_node)" by (simp add: fun_eq_iff node_of_def empty_map_def)
  note items = client_calls_items [where n = 0 and calls = calls]
  have "keys_ok calls empty_map (mset (client_calls 0 calls))"
    unfolding keys_ok_def node asked_def using items by (fastforce simp: fresh_node_def)
  moreover have "created_ok empty_map (mset (client_calls 0 calls))"
    unfolding created_ok_def node using items(1) by (fastforce simp: empty_map_def fresh_node_def filter_mset_eq_conv)
  moreover have "call_alive calls empty_map (mset (client_calls 0 calls)) j" if "j < length calls" for j
    unfolding call_alive_def using items(2) [OF that] by fastforce
  moreover have "map_live empty_map (mset (client_calls 0 calls))"
    unfolding map_live_def node waiting_def parked_def using items(1) by (fastforce simp: fresh_node_def settled_ok_def)
  ultimately show ?thesis using start_sound by (auto simp: map_invariant_def)
qed

lemma reachable_invariant:
  assumes "map_reachable vc (start_map jobs calls) s"
  shows "map_invariant vc calls (without_queue (async_map s)) (open_items s)"
  using assms
proof (rule view_invariant)
  show "map_invariant vc calls (without_queue (async_map (start_map jobs calls))) (open_items (start_map jobs calls))"
    unfolding start_view open_items_start by (rule start_invariant)
qed (rule map_invariant_step)

section \<open>Keys that are left\<close>

definition left_over :: "('k, 'v) map_state \<Rightarrow> 'k set" where
  "left_over m = {k. node_queued (node_of m k) \<and> node_value (node_of m k) = None \<and> \<not> node_failed (node_of m k)}"

lemma left_over_waits:
  assumes inv: "map_invariant vc calls m {#}" and settles: "\<forall>k. settles (vc k)" and k: "k \<in> left_over m"
  shows "\<exists>k'\<in>left_over m. (k, k') \<in> pending_requests m"
proof -
  have live: "map_live m {#}" and keys: "keys_ok calls m {#}" using inv settles by (simp_all add: map_invariant_def)
  from map_liveD(2) [OF live, of k] k obtain k' t where parked: "parked m k k' t"
    by (auto simp: left_over_def cared_for_def doomed_def waiting_def)
  with map_liveD(4) [OF live] have "(k, k') \<in> recorded m" by auto
  moreover from parked map_liveD(1) [OF live, of k'] have "node_value (node_of m k') = None" "\<not> node_failed (node_of m k')"
    by (auto simp: parked_def settled_ok_def)
  moreover from parked keys have "asked m {#} k'" by (auto simp: parked_def keys_ok_def)
  then have "node_queued (node_of m k')" by (simp add: asked_def)
  ultimately show ?thesis by (auto simp: left_over_def pending_requests_def IsReady_key_def node_IsReady_def)
qed

lemma finite_pending: "finite (pending_requests m)"
proof -
  have "finite (requested requests)" for requests :: "'a requests" by (induction requests) auto
  then show ?thesis by (rule finite_subset [rotated]) (auto simp: pending_requests_def recorded_def)
qed

lemma left_over_cycle:
  assumes "map_invariant vc calls m {#}" "\<forall>k. settles (vc k)" "DetectCycle m = None"
  shows "left_over m = {}"
proof (rule ccontr)
  assume "left_over m \<noteq> {}"
  have "acyclic (pending_requests m)"
    using assms(3) no_cycle_iff [OF GetPendingRequests_distinct, of m]
    by (simp add: DetectCycle_def Let_def GetPendingRequests_requested)
  with finite_pending have "wf ((pending_requests m)\<inverse>)" by (rule finite_acyclic_wf_converse)
  with \<open>left_over m \<noteq> {}\<close> obtain k where
    "k \<in> left_over m" "\<And>k'. (k', k) \<in> (pending_requests m)\<inverse> \<Longrightarrow> k' \<notin> left_over m"
    by (meson ex_in_conv wfE_min)
  with left_over_waits [OF assms(1,2)] show False by blast
qed

section \<open>A sample run\<close>

text \<open>Schedules that can be run: what thread goes on, or starts what task.\<close>

datatype ('k, 'v) choice = Go nat | Start nat "('k, 'v) map_task"

fun follow :: "('k, 'v) creator \<Rightarrow> ('k, 'v) choice list \<Rightarrow> ('k, 'v) map_system \<Rightarrow> ('k, 'v) map_system option" where
  "follow vc [] s = Some s"
| "follow vc (Go w # cs) s =
     (if w < length (thread_code s)
      then case thread_code s ! w of
             [] \<Rightarrow> None
           | i # is \<Rightarrow>
               (let (m, new) = run_instr vc w i (async_map s)
                in follow vc cs (s\<lparr>async_map := m, thread_code := (thread_code s)[w := new @ is]\<rparr>))
      else None)"
| "follow vc (Start w t # cs) s =
     (if 0 < w \<and> w < length (thread_code s) \<and> thread_code s ! w = [] \<and> t \<in># task_queue (async_map s)
      then follow vc cs (s\<lparr>async_map := (async_map s)\<lparr>task_queue := task_queue (async_map s) - {#t#}\<rparr>,
                           thread_code := (thread_code s)[w := [task_code t]]\<rparr>)
      else None)"

lemma follow_reachable: "follow vc cs s = Some s' \<Longrightarrow> map_reachable vc s0 s \<Longrightarrow> map_reachable vc s0 s'"
proof (induction vc cs s rule: follow.induct)
  case (2 vc w cs s)
  then obtain i "is" where i: "w < length (thread_code s)" "thread_code s ! w = i # is"
    by (auto split: if_splits list.splits)
  obtain m new where run: "run_instr vc w i (async_map s) = (m, new)" by fastforce
  have "map_reachable vc s0 (s\<lparr>async_map := m, thread_code := (thread_code s)[w := new @ is]\<rparr>)"
    using map_reachable.map_steps [OF "2.prems"(2) map_step.run_thread [OF i run]] .
  with "2.IH" [OF i run [symmetric] refl] "2.prems"(1) i run show ?case by simp
next
  case (3 vc w t cs s)
  then show ?case by (auto split: if_splits intro: map_reachable.map_steps map_step.start_task)
qed simp

definition sample_creator :: "(nat, nat) creator" where
  "sample_creator k = [SetValue (k + 1)]"

definition sample_calls :: "(nat list \<times> bool) list" where
  "sample_calls = [([3], True)]"

definition sample_schedule :: "(nat, nat) choice list" where
  "sample_schedule =
     replicate 8 (Go 0) @ [Start 1 (CreateValue 3 (NodeLogger 3 TopLogger))] @ replicate 4 (Go 1) @
     [Start 1 (WhenAllReady None (TopConsumer 0) (Some (TopFailure 0)) [3] 1)] @ replicate 2 (Go 1) @
     [Start 1 (CallConsumer (TopConsumer 0) [3])] @ [Go 1]"

definition sample_end :: "(nat, nat) map_system" where
  "sample_end =
     \<lparr>async_map =
        \<lparr>node_map = [3 \<mapsto> \<lparr>node_value = Some 4, awaiting_tasks = [], failure_tasks = [], node_queued = True, node_failed = False\<rparr>],
         requests_by_thread = [], task_queue = {#}, created = [3], consumed = [(0, [4])], top_failures = [], messages = []\<rparr>,
      thread_code = [[], []]\<rparr>"

lemma sample_run: "follow sample_creator sample_schedule (start_map 1 sample_calls) = Some sample_end"
  by (simp add: sample_schedule_def start_map_def sample_calls_def sample_creator_def sample_end_def eval_nat_numeral
      empty_map_def GetOrCreateNode_def set_node_def node_of_def fresh_node_def queue_tasks_def run_defs)

lemma sample_reachable: "map_reachable sample_creator (start_map 1 sample_calls) sample_end"
  by (rule follow_reachable [OF sample_run map_reachable.map_start])

lemma sample_at_rest: "at_rest sample_creator sample_end"
  by (auto simp: at_rest_def sample_end_def less_Suc_eq nth_Cons' elim!: map_step.cases)

lemma sample_settles: "\<forall>k. settles (sample_creator k)"
  by (simp add: sample_creator_def)

lemma sample_no_cycle: "DetectCycle (async_map sample_end) = None"
  by (simp add: DetectCycle_def GetPendingRequests_def sample_end_def)

section \<open>Results\<close>

text \<open>
  C40: The creator of a key is called at most once, whatever the schedule and however many clients and creators
  ask for the key.
\<close>

theorem creators_called_once:
  assumes "map_reachable vc (start_map jobs calls) s"
  shows "distinct (created (async_map s))"
proof -
  have "created_ok (without_queue (async_map s)) (open_items s)"
    using reachable_invariant [OF assms] by (simp add: map_invariant_def)
  then have "count_list (created (async_map s)) k + size (filter_mset (creates k) (open_items s)) \<le>
      (if node_queued (node_of (async_map s) k) then 1 else 0)" for k
    by (simp add: created_ok_def)
  then have count: "count_list (created (async_map s)) k \<le> 1" for k
    by (rule le_trans [OF add_leD1]) simp
  have "(\<And>k. count_list xs k \<le> 1) \<Longrightarrow> distinct xs" for xs :: "'a list"
  proof (induction xs)
    case (Cons x xs)
    then have "count_list xs x = 0" using Cons.prems [of x] by simp
    moreover have "count_list xs k \<le> 1" for k using Cons.prems [of k] by (simp split: if_splits)
    ultimately show ?case using Cons.IH by (simp add: count_list_0_iff)
  qed simp
  with count show ?thesis by blast
qed

theorem creators_called_once_witness: "distinct (created (async_map sample_end))"
  by (rule creators_called_once [OF sample_reachable])





end
