(* ===== verification/Spec2Isabelle.thy ===== *)
theory Spec2Isabelle
  imports Jst_Lexer_Props Jst_Ref_Props Jst_Parser_Props Jst_Json_Props Jst_Hash_Props
    Jst_Artifact_Props Jst_Dag_Props Jst_Traverser_Thms Jst_Evaluator_Props
    Jst_Repository_Graph Jst_TaskSystem_Thms Jst_Inline_Cases Jst_Preprocessor_Props
    Jst_AsyncMap_Thms
begin

text \<open>
  A development of \<^bold>\<open>jst\<close>, a build tool with its own configuration language. The program
  reads descriptions of targets (JSON, or files in the language \<^verbatim>\<open>jst\<close>), analyses them to
  actions and artifacts, puts these into a dependency graph and traverses the graph with many
  threads that call a runner for every action that is needed. The theories follow the parts of
  the program, with the names of the source; every theory opens with what it holds.

  \<^bold>\<open>The language\<close> (\<^verbatim>\<open>src/src/buildtool/jstlang\<close>).
  \<^item> \<open>Jst_Lexer\<close>: \<^verbatim>\<open>ast/native/lexer.{hpp,cpp}\<close>. A lexer is a record of source, position, line
    and column; its member functions are functions on the record. \<open>Jst_Lexer_Props\<close>: printing
    tokens and reading them again, positions, shapes of tokens, string literals.
  \<^item> \<open>Jst_Ref\<close>: \<^verbatim>\<open>ref.{hpp,cpp}\<close>, references to targets and files. \<open>Jst_Ref_Props\<close>: decoding what
    was encoded, the form of decoded references.
  \<^item> \<open>Jst_AST\<close>, \<open>Jst_Parser\<close>: \<^verbatim>\<open>ast/ast.hpp\<close>, \<^verbatim>\<open>ast/native/parser.{hpp,cpp}\<close>. The functions of the
    recursive descent have a fuel that is the number of tokens and one more, since each
    call consumes a token; \<^verbatim>\<open>ParseData\<close>, which follows imports, has a fuel above the number of
    readable files, since a file that is being parsed is not parsed again.
    \<open>Jst_Parser_Props\<close>: with these fuels the parser ends, the result does not depend on them,
    and import cycles are rejected; several lemmas state what the parser does on malformed
    input.

  \<^item> \<open>Jst_Render\<close>: \<^verbatim>\<open>ast/to_json_visitor.{hpp,cpp}\<close>, the JSON form of trees, which is either a
    literal value or an expression for the evaluator.
  \<^item> \<open>Jst_BuiltIn\<close>, \<open>Jst_BuiltIn_Table\<close>: \<^verbatim>\<open>ast/builtin_functions.{hpp,cpp}\<close>. A builtin function is
    computed at once where its arguments are literal. Comparison of pointers is a parameter, as
    trees have no identity.
  \<^item> \<open>Jst_Inline\<close>: \<^verbatim>\<open>ast/inline.cpp\<close>, \<^verbatim>\<open>ast/inline_visitor.{hpp,cpp}\<close>. Definitions and calls of functions
    are replaced. The language has functions as values, so that inlining need not end: the
    inliner has a bound on its depth.
    \<open>Jst_Inline_Props\<close>: what it gives is a consistent tree, in which only nodes for the evaluator are
    left. \<open>Jst_Inline_Bound\<close>: a greater bound gives the same result, and a program for which no
    bound is enough. \<open>Jst_Inline_Cases\<close>: small programs whose result is not what one expects.
  \<^item> \<open>Jst_Preprocessor\<close>: \<^verbatim>\<open>ast/analyze.hpp\<close>, \<^verbatim>\<open>ast/augment.cpp\<close>, \<^verbatim>\<open>preprocessor.{hpp,cpp}\<close> and parts of
    \<^verbatim>\<open>main.cpp\<close>: parsing, inlining and marking of fields, composed.
    \<open>Jst_Preprocessor_Props\<close>: results have a JSON form, and types of targets are not evaluated.

  \<^bold>\<open>Data of actions and artifacts\<close> (\<^verbatim>\<open>src/src/utils/cpp\<close>, \<^verbatim>\<open>src/src/buildtool/crypto\<close> and
  \<^verbatim>\<open>src/src/buildtool/common\<close>).
  \<^item> \<open>Jst_Json\<close>: values of the JSON library and the helpers on them, \<open>Jst_Reader\<close>: the reader that
    splits sources into chunks. Loops that might not end are options.
  \<^item> \<open>Jst_Hash\<close>: hexadecimal strings, hash functions, validated hashes, digests. OpenSSL is a
    parameter. \<open>Jst_Hash_Props\<close>: round trip of bytes, computed hashes are valid, hashing a file
    by chunks is hashing its content.
  \<^item> \<open>Jst_Artifact\<close>: artifacts, actions and their descriptions with the JSON forms.
    \<open>Jst_Artifact_Props\<close>: reading back what was written.

  \<^bold>\<open>Expressions\<close> (\<^verbatim>\<open>src/src/buildtool/build_engine/expression\<close>).
  \<^item> \<open>Jst_LinkedMap\<close>: \<^verbatim>\<open>linked_map.hpp\<close>, maps that shadow maps, with their abstract map.
  \<^item> \<open>Jst_Expression\<close>: \<^verbatim>\<open>expression\<close>, \<^verbatim>\<open>target_node\<close>, \<^verbatim>\<open>configuration\<close>: values with their JSON forms and
    hashes. Exceptions are the left side of a sum, with the two kinds the code distinguishes and
    the termination of the program. \<open>Jst_Numbers\<close>: the floating point numbers and the paths of the
    standard library that the evaluator uses.
  \<^item> \<open>Jst_Builtins\<close>, \<open>Jst_Evaluator\<close>: \<^verbatim>\<open>evaluator.{hpp,cpp}\<close>, the functions on values, the constructs,
    which get the evaluator as an argument, and the evaluator with a bound on its depth.
    \<open>Jst_Evaluator_Local\<close>: the locale \<open>language\<close> is the contract of a table of functions under which
    a bound above the size of the expression is enough; the table of the builtin functions meets
    it. \<open>Jst_Evaluator_Props\<close>: the theorems on evaluation, unions, duplicates, commands,
    quasi-quotation and JSON forms.

  \<^bold>\<open>Repositories\<close> (\<^verbatim>\<open>src/src/buildtool/common/repository_config.{hpp,cpp}\<close> and what it uses).
  \<^item> \<open>Jst_Automata\<close>: \<^verbatim>\<open>src/src/utils/automata/dfa_minimizer.hpp\<close>. The orders in which unordered maps are
    iterated are parameters. \<open>Jst_Automata_Props\<close>: the minimizer computes bisimilarity.
  \<^item> \<open>Jst_Repository\<close>: precomputed roots, the kinds of file roots
    (\<^verbatim>\<open>src/src/buildtool/file_system/{precomputed_root,file_root}\<close>) and the configuration. The
    traversal of the bindings has a fuel of the number of repositories and one more, since every
    nested call gives an identifier to another repository. \<open>Jst_Repository_Props\<close>: canonical names
    are bisimilarity of content-fixed repositories. \<open>Jst_Repository_Graph\<close>: the graph that is hashed
    for the key exists exactly where all that is reachable is content-fixed, and it determines
    the content.

  \<^bold>\<open>Execution\<close> (\<^verbatim>\<open>src/src/buildtool/execution_engine\<close>).
  \<^item> \<open>Jst_Dag\<close>: \<^verbatim>\<open>dag/dag.{hpp,cpp}\<close>. Pointers to nodes are indices. \<open>Jst_Dag_Props\<close>: the locale
    \<open>find_or_append\<close> states the contract of a table of nodes, interpreted for artifacts and for
    actions; every addition keeps the links at both ends, and an action is added exactly where
    its outputs have no builder.
  \<^item> \<open>Jst_Traverser\<close>: \<^verbatim>\<open>traverser/traverser.hpp\<close> on the threads of
    \<^verbatim>\<open>multithreading/task_system.{hpp,cpp}\<close>. The member functions are cut into atomic
    instructions, and a step relation interleaves the threads. \<open>Jst_Traverser_View\<close>: a locale of
    views of step relations, and two views that forget which thread an instruction belongs to
    and whether a task has been taken. \<open>Jst_Traverser_Props\<close>: invariants of safety,
    \<open>Jst_Traverser_Live\<close>: a measure that every step decreases, and what is pending while nothing
    has failed. \<open>Jst_Traverser_Graph\<close>: graphs of added actions may be traversed.
    \<open>Jst_Traverser_Thms\<close>: the theorems, with a complete run as a witness.

  \<^bold>\<open>Threads\<close> (\<^verbatim>\<open>src/src/buildtool/multithreading\<close>).
  \<^item> \<open>Jst_AsyncMap\<close>: \<^verbatim>\<open>async_map_node.hpp\<close>, \<^verbatim>\<open>async_map.hpp\<close>, \<^verbatim>\<open>async_map_consumer.hpp\<close> and
    \<^verbatim>\<open>async_map_utils.hpp\<close>, the maps on which the analysis runs. Value creators are a parameter: what
    they do to the map is a list of actions. \<open>Jst_AsyncMap_Cycle\<close>: the search for cycles.
    \<open>Jst_AsyncMap_View\<close>: invariants of all schedules, \<open>Jst_AsyncMap_Values\<close>: values and failures are
    those of the creators, \<open>Jst_AsyncMap_Live\<close>: every key that is asked for is taken care of,
    \<open>Jst_AsyncMap_Keys\<close>: who is waited for has been asked for, \<open>Jst_AsyncMap_Thms\<close>: creators are called
    once, results do not depend on the schedule, calls are answered unless there is a cycle.
  \<^item> \<open>Jst_TaskSystem\<close>: \<^verbatim>\<open>task_system.{hpp,cpp}\<close>, \<^verbatim>\<open>notification_queue.hpp\<close>. A thread is the list of
    operations it still has to do; mutexes, conditions, attempts to lock that fail for no reason
    and wake-ups without one are explicit, and any interleaving is allowed.
    \<open>Jst_TaskSystem_Props\<close>: the programs threads can have, what each operation does to locks, to
    the counter of the workload and to the account of the tasks. \<open>Jst_TaskSystem_Live\<close>: invariants
    of all reachable states, \<open>Jst_TaskSystem_Thms\<close>: the bounds of the counter, no task is lost, and
    threads stop only when nothing is left to do. This is what allows the traverser to be
    modelled on tasks that are taken in any order.

  \<^bold>\<open>Not modelled\<close>: the analysis of targets (consumers of asynchronous maps), the text of trees for
  the log of debug builds, storage, remote execution and services, git and the file system (system calls
  and libraries), the command line and logging.
\<close>

end
